(* ===== verification/Prelude.thy ===== *)
theory Prelude
  imports Main "HOL-Library.Word" "HOL-Library.AList" "HOL-Library.Multiset"
begin

text \<open>
  The vocabulary every component shares: machine integers and byte strings, Rust's
  \<^verbatim>\<open>Result\<close> as a sum, \<^verbatim>\<open>Poll\<close>, \<^verbatim>\<open>Duration\<close>, the little- and big-endian byte
  conversions of the integer types, and \<^verbatim>\<open>HashMap\<close> as an association list whose
  order is the order in which an iteration would visit the entries.  The lemmas are
  the generic facts on sums, lists, words and association lists on which the component
  proofs rest.
\<close>

unbundle bit_operations_syntax

named_theorems result_simps \<open>unfolding of the result combinators\<close>
named_theorems bytes_simps \<open>lengths and inverses of the byte conversions\<close>

section \<open>Types\<close>

type_synonym u8 = "8 word"
type_synonym u16 = "16 word"
type_synonym u32 = "32 word"
type_synonym u64 = "64 word"
type_synonym u128 = "128 word"
type_synonym usize = nat
type_synonym bytes = "u8 list"

text \<open>\<^verbatim>\<open>std::time::Duration\<close>, counted in milliseconds (the finest unit the sources use).\<close>

type_synonym duration = nat

definition Duration_from_secs :: "nat \<Rightarrow> duration" where
  "Duration_from_secs s = 1000 * s"

definition Duration_from_millis :: "nat \<Rightarrow> duration" where
  "Duration_from_millis ms = ms"

text \<open>\<^verbatim>\<open>Result<T, E>\<close> is the sum \<open>'e + 'a\<close>.\<close>

type_synonym ('a, 'e) result = "'e + 'a"

abbreviation Ok :: "'a \<Rightarrow> ('a, 'e) result" where
  "Ok \<equiv> Inr"

abbreviation Err :: "'e \<Rightarrow> ('a, 'e) result" where
  "Err \<equiv> Inl"

text \<open>\<^verbatim>\<open>std::task::Poll\<close>.\<close>

datatype 'a poll = Ready 'a | Pending

text \<open>
  The outcome of code that may panic (\<^verbatim>\<open>unwrap\<close> on an error, an index out of range,
  an explicit \<^verbatim>\<open>panic!\<close>): a panic is a value.
\<close>

datatype 'a outcome = Panic | Return 'a

section \<open>Result combinators\<close>

text \<open>The \<^verbatim>\<open>?\<close> operator: continue on \<^verbatim>\<open>Ok\<close>, return early on \<^verbatim>\<open>Err\<close>.\<close>

definition and_then :: "('a, 'e) result \<Rightarrow> ('a \<Rightarrow> ('b, 'e) result) \<Rightarrow> ('b, 'e) result" where
  "and_then r f = (case r of Err e \<Rightarrow> Err e | Ok x \<Rightarrow> f x)"

definition map_err :: "('e \<Rightarrow> 'f) \<Rightarrow> ('a, 'e) result \<Rightarrow> ('a, 'f) result" where
  "map_err g r = (case r of Err e \<Rightarrow> Err (g e) | Ok x \<Rightarrow> Ok x)"

definition map_ok :: "('a \<Rightarrow> 'b) \<Rightarrow> ('a, 'e) result \<Rightarrow> ('b, 'e) result" where
  "map_ok g r = (case r of Err e \<Rightarrow> Err e | Ok x \<Rightarrow> Ok (g x))"

definition is_ok :: "('a, 'e) result \<Rightarrow> bool" where
  "is_ok r = (case r of Err e \<Rightarrow> False | Ok x \<Rightarrow> True)"

definition unwrap :: "('a, 'e) result \<Rightarrow> 'a outcome" where
  "unwrap r = (case r of Err e \<Rightarrow> Panic | Ok x \<Rightarrow> Return x)"

definition bind_outcome :: "'a outcome \<Rightarrow> ('a \<Rightarrow> 'b outcome) \<Rightarrow> 'b outcome" where
  "bind_outcome m f = (case m of Panic \<Rightarrow> Panic | Return x \<Rightarrow> f x)"

lemma and_then_simps [simp, result_simps]:
  "and_then (Err e) f = Err e"
  "and_then (Ok x) f = f x"
  by (simp_all add: and_then_def)

lemma map_err_simps [simp, result_simps]:
  "map_err g (Err e) = Err (g e)"
  "map_err g (Ok x) = Ok x"
  by (simp_all add: map_err_def)

lemma map_ok_simps [simp, result_simps]:
  "map_ok h (Err e) = Err e"
  "map_ok h (Ok x) = Ok (h x)"
  by (simp_all add: map_ok_def)

lemma is_ok_simps [simp, result_simps]:
  "\<not> is_ok (Err e)"
  "is_ok (Ok x)"
  by (simp_all add: is_ok_def)

lemma unwrap_simps [simp, result_simps]:
  "unwrap (Err e) = Panic"
  "unwrap (Ok x) = Return x"
  by (simp_all add: unwrap_def)

lemma bind_outcome_simps [simp, result_simps]:
  "bind_outcome Panic k = Panic"
  "bind_outcome (Return x) k = k x"
  by (simp_all add: bind_outcome_def)

lemma and_then_eq_Ok_iff:
  "and_then r f = Ok y \<longleftrightarrow> (\<exists>x. r = Ok x \<and> f x = Ok y)"
  by (cases r) simp_all

lemma and_then_eq_Err_iff:
  "and_then r f = Err e \<longleftrightarrow> r = Err e \<or> (\<exists>x. r = Ok x \<and> f x = Err e)"
  by (cases r) simp_all

lemma and_then_assoc: "and_then (and_then r f) g = and_then r (\<lambda>x. and_then (f x) g)"
  by (cases r) simp_all

lemma and_then_cong [fundef_cong]:
  "r = r' \<Longrightarrow> (\<And>x. r' = Ok x \<Longrightarrow> f x = f' x) \<Longrightarrow> and_then r f = and_then r' f'"
  by (cases r') simp_all

lemma and_then_Ok_right [simp]: "and_then r Ok = r"
  by (cases r) simp_all

lemma is_ok_iff: "is_ok r \<longleftrightarrow> (\<exists>x. r = Ok x)"
  by (cases r) simp_all

lemma unwrap_eq_Return_iff [simp]: "unwrap r = Return x \<longleftrightarrow> r = Ok x"
  by (cases r) simp_all

lemma unwrap_eq_Panic_iff: "unwrap r = Panic \<longleftrightarrow> \<not> is_ok r"
  by (cases r) simp_all

lemma bind_outcome_cong [fundef_cong]:
  "m = m' \<Longrightarrow> (\<And>x. m' = Return x \<Longrightarrow> f x = f' x) \<Longrightarrow> bind_outcome m f = bind_outcome m' f'"
  by (cases m') simp_all

lemma bind_outcome_weak_cong: "m = m' \<Longrightarrow> bind_outcome m f = bind_outcome m' f"
  by simp

lemma bind_outcome_eq_Return_iff:
  "bind_outcome m f = Return y \<longleftrightarrow> (\<exists>x. m = Return x \<and> f x = Return y)"
  by (cases m) simp_all

section \<open>Integers and bytes\<close>

text \<open>
  \<^verbatim>\<open>to_le_bytes\<close>, \<^verbatim>\<open>from_le_bytes\<close> and their big-endian counterparts.  The width in
  bytes, \<^verbatim>\<open>size_of::<T>()\<close>, is \<open>size_of w\<close>; signed integers have the same bit patterns.
\<close>

definition size_of :: "'w::len word itself \<Rightarrow> nat" where
  "size_of t = LENGTH('w) div 8"

fun le_bytes :: "nat \<Rightarrow> 'w::len word \<Rightarrow> bytes" where
  "le_bytes 0 w = []"
| "le_bytes (Suc n) w = ucast w # le_bytes n (drop_bit 8 w)"

definition to_le_bytes :: "'w::len word \<Rightarrow> bytes" where
  "to_le_bytes w = le_bytes (size_of TYPE('w word)) w"

fun from_le_bytes :: "bytes \<Rightarrow> 'w::len word" where
  "from_le_bytes [] = 0"
| "from_le_bytes (b # bs) = ucast b OR push_bit 8 (from_le_bytes bs)"

definition to_be_bytes :: "'w::len word \<Rightarrow> bytes" where
  "to_be_bytes w = rev (to_le_bytes w)"

definition from_be_bytes :: "bytes \<Rightarrow> 'w::len word" where
  "from_be_bytes bs = from_le_bytes (rev bs)"

definition bool_to_word :: "bool \<Rightarrow> 'w::len word" where
  "bool_to_word b = (if b then 1 else 0)"

lemma bool_to_word_simps [simp]:
  "bool_to_word True = 1" "bool_to_word False = 0"
  by (simp_all add: bool_to_word_def)

lemma size_of_simps [simp]:
  "size_of TYPE(u8) = 1" "size_of TYPE(u16) = 2" "size_of TYPE(u32) = 4"
  "size_of TYPE(u64) = 8" "size_of TYPE(u128) = 16"
  by (simp_all add: size_of_def)

lemma length_le_bytes [simp]: "length (le_bytes n w) = n"
  by (induction n arbitrary: w) simp_all

lemma length_to_le_bytes [simp, bytes_simps]:
  "length (to_le_bytes (w :: 'w::len word)) = size_of TYPE('w word)"
  by (simp add: to_le_bytes_def)

lemma length_to_be_bytes [simp, bytes_simps]:
  "length (to_be_bytes (w :: 'w::len word)) = size_of TYPE('w word)"
  by (simp add: to_be_bytes_def)

lemma from_le_bytes_le_bytes:
  "from_le_bytes (le_bytes n w) = take_bit (8 * n) (w :: 'w::len word)"
proof (induction n arbitrary: w)
  case (Suc n)
  show ?case
    by (rule bit_word_eqI) (auto simp: Suc bit_simps not_less le_diff_conv less_diff_conv2)
qed simp

lemma from_le_bytes_to_le_bytes [bytes_simps]:
  "8 * size_of TYPE('w word) = LENGTH('w) \<Longrightarrow> from_le_bytes (to_le_bytes w) = (w :: 'w::len word)"
  by (simp add: to_le_bytes_def from_le_bytes_le_bytes take_bit_word_eq_self)

lemma from_be_bytes_to_be_bytes [bytes_simps]:
  "8 * size_of TYPE('w word) = LENGTH('w) \<Longrightarrow> from_be_bytes (to_be_bytes w) = (w :: 'w::len word)"
  by (simp add: to_be_bytes_def from_be_bytes_def from_le_bytes_to_le_bytes)

lemma not_bit_u8: "\<not> bit (b :: u8) (n + 8)"
  using bit_imp_le_length [of b "n + 8"] by auto

lemma bit_from_le_bytes_bound:
  "bit (from_le_bytes bs :: 'w::len word) i \<Longrightarrow> i < 8 * length bs"
proof (induction bs arbitrary: i)
  case (Cons b bs)
  then consider "bit b i" | "8 \<le> i" "bit (from_le_bytes bs :: 'w word) (i - 8)"
    by (auto simp: bit_simps)
  then show ?case
  proof cases
    case 1
    then show ?thesis using bit_imp_le_length [of b i] by auto
  next
    case 2
    then show ?thesis using Cons.IH [of "i - 8"] by auto
  qed
qed simp

lemma le_bytes_from_le_bytes:
  "8 * length bs \<le> LENGTH('w) \<Longrightarrow> le_bytes (length bs) (from_le_bytes bs :: 'w::len word) = bs"
proof (induction bs)
  case (Cons b bs)
  have hd: "ucast (ucast b OR push_bit 8 (from_le_bytes bs :: 'w word)) = b"
    using Cons.prems by (auto intro!: bit_word_eqI simp: bit_simps)
  have tl: "drop_bit 8 (ucast b OR push_bit 8 (from_le_bytes bs :: 'w word)) = from_le_bytes bs"
  proof (rule bit_word_eqI)
    fix n
    assume "n < LENGTH('w)"
    moreover have "bit (from_le_bytes bs :: 'w word) n \<Longrightarrow> n + 8 < LENGTH('w)"
      using Cons.prems bit_from_le_bytes_bound [of bs n, where 'w = 'w] by auto
    ultimately show "bit (drop_bit 8 (ucast b OR push_bit 8 (from_le_bytes bs :: 'w word))) n
        = bit (from_le_bytes bs :: 'w word) n"
      by (auto simp: bit_simps not_bit_u8 add.commute)
  qed
  show ?case using Cons by (simp add: hd tl del: drop_bit_or)
qed simp

lemma to_le_bytes_from_le_bytes:
  "8 * size_of TYPE('w word) = LENGTH('w) \<Longrightarrow> length bs = size_of TYPE('w word) \<Longrightarrow>
    to_le_bytes (from_le_bytes bs :: 'w::len word) = bs"
  by (metis le_bytes_from_le_bytes order_refl to_le_bytes_def)

lemma to_be_bytes_from_be_bytes:
  "8 * size_of TYPE('w word) = LENGTH('w) \<Longrightarrow> length bs = size_of TYPE('w word) \<Longrightarrow>
    to_be_bytes (from_be_bytes bs :: 'w::len word) = bs"
  by (simp add: to_be_bytes_def from_be_bytes_def to_le_bytes_from_le_bytes)

lemma be_bytes_eq_iff:
  assumes "8 * size_of TYPE('w word) = LENGTH('w)"
  shows "data = to_be_bytes (w :: 'w::len word) \<longleftrightarrow>
    length data = size_of TYPE('w word) \<and> from_be_bytes data = w"
  using assms by (auto simp: from_be_bytes_to_be_bytes to_be_bytes_from_be_bytes)

lemma to_le_bytes_eq_iff:
  assumes "8 * size_of TYPE('w word) = LENGTH('w)"
  shows "to_le_bytes (a :: 'w::len word) = to_le_bytes b \<longleftrightarrow> a = b"
  using from_le_bytes_to_le_bytes [OF assms] by metis

lemma to_le_bytes_u16: "to_le_bytes (w :: u16) = [ucast w, ucast (drop_bit 8 w)]"
  by (simp add: to_le_bytes_def numeral_2_eq_2)

lemma to_be_bytes_u16: "to_be_bytes (w :: u16) = [ucast (drop_bit 8 w), ucast w]"
  by (simp add: to_be_bytes_def to_le_bytes_def numeral_2_eq_2)

lemma from_be_bytes_single: "from_be_bytes [c] = (c :: u8)"
  by (simp add: from_be_bytes_def)

section \<open>HashMap as an association list\<close>

text \<open>
  \<^verbatim>\<open>HashMap::get\<close> is \<^const>\<open>map_of\<close>, \<^verbatim>\<open>insert\<close> is \<^const>\<open>AList.update\<close>, \<^verbatim>\<open>remove\<close>
  is \<^const>\<open>AList.delete\<close>.  Rust leaves the iteration order open: the statements about
  maps hold for every order of the list, and the step relations of the components may
  reorder it (\<open>reordered\<close>).
\<close>

type_synonym ('k, 'v) hash_map = "('k \<times> 'v) list"

definition hm_wf :: "('k, 'v) hash_map \<Rightarrow> bool" where
  "hm_wf m \<longleftrightarrow> distinct (map fst m)"

definition reordered :: "('k, 'v) hash_map \<Rightarrow> ('k, 'v) hash_map \<Rightarrow> bool" where
  "reordered m m' \<longleftrightarrow> set m' = set m \<and> distinct (map fst m')"

text \<open>\<^verbatim>\<open>for (_, v) in map.iter_mut() { f(v) }\<close>.\<close>

definition hm_map_values :: "('v \<Rightarrow> 'v) \<Rightarrow> ('k, 'v) hash_map \<Rightarrow> ('k, 'v) hash_map" where
  "hm_map_values f m = map (\<lambda>(k, v). (k, f v)) m"

text \<open>\<^verbatim>\<open>if let Some(v) = map.get_mut(k) { f(v) }\<close>.\<close>

definition hm_modify :: "'k \<Rightarrow> ('v \<Rightarrow> 'v) \<Rightarrow> ('k, 'v) hash_map \<Rightarrow> ('k, 'v) hash_map" where
  "hm_modify k f m = map (\<lambda>(k', v). (k', if k' = k then f v else v)) m"

lemma hm_map_values_keys [simp]: "map fst (hm_map_values f m) = map fst m"
  by (induction m) (auto simp: hm_map_values_def)

lemma hm_modify_keys [simp]: "map fst (hm_modify k f m) = map fst m"
  by (induction m) (auto simp: hm_modify_def)

lemma map_of_hm_map_values [simp]:
  "map_of (hm_map_values f m) k = map_option f (map_of m k)"
  by (induction m) (auto simp: hm_map_values_def)

lemma map_of_hm_modify [simp]:
  "map_of (hm_modify k f m) k' = (if k' = k then map_option f (map_of m k) else map_of m k')"
  by (induction m) (auto simp: hm_modify_def)

lemma hm_wf_operations [simp, intro]:
  "hm_wf []"
  "hm_wf m \<Longrightarrow> hm_wf (AList.update k v m)"
  "hm_wf m \<Longrightarrow> hm_wf (AList.delete k m)"
  "hm_wf m \<Longrightarrow> hm_wf (hm_map_values f m)"
  "hm_wf m \<Longrightarrow> hm_wf (hm_modify k g m)"
  by (simp_all add: hm_wf_def distinct_update distinct_delete)

lemma reordered_wf: "reordered m m' \<Longrightarrow> hm_wf m'"
  by (simp add: reordered_def hm_wf_def)

lemma reordered_map_of: "hm_wf m \<Longrightarrow> reordered m m' \<Longrightarrow> map_of m' = map_of m"
  by (metis hm_wf_def map_of_inject_set reordered_def)

lemma update_fresh: "map_of m k = None \<Longrightarrow> AList.update k v m = m @ [(k, v)]"
  by (induction m) auto

lemma mset_delete:
  "hm_wf m \<Longrightarrow> map_of m k = Some v \<Longrightarrow> mset m = add_mset (k, v) (mset (AList.delete k m))"
proof (induction m)
  case (Cons p m)
  obtain k' v' where p: "p = (k', v')" by (cases p)
  show ?case
  proof (cases "k' = k")
    case True
    then have "AList.delete k m = m"
      using Cons.prems(1) p by (auto simp: hm_wf_def intro!: delete_idem)
    with True p Cons.prems(2) show ?thesis by simp
  next
    case False
    with p Cons show ?thesis by (auto simp: hm_wf_def)
  qed
qed simp

section \<open>Lists\<close>

lemma length_removeAll_distinct:
  "distinct xs \<Longrightarrow> x \<in> set xs \<Longrightarrow> length (removeAll x xs) = length xs - 1"
  by (simp add: distinct_remove1_removeAll [symmetric] length_remove1)

lemma append_eq_longer:
  assumes "x @ y = h @ z" "length h \<le> length x"
  shows "x = h @ drop (length h) x" "z = drop (length h) x @ y"
proof -
  have "take (length h) x = h" using assms by (auto simp: append_eq_append_conv_if split: if_splits)
  then show x: "x = h @ drop (length h) x" by (metis append_take_drop_id)
  show "z = drop (length h) x @ y" using assms(1) x by (metis append.assoc same_append_eq)
qed

lemma distinct_concat_split:
  "xs = as @ x # bs \<Longrightarrow> distinct xs \<Longrightarrow> x \<notin> set as \<union> set bs"
  by auto

end
