(* ===== verification/Runtime.thy ===== *)
theory Runtime
  imports Prelude
begin

text \<open>
  The small pieces of run-time support: process-unique keys (\<^verbatim>\<open>unique_key.rs\<close>), stored
  wakers (\<^verbatim>\<open>waker_store.rs\<close>), the executor (\<^verbatim>\<open>async_std_executor.rs\<close>) and sleep
  futures.  What the surrounding crates decide is an argument: the identifier handed
  out by \<^verbatim>\<open>snowflake\<close>, the future handed out by \<^verbatim>\<open>async_std::task::sleep\<close>, and whether
  a future is ready when it is polled.
\<close>

section \<open>Unique keys\<close>

text \<open>\<^verbatim>\<open>snowflake::ProcessUniqueId\<close>: an opaque value of which only equality is used.\<close>

type_synonym process_unique_id = nat

datatype unique_key = UniqueKey process_unique_id

definition UniqueKey_new :: "process_unique_id \<Rightarrow> unique_key" where
  "UniqueKey_new fresh = UniqueKey fresh"

instantiation unique_key :: linorder
begin

fun less_eq_unique_key :: "unique_key \<Rightarrow> unique_key \<Rightarrow> bool" where
  "less_eq_unique_key (UniqueKey a) (UniqueKey b) \<longleftrightarrow> a \<le> b"

fun less_unique_key :: "unique_key \<Rightarrow> unique_key \<Rightarrow> bool" where
  "less_unique_key (UniqueKey a) (UniqueKey b) \<longleftrightarrow> a < b"

instance
proof
  fix x y z :: unique_key
  show "x < y \<longleftrightarrow> x \<le> y \<and> \<not> y \<le> x" by (cases x; cases y) auto
  show "x \<le> x" by (cases x) simp
  show "x \<le> y \<Longrightarrow> y \<le> z \<Longrightarrow> x \<le> z" by (cases x; cases y; cases z) simp
  show "x \<le> y \<Longrightarrow> y \<le> x \<Longrightarrow> x = y" by (cases x; cases y) simp
  show "x \<le> y \<or> y \<le> x" by (cases x; cases y) auto
qed

end

section \<open>Sleep futures\<close>

text \<open>
  The boxed future of \<^verbatim>\<open>async_std::task::sleep(d)\<close> is a handle.  An operation that calls
  \<^verbatim>\<open>sleep\<close> takes the function \<open>sleep\<close> from durations to handles as an argument, and one
  that polls a future takes \<open>timer_ready\<close>, the answers of this poll.
\<close>

datatype sleep_future = SleepFuture nat

type_synonym sleep_fn = "duration \<Rightarrow> sleep_future"
type_synonym timer_ready = "sleep_future \<Rightarrow> bool"

section \<open>Stored wakers\<close>

text \<open>
  \<^verbatim>\<open>Context\<close> is represented by its waker.  \<open>woken\<close> is the history of the wakers on
  which \<^verbatim>\<open>wake()\<close> was called, the only effect a waker has.
\<close>

datatype waker = Waker nat

record waker_store =
  storage :: "waker option"
  woken :: "waker list"

definition WakerStore_new :: waker_store where
  "WakerStore_new = \<lparr>storage = None, woken = []\<rparr>"

definition WakerStore_register :: "waker_store \<Rightarrow> waker \<Rightarrow> waker_store" where
  "WakerStore_register s w = s\<lparr>storage := Some w\<rparr>"

definition WakerStore_take :: "waker_store \<Rightarrow> waker option \<times> waker_store" where
  "WakerStore_take s = (storage s, s\<lparr>storage := None\<rparr>)"

definition WakerStore_wake :: "waker_store \<Rightarrow> waker_store" where
  "WakerStore_wake s =
     (case WakerStore_take s of
        (Some w, s') \<Rightarrow> s'\<lparr>woken := woken s' @ [w]\<rparr>
      | (None, s') \<Rightarrow> s')"

definition WakerStore_pend :: "waker_store \<Rightarrow> waker \<Rightarrow> 'a poll \<times> waker_store" where
  "WakerStore_pend s cx = (Pending, WakerStore_register s cx)"

lemma storage_after_wake [simp]: "storage (WakerStore_wake s) = None"
  by (simp add: WakerStore_wake_def WakerStore_take_def split: option.splits)

lemma woken_after_wake:
  "woken (WakerStore_wake s) = woken s @ (case storage s of None \<Rightarrow> [] | Some w \<Rightarrow> [w])"
  by (simp add: WakerStore_wake_def WakerStore_take_def split: option.splits)

lemma WakerStore_pend_simps [simp]:
  "fst (WakerStore_pend s cx) = Pending"
  "storage (snd (WakerStore_pend s cx)) = Some cx"
  "woken (snd (WakerStore_pend s cx)) = woken s"
  by (simp_all add: WakerStore_pend_def WakerStore_register_def)

section \<open>The executor\<close>

text \<open>
  \<^verbatim>\<open>AsyncStdExecutor\<close> keeps the join handles of the spawned tasks.  Polling it polls each
  handle once (\<open>finished\<close> gives the answers) and keeps those that are pending; it is
  ready when none is left.
\<close>

type_synonym join_handle = nat

record async_std_executor =
  handles :: "join_handle list"

definition AsyncStdExecutor_new :: async_std_executor where
  "AsyncStdExecutor_new = \<lparr>handles = []\<rparr>"

definition AsyncStdExecutor_spawn_obj ::
    "async_std_executor \<Rightarrow> join_handle \<Rightarrow> (unit, unit) result \<times> async_std_executor" where
  "AsyncStdExecutor_spawn_obj e h = (Ok (), e\<lparr>handles := handles e @ [h]\<rparr>)"

fun AsyncStdExecutor_poll_handles ::
    "(join_handle \<Rightarrow> bool) \<Rightarrow> join_handle list \<Rightarrow> async_std_executor \<Rightarrow> async_std_executor" where
  "AsyncStdExecutor_poll_handles finished [] e = e"
| "AsyncStdExecutor_poll_handles finished (h # hs) e =
     AsyncStdExecutor_poll_handles finished hs
       (if finished h then e else e\<lparr>handles := handles e @ [h]\<rparr>)"

definition AsyncStdExecutor_poll ::
    "(join_handle \<Rightarrow> bool) \<Rightarrow> async_std_executor \<Rightarrow> unit poll \<times> async_std_executor" where
  "AsyncStdExecutor_poll finished e =
     (let joinhandles = handles e;
          e' = AsyncStdExecutor_poll_handles finished joinhandles (e\<lparr>handles := []\<rparr>);
          num_remaining = length (handles e')
      in (if num_remaining = 0 then Ready () else Pending, e'))"

lemma handles_poll_handles:
  "handles (AsyncStdExecutor_poll_handles finished hs e) =
    handles e @ [h \<leftarrow> hs. \<not> finished h]"
  by (induction hs arbitrary: e) auto

end
