(* ===== verification/Crates.thy ===== *)
theory Crates
  imports Prelude
begin

text \<open>
  The third-party crates the program calls, as interfaces: for each crate a record of
  the operations the sources use and a locale with their documented behaviour.  The
  definitions of the model take such a record as an argument, and the theorems that
  need the crate to do what its documentation says assume the locale predicate.
  \<^item> \<^verbatim>\<open>bitfield\<close>: \<^verbatim>\<open>bit_range(msb, lsb)\<close> and \<^verbatim>\<open>set_bit_range(msb, lsb, value)\<close>, to
    which the accessors generated by \<^verbatim>\<open>bitfield!\<close> expand;
  \<^item> \<^verbatim>\<open>bimap\<close>: \<^verbatim>\<open>BiMap::new\<close>, \<^verbatim>\<open>insert\<close>, \<^verbatim>\<open>remove_by_left\<close>, \<^verbatim>\<open>remove_by_right\<close>;
  \<^item> \<^verbatim>\<open>nom\<close> (streaming): \<^verbatim>\<open>tag\<close>, \<^verbatim>\<open>be_u8\<close>, \<^verbatim>\<open>be_u16\<close>, \<^verbatim>\<open>take\<close>, \<^verbatim>\<open>sequence::tuple\<close>;
  \<^item> \<^verbatim>\<open>cookie-factory\<close>: \<^verbatim>\<open>slice\<close>, \<^verbatim>\<open>be_u8\<close>, \<^verbatim>\<open>be_u16\<close>, \<^verbatim>\<open>sequence::tuple\<close>, \<^verbatim>\<open>gen\<close>.
  Each interface is interpreted on a full implementation of the documented behaviour,
  so that the hypotheses are satisfiable and every witness can be evaluated.
\<close>

section \<open>bitfield\<close>

record 'w bitfield_ops =
  bit_range :: "'w \<Rightarrow> nat \<Rightarrow> nat \<Rightarrow> 'w"
  set_bit_range :: "'w \<Rightarrow> nat \<Rightarrow> nat \<Rightarrow> 'w \<Rightarrow> 'w"

locale bitfield_crate =
  fixes bf :: "('w::len word) bitfield_ops"
  assumes bit_bit_range: "lsb \<le> msb \<Longrightarrow> msb < LENGTH('w) \<Longrightarrow>
      bit (bit_range bf w msb lsb) n \<longleftrightarrow> n + lsb \<le> msb \<and> bit w (n + lsb)"
    and bit_set_bit_range: "lsb \<le> msb \<Longrightarrow> msb < LENGTH('w) \<Longrightarrow>
      bit (set_bit_range bf w msb lsb v) n \<longleftrightarrow>
        (if lsb \<le> n \<and> n \<le> msb then bit v (n - lsb) else bit w n)"
begin

lemma get_set_same:
  "lsb \<le> msb \<Longrightarrow> msb < LENGTH('w) \<Longrightarrow>
    bit_range bf (set_bit_range bf w msb lsb v) msb lsb = take_bit (msb + 1 - lsb) v"
  by (rule bit_word_eqI) (auto simp: bit_bit_range bit_set_bit_range bit_take_bit_iff)

lemma get_set_other:
  "lsb \<le> msb \<Longrightarrow> msb < LENGTH('w) \<Longrightarrow> lsb' \<le> msb' \<Longrightarrow> msb' < LENGTH('w) \<Longrightarrow>
    msb < lsb' \<or> msb' < lsb \<Longrightarrow>
    bit_range bf (set_bit_range bf w msb lsb v) msb' lsb' = bit_range bf w msb' lsb'"
  by (rule bit_word_eqI) (auto simp: bit_bit_range bit_set_bit_range)

lemma get_zero: "lsb \<le> msb \<Longrightarrow> msb < LENGTH('w) \<Longrightarrow> bit_range bf 0 msb lsb = 0"
  by (rule bit_word_eqI) (auto simp: bit_bit_range)

lemma get_bound: "lsb \<le> msb \<Longrightarrow> msb < LENGTH('w) \<Longrightarrow>
    take_bit (msb + 1 - lsb) (bit_range bf w msb lsb) = bit_range bf w msb lsb"
  by (rule bit_word_eqI) (auto simp: bit_bit_range bit_take_bit_iff)

lemmas get_set = get_set_same get_set_other get_zero

end

definition bitfield_impl :: "('w::len word) bitfield_ops" where
  "bitfield_impl =
     \<lparr>bit_range = (\<lambda>w msb lsb. take_bit (msb + 1 - lsb) (drop_bit lsb w)),
      set_bit_range = (\<lambda>w msb lsb v.
        (w AND NOT (push_bit lsb (mask (msb + 1 - lsb)))) OR
        push_bit lsb (take_bit (msb + 1 - lsb) v))\<rparr>"

lemma bitfield_impl_simps [simp]:
  "bit_range bitfield_impl w msb lsb = take_bit (msb + 1 - lsb) (drop_bit lsb w)"
  "set_bit_range bitfield_impl w msb lsb v =
     (w AND NOT (push_bit lsb (mask (msb + 1 - lsb)))) OR
     push_bit lsb (take_bit (msb + 1 - lsb) v)"
  by (simp_all add: bitfield_impl_def)

interpretation bitfield_impl: bitfield_crate "bitfield_impl :: ('w::len word) bitfield_ops"
  by unfold_locales
    (auto simp: bit_simps not_le less_Suc_eq_le add.commute dest: bit_imp_le_length)

section \<open>bimap\<close>

record ('l, 'r, 'bm) bimap_ops =
  bm_new :: "'bm"
  bm_insert :: "'l \<Rightarrow> 'r \<Rightarrow> 'bm \<Rightarrow> 'bm"
  bm_remove_by_left :: "'l \<Rightarrow> 'bm \<Rightarrow> ('l \<times> 'r) option \<times> 'bm"
  bm_remove_by_right :: "'r \<Rightarrow> 'bm \<Rightarrow> ('l \<times> 'r) option \<times> 'bm"

locale bimap_crate =
  fixes bm :: "('l, 'r, 'bm) bimap_ops"
    and pairs :: "'bm \<Rightarrow> ('l \<times> 'r) set"
  assumes pairs_new: "pairs (bm_new bm) = {}"
    and pairs_left_unique: "(l, r) \<in> pairs m \<Longrightarrow> (l, r') \<in> pairs m \<Longrightarrow> r = r'"
    and pairs_right_unique: "(l, r) \<in> pairs m \<Longrightarrow> (l', r) \<in> pairs m \<Longrightarrow> l = l'"
    and pairs_insert:
      "pairs (bm_insert bm l r m) = insert (l, r) {(l', r') \<in> pairs m. l' \<noteq> l \<and> r' \<noteq> r}"
    and remove_by_left_Some: "bm_remove_by_left bm l m = (Some (l', r), m') \<Longrightarrow>
      l' = l \<and> (l, r) \<in> pairs m \<and> pairs m' = pairs m - {(l, r)}"
    and remove_by_left_None: "bm_remove_by_left bm l m = (None, m') \<Longrightarrow>
      l \<notin> fst ` pairs m \<and> pairs m' = pairs m"
    and remove_by_right_Some: "bm_remove_by_right bm r m = (Some (l, r'), m') \<Longrightarrow>
      r' = r \<and> (l, r) \<in> pairs m \<and> pairs m' = pairs m - {(l, r)}"
    and remove_by_right_None: "bm_remove_by_right bm r m = (None, m') \<Longrightarrow>
      r \<notin> snd ` pairs m \<and> pairs m' = pairs m"
begin

lemma remove_by_right_present:
  assumes "(l, r) \<in> pairs m"
  obtains m' where "bm_remove_by_right bm r m = (Some (l, r), m')" "pairs m' = pairs m - {(l, r)}"
proof (cases "bm_remove_by_right bm r m")
  case (Pair res m')
  show thesis
  proof (cases res)
    case None
    with Pair assms remove_by_right_None [of r m m'] show thesis by force
  next
    case (Some p)
    obtain l' r' where "p = (l', r')" by (cases p)
    with Some Pair have res: "bm_remove_by_right bm r m = (Some (l', r'), m')" by simp
    from remove_by_right_Some [OF this] assms have "l' = l" "r' = r"
      by (auto intro: pairs_right_unique)
    with res remove_by_right_Some [OF res] that show thesis by simp
  qed
qed

lemma remove_by_left_present:
  assumes "(l, r) \<in> pairs m"
  obtains m' where "bm_remove_by_left bm l m = (Some (l, r), m')" "pairs m' = pairs m - {(l, r)}"
proof (cases "bm_remove_by_left bm l m")
  case (Pair res m')
  show thesis
  proof (cases res)
    case None
    with Pair assms remove_by_left_None [of l m m'] show thesis by force
  next
    case (Some p)
    obtain l' r' where "p = (l', r')" by (cases p)
    with Some Pair have res: "bm_remove_by_left bm l m = (Some (l', r'), m')" by simp
    from remove_by_left_Some [OF this] assms have "l' = l" "r' = r"
      by (auto intro: pairs_left_unique)
    with res remove_by_left_Some [OF res] that show thesis by simp
  qed
qed

end

text \<open>
  The implementation: a list of pairs in which an insertion drops every pair that shares
  a side with the new one.  Its pairs are read through a filter that keeps the first pair
  of each side, so the two uniqueness laws hold for every list.
\<close>

fun bimap_pairs :: "('l \<times> 'r) list \<Rightarrow> ('l \<times> 'r) list" where
  "bimap_pairs [] = []"
| "bimap_pairs ((l, r) # m) = (l, r) # [(l', r') \<leftarrow> bimap_pairs m. l' \<noteq> l \<and> r' \<noteq> r]"

definition bimap_impl :: "('l, 'r, ('l \<times> 'r) list) bimap_ops" where
  "bimap_impl =
     \<lparr>bm_new = [],
      bm_insert = (\<lambda>l r m. (l, r) # bimap_pairs m),
      bm_remove_by_left = (\<lambda>l m. (List.find (\<lambda>p. fst p = l) (bimap_pairs m),
        [p \<leftarrow> bimap_pairs m. fst p \<noteq> l])),
      bm_remove_by_right = (\<lambda>r m. (List.find (\<lambda>p. snd p = r) (bimap_pairs m),
        [p \<leftarrow> bimap_pairs m. snd p \<noteq> r]))\<rparr>"

lemma bimap_pairs_unique:
  "p \<in> set (bimap_pairs m) \<Longrightarrow> q \<in> set (bimap_pairs m) \<Longrightarrow>
    fst p = fst q \<or> snd p = snd q \<Longrightarrow> p = q"
  by (induction m rule: bimap_pairs.induct) auto

lemma bimap_pairs_fixed:
  assumes "\<And>p q. p \<in> set m \<Longrightarrow> q \<in> set m \<Longrightarrow> fst p = fst q \<or> snd p = snd q \<Longrightarrow> p = q"
  shows "set (bimap_pairs m) = set m"
  using assms
proof (induction m rule: bimap_pairs.induct)
  case (2 l r m)
  have "set (bimap_pairs m) = set m"
    by (rule "2.IH") (use "2.prems" in \<open>meson list.set_intros(2)\<close>)
  moreover have "p = (l, r) \<or> fst p \<noteq> l \<and> snd p \<noteq> r" if "p \<in> set m" for p
    using "2.prems" [of p "(l, r)"] that by auto
  ultimately show ?case by fastforce
qed simp

lemma bimap_pairs_filter [simp]:
  "set (bimap_pairs (filter P (bimap_pairs m))) = set (filter P (bimap_pairs m))"
  by (rule bimap_pairs_fixed) (auto dest: bimap_pairs_unique)

lemma bimap_pairs_idem [simp]: "set (bimap_pairs (bimap_pairs m)) = set (bimap_pairs m)"
  by (rule bimap_pairs_fixed) (auto dest: bimap_pairs_unique)

lemma bimap_impl_simps [simp]:
  "bm_new bimap_impl = []"
  "bm_insert bimap_impl l r m = (l, r) # bimap_pairs m"
  "bm_remove_by_left bimap_impl l m =
     (List.find (\<lambda>p. fst p = l) (bimap_pairs m), [p \<leftarrow> bimap_pairs m. fst p \<noteq> l])"
  "bm_remove_by_right bimap_impl r m =
     (List.find (\<lambda>p. snd p = r) (bimap_pairs m), [p \<leftarrow> bimap_pairs m. snd p \<noteq> r])"
  by (simp_all add: bimap_impl_def)

lemma find_SomeD: "List.find P xs = Some x \<Longrightarrow> x \<in> set xs \<and> P x"
  by (auto simp: find_Some_iff)

lemma bimap_pairs_remove:
  assumes "p \<in> set (bimap_pairs m)"
  shows "set [q \<leftarrow> bimap_pairs m. fst q \<noteq> fst p] = set (bimap_pairs m) - {p}"
    and "set [q \<leftarrow> bimap_pairs m. snd q \<noteq> snd p] = set (bimap_pairs m) - {p}"
  using assms bimap_pairs_unique [of _ m p] by auto

interpretation bimap_impl: bimap_crate bimap_impl "\<lambda>m. set (bimap_pairs m)"
proof (unfold_locales, goal_cases)
  case (2 l r m r')
  then show ?case using bimap_pairs_unique [of "(l, r)" m "(l, r')"] by simp
next
  case (3 l r m l')
  then show ?case using bimap_pairs_unique [of "(l, r)" m "(l', r)"] by simp
next
  case (4 l r m)
  have "set (bimap_pairs ((l, r) # bimap_pairs m)) =
      insert (l, r) {p \<in> set (bimap_pairs (bimap_pairs m)). fst p \<noteq> l \<and> snd p \<noteq> r}"
    by (auto simp del: bimap_pairs_idem)
  then show ?case by (simp add: case_prod_unfold)
next
  case (5 l m l' r m')
  then have "List.find (\<lambda>p. fst p = l) (bimap_pairs m) = Some (l', r)" by simp
  moreover have m': "m' = [p \<leftarrow> bimap_pairs m. fst p \<noteq> l]" using 5 by simp
  ultimately show ?case
    unfolding m' bimap_pairs_filter
    using find_SomeD [of "\<lambda>p. fst p = l" "bimap_pairs m"] bimap_pairs_remove(1) [of "(l', r)" m]
    by force
next
  case (6 l m m')
  then show ?case by (auto simp: find_None_iff)
next
  case (7 r m l r' m')
  then have "List.find (\<lambda>p. snd p = r) (bimap_pairs m) = Some (l, r')" by simp
  moreover have m': "m' = [p \<leftarrow> bimap_pairs m. snd p \<noteq> r]" using 7 by simp
  ultimately show ?case
    unfolding m' bimap_pairs_filter
    using find_SomeD [of "\<lambda>p. snd p = r" "bimap_pairs m"] bimap_pairs_remove(2) [of "(l, r')" m]
    by force
next
  case (8 r m m')
  then show ?case by (auto simp: find_None_iff)
qed simp

section \<open>nom, streaming parsers\<close>

datatype nom_err = Nom_Incomplete | Nom_Error | Nom_Failure

type_synonym 'a nom_parser = "bytes \<Rightarrow> (bytes \<times> 'a, nom_err) result"

record nom_ops =
  nom_tag :: "bytes \<Rightarrow> bytes nom_parser"
  nom_be_u8 :: "u8 nom_parser"
  nom_be_u16 :: "u16 nom_parser"
  nom_take :: "nat \<Rightarrow> bytes nom_parser"
  nom_tuple4 :: "bytes nom_parser \<Rightarrow> u8 nom_parser \<Rightarrow> u16 nom_parser \<Rightarrow> u16 nom_parser \<Rightarrow>
    (bytes \<times> u8 \<times> u16 \<times> u16) nom_parser"

definition nom_tag_spec :: "bytes \<Rightarrow> bytes nom_parser" where
  "nom_tag_spec t i =
     (if take (length i) t = take (length t) i
      then (if length i < length t then Err Nom_Incomplete else Ok (drop (length t) i, t))
      else Err Nom_Error)"

definition nom_take_spec :: "nat \<Rightarrow> bytes nom_parser" where
  "nom_take_spec n i = (if length i < n then Err Nom_Incomplete else Ok (drop n i, take n i))"

definition nom_tuple4_spec :: "bytes nom_parser \<Rightarrow> u8 nom_parser \<Rightarrow> u16 nom_parser \<Rightarrow>
    u16 nom_parser \<Rightarrow> (bytes \<times> u8 \<times> u16 \<times> u16) nom_parser" where
  "nom_tuple4_spec pa pb pc pd i =
     and_then (pa i) (\<lambda>(i, a). and_then (pb i) (\<lambda>(i, b).
     and_then (pc i) (\<lambda>(i, c). and_then (pd i) (\<lambda>(i, d). Ok (i, a, b, c, d)))))"

locale nom_crate =
  fixes nom :: nom_ops
  assumes tag_doc: "nom_tag nom = nom_tag_spec"
    and be_u8_doc: "nom_be_u8 nom i = map_ok (\<lambda>(i, b). (i, from_be_bytes b)) (nom_take_spec 1 i)"
    and be_u16_doc: "nom_be_u16 nom i = map_ok (\<lambda>(i, b). (i, from_be_bytes b)) (nom_take_spec 2 i)"
    and take_doc: "nom_take nom = nom_take_spec"
    and tuple_doc: "nom_tuple4 nom = nom_tuple4_spec"

definition nom_impl :: nom_ops where
  "nom_impl =
     \<lparr>nom_tag = nom_tag_spec,
      nom_be_u8 = (\<lambda>i. map_ok (\<lambda>(i, b). (i, from_be_bytes b)) (nom_take_spec 1 i)),
      nom_be_u16 = (\<lambda>i. map_ok (\<lambda>(i, b). (i, from_be_bytes b)) (nom_take_spec 2 i)),
      nom_take = nom_take_spec,
      nom_tuple4 = nom_tuple4_spec\<rparr>"

interpretation nom_impl: nom_crate nom_impl
  by unfold_locales (simp_all add: nom_impl_def)

section \<open>cookie-factory\<close>

datatype gen_error = GenError

text \<open>A serializer into a \<^verbatim>\<open>Vec<u8>\<close>: from the bytes written so far to the bytes after it.\<close>

type_synonym serialize_fn = "bytes \<Rightarrow> (bytes, gen_error) result"

record cookie_ops =
  cf_slice :: "bytes \<Rightarrow> serialize_fn"
  cf_be_u8 :: "u8 \<Rightarrow> serialize_fn"
  cf_be_u16 :: "u16 \<Rightarrow> serialize_fn"
  cf_tuple5 :: "serialize_fn \<Rightarrow> serialize_fn \<Rightarrow> serialize_fn \<Rightarrow> serialize_fn \<Rightarrow>
    serialize_fn \<Rightarrow> serialize_fn"
  cf_gen :: "serialize_fn \<Rightarrow> serialize_fn"

locale cookie_crate =
  fixes cf :: cookie_ops
  assumes slice_doc: "cf_slice cf bs w = Ok (w @ bs)"
    and be_u8_doc: "cf_be_u8 cf x w = Ok (w @ to_be_bytes x)"
    and be_u16_doc: "cf_be_u16 cf y w = Ok (w @ to_be_bytes y)"
    and tuple_doc: "cf_tuple5 cf s1 s2 s3 s4 s5 w =
      and_then (s1 w) (\<lambda>w. and_then (s2 w) (\<lambda>w. and_then (s3 w) (\<lambda>w. and_then (s4 w) s5)))"
    and gen_doc: "cf_gen cf s w = s w"

definition cookie_impl :: cookie_ops where
  "cookie_impl =
     \<lparr>cf_slice = (\<lambda>bs w. Ok (w @ bs)),
      cf_be_u8 = (\<lambda>x w. Ok (w @ to_be_bytes x)),
      cf_be_u16 = (\<lambda>x w. Ok (w @ to_be_bytes x)),
      cf_tuple5 = (\<lambda>s1 s2 s3 s4 s5 w.
        and_then (s1 w) (\<lambda>w. and_then (s2 w) (\<lambda>w. and_then (s3 w) (\<lambda>w. and_then (s4 w) s5)))),
      cf_gen = (\<lambda>s. s)\<rparr>"

interpretation cookie_impl: cookie_crate cookie_impl
  by unfold_locales (simp_all add: cookie_impl_def)

end
