(* ===== verification/Pack.thy ===== *)
theory Pack
  imports Prelude
begin

text \<open>
  The serialisation layer (\<^verbatim>\<open>src/pack\<close>).  The trait \<^verbatim>\<open>PackTarget\<close> is the function
  \<open>append\<close> that every packing operation takes as its first argument; \<^verbatim>\<open>Pack\<close> and
  \<^verbatim>\<open>PackTagged\<close> are the pack and unpack functions of each type.  Two interfaces carry
  the proofs of the layers above: \<open>pack_target\<close>, what a target promises about \<open>append\<close>
  (interpreted on \<^verbatim>\<open>VecPackTarget\<close> and \<^verbatim>\<open>SlicePackTarget\<close>), and \<open>codec\<close>, that unpacking
  inverts packing and leaves the bytes that follow.
\<close>

section \<open>Errors\<close>

datatype unpack_error =
    NotEnoughData
  | InvalidEnumTag
  | Unsupported "string option"
  | Unimplemented "string option"

datatype 'e pack_error = NotAllowed "string option" | TargetError 'e

datatype ext_enum_error = InvalidTag

fun UnpackError_from :: "ext_enum_error \<Rightarrow> unpack_error" where
  "UnpackError_from InvalidTag = InvalidEnumTag"

type_synonym 'a unpacked = "('a \<times> bytes, unpack_error) result"
type_synonym ('t, 'e) append_fn = "'t \<Rightarrow> bytes \<Rightarrow> ('t, 'e) result"
type_synonym ('t, 'e) packed = "('t, 'e pack_error) result"

section \<open>Targets\<close>

text \<open>\<^verbatim>\<open>VecPackError\<close> has no variants: an error of it can never be built.\<close>

typedecl vec_pack_error

instantiation vec_pack_error :: equal
begin

definition equal_vec_pack_error :: "vec_pack_error \<Rightarrow> vec_pack_error \<Rightarrow> bool" where
  "equal_vec_pack_error x y \<longleftrightarrow> x = y"

instance
  by standard (simp add: equal_vec_pack_error_def)

end

datatype vec_pack_target = VecPackTarget bytes

fun VecPackTarget_append :: "(vec_pack_target, vec_pack_error) append_fn" where
  "VecPackTarget_append (VecPackTarget vec) data = Ok (VecPackTarget (vec @ data))"

definition VecPackTarget_new :: vec_pack_target where
  "VecPackTarget_new = VecPackTarget []"

fun VecPackTarget_into :: "vec_pack_target \<Rightarrow> bytes" where
  "VecPackTarget_into (VecPackTarget vec) = vec"

datatype slice_pack_error = NotEnoughSpace

datatype slice_pack_target = SlicePackTarget bytes usize

text \<open>\<^verbatim>\<open>target[offset..offset + data.len()].copy_from_slice(data)\<close>\<close>

definition copy_from_slice :: "bytes \<Rightarrow> usize \<Rightarrow> bytes \<Rightarrow> bytes" where
  "copy_from_slice target offset data =
     take offset target @ data @ drop (offset + length data) target"

fun SlicePackTarget_append :: "(slice_pack_target, slice_pack_error) append_fn" where
  "SlicePackTarget_append (SlicePackTarget target offset) data =
     (if offset + length data > length target then Err NotEnoughSpace
      else Ok (SlicePackTarget (copy_from_slice target offset data) (offset + length data)))"

definition SlicePackTarget_new :: "bytes \<Rightarrow> slice_pack_target" where
  "SlicePackTarget_new target = SlicePackTarget target 0"

fun SlicePackTarget_into :: "slice_pack_target \<Rightarrow> usize" where
  "SlicePackTarget_into (SlicePackTarget target offset) = offset"

section \<open>Default implementations\<close>

text \<open>\<^verbatim>\<open>default_impl!\<close>: the integer types, little-endian.\<close>

definition int_unpack :: "bytes \<Rightarrow> ('w::len word) unpacked" where
  "int_unpack data =
     (let expected_size = size_of TYPE('w word)
      in if length data < expected_size then Err NotEnoughData
         else Ok (from_le_bytes (take expected_size data), drop expected_size data))"

definition int_pack :: "('t, 'e) append_fn \<Rightarrow> 'w::len word \<Rightarrow> 't \<Rightarrow> ('t, 'e) packed" where
  "int_pack append_to x target = map_err TargetError (append_to target (to_le_bytes x))"

definition bool_unpack :: "bytes \<Rightarrow> bool unpacked" where
  "bool_unpack data = and_then (int_unpack data) (\<lambda>(x :: u8, data). Ok (x > 0, data))"

definition bool_pack :: "('t, 'e) append_fn \<Rightarrow> bool \<Rightarrow> 't \<Rightarrow> ('t, 'e) packed" where
  "bool_pack append_to b target = int_pack append_to (bool_to_word b :: u8) target"

text \<open>
  \<^verbatim>\<open>impl_for_tuples\<close>: the components in order.  A longer tuple is a nested pair, the empty
  tuple unpacks to itself and packs to nothing.
\<close>

definition unit_unpack :: "bytes \<Rightarrow> unit unpacked" where
  "unit_unpack data = Ok ((), data)"

definition unit_pack :: "('t, 'e) append_fn \<Rightarrow> unit \<Rightarrow> 't \<Rightarrow> ('t, 'e) packed" where
  "unit_pack append_to u target = Ok target"

definition tuple_unpack :: "(bytes \<Rightarrow> 'a unpacked) \<Rightarrow> (bytes \<Rightarrow> 'b unpacked) \<Rightarrow>
    bytes \<Rightarrow> ('a \<times> 'b) unpacked" where
  "tuple_unpack unpack_a unpack_b data =
     and_then (unpack_a data) (\<lambda>(a, data). and_then (unpack_b data) (\<lambda>(b, data). Ok ((a, b), data)))"

definition tuple_pack :: "('a \<Rightarrow> 't \<Rightarrow> ('t, 'e) packed) \<Rightarrow> ('b \<Rightarrow> 't \<Rightarrow> ('t, 'e) packed) \<Rightarrow>
    'a \<times> 'b \<Rightarrow> 't \<Rightarrow> ('t, 'e) packed" where
  "tuple_pack pack_a pack_b p target = and_then (pack_a (fst p) target) (pack_b (snd p))"

text \<open>\<^verbatim>\<open>PackTagged for Option<T>\<close>: the tag is kept elsewhere.\<close>

definition Option_get_tag :: "'a option \<Rightarrow> bool" where
  "Option_get_tag self = (self \<noteq> None)"

definition Option_unpack_data :: "(bytes \<Rightarrow> 'a unpacked) \<Rightarrow> bool \<Rightarrow> bytes \<Rightarrow> 'a option unpacked" where
  "Option_unpack_data unpack tag data =
     (if tag then and_then (unpack data) (\<lambda>(inner, data). Ok (Some inner, data))
      else Ok (None, data))"

definition Option_pack_data :: "('a \<Rightarrow> 't \<Rightarrow> ('t, 'e) packed) \<Rightarrow> 'a option \<Rightarrow> 't \<Rightarrow> ('t, 'e) packed" where
  "Option_pack_data pack self target =
     (case self of Some inner \<Rightarrow> pack inner target | None \<Rightarrow> Ok target)"

section \<open>What a target promises\<close>

text \<open>
  Appending nothing changes nothing, appending two runs of bytes is appending their
  concatenation, and what was written grows by exactly the appended bytes.
\<close>

locale pack_target =
  fixes append_to :: "('t, 'e) append_fn"
    and written :: "'t \<Rightarrow> bytes"
    and valid :: "'t \<Rightarrow> bool"
  assumes append_nil: "valid t \<Longrightarrow> append_to t [] = Ok t"
    and append_append: "valid t \<Longrightarrow>
      append_to t (as @ bs) = and_then (append_to t as) (\<lambda>t. append_to t bs)"
    and append_valid: "valid t \<Longrightarrow> append_to t bs = Ok t' \<Longrightarrow> valid t'"
    and append_written: "valid t \<Longrightarrow> append_to t bs = Ok t' \<Longrightarrow> written t' = written t @ bs"
begin

text \<open>Packing the bytes \<open>bs\<close>, as one append.\<close>

definition emit :: "bytes \<Rightarrow> 't \<Rightarrow> ('t, 'e) packed" where
  "emit bs t = map_err TargetError (append_to t bs)"

lemma emit_nil: "valid t \<Longrightarrow> emit [] t = Ok t"
  by (simp add: emit_def append_nil)

lemma emit_seq:
  assumes "valid t"
  shows "and_then (emit as t) (emit bs) = emit (as @ bs) t"
  using append_append [OF assms, of as bs] by (cases "append_to t as") (simp_all add: emit_def)

lemma emit_bind:
  assumes "valid t" and "\<And>t. valid t \<Longrightarrow> k t = emit bs t"
  shows "and_then (emit as t) k = emit (as @ bs) t"
proof -
  have "and_then (emit as t) k = and_then (emit as t) (emit bs)"
    using assms append_valid by (cases "append_to t as") (auto simp: emit_def)
  then show ?thesis using emit_seq [OF assms(1)] by simp
qed

lemma emit_written: "valid t \<Longrightarrow> emit bs t = Ok t' \<Longrightarrow> written t' = written t @ bs \<and> valid t'"
  by (cases "append_to t bs") (auto simp: emit_def append_written append_valid)

lemma int_pack_emit: "int_pack append_to x t = emit (to_le_bytes x) t"
  by (simp add: int_pack_def emit_def)

lemma bool_pack_emit: "bool_pack append_to b t = emit [bool_to_word b] t"
  by (cases b) (simp_all add: bool_pack_def int_pack_emit to_le_bytes_def numeral_eq_Suc)

lemma unit_pack_emit: "valid t \<Longrightarrow> unit_pack append_to u t = emit [] t"
  by (simp add: unit_pack_def emit_nil)

lemma tuple_pack_emit:
  assumes "valid t" and "\<And>t. valid t \<Longrightarrow> pack_a (fst p) t = emit as t"
    and "\<And>t. valid t \<Longrightarrow> pack_b (snd p) t = emit bs t"
  shows "tuple_pack pack_a pack_b p t = emit (as @ bs) t"
  using assms by (simp add: tuple_pack_def emit_bind)

lemma Option_pack_data_emit:
  assumes "valid t" and "\<And>x t. valid t \<Longrightarrow> pack x t = emit (enc x) t"
  shows "Option_pack_data pack v t = emit (case v of None \<Rightarrow> [] | Some x \<Rightarrow> enc x) t"
  using assms by (simp add: Option_pack_data_def emit_nil split: option.splits)

lemmas emit_simps = int_pack_emit bool_pack_emit unit_pack_emit emit_nil

end

interpretation vec: pack_target VecPackTarget_append VecPackTarget_into "\<lambda>_. True"
proof (unfold_locales, goal_cases)
  case (1 t) then show ?case by (cases t) simp
next
  case (2 t as bs) then show ?case by (cases t) simp
next
  case (4 t bs t') then show ?case by (cases t) auto
qed simp

fun slice_written :: "slice_pack_target \<Rightarrow> bytes" where
  "slice_written (SlicePackTarget target offset) = take offset target"

fun slice_valid :: "slice_pack_target \<Rightarrow> bool" where
  "slice_valid (SlicePackTarget target offset) \<longleftrightarrow> offset \<le> length target"

lemma length_copy_from_slice [simp]:
  "offset + length data \<le> length target \<Longrightarrow>
    length (copy_from_slice target offset data) = length target"
  by (simp add: copy_from_slice_def)

lemma copy_from_slice_append:
  assumes "offset + length as + length bs \<le> length target"
  shows "copy_from_slice (copy_from_slice target offset as) (offset + length as) bs =
    copy_from_slice target offset (as @ bs)"
proof -
  have "length (take offset target) = offset" using assms by simp
  then show ?thesis
    using assms by (simp add: copy_from_slice_def ac_simps)
qed

interpretation slice: pack_target SlicePackTarget_append slice_written slice_valid
proof (unfold_locales, goal_cases)
  case (1 t) then show ?case by (cases t) (simp add: copy_from_slice_def)
next
  case (2 t as bs)
  then show ?case
    by (cases t) (auto simp: copy_from_slice_append add.assoc)
next
  case (3 t bs t') then show ?case by (cases t) (auto split: if_splits)
next
  case (4 t bs t')
  then show ?case by (cases t) (auto simp: copy_from_slice_def split: if_splits)
qed

lemma vec_emit [simp]: "vec.emit bs (VecPackTarget v) = Ok (VecPackTarget (v @ bs))"
  by (simp add: vec.emit_def)

lemma slice_emit:
  "slice.emit bs (SlicePackTarget target offset) =
     (if offset + length bs > length target then Err (TargetError NotEnoughSpace)
      else Ok (SlicePackTarget (copy_from_slice target offset bs) (offset + length bs)))"
  by (simp add: slice.emit_def)

section \<open>Codecs\<close>

text \<open>
  \<open>whole_codec\<close>: unpacking the whole of an encoding gives the value back.  \<open>codec\<close>: the
  same with any bytes after it, which stay unread; such types can be a field of another.
\<close>

locale whole_codec =
  fixes enc :: "'a \<Rightarrow> bytes"
    and unpack :: "bytes \<Rightarrow> 'a unpacked"
    and ok :: "'a \<Rightarrow> bool"
  assumes whole_roundtrip: "ok x \<Longrightarrow> unpack (enc x) = Ok (x, [])"
begin

lemma enc_inj: "ok x \<Longrightarrow> ok y \<Longrightarrow> enc x = enc y \<Longrightarrow> x = y"
  by (metis Inr_inject prod.inject whole_roundtrip)

end

locale codec =
  fixes enc :: "'a \<Rightarrow> bytes"
    and unpack :: "bytes \<Rightarrow> 'a unpacked"
    and ok :: "'a \<Rightarrow> bool"
  assumes roundtrip: "ok x \<Longrightarrow> unpack (enc x @ rest) = Ok (x, rest)"

sublocale codec \<subseteq> whole_codec enc unpack ok
proof unfold_locales
  fix x
  assume "ok x"
  from roundtrip [OF this, of "[]"] show "unpack (enc x) = Ok (x, [])" by simp
qed

context codec
begin

lemma enc_prefix_free: "ok x \<Longrightarrow> ok y \<Longrightarrow> enc x @ r = enc y @ s \<Longrightarrow> x = y \<and> r = s"
  by (metis Inr_inject prod.inject roundtrip)

lemma option_roundtrip:
  "pred_option ok v \<Longrightarrow>
    Option_unpack_data unpack (Option_get_tag v) ((case v of None \<Rightarrow> [] | Some x \<Rightarrow> enc x) @ rest) =
      Ok (v, rest)"
  by (cases v) (simp_all add: Option_unpack_data_def Option_get_tag_def roundtrip)

end

locale codec_pair = A: codec enc_a unpack_a ok_a + B: codec enc_b unpack_b ok_b
  for enc_a :: "'a \<Rightarrow> bytes" and unpack_a ok_a
  and enc_b :: "'b \<Rightarrow> bytes" and unpack_b ok_b

sublocale codec_pair \<subseteq>
  pair: codec "\<lambda>p. enc_a (fst p) @ enc_b (snd p)" "tuple_unpack unpack_a unpack_b"
    "\<lambda>p. ok_a (fst p) \<and> ok_b (snd p)"
  by unfold_locales (auto simp: tuple_unpack_def A.roundtrip B.roundtrip)

lemma int_roundtrip:
  "8 * size_of TYPE('w word) = LENGTH('w) \<Longrightarrow>
    int_unpack (to_le_bytes (x :: 'w::len word) @ rest) = Ok (x, rest)"
  by (simp add: int_unpack_def from_le_bytes_to_le_bytes)

interpretation u8: codec "to_le_bytes :: u8 \<Rightarrow> bytes" int_unpack "\<lambda>_. True"
  by unfold_locales (simp add: int_roundtrip)

interpretation u16: codec "to_le_bytes :: u16 \<Rightarrow> bytes" int_unpack "\<lambda>_. True"
  by unfold_locales (simp add: int_roundtrip)

interpretation u32: codec "to_le_bytes :: u32 \<Rightarrow> bytes" int_unpack "\<lambda>_. True"
  by unfold_locales (simp add: int_roundtrip)

interpretation u64: codec "to_le_bytes :: u64 \<Rightarrow> bytes" int_unpack "\<lambda>_. True"
  by unfold_locales (simp add: int_roundtrip)

lemma to_le_bytes_u8 [simp]: "to_le_bytes (x :: u8) = [x]"
  by (simp add: to_le_bytes_def)

interpretation bool: codec "\<lambda>b. [bool_to_word b]" bool_unpack "\<lambda>_. True"
proof unfold_locales
  fix b :: bool and rest
  show "bool_unpack ([bool_to_word b] @ rest) = Ok (b, rest)"
    using u8.roundtrip [of "bool_to_word b" rest] by (cases b) (simp_all add: bool_unpack_def)
qed

text \<open>The three-component tuple of bytes and words that \<^verbatim>\<open>Beacon\<close> packs.\<close>

interpretation u8_u8: codec_pair "to_le_bytes :: u8 \<Rightarrow> bytes" int_unpack "\<lambda>_. True"
    "to_le_bytes :: u8 \<Rightarrow> bytes" int_unpack "\<lambda>_. True" ..

interpretation u16_u8_u8: codec_pair "to_le_bytes :: u16 \<Rightarrow> bytes" int_unpack "\<lambda>_. True"
    "\<lambda>p. to_le_bytes (fst p :: u8) @ to_le_bytes (snd p :: u8)"
    "tuple_unpack int_unpack int_unpack" "\<lambda>p. True \<and> True" ..

lemma int_unpack_short: "length data < size_of TYPE('w::len word) \<Longrightarrow>
    (int_unpack data :: 'w word unpacked) = Err NotEnoughData"
  by (simp add: int_unpack_def)

end
