(* ===== verification/Frame.thy ===== *)
theory Frame
  imports Pack Crates
begin

text \<open>
  IEEE 802.15.4 frames (\<^verbatim>\<open>src/ieee802154/frame.rs\<close>): addresses, the frame control and
  superframe bit fields, beacons, commands and the frame itself, each with its \<^verbatim>\<open>Pack\<close> or
  \<^verbatim>\<open>PackTagged\<close> implementation, derived ones included.  The accessors generated by the
  \<^verbatim>\<open>bitfield\<close> crate go through its operations, the argument \<open>bf\<close>.
  The lemmas give for every type the bytes it packs to and show that unpacking inverts
  packing; the properties at the end are the round trip of whole frames, when packing
  succeeds, and the error paths.
\<close>

section \<open>Addresses\<close>

datatype short_address = ShortAddress (ShortAddress_into: u16)

definition ShortAddress_from :: "u16 \<Rightarrow> short_address" where
  "ShortAddress_from x = ShortAddress x"

definition ShortAddress_broadcast :: short_address where
  "ShortAddress_broadcast = ShortAddress 0xFFFF"

definition ShortAddress_invalid :: short_address where
  "ShortAddress_invalid = ShortAddress 0xFFFF"

definition ShortAddress_none_assigned :: short_address where
  "ShortAddress_none_assigned = ShortAddress 0xFFFE"

definition ShortAddress_unpack :: "bytes \<Rightarrow> short_address unpacked" where
  "ShortAddress_unpack data = and_then (int_unpack data) (\<lambda>(x, data). Ok (ShortAddress x, data))"

fun ShortAddress_pack :: "('t, 'e) append_fn \<Rightarrow> short_address \<Rightarrow> 't \<Rightarrow> ('t, 'e) packed" where
  "ShortAddress_pack append_to (ShortAddress x) target = and_then (int_pack append_to x target) Ok"

datatype extended_address = ExtendedAddress (ExtendedAddress_into: u64)

definition ExtendedAddress_from :: "u64 \<Rightarrow> extended_address" where
  "ExtendedAddress_from x = ExtendedAddress x"

definition ExtendedAddress_unpack :: "bytes \<Rightarrow> extended_address unpacked" where
  "ExtendedAddress_unpack data =
     and_then (int_unpack data) (\<lambda>(x, data). Ok (ExtendedAddress x, data))"

fun ExtendedAddress_pack ::
    "('t, 'e) append_fn \<Rightarrow> extended_address \<Rightarrow> 't \<Rightarrow> ('t, 'e) packed" where
  "ExtendedAddress_pack append_to (ExtendedAddress x) target =
     and_then (int_pack append_to x target) Ok"

datatype panid = PANID (PANID_into: u16)

definition PANID_from :: "u16 \<Rightarrow> panid" where
  "PANID_from x = PANID x"

definition PANID_broadcast :: panid where
  "PANID_broadcast = PANID 0xFFFF"

definition PANID_unpack :: "bytes \<Rightarrow> panid unpacked" where
  "PANID_unpack data = and_then (int_unpack data) (\<lambda>(x, data). Ok (PANID x, data))"

fun PANID_pack :: "('t, 'e) append_fn \<Rightarrow> panid \<Rightarrow> 't \<Rightarrow> ('t, 'e) packed" where
  "PANID_pack append_to (PANID x) target = and_then (int_pack append_to x target) Ok"

datatype addressing_mode =
    AddressingMode_None
  | AddressingMode_Reserved
  | AddressingMode_Short
  | AddressingMode_Extended

fun AddressingMode_into_tag :: "addressing_mode \<Rightarrow> u16" where
  "AddressingMode_into_tag AddressingMode_None = 0"
| "AddressingMode_into_tag AddressingMode_Reserved = 1"
| "AddressingMode_into_tag AddressingMode_Short = 2"
| "AddressingMode_into_tag AddressingMode_Extended = 3"

definition AddressingMode_try_from_tag :: "u16 \<Rightarrow> (addressing_mode, ext_enum_error) result" where
  "AddressingMode_try_from_tag tag =
     (if tag = 0 then Ok AddressingMode_None
      else if tag = 1 then Ok AddressingMode_Reserved
      else if tag = 2 then Ok AddressingMode_Short
      else if tag = 3 then Ok AddressingMode_Extended
      else Err InvalidTag)"

datatype address = Address_Short short_address | Address_Extended extended_address

fun Address_get_tag :: "address \<Rightarrow> addressing_mode" where
  "Address_get_tag (Address_Short _) = AddressingMode_Short"
| "Address_get_tag (Address_Extended _) = AddressingMode_Extended"

definition Address_unpack_data :: "addressing_mode \<Rightarrow> bytes \<Rightarrow> address unpacked" where
  "Address_unpack_data tag data =
     (case tag of
        AddressingMode_Short \<Rightarrow>
          and_then (ShortAddress_unpack data) (\<lambda>(a, data). Ok (Address_Short a, data))
      | AddressingMode_Extended \<Rightarrow>
          and_then (ExtendedAddress_unpack data) (\<lambda>(a, data). Ok (Address_Extended a, data))
      | _ \<Rightarrow> Err InvalidEnumTag)"

fun Address_pack_data :: "('t, 'e) append_fn \<Rightarrow> address \<Rightarrow> 't \<Rightarrow> ('t, 'e) packed" where
  "Address_pack_data append_to (Address_Short a) target =
     and_then (ShortAddress_pack append_to a target) Ok"
| "Address_pack_data append_to (Address_Extended a) target =
     and_then (ExtendedAddress_pack append_to a target) Ok"

record full_address =
  pan_id :: panid
  address :: address

definition FullAddress_get_tag :: "full_address \<Rightarrow> addressing_mode" where
  "FullAddress_get_tag self = Address_get_tag (address self)"

definition FullAddress_unpack_data :: "addressing_mode \<Rightarrow> bytes \<Rightarrow> full_address unpacked" where
  "FullAddress_unpack_data tag data =
     and_then (PANID_unpack data) (\<lambda>(pan_id, data).
     and_then (Address_unpack_data tag data) (\<lambda>(address, data).
       Ok (\<lparr>pan_id = pan_id, address = address\<rparr>, data)))"

definition FullAddress_pack_data ::
    "('t, 'e) append_fn \<Rightarrow> full_address \<Rightarrow> 't \<Rightarrow> ('t, 'e) packed" where
  "FullAddress_pack_data append_to self target =
     and_then (PANID_pack append_to (pan_id self) target)
       (Address_pack_data append_to (address self))"

section \<open>Bit fields\<close>

text \<open>
  \<^verbatim>\<open>FrameControl(u16)\<close> and \<^verbatim>\<open>SuperframeSpecification(u16)\<close>: the derived \<^verbatim>\<open>Pack\<close> is that of
  the \<^verbatim>\<open>u16\<close> inside; the accessors are ranges of its bits.
\<close>

type_synonym bf16 = "u16 bitfield_ops"
type_synonym frame_control = u16

definition fc_frame_type :: "bf16 \<Rightarrow> frame_control \<Rightarrow> u16" where
  "fc_frame_type bf fc = bit_range bf fc 2 0"
definition fc_set_frame_type :: "bf16 \<Rightarrow> u16 \<Rightarrow> frame_control \<Rightarrow> frame_control" where
  "fc_set_frame_type bf v fc = set_bit_range bf fc 2 0 v"
definition fc_security_enabled :: "bf16 \<Rightarrow> frame_control \<Rightarrow> u16" where
  "fc_security_enabled bf fc = bit_range bf fc 3 3"
definition fc_set_security_enabled :: "bf16 \<Rightarrow> u16 \<Rightarrow> frame_control \<Rightarrow> frame_control" where
  "fc_set_security_enabled bf v fc = set_bit_range bf fc 3 3 v"
definition fc_frame_pending :: "bf16 \<Rightarrow> frame_control \<Rightarrow> u16" where
  "fc_frame_pending bf fc = bit_range bf fc 4 4"
definition fc_set_frame_pending :: "bf16 \<Rightarrow> u16 \<Rightarrow> frame_control \<Rightarrow> frame_control" where
  "fc_set_frame_pending bf v fc = set_bit_range bf fc 4 4 v"
definition fc_acknowledge_request :: "bf16 \<Rightarrow> frame_control \<Rightarrow> u16" where
  "fc_acknowledge_request bf fc = bit_range bf fc 5 5"
definition fc_set_acknowledge_request :: "bf16 \<Rightarrow> u16 \<Rightarrow> frame_control \<Rightarrow> frame_control" where
  "fc_set_acknowledge_request bf v fc = set_bit_range bf fc 5 5 v"
definition fc_pan_id_compression :: "bf16 \<Rightarrow> frame_control \<Rightarrow> u16" where
  "fc_pan_id_compression bf fc = bit_range bf fc 6 6"
definition fc_set_pan_id_compression :: "bf16 \<Rightarrow> u16 \<Rightarrow> frame_control \<Rightarrow> frame_control" where
  "fc_set_pan_id_compression bf v fc = set_bit_range bf fc 6 6 v"
definition fc_set_reserved :: "bf16 \<Rightarrow> u16 \<Rightarrow> frame_control \<Rightarrow> frame_control" where
  "fc_set_reserved bf v fc = set_bit_range bf fc 7 7 v"
definition fc_sequence_number_supression :: "bf16 \<Rightarrow> frame_control \<Rightarrow> u16" where
  "fc_sequence_number_supression bf fc = bit_range bf fc 8 8"
definition fc_set_sequence_number_supression :: "bf16 \<Rightarrow> u16 \<Rightarrow> frame_control \<Rightarrow> frame_control" where
  "fc_set_sequence_number_supression bf v fc = set_bit_range bf fc 8 8 v"
definition fc_information_elements_present :: "bf16 \<Rightarrow> frame_control \<Rightarrow> u16" where
  "fc_information_elements_present bf fc = bit_range bf fc 9 9"
definition fc_set_information_elements_present :: "bf16 \<Rightarrow> u16 \<Rightarrow> frame_control \<Rightarrow> frame_control" where
  "fc_set_information_elements_present bf v fc = set_bit_range bf fc 9 9 v"
definition fc_destination_addressing_mode :: "bf16 \<Rightarrow> frame_control \<Rightarrow> u16" where
  "fc_destination_addressing_mode bf fc = bit_range bf fc 11 10"
definition fc_set_destination_addressing_mode :: "bf16 \<Rightarrow> u16 \<Rightarrow> frame_control \<Rightarrow> frame_control" where
  "fc_set_destination_addressing_mode bf v fc = set_bit_range bf fc 11 10 v"
definition fc_set_frame_version :: "bf16 \<Rightarrow> u16 \<Rightarrow> frame_control \<Rightarrow> frame_control" where
  "fc_set_frame_version bf v fc = set_bit_range bf fc 13 12 v"
definition fc_source_addressing_mode :: "bf16 \<Rightarrow> frame_control \<Rightarrow> u16" where
  "fc_source_addressing_mode bf fc = bit_range bf fc 15 14"
definition fc_set_source_addressing_mode :: "bf16 \<Rightarrow> u16 \<Rightarrow> frame_control \<Rightarrow> frame_control" where
  "fc_set_source_addressing_mode bf v fc = set_bit_range bf fc 15 14 v"

type_synonym superframe_specification = u16

definition ss_beacon_order :: "bf16 \<Rightarrow> superframe_specification \<Rightarrow> u16" where
  "ss_beacon_order bf ss = bit_range bf ss 3 0"
definition ss_set_beacon_order :: "bf16 \<Rightarrow> u16 \<Rightarrow> superframe_specification \<Rightarrow> superframe_specification" where
  "ss_set_beacon_order bf v ss = set_bit_range bf ss 3 0 v"
definition ss_superframe_order :: "bf16 \<Rightarrow> superframe_specification \<Rightarrow> u16" where
  "ss_superframe_order bf ss = bit_range bf ss 7 4"
definition ss_set_superframe_order :: "bf16 \<Rightarrow> u16 \<Rightarrow> superframe_specification \<Rightarrow> superframe_specification" where
  "ss_set_superframe_order bf v ss = set_bit_range bf ss 7 4 v"
definition ss_final_cap_slot :: "bf16 \<Rightarrow> superframe_specification \<Rightarrow> u16" where
  "ss_final_cap_slot bf ss = bit_range bf ss 11 8"
definition ss_set_final_cap_slot :: "bf16 \<Rightarrow> u16 \<Rightarrow> superframe_specification \<Rightarrow> superframe_specification" where
  "ss_set_final_cap_slot bf v ss = set_bit_range bf ss 11 8 v"
definition ss_battery_life_extension :: "bf16 \<Rightarrow> superframe_specification \<Rightarrow> u16" where
  "ss_battery_life_extension bf ss = bit_range bf ss 12 12"
definition ss_set_battery_life_extension :: "bf16 \<Rightarrow> u16 \<Rightarrow> superframe_specification \<Rightarrow> superframe_specification" where
  "ss_set_battery_life_extension bf v ss = set_bit_range bf ss 12 12 v"
definition ss_set_reserved :: "bf16 \<Rightarrow> u16 \<Rightarrow> superframe_specification \<Rightarrow> superframe_specification" where
  "ss_set_reserved bf v ss = set_bit_range bf ss 13 13 v"
definition ss_pan_coordinator :: "bf16 \<Rightarrow> superframe_specification \<Rightarrow> u16" where
  "ss_pan_coordinator bf ss = bit_range bf ss 14 14"
definition ss_set_pan_coordinator :: "bf16 \<Rightarrow> u16 \<Rightarrow> superframe_specification \<Rightarrow> superframe_specification" where
  "ss_set_pan_coordinator bf v ss = set_bit_range bf ss 14 14 v"
definition ss_association_permit :: "bf16 \<Rightarrow> superframe_specification \<Rightarrow> u16" where
  "ss_association_permit bf ss = bit_range bf ss 15 15"
definition ss_set_association_permit :: "bf16 \<Rightarrow> u16 \<Rightarrow> superframe_specification \<Rightarrow> superframe_specification" where
  "ss_set_association_permit bf v ss = set_bit_range bf ss 15 15 v"

section \<open>Payloads and beacons\<close>

datatype payload = Payload (payload_bytes: bytes)

definition Payload_unpack :: "bytes \<Rightarrow> payload unpacked" where
  "Payload_unpack data = Ok (Payload data, drop (length data) data)"

fun Payload_pack :: "('t, 'e) append_fn \<Rightarrow> payload \<Rightarrow> 't \<Rightarrow> ('t, 'e) packed" where
  "Payload_pack append_to (Payload x) target = map_err TargetError (append_to target x)"

record beacon =
  beacon_order :: usize
  superframe_order :: usize
  final_cap_slot :: usize
  battery_life_extension :: bool
  pan_coordinator :: bool
  association_permit :: bool
  payload :: payload

definition Beacon_unpack :: "bf16 \<Rightarrow> bytes \<Rightarrow> beacon unpacked" where
  "Beacon_unpack bf data =
     and_then (tuple_unpack int_unpack (tuple_unpack int_unpack int_unpack) data)
       (\<lambda>((ss, gts :: u8, pending_addresses :: u8), data).
        if gts \<noteq> 0 \<or> pending_addresses \<noteq> 0
        then Err (Unimplemented (Some ''Non-zero GTS or pending-addresses not yet supported''))
        else and_then (Payload_unpack data) (\<lambda>(payload, data).
          Ok (\<lparr>beacon_order = unat (ss_beacon_order bf ss),
               superframe_order = unat (ss_superframe_order bf ss),
               final_cap_slot = unat (ss_final_cap_slot bf ss),
               battery_life_extension = (ss_battery_life_extension bf ss \<noteq> 0),
               pan_coordinator = (ss_pan_coordinator bf ss \<noteq> 0),
               association_permit = (ss_association_permit bf ss \<noteq> 0),
               payload = payload\<rparr>, data)))"

definition Beacon_pack ::
    "bf16 \<Rightarrow> ('t, 'e) append_fn \<Rightarrow> beacon \<Rightarrow> 't \<Rightarrow> ('t, 'e) packed" where
  "Beacon_pack bf append_to self target =
     (let ss = 0 in
      if beacon_order self > 0xF
      then Err (NotAllowed (Some ''Beacon order out of range''))
      else let ss = ss_set_beacon_order bf (of_nat (beacon_order self)) ss in
      if superframe_order self > 0xF
      then Err (NotAllowed (Some ''Superframe order out of range''))
      else let ss = ss_set_superframe_order bf (of_nat (superframe_order self)) ss in
      if final_cap_slot self > 0xF
      then Err (NotAllowed (Some ''Final cap slot order out of range''))
      else let ss = ss_set_final_cap_slot bf (of_nat (final_cap_slot self)) ss;
               ss = ss_set_battery_life_extension bf (bool_to_word (battery_life_extension self)) ss;
               ss = ss_set_reserved bf 0 ss;
               ss = ss_set_pan_coordinator bf (bool_to_word (pan_coordinator self)) ss;
               ss = ss_set_association_permit bf (bool_to_word (association_permit self)) ss
      in and_then (tuple_pack (int_pack append_to)
             (tuple_pack (int_pack append_to) (int_pack append_to)) (ss, 0 :: u8, 0 :: u8) target)
           (Payload_pack append_to (payload self)))"

section \<open>Commands\<close>

datatype device_type = RFD | FFD

definition DeviceType_unpack_data :: "u8 \<Rightarrow> bytes \<Rightarrow> device_type unpacked" where
  "DeviceType_unpack_data tag data =
     (if tag = 0 then Ok (RFD, data) else if tag = 1 then Ok (FFD, data) else Err InvalidEnumTag)"

datatype power_source = Battery | AC

definition PowerSource_unpack_data :: "u8 \<Rightarrow> bytes \<Rightarrow> power_source unpacked" where
  "PowerSource_unpack_data tag data =
     (if tag = 0 then Ok (Battery, data) else if tag = 1 then Ok (AC, data)
      else Err InvalidEnumTag)"

record capability_information =
  device_type :: device_type
  power_source :: power_source
  receiver_on_when_idle :: bool
  ci_fast_association :: bool
  security_capable :: bool
  allocate_address :: bool

definition CapabilityInformation_unpack :: "bytes \<Rightarrow> capability_information unpacked" where
  "CapabilityInformation_unpack data =
     and_then (int_unpack data) (\<lambda>(capability_information :: u8, data).
     and_then (DeviceType_unpack_data (drop_bit 1 capability_information AND 1) data)
       (\<lambda>(device_type, data).
     and_then (PowerSource_unpack_data (drop_bit 2 capability_information AND 1) data)
       (\<lambda>(power_source, data).
     Ok (\<lparr>device_type = device_type,
          power_source = power_source,
          receiver_on_when_idle = (drop_bit 3 capability_information AND 1 \<noteq> 0),
          ci_fast_association = (drop_bit 4 capability_information AND 1 \<noteq> 0),
          security_capable = (drop_bit 6 capability_information AND 1 \<noteq> 0),
          allocate_address = (drop_bit 7 capability_information AND 1 \<noteq> 0)\<rparr>, data))))"

definition CapabilityInformation_pack ::
    "('t, 'e) append_fn \<Rightarrow> capability_information \<Rightarrow> 't \<Rightarrow> ('t, 'e) packed" where
  "CapabilityInformation_pack append_to self target = Ok target"

datatype association_error = PANAtCapacity | PANAccessDenied | HoppingSequenceOffset

fun AssociationError_get_tag :: "association_error \<Rightarrow> u8" where
  "AssociationError_get_tag PANAtCapacity = 1"
| "AssociationError_get_tag PANAccessDenied = 2"
| "AssociationError_get_tag HoppingSequenceOffset = 3"

definition AssociationError_unpack_data :: "u8 \<Rightarrow> bytes \<Rightarrow> association_error unpacked" where
  "AssociationError_unpack_data tag data =
     (if tag = 1 then Ok (PANAtCapacity, data)
      else if tag = 2 then Ok (PANAccessDenied, data)
      else if tag = 3 then Ok (HoppingSequenceOffset, data)
      else Err InvalidEnumTag)"

record association_response =
  ar_fast_association :: bool
  ar_status :: "(short_address, association_error) result"

definition AssociationResponse_unpack :: "bytes \<Rightarrow> association_response unpacked" where
  "AssociationResponse_unpack data =
     and_then (ShortAddress_unpack data) (\<lambda>(short_address, data).
     and_then (int_unpack data) (\<lambda>(status :: u8, data).
     let fast_association = (status AND 0x80 \<noteq> 0);
         status = status AND 0x7F
     in and_then
          (if status = 0 then Ok (Ok short_address, data)
           else and_then (AssociationError_unpack_data status data)
             (\<lambda>(error, data). Ok (Err error, data)))
          (\<lambda>(status, data).
             Ok (\<lparr>ar_fast_association = fast_association, ar_status = status\<rparr>, data))))"

definition AssociationResponse_pack ::
    "('t, 'e) append_fn \<Rightarrow> association_response \<Rightarrow> 't \<Rightarrow> ('t, 'e) packed" where
  "AssociationResponse_pack append_to self target =
     (let (address, status) =
            (case ar_status self of
               Ok addr \<Rightarrow> (addr, 0)
             | Err x \<Rightarrow> (ShortAddress_invalid, AssociationError_get_tag x));
          status = (if ar_fast_association self then status OR 0x80 else status)
      in and_then (ShortAddress_pack append_to address target) (int_pack append_to status))"

datatype command =
    Command_AssociationRequest capability_information
  | Command_AssociationResponse association_response
  | Command_DataRequest
  | Command_BeaconRequest

definition Command_unpack :: "bytes \<Rightarrow> command unpacked" where
  "Command_unpack data =
     and_then (int_unpack data) (\<lambda>(tag :: u8, data).
       if tag = 0x01 then
         and_then (CapabilityInformation_unpack data)
           (\<lambda>(x, data). Ok (Command_AssociationRequest x, data))
       else if tag = 0x02 then
         and_then (AssociationResponse_unpack data)
           (\<lambda>(x, data). Ok (Command_AssociationResponse x, data))
       else if tag = 0x04 then Ok (Command_DataRequest, data)
       else if tag = 0x07 then Ok (Command_BeaconRequest, data)
       else Err InvalidEnumTag)"

fun Command_pack :: "('t, 'e) append_fn \<Rightarrow> command \<Rightarrow> 't \<Rightarrow> ('t, 'e) packed" where
  "Command_pack append_to (Command_AssociationRequest x) target =
     and_then (int_pack append_to (0x01 :: u8) target) (CapabilityInformation_pack append_to x)"
| "Command_pack append_to (Command_AssociationResponse x) target =
     and_then (int_pack append_to (0x02 :: u8) target) (AssociationResponse_pack append_to x)"
| "Command_pack append_to Command_DataRequest target =
     and_then (int_pack append_to (0x04 :: u8) target) Ok"
| "Command_pack append_to Command_BeaconRequest target =
     and_then (int_pack append_to (0x07 :: u8) target) Ok"

section \<open>Frames\<close>

datatype frame_type =
    FrameType_Beacon beacon
  | FrameType_Data payload
  | FrameType_Ack payload
  | FrameType_Command command
  | FrameType_Reserved payload
  | FrameType_Multipurpose payload
  | FrameType_Fragment payload
  | FrameType_Extended payload

fun FrameType_get_tag :: "frame_type \<Rightarrow> u8" where
  "FrameType_get_tag (FrameType_Beacon _) = 0"
| "FrameType_get_tag (FrameType_Data _) = 1"
| "FrameType_get_tag (FrameType_Ack _) = 2"
| "FrameType_get_tag (FrameType_Command _) = 3"
| "FrameType_get_tag (FrameType_Reserved _) = 4"
| "FrameType_get_tag (FrameType_Multipurpose _) = 5"
| "FrameType_get_tag (FrameType_Fragment _) = 6"
| "FrameType_get_tag (FrameType_Extended _) = 7"

definition FrameType_unpack_data :: "bf16 \<Rightarrow> u8 \<Rightarrow> bytes \<Rightarrow> frame_type unpacked" where
  "FrameType_unpack_data bf tag data =
     (if tag = 0 then and_then (Beacon_unpack bf data) (\<lambda>(x, data). Ok (FrameType_Beacon x, data))
      else if tag = 1 then and_then (Payload_unpack data) (\<lambda>(x, data). Ok (FrameType_Data x, data))
      else if tag = 2 then and_then (Payload_unpack data) (\<lambda>(x, data). Ok (FrameType_Ack x, data))
      else if tag = 3 then and_then (Command_unpack data) (\<lambda>(x, data). Ok (FrameType_Command x, data))
      else if tag = 4 then and_then (Payload_unpack data) (\<lambda>(x, data). Ok (FrameType_Reserved x, data))
      else if tag = 5 then
        and_then (Payload_unpack data) (\<lambda>(x, data). Ok (FrameType_Multipurpose x, data))
      else if tag = 6 then and_then (Payload_unpack data) (\<lambda>(x, data). Ok (FrameType_Fragment x, data))
      else if tag = 7 then and_then (Payload_unpack data) (\<lambda>(x, data). Ok (FrameType_Extended x, data))
      else Err InvalidEnumTag)"

fun FrameType_pack_data ::
    "bf16 \<Rightarrow> ('t, 'e) append_fn \<Rightarrow> frame_type \<Rightarrow> 't \<Rightarrow> ('t, 'e) packed" where
  "FrameType_pack_data bf append_to (FrameType_Beacon x) target = Beacon_pack bf append_to x target"
| "FrameType_pack_data bf append_to (FrameType_Data x) target = Payload_pack append_to x target"
| "FrameType_pack_data bf append_to (FrameType_Ack x) target = Payload_pack append_to x target"
| "FrameType_pack_data bf append_to (FrameType_Command x) target = Command_pack append_to x target"
| "FrameType_pack_data bf append_to (FrameType_Reserved x) target = Payload_pack append_to x target"
| "FrameType_pack_data bf append_to (FrameType_Multipurpose x) target = Payload_pack append_to x target"
| "FrameType_pack_data bf append_to (FrameType_Fragment x) target = Payload_pack append_to x target"
| "FrameType_pack_data bf append_to (FrameType_Extended x) target = Payload_pack append_to x target"

record frame =
  frame_pending :: bool
  acknowledge_request :: bool
  sequence_number :: "u8 option"
  destination :: "full_address option"
  source :: "full_address option"
  frame_type :: frame_type

definition Frame_unpack_address ::
    "addressing_mode \<Rightarrow> panid option \<Rightarrow> bytes \<Rightarrow> full_address option unpacked" where
  "Frame_unpack_address mode previous_pan data =
     (if mode = AddressingMode_None then Ok (None, data)
      else case previous_pan of
        Some pan \<Rightarrow> and_then (Address_unpack_data mode data) (\<lambda>(address, data).
          Ok (Some \<lparr>pan_id = pan, address = address\<rparr>, data))
      | None \<Rightarrow> and_then (FullAddress_unpack_data mode data) (\<lambda>(address, data).
          Ok (Some address, data)))"

definition Frame_unpack :: "bf16 \<Rightarrow> bytes \<Rightarrow> frame unpacked" where
  "Frame_unpack bf data =
     and_then (int_unpack data) (\<lambda>(fc, data).
     let frame_pending = (fc_frame_pending bf fc \<noteq> 0);
         acknowledge_request = (fc_acknowledge_request bf fc \<noteq> 0)
     in and_then (Option_unpack_data int_unpack (fc_sequence_number_supression bf fc = 0) data)
       (\<lambda>(sequence_number, data).
     and_then (map_err UnpackError_from
         (AddressingMode_try_from_tag (fc_destination_addressing_mode bf fc)))
       (\<lambda>destination_mode.
     and_then (Frame_unpack_address destination_mode None data) (\<lambda>(destination, data).
     and_then (map_err UnpackError_from
         (AddressingMode_try_from_tag (fc_source_addressing_mode bf fc)))
       (\<lambda>source_mode.
     and_then (Frame_unpack_address source_mode
         (if fc_pan_id_compression bf fc \<noteq> 0 then map_option pan_id destination else None) data)
       (\<lambda>(source, data).
     if fc_information_elements_present bf fc \<noteq> 0
     then Err (Unimplemented (Some ''Information elements not implemented''))
     else if fc_security_enabled bf fc \<noteq> 0
     then Err (Unimplemented (Some ''Secured frames not yet supported''))
     else and_then (FrameType_unpack_data bf (ucast (fc_frame_type bf fc)) data)
       (\<lambda>(frame_type, data).
          Ok (\<lparr>frame_pending = frame_pending,
               acknowledge_request = acknowledge_request,
               sequence_number = sequence_number,
               destination = destination,
               source = source,
               frame_type = frame_type\<rparr>, data))))))))"

definition Frame_pan_id_compression :: "frame \<Rightarrow> bool" where
  "Frame_pan_id_compression self =
     (let destination_pan_id = map_option pan_id (destination self);
          source_pan_id = map_option pan_id (source self)
      in destination_pan_id \<noteq> None \<and> destination_pan_id = source_pan_id)"

definition Frame_address_mode :: "full_address option \<Rightarrow> u16" where
  "Frame_address_mode a =
     AddressingMode_into_tag
       (case map_option FullAddress_get_tag a of None \<Rightarrow> AddressingMode_None | Some m \<Rightarrow> m)"

definition Frame_pack_control :: "bf16 \<Rightarrow> frame \<Rightarrow> frame_control" where
  "Frame_pack_control bf self =
     (let fc = 0;
          fc = fc_set_frame_type bf (ucast (FrameType_get_tag (frame_type self))) fc;
          fc = fc_set_security_enabled bf 0 fc;
          fc = fc_set_frame_pending bf (bool_to_word (frame_pending self)) fc;
          fc = fc_set_acknowledge_request bf (bool_to_word (acknowledge_request self)) fc;
          fc = fc_set_pan_id_compression bf (bool_to_word (Frame_pan_id_compression self)) fc;
          fc = fc_set_reserved bf 0 fc;
          fc = fc_set_sequence_number_supression bf (bool_to_word (sequence_number self = None)) fc;
          fc = fc_set_information_elements_present bf 0 fc;
          fc = fc_set_destination_addressing_mode bf (Frame_address_mode (destination self)) fc;
          fc = fc_set_source_addressing_mode bf (Frame_address_mode (source self)) fc;
          fc = fc_set_frame_version bf 0 fc
      in fc)"

definition Frame_pack :: "bf16 \<Rightarrow> ('t, 'e) append_fn \<Rightarrow> frame \<Rightarrow> 't \<Rightarrow> ('t, 'e) packed" where
  "Frame_pack bf append_to self target =
     and_then (int_pack append_to (Frame_pack_control bf self) target) (\<lambda>target.
     and_then (Option_pack_data (int_pack append_to) (sequence_number self) target) (\<lambda>target.
     and_then (case destination self of
         Some dst \<Rightarrow> FullAddress_pack_data append_to dst target
       | None \<Rightarrow> Ok target) (\<lambda>target.
     and_then (case source self of
         Some src \<Rightarrow>
           if Frame_pan_id_compression self
           then Address_pack_data append_to (address src) target
           else FullAddress_pack_data append_to src target
       | None \<Rightarrow> Ok target)
     (FrameType_pack_data bf append_to (frame_type self)))))"

section \<open>The bytes of each type\<close>

fun Address_bytes :: "address \<Rightarrow> bytes" where
  "Address_bytes (Address_Short a) = to_le_bytes (ShortAddress_into a)"
| "Address_bytes (Address_Extended a) = to_le_bytes (ExtendedAddress_into a)"

definition FullAddress_bytes :: "full_address \<Rightarrow> bytes" where
  "FullAddress_bytes a = to_le_bytes (PANID_into (pan_id a)) @ Address_bytes (address a)"

definition Beacon_superframe :: "bf16 \<Rightarrow> beacon \<Rightarrow> superframe_specification" where
  "Beacon_superframe bf b =
     ss_set_association_permit bf (bool_to_word (association_permit b))
     (ss_set_pan_coordinator bf (bool_to_word (pan_coordinator b))
     (ss_set_reserved bf 0
     (ss_set_battery_life_extension bf (bool_to_word (battery_life_extension b))
     (ss_set_final_cap_slot bf (of_nat (final_cap_slot b))
     (ss_set_superframe_order bf (of_nat (superframe_order b))
     (ss_set_beacon_order bf (of_nat (beacon_order b)) 0))))))"

definition Beacon_in_range :: "beacon \<Rightarrow> bool" where
  "Beacon_in_range b \<longleftrightarrow> beacon_order b \<le> 15 \<and> superframe_order b \<le> 15 \<and> final_cap_slot b \<le> 15"

definition Beacon_bytes :: "bf16 \<Rightarrow> beacon \<Rightarrow> bytes" where
  "Beacon_bytes bf b = to_le_bytes (Beacon_superframe bf b) @ [0, 0] @ payload_bytes (payload b)"

definition AssociationResponse_bytes :: "association_response \<Rightarrow> bytes" where
  "AssociationResponse_bytes r =
     to_le_bytes (ShortAddress_into (case ar_status r of Ok a \<Rightarrow> a | Err e \<Rightarrow> ShortAddress_invalid)) @
     [(case ar_status r of Ok a \<Rightarrow> 0 | Err e \<Rightarrow> AssociationError_get_tag e) OR
      (if ar_fast_association r then 0x80 else 0)]"

fun Command_bytes :: "command \<Rightarrow> bytes" where
  "Command_bytes (Command_AssociationRequest x) = [1]"
| "Command_bytes (Command_AssociationResponse x) = 2 # AssociationResponse_bytes x"
| "Command_bytes Command_DataRequest = [4]"
| "Command_bytes Command_BeaconRequest = [7]"

fun FrameType_bytes :: "bf16 \<Rightarrow> frame_type \<Rightarrow> bytes" where
  "FrameType_bytes bf (FrameType_Beacon b) = Beacon_bytes bf b"
| "FrameType_bytes bf (FrameType_Command c) = Command_bytes c"
| "FrameType_bytes bf (FrameType_Data p) = payload_bytes p"
| "FrameType_bytes bf (FrameType_Ack p) = payload_bytes p"
| "FrameType_bytes bf (FrameType_Reserved p) = payload_bytes p"
| "FrameType_bytes bf (FrameType_Multipurpose p) = payload_bytes p"
| "FrameType_bytes bf (FrameType_Fragment p) = payload_bytes p"
| "FrameType_bytes bf (FrameType_Extended p) = payload_bytes p"

definition Frame_source_bytes :: "frame \<Rightarrow> bytes" where
  "Frame_source_bytes f =
     (case source f of
        None \<Rightarrow> []
      | Some a \<Rightarrow> if Frame_pan_id_compression f then Address_bytes (address a)
                 else FullAddress_bytes a)"

definition Frame_header_bytes :: "bf16 \<Rightarrow> frame \<Rightarrow> bytes" where
  "Frame_header_bytes bf f =
     to_le_bytes (Frame_pack_control bf f) @
     (case sequence_number f of None \<Rightarrow> [] | Some n \<Rightarrow> to_le_bytes n) @
     (case destination f of None \<Rightarrow> [] | Some a \<Rightarrow> FullAddress_bytes a) @
     Frame_source_bytes f"

definition Frame_bytes :: "bf16 \<Rightarrow> frame \<Rightarrow> bytes" where
  "Frame_bytes bf f = Frame_header_bytes bf f @ FrameType_bytes bf (frame_type f)"

text \<open>A frame is packable when its beacon, if any, has its orders in range.\<close>

fun FrameType_packable :: "frame_type \<Rightarrow> bool" where
  "FrameType_packable (FrameType_Beacon b) = Beacon_in_range b"
| "FrameType_packable _ = True"

fun FrameType_is_association_request :: "frame_type \<Rightarrow> bool" where
  "FrameType_is_association_request (FrameType_Command (Command_AssociationRequest _)) = True"
| "FrameType_is_association_request _ = False"

section \<open>Packing is one append of those bytes\<close>

context pack_target
begin

lemma ShortAddress_pack_emit: "ShortAddress_pack append_to a t = emit (to_le_bytes (ShortAddress_into a)) t"
  by (cases a) (simp add: int_pack_emit)

lemma ExtendedAddress_pack_emit:
  "ExtendedAddress_pack append_to a t = emit (to_le_bytes (ExtendedAddress_into a)) t"
  by (cases a) (simp add: int_pack_emit)

lemma PANID_pack_emit: "PANID_pack append_to a t = emit (to_le_bytes (PANID_into a)) t"
  by (cases a) (simp add: int_pack_emit)

lemma Address_pack_emit: "Address_pack_data append_to a t = emit (Address_bytes a) t"
  by (cases a) (simp_all add: ShortAddress_pack_emit ExtendedAddress_pack_emit)

lemma FullAddress_pack_emit:
  "valid t \<Longrightarrow> FullAddress_pack_data append_to a t = emit (FullAddress_bytes a) t"
  by (simp add: FullAddress_pack_data_def FullAddress_bytes_def PANID_pack_emit Address_pack_emit
      emit_bind)

lemma Payload_pack_emit: "Payload_pack append_to p t = emit (payload_bytes p) t"
  by (cases p) (simp add: emit_def)

lemma Beacon_pack_emit:
  assumes "valid t" "Beacon_in_range b"
  shows "Beacon_pack bf append_to b t = emit (Beacon_bytes bf b) t"
proof -
  have "tuple_pack (int_pack append_to) (tuple_pack (int_pack append_to) (int_pack append_to))
      (ss, 0 :: u8, 0 :: u8) t = emit (to_le_bytes ss @ [0] @ [0]) t" for ss :: u16
    by (intro tuple_pack_emit assms) (simp_all add: int_pack_emit)
  then show ?thesis
    using assms
    by (simp add: Beacon_pack_def Beacon_bytes_def Beacon_superframe_def Beacon_in_range_def Let_def
        not_less Payload_pack_emit emit_bind)
qed

lemma AssociationResponse_pack_emit:
  "valid t \<Longrightarrow> AssociationResponse_pack append_to r t = emit (AssociationResponse_bytes r) t"
  by (auto simp: AssociationResponse_pack_def AssociationResponse_bytes_def Let_def
      ShortAddress_pack_emit int_pack_emit emit_bind split: sum.splits)

lemma CapabilityInformation_pack_eq: "CapabilityInformation_pack append_to x = Ok"
  by (rule ext) (simp add: CapabilityInformation_pack_def)

lemma Command_pack_emit: "valid t \<Longrightarrow> Command_pack append_to c t = emit (Command_bytes c) t"
  by (cases c) (simp_all add: int_pack_emit CapabilityInformation_pack_eq
      AssociationResponse_pack_emit emit_bind [where bs = "AssociationResponse_bytes _"])

lemma FrameType_pack_emit:
  "valid t \<Longrightarrow> FrameType_packable ft \<Longrightarrow>
    FrameType_pack_data bf append_to ft t = emit (FrameType_bytes bf ft) t"
  by (cases ft) (simp_all add: Beacon_pack_emit Payload_pack_emit Command_pack_emit)


lemma Frame_pack_header:
  assumes "valid t"
  shows "Frame_pack bf append_to f t =
    and_then (emit (Frame_header_bytes bf f) t) (FrameType_pack_data bf append_to (frame_type f))"
proof -
  let ?seq = "\<lambda>t. Option_pack_data (int_pack append_to) (sequence_number f) t"
  let ?dst = "\<lambda>t. case destination f of Some a \<Rightarrow> FullAddress_pack_data append_to a t | None \<Rightarrow> Ok t"
  let ?src = "\<lambda>t. case source f of
      Some a \<Rightarrow> if Frame_pan_id_compression f then Address_pack_data append_to (address a) t
                else FullAddress_pack_data append_to a t
    | None \<Rightarrow> Ok t"
  have seq: "?seq t = emit (case sequence_number f of None \<Rightarrow> [] | Some n \<Rightarrow> to_le_bytes n) t"
    if "valid t" for t
    using that by (cases "sequence_number f") (simp_all add: Option_pack_data_def int_pack_emit emit_nil)
  have dst: "?dst t = emit (case destination f of None \<Rightarrow> [] | Some a \<Rightarrow> FullAddress_bytes a) t"
    if "valid t" for t
    using that by (simp add: FullAddress_pack_emit emit_nil split: option.splits)
  have src: "?src t = emit (Frame_source_bytes f) t" if "valid t" for t
    using that by (simp add: FullAddress_pack_emit Address_pack_emit emit_nil Frame_source_bytes_def
        split: option.splits)
  have "and_then (int_pack append_to (Frame_pack_control bf f) t)
      (\<lambda>t. and_then (?seq t) (\<lambda>t. and_then (?dst t) ?src)) = emit (Frame_header_bytes bf f) t"
    unfolding Frame_header_bytes_def int_pack_emit [of "Frame_pack_control bf f"]
    by (intro emit_bind assms) (simp add: seq dst src emit_bind)
  then show ?thesis
    by (simp add: Frame_pack_def and_then_assoc [symmetric])
qed

lemma Frame_pack_emit:
  assumes "valid t" "FrameType_packable (frame_type f)"
  shows "Frame_pack bf append_to f t = emit (Frame_bytes bf f) t"
  using assms by (simp add: Frame_pack_header Frame_bytes_def FrameType_pack_emit emit_bind)

end

lemma Beacon_pack_out_of_range:
  "\<not> Beacon_in_range b \<Longrightarrow> \<exists>m. Beacon_pack bf append_to b t = Err (NotAllowed (Some m))"
  by (auto simp: Beacon_pack_def Beacon_in_range_def Let_def)

lemma Frame_pack_not_packable:
  assumes "\<not> FrameType_packable (frame_type f)"
  shows "\<not> is_ok (Frame_pack bf append_to f t)"
proof -
  obtain b where b: "frame_type f = FrameType_Beacon b" "\<not> Beacon_in_range b"
    using assms by (cases "frame_type f") auto
  have "\<not> is_ok (FrameType_pack_data bf append_to (frame_type f) u)" for u
    using Beacon_pack_out_of_range [OF b(2), of bf append_to u] b(1) by auto
  then show ?thesis
    by (auto simp: Frame_pack_def is_ok_iff and_then_eq_Ok_iff)
qed

section \<open>Unpacking inverts packing\<close>

interpretation short_address: codec "\<lambda>a. to_le_bytes (ShortAddress_into a)" ShortAddress_unpack "\<lambda>_. True"
  by unfold_locales (simp add: ShortAddress_unpack_def int_roundtrip)

interpretation extended_address: codec "\<lambda>a. to_le_bytes (ExtendedAddress_into a)"
    ExtendedAddress_unpack "\<lambda>_. True"
  by unfold_locales (simp add: ExtendedAddress_unpack_def int_roundtrip)

interpretation panid: codec "\<lambda>a. to_le_bytes (PANID_into a)" PANID_unpack "\<lambda>_. True"
  by unfold_locales (simp add: PANID_unpack_def int_roundtrip)

lemma Address_roundtrip:
  "Address_unpack_data (Address_get_tag a) (Address_bytes a @ rest) = Ok (a, rest)"
  by (cases a) (simp_all add: Address_unpack_data_def short_address.roundtrip extended_address.roundtrip)

lemma FullAddress_roundtrip:
  "FullAddress_unpack_data (FullAddress_get_tag a) (FullAddress_bytes a @ rest) = Ok (a, rest)"
  by (simp add: FullAddress_unpack_data_def FullAddress_bytes_def FullAddress_get_tag_def
      panid.roundtrip Address_roundtrip)

lemma AddressingMode_roundtrip: "AddressingMode_try_from_tag (AddressingMode_into_tag m) = Ok m"
  by (cases m) (simp_all add: AddressingMode_try_from_tag_def)

lemma AddressingMode_into_tag_bits: "take_bit 2 (AddressingMode_into_tag m) = AddressingMode_into_tag m"
  by (cases m) simp_all

interpretation payload: whole_codec payload_bytes Payload_unpack "\<lambda>_. True"
  by unfold_locales (simp add: Payload_unpack_def)

interpretation association_response: codec AssociationResponse_bytes AssociationResponse_unpack "\<lambda>_. True"
proof unfold_locales
  fix r rest
  obtain fast status where r: "r = \<lparr>ar_fast_association = fast, ar_status = status\<rparr>" by (cases r)
  show "AssociationResponse_unpack (AssociationResponse_bytes r @ rest) = Ok (r, rest)"
  proof (cases status)
    case (Inl e)
    then show ?thesis
      by (cases e; cases fast)
        (simp_all add: r AssociationResponse_unpack_def AssociationResponse_bytes_def Let_def
          short_address.roundtrip int_unpack_def AssociationError_unpack_data_def)
  next
    case (Inr a)
    then show ?thesis
      by (cases fast)
        (simp_all add: r AssociationResponse_unpack_def AssociationResponse_bytes_def Let_def
          short_address.roundtrip int_unpack_def)
  qed
qed


lemma Command_roundtrip:
  "\<not> FrameType_is_association_request (FrameType_Command c) \<Longrightarrow>
    Command_unpack (Command_bytes c @ rest) = Ok (c, rest)"
  by (cases c) (simp_all add: Command_unpack_def int_unpack_def association_response.roundtrip)

lemma unat_of_nat_bits:
  "n \<le> 15 \<Longrightarrow> unat (take_bit 4 (of_nat n :: u16)) = n"
  by (simp add: take_bit_eq_mod unat_mod_distrib unsigned_of_nat)

lemma take_bit_1_bool [simp]: "take_bit (Suc 0) (bool_to_word b) = (bool_to_word b :: u16)"
  by (cases b) simp_all

lemma bool_to_word_mod_2 [simp]: "bool_to_word b mod 2 = (bool_to_word b :: u16)"
  by (cases b) simp_all

lemma bool_to_word_eq_1 [simp]: "(bool_to_word b :: u16) = 1 \<longleftrightarrow> b"
  by (cases b) simp_all

lemma bool_to_word_neq_0 [simp]: "(bool_to_word b :: u16) = 0 \<longleftrightarrow> \<not> b"
  by (cases b) simp_all

lemmas ss_defs = ss_beacon_order_def ss_set_beacon_order_def ss_superframe_order_def
  ss_set_superframe_order_def ss_final_cap_slot_def ss_set_final_cap_slot_def
  ss_battery_life_extension_def ss_set_battery_life_extension_def ss_set_reserved_def
  ss_pan_coordinator_def ss_set_pan_coordinator_def ss_association_permit_def
  ss_set_association_permit_def

lemmas fc_defs = fc_frame_type_def fc_set_frame_type_def fc_security_enabled_def
  fc_set_security_enabled_def fc_frame_pending_def fc_set_frame_pending_def
  fc_acknowledge_request_def fc_set_acknowledge_request_def fc_pan_id_compression_def
  fc_set_pan_id_compression_def fc_set_reserved_def fc_sequence_number_supression_def
  fc_set_sequence_number_supression_def fc_information_elements_present_def
  fc_set_information_elements_present_def fc_destination_addressing_mode_def
  fc_set_destination_addressing_mode_def fc_set_frame_version_def fc_source_addressing_mode_def
  fc_set_source_addressing_mode_def

fun optional_address_mode :: "full_address option \<Rightarrow> addressing_mode" where
  "optional_address_mode None = AddressingMode_None"
| "optional_address_mode (Some a) = FullAddress_get_tag a"

lemma Frame_address_mode_roundtrip:
  "AddressingMode_try_from_tag (Frame_address_mode a) = Ok (optional_address_mode a)"
  using AddressingMode_roundtrip [of AddressingMode_None]
  by (cases a) (simp_all add: Frame_address_mode_def AddressingMode_roundtrip)

locale frame_bits = bitfield_crate bf for bf :: bf16
begin

lemma Beacon_superframe_fields:
  assumes "Beacon_in_range b"
  shows "unat (ss_beacon_order bf (Beacon_superframe bf b)) = beacon_order b"
    "unat (ss_superframe_order bf (Beacon_superframe bf b)) = superframe_order b"
    "unat (ss_final_cap_slot bf (Beacon_superframe bf b)) = final_cap_slot b"
    "ss_battery_life_extension bf (Beacon_superframe bf b) \<noteq> 0 \<longleftrightarrow> battery_life_extension b"
    "ss_pan_coordinator bf (Beacon_superframe bf b) \<noteq> 0 \<longleftrightarrow> pan_coordinator b"
    "ss_association_permit bf (Beacon_superframe bf b) \<noteq> 0 \<longleftrightarrow> association_permit b"
  using assms
  by (simp_all add: Beacon_superframe_def Beacon_in_range_def ss_defs get_set unat_of_nat_bits)

lemma Beacon_roundtrip:
  assumes "Beacon_in_range b"
  shows "Beacon_unpack bf (Beacon_bytes bf b) = Ok (b, [])"
  using u16_u8_u8.pair.roundtrip [of "(Beacon_superframe bf b, 0, 0)" "payload_bytes (payload b)"]
  by (simp add: Beacon_unpack_def Beacon_bytes_def Beacon_superframe_fields [OF assms] payload.whole_roundtrip)

lemma Frame_control_fields:
  "fc_frame_pending bf (Frame_pack_control bf f) = bool_to_word (frame_pending f)"
  "fc_acknowledge_request bf (Frame_pack_control bf f) = bool_to_word (acknowledge_request f)"
  "fc_sequence_number_supression bf (Frame_pack_control bf f) = bool_to_word (sequence_number f = None)"
  "fc_pan_id_compression bf (Frame_pack_control bf f) = bool_to_word (Frame_pan_id_compression f)"
  "fc_information_elements_present bf (Frame_pack_control bf f) = 0"
  "fc_security_enabled bf (Frame_pack_control bf f) = 0"
  "fc_frame_type bf (Frame_pack_control bf f) = take_bit 3 (ucast (FrameType_get_tag (frame_type f)))"
  "fc_destination_addressing_mode bf (Frame_pack_control bf f) = Frame_address_mode (destination f)"
  "fc_source_addressing_mode bf (Frame_pack_control bf f) = Frame_address_mode (source f)"
  by (simp_all add: Frame_pack_control_def Let_def fc_defs get_set Frame_address_mode_def
      AddressingMode_into_tag_bits)


lemma FrameType_tag_roundtrip:
  "ucast (take_bit 3 (ucast (FrameType_get_tag ft) :: u16)) = FrameType_get_tag ft"
  by (cases ft) simp_all

lemma FrameType_roundtrip:
  assumes "FrameType_packable ft" "\<not> FrameType_is_association_request ft"
  shows "FrameType_unpack_data bf (FrameType_get_tag ft) (FrameType_bytes bf ft) = Ok (ft, [])"
  using assms Command_roundtrip [where rest = "[]"]
  by (cases ft) (simp_all add: FrameType_unpack_data_def Beacon_roundtrip payload.whole_roundtrip)

lemma FullAddress_tag_not_None [simp]: "FullAddress_get_tag a \<noteq> AddressingMode_None"
  by (cases "address a") (simp_all add: FullAddress_get_tag_def)

lemma Frame_destination_roundtrip:
  "Frame_unpack_address
     (optional_address_mode a) None
     ((case a of None \<Rightarrow> [] | Some x \<Rightarrow> FullAddress_bytes x) @ rest) = Ok (a, rest)"
  by (cases a) (simp_all add: Frame_unpack_address_def FullAddress_roundtrip)

lemma Frame_source_roundtrip:
  "Frame_unpack_address
     (optional_address_mode (source f))
     (if Frame_pan_id_compression f then map_option pan_id (destination f) else None)
     (Frame_source_bytes f @ rest) = Ok (source f, rest)"
proof (cases "source f")
  case (Some a)
  have tag: "Address_unpack_data (FullAddress_get_tag a) (Address_bytes (address a) @ rest) =
      Ok (address a, rest)"
    by (simp add: FullAddress_get_tag_def Address_roundtrip)
  show ?thesis
    using Some FullAddress_roundtrip [of a rest] tag
    by (cases "destination f")
      (auto simp: Frame_unpack_address_def Frame_source_bytes_def Frame_pan_id_compression_def)
qed (simp add: Frame_unpack_address_def Frame_source_bytes_def)

lemma Frame_bytes_roundtrip:
  assumes "FrameType_packable (frame_type f)" "\<not> FrameType_is_association_request (frame_type f)"
  shows "Frame_unpack bf (Frame_bytes bf f) = Ok (f, [])"
proof -
  have seq: "Option_unpack_data int_unpack (sequence_number f \<noteq> None)
      ((case sequence_number f of None \<Rightarrow> [] | Some n \<Rightarrow> to_le_bytes n) @ rest) =
      Ok (sequence_number f, rest)" for rest
    using u8.option_roundtrip [of "sequence_number f" rest]
    by (simp add: Option_get_tag_def option.pred_True)
  show ?thesis
    by (simp add: Frame_unpack_def Frame_bytes_def Frame_header_bytes_def int_roundtrip Let_def
        Frame_control_fields seq Frame_address_mode_roundtrip Frame_destination_roundtrip
        Frame_source_roundtrip FrameType_tag_roundtrip FrameType_roundtrip [OF assms]
        del: to_le_bytes_u8 if_split not_None_eq)
qed


lemma Frame_association_request_truncated:
  assumes "frame_type f = FrameType_Command (Command_AssociationRequest c)"
  shows "Frame_unpack bf (Frame_bytes bf f) = Err NotEnoughData"
proof -
  have seq: "Option_unpack_data int_unpack (sequence_number f \<noteq> None)
      ((case sequence_number f of None \<Rightarrow> [] | Some n \<Rightarrow> to_le_bytes n) @ rest) =
      Ok (sequence_number f, rest)" for rest
    using u8.option_roundtrip [of "sequence_number f" rest]
    by (simp add: Option_get_tag_def option.pred_True)
  have "FrameType_unpack_data bf (FrameType_get_tag (frame_type f)) (FrameType_bytes bf (frame_type f)) =
      Err NotEnoughData"
    using assms
    by (simp add: FrameType_unpack_data_def Command_unpack_def CapabilityInformation_unpack_def
        int_unpack_def)
  then show ?thesis
    by (simp add: Frame_unpack_def Frame_bytes_def Frame_header_bytes_def int_roundtrip Let_def
        Frame_control_fields seq Frame_address_mode_roundtrip Frame_destination_roundtrip
        Frame_source_roundtrip FrameType_tag_roundtrip
        del: to_le_bytes_u8 if_split not_None_eq)
qed

lemma bit_range_single:
  assumes "i < 16"
  shows "bit_range bf w i i = 0 \<longleftrightarrow> \<not> bit w i"
proof -
  have "bit_range bf w i i = (if bit w i then 1 else 0)"
    using assms by (intro bit_word_eqI) (auto simp: bit_bit_range bit_1_iff)
  then show ?thesis by simp
qed

end

interpretation frame_bits_impl: frame_bits bitfield_impl ..

definition example_frame :: "frame_type \<Rightarrow> frame" where
  "example_frame ft =
     \<lparr>frame_pending = True, acknowledge_request = True, sequence_number = Some 0x2A,
      destination = Some \<lparr>pan_id = PANID 0x1234, address = Address_Short (ShortAddress 0x4567)\<rparr>,
      source = Some \<lparr>pan_id = PANID 0x1234, address = Address_Extended (ExtendedAddress 0x00124B000E896815)\<rparr>,
      frame_type = ft\<rparr>"

section \<open>Properties\<close>

text \<open>
  C10. Packing a frame into a vector and unpacking the bytes gives the frame back with no
  bytes left, for every frame whose beacon orders are in range, except the association
  request, of which the capability byte is not written.
\<close>

theorem Frame_roundtrip:
  assumes "bitfield_crate bf"
    and "FrameType_packable (frame_type f)"
    and "\<not> FrameType_is_association_request (frame_type f)"
  shows "\<exists>v. Frame_pack bf VecPackTarget_append f VecPackTarget_new = Ok v \<and>
    Frame_unpack bf (VecPackTarget_into v) = Ok (f, [])"
  using assms(2) frame_bits.Frame_bytes_roundtrip [OF frame_bits.intro [OF assms(1)] assms(2,3)]
  by (simp add: vec.Frame_pack_emit VecPackTarget_new_def)

theorem Frame_roundtrip_witness:
  "\<exists>v. Frame_pack bitfield_impl VecPackTarget_append
        (example_frame (FrameType_Data (Payload [1, 2, 3]))) VecPackTarget_new = Ok v \<and>
      Frame_unpack bitfield_impl (VecPackTarget_into v) =
        Ok (example_frame (FrameType_Data (Payload [1, 2, 3])), [])"
  by (rule Frame_roundtrip) (simp_all add: example_frame_def bitfield_impl.bitfield_crate_axioms)

text \<open>
  Packing a frame into a vector succeeds exactly when the orders of its beacon are at
  most 15; every other frame can be packed.
\<close>

theorem Frame_pack_succeeds_iff:
  "is_ok (Frame_pack bf VecPackTarget_append f target) \<longleftrightarrow> FrameType_packable (frame_type f)"
proof (cases "FrameType_packable (frame_type f)")
  case True
  then show ?thesis by (cases target) (simp add: vec.Frame_pack_emit)
qed (simp add: Frame_pack_not_packable)

text \<open>
  Packing into a fixed slice agrees with packing into a vector: the same bytes at the
  start of the slice and the rest of it untouched when they fit, \<^verbatim>\<open>NotEnoughSpace\<close> when
  they do not.
\<close>

theorem Frame_pack_slice_agrees:
  assumes "Frame_pack bf VecPackTarget_append f VecPackTarget_new = Ok v"
  shows "Frame_pack bf SlicePackTarget_append f (SlicePackTarget_new buf) =
    (let bs = VecPackTarget_into v in
     if length bs \<le> length buf then Ok (SlicePackTarget (bs @ drop (length bs) buf) (length bs))
     else Err (TargetError NotEnoughSpace))"
proof -
  have ok: "FrameType_packable (frame_type f)"
    using assms Frame_pack_not_packable [of f bf VecPackTarget_append VecPackTarget_new] by auto
  then have "VecPackTarget_into v = Frame_bytes bf f"
    using assms by (auto simp: vec.Frame_pack_emit VecPackTarget_new_def)
  then show ?thesis
    using ok by (simp add: slice.Frame_pack_emit SlicePackTarget_new_def slice_emit
        copy_from_slice_def Let_def)
qed

text \<open>
  \<^verbatim>\<open>CapabilityInformation::pack\<close> writes nothing, so an association request does not
  survive the round trip: its bytes unpack to \<^verbatim>\<open>NotEnoughData\<close>.
\<close>

theorem Frame_association_request_not_invertible:
  assumes "bitfield_crate bf"
    and "frame_type f = FrameType_Command (Command_AssociationRequest c)"
  shows "\<exists>v. Frame_pack bf VecPackTarget_append f VecPackTarget_new = Ok v \<and>
    Frame_unpack bf (VecPackTarget_into v) = Err NotEnoughData"
  using assms(2) frame_bits.Frame_association_request_truncated
    [OF frame_bits.intro [OF assms(1)] assms(2)]
  by (simp add: vec.Frame_pack_emit VecPackTarget_new_def)

text \<open>
  Only unsecured frames without information elements are accepted: a frame that
  unpacks has both bits of its frame control clear.
\<close>

theorem Frame_unpack_accepts_only_plain:
  assumes "bitfield_crate bf" and "Frame_unpack bf data = Ok (f, rest)"
  shows "\<exists>fc. int_unpack data = Ok (fc, drop 2 data) \<and> \<not> bit (fc :: u16) 3 \<and> \<not> bit fc 9"
proof -
  from assms(2) obtain fc d where fc: "int_unpack data = Ok (fc, d)"
      and bits: "fc_information_elements_present bf fc = 0" "fc_security_enabled bf fc = 0"
    by (auto simp: Frame_unpack_def Let_def and_then_eq_Ok_iff split: if_splits)
  have "d = drop 2 data" using fc by (auto simp: int_unpack_def Let_def split: if_splits)
  with fc bits show ?thesis
    by (simp add: fc_information_elements_present_def fc_security_enabled_def
        frame_bits.bit_range_single [OF frame_bits.intro [OF assms(1)]])
qed

end
