(* ===== verification/Raw_Radio.thy ===== *)
theory Raw_Radio
  imports Pack Crates
begin

text \<open>
  The serial protocol to the radio (\<^verbatim>\<open>src/radio/raw.rs\<close>): messages framed by the prefix
  \<^verbatim>\<open>ZPB\<close>, a command, a request identifier and a length; the sink that writes them and
  the stream that finds them again in the bytes that arrive.  \<^verbatim>\<open>nom\<close> and \<^verbatim>\<open>cookie-factory\<close>
  are the arguments \<open>nom\<close> and \<open>cf\<close>; the answers of the serial port are an argument too.
  The lemmas show that a message that was written is read back whatever the chunks in
  which its bytes arrive, and what happens with garbage, unknown commands, an end of file
  and messages that do not fit the buffer.
\<close>

section \<open>Messages\<close>

definition RADIO_MAGIC_PREFIX :: bytes where
  "RADIO_MAGIC_PREFIX = [0x5A, 0x50, 0x42]"

datatype raw_radio_command =
    RawRadioCommand_Prepare
  | RawRadioCommand_Transmit
  | RawRadioCommand_Send
  | RawRadioCommand_ChannelClear
  | RawRadioCommand_On
  | RawRadioCommand_Off
  | RawRadioCommand_GetValue
  | RawRadioCommand_SetValue
  | RawRadioCommand_GetObject
  | RawRadioCommand_SetObject
  | RawRadioCommand_InitPendingTable
  | RawRadioCommand_SetPending
  | RawRadioCommand_Ok
  | RawRadioCommand_Err
  | RawRadioCommand_OnPacket

fun RawRadioCommand_into_tag :: "raw_radio_command \<Rightarrow> u8" where
  "RawRadioCommand_into_tag RawRadioCommand_Prepare = 0"
| "RawRadioCommand_into_tag RawRadioCommand_Transmit = 1"
| "RawRadioCommand_into_tag RawRadioCommand_Send = 2"
| "RawRadioCommand_into_tag RawRadioCommand_ChannelClear = 3"
| "RawRadioCommand_into_tag RawRadioCommand_On = 4"
| "RawRadioCommand_into_tag RawRadioCommand_Off = 5"
| "RawRadioCommand_into_tag RawRadioCommand_GetValue = 6"
| "RawRadioCommand_into_tag RawRadioCommand_SetValue = 7"
| "RawRadioCommand_into_tag RawRadioCommand_GetObject = 8"
| "RawRadioCommand_into_tag RawRadioCommand_SetObject = 9"
| "RawRadioCommand_into_tag RawRadioCommand_InitPendingTable = 10"
| "RawRadioCommand_into_tag RawRadioCommand_SetPending = 11"
| "RawRadioCommand_into_tag RawRadioCommand_Ok = 0x80"
| "RawRadioCommand_into_tag RawRadioCommand_Err = 0x81"
| "RawRadioCommand_into_tag RawRadioCommand_OnPacket = 0xC0"

definition RawRadioCommand_try_from_tag :: "u8 \<Rightarrow> (raw_radio_command, ext_enum_error) result" where
  "RawRadioCommand_try_from_tag tag =
     (if tag = 0 then Ok RawRadioCommand_Prepare
      else if tag = 1 then Ok RawRadioCommand_Transmit
      else if tag = 2 then Ok RawRadioCommand_Send
      else if tag = 3 then Ok RawRadioCommand_ChannelClear
      else if tag = 4 then Ok RawRadioCommand_On
      else if tag = 5 then Ok RawRadioCommand_Off
      else if tag = 6 then Ok RawRadioCommand_GetValue
      else if tag = 7 then Ok RawRadioCommand_SetValue
      else if tag = 8 then Ok RawRadioCommand_GetObject
      else if tag = 9 then Ok RawRadioCommand_SetObject
      else if tag = 10 then Ok RawRadioCommand_InitPendingTable
      else if tag = 11 then Ok RawRadioCommand_SetPending
      else if tag = 0x80 then Ok RawRadioCommand_Ok
      else if tag = 0x81 then Ok RawRadioCommand_Err
      else if tag = 0xC0 then Ok RawRadioCommand_OnPacket
      else Err InvalidTag)"

record raw_radio_message =
  rm_command_id :: raw_radio_command
  rm_request_id :: u16
  rm_data :: bytes

datatype raw_radio_param =
    RawRadioParam_PowerMode
  | RawRadioParam_Channel
  | RawRadioParam_PanId
  | RawRadioParam_ShortAddress
  | RawRadioParam_RxMode
  | RawRadioParam_TxMode
  | RawRadioParam_TxPower
  | RawRadioParam_CcaThreshold
  | RawRadioParam_Rssi
  | RawRadioParam_LastRssi
  | RawRadioParam_LastLinkQuality
  | RawRadioParam_LongAddress
  | RawRadioParam_LastPacketTimestamp
  | RawRadioParam_ChannelMin
  | RawRadioParam_ChannelMax
  | RawRadioParam_TxPowerMin
  | RawRadioParam_TxPowerMax

text \<open>\<^verbatim>\<open>param as u16\<close>: the discriminants count up from \<^verbatim>\<open>PowerMode = 0\<close>.\<close>

fun RawRadioParam_as_u16 :: "raw_radio_param \<Rightarrow> u16" where
  "RawRadioParam_as_u16 RawRadioParam_PowerMode = 0"
| "RawRadioParam_as_u16 RawRadioParam_Channel = 1"
| "RawRadioParam_as_u16 RawRadioParam_PanId = 2"
| "RawRadioParam_as_u16 RawRadioParam_ShortAddress = 3"
| "RawRadioParam_as_u16 RawRadioParam_RxMode = 4"
| "RawRadioParam_as_u16 RawRadioParam_TxMode = 5"
| "RawRadioParam_as_u16 RawRadioParam_TxPower = 6"
| "RawRadioParam_as_u16 RawRadioParam_CcaThreshold = 7"
| "RawRadioParam_as_u16 RawRadioParam_Rssi = 8"
| "RawRadioParam_as_u16 RawRadioParam_LastRssi = 9"
| "RawRadioParam_as_u16 RawRadioParam_LastLinkQuality = 10"
| "RawRadioParam_as_u16 RawRadioParam_LongAddress = 11"
| "RawRadioParam_as_u16 RawRadioParam_LastPacketTimestamp = 12"
| "RawRadioParam_as_u16 RawRadioParam_ChannelMin = 13"
| "RawRadioParam_as_u16 RawRadioParam_ChannelMax = 14"
| "RawRadioParam_as_u16 RawRadioParam_TxPowerMin = 15"
| "RawRadioParam_as_u16 RawRadioParam_TxPowerMax = 16"

definition u16_max :: u16 where
  "u16_max = 0xFFFF"

definition gen_raw_radio_message :: "cookie_ops \<Rightarrow> raw_radio_message \<Rightarrow> serialize_fn" where
  "gen_raw_radio_message cf msg =
     (let len = (if length (rm_data msg) > unat u16_max then u16_max
                 else of_nat (length (rm_data msg)))
      in cf_tuple5 cf
           (cf_slice cf RADIO_MAGIC_PREFIX)
           (cf_be_u8 cf (RawRadioCommand_into_tag (rm_command_id msg)))
           (cf_be_u16 cf (rm_request_id msg))
           (cf_be_u16 cf len)
           (cf_slice cf (take (unat len) (rm_data msg))))"

definition RawRadioMessage_into :: "cookie_ops \<Rightarrow> raw_radio_message \<Rightarrow> bytes outcome" where
  "RawRadioMessage_into cf self = unwrap (cf_gen cf (gen_raw_radio_message cf self) [])"

definition parse_raw_radio_message ::
    "nom_ops \<Rightarrow> bytes \<Rightarrow> (bytes \<times> raw_radio_message, nom_err) result outcome" where
  "parse_raw_radio_message nom input =
     (case nom_tuple4 nom (nom_tag nom RADIO_MAGIC_PREFIX) (nom_be_u8 nom) (nom_be_u16 nom)
         (nom_be_u16 nom) input of
        Err e \<Rightarrow> Return (Err e)
      | Ok (input, (_, command_id, request_id, data_len)) \<Rightarrow>
          bind_outcome (unwrap (RawRadioCommand_try_from_tag command_id)) (\<lambda>command_id.
          Return (and_then (nom_take nom (unat data_len) input) (\<lambda>(input, dat).
            Ok (input, \<lparr>rm_command_id = command_id, rm_request_id = request_id, rm_data = dat\<rparr>)))))"

section \<open>The sink\<close>

datatype io_error = IoError nat

text \<open>
  The port answers each \<^verbatim>\<open>poll_write\<close> with the next element of a list, which says how many
  bytes it has room for (it accepts that many of the bytes offered, or all of them); when
  the list is used up it is not ready.  What it accepted is returned beside the result.
\<close>

type_synonym write_answer = "(usize, io_error) result poll"

record raw_radio_sink =
  sink_buffer :: bytes
  sink_written :: usize

definition RawRadioSink_new :: raw_radio_sink where
  "RawRadioSink_new = \<lparr>sink_buffer = [], sink_written = 0\<rparr>"

fun RawRadioSink_poll_ready :: "write_answer list \<Rightarrow> raw_radio_sink \<Rightarrow>
    (unit, io_error) result poll \<times> bytes \<times> write_answer list \<times> raw_radio_sink" where
  "RawRadioSink_poll_ready [] self =
     (if sink_written self < length (sink_buffer self) then (Pending, [], [], self)
      else (Ready (Ok ()), [], [], self\<lparr>sink_buffer := [], sink_written := 0\<rparr>))"
| "RawRadioSink_poll_ready (a # answers) self =
     (if sink_written self < length (sink_buffer self) then
        (case a of
           Pending \<Rightarrow> (Pending, [], answers, self)
         | Ready (Err e) \<Rightarrow> (Ready (Err e), [], answers, self)
         | Ready (Ok room) \<Rightarrow>
             (let offered = drop (sink_written self) (sink_buffer self);
                  num_sent = min room (length offered);
                  sent = take num_sent offered;
                  (r, out, rest, self') = RawRadioSink_poll_ready answers
                    (self\<lparr>sink_written := sink_written self + num_sent\<rparr>)
              in (r, sent @ out, rest, self')))
      else (Ready (Ok ()), [], a # answers, self\<lparr>sink_buffer := [], sink_written := 0\<rparr>))"

definition RawRadioSink_start_send :: "cookie_ops \<Rightarrow> raw_radio_message \<Rightarrow> raw_radio_sink \<Rightarrow>
    ((unit, io_error) result \<times> raw_radio_sink) outcome" where
  "RawRadioSink_start_send cf item self =
     bind_outcome (RawRadioMessage_into cf item) (\<lambda>bs.
       Return (Ok (), self\<lparr>sink_buffer := sink_buffer self @ bs\<rparr>))"

text \<open>\<open>port\<close> is the answer of the port's own \<^verbatim>\<open>poll_flush\<close> or \<^verbatim>\<open>poll_close\<close>.\<close>

definition RawRadioSink_poll_flush :: "(unit, io_error) result poll \<Rightarrow> write_answer list \<Rightarrow>
    raw_radio_sink \<Rightarrow> (unit, io_error) result poll \<times> bytes \<times> write_answer list \<times> raw_radio_sink" where
  "RawRadioSink_poll_flush port answers self =
     (case RawRadioSink_poll_ready answers self of
        (Pending, out, rest, self') \<Rightarrow> (Pending, out, rest, self')
      | (Ready (Err e), out, rest, self') \<Rightarrow> (Ready (Err e), out, rest, self')
      | (Ready (Ok _), out, rest, self') \<Rightarrow> (port, out, rest, self'))"

definition RawRadioSink_poll_close :: "(unit, io_error) result poll \<Rightarrow> write_answer list \<Rightarrow>
    raw_radio_sink \<Rightarrow> (unit, io_error) result poll \<times> bytes \<times> write_answer list \<times> raw_radio_sink" where
  "RawRadioSink_poll_close port answers self =
     (case RawRadioSink_poll_ready answers self of
        (Pending, out, rest, self') \<Rightarrow> (Pending, out, rest, self')
      | (Ready (Err e), out, rest, self') \<Rightarrow> (Ready (Err e), out, rest, self')
      | (Ready (Ok _), out, rest, self') \<Rightarrow> (port, out, rest, self'))"

section \<open>The stream\<close>

record raw_radio_stream =
  stream_buffer :: bytes
  buffer_filled :: usize

text \<open>\<^verbatim>\<open>haystack.windows(needle.len()).position(|window| window == needle)\<close>\<close>

fun find_subsequence :: "'a list \<Rightarrow> 'a list \<Rightarrow> usize option" where
  "find_subsequence [] needle = None"
| "find_subsequence (x # xs) needle =
     (if length (x # xs) < length needle then None
      else if take (length needle) (x # xs) = needle then Some 0
      else map_option Suc (find_subsequence xs needle))"

definition RawRadioStream_new :: raw_radio_stream where
  "RawRadioStream_new =
     \<lparr>stream_buffer = replicate (unat u16_max) 0, buffer_filled = 0\<rparr>"

definition rotate_left :: "usize \<Rightarrow> 'a list \<Rightarrow> 'a list" where
  "rotate_left n xs = drop n xs @ take n xs"

definition rotate_right :: "usize \<Rightarrow> 'a list \<Rightarrow> 'a list" where
  "rotate_right n xs = drop (length xs - n) xs @ take (length xs - n) xs"

text \<open>
  The slice is rotated in place: the result holds the new length, the message and the
  slice afterwards.
\<close>

definition pop_raw_message :: "nom_ops \<Rightarrow> bytes \<Rightarrow>
    (usize \<times> raw_radio_message option \<times> bytes) outcome" where
  "pop_raw_message nom buf =
     (if length buf < length RADIO_MAGIC_PREFIX then Return (length buf, None, buf)
      else case find_subsequence buf RADIO_MAGIC_PREFIX of
        None \<Rightarrow> Return (length RADIO_MAGIC_PREFIX, None,
          rotate_right (length RADIO_MAGIC_PREFIX) buf)
      | Some index \<Rightarrow>
          (let rotated = rotate_left index buf;
               new_len = length rotated - index;
               buf' = take new_len rotated;
               skipped = drop new_len rotated
           in bind_outcome (parse_raw_radio_message nom buf') (\<lambda>parsed.
              case parsed of
                Ok (remaining, message) \<Rightarrow>
                  (let remaining_len = length remaining
                   in Return (remaining_len, Some message, rotate_right remaining_len buf' @ skipped))
              | Err Nom_Incomplete \<Rightarrow> Return (length buf', None, buf' @ skipped)
              | Err _ \<Rightarrow> Panic)))"

text \<open>
  The port as an \<^verbatim>\<open>AsyncRead\<close>: a list of the chunks that become available, in order, with
  moments at which nothing is, and errors.  A read of at most \<open>n\<close> bytes takes no more than
  that from the chunk; an empty chunk is a read of zero bytes, the end of the file.
\<close>

datatype source_event = SrcChunk bytes | SrcPending | SrcError io_error

fun poll_read :: "source_event list \<Rightarrow> usize \<Rightarrow>
    (bytes, io_error) result poll \<times> source_event list" where
  "poll_read [] n = (Pending, [])"
| "poll_read (SrcPending # src) n = (Pending, src)"
| "poll_read (SrcError e # src) n = (Ready (Err e), src)"
| "poll_read (SrcChunk bs # src) n =
     (if length bs \<le> n then (Ready (Ok bs), src)
      else (Ready (Ok (take n bs)), SrcChunk (drop n bs) # src))"

fun source_size :: "source_event list \<Rightarrow> nat" where
  "source_size [] = 0"
| "source_size (SrcChunk bs # src) = Suc (length bs) + source_size src"
| "source_size (_ # src) = Suc (source_size src)"

lemma poll_read_decreases:
  "poll_read src n = (Ready r, src') \<Longrightarrow> 0 < n \<Longrightarrow> source_size src' < source_size src"
  by (cases "(src, n)" rule: poll_read.cases) (auto split: if_splits)

function RawRadioStream_poll_next :: "nom_ops \<Rightarrow> source_event list \<Rightarrow> raw_radio_stream \<Rightarrow>
    (raw_radio_message option poll \<times> source_event list \<times> raw_radio_stream) outcome" where
  "RawRadioStream_poll_next nom src self =
     (case pop_raw_message nom (take (buffer_filled self) (stream_buffer self)) of
        Panic \<Rightarrow> Panic
      | Return (new_length, message, popped) \<Rightarrow>
          (let self = \<lparr>stream_buffer = popped @ drop (buffer_filled self) (stream_buffer self),
                       buffer_filled = new_length\<rparr>
           in case message of
             Some message \<Rightarrow> Return (Ready (Some message), src, self)
           | None \<Rightarrow>
               (let target_len = length (stream_buffer self) - buffer_filled self
                in if target_len = 0 then Return (Ready None, src, self)
                else case poll_read src target_len of
                  (Pending, src) \<Rightarrow> Return (Pending, src, self)
                | (Ready (Err e), src) \<Rightarrow> Return (Ready None, src, self)
                | (Ready (Ok bs), src) \<Rightarrow>
                    RawRadioStream_poll_next nom src
                      \<lparr>stream_buffer = copy_from_slice (stream_buffer self) (buffer_filled self) bs,
                       buffer_filled = buffer_filled self + length bs\<rparr>)))"
  by pat_completeness auto
termination
  by (relation "measure (\<lambda>(nom, src, self). source_size src)")
    (auto dest: poll_read_decreases [OF sym])

declare RawRadioStream_poll_next.simps [simp del]

section \<open>Messages on the wire\<close>

definition message_bytes :: "raw_radio_message \<Rightarrow> bytes" where
  "message_bytes m =
     RADIO_MAGIC_PREFIX @ [RawRadioCommand_into_tag (rm_command_id m)] @
     to_be_bytes (rm_request_id m) @
     to_be_bytes (of_nat (min (length (rm_data m)) 0xFFFF) :: u16) @
     take 0xFFFF (rm_data m)"

text \<open>The messages that fit the reader's buffer of 65535 bytes.\<close>

definition message_fits :: "raw_radio_message \<Rightarrow> bool" where
  "message_fits m \<longleftrightarrow> length (rm_data m) \<le> 0xFFFF - 8"

lemma length_prefix [simp]: "length RADIO_MAGIC_PREFIX = 3"
  by (simp add: RADIO_MAGIC_PREFIX_def)

lemma RawRadioCommand_roundtrip [simp]:
  "RawRadioCommand_try_from_tag (RawRadioCommand_into_tag c) = Ok c"
  by (cases c) (simp_all add: RawRadioCommand_try_from_tag_def)

lemma u16_max_unat [simp]: "unat u16_max = 0xFFFF"
  by (simp add: u16_max_def)

lemma unat_of_nat_u16: "n \<le> 0xFFFF \<Longrightarrow> unat (of_nat n :: u16) = n"
  by (simp add: unsigned_of_nat take_bit_eq_mod)

lemma length_message_bytes:
  "length (message_bytes m) = 8 + min (length (rm_data m)) 0xFFFF"
  by (simp add: message_bytes_def)

lemma message_fits_length: "message_fits m \<Longrightarrow> length (message_bytes m) = 8 + length (rm_data m)"
  by (simp add: length_message_bytes message_fits_def)

context cookie_crate
begin

lemma RawRadioMessage_into_bytes: "RawRadioMessage_into cf m = Return (message_bytes m)"
  by (auto simp: RawRadioMessage_into_def gen_raw_radio_message_def Let_def slice_doc be_u8_doc
      be_u16_doc tuple_doc gen_doc message_bytes_def unat_of_nat_u16 to_be_bytes_def u16_max_def min_def)

end

context nom_crate
begin

lemma parse_short:
  assumes "length input < 5"
  shows "parse_raw_radio_message nom (RADIO_MAGIC_PREFIX @ input) = Return (Err Nom_Incomplete)"
  using assms
  by (auto simp: parse_raw_radio_message_def tuple_doc nom_tuple4_spec_def tag_doc nom_tag_spec_def
      be_u8_doc be_u16_doc nom_take_spec_def)

lemma parse_full:
  "parse_raw_radio_message nom
     (RADIO_MAGIC_PREFIX @ c # to_be_bytes (r :: u16) @ to_be_bytes (l :: u16) @ body) =
     bind_outcome (unwrap (RawRadioCommand_try_from_tag c)) (\<lambda>cmd.
       Return (if length body < unat l then Err Nom_Incomplete
         else Ok (drop (unat l) body,
           \<lparr>rm_command_id = cmd, rm_request_id = r, rm_data = take (unat l) body\<rparr>)))"
  by (simp add: parse_raw_radio_message_def tuple_doc nom_tuple4_spec_def tag_doc nom_tag_spec_def
      be_u8_doc be_u16_doc take_doc nom_take_spec_def from_be_bytes_to_be_bytes from_be_bytes_single)

lemma parse_message:
  assumes "length (rm_data m) \<le> 0xFFFF"
  shows "parse_raw_radio_message nom (message_bytes m @ rest) = Return (Ok (rest, m))"
  using assms by (simp add: message_bytes_def parse_full unat_of_nat_u16)

lemma parse_prefix_of_message:
  assumes "message_bytes m = x @ y" "3 \<le> length x" "y \<noteq> []" "length (rm_data m) \<le> 0xFFFF"
  shows "parse_raw_radio_message nom x = Return (Err Nom_Incomplete)"
proof (cases "length x < 8")
  case True
  obtain z where "message_bytes m = RADIO_MAGIC_PREFIX @ z" by (simp add: message_bytes_def)
  with assms(1) have "x @ y = RADIO_MAGIC_PREFIX @ z" by simp
  then have "x = RADIO_MAGIC_PREFIX @ drop 3 x" using append_eq_longer(1) assms(2) by force
  then show ?thesis using parse_short [of "drop 3 x"] True by simp
next
  case False
  let ?hdr = "RADIO_MAGIC_PREFIX @ RawRadioCommand_into_tag (rm_command_id m) #
     to_be_bytes (rm_request_id m) @ to_be_bytes (of_nat (length (rm_data m)) :: u16)"
  have "message_bytes m = ?hdr @ rm_data m" using assms(4) by (simp add: message_bytes_def)
  then have "x @ y = ?hdr @ rm_data m" "length ?hdr = 8" using assms by simp_all
  then have x: "x = ?hdr @ drop 8 x" "rm_data m = drop 8 x @ y"
    using append_eq_longer [of x y ?hdr "rm_data m"] False by simp_all
  have "length (drop 8 x) < length (rm_data m)"
    using x(2) assms(3) by (metis length_append less_add_same_cancel1 length_greater_0_conv)
  then show ?thesis using assms(4) by (subst x(1)) (simp add: parse_full unat_of_nat_u16)
qed

end

section \<open>Taking messages out of the buffer\<close>

text \<open>Noise: bytes without the magic prefix in them.\<close>

definition noise :: "bytes \<Rightarrow> bool" where
  "noise g \<longleftrightarrow> find_subsequence g RADIO_MAGIC_PREFIX = None"

lemma find_subsequence_short: "length xs < length needle \<Longrightarrow> find_subsequence xs needle = None"
  by (cases xs) simp_all

lemma noise_Nil [simp]: "noise []"
  by (simp add: noise_def)

lemma noise_ConsD: "noise (b # g) \<Longrightarrow> noise g"
  by (auto simp: noise_def find_subsequence_short split: if_splits)

lemma noise_drop: "noise g \<Longrightarrow> noise (drop n g)"
  by (induction n arbitrary: g) (auto simp: drop_Suc neq_Nil_conv dest: noise_ConsD split: list.splits,
     metis drop_Nil list.sel(2) list.sel(3) neq_Nil_conv noise_ConsD noise_Nil)

text \<open>The prefix does not overlap itself: noise in front of it never hides it.\<close>

lemma magic_window:
  assumes "noise (b # g)"
  shows "take 3 (b # g @ RADIO_MAGIC_PREFIX @ rest) \<noteq> RADIO_MAGIC_PREFIX"
proof (cases "3 \<le> length (b # g)")
  case True
  then show ?thesis using assms by (auto simp: noise_def split: if_splits)
next
  case False
  then consider "length g = 0" | "length g = 1" by (cases "length g") auto
  then show ?thesis by cases (auto simp: RADIO_MAGIC_PREFIX_def length_Suc_conv numeral_3_eq_3)
qed

lemma find_after_noise:
  "noise g \<Longrightarrow> find_subsequence (g @ RADIO_MAGIC_PREFIX @ rest) RADIO_MAGIC_PREFIX = Some (length g)"
proof (induction g)
  case Nil
  then show ?case by (simp add: RADIO_MAGIC_PREFIX_def)
next
  case (Cons b g)
  then show ?case using magic_window [of b g rest] noise_ConsD [of b g] by simp
qed

lemma find_before_magic:
  "noise g \<Longrightarrow> n < length g + 3 \<Longrightarrow>
    find_subsequence (take n (g @ RADIO_MAGIC_PREFIX)) RADIO_MAGIC_PREFIX = None"
proof (induction g arbitrary: n)
  case Nil
  then show ?case by (simp add: find_subsequence_short)
next
  case (Cons b g)
  show ?case
  proof (cases "n < 3")
    case True
    then show ?thesis by (simp add: find_subsequence_short)
  next
    case False
    then obtain k where n: "n = Suc k" by (cases n) auto
    have "take 3 (take n (b # g @ RADIO_MAGIC_PREFIX)) \<noteq> RADIO_MAGIC_PREFIX"
      using magic_window [OF Cons.prems(1), of "[]"] False by (simp add: min_def)
    then show ?thesis
      using Cons.IH [of k] Cons.prems noise_ConsD [of b g] n by (simp add: min_def)
  qed
qed

lemma length_rotations [simp]:
  "length (rotate_left n xs) = length xs" "length (rotate_right n xs) = length xs"
  by (simp_all add: rotate_left_def rotate_right_def)

lemma take_rotate_right: "n \<le> length xs \<Longrightarrow> take n (rotate_right n xs) = drop (length xs - n) xs"
  by (simp add: rotate_right_def)

text \<open>What a call of \<open>pop_raw_message\<close> returns, with the bytes it keeps.\<close>

definition pops :: "nom_ops \<Rightarrow> bytes \<Rightarrow> raw_radio_message option \<Rightarrow> bytes \<Rightarrow> bool" where
  "pops nom c message kept \<longleftrightarrow>
     (\<exists>p. pop_raw_message nom c = Return (length kept, message, p) \<and>
        length p = length c \<and> length kept \<le> length c \<and> take (length kept) p = kept)"

lemma pops_noise:
  assumes "noise g" "n < length g + 3" "c = take n (g @ RADIO_MAGIC_PREFIX)"
  shows "pops nom c None (drop (length c - 3) c)"
proof -
  have "find_subsequence c RADIO_MAGIC_PREFIX = None"
    using find_before_magic assms by simp
  then show ?thesis
    by (simp add: pops_def pop_raw_message_def take_rotate_right)
qed

lemma rotate_left_append: "rotate_left (length g) (g @ xs) = xs @ g"
  by (simp add: rotate_left_def)

context nom_crate
begin

lemma pops_partial:
  assumes "noise g" "message_bytes m = x @ y" "3 \<le> length x" "y \<noteq> []" "length (rm_data m) \<le> 0xFFFF"
  shows "pops nom (g @ x) None x"
proof -
  obtain z where z: "message_bytes m = RADIO_MAGIC_PREFIX @ z" by (simp add: message_bytes_def)
  with assms(2) have "x @ y = RADIO_MAGIC_PREFIX @ z" by simp
  then have "x = RADIO_MAGIC_PREFIX @ drop 3 x" using append_eq_longer(1) assms(3) by force
  then have "find_subsequence (g @ x) RADIO_MAGIC_PREFIX = Some (length g)"
    using find_after_noise [OF assms(1)] by metis
  then show ?thesis
    using parse_prefix_of_message [OF assms(2-5)] assms(3)
    by (simp add: pops_def pop_raw_message_def rotate_left_append Let_def)
qed

lemma pops_message:
  assumes "noise g" "length (rm_data m) \<le> 0xFFFF"
  shows "pops nom (g @ message_bytes m @ rest) (Some m) rest"
proof -
  have "find_subsequence (g @ message_bytes m @ rest) RADIO_MAGIC_PREFIX = Some (length g)"
    using find_after_noise [OF assms(1)] by (simp add: message_bytes_def)
  moreover have "3 \<le> length (message_bytes m)" by (simp add: length_message_bytes)
  ultimately show ?thesis
    using parse_message [OF assms(2), of rest]
    by (simp add: pops_def pop_raw_message_def rotate_left_append Let_def take_rotate_right)
qed

end

section \<open>Reading the stream\<close>

definition stream_wf :: "raw_radio_stream \<Rightarrow> bool" where
  "stream_wf s \<longleftrightarrow> length (stream_buffer s) = 0xFFFF \<and> buffer_filled s \<le> 0xFFFF"

definition content :: "raw_radio_stream \<Rightarrow> bytes" where
  "content s = take (buffer_filled s) (stream_buffer s)"

fun src_bytes :: "source_event list \<Rightarrow> bytes" where
  "src_bytes [] = []"
| "src_bytes (SrcChunk bs # src) = bs @ src_bytes src"
| "src_bytes (_ # src) = src_bytes src"

fun src_pendings :: "source_event list \<Rightarrow> nat" where
  "src_pendings [] = 0"
| "src_pendings (SrcPending # src) = Suc (src_pendings src)"
| "src_pendings (_ # src) = src_pendings src"

definition src_clean :: "source_event list \<Rightarrow> bool" where
  "src_clean src \<longleftrightarrow> (\<forall>e. SrcError e \<notin> set src)"

text \<open>Messages on the wire, each behind some noise.\<close>

definition wire :: "(bytes \<times> raw_radio_message) list \<Rightarrow> bytes" where
  "wire ws = concat (map (\<lambda>(g, m). g @ message_bytes m) ws)"

definition wire_ok :: "(bytes \<times> raw_radio_message) list \<Rightarrow> bool" where
  "wire_ok ws \<longleftrightarrow> list_all (\<lambda>(g, m). noise g \<and> message_fits m) ws"

lemma wire_simps [simp]:
  "wire [] = []" "wire ((g, m) # ws) = g @ message_bytes m @ wire ws"
  by (simp_all add: wire_def)

lemma wire_ok_simps [simp]:
  "wire_ok []" "wire_ok ((g, m) # ws) \<longleftrightarrow> noise g \<and> message_fits m \<and> wire_ok ws"
  by (simp_all add: wire_ok_def)

lemma src_clean_simps [simp]:
  "src_clean []" "src_clean (SrcChunk bs # src) \<longleftrightarrow> src_clean src"
  "src_clean (SrcPending # src) \<longleftrightarrow> src_clean src" "\<not> src_clean (SrcError e # src)"
  by (auto simp: src_clean_def)

lemma stream_new [simp]: "stream_wf RawRadioStream_new" "content RawRadioStream_new = []"
  by (simp_all add: stream_wf_def content_def RawRadioStream_new_def)

text \<open>One turn of the loop of \<open>poll_next\<close>, on what the buffer holds.\<close>

lemma poll_next_popped:
  assumes "stream_wf s" "pops nom (content s) (Some m) kept"
  obtains s' where "RawRadioStream_poll_next nom src s = Return (Ready (Some m), src, s')"
    "stream_wf s'" "content s' = kept"
proof -
  obtain p where p: "pop_raw_message nom (take (buffer_filled s) (stream_buffer s)) =
      Return (length kept, Some m, p)"
    "length p = length (content s)" "length kept \<le> length (content s)" "take (length kept) p = kept"
    using assms(2) by (auto simp: pops_def content_def)
  let ?s = "\<lparr>stream_buffer = p @ drop (buffer_filled s) (stream_buffer s),
     buffer_filled = length kept\<rparr>"
  have "RawRadioStream_poll_next nom src s = Return (Ready (Some m), src, ?s)"
    using p(1) by (subst RawRadioStream_poll_next.simps) (simp add: Let_def)
  moreover have "stream_wf ?s" "content ?s = kept"
    using p(2-4) assms(1) by (auto simp: stream_wf_def content_def)
  ultimately show thesis by (rule that)
qed

lemma poll_next_kept:
  assumes "stream_wf s" "pops nom (content s) None kept" "length kept < 0xFFFF"
  obtains s' where "stream_wf s'" "content s' = kept" "buffer_filled s' = length kept"
    "\<And>src. RawRadioStream_poll_next nom src s =
       (case poll_read src (0xFFFF - length kept) of
          (Pending, src) \<Rightarrow> Return (Pending, src, s')
        | (Ready (Err e), src) \<Rightarrow> Return (Ready None, src, s')
        | (Ready (Ok bs), src) \<Rightarrow> RawRadioStream_poll_next nom src
            \<lparr>stream_buffer = copy_from_slice (stream_buffer s') (buffer_filled s') bs,
             buffer_filled = buffer_filled s' + length bs\<rparr>)"
proof -
  obtain p where p: "pop_raw_message nom (take (buffer_filled s) (stream_buffer s)) =
      Return (length kept, None, p)"
    "length p = length (content s)" "length kept \<le> length (content s)" "take (length kept) p = kept"
    using assms(2) by (auto simp: pops_def content_def)
  let ?s = "\<lparr>stream_buffer = p @ drop (buffer_filled s) (stream_buffer s),
     buffer_filled = length kept\<rparr>"
  have wf: "stream_wf ?s" and c: "content ?s = kept"
    using p(2-4) assms(1) by (auto simp: stream_wf_def content_def)
  then have len: "length (p @ drop (buffer_filled s) (stream_buffer s)) = 0xFFFF"
    by (simp add: stream_wf_def)
  show thesis
  proof (rule that [OF wf c])
    fix src
    show "RawRadioStream_poll_next nom src s =
       (case poll_read src (0xFFFF - length kept) of
          (Pending, src) \<Rightarrow> Return (Pending, src, ?s)
        | (Ready (Err e), src) \<Rightarrow> Return (Ready None, src, ?s)
        | (Ready (Ok bs), src) \<Rightarrow> RawRadioStream_poll_next nom src
            \<lparr>stream_buffer = copy_from_slice (stream_buffer ?s) (buffer_filled ?s) bs,
             buffer_filled = buffer_filled ?s + length bs\<rparr>)"
      using p(1) assms(3) len
      by (subst RawRadioStream_poll_next.simps) (simp add: Let_def del: length_append)
  qed simp
qed

lemma fill_buffer:
  assumes "stream_wf s" "length bs \<le> 0xFFFF - buffer_filled s"
    and "s' = \<lparr>stream_buffer = copy_from_slice (stream_buffer s) (buffer_filled s) bs,
             buffer_filled = buffer_filled s + length bs\<rparr>"
  shows "stream_wf s'" "content s' = content s @ bs"
  using assms by (auto simp: stream_wf_def content_def copy_from_slice_def min_def)

lemma poll_read_cases:
  assumes "src_clean src" "0 < n"
  obtains (none) "src = []" "poll_read src n = (Pending, [])"
  | (wait) src' where "src = SrcPending # src'" "poll_read src n = (Pending, src')"
  | (data) bs src' where "poll_read src n = (Ready (Ok bs), src')" "length bs \<le> n"
      "src_bytes src = bs @ src_bytes src'" "src_clean src'" "src_pendings src' = src_pendings src"
      "source_size src' < source_size src"
proof (cases "(src, n)" rule: poll_read.cases)
  case (4 bs src' n')
  with assms show thesis
    by (cases "length bs \<le> n") (auto intro: data [of bs src'] data [of "take n bs" "SrcChunk (drop n bs) # src'"])
qed (use assms none wait in auto)

text \<open>The bytes that hold some messages, noise in front of each.\<close>

definition carries :: "bytes \<Rightarrow> raw_radio_message list \<Rightarrow> bool" where
  "carries b ms \<longleftrightarrow> (\<exists>ws. wire_ok ws \<and> map snd ws = ms \<and> b = wire ws)"

text \<open>The reader of \<^verbatim>\<open>radio_response_task\<close>: \<open>n\<close> polls, with the messages they return.\<close>

fun poll_all :: "nom_ops \<Rightarrow> nat \<Rightarrow> source_event list \<Rightarrow> raw_radio_stream \<Rightarrow>
    raw_radio_message list outcome" where
  "poll_all nom 0 src s = Return []"
| "poll_all nom (Suc n) src s =
     bind_outcome (RawRadioStream_poll_next nom src s) (\<lambda>(r, src', s').
       case r of
         Ready None \<Rightarrow> Panic
       | Ready (Some m) \<Rightarrow> bind_outcome (poll_all nom n src' s') (\<lambda>ms. Return (m # ms))
       | Pending \<Rightarrow> poll_all nom n src' s')"

context nom_crate
begin

lemma pop_step:
  assumes "wire_ok ws" "c @ rest = wire ws"
  obtains (message) g m ws' kept where "ws = (g, m) # ws'" "pops nom c (Some m) kept"
      "kept @ rest = wire ws'"
  | (more) ws' kept where "pops nom c None kept" "length kept < 0xFFFF" "kept @ rest = wire ws'"
      "wire_ok ws'" "map snd ws' = map snd ws" "rest = [] \<Longrightarrow> ws = []"
proof (cases ws)
  case Nil
  with assms have "c = []" "rest = []" by auto
  with Nil show thesis using pops_noise [of "[]" 0 c] by (intro more [of "[]" "[]"]) simp_all
next
  case (Cons w ws')
  obtain g m where w: "w = (g, m)" by (cases w)
  have g: "noise g" and fits: "message_fits m" and ok: "wire_ok ws'"
    and eq: "c @ rest = g @ message_bytes m @ wire ws'"
    using assms Cons w by auto
  from fits have len: "length (rm_data m) \<le> 0xFFFF" by (simp add: message_fits_def)
  consider (whole) "length g + length (message_bytes m) \<le> length c"
    | (head) "length c < length g + 3"
    | (partial) "length g + 3 \<le> length c" "length c < length g + length (message_bytes m)"
    by linarith
  then show thesis
  proof cases
    case whole
    then have "c = (g @ message_bytes m) @ drop (length (g @ message_bytes m)) c"
      "wire ws' = drop (length (g @ message_bytes m)) c @ rest"
      using append_eq_longer [of c rest "g @ message_bytes m" "wire ws'"] eq by simp_all
    then show thesis using Cons w pops_message [OF g len] by (metis append.assoc message)
  next
    case head
    obtain z where z: "message_bytes m = RADIO_MAGIC_PREFIX @ z" by (simp add: message_bytes_def)
    let ?k = "drop (length c - 3) c"
    have "c = take (length c) (c @ rest)" by simp
    also have "\<dots> = take (length c) (g @ RADIO_MAGIC_PREFIX)" using head by (simp add: eq z)
    finally have "pops nom c None ?k" by (rule pops_noise [OF g head])
    moreover have "?k @ rest = drop (length c - 3) (c @ rest)" by simp
    then have "?k @ rest = wire ((drop (length c - 3) g, m) # ws')" using head by (simp add: eq)
    moreover have "rest \<noteq> []"
      using arg_cong [OF eq, of length] head fits by (auto simp: message_fits_length)
    ultimately show thesis
      using Cons w g fits ok by (intro more [of ?k "(drop (length c - 3) g, m) # ws'"])
        (simp_all add: noise_drop)
  next
    case partial
    let ?x = "drop (length g) c"
    have c: "c = g @ ?x" "message_bytes m @ wire ws' = ?x @ rest"
      using append_eq_longer [of c rest g "message_bytes m @ wire ws'"] eq partial by simp_all
    then have y: "message_bytes m = ?x @ drop (length ?x) (message_bytes m)"
      using append_eq_longer(1) [of "message_bytes m" "wire ws'" ?x rest] partial by simp
    have "pops nom (g @ ?x) None ?x"
      by (rule pops_partial [OF g y _ _ len]) (use partial in auto)
    moreover have "length ?x < 0xFFFF" "rest \<noteq> []"
      using partial fits arg_cong [OF eq, of length]
      by (auto simp: message_fits_length) (simp_all add: message_fits_def)
    ultimately show thesis
      using Cons w fits ok c by (intro more [of ?x "([], m) # ws'"]) simp_all
  qed
qed

lemma pop_carried:
  assumes "carries (c @ rest) ms"
  obtains (message) m ms' kept where "ms = m # ms'" "pops nom c (Some m) kept"
      "carries (kept @ rest) ms'"
  | (more) kept where "pops nom c None kept" "length kept < 0xFFFF" "carries (kept @ rest) ms"
      "rest = [] \<Longrightarrow> ms = []"
proof -
  obtain ws where ws: "wire_ok ws" "map snd ws = ms" "c @ rest = wire ws"
    using assms by (auto simp: carries_def)
  from ws(1,3) show thesis
  proof (cases rule: pop_step)
    case (message g m ws' kept)
    with ws show thesis by (intro that(1)) (auto simp: carries_def)
  next
    case (more ws' kept)
    with ws show thesis by (intro that(2)) (auto simp: carries_def)
  qed
qed

lemma poll_next_step:
  assumes "stream_wf s" "src_clean src" "carries (content s @ src_bytes src) ms"
  obtains (message) m ms' src' s' where "ms = m # ms'"
      "RawRadioStream_poll_next nom src s = Return (Ready (Some m), src', s')"
      "stream_wf s'" "src_clean src'" "carries (content s' @ src_bytes src') ms'"
      "src_pendings src' = src_pendings src"
  | (wait) src' s' where
      "RawRadioStream_poll_next nom src s = Return (Pending, src', s')"
      "stream_wf s'" "src_clean src'" "carries (content s' @ src_bytes src') ms"
      "src_pendings src = Suc (src_pendings src') \<or> ms = [] \<and> src_pendings src' = 0"
  using assms
proof (induction "source_size src" arbitrary: src s thesis rule: less_induct)
  case less
  from less.prems(5) show ?case
  proof (cases rule: pop_carried)
    case (message m ms' kept)
    obtain s' where "RawRadioStream_poll_next nom src s = Return (Ready (Some m), src, s')"
      "stream_wf s'" "content s' = kept"
      using poll_next_popped [OF less.prems(3) message(2)] by blast
    with message less.prems(4) show thesis by (intro less.prems(1)) auto
  next
    case (more kept)
    obtain s' where s': "stream_wf s'" "content s' = kept" "buffer_filled s' = length kept"
      and step: "\<And>src. RawRadioStream_poll_next nom src s =
         (case poll_read src (0xFFFF - length kept) of
          (Pending, src) \<Rightarrow> Return (Pending, src, s')
        | (Ready (Err e), src) \<Rightarrow> Return (Ready None, src, s')
        | (Ready (Ok bs), src) \<Rightarrow> RawRadioStream_poll_next nom src
            \<lparr>stream_buffer = copy_from_slice (stream_buffer s') (buffer_filled s') bs,
             buffer_filled = buffer_filled s' + length bs\<rparr>)"
      using poll_next_kept [OF less.prems(3) more(1,2)] by blast
    have "0 < 0xFFFF - length kept" using more(2) by simp
    with less.prems(4) show thesis
    proof (cases rule: poll_read_cases)
      case none
      then show thesis using step more s' by (intro less.prems(2)) auto
    next
      case (wait src')
      then show thesis using less.prems(4) step more s' by (intro less.prems(2)) auto
    next
      case (data bs src')
      let ?s = "\<lparr>stream_buffer = copy_from_slice (stream_buffer s') (buffer_filled s') bs,
             buffer_filled = buffer_filled s' + length bs\<rparr>"
      have fill: "stream_wf ?s" "content ?s = kept @ bs"
        using fill_buffer [OF s'(1), of bs ?s] data(2) s' by simp_all
      have eq: "RawRadioStream_poll_next nom src s = RawRadioStream_poll_next nom src' ?s"
        using step data(1) by simp
      have "carries (content ?s @ src_bytes src') ms" using fill more data by simp
      then show thesis
        using less.hyps [OF data(6) _ _ fill(1) data(4)] less.prems(1,2) unfolding eq data(5) by blast
    qed
  qed
qed

text \<open>Messages are delivered, in order, by any polls enough to take them all.\<close>

lemma poll_all_delivers:
  assumes "stream_wf s" "src_clean src" "carries (content s @ src_bytes src) ms"
    "length ms + src_pendings src \<le> n"
  shows "poll_all nom n src s = Return ms"
  using assms
proof (induction n arbitrary: src s ms)
  case 0
  then show ?case by simp
next
  case (Suc n)
  from Suc.prems(1-3) show ?case
  proof (cases rule: poll_next_step)
    case (message m ms' src' s')
    then show ?thesis using Suc.IH [of s' src' ms'] Suc.prems(4) by simp
  next
    case (wait src' s')
    then show ?thesis using Suc.IH [of s' src' ms] Suc.prems(4) by auto
  qed
qed

end

section \<open>Writing to the sink\<close>

definition unsent :: "raw_radio_sink \<Rightarrow> bytes" where
  "unsent s = drop (sink_written s) (sink_buffer s)"

lemma poll_ready_sends:
  "RawRadioSink_poll_ready answers s = (r, out, rest, s') \<Longrightarrow>
    sink_written s \<le> length (sink_buffer s) \<Longrightarrow>
    out @ unsent s' = unsent s \<and> sink_written s' \<le> length (sink_buffer s') \<and>
    (r = Ready (Ok ()) \<longrightarrow> unsent s' = [])"
proof (induction answers arbitrary: s r out rest)
  case Nil
  then show ?case by (auto simp: unsent_def split: if_splits)
next
  case (Cons a answers)
  show ?case
  proof (cases "sink_written s < length (sink_buffer s) \<and> (\<exists>room. a = Ready (Ok room))")
    case True
    then obtain room where room: "a = Ready (Ok room)" by blast
    let ?n = "min room (length (unsent s))"
    let ?s = "s\<lparr>sink_written := sink_written s + ?n\<rparr>"
    obtain out' where "RawRadioSink_poll_ready answers ?s = (r, out', rest, s')"
      and out: "out = take ?n (unsent s) @ out'"
      using Cons.prems(1) True room by (auto simp: unsent_def Let_def split: prod.splits)
    from Cons.IH [OF this(1)] have "out' @ unsent s' = unsent ?s"
      "sink_written s' \<le> length (sink_buffer s')" "r = Ready (Ok ()) \<longrightarrow> unsent s' = []"
      using True by (auto simp: unsent_def)
    moreover have "take ?n (unsent s) @ unsent ?s = unsent s"
      using append_take_drop_id [of ?n "unsent s"] by (simp add: unsent_def add.commute)
    ultimately show ?thesis using out by simp
  next
    case False
    then show ?thesis
      using Cons.prems by (auto simp: unsent_def split: if_splits poll.splits sum.splits)
  qed
qed

text \<open>
  A client of the sink: the calls it makes, with the answers of the port, and what the port
  has accepted after each.
\<close>

datatype sink_call =
    Sink_poll_ready "write_answer list"
  | Sink_start_send raw_radio_message
  | Sink_poll_flush "(unit, io_error) result poll" "write_answer list"
  | Sink_poll_close "(unit, io_error) result poll" "write_answer list"

fun sink_step :: "cookie_ops \<Rightarrow> sink_call \<Rightarrow> bytes \<times> raw_radio_sink \<Rightarrow>
    (bytes \<times> raw_radio_sink) outcome" where
  "sink_step cf (Sink_poll_ready answers) (sent, s) =
     (case RawRadioSink_poll_ready answers s of (r, out, rest, s') \<Rightarrow> Return (sent @ out, s'))"
| "sink_step cf (Sink_start_send m) (sent, s) =
     bind_outcome (RawRadioSink_start_send cf m s) (\<lambda>(r, s'). Return (sent, s'))"
| "sink_step cf (Sink_poll_flush port answers) (sent, s) =
     (case RawRadioSink_poll_flush port answers s of (r, out, rest, s') \<Rightarrow> Return (sent @ out, s'))"
| "sink_step cf (Sink_poll_close port answers) (sent, s) =
     (case RawRadioSink_poll_close port answers s of (r, out, rest, s') \<Rightarrow> Return (sent @ out, s'))"

fun sink_run :: "cookie_ops \<Rightarrow> sink_call list \<Rightarrow> bytes \<times> raw_radio_sink \<Rightarrow>
    (bytes \<times> raw_radio_sink) outcome" where
  "sink_run cf [] st = Return st"
| "sink_run cf (c # cs) st = bind_outcome (sink_step cf c st) (sink_run cf cs)"

fun sink_messages :: "sink_call list \<Rightarrow> raw_radio_message list" where
  "sink_messages [] = []"
| "sink_messages (Sink_start_send m # cs) = m # sink_messages cs"
| "sink_messages (_ # cs) = sink_messages cs"

lemma poll_flush_sends:
  assumes "RawRadioSink_poll_flush port answers s = (r, out, rest, s')"
    and "sink_written s \<le> length (sink_buffer s)"
  shows "out @ unsent s' = unsent s \<and> sink_written s' \<le> length (sink_buffer s') \<and>
    (r = Ready (Ok ()) \<longrightarrow> unsent s' = [])"
proof -
  obtain q where ready: "RawRadioSink_poll_ready answers s = (q, out, rest, s')"
    and "r = Ready (Ok ()) \<Longrightarrow> q = Ready (Ok ())"
    using assms(1) unfolding RawRadioSink_poll_flush_def
    by (cases "RawRadioSink_poll_ready answers s") (auto split: poll.splits sum.splits)
  with poll_ready_sends [OF ready assms(2)] show ?thesis by blast
qed

lemma poll_close_eq_flush: "RawRadioSink_poll_close = RawRadioSink_poll_flush"
  by (intro ext) (simp add: RawRadioSink_poll_close_def RawRadioSink_poll_flush_def)

context cookie_crate
begin

lemma sink_step_sends:
  assumes "sink_written s \<le> length (sink_buffer s)"
  obtains sent' s' where "sink_step cf c (sent, s) = Return (sent', s')"
    "sink_written s' \<le> length (sink_buffer s')"
    "sent' @ unsent s' = sent @ unsent s @ concat (map message_bytes (sink_messages [c]))"
proof (cases c)
  case (Sink_poll_ready answers)
  then show thesis using assms that
    by (cases "RawRadioSink_poll_ready answers s") (auto dest: poll_ready_sends)
next
  case (Sink_start_send m)
  then show thesis using assms that
    by (simp add: RawRadioSink_start_send_def RawRadioMessage_into_bytes unsent_def)
next
  case (Sink_poll_flush port answers)
  then show thesis using assms that
    by (cases "RawRadioSink_poll_flush port answers s") (auto dest: poll_flush_sends)
next
  case (Sink_poll_close port answers)
  then show thesis using assms that
    by (cases "RawRadioSink_poll_flush port answers s")
      (auto simp: poll_close_eq_flush dest: poll_flush_sends)
qed

lemma sink_run_sends:
  assumes "sink_written s \<le> length (sink_buffer s)"
  shows "\<exists>sent' s'. sink_run cf cs (sent, s) = Return (sent', s') \<and>
    sink_written s' \<le> length (sink_buffer s') \<and>
    sent' @ unsent s' = sent @ unsent s @ concat (map message_bytes (sink_messages cs))"
  using assms
proof (induction cs arbitrary: sent s)
  case (Cons c cs)
  have "sink_messages (c # cs) = sink_messages [c] @ sink_messages cs" by (cases c) simp_all
  moreover obtain sent1 s1 where "sink_step cf c (sent, s) = Return (sent1, s1)"
    "sink_written s1 \<le> length (sink_buffer s1)"
    "sent1 @ unsent s1 = sent @ unsent s @ concat (map message_bytes (sink_messages [c]))"
    by (rule sink_step_sends [OF Cons.prems])
  ultimately show ?case using Cons.IH [of s1 sent1]
    by (metis append.assoc bind_outcome_simps(2) concat_append map_append sink_run.simps(2))
qed simp

end

lemma carries_messages:
  "list_all message_fits ms \<Longrightarrow> carries (concat (map message_bytes ms)) ms"
  unfolding carries_def
  by (rule exI [of _ "map (Pair []) ms"]) (auto simp: wire_def wire_ok_def list_all_iff o_def)

section \<open>Properties\<close>

text \<open>
  C14. However the bytes of a sequence of messages of at most 65527 data bytes each are cut into
  reads, with waits in between and, in front of any message, noise that does not contain the magic
  prefix, the reader of the serial port returns exactly these messages, in order, and neither fails
  nor panics, as long as no read fails.
\<close>

theorem RawRadioStream_delivers_all:
  assumes "nom_crate nom" "wire_ok ws" "src_clean src" "src_bytes src = wire ws"
    and "length ws + src_pendings src \<le> n"
  shows "poll_all nom n src RawRadioStream_new = Return (map snd ws)"
proof -
  have "carries (content RawRadioStream_new @ src_bytes src) (map snd ws)"
    using assms(2,4) by (auto simp: carries_def)
  then show ?thesis
    using nom_crate.poll_all_delivers [OF assms(1) stream_new(1) assms(3)] assms(5) by simp
qed

theorem RawRadioStream_delivers_all_witness:
  "poll_all nom_impl 2
     [SrcChunk [1, 0x5A, 0x5A], SrcPending, SrcChunk [0x50, 0x42, 0x80, 0, 7, 0, 2, 9, 8]]
     RawRadioStream_new =
   Return [\<lparr>rm_command_id = RawRadioCommand_Ok, rm_request_id = 7, rm_data = [9, 8]\<rparr>]"
  using RawRadioStream_delivers_all [of nom_impl
      "[([1, 0x5A], \<lparr>rm_command_id = RawRadioCommand_Ok, rm_request_id = 7, rm_data = [9, 8]\<rparr>)]"
      "[SrcChunk [1, 0x5A, 0x5A], SrcPending, SrcChunk [0x50, 0x42, 0x80, 0, 7, 0, 2, 9, 8]]" 2]
    nom_impl.nom_crate_axioms
  by (simp add: noise_def message_fits_def RADIO_MAGIC_PREFIX_def message_bytes_def
      to_be_bytes_u16)

text \<open>
  C13. From the sink to the stream, for messages of at most 65527 data bytes: whatever calls a
  client makes of the sink and however little the port accepts at a time, once nothing is left
  unsent the bytes the port accepted, read in any pieces without a failing read, give back the
  messages of the client, in order.
\<close>

theorem RawRadioSink_to_RawRadioStream:
  assumes "cookie_crate cf" "nom_crate nom"
    and "sink_run cf cs ([], RawRadioSink_new) = Return (sent, s)" "unsent s = []"
    and "list_all message_fits (sink_messages cs)"
    and "src_clean src" "src_bytes src = sent"
    and "length (sink_messages cs) + src_pendings src \<le> n"
  shows "poll_all nom n src RawRadioStream_new = Return (sink_messages cs)"
proof -
  have "sink_written RawRadioSink_new \<le> length (sink_buffer RawRadioSink_new)"
    "unsent RawRadioSink_new = []"
    by (simp_all add: RawRadioSink_new_def unsent_def)
  then have "sent = concat (map message_bytes (sink_messages cs))"
    using cookie_crate.sink_run_sends [OF assms(1), of RawRadioSink_new cs "[]"] assms(3,4) by auto
  then have "carries (content RawRadioStream_new @ src_bytes src) (sink_messages cs)"
    using carries_messages [OF assms(5)] assms(7) by simp
  then show ?thesis
    using nom_crate.poll_all_delivers [OF assms(2) stream_new(1) assms(6)] assms(8) by simp
qed

theorem RawRadioSink_to_RawRadioStream_witness:
  "sink_run cookie_impl
     [Sink_start_send \<lparr>rm_command_id = RawRadioCommand_On, rm_request_id = 3, rm_data = []\<rparr>,
      Sink_poll_flush (Ready (Ok ())) [Ready (Ok 2), Pending],
      Sink_poll_flush (Ready (Ok ())) [Ready (Ok 100)]] ([], RawRadioSink_new) =
     Return ([0x5A, 0x50, 0x42, 4, 0, 3, 0, 0], RawRadioSink_new) \<and>
   poll_all nom_impl 1 [SrcChunk [0x5A], SrcChunk [0x50, 0x42, 4, 0, 3, 0, 0]] RawRadioStream_new =
     Return [\<lparr>rm_command_id = RawRadioCommand_On, rm_request_id = 3, rm_data = []\<rparr>]"
proof -
  let ?cs = "[Sink_start_send \<lparr>rm_command_id = RawRadioCommand_On, rm_request_id = 3, rm_data = []\<rparr>,
      Sink_poll_flush (Ready (Ok ())) [Ready (Ok 2), Pending],
      Sink_poll_flush (Ready (Ok ())) [Ready (Ok 100)]]"
  have run: "sink_run cookie_impl ?cs ([], RawRadioSink_new) =
     Return ([0x5A, 0x50, 0x42, 4, 0, 3, 0, 0], RawRadioSink_new)"
    by (simp add: RawRadioSink_new_def RawRadioSink_start_send_def RawRadioSink_poll_flush_def
        cookie_impl.RawRadioMessage_into_bytes message_bytes_def RADIO_MAGIC_PREFIX_def
        to_be_bytes_u16 Let_def)
  then show ?thesis
    using RawRadioSink_to_RawRadioStream [OF cookie_impl.cookie_crate_axioms nom_impl.nom_crate_axioms run,
        of "[SrcChunk [0x5A], SrcChunk [0x50, 0x42, 4, 0, 3, 0, 0]]" 1]
    by (simp add: RawRadioSink_new_def unsent_def message_fits_def)
qed

text \<open>
  The sink loses and invents nothing: after any calls, the bytes the port accepted
  followed by those still in the buffer are the encodings of the messages given to
  \<open>start_send\<close>, in order; no call panics.
\<close>

theorem RawRadioSink_conserves:
  assumes "cookie_crate cf"
  shows "\<exists>sent s. sink_run cf cs ([], RawRadioSink_new) = Return (sent, s) \<and>
    sent @ drop (sink_written s) (sink_buffer s) = concat (map message_bytes (sink_messages cs))"
  using cookie_crate.sink_run_sends [OF assms, of RawRadioSink_new cs "[]"]
  by (auto simp: RawRadioSink_new_def unsent_def)

text \<open>
  A message of more than 65527 data bytes, which the encoder writes, never fits the
  reader's buffer: the stream ends (which makes \<^verbatim>\<open>radio_response_task\<close> panic) instead of
  delivering it.
\<close>

theorem RawRadioStream_oversized_ends:
  assumes "nom_crate nom" "0xFFFF - 8 < length (rm_data m)" "length (rm_data m) \<le> 0xFFFF"
  shows "poll_all nom 1 [SrcChunk (message_bytes m)] RawRadioStream_new = Panic"
proof -
  let ?x = "take 0xFFFF (message_bytes m)"
  let ?s1 = "\<lparr>stream_buffer = ?x, buffer_filled = 0xFFFF\<rparr>"
  have len: "length (message_bytes m) > 0xFFFF"
    using assms(2,3) by (simp add: length_message_bytes)
  have "pops nom (content RawRadioStream_new) None []"
    using pops_noise [of "[]" 0 "[]"] by simp
  then obtain s' where s': "stream_wf s'" "content s' = []" "buffer_filled s' = 0"
    "\<And>src. RawRadioStream_poll_next nom src RawRadioStream_new =
       (case poll_read src 0xFFFF of
          (Pending, src) \<Rightarrow> Return (Pending, src, s')
        | (Ready (Err e), src) \<Rightarrow> Return (Ready None, src, s')
        | (Ready (Ok bs), src) \<Rightarrow> RawRadioStream_poll_next nom src
            \<lparr>stream_buffer = copy_from_slice (stream_buffer s') (buffer_filled s') bs,
             buffer_filled = buffer_filled s' + length bs\<rparr>)"
    using poll_next_kept [OF stream_new(1), of nom "[]"] by auto
  then have first: "RawRadioStream_poll_next nom [SrcChunk (message_bytes m)] RawRadioStream_new =
      RawRadioStream_poll_next nom [SrcChunk (drop 0xFFFF (message_bytes m))] ?s1"
    using len by (simp add: copy_from_slice_def stream_wf_def)
  have "pops nom ([] @ ?x) None ?x"
    by (rule nom_crate.pops_partial [OF assms(1), of "[]" m _ "drop 0xFFFF (message_bytes m)"])
      (use len assms in \<open>simp_all\<close>)
  then obtain p where "pop_raw_message nom ?x = Return (0xFFFF, None, p)" "length p = 0xFFFF"
    using len by (auto simp: pops_def)
  then have "RawRadioStream_poll_next nom src ?s1 =
      Return (Ready None, src, \<lparr>stream_buffer = p, buffer_filled = 0xFFFF\<rparr>)" for src
    using len by (subst RawRadioStream_poll_next.simps) simp
  then show ?thesis unfolding One_nat_def poll_all.simps first by simp
qed

text \<open>
  The command byte of a message that is not one of the known commands panics the reader
  (\<^verbatim>\<open>try_from(command_id).unwrap()\<close>), and no number of zero-byte reads, the end of the file,
  ends the stream.
\<close>

lemma RawRadioStream_unknown_command_panics:
  assumes "nom_crate nom" "RawRadioCommand_try_from_tag c = Err InvalidTag"
  shows "pop_raw_message nom (RADIO_MAGIC_PREFIX @ c # to_be_bytes (r :: u16) @
    to_be_bytes (l :: u16) @ body) = Panic"
  using find_after_noise [of "[]" "c # to_be_bytes r @ to_be_bytes l @ body"]
    nom_crate.parse_full [OF assms(1), of c r l body] assms(2)
  by (simp add: pop_raw_message_def rotate_left_def)

lemma RawRadioStream_ignores_end_of_file:
  "RawRadioStream_poll_next nom (replicate k (SrcChunk []) @ src) RawRadioStream_new =
   RawRadioStream_poll_next nom src RawRadioStream_new"
proof (induction k)
  case (Suc k)
  have "RawRadioStream_poll_next nom (SrcChunk [] # src') RawRadioStream_new =
      RawRadioStream_poll_next nom src' RawRadioStream_new" for src'
    by (subst RawRadioStream_poll_next.simps)
      (simp add: pop_raw_message_def RawRadioStream_new_def copy_from_slice_def)
  with Suc show ?case by simp
qed simp

end
