(* ===== verification/Radio.thy ===== *)
theory Radio
  imports Raw_Radio Runtime
begin

text \<open>
  The radio service (\<^verbatim>\<open>src/radio/mod.rs\<close>): parameter values and their conversions,
  requests and responses, the translation of a request into a raw message together with
  the parser of its answer, and the two tasks that share the map from request ids to
  parsers.  A parser, a boxed closure in the code, is the function it computes.  The two
  tasks take turns at the lock of the map, so a run of the service is a sequence of
  requests and received messages in any order; the random numbers drawn for request ids
  are an argument.
\<close>

section \<open>Parameters\<close>

type_synonym radio_param = raw_radio_param

datatype radio_param_type = RadioParamType_U16 | RadioParamType_U32 | RadioParamType_U64

datatype radio_param_value =
    RadioParamValue_U16 u16
  | RadioParamValue_U32 u32
  | RadioParamValue_U64 u64

datatype radio_error =
    RawError bytes
  | UnexpectedRetvalError u16 bytes
  | UnexpectedResponse
  | UnexpectedResponseSize

text \<open>\<^verbatim>\<open>data.try_into()\<close> from a slice to an array: only when the lengths agree.\<close>

fun RadioParamValue_try_from ::
    "radio_param_type \<times> bytes \<Rightarrow> (radio_param_value, radio_error) result" where
  "RadioParamValue_try_from (RadioParamType_U16, data) =
     (if length data = 2 then Ok (RadioParamValue_U16 (from_be_bytes data))
      else Err UnexpectedResponseSize)"
| "RadioParamValue_try_from (RadioParamType_U32, data) =
     (if length data = 4 then Ok (RadioParamValue_U32 (from_be_bytes data))
      else Err UnexpectedResponseSize)"
| "RadioParamValue_try_from (RadioParamType_U64, data) =
     (if length data = 8 then Ok (RadioParamValue_U64 (from_be_bytes data))
      else Err UnexpectedResponseSize)"

fun RadioParamValue_try_into_u16 :: "radio_param_value \<Rightarrow> (u16, radio_error) result" where
  "RadioParamValue_try_into_u16 (RadioParamValue_U16 x) = Ok x"
| "RadioParamValue_try_into_u16 _ = Err UnexpectedResponseSize"

fun RadioParamValue_try_into_u32 :: "radio_param_value \<Rightarrow> (u32, radio_error) result" where
  "RadioParamValue_try_into_u32 (RadioParamValue_U32 x) = Ok x"
| "RadioParamValue_try_into_u32 _ = Err UnexpectedResponseSize"

fun RadioParamValue_try_into_u64 :: "radio_param_value \<Rightarrow> (u64, radio_error) result" where
  "RadioParamValue_try_into_u64 (RadioParamValue_U64 x) = Ok x"
| "RadioParamValue_try_into_u64 _ = Err UnexpectedResponseSize"

definition RadioParamValue_from_u16 :: "u16 \<Rightarrow> radio_param_value" where
  "RadioParamValue_from_u16 v = RadioParamValue_U16 v"

definition RadioParamValue_from_u32 :: "u32 \<Rightarrow> radio_param_value" where
  "RadioParamValue_from_u32 v = RadioParamValue_U32 v"

definition RadioParamValue_from_u64 :: "u64 \<Rightarrow> radio_param_value" where
  "RadioParamValue_from_u64 v = RadioParamValue_U64 v"

record radio_rx_mode =
  address_filter :: bool
  autoack :: bool
  poll_mode :: bool

definition RadioParamValue_from_RadioRxMode :: "radio_rx_mode \<Rightarrow> radio_param_value" where
  "RadioParamValue_from_RadioRxMode v =
     RadioParamValue_from_u16
       (bool_to_word (address_filter v) OR
        push_bit 1 (bool_to_word (autoack v)) OR
        push_bit 2 (bool_to_word (poll_mode v)))"

definition RadioParamValue_try_into_RadioRxMode ::
    "radio_param_value \<Rightarrow> (radio_rx_mode, radio_error) result" where
  "RadioParamValue_try_into_RadioRxMode self =
     and_then (RadioParamValue_try_into_u16 self) (\<lambda>v.
       if push_bit 3 v \<noteq> 0 then Err UnexpectedResponse
       else Ok \<lparr>address_filter = (v AND 1 \<noteq> 0),
                autoack = (drop_bit 1 v AND 1 \<noteq> 0),
                poll_mode = (drop_bit 2 v AND 1 \<noteq> 0)\<rparr>)"

section \<open>Requests and responses\<close>

datatype radio_request =
    RadioRequest_SetParam unique_key raw_radio_param radio_param_value
  | RadioRequest_GetParam unique_key raw_radio_param radio_param_type
  | RadioRequest_InitPendingDataTable unique_key
  | RadioRequest_SetPower unique_key bool
  | RadioRequest_SendPacket unique_key bytes
  | RadioRequest_SetPendingShort unique_key usize "(u16 \<times> u16) option"
  | RadioRequest_SetPendingExtended unique_key usize "u64 option"

record radio_packet =
  packet_data :: bytes
  rssi :: u8
  link_quality :: u8

datatype radio_response =
    RadioResponse_SetParam unique_key radio_param "(radio_param_value, radio_error) result"
  | RadioResponse_GetParam unique_key radio_param "(radio_param_value, radio_error) result"
  | RadioResponse_InitPendingDataTable unique_key "(unit, radio_error) result"
  | RadioResponse_SetPower unique_key bool "(unit, radio_error) result"
  | RadioResponse_SendPacket unique_key "(unit, radio_error) result"
  | RadioResponse_OnPacket radio_packet
  | RadioResponse_SetPendingShort unique_key "(unit, radio_error) result"
  | RadioResponse_SetPendingExtended unique_key "(unit, radio_error) result"

type_synonym radio_response_parser = "(bytes, radio_error) result \<Rightarrow> radio_response"

definition check_retval :: "u16 \<Rightarrow> bytes \<Rightarrow> (bytes, radio_error) result" where
  "check_retval expected_retval data =
     (if length data < size_of TYPE(u16) then Err UnexpectedResponseSize
      else let retval = from_be_bytes (take (size_of TYPE(u16)) data) in
        if retval \<noteq> expected_retval
        then Err (UnexpectedRetvalError retval (drop (size_of TYPE(u16)) data))
        else Ok (drop (size_of TYPE(u16)) data))"

definition unpack_result_get_param :: "radio_param_type \<Rightarrow> (bytes, radio_error) result \<Rightarrow>
    (radio_param_value, radio_error) result" where
  "unpack_result_get_param param_type response =
     and_then response (\<lambda>data.
     and_then (check_retval 0 data) (\<lambda>data.
     RadioParamValue_try_from (param_type, data)))"

definition unpack_result_set_param :: "radio_param_value \<Rightarrow> (bytes, radio_error) result \<Rightarrow>
    (radio_param_value, radio_error) result" where
  "unpack_result_set_param set_value response =
     and_then response (\<lambda>data.
     and_then (check_retval 0 data) (\<lambda>data.
     if data \<noteq> [] then Err UnexpectedResponse else Ok set_value))"

definition unpack_result_only_retval ::
    "u16 \<Rightarrow> (bytes, radio_error) result \<Rightarrow> (unit, radio_error) result" where
  "unpack_result_only_retval expected_retval response =
     and_then response (\<lambda>data.
     and_then (check_retval expected_retval data) (\<lambda>data.
     if data \<noteq> [] then Err UnexpectedResponse else Ok ()))"

fun param_value_bytes :: "radio_param_value \<Rightarrow> bytes" where
  "param_value_bytes (RadioParamValue_U16 v) = to_be_bytes v"
| "param_value_bytes (RadioParamValue_U32 v) = to_be_bytes v"
| "param_value_bytes (RadioParamValue_U64 v) = to_be_bytes v"

fun param_type_bytes :: "radio_param_type \<Rightarrow> bytes" where
  "param_type_bytes RadioParamType_U16 = []"
| "param_type_bytes RadioParamType_U32 = to_be_bytes (4 :: u16)"
| "param_type_bytes RadioParamType_U64 = to_be_bytes (8 :: u16)"

fun RadioRequest_into_raw ::
    "radio_request \<Rightarrow> raw_radio_command \<times> bytes \<times> radio_response_parser" where
  "RadioRequest_into_raw (RadioRequest_SetParam token param param_value) =
     ((case param_value of
         RadioParamValue_U16 _ \<Rightarrow> RawRadioCommand_SetValue
       | _ \<Rightarrow> RawRadioCommand_SetObject),
      to_be_bytes (RawRadioParam_as_u16 param) @ param_value_bytes param_value,
      (\<lambda>response. RadioResponse_SetParam token param
         (unpack_result_set_param param_value response)))"
| "RadioRequest_into_raw (RadioRequest_GetParam token param param_type) =
     ((case param_type of
         RadioParamType_U16 \<Rightarrow> RawRadioCommand_GetValue
       | _ \<Rightarrow> RawRadioCommand_GetObject),
      to_be_bytes (RawRadioParam_as_u16 param) @ param_type_bytes param_type,
      (\<lambda>response. RadioResponse_GetParam token param
         (unpack_result_get_param param_type response)))"
| "RadioRequest_into_raw (RadioRequest_InitPendingDataTable token) =
     (RawRadioCommand_InitPendingTable, [],
      (\<lambda>response. RadioResponse_InitPendingDataTable token
         (unpack_result_only_retval 0 response)))"
| "RadioRequest_into_raw (RadioRequest_SetPower token on) =
     ((if on then RawRadioCommand_On else RawRadioCommand_Off), [],
      (\<lambda>response. RadioResponse_SetPower token on (unpack_result_only_retval 1 response)))"
| "RadioRequest_into_raw (RadioRequest_SendPacket token packet) =
     (RawRadioCommand_Send, packet,
      (\<lambda>response. RadioResponse_SendPacket token (unpack_result_only_retval 0 response)))"
| "RadioRequest_into_raw (RadioRequest_SetPendingShort token index addr) =
     (RawRadioCommand_SetPending,
      [of_nat index AND 0x7F] @
      (case addr of
         Some (pan_id, short_address) \<Rightarrow> to_le_bytes pan_id @ to_le_bytes short_address
       | None \<Rightarrow> []),
      (\<lambda>response. RadioResponse_SetPendingShort token (unpack_result_only_retval 0 response)))"
| "RadioRequest_into_raw (RadioRequest_SetPendingExtended token index addr) =
     (RawRadioCommand_SetPending,
      [of_nat index OR 0x80] @ (case addr of Some address \<Rightarrow> to_le_bytes address | None \<Rightarrow> []),
      (\<lambda>response. RadioResponse_SetPendingExtended token (unpack_result_only_retval 0 response)))"

section \<open>The tasks\<close>

type_synonym response_map = "(u16, radio_response_parser) hash_map"

text \<open>
  The loop that draws ids until one is free; \<open>None\<close> when the numbers given are used up
  before that.
\<close>

fun pick_request_id :: "u16 list \<Rightarrow> response_map \<Rightarrow> u16 option" where
  "pick_request_id [] responsemap = None"
| "pick_request_id (potential_id # rands) responsemap =
     (if map_of responsemap potential_id = None then Some potential_id
      else pick_request_id rands responsemap)"

text \<open>One turn of \<^verbatim>\<open>radio_request_task\<close>: the message handed to the sink and the new map.\<close>

definition radio_request_task_step :: "u16 list \<Rightarrow> radio_request \<Rightarrow> response_map \<Rightarrow>
    (raw_radio_message \<times> response_map) option" where
  "radio_request_task_step rands request responsemap =
     (case RadioRequest_into_raw request of
        (command_id, data, response_parser) \<Rightarrow>
          (case pick_request_id rands responsemap of
             None \<Rightarrow> None
           | Some request_id \<Rightarrow>
               Some (\<lparr>rm_command_id = command_id, rm_request_id = request_id, rm_data = data\<rparr>,
                 AList.update request_id response_parser responsemap)))"

text \<open>
  One turn of \<^verbatim>\<open>radio_response_task\<close> on a message from the port: the responses sent on and
  the new map.  \<open>butlast\<close> and \<open>last\<close> are \<^verbatim>\<open>Vec::pop\<close>.
\<close>

definition radio_response_task_step :: "raw_radio_message \<Rightarrow> response_map \<Rightarrow>
    radio_response list \<times> response_map" where
  "radio_response_task_step msg responsemap =
     (case rm_command_id msg of
        RawRadioCommand_Ok \<Rightarrow>
          (case map_of responsemap (rm_request_id msg) of
             Some parser \<Rightarrow> ([parser (Ok (rm_data msg))],
               AList.delete (rm_request_id msg) responsemap)
           | None \<Rightarrow> ([], responsemap))
      | RawRadioCommand_Err \<Rightarrow>
          (case map_of responsemap (rm_request_id msg) of
             Some parser \<Rightarrow> ([parser (Err (RawError (rm_data msg)))],
               AList.delete (rm_request_id msg) responsemap)
           | None \<Rightarrow> ([], responsemap))
      | RawRadioCommand_OnPacket \<Rightarrow>
          (if length (rm_data msg) < 2 then ([], responsemap)
           else ([RadioResponse_OnPacket
                   \<lparr>packet_data = butlast (butlast (rm_data msg)),
                    rssi = last (butlast (rm_data msg)),
                    link_quality = last (rm_data msg)\<rparr>], responsemap))
      | _ \<Rightarrow> ([], responsemap))"

text \<open>
  \<^verbatim>\<open>radio_service\<close>: the two tasks on the shared map, which starts empty.  An event is a
  request taken from the channel, with the numbers drawn for its id, or a message from the
  port.  The result is the messages sent, the responses and the map; \<open>None\<close> when an id loop
  does not end with the numbers given.
\<close>

datatype radio_event = Radio_Request "u16 list" radio_request | Radio_Message raw_radio_message

fun radio_service_run :: "radio_event list \<Rightarrow> response_map \<Rightarrow>
    (raw_radio_message list \<times> radio_response list \<times> response_map) option" where
  "radio_service_run [] responsemap = Some ([], [], responsemap)"
| "radio_service_run (Radio_Request rands request # events) responsemap =
     (case radio_request_task_step rands request responsemap of
        None \<Rightarrow> None
      | Some (msg, responsemap) \<Rightarrow>
          map_option (\<lambda>(sent, responses, m). (msg # sent, responses, m))
            (radio_service_run events responsemap))"
| "radio_service_run (Radio_Message msg # events) responsemap =
     (case radio_response_task_step msg responsemap of
        (out, responsemap) \<Rightarrow>
          map_option (\<lambda>(sent, responses, m). (sent, out @ responses, m))
            (radio_service_run events responsemap))"

definition radio_service :: "radio_event list \<Rightarrow>
    (raw_radio_message list \<times> radio_response list \<times> response_map) option" where
  "radio_service events = radio_service_run events []"

section \<open>Decoding answers\<close>

fun param_value_type :: "radio_param_value \<Rightarrow> radio_param_type" where
  "param_value_type (RadioParamValue_U16 _) = RadioParamType_U16"
| "param_value_type (RadioParamValue_U32 _) = RadioParamType_U32"
| "param_value_type (RadioParamValue_U64 _) = RadioParamType_U64"

lemma check_retval_Ok_iff: "check_retval e data = Ok rest \<longleftrightarrow> data = to_be_bytes e @ rest"
proof (cases "length data < 2")
  case True
  then show ?thesis by (auto simp: check_retval_def)
next
  case False
  have "data = to_be_bytes e @ rest \<longleftrightarrow> take 2 data = to_be_bytes e \<and> drop 2 data = rest"
    by auto (metis append_take_drop_id)
  also have "\<dots> \<longleftrightarrow> from_be_bytes (take 2 data) = e \<and> drop 2 data = rest"
    using False by (subst be_bytes_eq_iff) auto
  finally show ?thesis using False by (auto simp: check_retval_def Let_def)
qed

lemma RadioParamValue_try_from_Ok_iff:
  "RadioParamValue_try_from (t, data) = Ok v \<longleftrightarrow> param_value_type v = t \<and> data = param_value_bytes v"
  by (cases t; cases v) (auto simp: be_bytes_eq_iff)

lemma get_param_Ok_iff:
  "unpack_result_get_param t r = Ok v \<longleftrightarrow>
    param_value_type v = t \<and> r = Ok (to_be_bytes (0 :: u16) @ param_value_bytes v)"
  by (cases r)
    (auto simp: unpack_result_get_param_def and_then_eq_Ok_iff check_retval_Ok_iff
      RadioParamValue_try_from_Ok_iff)

lemma set_param_Ok_iff:
  "unpack_result_set_param v r = Ok v' \<longleftrightarrow> v' = v \<and> r = Ok (to_be_bytes (0 :: u16))"
  by (cases r)
    (auto simp: unpack_result_set_param_def and_then_eq_Ok_iff check_retval_Ok_iff split: if_splits)

lemma only_retval_Ok_iff:
  "unpack_result_only_retval e r = Ok u \<longleftrightarrow> r = Ok (to_be_bytes e)"
  by (cases r)
    (auto simp: unpack_result_only_retval_def and_then_eq_Ok_iff check_retval_Ok_iff split: if_splits)

section \<open>Requests and their answers\<close>

fun RadioRequest_key :: "radio_request \<Rightarrow> unique_key" where
  "RadioRequest_key (RadioRequest_SetParam k _ _) = k"
| "RadioRequest_key (RadioRequest_GetParam k _ _) = k"
| "RadioRequest_key (RadioRequest_InitPendingDataTable k) = k"
| "RadioRequest_key (RadioRequest_SetPower k _) = k"
| "RadioRequest_key (RadioRequest_SendPacket k _) = k"
| "RadioRequest_key (RadioRequest_SetPendingShort k _ _) = k"
| "RadioRequest_key (RadioRequest_SetPendingExtended k _ _) = k"

fun RadioResponse_key :: "radio_response \<Rightarrow> unique_key option" where
  "RadioResponse_key (RadioResponse_SetParam k _ _) = Some k"
| "RadioResponse_key (RadioResponse_GetParam k _ _) = Some k"
| "RadioResponse_key (RadioResponse_InitPendingDataTable k _) = Some k"
| "RadioResponse_key (RadioResponse_SetPower k _ _) = Some k"
| "RadioResponse_key (RadioResponse_SendPacket k _) = Some k"
| "RadioResponse_key (RadioResponse_OnPacket _) = None"
| "RadioResponse_key (RadioResponse_SetPendingShort k _) = Some k"
| "RadioResponse_key (RadioResponse_SetPendingExtended k _) = Some k"

definition request_parser :: "radio_request \<Rightarrow> radio_response_parser" where
  "request_parser r = snd (snd (RadioRequest_into_raw r))"

definition parser_key :: "radio_response_parser \<Rightarrow> unique_key option" where
  "parser_key p = RadioResponse_key (p (Err UnexpectedResponse))"

lemma request_parser_key [simp]: "RadioResponse_key (request_parser r a) = Some (RadioRequest_key r)"
  by (cases r) (simp_all add: request_parser_def)

lemma parser_key_request [simp]: "parser_key (request_parser r) = Some (RadioRequest_key r)"
  by (simp add: parser_key_def)

definition response_map_ok :: "response_map \<Rightarrow> bool" where
  "response_map_ok m \<longleftrightarrow> hm_wf m \<and> snd ` set m \<subseteq> range request_parser"

fun requests_of :: "radio_event list \<Rightarrow> radio_request list" where
  "requests_of [] = []"
| "requests_of (Radio_Request _ r # evs) = r # requests_of evs"
| "requests_of (Radio_Message _ # evs) = requests_of evs"

definition answered_keys :: "radio_response list \<Rightarrow> unique_key option multiset" where
  "answered_keys rs = filter_mset (\<lambda>k. k \<noteq> None) (image_mset RadioResponse_key (mset rs))"

definition waiting_keys :: "response_map \<Rightarrow> unique_key option multiset" where
  "waiting_keys m = image_mset (\<lambda>(_, p). parser_key p) (mset m)"

lemma answered_keys_simps [simp]:
  "answered_keys [] = {#}" "answered_keys (rs @ rs') = answered_keys rs + answered_keys rs'"
  "answered_keys [r] = (if RadioResponse_key r = None then {#} else {#RadioResponse_key r#})"
  by (simp_all add: answered_keys_def)

lemma answered_keys_none: "\<forall>r \<in> set rs. RadioResponse_key r = None \<Longrightarrow> answered_keys rs = {#}"
  by (induction rs) (simp_all add: answered_keys_def)

lemma pick_request_id_iff:
  "(\<exists>i. pick_request_id rands m = Some i) \<longleftrightarrow> (\<exists>i \<in> set rands. map_of m i = None)"
  by (induction rands) auto

lemma pick_request_id_free: "pick_request_id rands m = Some i \<Longrightarrow> map_of m i = None"
  by (induction rands) (auto split: if_splits)

lemma request_step:
  assumes "radio_request_task_step rands r m = Some (msg, m')"
  shows "map_of m (rm_request_id msg) = None"
    and "m' = m @ [(rm_request_id msg, request_parser r)]"
    and "(rm_command_id msg, rm_data msg) = (fst (RadioRequest_into_raw r), fst (snd (RadioRequest_into_raw r)))"
  using assms
  by (auto simp: radio_request_task_step_def request_parser_def update_fresh pick_request_id_free
      split: prod.splits option.splits)

lemma response_step_cases:
  obtains (answer) p a where "map_of m (rm_request_id msg) = Some p"
      "radio_response_task_step msg m = ([p a], AList.delete (rm_request_id msg) m)"
      "rm_command_id msg = RawRadioCommand_Ok \<and> a = Ok (rm_data msg) \<or>
       rm_command_id msg = RawRadioCommand_Err \<and> a = Err (RawError (rm_data msg))"
  | (other) rs where "radio_response_task_step msg m = (rs, m)" "\<forall>r \<in> set rs. RadioResponse_key r = None"
  by (cases "rm_command_id msg"; cases "map_of m (rm_request_id msg)";
      cases "length (rm_data msg) < 2")
    (auto simp: radio_response_task_step_def)

lemma response_map_ok_request:
  assumes "response_map_ok m" "radio_request_task_step rands r m = Some (msg, m')"
  shows "response_map_ok m'" "waiting_keys m' = add_mset (Some (RadioRequest_key r)) (waiting_keys m)"
  using assms request_step [OF assms(2)]
  by (auto simp: response_map_ok_def hm_wf_def waiting_keys_def map_filter_def map_of_eq_None_iff)

lemma response_map_ok_response:
  assumes "response_map_ok m" "radio_response_task_step msg m = (rs, m')"
  shows "response_map_ok m'" "waiting_keys m = answered_keys rs + waiting_keys m'"
proof -
  have "response_map_ok m' \<and> waiting_keys m = answered_keys rs + waiting_keys m'"
  proof (cases rule: response_step_cases [of m msg])
    case (answer p a)
    have "hm_wf m" using assms(1) by (simp add: response_map_ok_def)
    then have m: "mset m = add_mset (rm_request_id msg, p) (mset m')"
      using mset_delete answer(1,2) assms(2) by fastforce
    from answer(1) assms(1) obtain r where "p = request_parser r"
      by (force simp: response_map_ok_def dest: map_of_SomeD)
    moreover have "set m' \<subseteq> set m" using m by (metis set_mset_mset set_mset_add_mset_insert subset_insertI)
    ultimately show ?thesis
      using answer(2) assms m by (auto simp: response_map_ok_def waiting_keys_def)
  next
    case (other rs')
    then have "answered_keys rs = {#}" using assms(2) answered_keys_none by simp
    with other assms show ?thesis by simp
  qed
  then show "response_map_ok m'" "waiting_keys m = answered_keys rs + waiting_keys m'" by simp_all
qed

lemma radio_service_run_invariant:
  assumes "radio_service_run evs m = Some (sent, responses, m')" "response_map_ok m"
  shows "response_map_ok m' \<and>
    waiting_keys m + image_mset (Some \<circ> RadioRequest_key) (mset (requests_of evs)) =
      answered_keys responses + waiting_keys m'"
  using assms
proof (induction evs arbitrary: m sent responses)
  case (Cons ev evs)
  show ?case
  proof (cases ev)
    case (Radio_Request rands r)
    with Cons.prems(1) obtain msg m1 sent1
      where step: "radio_request_task_step rands r m = Some (msg, m1)"
      and run: "radio_service_run evs m1 = Some (sent1, responses, m')"
      by (auto split: option.splits)
    from response_map_ok_request [OF Cons.prems(2) step] Cons.IH [OF run] Radio_Request
    show ?thesis by simp
  next
    case (Radio_Message msg)
    with Cons.prems(1) obtain out m1 sent1 rs1
      where step: "radio_response_task_step msg m = (out, m1)"
      and run: "radio_service_run evs m1 = Some (sent1, rs1, m')" and "responses = out @ rs1"
      by (auto split: prod.splits)
    with response_map_ok_response [OF Cons.prems(2) step] Cons.IH [OF run] Radio_Message
    show ?thesis by simp
  qed
qed simp

text \<open>Messages that answer the request with id \<open>i\<close>.\<close>

definition answers :: "u16 \<Rightarrow> radio_event \<Rightarrow> bool" where
  "answers i ev = (case ev of
     Radio_Message msg \<Rightarrow> rm_request_id msg = i \<and>
       rm_command_id msg \<in> {RawRadioCommand_Ok, RawRadioCommand_Err}
   | Radio_Request _ _ \<Rightarrow> False)"

lemma radio_service_run_keeps:
  assumes "radio_service_run evs m = Some (sent, responses, m')" "map_of m i = Some p"
    "\<not> list_ex (answers i) evs"
  shows "map_of m' i = Some p"
  using assms
proof (induction evs arbitrary: m sent responses)
  case (Cons ev evs)
  show ?case
  proof (cases ev)
    case (Radio_Request rands r)
    with Cons.prems(1) obtain msg m1 sent1
      where step: "radio_request_task_step rands r m = Some (msg, m1)"
      and run: "radio_service_run evs m1 = Some (sent1, responses, m')"
      by (auto split: option.splits)
    have "map_of m1 i = Some p" using request_step(2) [OF step] Cons.prems(2) by simp
    with Cons.IH [OF run] Cons.prems(3) show ?thesis by simp
  next
    case (Radio_Message msg)
    with Cons.prems(1) obtain out m1 sent1 rs1
      where step: "radio_response_task_step msg m = (out, m1)"
      and run: "radio_service_run evs m1 = Some (sent1, rs1, m')"
      by (auto split: prod.splits)
    have "map_of m1 i = Some p"
    proof (cases rule: response_step_cases [of m msg])
      case (answer q a)
      then have "rm_request_id msg \<noteq> i"
        using Cons.prems(3) Radio_Message by (auto simp: answers_def)
      with answer step Cons.prems(2) show ?thesis by (auto simp: delete_conv)
    next
      case (other rs)
      with step Cons.prems(2) show ?thesis by simp
    qed
    with Cons.IH [OF run] Cons.prems(3) show ?thesis by simp
  qed
qed simp


section \<open>Properties\<close>

text \<open>
  C16. Every request is answered at most once and no answer is lost or invented: in every run
  of the service, whatever the radio sends and in whatever order, the keys of the requests
  are the keys of the responses together with those still waiting in the map, each with its
  multiplicity, and no two waiting requests share an id.
\<close>

theorem radio_requests_answered_once:
  assumes "radio_service evs = Some (sent, responses, m)"
  shows "distinct (map fst m) \<and>
    mset (map (Some \<circ> RadioRequest_key) (requests_of evs)) =
      mset (filter (\<lambda>k. k \<noteq> None) (map RadioResponse_key responses)) +
      mset (map (parser_key \<circ> snd) m)"
  using radio_service_run_invariant [of evs "[]"] assms
  by (simp add: radio_service_def response_map_ok_def waiting_keys_def answered_keys_def hm_wf_def
      case_prod_unfold o_def)

theorem radio_requests_answered_once_witness:
  "\<exists>sent responses m. radio_service
     [Radio_Request [5] (RadioRequest_SetPower (UniqueKey 1) True),
      Radio_Request [5, 6] (RadioRequest_InitPendingDataTable (UniqueKey 2)),
      Radio_Message \<lparr>rm_command_id = RawRadioCommand_Ok, rm_request_id = 5, rm_data = [0, 1]\<rparr>] =
     Some (sent, responses, m) \<and> responses = [RadioResponse_SetPower (UniqueKey 1) True (Ok ())] \<and>
     {#Some (UniqueKey 1), Some (UniqueKey 2)#} =
       mset (filter (\<lambda>k. k \<noteq> None) (map RadioResponse_key responses)) +
       mset (map (parser_key \<circ> snd) m)"
proof -
  let ?evs = "[Radio_Request [5] (RadioRequest_SetPower (UniqueKey 1) True),
      Radio_Request [5, 6] (RadioRequest_InitPendingDataTable (UniqueKey 2)),
      Radio_Message \<lparr>rm_command_id = RawRadioCommand_Ok, rm_request_id = 5, rm_data = [0, 1]\<rparr>]"
  obtain sent m where run: "radio_service ?evs =
      Some (sent, [RadioResponse_SetPower (UniqueKey 1) True (Ok ())], m)"
    by (simp add: radio_service_def radio_request_task_step_def radio_response_task_step_def
        unpack_result_only_retval_def check_retval_def from_be_bytes_def)
  from radio_requests_answered_once [OF this] run show ?thesis by auto
qed

text \<open>
  The answer reaches the request it belongs to: after a request was sent under an id, and
  whatever else happens as long as no other message answers this id, an \<^verbatim>\<open>Ok\<close> message with
  this id gives the response of this request for the data of the message.
\<close>

theorem radio_answer_reaches_request:
  assumes "radio_request_task_step rands r m = Some (msg, m1)"
    and "radio_service_run evs m1 = Some (sent, responses, m2)"
    and "\<not> list_ex (answers (rm_request_id msg)) evs"
    and "rm_command_id reply = RawRadioCommand_Ok" "rm_request_id reply = rm_request_id msg"
  shows "fst (radio_response_task_step reply m2) = [snd (snd (RadioRequest_into_raw r)) (Ok (rm_data reply))]"
proof -
  have "map_of m1 (rm_request_id msg) = Some (request_parser r)"
    using request_step(1,2) [OF assms(1)] by (simp add: map_add_def)
  from radio_service_run_keeps [OF assms(2) this assms(3)] show ?thesis
    using assms(4,5) by (simp add: radio_response_task_step_def request_parser_def)
qed

text \<open>
  Answers are decoded exactly: a parameter read succeeds only on a zero return value
  followed by the big-endian value of the type asked for, with that value; a parameter write
  and the other requests only on the bare expected return value.  Anything else is an error.
\<close>

theorem radio_answers_decoded:
  "(unpack_result_get_param t response = Ok v \<longleftrightarrow>
      param_value_type v = t \<and> response = Ok (to_be_bytes (0 :: u16) @ param_value_bytes v)) \<and>
   (unpack_result_set_param set_value response = Ok v \<longleftrightarrow>
      v = set_value \<and> response = Ok (to_be_bytes (0 :: u16))) \<and>
   (unpack_result_only_retval expected response = Ok () \<longleftrightarrow> response = Ok (to_be_bytes expected))"
  by (simp add: get_param_Ok_iff set_param_Ok_iff only_retval_Ok_iff)

text \<open>
  The search for a request id ends with a free id exactly when one of the numbers drawn
  is free; with all 65536 ids taken no sequence of draws ends it.
\<close>

theorem radio_request_id_found_iff:
  "(case radio_request_task_step rands r m of
      None \<Rightarrow> set rands \<subseteq> fst ` set m
    | Some (msg, m') \<Rightarrow> rm_request_id msg \<in> set rands - fst ` set m \<and>
        fst ` set m' = insert (rm_request_id msg) (fst ` set m))"
proof (cases "radio_request_task_step rands r m")
  case None
  then have "pick_request_id rands m = None"
    by (auto simp: radio_request_task_step_def split: option.splits prod.splits)
  with pick_request_id_iff [of rands m] None show ?thesis
    by (force simp: map_of_eq_None_iff)
next
  case (Some p)
  obtain msg m' where p: "p = (msg, m')" by (cases p)
  have "pick_request_id rands m = Some (rm_request_id msg)"
    using Some p by (auto simp: radio_request_task_step_def split: option.splits prod.splits)
  then have "rm_request_id msg \<in> set rands"
    by (induction rands) (auto split: if_splits)
  with Some p request_step [of rands r m msg m'] show ?thesis
    by (simp add: map_of_eq_None_iff)
qed

text \<open>
  \<^verbatim>\<open>RadioRxMode\<close> cannot be read back: because the guard shifts left where it should shift
  right, a receive mode with any flag set is refused, and so the round trip holds only for
  the mode with all flags off.
\<close>

theorem RadioRxMode_roundtrip_only_off:
  "RadioParamValue_try_into_RadioRxMode (RadioParamValue_from_RadioRxMode m) =
    (if address_filter m \<or> autoack m \<or> poll_mode m then Err UnexpectedResponse else Ok m)"
  by (cases m) (auto simp: RadioParamValue_from_RadioRxMode_def RadioParamValue_from_u16_def
      RadioParamValue_try_into_RadioRxMode_def bool_to_word_def)

text \<open>
  The guard also lets the bits it should refuse pass: of the values with reserved bits set,
  0x2000 is read as the mode with all flags off.
\<close>

lemma RadioRxMode_reserved_accepted:
  "RadioParamValue_try_into_RadioRxMode (RadioParamValue_U16 0x2000) =
    Ok \<lparr>address_filter = False, autoack = False, poll_mode = False\<rparr>"
  by (simp add: RadioParamValue_try_into_RadioRxMode_def)

fun set_pending_bytes :: "(usize \<times> (u16 \<times> u16) option) + (usize \<times> u64 option) \<Rightarrow> bytes" where
  "set_pending_bytes (Inl (i, a)) =
     fst (snd (RadioRequest_into_raw (RadioRequest_SetPendingShort (UniqueKey 0) i a)))"
| "set_pending_bytes (Inr (i, a)) =
     fst (snd (RadioRequest_into_raw (RadioRequest_SetPendingExtended (UniqueKey 0) i a)))"

lemma to_le_bytes_not_Nil: "to_le_bytes (a :: u16) \<noteq> []" "to_le_bytes (b :: u64) \<noteq> []"
  by (simp_all flip: length_greater_0_conv)

lemma pending_short_bytes_inject:
  "(case a of Some (p, s) \<Rightarrow> to_le_bytes p @ to_le_bytes s | None \<Rightarrow> []) =
   (case b of Some (p, s) \<Rightarrow> to_le_bytes p @ to_le_bytes s | None \<Rightarrow> []) \<longleftrightarrow>
    a = (b :: (u16 \<times> u16) option)"
  by (cases a; cases b)
    (auto simp: to_le_bytes_eq_iff to_le_bytes_not_Nil to_le_bytes_not_Nil [symmetric])

lemma pending_extended_bytes_inject:
  "(case a of Some x \<Rightarrow> to_le_bytes x | None \<Rightarrow> []) =
   (case b of Some x \<Rightarrow> to_le_bytes x | None \<Rightarrow> []) \<longleftrightarrow> a = (b :: u64 option)"
  by (cases a; cases b)
    (auto simp: to_le_bytes_eq_iff to_le_bytes_not_Nil to_le_bytes_not_Nil [symmetric])

lemma low_index_masked: "i < 128 \<Longrightarrow> (of_nat i :: u8) AND 0x7F = of_nat i"
proof -
  assume "i < 128"
  then have "take_bit 7 (of_nat i :: u8) = of_nat i"
    by (simp add: take_bit_of_nat take_bit_nat_eq_self)
  then show ?thesis by (simp add: take_bit_eq_mask mask_eq_exp_minus_1)
qed

lemma low_index_tagged: "i < 128 \<Longrightarrow> ((of_nat i :: u8) OR 0x80) AND 0x7F = of_nat i"
  by (subst bit.conj_disj_distrib2) (simp add: low_index_masked)

lemma low_index_inject: "i < 128 \<Longrightarrow> j < 128 \<Longrightarrow> (of_nat i :: u8) = of_nat j \<longleftrightarrow> i = j"
  by (simp add: word_unat_eq_iff unsigned_of_nat take_bit_nat_eq_self)

lemma low_index_not_tagged:
  assumes "i < 128"
  shows "(of_nat i :: u8) \<noteq> of_nat j OR 0x80"
proof
  assume eq: "(of_nat i :: u8) = of_nat j OR 0x80"
  have "bit (of_nat j OR 0x80 :: u8) 7" by (simp add: bit_simps)
  then have "bit (of_nat i AND 0x7F :: u8) 7" using eq low_index_masked [OF assms] by simp
  then show False by (simp add: bit_simps)
qed

lemma set_pending_short_inject:
  assumes "i < 128" "j < 128" "set_pending_bytes (Inl (i, a)) = set_pending_bytes (Inl (j, b))"
  shows "i = j \<and> a = b"
  using assms low_index_masked [of i] low_index_masked [of j] low_index_inject [of i j]
    pending_short_bytes_inject [of a b] by simp

lemma set_pending_extended_inject:
  assumes "i < 128" "j < 128" "set_pending_bytes (Inr (i, a)) = set_pending_bytes (Inr (j, b))"
  shows "i = j \<and> a = b"
proof -
  have "(of_nat i :: u8) OR 0x80 = of_nat j OR 0x80" "a = b"
    using assms(3) by (simp_all add: pending_extended_bytes_inject)
  then show ?thesis
    using assms(1,2) low_index_tagged [of i] low_index_tagged [of j] low_index_inject [of i j] by metis
qed

lemma set_pending_kinds_differ:
  assumes "i < 128"
  shows "set_pending_bytes (Inl (i, a)) \<noteq> set_pending_bytes (Inr (j, b))"
  using low_index_not_tagged [OF assms, of j] low_index_masked [OF assms] by simp

text \<open>
  The pending-address requests address the radio's table faithfully up to 128 entries:
  two of them with indices below 128 have the same bytes only when they are of the same kind,
  with the same index and the same address.
\<close>

theorem set_pending_bytes_faithful:
  assumes "case p of Inl (i, a) \<Rightarrow> i < 128 | Inr (i, a) \<Rightarrow> i < 128"
    and "case q of Inl (i, a) \<Rightarrow> i < 128 | Inr (i, a) \<Rightarrow> i < 128"
    and "set_pending_bytes p = set_pending_bytes q"
  shows "p = q"
proof -
  consider (short) i a j b where "p = Inl (i, a)" "q = Inl (j, b)"
    | (ext) i a j b where "p = Inr (i, a)" "q = Inr (j, b)"
    | (mixed) i a j b where "p = Inl (i, a)" "q = Inr (j, b)"
    | (mixed') i a j b where "p = Inr (i, a)" "q = Inl (j, b)"
    by (metis old.sum.exhaust prod.exhaust)
  then show ?thesis
  proof cases
    case short
    then show ?thesis
      using assms(1,2) set_pending_short_inject [OF _ _ assms(3) [unfolded short]] by simp
  next
    case ext
    then show ?thesis
      using assms(1,2) set_pending_extended_inject [OF _ _ assms(3) [unfolded ext]] by simp
  next
    case mixed
    then have "i < 128" using assms(1) by simp
    with set_pending_kinds_differ assms(3) mixed show ?thesis by metis
  next
    case mixed'
    then have "j < 128" using assms(2) by simp
    with set_pending_kinds_differ assms(3) mixed' show ?thesis by metis
  qed
qed

end
