(* ===== verification/Pib.thy ===== *)
theory Pib
  imports Frame
begin

text \<open>
  The PAN information base (\<^verbatim>\<open>ieee802154/pib.rs\<close>) and the errors of the MAC services
  (\<^verbatim>\<open>services/error.rs\<close>).  The values drawn by \<^verbatim>\<open>rand::random\<close> are arguments.  The lemmas
  show that a write is read back and touches nothing else, that a refused write changes
  nothing, and how the sequence numbers advance.
\<close>

section \<open>Errors of the services\<close>

datatype mac_error =
    ChannelAccessFailure
  | FrameTooLong
  | ReadOnly
  | UnsupportedAttribute
  | InvalidIndex
  | InvalidParameter
  | InvalidHandle
  | NoShortAddress
  | TransactionExpired
  | NoAck

section \<open>Properties and values\<close>

datatype pib_property =
    MacExtendedAddress
  | MacAssociatedPanCoord
  | MacAssociationPermit
  | MacBeaconPayload
  | MacBsn
  | MacDsn
  | MacPanId
  | MacShortAddress
  | MacBeaconAutoRespond
  | MacTransactionPersistenceTime
  | MacMaxFrameRetries
  | PhyCurrentChannel
  | PhyMaxTxPower
  | PhyTxPower

datatype pib_value =
    PIBValue_Bool bool
  | PIBValue_U8 u8
  | PIBValue_U16 u16
  | PIBValue_Blob bytes
  | PIBValue_Duration duration
  | PIBValue_ShortAddress short_address
  | PIBValue_ExtendedAddress extended_address
  | PIBValue_PANID panid
  | PIBValue_Pair pib_value pib_value
  | PIBValue_Empty

definition PIBValue_from_bool :: "bool \<Rightarrow> pib_value" where
  "PIBValue_from_bool v = PIBValue_Bool v"

definition PIBValue_from_u8 :: "u8 \<Rightarrow> pib_value" where
  "PIBValue_from_u8 v = PIBValue_U8 v"

definition PIBValue_from_u16 :: "u16 \<Rightarrow> pib_value" where
  "PIBValue_from_u16 v = PIBValue_U16 v"

definition PIBValue_from_Vec :: "bytes \<Rightarrow> pib_value" where
  "PIBValue_from_Vec v = PIBValue_Blob v"

definition PIBValue_from_Duration :: "duration \<Rightarrow> pib_value" where
  "PIBValue_from_Duration v = PIBValue_Duration v"

definition PIBValue_from_ShortAddress :: "short_address \<Rightarrow> pib_value" where
  "PIBValue_from_ShortAddress v = PIBValue_ShortAddress v"

definition PIBValue_from_ExtendedAddress :: "extended_address \<Rightarrow> pib_value" where
  "PIBValue_from_ExtendedAddress v = PIBValue_ExtendedAddress v"

definition PIBValue_from_PANID :: "panid \<Rightarrow> pib_value" where
  "PIBValue_from_PANID v = PIBValue_PANID v"

text \<open>The generic conversions take those of the components.\<close>

definition PIBValue_from_pair :: "('a \<Rightarrow> pib_value) \<Rightarrow> ('b \<Rightarrow> pib_value) \<Rightarrow> 'a \<times> 'b \<Rightarrow> pib_value" where
  "PIBValue_from_pair from_a from_b v = PIBValue_Pair (from_a (fst v)) (from_b (snd v))"

definition PIBValue_from_Option :: "('a \<Rightarrow> pib_value) \<Rightarrow> 'a option \<Rightarrow> pib_value" where
  "PIBValue_from_Option from_a v = (case v of Some x \<Rightarrow> from_a x | None \<Rightarrow> PIBValue_Empty)"

fun PIBValue_try_into_bool :: "pib_value \<Rightarrow> (bool, unit) result" where
  "PIBValue_try_into_bool (PIBValue_Bool x) = Ok x"
| "PIBValue_try_into_bool _ = Err ()"

fun PIBValue_try_into_u8 :: "pib_value \<Rightarrow> (u8, unit) result" where
  "PIBValue_try_into_u8 (PIBValue_U8 x) = Ok x"
| "PIBValue_try_into_u8 _ = Err ()"

fun PIBValue_try_into_u16 :: "pib_value \<Rightarrow> (u16, unit) result" where
  "PIBValue_try_into_u16 (PIBValue_U16 x) = Ok x"
| "PIBValue_try_into_u16 _ = Err ()"

fun PIBValue_try_into_Vec :: "pib_value \<Rightarrow> (bytes, unit) result" where
  "PIBValue_try_into_Vec (PIBValue_Blob x) = Ok x"
| "PIBValue_try_into_Vec _ = Err ()"

fun PIBValue_try_into_Duration :: "pib_value \<Rightarrow> (duration, unit) result" where
  "PIBValue_try_into_Duration (PIBValue_Duration x) = Ok x"
| "PIBValue_try_into_Duration _ = Err ()"

fun PIBValue_try_into_ShortAddress :: "pib_value \<Rightarrow> (short_address, unit) result" where
  "PIBValue_try_into_ShortAddress (PIBValue_ShortAddress x) = Ok x"
| "PIBValue_try_into_ShortAddress _ = Err ()"

fun PIBValue_try_into_ExtendedAddress :: "pib_value \<Rightarrow> (extended_address, unit) result" where
  "PIBValue_try_into_ExtendedAddress (PIBValue_ExtendedAddress x) = Ok x"
| "PIBValue_try_into_ExtendedAddress _ = Err ()"

fun PIBValue_try_into_PANID :: "pib_value \<Rightarrow> (panid, unit) result" where
  "PIBValue_try_into_PANID (PIBValue_PANID x) = Ok x"
| "PIBValue_try_into_PANID _ = Err ()"

fun PIBValue_try_into_pair :: "(pib_value \<Rightarrow> ('a, unit) result) \<Rightarrow>
    (pib_value \<Rightarrow> ('b, unit) result) \<Rightarrow> pib_value \<Rightarrow> ('a \<times> 'b, unit) result" where
  "PIBValue_try_into_pair into_a into_b (PIBValue_Pair a b) =
     and_then (into_a a) (\<lambda>a. and_then (into_b b) (\<lambda>b. Ok (a, b)))"
| "PIBValue_try_into_pair into_a into_b _ = Err ()"

section \<open>The information base\<close>

record pib =
  mac_extended_address :: extended_address
  mac_associated_pan_coord :: "(extended_address \<times> short_address) option"
  mac_association_permit :: bool
  mac_beacon_payload :: bytes
  mac_bsn :: u8
  mac_dsn :: u8
  mac_pan_id :: panid
  mac_short_address :: short_address
  mac_beacon_auto_respond :: bool
  mac_transaction_persistence_time :: duration
  mac_max_frame_retries :: u16
  phy_current_channel :: u16
  phy_max_tx_power :: u16
  phy_tx_power :: u16

definition PIB_new :: "u8 \<Rightarrow> u8 \<Rightarrow> extended_address \<Rightarrow> u16 \<Rightarrow> u16 \<Rightarrow> pib" where
  "PIB_new random_bsn random_dsn ext_address channel max_power =
     \<lparr>mac_extended_address = ext_address,
      mac_associated_pan_coord = None,
      mac_association_permit = False,
      mac_beacon_payload = [],
      mac_bsn = random_bsn,
      mac_dsn = random_dsn,
      mac_pan_id = PANID 0xFFFF,
      mac_short_address = ShortAddress 0xFFFF,
      mac_beacon_auto_respond = False,
      mac_transaction_persistence_time = Duration_from_secs (5 * 60),
      mac_max_frame_retries = 3,
      phy_current_channel = channel,
      phy_max_tx_power = max_power,
      phy_tx_power = max_power\<rparr>"

definition PIB_reset :: "u8 \<Rightarrow> u8 \<Rightarrow> pib \<Rightarrow> pib" where
  "PIB_reset random_bsn random_dsn self =
     PIB_new random_bsn random_dsn (mac_extended_address self) (phy_current_channel self)
       (phy_tx_power self)"

definition PIB_get :: "pib \<Rightarrow> pib_property \<Rightarrow> (pib_value, unit) result" where
  "PIB_get self param =
     (case param of
        MacExtendedAddress \<Rightarrow> Ok (PIBValue_from_ExtendedAddress (mac_extended_address self))
      | MacAssociatedPanCoord \<Rightarrow>
          Ok (PIBValue_from_Option
            (PIBValue_from_pair PIBValue_from_ExtendedAddress PIBValue_from_ShortAddress)
            (mac_associated_pan_coord self))
      | MacAssociationPermit \<Rightarrow> Ok (PIBValue_from_bool (mac_association_permit self))
      | MacBeaconPayload \<Rightarrow> Ok (PIBValue_from_Vec (mac_beacon_payload self))
      | MacBsn \<Rightarrow> Ok (PIBValue_from_u8 (mac_bsn self))
      | MacDsn \<Rightarrow> Ok (PIBValue_from_u8 (mac_dsn self))
      | MacPanId \<Rightarrow> Ok (PIBValue_from_PANID (mac_pan_id self))
      | MacShortAddress \<Rightarrow> Ok (PIBValue_from_ShortAddress (mac_short_address self))
      | MacBeaconAutoRespond \<Rightarrow> Ok (PIBValue_from_bool (mac_beacon_auto_respond self))
      | MacTransactionPersistenceTime \<Rightarrow>
          Ok (PIBValue_from_Duration (mac_transaction_persistence_time self))
      | PhyCurrentChannel \<Rightarrow> Ok (PIBValue_from_u16 (phy_current_channel self))
      | PhyMaxTxPower \<Rightarrow> Ok (PIBValue_from_u16 (phy_max_tx_power self))
      | PhyTxPower \<Rightarrow> Ok (PIBValue_from_u16 (phy_tx_power self))
      | _ \<Rightarrow> Err ())"

text \<open>
  \<^verbatim>\<open>self.f = value.try_into().or(Err(InvalidParameter))?; Ok(())\<close>: the field is assigned
  only when the conversion succeeds.
\<close>

definition assign :: "('a, unit) result \<Rightarrow> ('a \<Rightarrow> pib) \<Rightarrow> pib \<Rightarrow> (unit, mac_error) result \<times> pib" where
  "assign converted update self =
     (case converted of Ok x \<Rightarrow> (Ok (), update x) | Err _ \<Rightarrow> (Err InvalidParameter, self))"

definition PIB_set :: "pib \<Rightarrow> pib_property \<Rightarrow> pib_value \<Rightarrow> (unit, mac_error) result \<times> pib" where
  "PIB_set self param v =
     (case param of
        MacExtendedAddress \<Rightarrow> (Err ReadOnly, self)
      | MacAssociationPermit \<Rightarrow>
          assign (PIBValue_try_into_bool v) (\<lambda>x. self\<lparr>mac_association_permit := x\<rparr>) self
      | MacBeaconPayload \<Rightarrow>
          assign (PIBValue_try_into_Vec v) (\<lambda>x. self\<lparr>mac_beacon_payload := x\<rparr>) self
      | MacBsn \<Rightarrow> assign (PIBValue_try_into_u8 v) (\<lambda>x. self\<lparr>mac_bsn := x\<rparr>) self
      | MacDsn \<Rightarrow> assign (PIBValue_try_into_u8 v) (\<lambda>x. self\<lparr>mac_dsn := x\<rparr>) self
      | MacPanId \<Rightarrow> assign (PIBValue_try_into_PANID v) (\<lambda>x. self\<lparr>mac_pan_id := x\<rparr>) self
      | MacShortAddress \<Rightarrow>
          assign (PIBValue_try_into_ShortAddress v) (\<lambda>x. self\<lparr>mac_short_address := x\<rparr>) self
      | MacBeaconAutoRespond \<Rightarrow>
          assign (PIBValue_try_into_bool v) (\<lambda>x. self\<lparr>mac_beacon_auto_respond := x\<rparr>) self
      | MacTransactionPersistenceTime \<Rightarrow>
          assign (PIBValue_try_into_Duration v)
            (\<lambda>x. self\<lparr>mac_transaction_persistence_time := x\<rparr>) self
      | PhyCurrentChannel \<Rightarrow>
          assign (PIBValue_try_into_u16 v) (\<lambda>x. self\<lparr>phy_current_channel := x\<rparr>) self
      | PhyMaxTxPower \<Rightarrow>
          assign (PIBValue_try_into_u16 v) (\<lambda>x. self\<lparr>phy_max_tx_power := x\<rparr>) self
      | PhyTxPower \<Rightarrow> assign (PIBValue_try_into_u16 v) (\<lambda>x. self\<lparr>phy_tx_power := x\<rparr>) self
      | _ \<Rightarrow> (Err UnsupportedAttribute, self))"

text \<open>\<^verbatim>\<open>wrapping_add(1)\<close> is addition of words.\<close>

definition PIB_next_beacon_sequence_nr :: "pib \<Rightarrow> u8 \<times> pib" where
  "PIB_next_beacon_sequence_nr self = (mac_bsn self, self\<lparr>mac_bsn := mac_bsn self + 1\<rparr>)"

definition PIB_next_data_sequence_nr :: "pib \<Rightarrow> u8 \<times> pib" where
  "PIB_next_data_sequence_nr self = (mac_dsn self, self\<lparr>mac_dsn := mac_dsn self + 1\<rparr>)"

definition PIB_get_full_short_address :: "pib \<Rightarrow> full_address" where
  "PIB_get_full_short_address self =
     \<lparr>pan_id = mac_pan_id self,
      address = (if mac_short_address self \<noteq> ShortAddress_none_assigned
                 then Address_Short (mac_short_address self)
                 else Address_Extended (mac_extended_address self))\<rparr>"

definition PIB_get_full_extended_address :: "pib \<Rightarrow> full_address" where
  "PIB_get_full_extended_address self =
     \<lparr>pan_id = mac_pan_id self, address = Address_Extended (mac_extended_address self)\<rparr>"

section \<open>Properties\<close>

lemmas PIBValue_from_defs =
  PIBValue_from_bool_def PIBValue_from_u8_def PIBValue_from_u16_def PIBValue_from_Vec_def
  PIBValue_from_Duration_def PIBValue_from_ShortAddress_def PIBValue_from_ExtendedAddress_def
  PIBValue_from_PANID_def

lemma assign_Ok_iff: "assign c update self = (Ok u, self') \<longleftrightarrow> (\<exists>x. c = Ok x \<and> self' = update x)"
  by (cases c) (auto simp: assign_def)

lemma assign_Err_iff:
  "assign c update self = (Err e, self') \<longleftrightarrow> c = Err () \<and> e = InvalidParameter \<and> self' = self"
  by (cases c) (auto simp: assign_def)

lemma PIBValue_try_into_Ok_iff:
  "PIBValue_try_into_bool v = Ok b \<longleftrightarrow> v = PIBValue_Bool b"
  "PIBValue_try_into_u8 v = Ok x8 \<longleftrightarrow> v = PIBValue_U8 x8"
  "PIBValue_try_into_u16 v = Ok x16 \<longleftrightarrow> v = PIBValue_U16 x16"
  "PIBValue_try_into_Vec v = Ok bs \<longleftrightarrow> v = PIBValue_Blob bs"
  "PIBValue_try_into_Duration v = Ok d \<longleftrightarrow> v = PIBValue_Duration d"
  "PIBValue_try_into_ShortAddress v = Ok sa \<longleftrightarrow> v = PIBValue_ShortAddress sa"
  "PIBValue_try_into_ExtendedAddress v = Ok ea \<longleftrightarrow> v = PIBValue_ExtendedAddress ea"
  "PIBValue_try_into_PANID v = Ok pan \<longleftrightarrow> v = PIBValue_PANID pan"
  by (cases v; auto)+

lemma PIB_set_own:
  "PIB_set self p v = (Ok u, self') \<Longrightarrow> PIB_get self' p = Ok v"
  by (cases p)
    (auto simp: PIB_set_def PIB_get_def assign_Ok_iff PIBValue_try_into_Ok_iff PIBValue_from_defs)

lemma PIB_set_other:
  "PIB_set self p v = (Ok u, self') \<Longrightarrow> q \<noteq> p \<Longrightarrow> PIB_get self' q = PIB_get self q"
  by (cases p; cases q) (auto simp: PIB_set_def PIB_get_def assign_Ok_iff)

lemma PIB_set_refused: "PIB_set self p v = (Err e, self') \<Longrightarrow> self' = self"
  by (cases p) (auto simp: PIB_set_def assign_Err_iff)

text \<open>
  Setting a PIB attribute either succeeds, and then reading it gives the value written
  and every other attribute reads as before, or it is refused and the PIB is unchanged.
\<close>

theorem PIB_set_get:
  "case PIB_set self p v of
     (Ok _, self') \<Rightarrow> (\<forall>q. PIB_get self' q = (if q = p then Ok v else PIB_get self q))
   | (Err _, self') \<Rightarrow> self' = self"
  by (auto simp: PIB_set_own PIB_set_other PIB_set_refused split: prod.split sum.split)

text \<open>The numbers handed out by successive calls.\<close>

fun sequence_nrs :: "(pib \<Rightarrow> u8 \<times> pib) \<Rightarrow> nat \<Rightarrow> pib \<Rightarrow> u8 list" where
  "sequence_nrs next 0 self = []"
| "sequence_nrs next (Suc n) self =
     (case next self of (nr, self') \<Rightarrow> nr # sequence_nrs next n self')"

lemma sequence_nrs_counter:
  assumes "\<And>s. fst (next s) = nr s" "\<And>s. nr (snd (next s)) = nr s + 1"
  shows "sequence_nrs next n self = map (\<lambda>i. nr self + of_nat i) [0..<n]"
proof (induction n arbitrary: self)
  case (Suc n)
  have "map (\<lambda>i. nr self + of_nat i) [0..<Suc n] = nr self # map (\<lambda>i. nr self + 1 + of_nat i) [0..<n]"
    by (rule nth_equalityI) (auto simp: nth_Cons' simp del: upt_Suc)
  then show ?case using assms [of self] by (simp add: Suc case_prod_unfold)
qed simp

lemma data_sequence_nrs:
  "sequence_nrs PIB_next_data_sequence_nr n self = map (\<lambda>i. mac_dsn self + of_nat i) [0..<n]"
  by (rule sequence_nrs_counter) (simp_all add: PIB_next_data_sequence_nr_def)

lemma beacon_sequence_nrs:
  "sequence_nrs PIB_next_beacon_sequence_nr n self = map (\<lambda>i. mac_bsn self + of_nat i) [0..<n]"
  by (rule sequence_nrs_counter) (simp_all add: PIB_next_beacon_sequence_nr_def)

lemma of_nat_u8_inject: "i < 256 \<Longrightarrow> j < 256 \<Longrightarrow> (of_nat i :: u8) = of_nat j \<longleftrightarrow> i = j"
  by (simp add: word_unat_eq_iff unsigned_of_nat take_bit_nat_eq_self)

lemma distinct_sequence: "n \<le> 256 \<Longrightarrow> distinct (map (\<lambda>i. (a :: u8) + of_nat i) [0..<n])"
  by (auto simp: distinct_map inj_on_def of_nat_u8_inject)

text \<open>
  The data sequence numbers count up from \<^verbatim>\<open>mac_dsn\<close> modulo 256 and the beacon sequence
  numbers from \<^verbatim>\<open>mac_bsn\<close>; up to 256 consecutive numbers of each kind are distinct.
\<close>

theorem PIB_sequence_numbers_distinct:
  assumes "n \<le> 256"
  shows "distinct (sequence_nrs PIB_next_data_sequence_nr n self) \<and>
    distinct (sequence_nrs PIB_next_beacon_sequence_nr n self) \<and>
    (\<forall>i < n. sequence_nrs PIB_next_data_sequence_nr n self ! i = mac_dsn self + of_nat i) \<and>
    (\<forall>i < n. sequence_nrs PIB_next_beacon_sequence_nr n self ! i = mac_bsn self + of_nat i)"
  unfolding data_sequence_nrs beacon_sequence_nrs using distinct_sequence [OF assms] by simp

text \<open>
  A reset keeps the extended address and the channel and restores every other attribute
  to its default, but takes the present transmit power as the new maximum: a power that was
  lowered before a reset cannot be told from a limit of the hardware afterwards.
\<close>

theorem PIB_reset_loses_max_power:
  assumes "PIB_set self PhyTxPower v = (Ok u, self')"
  shows "PIB_get (PIB_reset b d self') PhyMaxTxPower = Ok v \<and>
    (\<forall>q. q \<notin> {MacExtendedAddress, PhyCurrentChannel} \<longrightarrow>
      PIB_get (PIB_reset b d self') q =
      PIB_get (PIB_new b d (ExtendedAddress 0) 0 (phy_tx_power self')) q) \<and>
    PIB_get (PIB_reset b d self') MacExtendedAddress = PIB_get self MacExtendedAddress \<and>
    PIB_get (PIB_reset b d self') PhyCurrentChannel = PIB_get self PhyCurrentChannel"
proof -
  obtain x where v: "v = PIBValue_U16 x" and self': "self' = self\<lparr>phy_tx_power := x\<rparr>"
    using assms by (auto simp: PIB_set_def assign_Ok_iff PIBValue_try_into_Ok_iff)
  have "PIB_get (PIB_reset b d self') q =
      PIB_get (PIB_new b d (ExtendedAddress 0) 0 (phy_tx_power self')) q"
    if "q \<notin> {MacExtendedAddress, PhyCurrentChannel}" for q
    using that by (cases q) (simp_all add: PIB_get_def PIB_reset_def PIB_new_def)
  moreover have "PIB_get (PIB_reset b d self') PhyMaxTxPower = Ok v"
    "PIB_get (PIB_reset b d self') MacExtendedAddress = PIB_get self MacExtendedAddress"
    "PIB_get (PIB_reset b d self') PhyCurrentChannel = PIB_get self PhyCurrentChannel"
    using v self' by (simp_all add: PIB_get_def PIB_reset_def PIB_new_def PIBValue_from_defs)
  ultimately show ?thesis by blast
qed

end
