(* ===== verification/Services.thy ===== *)
theory Services
  imports Pib Runtime
begin

text \<open>
  The messages of the MAC services: \<^verbatim>\<open>services/mlme.rs\<close> (management) and
  \<^verbatim>\<open>services/mcps.rs\<close> (data).  The constructors carry the names of the structs they hold.
\<close>

section \<open>MLME\<close>

datatype beacon_type = BeaconType_Beacon | BeaconType_EnhancedBeacon

record reset_request =
  set_default_pib :: bool

record start_request =
  sr_pan_id :: panid
  sr_channel_number :: u16
  sr_channel_page :: u16
  sr_start_time :: u32
  sr_beacon_order :: u8
  sr_superframe_order :: u8
  sr_pan_coordinator :: bool
  sr_battery_life_extension :: bool

record beacon_request =
  br_beacon_type :: beacon_type
  br_channel :: u16
  br_channel_page :: u16
  br_superframe_order :: usize
  br_dst_addr :: "full_address option"

record get_request =
  gr_attribute :: pib_property

record set_request =
  st_attribute :: pib_property
  st_value :: pib_value

datatype mlme_request =
    Mlme_Reset reset_request
  | Mlme_Start start_request
  | Mlme_Beacon beacon_request
  | Mlme_Get get_request
  | Mlme_Set set_request

datatype mlme_confirm =
    MlmeConfirm_Reset "(unit, mac_error) result"
  | MlmeConfirm_Start "(unit, mac_error) result"
  | MlmeConfirm_Beacon "(unit, mac_error) result"
  | MlmeConfirm_Get pib_property "(pib_value, mac_error) result"
  | MlmeConfirm_Set pib_property "(unit, mac_error) result"

datatype mlme_indication =
    MlmeIndication_BeaconRequest beacon_type "full_address option" panid
  | MlmeIndication_Associate extended_address capability_information

datatype mlme_response =
    MlmeResponse_Associate extended_address bool "(short_address option, association_error) result"

datatype mlme_input = MlmeInput_Request mlme_request | MlmeInput_Response mlme_response

datatype mlme_output = MlmeOutput_Confirm mlme_confirm | MlmeOutput_Indication mlme_indication

section \<open>MCPS\<close>

datatype msdu_handle = MsduHandle unique_key

definition MsduHandle_new :: "process_unique_id \<Rightarrow> msdu_handle" where
  "MsduHandle_new fresh = MsduHandle (UniqueKey_new fresh)"

record data_request =
  dr_source_addressing_mode :: addressing_mode
  dr_destination :: "full_address option"
  dr_msdu :: bytes
  dr_msdu_handle :: msdu_handle
  dr_ack_tx :: bool
  dr_indirect_tx :: bool

record data_confirm =
  dc_msdu_handle :: msdu_handle
  dc_ack_payload :: "(bytes, mac_error) result"

record data_indication =
  di_source :: "full_address option"
  di_destination :: "full_address option"
  di_msdu :: bytes
  di_mpdu_link_quality :: u8
  di_dsn :: "u8 option"
  di_rssi :: u8

record purge_request =
  pr_msdu_handle :: msdu_handle

record purge_confirm =
  pc_msdu_handle :: msdu_handle
  pc_status :: "(unit, mac_error) result"

datatype mcps_request = Mcps_Data data_request | Mcps_Purge purge_request

datatype mcps_confirm = McpsConfirm_Data data_confirm | McpsConfirm_Purge purge_confirm

datatype mcps_indication = McpsIndication_Data data_indication

text \<open>\<^verbatim>\<open>mcps::Response\<close> has no variants.\<close>

typedecl mcps_response

datatype mcps_input = McpsInput_Request mcps_request | McpsInput_Response mcps_response

datatype mcps_output = McpsOutput_Confirm mcps_confirm | McpsOutput_Indication mcps_indication

end
