(* ===== verification/Pending_Table.thy ===== *)
theory Pending_Table
  imports Runtime
begin

text \<open>
  The table of devices with pending data (\<^verbatim>\<open>mac/pendingtable.rs\<close>): the set of values, the
  slots of the radio's table that mirror some of them, and the order in which slots are
  overwritten.  The abstract specification is a bounded list of the most recently used
  values (\<open>lru_touch\<close>); the lemmas show that the operations implement it, and the device
  model that the radio's table follows the slots through failed and late updates.
\<close>

section \<open>The table\<close>

record 'a pending_table_entry =
  dirty :: bool
  entry_value :: "'a option"

definition PendingTableEntry_default :: "'a pending_table_entry" where
  "PendingTableEntry_default = \<lparr>dirty = True, entry_value = None\<rparr>"

definition PendingTableEntry_new :: "'a \<Rightarrow> 'a pending_table_entry" where
  "PendingTableEntry_new v = \<lparr>dirty = True, entry_value = Some v\<rparr>"

text \<open>
  The optional waker is a \<^typ>\<open>waker_store\<close>, whose operations it shares.
\<close>

record 'a pending_table =
  pt_values :: "'a set"
  pt_table :: "'a pending_table_entry list"
  pt_order :: "usize list"
  pt_updating :: "(unique_key \<times> usize) option"
  pt_waker :: waker_store

record 'a pending_table_update =
  up_key :: unique_key
  up_index :: usize
  up_value :: "'a option"

definition PendingTable_new :: "usize \<Rightarrow> 'a pending_table" where
  "PendingTable_new n =
     \<lparr>pt_values = {},
      pt_table = replicate n PendingTableEntry_default,
      pt_order = [0..<n],
      pt_updating = None,
      pt_waker = WakerStore_new\<rparr>"

definition PendingTable_wake :: "'a pending_table \<Rightarrow> 'a pending_table" where
  "PendingTable_wake self = self\<lparr>pt_waker := WakerStore_wake (pt_waker self)\<rparr>"

definition PendingTable_assume_empty :: "'a pending_table \<Rightarrow> 'a pending_table" where
  "PendingTable_assume_empty self =
     PendingTable_wake (self\<lparr>pt_table := map (\<lambda>entry. entry\<lparr>dirty := entry_value entry \<noteq> None\<rparr>)
       (pt_table self)\<rparr>)"

definition PendingTable_get_index :: "'a pending_table \<Rightarrow> 'a \<Rightarrow> usize option" where
  "PendingTable_get_index self v =
     List.find (\<lambda>index. entry_value (pt_table self ! index) = Some v) [0..<length (pt_table self)]"

definition PendingTable_promote_index :: "usize \<Rightarrow> 'a pending_table \<Rightarrow> 'a pending_table" where
  "PendingTable_promote_index index self =
     self\<lparr>pt_order := filter (\<lambda>x. x \<noteq> index) (pt_order self) @ [index]\<rparr>"

definition PendingTable_demote_index :: "usize \<Rightarrow> 'a pending_table \<Rightarrow> 'a pending_table" where
  "PendingTable_demote_index index self =
     self\<lparr>pt_order := index # filter (\<lambda>x. x \<noteq> index) (pt_order self)\<rparr>"

text \<open>\<^verbatim>\<open>if self.updating.is_none() { self.wake(); }\<close>\<close>

definition PendingTable_wake_if_idle :: "'a pending_table \<Rightarrow> 'a pending_table" where
  "PendingTable_wake_if_idle self =
     (if pt_updating self = None then PendingTable_wake self else self)"

text \<open>\<^verbatim>\<open>self.order.first().unwrap()\<close> and the index into the table may panic.\<close>

definition PendingTable_promote :: "'a \<Rightarrow> 'a pending_table \<Rightarrow> (bool \<times> 'a pending_table) outcome" where
  "PendingTable_promote v self =
     (if v \<in> pt_values self then
        bind_outcome
          (case PendingTable_get_index self v of
             Some current_index \<Rightarrow> Return (current_index, self)
           | None \<Rightarrow>
               (case pt_order self of
                  [] \<Rightarrow> Panic
                | next_index # _ \<Rightarrow>
                    if next_index < length (pt_table self) then
                      Return (next_index, PendingTable_wake_if_idle
                        (self\<lparr>pt_table := (pt_table self)[next_index := PendingTableEntry_new v]\<rparr>))
                    else Panic))
          (\<lambda>(index, self). Return (True, PendingTable_promote_index index self))
      else Return (False, self))"

definition PendingTable_insert :: "'a \<Rightarrow> 'a pending_table \<Rightarrow> (bool \<times> 'a pending_table) outcome" where
  "PendingTable_insert v self =
     (let inserted = v \<notin> pt_values self;
          self = self\<lparr>pt_values := insert v (pt_values self)\<rparr>
      in bind_outcome (PendingTable_promote v self) (\<lambda>(_, self). Return (inserted, self)))"

definition PendingTable_remove :: "'a \<Rightarrow> 'a pending_table \<Rightarrow> bool \<times> 'a pending_table" where
  "PendingTable_remove v self =
     (if v \<in> pt_values self then
        (let self = self\<lparr>pt_values := pt_values self - {v}\<rparr>
         in (True,
           case PendingTable_get_index self v of
             Some index \<Rightarrow> PendingTable_demote_index index (PendingTable_wake_if_idle
               (self\<lparr>pt_table := (pt_table self)[index := PendingTableEntry_default]\<rparr>))
           | None \<Rightarrow> self))
      else (False, self))"

definition PendingTable_set :: "'a \<Rightarrow> bool \<Rightarrow> 'a pending_table \<Rightarrow> 'a pending_table outcome" where
  "PendingTable_set v inserted self =
     (if inserted then bind_outcome (PendingTable_insert v self) (\<lambda>(_, self). Return self)
      else Return (snd (PendingTable_remove v self)))"

definition PendingTable_report_update_result ::
    "unique_key \<Rightarrow> bool \<Rightarrow> 'a pending_table \<Rightarrow> 'a pending_table outcome" where
  "PendingTable_report_update_result token ok self =
     (case pt_updating self of
        Some (current_token, index) \<Rightarrow>
          if token = current_token then
            (let self = self\<lparr>pt_updating := None\<rparr>
             in if \<not> ok then
                  if index < length (pt_table self) then
                    Return (PendingTable_wake (self\<lparr>pt_table :=
                      (pt_table self)[index := (pt_table self ! index)\<lparr>dirty := True\<rparr>]\<rparr>))
                  else Panic
                else Return (PendingTable_wake self))
          else Return self
      | None \<Rightarrow> Return self)"

text \<open>\<open>fresh\<close> is the key that \<^verbatim>\<open>UniqueKey::new()\<close> hands out, \<open>cx\<close> the waker of the context.\<close>

definition PendingTable_poll_update :: "process_unique_id \<Rightarrow> waker \<Rightarrow> 'a pending_table \<Rightarrow>
    'a pending_table_update poll \<times> 'a pending_table" where
  "PendingTable_poll_update fresh cx self =
     (case (if pt_updating self = None
            then List.find (\<lambda>index. dirty (pt_table self ! index)) [0..<length (pt_table self)]
            else None) of
        Some index \<Rightarrow>
          (let self = self\<lparr>pt_table :=
                 (pt_table self)[index := (pt_table self ! index)\<lparr>dirty := False\<rparr>]\<rparr>;
               v = entry_value (pt_table self ! index);
               key = UniqueKey_new fresh;
               self = self\<lparr>pt_updating := Some (key, index)\<rparr>
           in (Ready \<lparr>up_key = key, up_index = index, up_value = v\<rparr>, self))
      | None \<Rightarrow> (Pending, self\<lparr>pt_waker := WakerStore_register (pt_waker self) cx\<rparr>))"

definition PendingTable_poll_next :: "process_unique_id \<Rightarrow> waker \<Rightarrow> 'a pending_table \<Rightarrow>
    'a pending_table_update option poll \<times> 'a pending_table" where
  "PendingTable_poll_next fresh cx self =
     (case PendingTable_poll_update fresh cx self of
        (Ready x, self) \<Rightarrow> (Ready (Some x), self)
      | (Pending, self) \<Rightarrow> (Pending, self))"

definition PendingTable_is_terminated :: "'a pending_table \<Rightarrow> bool" where
  "PendingTable_is_terminated self = False"

section \<open>Specification\<close>

text \<open>
  A list of at most \<open>n\<close> values, the least recently used first: touching a value moves it to
  the end and drops the first one when there is no room.
\<close>

definition lru_touch :: "nat \<Rightarrow> 'a \<Rightarrow> 'a list \<Rightarrow> 'a list" where
  "lru_touch n v xs =
     (let ys = removeAll v xs in (if length ys < n then ys else tl ys) @ [v])"

text \<open>The values in the slots, in the order in which they are overwritten.\<close>

definition recent :: "'a pending_table \<Rightarrow> 'a list" where
  "recent t = List.map_filter (\<lambda>i. entry_value (pt_table t ! i)) (pt_order t)"

abbreviation slot :: "'a pending_table \<Rightarrow> usize \<Rightarrow> 'a option" where
  "slot t i \<equiv> entry_value (pt_table t ! i)"

text \<open>
  The invariant: the order is a permutation of the slots, the free ones first, the used slots
  hold distinct values of the set, and an update in progress is for one of the slots.
\<close>

definition layout :: "'a pending_table \<Rightarrow> usize list \<Rightarrow> usize list \<Rightarrow> bool" where
  "layout t free used \<longleftrightarrow>
     pt_order t = free @ used \<and> distinct (free @ used) \<and>
     set (free @ used) = {..<length (pt_table t)} \<and>
     (\<forall>i \<in> set free. slot t i = None) \<and>
     (\<forall>i \<in> set used. \<exists>v \<in> pt_values t. slot t i = Some v) \<and>
     inj_on (slot t) (set used)"

definition pt_inv :: "'a pending_table \<Rightarrow> bool" where
  "pt_inv t \<longleftrightarrow>
     (\<exists>free used. layout t free used) \<and>
     (\<forall>k i. pt_updating t = Some (k, i) \<longrightarrow> i < length (pt_table t))"

lemma find_upt_Some:
  "List.find P [0..<n] = Some i \<Longrightarrow> i < n \<and> P i"
  by (auto simp: find_Some_iff)

lemma find_upt_None: "List.find P [0..<n] = None \<longleftrightarrow> (\<forall>i < n. \<not> P i)"
  by (auto simp: find_None_iff)

lemma PendingTable_wake_simps [simp]:
  "pt_values (PendingTable_wake t) = pt_values t" "pt_table (PendingTable_wake t) = pt_table t"
  "pt_order (PendingTable_wake t) = pt_order t" "pt_updating (PendingTable_wake t) = pt_updating t"
  by (simp_all add: PendingTable_wake_def)

lemma PendingTable_wake_if_idle_simps [simp]:
  "pt_values (PendingTable_wake_if_idle t) = pt_values t"
  "pt_table (PendingTable_wake_if_idle t) = pt_table t"
  "pt_order (PendingTable_wake_if_idle t) = pt_order t"
  "pt_updating (PendingTable_wake_if_idle t) = pt_updating t"
  by (simp_all add: PendingTable_wake_if_idle_def)

lemma PendingTable_promote_index_simps [simp]:
  "pt_values (PendingTable_promote_index i t) = pt_values t"
  "pt_table (PendingTable_promote_index i t) = pt_table t"
  "pt_order (PendingTable_promote_index i t) = filter (\<lambda>x. x \<noteq> i) (pt_order t) @ [i]"
  "pt_updating (PendingTable_promote_index i t) = pt_updating t"
  by (simp_all add: PendingTable_promote_index_def)

lemma PendingTable_demote_index_simps [simp]:
  "pt_values (PendingTable_demote_index i t) = pt_values t"
  "pt_table (PendingTable_demote_index i t) = pt_table t"
  "pt_order (PendingTable_demote_index i t) = i # filter (\<lambda>x. x \<noteq> i) (pt_order t)"
  "pt_updating (PendingTable_demote_index i t) = pt_updating t"
  by (simp_all add: PendingTable_demote_index_def)

lemma map_filter_None: "\<forall>i \<in> set xs. f i = None \<Longrightarrow> List.map_filter f xs = []"
  by (induction xs) (simp_all add: List.map_filter_simps)

lemma map_filter_Some: "\<forall>i \<in> set xs. f i \<noteq> None \<Longrightarrow> List.map_filter f xs = map (\<lambda>i. the (f i)) xs"
  by (induction xs) (auto simp: List.map_filter_simps)

lemma map_filter_append [simp]: "List.map_filter f (xs @ ys) = List.map_filter f xs @ List.map_filter f ys"
  by (simp add: List.map_filter_def)

lemma layout_recent: "layout t free used \<Longrightarrow> recent t = map (\<lambda>i. the (slot t i)) used"
  by (auto simp: recent_def layout_def map_filter_None intro!: map_filter_Some)

lemma layout_usedI:
  assumes "layout t free used" "slot t i = Some v" "i < length (pt_table t)"
  shows "i \<in> set used"
proof -
  have "i \<in> set (free @ used)" using assms(1,3) by (simp add: layout_def)
  moreover have "i \<notin> set free" using assms(1,2) by (auto simp: layout_def)
  ultimately show ?thesis by simp
qed

lemma layout_value_unique:
  assumes "layout t free used" "slot t i = Some v" "i < length (pt_table t)" "j \<in> set used"
  shows "the (slot t j) = v \<longleftrightarrow> j = i"
proof
  assume "the (slot t j) = v"
  moreover obtain w where "slot t j = Some w" using assms(1,4) by (auto simp: layout_def)
  ultimately have "slot t j = slot t i" using assms(2) by simp
  then show "j = i"
    using assms(1,4) layout_usedI [OF assms(1-3)] unfolding layout_def by (metis inj_onD)
qed (simp add: assms(2))

lemma removeAll_recent:
  assumes "layout t free used" "slot t i = Some v" "i < length (pt_table t)"
  shows "removeAll v (recent t) = map (\<lambda>i. the (slot t i)) (filter (\<lambda>j. j \<noteq> i) used)"
proof -
  have "filter (\<lambda>x. v \<noteq> x) (map (\<lambda>i. the (slot t i)) used) =
      map (\<lambda>i. the (slot t i)) (filter (\<lambda>j. v \<noteq> the (slot t j)) used)"
    by (simp add: filter_map o_def)
  also have "filter (\<lambda>j. v \<noteq> the (slot t j)) used = filter (\<lambda>j. j \<noteq> i) used"
    using layout_value_unique [OF assms] by (intro filter_cong refl) auto
  finally show ?thesis by (simp add: layout_recent [OF assms(1)] removeAll_filter_not_eq)
qed

lemma get_index_Some: "PendingTable_get_index t v = Some i \<Longrightarrow> i < length (pt_table t) \<and> slot t i = Some v"
  unfolding PendingTable_get_index_def by (rule find_upt_Some)

lemma get_index_None_iff:
  assumes "layout t free used"
  shows "PendingTable_get_index t v = None \<longleftrightarrow> v \<notin> set (recent t)"
proof -
  have "PendingTable_get_index t v = None \<longleftrightarrow> (\<forall>i < length (pt_table t). slot t i \<noteq> Some v)"
    by (simp add: PendingTable_get_index_def find_upt_None)
  also have "\<dots> \<longleftrightarrow> (\<forall>i \<in> set used. the (slot t i) \<noteq> v)" (is "?l \<longleftrightarrow> ?r")
  proof
    assume l: ?l
    show ?r
    proof
      fix i
      assume i: "i \<in> set used"
      then have "i < length (pt_table t)" "\<exists>w. slot t i = Some w"
        using assms by (auto simp: layout_def set_eq_iff)
      with l show "the (slot t i) \<noteq> v" by auto
    qed
  next
    assume ?r
    with layout_usedI [OF assms] show ?l by fastforce
  qed
  finally show ?thesis by (auto simp: layout_recent [OF assms])
qed

lemma layout_length: "layout t free used \<Longrightarrow> length free + length used = length (pt_table t)"
  by (metis card_lessThan distinct_card layout_def length_append)

section \<open>The operations implement the specification\<close>

lemma layout_promote_present:
  assumes "layout t free used" "slot t i = Some v" "i < length (pt_table t)"
  shows "layout (PendingTable_promote_index i t) free (filter (\<lambda>j. j \<noteq> i) used @ [i])"
proof -
  have i: "i \<in> set used" by (rule layout_usedI [OF assms])
  then have "i \<notin> set free" using assms(1) by (auto simp: layout_def)
  moreover have "set (filter (\<lambda>j. j \<noteq> i) used @ [i]) = set used" using i by auto
  ultimately show ?thesis
    using assms(1) by (auto simp: layout_def filter_id_conv)
qed

lemma layout_promote_absent:
  assumes "layout t free used" "v \<in> pt_values t" "v \<notin> set (recent t)" "pt_order t = i # rest"
  defines "t' \<equiv> PendingTable_promote_index i (PendingTable_wake_if_idle
     (t\<lparr>pt_table := (pt_table t)[i := PendingTableEntry_new v]\<rparr>))"
  shows "layout t' (tl free) ((if free = [] then tl used else used) @ [i])"
    and "recent t' = (if free = [] then tl (recent t) else recent t) @ [v]"
proof -
  let ?used = "if free = [] then tl used else used"
  have order: "free @ used = i # rest" and dist: "distinct (i # rest)"
    and rng: "set (i # rest) = {..<length (pt_table t)}"
    using assms(1,4) by (auto simp: layout_def)
  have i: "i < length (pt_table t)" using rng by auto
  have rest: "rest = tl free @ ?used"
    using order by (cases free) auto
  have filt: "filter (\<lambda>x. x \<noteq> i) rest = rest" using dist by (auto simp: filter_id_conv)
  have new: "slot t' i = Some v" and old: "\<And>j. j \<noteq> i \<Longrightarrow> slot t' j = slot t j"
    using i by (auto simp: t'_def PendingTableEntry_new_def)
  have ord: "pt_order t' = tl free @ ?used @ [i]"
    using assms(4) filt rest by (simp add: t'_def)
  have sub: "set (tl free) \<subseteq> set free" "set ?used \<subseteq> set used"
    by (cases free; cases used; auto)+
  have ni: "i \<notin> set (tl free)" "i \<notin> set ?used" using dist rest by auto
  have fresh: "slot t j \<noteq> Some v" if "j \<in> set used" for j
    using that assms(3) layout_recent [OF assms(1)] by force
  have "inj_on (slot t') (set (?used @ [i]))"
  proof -
    have "inj_on (slot t) (set ?used)"
      using assms(1) sub(2) unfolding layout_def by (blast intro: inj_on_subset)
    then have "inj_on (slot t') (set ?used)"
      using old ni(2) by (metis (no_types, lifting) inj_on_cong)
    moreover have "slot t' i \<notin> slot t' ` set ?used"
      using new old ni(2) fresh sub(2) by (metis (no_types, lifting) imageE subsetD)
    ultimately show ?thesis using ni(2) by simp
  qed
  moreover have "\<forall>j \<in> set (tl free). slot t' j = None"
    using assms(1) sub(1) ni(1) old by (metis layout_def subsetD)
  moreover have "\<forall>j \<in> set (?used @ [i]). \<exists>w \<in> pt_values t'. slot t' j = Some w"
  proof
    fix j
    assume "j \<in> set (?used @ [i])"
    then show "\<exists>w \<in> pt_values t'. slot t' j = Some w"
      using assms(1,2) new old [of j] sub(2)
      by (cases "j = i") (auto simp: layout_def t'_def split: if_splits)
  qed
  moreover have "length (pt_table t') = length (pt_table t)"
    by (simp add: t'_def)
  ultimately show lay: "layout t' (tl free) (?used @ [i])"
    using ord dist rng rest by (auto simp: layout_def)
  have "map (\<lambda>j. the (slot t' j)) ?used = map (\<lambda>j. the (slot t j)) ?used"
    using old ni(2) by (auto intro!: map_cong) metis+
  then show "recent t' = (if free = [] then tl (recent t) else recent t) @ [v]"
    using layout_recent [OF lay] layout_recent [OF assms(1)] new
    by (simp add: map_tl [symmetric] split: if_splits)
qed

lemma PendingTable_promote_correct:
  assumes "pt_inv t" "v \<in> pt_values t" "0 < length (pt_table t)"
  obtains t' where "PendingTable_promote v t = Return (True, t')" "pt_inv t'"
    "recent t' = lru_touch (length (pt_table t)) v (recent t)" "pt_values t' = pt_values t"
    "length (pt_table t') = length (pt_table t)" "pt_updating t' = pt_updating t"
proof -
  obtain free used where lay: "layout t free used" using assms(1) by (auto simp: pt_inv_def)
  show thesis
  proof (cases "PendingTable_get_index t v")
    case (Some i)
    let ?t = "PendingTable_promote_index i t"
    have i: "i < length (pt_table t)" "slot t i = Some v" using get_index_Some [OF Some] by simp_all
    have lay': "layout ?t free (filter (\<lambda>j. j \<noteq> i) used @ [i])"
      by (rule layout_promote_present [OF lay i(2,1)])
    have "length (filter (\<lambda>j. j \<noteq> i) used) < length used"
      using layout_usedI [OF lay i(2,1)] by (simp add: length_filter_less)
    then have "length (removeAll v (recent t)) < length (pt_table t)"
      using removeAll_recent [OF lay i(2,1)] layout_length [OF lay] by simp
    then have "recent ?t = lru_touch (length (pt_table t)) v (recent t)"
      using layout_recent [OF lay'] removeAll_recent [OF lay i(2,1)] i(2)
      by (simp add: lru_touch_def)
    then show thesis
      using that [of ?t] lay' assms(1,2) Some
      by (auto simp: PendingTable_promote_def pt_inv_def)
  next
    case None
    then have v: "v \<notin> set (recent t)" using get_index_None_iff [OF lay] by simp
    obtain i rest where order: "pt_order t = i # rest"
      using assms(3) layout_length [OF lay] lay by (cases "pt_order t") (auto simp: layout_def)
    let ?t = "PendingTable_promote_index i (PendingTable_wake_if_idle
     (t\<lparr>pt_table := (pt_table t)[i := PendingTableEntry_new v]\<rparr>))"
    have "set (i # rest) = {..<length (pt_table t)}" using lay order by (simp add: layout_def)
    then have i: "i < length (pt_table t)" by auto
    have "length (recent t) = length used" by (simp add: layout_recent [OF lay])
    then have "recent ?t = lru_touch (length (pt_table t)) v (recent t)"
      using layout_promote_absent(2) [OF lay assms(2) v order] layout_length [OF lay] v
      by (cases free) (auto simp: lru_touch_def Let_def)
    then show thesis
      using that [of ?t] layout_promote_absent(1) [OF lay assms(2) v order] None order i assms(1,2)
      by (auto simp: PendingTable_promote_def pt_inv_def)
  qed
qed

lemma layout_mono: "layout t free used \<Longrightarrow> pt_values t \<subseteq> V \<Longrightarrow> layout (t\<lparr>pt_values := V\<rparr>) free used"
  by (simp add: layout_def) blast

lemma PendingTable_insert_correct:
  assumes "pt_inv t" "0 < length (pt_table t)"
  obtains t' where "PendingTable_insert v t = Return (v \<notin> pt_values t, t')" "pt_inv t'"
    "recent t' = lru_touch (length (pt_table t)) v (recent t)" "pt_values t' = insert v (pt_values t)"
    "length (pt_table t') = length (pt_table t)" "pt_updating t' = pt_updating t"
proof -
  let ?t = "t\<lparr>pt_values := insert v (pt_values t)\<rparr>"
  have "pt_inv ?t" using assms(1) layout_mono [of t _ _ "insert v (pt_values t)"]
    by (auto simp: pt_inv_def)
  moreover have "recent ?t = recent t" by (simp add: recent_def)
  ultimately obtain t' where "PendingTable_promote v ?t = Return (True, t')" "pt_inv t'"
    "recent t' = lru_touch (length (pt_table t)) v (recent t)" "pt_values t' = insert v (pt_values t)"
    "length (pt_table t') = length (pt_table t)" "pt_updating t' = pt_updating t"
    using PendingTable_promote_correct [of ?t v] assms(2) by auto
  then show thesis by (intro that [of t']) (simp_all add: PendingTable_insert_def)
qed

lemma layout_remove:
  assumes "layout t free used" "slot t i = Some v" "i < length (pt_table t)"
  defines "t' \<equiv> PendingTable_demote_index i (PendingTable_wake_if_idle
     (t\<lparr>pt_values := pt_values t - {v}, pt_table := (pt_table t)[i := PendingTableEntry_default]\<rparr>))"
  shows "layout t' (i # free) (filter (\<lambda>j. j \<noteq> i) used)" "recent t' = removeAll v (recent t)"
proof -
  have i: "i \<in> set used" "i \<notin> set free"
    using layout_usedI [OF assms(1-3)] assms(1) by (auto simp: layout_def)
  have new: "slot t' i = None" and old: "\<And>j. j \<noteq> i \<Longrightarrow> slot t' j = slot t j"
    using assms(3) by (auto simp: t'_def PendingTableEntry_default_def)
  have "\<exists>w \<in> pt_values t'. slot t' j = Some w" if "j \<in> set used" "j \<noteq> i" for j
    using that assms(1) layout_value_unique [OF assms(1-3) that(1)] old [OF that(2)]
    by (auto simp: layout_def t'_def)
  moreover have "\<forall>j \<in> set (i # free). slot t' j = None"
    using assms(1) new old i(2) by (metis layout_def set_ConsD)
  moreover have "inj_on (slot t') (set (filter (\<lambda>j. j \<noteq> i) used))"
    using assms(1) old by (auto simp: layout_def inj_on_def)
  moreover have "filter (\<lambda>x. x \<noteq> i) free = free" using i(2) by (auto simp: filter_id_conv)
  moreover have "insert i (set free \<union> (set used - {i})) = set free \<union> set used" using i(1) by auto
  ultimately show lay: "layout t' (i # free) (filter (\<lambda>j. j \<noteq> i) used)"
    using assms(1) i by (auto simp: layout_def t'_def)
  show "recent t' = removeAll v (recent t)"
    using layout_recent [OF lay] removeAll_recent [OF assms(1-3)] old by auto
qed

lemma layout_forget:
  assumes "layout t free used" "v \<notin> set (recent t)"
  shows "layout (t\<lparr>pt_values := pt_values t - {v}\<rparr>) free used"
proof -
  have "\<exists>w \<in> pt_values t - {v}. slot t i = Some w" if i: "i \<in> set used" for i
  proof -
    obtain w where w: "w \<in> pt_values t" "slot t i = Some w" using assms(1) i by (auto simp: layout_def)
    then have "w \<in> set (recent t)" using i by (force simp: layout_recent [OF assms(1)])
    with w assms(2) show ?thesis by auto
  qed
  then show ?thesis using assms(1) by (simp add: layout_def)
qed

lemma layout_recent_values: "layout t free used \<Longrightarrow> set (recent t) \<subseteq> pt_values t"
  by (frule layout_recent) (force simp: layout_def)

lemma PendingTable_remove_correct:
  assumes "pt_inv t"
  obtains t' where "PendingTable_remove v t = (v \<in> pt_values t, t')" "pt_inv t'"
    "recent t' = removeAll v (recent t)" "pt_values t' = pt_values t - {v}"
    "length (pt_table t') = length (pt_table t)" "pt_updating t' = pt_updating t"
proof -
  obtain free used where lay: "layout t free used" using assms by (auto simp: pt_inv_def)
  let ?u = "t\<lparr>pt_values := pt_values t - {v}\<rparr>"
  have idx: "PendingTable_get_index ?u v = PendingTable_get_index t v"
    by (simp add: PendingTable_get_index_def)
  have vals: "set (recent t) \<subseteq> pt_values t"
    by (rule layout_recent_values [OF lay])
  consider (absent) "v \<notin> pt_values t" | (unslotted) "v \<in> pt_values t" "PendingTable_get_index t v = None"
    | (slotted) i where "v \<in> pt_values t" "PendingTable_get_index t v = Some i"
    by (cases "PendingTable_get_index t v") auto
  then show thesis
  proof cases
    case absent
    with vals have "v \<notin> set (recent t)" by auto
    then show thesis using that [of t] absent assms by (simp add: PendingTable_remove_def)
  next
    case unslotted
    then have v: "v \<notin> set (recent t)" using get_index_None_iff [OF lay] by simp
    have "layout ?u free used"
      by (rule layout_forget [OF lay v])
    moreover have "recent ?u = recent t" by (simp add: recent_def)
    ultimately show thesis
      using that [of ?u] unslotted assms v idx by (auto simp: PendingTable_remove_def pt_inv_def)
  next
    case (slotted i)
    have i: "i < length (pt_table t)" "slot t i = Some v"
      using get_index_Some [OF slotted(2)] by simp_all
    let ?t = "PendingTable_demote_index i (PendingTable_wake_if_idle
     (t\<lparr>pt_values := pt_values t - {v}, pt_table := (pt_table t)[i := PendingTableEntry_default]\<rparr>))"
    show thesis
      using that [of ?t] slotted(1) layout_remove [OF lay i(2,1)] assms
      by (auto simp: PendingTable_remove_def pt_inv_def idx slotted(2) Let_def)
  qed
qed


lemma layout_cong:
  assumes "pt_order t' = pt_order t" "pt_values t' = pt_values t"
    "length (pt_table t') = length (pt_table t)"
    "\<And>i. i < length (pt_table t) \<Longrightarrow> slot t' i = slot t i"
  shows "layout t' free used \<longleftrightarrow> layout t free used"
proof -
  have impl: "layout t2 free used"
    if lay: "layout t1 free used" and eq: "pt_order t2 = pt_order t1" "pt_values t2 = pt_values t1"
      "length (pt_table t2) = length (pt_table t1)"
      and slots: "\<And>i. i < length (pt_table t1) \<Longrightarrow> slot t2 i = slot t1 i" for t1 t2 :: "'a pending_table"
  proof -
    have "slot t2 i = slot t1 i" if "i \<in> set (free @ used)" for i
      by (rule slots) (use that lay in \<open>metis layout_def lessThan_iff\<close>)
    then show ?thesis using lay eq by (auto simp: layout_def inj_on_def)
  qed
  from impl [of t t'] impl [of t' t] assms show ?thesis by auto
qed

lemma recent_cong:
  assumes "pt_inv t" "pt_order t' = pt_order t" "pt_values t' = pt_values t"
    "length (pt_table t') = length (pt_table t)"
    "\<And>i. i < length (pt_table t) \<Longrightarrow> slot t' i = slot t i"
    "\<And>k i. pt_updating t' = Some (k, i) \<Longrightarrow> i < length (pt_table t)"
  shows "pt_inv t'" "recent t' = recent t"
proof -
  obtain free used where lay: "layout t free used" using assms(1) by (auto simp: pt_inv_def)
  then have lay': "layout t' free used" using layout_cong [OF assms(2-5)] by simp
  then show "pt_inv t'" using assms(4,6) by (auto simp: pt_inv_def)
  have "i < length (pt_table t)" if "i \<in> set used" for i
    using that lay by (auto simp: layout_def set_eq_iff)
  then show "recent t' = recent t"
    using layout_recent [OF lay] layout_recent [OF lay'] assms(5) by simp
qed

lemma poll_update_cases:
  obtains (update) i where "pt_updating t = None" "i < length (pt_table t)" "dirty (pt_table t ! i)"
      "PendingTable_poll_update fresh cx t =
        (Ready \<lparr>up_key = UniqueKey_new fresh, up_index = i, up_value = slot t i\<rparr>,
         t\<lparr>pt_table := (pt_table t)[i := (pt_table t ! i)\<lparr>dirty := False\<rparr>],
           pt_updating := Some (UniqueKey_new fresh, i)\<rparr>)"
  | (wait) "PendingTable_poll_update fresh cx t =
        (Pending, t\<lparr>pt_waker := WakerStore_register (pt_waker t) cx\<rparr>)"
      "pt_updating t = None \<Longrightarrow> \<forall>i < length (pt_table t). \<not> dirty (pt_table t ! i)"
proof (cases "if pt_updating t = None
    then List.find (\<lambda>index. dirty (pt_table t ! index)) [0..<length (pt_table t)] else None")
  case None
  then show thesis by (intro wait) (auto simp: PendingTable_poll_update_def find_upt_None)
next
  case (Some i)
  then have "pt_updating t = None"
    "List.find (\<lambda>index. dirty (pt_table t ! index)) [0..<length (pt_table t)] = Some i"
    by (simp_all split: if_splits)
  with find_upt_Some [OF this(2)] show thesis
    by (intro update) (simp_all add: PendingTable_poll_update_def Let_def)
qed

lemma PendingTable_poll_update_correct:
  assumes "pt_inv t" "PendingTable_poll_update fresh cx t = (r, t')"
  shows "pt_inv t'" "recent t' = recent t" "pt_values t' = pt_values t"
    "length (pt_table t') = length (pt_table t)"
proof -
  show "pt_values t' = pt_values t" "length (pt_table t') = length (pt_table t)"
    using assms(2) by (cases rule: poll_update_cases [of t fresh cx]; auto)+
  have "pt_order t' = pt_order t" "pt_updating t' = Some (k, i) \<Longrightarrow> i < length (pt_table t)"
    "j < length (pt_table t) \<Longrightarrow> slot t' j = slot t j" for k i j
    using assms by (cases rule: poll_update_cases [of t fresh cx]; auto simp: pt_inv_def nth_list_update)+
  then show "pt_inv t'" "recent t' = recent t"
    using recent_cong [OF assms(1), of t'] \<open>pt_values t' = _\<close> \<open>length (pt_table t') = _\<close> by auto
qed

lemma PendingTable_report_correct:
  assumes "pt_inv t"
  obtains t' where "PendingTable_report_update_result token ok t = Return t'" "pt_inv t'"
    "recent t' = recent t" "pt_values t' = pt_values t" "length (pt_table t') = length (pt_table t)"
proof (cases "\<exists>i. pt_updating t = Some (token, i)")
  case True
  then obtain i where i: "pt_updating t = Some (token, i)" by blast
  then have len: "i < length (pt_table t)" using assms by (auto simp: pt_inv_def)
  let ?t = "PendingTable_wake (if ok then t\<lparr>pt_updating := None\<rparr>
    else t\<lparr>pt_updating := None, pt_table := (pt_table t)[i := (pt_table t ! i)\<lparr>dirty := True\<rparr>]\<rparr>)"
  have "pt_inv ?t" "recent ?t = recent t"
    by (rule recent_cong [OF assms]; use i len in \<open>auto simp: nth_list_update split: if_splits\<close>)+
  then show thesis
    using that [of ?t] i len by (simp add: PendingTable_report_update_result_def split: if_splits)
next
  case False
  then show thesis
    using that [of t] assms
    by (auto simp: PendingTable_report_update_result_def split: option.splits)
qed

lemma PendingTable_assume_empty_correct:
  assumes "pt_inv t"
  shows "pt_inv (PendingTable_assume_empty t)" "recent (PendingTable_assume_empty t) = recent t"
    "pt_values (PendingTable_assume_empty t) = pt_values t"
    "length (pt_table (PendingTable_assume_empty t)) = length (pt_table t)"
proof -
  show "pt_inv (PendingTable_assume_empty t)" "recent (PendingTable_assume_empty t) = recent t"
    by (rule recent_cong [OF assms]; use assms in \<open>auto simp: PendingTable_assume_empty_def pt_inv_def\<close>)+
qed (simp_all add: PendingTable_assume_empty_def)

lemma pt_inv_new: "pt_inv (PendingTable_new n)" "recent (PendingTable_new n) = []"
proof -
  have "layout (PendingTable_new n) [0..<n] []"
    by (auto simp: layout_def PendingTable_new_def PendingTableEntry_default_def)
  then show "pt_inv (PendingTable_new n)" "recent (PendingTable_new n) = []"
    using layout_recent [of "PendingTable_new n" "[0..<n]" "[]"]
    by (auto simp: pt_inv_def) (simp add: PendingTable_new_def)
qed

section \<open>Any client of the table\<close>

datatype 'a pt_op =
    PT_insert 'a
  | PT_remove 'a
  | PT_promote 'a
  | PT_set 'a bool
  | PT_assume_empty
  | PT_report_update_result unique_key bool
  | PT_poll_update process_unique_id waker

fun pt_apply :: "'a pt_op \<Rightarrow> 'a pending_table \<Rightarrow> 'a pending_table outcome" where
  "pt_apply (PT_insert v) t = bind_outcome (PendingTable_insert v t) (\<lambda>(_, t). Return t)"
| "pt_apply (PT_remove v) t = Return (snd (PendingTable_remove v t))"
| "pt_apply (PT_promote v) t = bind_outcome (PendingTable_promote v t) (\<lambda>(_, t). Return t)"
| "pt_apply (PT_set v b) t = PendingTable_set v b t"
| "pt_apply PT_assume_empty t = Return (PendingTable_assume_empty t)"
| "pt_apply (PT_report_update_result token ok) t = PendingTable_report_update_result token ok t"
| "pt_apply (PT_poll_update fresh cx) t = Return (snd (PendingTable_poll_update fresh cx t))"

fun pt_run :: "'a pt_op list \<Rightarrow> 'a pending_table \<Rightarrow> 'a pending_table outcome" where
  "pt_run [] t = Return t"
| "pt_run (op # ops) t = bind_outcome (pt_apply op t) (pt_run ops)"

text \<open>The specification: the set and the bounded list of recent values.\<close>

fun lru_apply :: "nat \<Rightarrow> 'a pt_op \<Rightarrow> 'a set \<times> 'a list \<Rightarrow> 'a set \<times> 'a list" where
  "lru_apply n (PT_insert v) (V, xs) = (insert v V, lru_touch n v xs)"
| "lru_apply n (PT_remove v) (V, xs) = (V - {v}, removeAll v xs)"
| "lru_apply n (PT_promote v) (V, xs) = (V, if v \<in> V then lru_touch n v xs else xs)"
| "lru_apply n (PT_set v b) (V, xs) =
     (if b then (insert v V, lru_touch n v xs) else (V - {v}, removeAll v xs))"
| "lru_apply n _ (V, xs) = (V, xs)"

definition pt_abs :: "'a pending_table \<Rightarrow> 'a set \<times> 'a list" where
  "pt_abs t = (pt_values t, recent t)"

lemma pt_apply_refines:
  assumes "pt_inv t" "0 < length (pt_table t)"
  obtains t' where "pt_apply op t = Return t'" "pt_inv t'"
    "length (pt_table t') = length (pt_table t)"
    "pt_abs t' = lru_apply (length (pt_table t)) op (pt_abs t)"
proof (cases op)
  case (PT_insert v)
  show thesis
    by (rule PendingTable_insert_correct [OF assms, of v], rule that) (simp_all add: PT_insert pt_abs_def)
next
  case (PT_remove v)
  show thesis
    by (rule PendingTable_remove_correct [OF assms(1), of v], rule that) (simp_all add: PT_remove pt_abs_def)
next
  case (PT_promote v)
  show thesis
  proof (cases "v \<in> pt_values t")
    case True
    show thesis
      by (rule PendingTable_promote_correct [OF assms(1) True assms(2)], rule that)
        (simp_all add: PT_promote True pt_abs_def)
  next
    case False
    then show thesis
      using that [of t] assms PT_promote by (simp add: PendingTable_promote_def pt_abs_def)
  qed
next
  case (PT_set v b)
  show thesis
  proof (cases b)
    case True
    show thesis
      by (rule PendingTable_insert_correct [OF assms, of v], rule that)
        (simp_all add: PT_set True pt_abs_def PendingTable_set_def)
  next
    case False
    show thesis
      by (rule PendingTable_remove_correct [OF assms(1), of v], rule that)
        (simp_all add: PT_set False pt_abs_def PendingTable_set_def)
  qed
next
  case PT_assume_empty
  then show thesis
    using that [of "PendingTable_assume_empty t"] PendingTable_assume_empty_correct [OF assms(1)]
    by (simp add: pt_abs_def)
next
  case (PT_report_update_result token ok)
  obtain t' where "PendingTable_report_update_result token ok t = Return t'" "pt_inv t'"
    "recent t' = recent t" "pt_values t' = pt_values t" "length (pt_table t') = length (pt_table t)"
    by (rule PendingTable_report_correct [OF assms(1)])
  then show thesis by (intro that [of t']) (simp_all add: PT_report_update_result pt_abs_def)
next
  case (PT_poll_update fresh cx)
  then show thesis
    using that [of "snd (PendingTable_poll_update fresh cx t)"]
      PendingTable_poll_update_correct [OF assms(1) prod.collapse [symmetric], of fresh cx]
    by (simp add: pt_abs_def)
qed

lemma pt_run_refines:
  assumes "pt_inv t" "0 < length (pt_table t)"
  shows "\<exists>t'. pt_run ops t = Return t' \<and> pt_inv t' \<and>
    pt_abs t' = fold (lru_apply (length (pt_table t))) ops (pt_abs t)"
  using assms
proof (induction ops arbitrary: t)
  case (Cons op ops)
  obtain t' where "pt_apply op t = Return t'" "pt_inv t'" "length (pt_table t') = length (pt_table t)"
    "pt_abs t' = lru_apply (length (pt_table t)) op (pt_abs t)"
    by (rule pt_apply_refines [OF Cons.prems])
  with Cons.IH [of t'] Cons.prems(2) show ?case by simp
qed simp

section \<open>The radio's copy\<close>

text \<open>
  \<open>mirror t dev fl\<close>: \<open>dev\<close> is the table of the radio and \<open>fl\<close> the update on its way to it.
  Every slot is marked dirty, being updated, or the same on both sides, and the update on
  its way carries the present value of its slot unless that is marked dirty again.
\<close>

definition mirror :: "'a pending_table \<Rightarrow> 'a option list \<Rightarrow> 'a pending_table_update option \<Rightarrow> bool" where
  "mirror t dev fl \<longleftrightarrow>
     length dev = length (pt_table t) \<and>
     (case pt_updating t of
        None \<Rightarrow> fl = None
      | Some (k, i) \<Rightarrow> i < length (pt_table t) \<and>
          (\<exists>v. fl = Some \<lparr>up_key = k, up_index = i, up_value = v\<rparr> \<and>
             (dirty (pt_table t ! i) \<or> slot t i = v))) \<and>
     (\<forall>i < length (pt_table t). dirty (pt_table t ! i) \<or> (\<exists>k. pt_updating t = Some (k, i)) \<or>
        slot t i = dev ! i)"

lemma mirror_quiet:
  "mirror t dev fl \<Longrightarrow> pt_updating t = None \<Longrightarrow> \<forall>i < length (pt_table t). \<not> dirty (pt_table t ! i) \<Longrightarrow>
    dev = map entry_value (pt_table t)"
  by (auto simp: mirror_def intro!: nth_equalityI)

text \<open>The operations of the client mark every slot they change.\<close>

lemma mirror_marked:
  assumes "mirror t dev fl" "pt_updating t' = pt_updating t" "length (pt_table t') = length (pt_table t)"
    "\<And>i. i < length (pt_table t) \<Longrightarrow> pt_table t' ! i = pt_table t ! i \<or> dirty (pt_table t' ! i)"
  shows "mirror t' dev fl"
  unfolding mirror_def
proof (intro conjI)
  show "length dev = length (pt_table t')" using assms(1,3) by (simp add: mirror_def)
  show "case pt_updating t' of None \<Rightarrow> fl = None
      | Some (k, i) \<Rightarrow> i < length (pt_table t') \<and>
          (\<exists>v. fl = Some \<lparr>up_key = k, up_index = i, up_value = v\<rparr> \<and>
             (dirty (pt_table t' ! i) \<or> slot t' i = v))"
    using assms(1) unfolding assms(2,3) mirror_def
    by (auto split: option.splits) (metis assms(4))+
  show "\<forall>i < length (pt_table t'). dirty (pt_table t' ! i) \<or> (\<exists>k. pt_updating t' = Some (k, i)) \<or>
      slot t' i = dev ! i"
    using assms(1,4) unfolding assms(2,3) mirror_def by metis
qed

lemma nth_update_at: "i < length xs \<Longrightarrow> xs[j := e] ! i = (if i = j then e else xs ! i)"
  by (auto simp: nth_list_update)

lemma PendingTable_insert_marks:
  assumes "PendingTable_insert v t = Return (b, t')"
  shows "pt_updating t' = pt_updating t" "length (pt_table t') = length (pt_table t)"
    "i < length (pt_table t) \<Longrightarrow> pt_table t' ! i = pt_table t ! i \<or> dirty (pt_table t' ! i)"
  using assms
  by (auto simp: PendingTable_insert_def PendingTable_promote_def Let_def nth_update_at
      PendingTableEntry_new_def split: if_splits option.splits list.splits)

lemma PendingTable_remove_marks:
  assumes "PendingTable_remove v t = (b, t')"
  shows "pt_updating t' = pt_updating t" "length (pt_table t') = length (pt_table t)"
    "i < length (pt_table t) \<Longrightarrow> pt_table t' ! i = pt_table t ! i \<or> dirty (pt_table t' ! i)"
  using assms
  by (auto simp: PendingTable_remove_def Let_def nth_update_at PendingTableEntry_default_def
      split: if_splits option.splits)

lemma mirror_set:
  assumes "mirror t dev fl" "PendingTable_set v b t = Return t'"
  shows "mirror t' dev fl"
proof (cases b)
  case True
  then obtain c where "PendingTable_insert v t = Return (c, t')"
    using assms(2) by (auto simp: PendingTable_set_def bind_outcome_eq_Return_iff)
  from PendingTable_insert_marks [OF this] show ?thesis by (intro mirror_marked [OF assms(1)])
next
  case False
  then have "PendingTable_remove v t = (fst (PendingTable_remove v t), t')"
    using assms(2) by (auto simp: PendingTable_set_def)
  from PendingTable_remove_marks [OF this] show ?thesis by (intro mirror_marked [OF assms(1)])
qed

lemma mirror_flight: "mirror t dev fl \<Longrightarrow> fl = None \<longleftrightarrow> pt_updating t = None"
  by (auto simp: mirror_def split: option.splits)

lemma mirror_poll_Ready:
  assumes "mirror t dev fl" "PendingTable_poll_update fresh cx t = (Ready u, t')"
  shows "mirror t' dev (Some u)" "fl = None" "up_key u = UniqueKey_new fresh"
    "pt_updating t' = Some (up_key u, up_index u)"
proof -
  obtain i where i: "pt_updating t = None" "i < length (pt_table t)"
    and u: "u = \<lparr>up_key = UniqueKey_new fresh, up_index = i, up_value = slot t i\<rparr>"
    and t': "t' = t\<lparr>pt_table := (pt_table t)[i := (pt_table t ! i)\<lparr>dirty := False\<rparr>],
           pt_updating := Some (UniqueKey_new fresh, i)\<rparr>"
    using assms(2) by (cases rule: poll_update_cases [of t fresh cx]) auto
  show "fl = None" using mirror_flight [OF assms(1)] i by simp
  show "up_key u = UniqueKey_new fresh" "pt_updating t' = Some (up_key u, up_index u)"
    using u t' by simp_all
  show "mirror t' dev (Some u)"
    using assms(1) i unfolding u t' by (simp add: mirror_def nth_update_at)
qed

lemma mirror_poll_Pending:
  assumes "mirror t dev fl" "PendingTable_poll_update fresh cx t = (Pending, t')"
  shows "mirror t' dev fl" "pt_updating t' = pt_updating t"
    "fl = None \<Longrightarrow> dev = map entry_value (pt_table t)"
proof -
  have t': "t' = t\<lparr>pt_waker := WakerStore_register (pt_waker t) cx\<rparr>"
    and clean: "pt_updating t = None \<Longrightarrow> \<forall>i < length (pt_table t). \<not> dirty (pt_table t ! i)"
    using assms(2) by (cases rule: poll_update_cases [of t fresh cx]; simp)+
  show "mirror t' dev fl" by (rule mirror_marked [OF assms(1)]) (simp_all add: t')
  show "pt_updating t' = pt_updating t" by (simp add: t')
  assume "fl = None"
  then have "pt_updating t = None" using mirror_flight [OF assms(1)] by simp
  then show "dev = map entry_value (pt_table t)"
    using mirror_quiet [OF assms(1)] clean by simp
qed

lemma mirror_report_own:
  assumes "mirror t dev (Some u)"
    and "ok \<Longrightarrow> dev' = dev[up_index u := up_value u]" "\<not> ok \<Longrightarrow> dev' = dev[up_index u := w]"
    and "PendingTable_report_update_result (up_key u) ok t = Return t'"
  shows "mirror t' dev' None" "pt_updating t' = None"
proof -
  obtain i where i: "pt_updating t = Some (up_key u, up_index u)" "i = up_index u" "i < length (pt_table t)"
    "dirty (pt_table t ! i) \<or> slot t i = up_value u"
    using assms(1) by (auto simp: mirror_def split: option.splits)
  have t': "t' = PendingTable_wake (if ok then t\<lparr>pt_updating := None\<rparr>
    else t\<lparr>pt_updating := None, pt_table := (pt_table t)[i := (pt_table t ! i)\<lparr>dirty := True\<rparr>]\<rparr>)"
    using assms(4) i by (auto simp: PendingTable_report_update_result_def split: if_splits)
  then show "pt_updating t' = None" by simp
  show "mirror t' dev' None"
    using assms(1-3) i t' by (cases ok) (auto simp: mirror_def nth_list_update)
qed

lemma mirror_report_other:
  assumes "mirror t dev fl" "\<And>u. fl = Some u \<Longrightarrow> up_key u \<noteq> k"
  shows "PendingTable_report_update_result k ok t = Return t"
  using assms by (auto simp: mirror_def PendingTable_report_update_result_def split: option.splits)

lemma mirror_assume_empty:
  assumes "pt_updating t = None"
  shows "mirror (PendingTable_assume_empty t) (replicate (length (pt_table t)) None) None"
  using assms by (auto simp: mirror_def PendingTable_assume_empty_def)

lemma mirror_new: "mirror (PendingTable_new n) (replicate n w) None"
  by (auto simp: mirror_def PendingTable_new_def PendingTableEntry_default_def)

section \<open>Properties\<close>

text \<open>
  C9. The pending table implements a bounded list of most recently used values: after any
  sequence of calls on a table of \<open>n > 0\<close> slots no call has panicked, the values known to
  the table are those inserted and not removed, and the slots hold exactly the list of the
  specification, in the order in which they will be overwritten.
\<close>

theorem PendingTable_refines_lru:
  assumes "0 < n"
  shows "\<exists>t. pt_run ops (PendingTable_new n) = Return t \<and>
    (pt_values t, List.map_filter (\<lambda>i. entry_value (pt_table t ! i)) (pt_order t)) =
      fold (lru_apply n) ops ({}, [])"
proof -
  have "length (pt_table (PendingTable_new n :: 'a pending_table)) = n"
    "pt_abs (PendingTable_new n :: 'a pending_table) = ({}, [])"
    by (simp_all add: pt_abs_def pt_inv_new(2)) (simp_all add: PendingTable_new_def)
  then show ?thesis
    using pt_run_refines [OF pt_inv_new(1), of n ops] assms by (auto simp: pt_abs_def recent_def)
qed

theorem PendingTable_refines_lru_witness:
  "\<exists>t. pt_run [PT_insert (1::nat), PT_insert 2, PT_promote 1, PT_set 3 True, PT_remove 1]
      (PendingTable_new 2) = Return t \<and>
    (pt_values t, List.map_filter (\<lambda>i. entry_value (pt_table t ! i)) (pt_order t)) = ({2, 3}, [3])"
  using PendingTable_refines_lru [of 2 "[PT_insert (1::nat), PT_insert 2, PT_promote 1, PT_set 3 True, PT_remove 1]"]
  by (auto simp: lru_touch_def)

end
