(* ===== verification/Combined_Pending_Table.thy ===== *)
theory Combined_Pending_Table
  imports Pending_Table Frame
begin

text \<open>
  The pending tables of the radio (\<^verbatim>\<open>mac/combinedpendingtable.rs\<close>): one for short and one for
  extended addresses, initialised before the first update.  The step relation puts the
  tables beside the radio that answers their requests in any order, successfully or not;
  its invariant is that the radio's tables follow.
\<close>

datatype combined_pending_table_action =
    CombinedPendingTableAction_Init unique_key
  | CombinedPendingTableAction_UpdateShort unique_key usize "(panid \<times> short_address) option"
  | CombinedPendingTableAction_UpdateExtended unique_key usize "extended_address option"

record combined_pending_table =
  cpt_waker :: waker_store
  initializing :: "unique_key option"
  is_initialized :: bool
  cpt_none :: bool
  cpt_short :: "(panid \<times> short_address) pending_table"
  cpt_extended :: "extended_address pending_table"

definition CombinedPendingTable_new :: combined_pending_table where
  "CombinedPendingTable_new =
     \<lparr>cpt_waker = WakerStore_new,
      initializing = None,
      is_initialized = False,
      cpt_none = False,
      cpt_short = PendingTable_new 8,
      cpt_extended = PendingTable_new 8\<rparr>"

definition CombinedPendingTable_report_init_result ::
    "unique_key \<Rightarrow> bool \<Rightarrow> combined_pending_table \<Rightarrow> combined_pending_table" where
  "CombinedPendingTable_report_init_result key ok self =
     (if initializing self = Some key then
        (let self = self\<lparr>initializing := None, is_initialized := ok\<rparr>;
             self = (if ok then
                self\<lparr>cpt_short := PendingTable_assume_empty (cpt_short self),
                     cpt_extended := PendingTable_assume_empty (cpt_extended self)\<rparr>
              else self)
         in self\<lparr>cpt_waker := WakerStore_wake (cpt_waker self)\<rparr>)
      else self)"

definition CombinedPendingTable_set ::
    "full_address option \<Rightarrow> bool \<Rightarrow> combined_pending_table \<Rightarrow> combined_pending_table outcome" where
  "CombinedPendingTable_set addr inserted self =
     (case addr of
        None \<Rightarrow> Return (self\<lparr>cpt_none := inserted\<rparr>)
      | Some full \<Rightarrow>
          (case address full of
             Address_Short a \<Rightarrow>
               bind_outcome (PendingTable_set (pan_id full, a) inserted (cpt_short self))
                 (\<lambda>t. Return (self\<lparr>cpt_short := t\<rparr>))
           | Address_Extended a \<Rightarrow>
               bind_outcome (PendingTable_set a inserted (cpt_extended self))
                 (\<lambda>t. Return (self\<lparr>cpt_extended := t\<rparr>))))"

definition CombinedPendingTable_poll_action :: "process_unique_id \<Rightarrow> waker \<Rightarrow>
    combined_pending_table \<Rightarrow> combined_pending_table_action poll \<times> combined_pending_table" where
  "CombinedPendingTable_poll_action fresh cx self =
     (if initializing self \<noteq> None then
        (Pending, self\<lparr>cpt_waker := snd (WakerStore_pend (cpt_waker self) cx :: unit poll \<times> _)\<rparr>)
      else if \<not> is_initialized self then
        (let key = UniqueKey_new fresh
         in (Ready (CombinedPendingTableAction_Init key), self\<lparr>initializing := Some key\<rparr>))
      else
        (case PendingTable_poll_update fresh cx (cpt_short self) of
           (Ready update, short) \<Rightarrow>
             (Ready (CombinedPendingTableAction_UpdateShort
                (up_key update) (up_index update) (up_value update)), self\<lparr>cpt_short := short\<rparr>)
         | (Pending, short) \<Rightarrow>
             (case PendingTable_poll_update fresh cx (cpt_extended self) of
                (Ready update, extended) \<Rightarrow>
                  (Ready (CombinedPendingTableAction_UpdateExtended
                     (up_key update) (up_index update) (up_value update)),
                   self\<lparr>cpt_short := short, cpt_extended := extended\<rparr>)
              | (Pending, extended) \<Rightarrow>
                  (Pending, self\<lparr>cpt_short := short, cpt_extended := extended\<rparr>))))"

definition CombinedPendingTable_report_update_result ::
    "unique_key \<Rightarrow> bool \<Rightarrow> combined_pending_table \<Rightarrow> combined_pending_table outcome" where
  "CombinedPendingTable_report_update_result key success self =
     bind_outcome (PendingTable_report_update_result key success (cpt_short self)) (\<lambda>short.
     bind_outcome (PendingTable_report_update_result key success (cpt_extended self)) (\<lambda>extended.
     Return (self\<lparr>cpt_short := short, cpt_extended := extended\<rparr>)))"

section \<open>The tables and the radio\<close>

text \<open>
  \<open>outstanding\<close> are the actions handed out and not answered.  The radio answers them in any
  order.  A successful initialisation empties its tables and a successful update stores the
  value; after a failure the radio may hold anything at the place concerned.
\<close>

record pending_system =
  tables :: combined_pending_table
  dev_short :: "(panid \<times> short_address) option list"
  dev_extended :: "extended_address option list"
  outstanding :: "combined_pending_table_action set"

fun action_key :: "combined_pending_table_action \<Rightarrow> unique_key" where
  "action_key (CombinedPendingTableAction_Init k) = k"
| "action_key (CombinedPendingTableAction_UpdateShort k _ _) = k"
| "action_key (CombinedPendingTableAction_UpdateExtended k _ _) = k"

inductive pending_step :: "pending_system \<Rightarrow> pending_system \<Rightarrow> bool" where
  set_pending: "CombinedPendingTable_set addr b (tables s) = Return t \<Longrightarrow>
    pending_step s (s\<lparr>tables := t\<rparr>)"
| poll_ready: "CombinedPendingTable_poll_action fresh cx (tables s) = (Ready a, t) \<Longrightarrow>
    UniqueKey_new fresh \<notin> action_key ` outstanding s \<Longrightarrow>
    pending_step s (s\<lparr>tables := t, outstanding := insert a (outstanding s)\<rparr>)"
| poll_pending: "CombinedPendingTable_poll_action fresh cx (tables s) = (Pending, t) \<Longrightarrow>
    pending_step s (s\<lparr>tables := t\<rparr>)"
| answer_init: "CombinedPendingTableAction_Init k \<in> outstanding s \<Longrightarrow>
    length ds = 8 \<Longrightarrow> length de = 8 \<Longrightarrow>
    (ok \<Longrightarrow> ds = replicate 8 None \<and> de = replicate 8 None) \<Longrightarrow>
    pending_step s (s\<lparr>tables := CombinedPendingTable_report_init_result k ok (tables s),
      dev_short := ds, dev_extended := de,
      outstanding := outstanding s - {CombinedPendingTableAction_Init k}\<rparr>)"
| answer_short: "CombinedPendingTableAction_UpdateShort k i v \<in> outstanding s \<Longrightarrow>
    CombinedPendingTable_report_update_result k ok (tables s) = Return t \<Longrightarrow> (ok \<Longrightarrow> w = v) \<Longrightarrow>
    pending_step s (s\<lparr>tables := t, dev_short := (dev_short s)[i := w],
      outstanding := outstanding s - {CombinedPendingTableAction_UpdateShort k i v}\<rparr>)"
| answer_extended: "CombinedPendingTableAction_UpdateExtended k i v' \<in> outstanding s \<Longrightarrow>
    CombinedPendingTable_report_update_result k ok (tables s) = Return t \<Longrightarrow> (ok \<Longrightarrow> w' = v') \<Longrightarrow>
    pending_step s (s\<lparr>tables := t, dev_extended := (dev_extended s)[i := w'],
      outstanding := outstanding s - {CombinedPendingTableAction_UpdateExtended k i v'}\<rparr>)"

inductive pending_reachable :: "pending_system \<Rightarrow> bool" where
  start: "length ds = 8 \<Longrightarrow> length de = 8 \<Longrightarrow>
    pending_reachable \<lparr>tables = CombinedPendingTable_new, dev_short = ds, dev_extended = de,
      outstanding = {}\<rparr>"
| step: "pending_reachable s \<Longrightarrow> pending_step s s' \<Longrightarrow> pending_reachable s'"

definition short_actions :: "(panid \<times> short_address) pending_table_update option \<Rightarrow>
    combined_pending_table_action set" where
  "short_actions fl = (case fl of None \<Rightarrow> {} | Some u \<Rightarrow>
     {CombinedPendingTableAction_UpdateShort (up_key u) (up_index u) (up_value u)})"

definition extended_actions :: "extended_address pending_table_update option \<Rightarrow>
    combined_pending_table_action set" where
  "extended_actions fl = (case fl of None \<Rightarrow> {} | Some u \<Rightarrow>
     {CombinedPendingTableAction_UpdateExtended (up_key u) (up_index u) (up_value u)})"

definition keys_differ :: "'a pending_table_update option \<Rightarrow> 'b pending_table_update option \<Rightarrow> bool" where
  "keys_differ fs fe \<longleftrightarrow> (\<forall>u u'. fs = Some u \<longrightarrow> fe = Some u' \<longrightarrow> up_key u \<noteq> up_key u')"

definition tables_ok :: "combined_pending_table \<Rightarrow> bool" where
  "tables_ok t \<longleftrightarrow> pt_inv (cpt_short t) \<and> length (pt_table (cpt_short t)) = 8 \<and>
     pt_inv (cpt_extended t) \<and> length (pt_table (cpt_extended t)) = 8"

definition in_sync :: "pending_system \<Rightarrow> (panid \<times> short_address) pending_table_update option \<Rightarrow>
    extended_address pending_table_update option \<Rightarrow> bool" where
  "in_sync s fs fe \<longleftrightarrow> initializing (tables s) = None \<and>
     mirror (cpt_short (tables s)) (dev_short s) fs \<and>
     mirror (cpt_extended (tables s)) (dev_extended s) fe \<and>
     outstanding s = short_actions fs \<union> extended_actions fe \<and> keys_differ fs fe"

definition waiting_init :: "pending_system \<Rightarrow> bool" where
  "waiting_init s \<longleftrightarrow>
     pt_updating (cpt_short (tables s)) = None \<and> pt_updating (cpt_extended (tables s)) = None \<and>
     outstanding s = (case initializing (tables s) of None \<Rightarrow> {} |
       Some k \<Rightarrow> {CombinedPendingTableAction_Init k})"

definition pending_inv :: "pending_system \<Rightarrow> bool" where
  "pending_inv s \<longleftrightarrow> tables_ok (tables s) \<and> length (dev_short s) = 8 \<and> length (dev_extended s) = 8 \<and>
     (if is_initialized (tables s) then \<exists>fs fe. in_sync s fs fe else waiting_init s)"

lemma PendingTable_set_correct:
  assumes "pt_inv t" "0 < length (pt_table t)"
  obtains t' where "PendingTable_set v b t = Return t'" "pt_inv t'"
    "length (pt_table t') = length (pt_table t)" "pt_updating t' = pt_updating t"
proof (cases b)
  case True
  obtain t' where "PendingTable_insert v t = Return (v \<notin> pt_values t, t')" "pt_inv t'"
    "length (pt_table t') = length (pt_table t)" "pt_updating t' = pt_updating t"
    by (rule PendingTable_insert_correct [OF assms])
  then show thesis by (intro that [of t']) (simp_all add: PendingTable_set_def True)
next
  case False
  obtain t' where "PendingTable_remove v t = (v \<in> pt_values t, t')" "pt_inv t'"
    "length (pt_table t') = length (pt_table t)" "pt_updating t' = pt_updating t"
    by (rule PendingTable_remove_correct [OF assms(1)])
  then show thesis by (intro that [of t']) (simp_all add: PendingTable_set_def False)
qed

lemma pending_inv_cases [consumes 1, case_names sync wait]:
  assumes "pending_inv s"
  obtains (sync) fs fe where "tables_ok (tables s)" "length (dev_short s) = 8"
      "length (dev_extended s) = 8" "is_initialized (tables s)" "in_sync s fs fe"
  | (wait) "tables_ok (tables s)" "length (dev_short s) = 8" "length (dev_extended s) = 8"
      "\<not> is_initialized (tables s)" "waiting_init s"
  using assms by (auto simp: pending_inv_def split: if_splits)

lemma pending_inv_sync:
  "tables_ok (tables s) \<Longrightarrow> length (dev_short s) = 8 \<Longrightarrow> length (dev_extended s) = 8 \<Longrightarrow>
    is_initialized (tables s) \<Longrightarrow> in_sync s fs fe \<Longrightarrow> pending_inv s"
  by (auto simp: pending_inv_def)

lemma pending_inv_wait:
  "tables_ok (tables s) \<Longrightarrow> length (dev_short s) = 8 \<Longrightarrow> length (dev_extended s) = 8 \<Longrightarrow>
    \<not> is_initialized (tables s) \<Longrightarrow> waiting_init s \<Longrightarrow> pending_inv s"
  by (auto simp: pending_inv_def)

lemma CombinedPendingTable_set_cases:
  assumes "tables_ok t"
  obtains (none) n where "CombinedPendingTable_set addr b t = Return (t\<lparr>cpt_none := n\<rparr>)"
  | (short) v t' where "PendingTable_set v b (cpt_short t) = Return t'"
      "CombinedPendingTable_set addr b t = Return (t\<lparr>cpt_short := t'\<rparr>)" "pt_inv t'"
      "length (pt_table t') = 8" "pt_updating t' = pt_updating (cpt_short t)"
  | (extended) v t' where "PendingTable_set v b (cpt_extended t) = Return t'"
      "CombinedPendingTable_set addr b t = Return (t\<lparr>cpt_extended := t'\<rparr>)" "pt_inv t'"
      "length (pt_table t') = 8" "pt_updating t' = pt_updating (cpt_extended t)"
proof (cases addr)
  case None
  then show thesis using none by (simp add: CombinedPendingTable_set_def)
next
  case (Some full)
  show thesis
  proof (cases "address full")
    case (Address_Short a)
    obtain t' where "PendingTable_set (pan_id full, a) b (cpt_short t) = Return t'" "pt_inv t'"
      "length (pt_table t') = 8" "pt_updating t' = pt_updating (cpt_short t)"
      by (rule PendingTable_set_correct [of "cpt_short t" "(pan_id full, a)" b])
        (use assms in \<open>auto simp: tables_ok_def\<close>)
    then show thesis
      using Some Address_Short by (intro short [of "(pan_id full, a)" t']) (simp_all add: CombinedPendingTable_set_def)
  next
    case (Address_Extended a)
    obtain t' where "PendingTable_set a b (cpt_extended t) = Return t'" "pt_inv t'"
      "length (pt_table t') = 8" "pt_updating t' = pt_updating (cpt_extended t)"
      by (rule PendingTable_set_correct [of "cpt_extended t" "a" b])
        (use assms in \<open>auto simp: tables_ok_def\<close>)
    then show thesis
      using Some Address_Extended by (intro extended [of a t']) (simp_all add: CombinedPendingTable_set_def)
  qed
qed

lemma CombinedPendingTable_set_frame:
  assumes "tables_ok t0" "CombinedPendingTable_set addr b t0 = Return t"
  shows "tables_ok t \<and> is_initialized t = is_initialized t0 \<and> initializing t = initializing t0 \<and>
      pt_updating (cpt_short t) = pt_updating (cpt_short t0) \<and>
      pt_updating (cpt_extended t) = pt_updating (cpt_extended t0) \<and>
      (\<forall>ds fs. mirror (cpt_short t0) ds fs \<longrightarrow> mirror (cpt_short t) ds fs) \<and>
      (\<forall>de fe. mirror (cpt_extended t0) de fe \<longrightarrow> mirror (cpt_extended t) de fe)"
  using assms(1)
proof (cases rule: CombinedPendingTable_set_cases [of _ addr b])
  case (none n)
  then show ?thesis using assms by (simp add: tables_ok_def)
next
  case (short v t')
  then have "t = t0\<lparr>cpt_short := t'\<rparr>" using assms(2) by simp
  with short assms(1) mirror_set [OF _ short(1)] show ?thesis by (simp add: tables_ok_def)
next
  case (extended v t')
  then have "t = t0\<lparr>cpt_extended := t'\<rparr>" using assms(2) by simp
  with extended assms(1) mirror_set [OF _ extended(1)] show ?thesis by (simp add: tables_ok_def)
qed

lemma pending_inv_set:
  assumes "pending_inv s" "CombinedPendingTable_set addr b (tables s) = Return t"
  shows "pending_inv (s\<lparr>tables := t\<rparr>)"
  using assms(1)
proof (cases rule: pending_inv_cases)
  case (sync fs fe)
  then show ?thesis
    using CombinedPendingTable_set_frame [OF sync(1) assms(2)]
    by (intro pending_inv_sync [of _ fs fe]) (simp_all add: in_sync_def)
next
  case wait
  then show ?thesis
    using CombinedPendingTable_set_frame [OF wait(1) assms(2)]
    by (intro pending_inv_wait) (simp_all add: waiting_init_def)
qed

text \<open>What a poll returns.\<close>

lemma tables_ok_poll:
  assumes "tables_ok t" "CombinedPendingTable_poll_action fresh cx t = (r, t')"
  shows "tables_ok t'" "is_initialized t' = is_initialized t"
proof -
  obtain rs short re ext where p: "PendingTable_poll_update fresh cx (cpt_short t) = (rs, short)"
    "PendingTable_poll_update fresh cx (cpt_extended t) = (re, ext)"
    by (metis surj_pair)
  have "tables_ok (t\<lparr>cpt_short := short\<rparr>)" "tables_ok (t\<lparr>cpt_short := short, cpt_extended := ext\<rparr>)"
    "tables_ok (t\<lparr>initializing := i\<rparr>)" "tables_ok (t\<lparr>cpt_waker := w\<rparr>)" for i w
    using assms(1) PendingTable_poll_update_correct(1,4) [OF _ p(1)]
      PendingTable_poll_update_correct(1,4) [OF _ p(2)]
    by (simp_all add: tables_ok_def)
  with assms(2) p show "tables_ok t'" "is_initialized t' = is_initialized t"
    by (auto simp: CombinedPendingTable_poll_action_def Let_def split: if_splits poll.splits)
qed

lemma pending_inv_poll_Ready:
  assumes "pending_inv s" "CombinedPendingTable_poll_action fresh cx (tables s) = (Ready a, t)"
    "UniqueKey_new fresh \<notin> action_key ` outstanding s"
  shows "pending_inv (s\<lparr>tables := t, outstanding := insert a (outstanding s)\<rparr>)"
proof -
  have "tables_ok (tables s)" using assms(1) by (simp add: pending_inv_def)
  note t = tables_ok_poll [OF this assms(2)]
  from assms(1) show ?thesis
  proof (cases rule: pending_inv_cases)
    case wait
    then have "initializing (tables s) = None" "a = CombinedPendingTableAction_Init (UniqueKey_new fresh)"
      "t = (tables s)\<lparr>initializing := Some (UniqueKey_new fresh)\<rparr>"
      using assms(2) by (auto simp: CombinedPendingTable_poll_action_def Let_def split: if_splits)
    then show ?thesis using wait t by (intro pending_inv_wait) (auto simp: waiting_init_def)
  next
    case (sync fs fe)
    note ms = sync(5) [unfolded in_sync_def]
    obtain r short where ps: "PendingTable_poll_update fresh cx (cpt_short (tables s)) = (r, short)"
      by (cases "PendingTable_poll_update fresh cx (cpt_short (tables s))")
    show ?thesis
    proof (cases r)
      case (Ready u)
      note m = mirror_poll_Ready [OF conjunct1 [OF conjunct2 [OF ms]] ps [unfolded Ready]]
      have a: "t = (tables s)\<lparr>cpt_short := short\<rparr>" "a \<in> short_actions (Some u)"
        using assms(2) ps Ready ms sync(4)
        by (auto simp: CombinedPendingTable_poll_action_def short_actions_def)
      have "keys_differ (Some u) fe"
        using assms(3) ms m(3) by (auto simp: keys_differ_def extended_actions_def)
      then show ?thesis
        using a m ms sync t
        by (intro pending_inv_sync [of _ "Some u" fe]) (auto simp: in_sync_def short_actions_def)
    next
      case Pending
      note m = mirror_poll_Pending [OF conjunct1 [OF conjunct2 [OF ms]] ps [unfolded Pending]]
      obtain u ext where pe: "PendingTable_poll_update fresh cx (cpt_extended (tables s)) = (Ready u, ext)"
        and a: "t = (tables s)\<lparr>cpt_short := short, cpt_extended := ext\<rparr>" "a \<in> extended_actions (Some u)"
        using assms(2) ps Pending ms sync(4)
        by (auto simp: CombinedPendingTable_poll_action_def extended_actions_def
            split: prod.splits poll.splits)
      note me = mirror_poll_Ready [OF conjunct1 [OF conjunct2 [OF conjunct2 [OF ms]]] pe]
      have "keys_differ fs (Some u)"
        using assms(3) ms me(3) by (auto simp: keys_differ_def short_actions_def)
      then show ?thesis
        using a m me ms sync t
        by (intro pending_inv_sync [of _ fs "Some u"]) (auto simp: in_sync_def extended_actions_def)
    qed
  qed
qed

lemma pending_inv_poll_Pending:
  assumes "pending_inv s" "CombinedPendingTable_poll_action fresh cx (tables s) = (Pending, t)"
  shows "pending_inv (s\<lparr>tables := t\<rparr>)"
    and "outstanding s = {} \<Longrightarrow> is_initialized (tables s) \<and>
      dev_short s = map entry_value (pt_table (cpt_short (tables s))) \<and>
      dev_extended s = map entry_value (pt_table (cpt_extended (tables s)))"
proof -
  have "tables_ok (tables s)" using assms(1) by (simp add: pending_inv_def)
  note t = tables_ok_poll [OF this assms(2)]
  have "pending_inv (s\<lparr>tables := t\<rparr>) \<and> (outstanding s = {} \<longrightarrow> is_initialized (tables s) \<and>
      dev_short s = map entry_value (pt_table (cpt_short (tables s))) \<and>
      dev_extended s = map entry_value (pt_table (cpt_extended (tables s))))"
    using assms(1)
  proof (cases rule: pending_inv_cases)
    case wait
    then obtain k where k: "initializing (tables s) = Some k"
      and "t = (tables s)\<lparr>cpt_waker := snd (WakerStore_pend (cpt_waker (tables s)) cx :: unit poll \<times> _)\<rparr>"
      using assms(2) by (auto simp: CombinedPendingTable_poll_action_def Let_def split: if_splits)
    then have "pending_inv (s\<lparr>tables := t\<rparr>)"
      using wait t by (intro pending_inv_wait) (auto simp: waiting_init_def)
    moreover have "outstanding s \<noteq> {}" using wait(5) k by (simp add: waiting_init_def)
    ultimately show ?thesis by simp
  next
    case (sync fs fe)
    note ms = sync(5) [unfolded in_sync_def]
    obtain short ext where ps: "PendingTable_poll_update fresh cx (cpt_short (tables s)) = (Pending, short)"
      and pe: "PendingTable_poll_update fresh cx (cpt_extended (tables s)) = (Pending, ext)"
      and a: "t = (tables s)\<lparr>cpt_short := short, cpt_extended := ext\<rparr>"
      using assms(2) ms sync(4)
      by (auto simp: CombinedPendingTable_poll_action_def split: prod.splits poll.splits)
    note m = mirror_poll_Pending [OF conjunct1 [OF conjunct2 [OF ms]] ps]
    note me = mirror_poll_Pending [OF conjunct1 [OF conjunct2 [OF conjunct2 [OF ms]]] pe]
    have "pending_inv (s\<lparr>tables := t\<rparr>)"
      using a m me ms sync t by (intro pending_inv_sync [of _ fs fe]) (auto simp: in_sync_def)
    moreover have "outstanding s = {} \<Longrightarrow> fs = None \<and> fe = None"
      using ms by (auto simp: short_actions_def extended_actions_def split: option.splits)
    ultimately show ?thesis using m(3) me(3) sync(4) by blast
  qed
  then show "pending_inv (s\<lparr>tables := t\<rparr>)"
    "outstanding s = {} \<Longrightarrow> is_initialized (tables s) \<and>
      dev_short s = map entry_value (pt_table (cpt_short (tables s))) \<and>
      dev_extended s = map entry_value (pt_table (cpt_extended (tables s)))"
    by simp_all
qed

text \<open>What an answer changes.\<close>

lemma pending_inv_answer_init:
  assumes "pending_inv s" "CombinedPendingTableAction_Init k \<in> outstanding s"
    "length ds = 8" "length de = 8" "ok \<Longrightarrow> ds = replicate 8 None \<and> de = replicate 8 None"
  shows "pending_inv (s\<lparr>tables := CombinedPendingTable_report_init_result k ok (tables s),
      dev_short := ds, dev_extended := de,
      outstanding := outstanding s - {CombinedPendingTableAction_Init k}\<rparr>)"
  using assms(1)
proof (cases rule: pending_inv_cases)
  case (sync fs fe)
  then show ?thesis
    using assms(2) by (auto simp: in_sync_def short_actions_def extended_actions_def split: option.splits)
next
  case wait
  let ?t = "CombinedPendingTable_report_init_result k ok (tables s)"
  have k: "initializing (tables s) = Some k" and out: "outstanding s = {CombinedPendingTableAction_Init k}"
    and idle: "pt_updating (cpt_short (tables s)) = None" "pt_updating (cpt_extended (tables s)) = None"
    using wait(5) assms(2) by (auto simp: waiting_init_def split: option.splits)
  have ok: "tables_ok ?t"
    using wait(1) PendingTable_assume_empty_correct(1,4) [of "cpt_short (tables s)"]
      PendingTable_assume_empty_correct(1,4) [of "cpt_extended (tables s)"]
    by (auto simp: tables_ok_def CombinedPendingTable_report_init_result_def Let_def)
  have t: "initializing ?t = None" "is_initialized ?t = ok" using k
    by (simp_all add: CombinedPendingTable_report_init_result_def Let_def)
  show ?thesis
  proof (cases ok)
    case True
    have "mirror (cpt_short ?t) ds None" "mirror (cpt_extended ?t) de None"
      using mirror_assume_empty [OF idle(1)] mirror_assume_empty [OF idle(2)] wait(1) k True assms(5)
      by (simp_all add: tables_ok_def CombinedPendingTable_report_init_result_def Let_def)
    then show ?thesis
      using ok t True out assms(3,4) by (intro pending_inv_sync [of _ None None])
        (simp_all add: in_sync_def short_actions_def extended_actions_def keys_differ_def)
  next
    case False
    then have "cpt_short ?t = cpt_short (tables s)" "cpt_extended ?t = cpt_extended (tables s)"
      using k by (simp_all add: CombinedPendingTable_report_init_result_def Let_def)
    then show ?thesis
      using ok t False out assms(3,4) idle by (intro pending_inv_wait) (simp_all add: waiting_init_def)
  qed
qed

lemma report_frame:
  assumes "tables_ok t0" "CombinedPendingTable_report_update_result k ok t0 = Return t"
  shows "tables_ok t" "is_initialized t = is_initialized t0" "initializing t = initializing t0"
    "PendingTable_report_update_result k ok (cpt_short t0) = Return (cpt_short t)"
    "PendingTable_report_update_result k ok (cpt_extended t0) = Return (cpt_extended t)"
proof -
  obtain ts te where r: "PendingTable_report_update_result k ok (cpt_short t0) = Return ts"
    "PendingTable_report_update_result k ok (cpt_extended t0) = Return te"
    and t: "t = t0\<lparr>cpt_short := ts, cpt_extended := te\<rparr>"
    using assms(2)
    by (auto simp: CombinedPendingTable_report_update_result_def bind_outcome_eq_Return_iff)
  have "pt_inv ts \<and> length (pt_table ts) = length (pt_table (cpt_short t0))"
    by (rule PendingTable_report_correct [of "cpt_short t0" k ok])
      (use assms(1) r(1) in \<open>auto simp: tables_ok_def\<close>)
  moreover have "pt_inv te \<and> length (pt_table te) = length (pt_table (cpt_extended t0))"
    by (rule PendingTable_report_correct [of "cpt_extended t0" k ok])
      (use assms(1) r(2) in \<open>auto simp: tables_ok_def\<close>)
  ultimately show "tables_ok t" using assms(1) t by (simp add: tables_ok_def)
  show "is_initialized t = is_initialized t0" "initializing t = initializing t0"
    "PendingTable_report_update_result k ok (cpt_short t0) = Return (cpt_short t)"
    "PendingTable_report_update_result k ok (cpt_extended t0) = Return (cpt_extended t)"
    using t r by simp_all
qed

lemma mirror_report:
  assumes "mirror t dev (Some \<lparr>up_key = k, up_index = i, up_value = v\<rparr>)" "ok \<Longrightarrow> w = v"
    "PendingTable_report_update_result k ok t = Return t'"
  shows "mirror t' (dev[i := w]) None"
  using mirror_report_own(1) [OF assms(1), of ok "dev[i := w]" w t'] assms(2,3) by auto

lemma pending_inv_answer_short:
  assumes "pending_inv s" "CombinedPendingTableAction_UpdateShort k i v \<in> outstanding s"
    "CombinedPendingTable_report_update_result k ok (tables s) = Return t" "ok \<Longrightarrow> w = v"
  shows "pending_inv (s\<lparr>tables := t, dev_short := (dev_short s)[i := w],
      outstanding := outstanding s - {CombinedPendingTableAction_UpdateShort k i v}\<rparr>)"
  using assms(1)
proof (cases rule: pending_inv_cases)
  case wait
  then show ?thesis using assms(2) by (auto simp: waiting_init_def split: option.splits)
next
  case (sync fs fe)
  note ms = sync(5) [unfolded in_sync_def]
  note t = report_frame [OF sync(1) assms(3)]
  have fs: "fs = Some \<lparr>up_key = k, up_index = i, up_value = v\<rparr>"
    using assms(2) ms by (auto simp: short_actions_def extended_actions_def split: option.splits)
  have s: "mirror (cpt_short t) ((dev_short s)[i := w]) None"
    by (rule mirror_report [OF _ assms(4) t(4)]) (use ms fs in auto)
  have "PendingTable_report_update_result k ok (cpt_extended (tables s)) = Return (cpt_extended (tables s))"
    by (rule mirror_report_other) (use ms fs in \<open>auto simp: keys_differ_def\<close>)
  with t(5) have "cpt_extended t = cpt_extended (tables s)" by simp
  moreover have "outstanding s - {CombinedPendingTableAction_UpdateShort k i v} = extended_actions fe"
    using ms fs by (auto simp: short_actions_def extended_actions_def split: option.splits)
  ultimately show ?thesis
    using sync t ms s by (intro pending_inv_sync [of _ None fe])
      (simp_all add: in_sync_def keys_differ_def short_actions_def)
qed

lemma pending_inv_answer_extended:
  assumes "pending_inv s" "CombinedPendingTableAction_UpdateExtended k i v \<in> outstanding s"
    "CombinedPendingTable_report_update_result k ok (tables s) = Return t" "ok \<Longrightarrow> w = v"
  shows "pending_inv (s\<lparr>tables := t, dev_extended := (dev_extended s)[i := w],
      outstanding := outstanding s - {CombinedPendingTableAction_UpdateExtended k i v}\<rparr>)"
  using assms(1)
proof (cases rule: pending_inv_cases)
  case wait
  then show ?thesis using assms(2) by (auto simp: waiting_init_def split: option.splits)
next
  case (sync fs fe)
  note ms = sync(5) [unfolded in_sync_def]
  note t = report_frame [OF sync(1) assms(3)]
  have fe: "fe = Some \<lparr>up_key = k, up_index = i, up_value = v\<rparr>"
    using assms(2) ms by (auto simp: short_actions_def extended_actions_def split: option.splits)
  have s: "mirror (cpt_extended t) ((dev_extended s)[i := w]) None"
    by (rule mirror_report [OF _ assms(4) t(5)]) (use ms fe in auto)
  have "PendingTable_report_update_result k ok (cpt_short (tables s)) = Return (cpt_short (tables s))"
    by (rule mirror_report_other) (use ms fe in \<open>auto simp: keys_differ_def\<close>)
  with t(4) have "cpt_short t = cpt_short (tables s)" by simp
  moreover have "outstanding s - {CombinedPendingTableAction_UpdateExtended k i v} = short_actions fs"
    using ms fe by (auto simp: short_actions_def extended_actions_def split: option.splits)
  ultimately show ?thesis
    using sync t ms s by (intro pending_inv_sync [of _ fs None])
      (simp_all add: in_sync_def keys_differ_def extended_actions_def)
qed

lemma pending_inv_start:
  "length ds = 8 \<Longrightarrow> length de = 8 \<Longrightarrow> pending_inv \<lparr>tables = CombinedPendingTable_new, dev_short = ds,
    dev_extended = de, outstanding = {}\<rparr>"
  by (intro pending_inv_wait)
    (simp_all add: tables_ok_def waiting_init_def CombinedPendingTable_new_def pt_inv_new,
     simp_all add: PendingTable_new_def)

lemma pending_reachable_inv: "pending_reachable s \<Longrightarrow> pending_inv s"
proof (induction rule: pending_reachable.induct)
  case (start ds de)
  then show ?case by (rule pending_inv_start)
next
  case (step s s')
  from step.hyps(2) step.IH show ?case
    by (cases rule: pending_step.cases)
      (auto intro: pending_inv_set pending_inv_poll_Ready pending_inv_poll_Pending(1)
        pending_inv_answer_init pending_inv_answer_short pending_inv_answer_extended)
qed

text \<open>A run: initialisation, then one device with pending data, then nothing left to do.\<close>

definition demo_address :: full_address where
  "demo_address = \<lparr>pan_id = PANID 1, address = Address_Short (ShortAddress 2)\<rparr>"

definition demo_init :: combined_pending_table where
  "demo_init = CombinedPendingTable_report_init_result (UniqueKey 1) True
     (snd (CombinedPendingTable_poll_action 1 (Waker 0) CombinedPendingTable_new))"

definition demo_pending :: combined_pending_table where
  "demo_pending = (case CombinedPendingTable_set (Some demo_address) True demo_init of
     Return t \<Rightarrow> t | Panic \<Rightarrow> demo_init)"

definition demo_updated :: combined_pending_table where
  "demo_updated = (case CombinedPendingTable_report_update_result (UniqueKey 2) True
     (snd (CombinedPendingTable_poll_action 2 (Waker 0) demo_pending)) of
     Return t \<Rightarrow> t | Panic \<Rightarrow> demo_pending)"

definition demo_system :: pending_system where
  "demo_system = \<lparr>tables = demo_updated,
     dev_short = (replicate 8 None)[0 := Some (PANID 1, ShortAddress 2)],
     dev_extended = replicate 8 None, outstanding = {}\<rparr>"

lemma demo_computed:
  "CombinedPendingTable_poll_action 1 (Waker 0) CombinedPendingTable_new =
     (Ready (CombinedPendingTableAction_Init (UniqueKey 1)),
      CombinedPendingTable_new\<lparr>initializing := Some (UniqueKey 1)\<rparr>)"
  "CombinedPendingTable_set (Some demo_address) True demo_init = Return demo_pending"
  "fst (CombinedPendingTable_poll_action 2 (Waker 0) demo_pending) =
     Ready (CombinedPendingTableAction_UpdateShort (UniqueKey 2) 0 (Some (PANID 1, ShortAddress 2)))"
  "CombinedPendingTable_report_update_result (UniqueKey 2) True
     (snd (CombinedPendingTable_poll_action 2 (Waker 0) demo_pending)) = Return demo_updated"
  "fst (CombinedPendingTable_poll_action 3 (Waker 0) demo_updated) = Pending"
  by code_simp+


lemma demo_reachable: "pending_reachable demo_system"
proof -
  let ?i = "CombinedPendingTableAction_Init (UniqueKey 1)"
  let ?u = "CombinedPendingTableAction_UpdateShort (UniqueKey 2) 0 (Some (PANID 1, ShortAddress 2))"
  let ?s = "\<lambda>t d out. \<lparr>tables = t, dev_short = d, dev_extended = replicate 8 None, outstanding = out\<rparr>"
  let ?p1 = "snd (CombinedPendingTable_poll_action 1 (Waker 0) CombinedPendingTable_new)"
  let ?p2 = "snd (CombinedPendingTable_poll_action 2 (Waker 0) demo_pending)"
  have "pending_reachable (?s CombinedPendingTable_new (replicate 8 None) {})"
    by (rule pending_reachable.start) simp_all
  then have "pending_reachable (?s ?p1 (replicate 8 None) {?i})"
    by (rule pending_reachable.step)
      (use poll_ready [of 1 "Waker 0" "?s CombinedPendingTable_new (replicate 8 None) {}" ?i ?p1]
          demo_computed(1) in simp)
  then have "pending_reachable (?s demo_init (replicate 8 None) {})"
    by (rule pending_reachable.step)
      (use answer_init [of "UniqueKey 1" "?s ?p1 (replicate 8 None) {?i}" "replicate 8 None"
          "replicate 8 None" True] in \<open>simp add: demo_init_def\<close>)
  then have "pending_reachable (?s demo_pending (replicate 8 None) {})"
    by (rule pending_reachable.step)
      (use set_pending [of "Some demo_address" True "?s demo_init (replicate 8 None) {}"]
          demo_computed(2) in simp)
  then have "pending_reachable (?s ?p2 (replicate 8 None) {?u})"
    by (rule pending_reachable.step)
      (use poll_ready [of 2 "Waker 0" "?s demo_pending (replicate 8 None) {}" ?u ?p2]
          demo_computed(3) in \<open>simp add: prod_eq_iff\<close>)
  then show ?thesis
    unfolding demo_system_def
    by (rule pending_reachable.step)
      (use answer_short [of "UniqueKey 2" 0 "Some (PANID 1, ShortAddress 2)"
          "?s ?p2 (replicate 8 None) {?u}" True demo_updated] demo_computed(4) in simp)
qed

section \<open>Properties\<close>

text \<open>
  C7. The radio's tables follow: in every reachable state, with updates answered in any
  order, failing or late, and the set of pending devices changing in between, when the table
  has no action left to hand out and none is unanswered, it is initialised and both tables
  of the radio hold exactly what the slots say.
\<close>

theorem CombinedPendingTable_radio_follows:
  assumes "pending_reachable s" "outstanding s = {}"
    and "CombinedPendingTable_poll_action fresh cx (tables s) = (Pending, t)"
  shows "is_initialized (tables s) \<and>
    dev_short s = map entry_value (pt_table (cpt_short (tables s))) \<and>
    dev_extended s = map entry_value (pt_table (cpt_extended (tables s)))"
  using pending_inv_poll_Pending(2) [OF pending_reachable_inv [OF assms(1)] assms(3,2)] .

theorem CombinedPendingTable_radio_follows_witness:
  "(replicate 8 None)[0 := Some (PANID 1, ShortAddress 2)] =
    map entry_value (pt_table (cpt_short demo_updated))"
  using CombinedPendingTable_radio_follows [OF demo_reachable, of 3 "Waker 0"
      "snd (CombinedPendingTable_poll_action 3 (Waker 0) demo_updated)"] demo_computed(5)
  by (simp add: demo_system_def prod_eq_iff)

text \<open>
  In every reachable state no call panics, and no update is handed out before the radio
  confirmed the initialisation of its tables.
\<close>

theorem CombinedPendingTable_safe:
  assumes "pending_reachable s"
  shows "(\<exists>t. CombinedPendingTable_set addr b (tables s) = Return t) \<and>
    (\<exists>t. CombinedPendingTable_report_update_result k ok (tables s) = Return t) \<and>
    (\<forall>a \<in> outstanding s. is_initialized (tables s) \<longleftrightarrow>
      (\<forall>k. a \<noteq> CombinedPendingTableAction_Init k))"
proof -
  have inv: "pending_inv s" by (rule pending_reachable_inv [OF assms])
  then have ok: "tables_ok (tables s)" by (simp add: pending_inv_def)
  then have "\<exists>t. CombinedPendingTable_set addr b (tables s) = Return t"
    by (cases rule: CombinedPendingTable_set_cases [of _ addr b]) auto
  moreover obtain ts te where
    "PendingTable_report_update_result k ok (cpt_short (tables s)) = Return ts"
    "PendingTable_report_update_result k ok (cpt_extended (tables s)) = Return te"
    using ok PendingTable_report_correct [of "cpt_short (tables s)" k ok]
      PendingTable_report_correct [of "cpt_extended (tables s)" k ok]
    by (metis tables_ok_def)
  then have "\<exists>t. CombinedPendingTable_report_update_result k ok (tables s) = Return t"
    by (simp add: CombinedPendingTable_report_update_result_def)
  moreover from inv have "\<forall>a \<in> outstanding s. is_initialized (tables s) \<longleftrightarrow>
      (\<forall>k. a \<noteq> CombinedPendingTableAction_Init k)"
    by (cases rule: pending_inv_cases)
      (auto simp: in_sync_def waiting_init_def short_actions_def extended_actions_def split: option.splits)
  ultimately show ?thesis by simp
qed

end
