(* ===== verification/Device_Queue.thy ===== *)
theory Device_Queue
  imports Pib Runtime
begin

text \<open>
  The queue of frames for one device (\<^verbatim>\<open>mac/devicequeue.rs\<close>), with the request it takes
  (\<^verbatim>\<open>DataRequest\<close> of \<^verbatim>\<open>mac/data.rs\<close>).  Sleep futures are handles: \<open>sleep\<close> gives the handle of a
  new one and \<open>timer_ready\<close> the answers of the futures in a poll.  The lemmas follow a queue
  through an arbitrary sequence of calls: every request is reported or removed exactly once,
  success is reported only for a frame that was sent and acknowledged, retries are bounded,
  and an indirect frame leaves only on a data request.
\<close>

section \<open>Definitions\<close>

record queue_request =
  rq_key :: unique_key
  rq_destination :: "full_address option"
  rq_source_mode :: addressing_mode
  rq_acknowledge_request :: bool
  rq_indirect :: bool
  rq_content :: frame_type

datatype device_queue_error = DQ_TransactionExpired | DQ_SendFailure | DQ_NoAck

datatype device_queue_state =
    DQ_Idle bool
  | DQ_Sending unique_key "u8 option" bytes
  | DQ_WaitingForAck u8 sleep_future
  | DQ_HaveResult "(bytes, device_queue_error) result"

record device_queue_entry =
  qe_data :: queue_request
  retries_left :: usize
  qe_timeout :: sleep_future

record device_queue =
  dq_state :: device_queue_state
  last_pending_reported :: "bool option"
  entries :: "device_queue_entry list"
  dq_waker :: waker_store

datatype device_queue_action =
    DeviceQueueAction_Empty
  | DeviceQueueAction_SetPending bool
  | DeviceQueueAction_SendFrame unique_key frame
  | DeviceQueueAction_ReportResult unique_key "(bytes, device_queue_error) result"

definition DeviceQueue_new :: device_queue where
  "DeviceQueue_new =
     \<lparr>dq_state = DQ_Idle False, last_pending_reported = None, entries = [], dq_waker = WakerStore_new\<rparr>"

definition DeviceQueue_wake :: "device_queue \<Rightarrow> device_queue" where
  "DeviceQueue_wake self = self\<lparr>dq_waker := WakerStore_wake (dq_waker self)\<rparr>"

definition DeviceQueue_contains :: "device_queue \<Rightarrow> unique_key \<Rightarrow> bool" where
  "DeviceQueue_contains self key = list_ex (\<lambda>entry. rq_key (qe_data entry) = key) (entries self)"

definition DeviceQueue_insert :: "sleep_fn \<Rightarrow> pib \<Rightarrow> queue_request \<Rightarrow> device_queue \<Rightarrow>
    bool \<times> device_queue" where
  "DeviceQueue_insert sleep pib entry self =
     (if DeviceQueue_contains self (rq_key entry) then (False, self)
      else (True, DeviceQueue_wake (self\<lparr>entries := entries self @
        [\<lparr>qe_data = entry,
          retries_left = unat (mac_max_frame_retries pib),
          qe_timeout = sleep (mac_transaction_persistence_time pib)\<rparr>]\<rparr>)))"

definition DeviceQueue_remove :: "unique_key \<Rightarrow> device_queue \<Rightarrow> bool \<times> device_queue" where
  "DeviceQueue_remove key self =
     (let pre_len = length (entries self);
          first_removed = (case entries self of
             [] \<Rightarrow> False | front # _ \<Rightarrow> rq_key (qe_data front) = key);
          self = self\<lparr>entries := filter (\<lambda>e. rq_key (qe_data e) \<noteq> key) (entries self)\<rparr>;
          self = (if first_removed then self\<lparr>dq_state := DQ_Idle False\<rparr> else self)
      in if first_removed \<or> pre_len > length (entries self)
         then (True, DeviceQueue_wake self) else (False, self))"

definition DeviceQueue_process_datarequest :: "device_queue \<Rightarrow> device_queue" where
  "DeviceQueue_process_datarequest self =
     DeviceQueue_wake
       (case dq_state self of DQ_Idle _ \<Rightarrow> self\<lparr>dq_state := DQ_Idle True\<rparr> | _ \<Rightarrow> self)"

definition DeviceQueue_create_frame :: "queue_request \<Rightarrow> pib \<Rightarrow> bool \<Rightarrow> u8 option \<times> frame \<times> pib" where
  "DeviceQueue_create_frame request pib more_pending =
     (let src_addr = (case rq_source_mode request of
            AddressingMode_None \<Rightarrow> None
          | AddressingMode_Reserved \<Rightarrow> None
          | AddressingMode_Short \<Rightarrow> Some (PIB_get_full_short_address pib)
          | AddressingMode_Extended \<Rightarrow> Some (PIB_get_full_extended_address pib));
          (sequence_nr, pib) = PIB_next_data_sequence_nr pib;
          frame = \<lparr>frame_pending = more_pending,
                   acknowledge_request = rq_acknowledge_request request,
                   sequence_number = Some sequence_nr,
                   destination = rq_destination request,
                   source = src_addr,
                   frame_type = rq_content request\<rparr>;
          ack_request = (if rq_acknowledge_request request then Some sequence_nr else None)
      in (ack_request, frame, pib))"

definition DeviceQueue_process_send_result :: "sleep_fn \<Rightarrow> unique_key \<Rightarrow> bool \<Rightarrow> device_queue \<Rightarrow>
    device_queue" where
  "DeviceQueue_process_send_result sleep key success self =
     (case dq_state self of
        DQ_Sending send_key ack_requested ack_payload \<Rightarrow>
          if send_key = key then
            if success then
              (case ack_requested of
                 Some ack_requested \<Rightarrow>
                   self\<lparr>dq_state := DQ_WaitingForAck ack_requested (sleep (Duration_from_millis 100))\<rparr>
               | None \<Rightarrow> self\<lparr>dq_state := DQ_HaveResult (Ok ack_payload)\<rparr>)
            else
              (case entries self of
                 front_entry # rest \<Rightarrow>
                   if rq_indirect (qe_data front_entry) then self\<lparr>dq_state := DQ_Idle False\<rparr>
                   else if retries_left front_entry > 0 then
                     self\<lparr>entries := front_entry\<lparr>retries_left := retries_left front_entry - 1\<rparr> # rest,
                          dq_state := DQ_Idle False\<rparr>
                   else self\<lparr>dq_state := DQ_HaveResult (Err DQ_SendFailure)\<rparr>
               | [] \<Rightarrow> self\<lparr>dq_state := DQ_Idle False\<rparr>)
          else self
      | _ \<Rightarrow> self)"

definition DeviceQueue_process_acknowledge :: "u8 option \<Rightarrow> bytes \<Rightarrow> device_queue \<Rightarrow> device_queue" where
  "DeviceQueue_process_acknowledge seq_nr pl self =
     (case dq_state self of
        DQ_WaitingForAck ack_requested _ \<Rightarrow>
          if seq_nr = Some ack_requested then self\<lparr>dq_state := DQ_HaveResult (Ok pl)\<rparr>
          else self
      | DQ_Sending send_key ack_requested _ \<Rightarrow>
          if ack_requested \<noteq> None \<and> ack_requested = seq_nr
          then self\<lparr>dq_state := DQ_Sending send_key None pl\<rparr>
          else self
      | _ \<Rightarrow> self)"

text \<open>
  The end of \<^verbatim>\<open>poll_next_action\<close>: the first entry whose time is over is removed and reported;
  otherwise the queue waits.  \<open>remove_nth\<close> is \<^verbatim>\<open>VecDeque::remove\<close>.
\<close>

definition remove_nth :: "usize \<Rightarrow> 'a list \<Rightarrow> 'a list" where
  "remove_nth i xs = take i xs @ drop (Suc i) xs"

definition DeviceQueue_poll_timeouts :: "timer_ready \<Rightarrow> waker \<Rightarrow> device_queue \<Rightarrow>
    device_queue_action poll \<times> device_queue" where
  "DeviceQueue_poll_timeouts timer_ready cx self =
     (case List.find (\<lambda>index. timer_ready (qe_timeout (entries self ! index)))
         [0..<length (entries self)] of
        Some index \<Rightarrow>
          (let key = rq_key (qe_data (entries self ! index));
               self = self\<lparr>entries := remove_nth index (entries self)\<rparr>;
               self = (if index = 0 then self\<lparr>dq_state := DQ_Idle False\<rparr> else self)
           in (Ready (DeviceQueueAction_ReportResult key (Err DQ_TransactionExpired)), self))
      | None \<Rightarrow>
          (case WakerStore_pend (dq_waker self) cx of (r, w) \<Rightarrow> (r, self\<lparr>dq_waker := w\<rparr>)))"

definition DeviceQueue_poll_next_action :: "timer_ready \<Rightarrow> process_unique_id \<Rightarrow> waker \<Rightarrow> pib \<Rightarrow>
    device_queue \<Rightarrow> device_queue_action poll \<times> pib \<times> device_queue" where
  "DeviceQueue_poll_next_action timer_ready fresh cx pib self =
     (let should_be_pending = (case entries self of
            [] \<Rightarrow> False | entry # _ \<Rightarrow> rq_indirect (qe_data entry))
      in if last_pending_reported self \<noteq> Some should_be_pending then
        (Ready (DeviceQueueAction_SetPending should_be_pending), pib,
         self\<lparr>last_pending_reported := Some should_be_pending\<rparr>)
      else case entries self of
        front_entry # rest \<Rightarrow>
          (case dq_state self of
             DQ_Idle datarequest \<Rightarrow>
               if \<not> rq_indirect (qe_data front_entry) \<or> datarequest then
                 (let more_pending = (case rest of
                        [] \<Rightarrow> False | second_entry # _ \<Rightarrow> rq_indirect (qe_data second_entry));
                      (ack_requested, frame, pib) =
                        DeviceQueue_create_frame (qe_data front_entry) pib more_pending;
                      send_key = UniqueKey_new fresh
                  in (Ready (DeviceQueueAction_SendFrame send_key frame), pib,
                      self\<lparr>dq_state := DQ_Sending send_key ack_requested []\<rparr>))
               else
                 (case DeviceQueue_poll_timeouts timer_ready cx (self\<lparr>dq_state := DQ_Idle False\<rparr>) of
                    (r, self) \<Rightarrow> (r, pib, self))
           | DQ_WaitingForAck ack_requested timeout \<Rightarrow>
               if timer_ready timeout then
                 if rq_indirect (qe_data front_entry) then
                   (case DeviceQueue_poll_timeouts timer_ready cx (self\<lparr>dq_state := DQ_Idle False\<rparr>) of
                      (r, self) \<Rightarrow> (r, pib, self))
                 else if retries_left front_entry > 0 then
                   (case DeviceQueue_poll_timeouts timer_ready cx
                      (self\<lparr>dq_state := DQ_Idle False,
                        entries := front_entry\<lparr>retries_left := retries_left front_entry - 1\<rparr> # rest\<rparr>) of
                      (r, self) \<Rightarrow> (r, pib, self))
                 else
                   (Ready (DeviceQueueAction_ReportResult (rq_key (qe_data front_entry)) (Err DQ_NoAck)),
                    pib, self\<lparr>dq_state := DQ_Idle False, entries := rest\<rparr>)
               else
                 (case DeviceQueue_poll_timeouts timer_ready cx self of (r, self) \<Rightarrow> (r, pib, self))
           | DQ_HaveResult result \<Rightarrow>
               (Ready (DeviceQueueAction_ReportResult (rq_key (qe_data front_entry)) result),
                pib, self\<lparr>dq_state := DQ_Idle False, entries := rest\<rparr>)
           | DQ_Sending _ _ _ \<Rightarrow>
               (case DeviceQueue_poll_timeouts timer_ready cx self of (r, self) \<Rightarrow> (r, pib, self)))
      | [] \<Rightarrow>
          (Ready DeviceQueueAction_Empty, pib, self\<lparr>dq_state := DQ_Idle False\<rparr>))"

section \<open>What a poll does\<close>

text \<open>The queue when a poll comes to look at the timeouts of the entries.\<close>

definition settles :: "device_queue \<Rightarrow> device_queue \<Rightarrow> bool" where
  "settles q q1 \<longleftrightarrow> (\<exists>e es. entries q = e # es \<and>
     (q1 = q \<and> (\<exists>k a p. dq_state q = DQ_Sending k a p) \<or>
      q1 = q \<and> (\<exists>s t. dq_state q = DQ_WaitingForAck s t) \<or>
      q1 = q\<lparr>dq_state := DQ_Idle False\<rparr> \<and> rq_indirect (qe_data e) \<or>
      q1 = q\<lparr>dq_state := DQ_Idle False, entries := e\<lparr>retries_left := retries_left e - 1\<rparr> # es\<rparr> \<and>
        \<not> rq_indirect (qe_data e) \<and> 0 < retries_left e \<and> (\<exists>s t. dq_state q = DQ_WaitingForAck s t)))"

lemma poll_timeouts_cases:
  obtains (expired) i where "i < length (entries q)"
      "DeviceQueue_poll_timeouts timer_ready cx q =
        (Ready (DeviceQueueAction_ReportResult (rq_key (qe_data (entries q ! i))) (Err DQ_TransactionExpired)),
         (if i = 0 then q\<lparr>entries := remove_nth i (entries q), dq_state := DQ_Idle False\<rparr>
          else q\<lparr>entries := remove_nth i (entries q)\<rparr>))"
  | (wait) "DeviceQueue_poll_timeouts timer_ready cx q =
      (Pending, q\<lparr>dq_waker := WakerStore_register (dq_waker q) cx\<rparr>)"
proof (cases "List.find (\<lambda>i. timer_ready (qe_timeout (entries q ! i))) [0..<length (entries q)]")
  case None
  then show thesis by (intro wait) (simp add: DeviceQueue_poll_timeouts_def WakerStore_pend_def)
next
  case (Some i)
  then have "i < length (entries q)" by (auto simp: find_Some_iff)
  with Some show thesis by (intro expired [of i]) (simp_all add: DeviceQueue_poll_timeouts_def)
qed

lemma poll_settles_cases:
  assumes "settles q q1" "(case DeviceQueue_poll_timeouts timer_ready cx q1 of (r, self) \<Rightarrow> (r, pib, self)) = R"
  obtains (expired) i where "i < length (entries q1)"
      "R = (Ready (DeviceQueueAction_ReportResult (rq_key (qe_data (entries q1 ! i)))
              (Err DQ_TransactionExpired)), pib,
         (if i = 0 then q1\<lparr>entries := remove_nth i (entries q1), dq_state := DQ_Idle False\<rparr>
          else q1\<lparr>entries := remove_nth i (entries q1)\<rparr>))"
  | (wait) "R = (Pending, pib, q1\<lparr>dq_waker := WakerStore_register (dq_waker q1) cx\<rparr>)"
  using assms(2) that by (cases rule: poll_timeouts_cases [of q1 timer_ready cx]) auto

lemma poll_cases:
  obtains (pending_bit) b where
      "DeviceQueue_poll_next_action timer_ready fresh cx pib q =
        (Ready (DeviceQueueAction_SetPending b), pib, q\<lparr>last_pending_reported := Some b\<rparr>)"
      "last_pending_reported q \<noteq> Some b"
      "b = (case entries q of [] \<Rightarrow> False | e # _ \<Rightarrow> rq_indirect (qe_data e))"
  | (empty) "entries q = []" "last_pending_reported q = Some False"
      "DeviceQueue_poll_next_action timer_ready fresh cx pib q =
        (Ready DeviceQueueAction_Empty, pib, q\<lparr>dq_state := DQ_Idle False\<rparr>)"
  | (send) e es d more ack frame pib' where "entries q = e # es" "dq_state q = DQ_Idle d"
      "\<not> rq_indirect (qe_data e) \<or> d"
      "DeviceQueue_create_frame (qe_data e) pib more = (ack, frame, pib')"
      "DeviceQueue_poll_next_action timer_ready fresh cx pib q =
        (Ready (DeviceQueueAction_SendFrame (UniqueKey_new fresh) frame), pib',
         q\<lparr>dq_state := DQ_Sending (UniqueKey_new fresh) ack []\<rparr>)"
  | (result) e es r where "entries q = e # es"
      "dq_state q = DQ_HaveResult r \<or>
        (\<exists>s t. dq_state q = DQ_WaitingForAck s t) \<and> r = Err DQ_NoAck \<and>
          \<not> rq_indirect (qe_data e) \<and> retries_left e = 0"
      "DeviceQueue_poll_next_action timer_ready fresh cx pib q =
        (Ready (DeviceQueueAction_ReportResult (rq_key (qe_data e)) r), pib,
         q\<lparr>dq_state := DQ_Idle False, entries := es\<rparr>)"
  | (expired) q1 i where "settles q q1" "i < length (entries q1)"
      "DeviceQueue_poll_next_action timer_ready fresh cx pib q =
        (Ready (DeviceQueueAction_ReportResult (rq_key (qe_data (entries q1 ! i)))
            (Err DQ_TransactionExpired)), pib,
         (if i = 0 then q1\<lparr>entries := remove_nth i (entries q1), dq_state := DQ_Idle False\<rparr>
          else q1\<lparr>entries := remove_nth i (entries q1)\<rparr>))"
  | (wait) q1 where "settles q q1"
      "DeviceQueue_poll_next_action timer_ready fresh cx pib q =
        (Pending, pib, q1\<lparr>dq_waker := WakerStore_register (dq_waker q1) cx\<rparr>)"
proof -
  let ?R = "DeviceQueue_poll_next_action timer_ready fresh cx pib q"
  have tail: thesis if "settles q q1"
    "?R = (case DeviceQueue_poll_timeouts timer_ready cx q1 of (r, self) \<Rightarrow> (r, pib, self))" for q1
    by (rule poll_settles_cases [OF that(1) that(2) [symmetric]]) (rule expired [OF that(1)] wait [OF that(1)]; assumption)+
  let ?b = "case entries q of [] \<Rightarrow> False | e # _ \<Rightarrow> rq_indirect (qe_data e)"
  show thesis
  proof (cases "last_pending_reported q = Some ?b")
    case False
    then show thesis
      by (intro pending_bit [of ?b]) (simp_all add: DeviceQueue_poll_next_action_def Let_def)
  next
    case True
    show thesis
    proof (cases "entries q")
      case Nil
      with True show thesis by (intro empty) (simp_all add: DeviceQueue_poll_next_action_def)
    next
      case (Cons e es)
      show thesis
      proof (cases "dq_state q")
        case (DQ_Idle d)
        show thesis
        proof (cases "\<not> rq_indirect (qe_data e) \<or> d")
          case send': True
          let ?more = "case es of [] \<Rightarrow> False | second # _ \<Rightarrow> rq_indirect (qe_data second)"
          obtain ack frame pib' where "DeviceQueue_create_frame (qe_data e) pib ?more = (ack, frame, pib')"
            by (metis prod_cases3)
          with True Cons DQ_Idle send' show thesis
            by (intro send [of e es d ?more]) (simp_all add: DeviceQueue_poll_next_action_def Let_def)
        next
          case False
          with True Cons DQ_Idle show thesis
            by (intro tail [of "q\<lparr>dq_state := DQ_Idle False\<rparr>"])
              (simp_all add: settles_def DeviceQueue_poll_next_action_def)
        qed
      next
        case (DQ_Sending k a p)
        with True Cons show thesis
          by (intro tail [of q]) (simp_all add: settles_def DeviceQueue_poll_next_action_def)
      next
        case (DQ_HaveResult r)
        with True Cons show thesis
          by (intro result [of e es r]) (simp_all add: DeviceQueue_poll_next_action_def)
      next
        case (DQ_WaitingForAck s t)
        consider "\<not> timer_ready t" | "timer_ready t" "rq_indirect (qe_data e)"
          | "timer_ready t" "\<not> rq_indirect (qe_data e)" "0 < retries_left e"
          | "timer_ready t" "\<not> rq_indirect (qe_data e)" "retries_left e = 0" by auto
        then show thesis
        proof cases
          case 1
          with True Cons DQ_WaitingForAck show thesis
            by (intro tail [of q]) (simp_all add: settles_def DeviceQueue_poll_next_action_def)
        next
          case 2
          with True Cons DQ_WaitingForAck show thesis
            by (intro tail [of "q\<lparr>dq_state := DQ_Idle False\<rparr>"])
              (simp_all add: settles_def DeviceQueue_poll_next_action_def)
        next
          case 3
          with True Cons DQ_WaitingForAck show thesis
            by (intro tail [of "q\<lparr>dq_state := DQ_Idle False,
                 entries := e\<lparr>retries_left := retries_left e - 1\<rparr> # es\<rparr>"])
              (simp_all add: settles_def DeviceQueue_poll_next_action_def)
        next
          case 4
          with True Cons DQ_WaitingForAck show thesis
            by (intro result [of e es "Err DQ_NoAck"]) (simp_all add: DeviceQueue_poll_next_action_def)
        qed
      qed
    qed
  qed
qed

section \<open>Runs of a queue\<close>

text \<open>
  A client calls the queue in any order, with any PIB, any answers of the timers and any keys.
\<close>

datatype dq_call =
    DQ_insert pib queue_request
  | DQ_remove unique_key
  | DQ_datarequest
  | DQ_send_result unique_key bool
  | DQ_acknowledge "u8 option" bytes
  | DQ_poll timer_ready process_unique_id waker pib

datatype dq_answer = DQ_done bool | DQ_polled "device_queue_action poll"

fun dq_step :: "sleep_fn \<Rightarrow> dq_call \<Rightarrow> device_queue \<Rightarrow> dq_answer \<times> device_queue" where
  "dq_step sleep (DQ_insert pib r) q = (case DeviceQueue_insert sleep pib r q of (b, q') \<Rightarrow> (DQ_done b, q'))"
| "dq_step sleep (DQ_remove k) q = (case DeviceQueue_remove k q of (b, q') \<Rightarrow> (DQ_done b, q'))"
| "dq_step sleep DQ_datarequest q = (DQ_done True, DeviceQueue_process_datarequest q)"
| "dq_step sleep (DQ_send_result k ok) q = (DQ_done True, DeviceQueue_process_send_result sleep k ok q)"
| "dq_step sleep (DQ_acknowledge s p) q = (DQ_done True, DeviceQueue_process_acknowledge s p q)"
| "dq_step sleep (DQ_poll timer_ready fresh cx pib) q =
     (case DeviceQueue_poll_next_action timer_ready fresh cx pib q of (r, _, q') \<Rightarrow> (DQ_polled r, q'))"

type_synonym dq_history = "(dq_call \<times> dq_answer) list"

fun dq_run :: "sleep_fn \<Rightarrow> dq_call list \<Rightarrow> device_queue \<Rightarrow> dq_history \<times> device_queue" where
  "dq_run sleep [] q = ([], q)"
| "dq_run sleep (c # cs) q =
     (case dq_step sleep c q of (a, q1) \<Rightarrow>
        (case dq_run sleep cs q1 of (h, q2) \<Rightarrow> ((c, a) # h, q2)))"

definition queue_keys :: "device_queue \<Rightarrow> unique_key list" where
  "queue_keys q = map (\<lambda>e. rq_key (qe_data e)) (entries q)"

fun inserted_keys :: "dq_history \<Rightarrow> unique_key list" where
  "inserted_keys [] = []"
| "inserted_keys ((DQ_insert _ r, DQ_done True) # h) = rq_key r # inserted_keys h"
| "inserted_keys (_ # h) = inserted_keys h"

fun removed_keys :: "dq_history \<Rightarrow> unique_key list" where
  "removed_keys [] = []"
| "removed_keys ((DQ_remove k, DQ_done True) # h) = k # removed_keys h"
| "removed_keys (_ # h) = removed_keys h"

fun reported_keys :: "dq_history \<Rightarrow> unique_key list" where
  "reported_keys [] = []"
| "reported_keys ((_, DQ_polled (Ready (DeviceQueueAction_ReportResult k _))) # h) = k # reported_keys h"
| "reported_keys (_ # h) = reported_keys h"

lemma queue_keys_wake [simp]: "queue_keys (DeviceQueue_wake q) = queue_keys q"
  by (simp add: queue_keys_def DeviceQueue_wake_def)

lemma DeviceQueue_contains_iff: "DeviceQueue_contains q k \<longleftrightarrow> k \<in> set (queue_keys q)"
  by (auto simp: DeviceQueue_contains_def list_ex_iff queue_keys_def image_iff)

lemma queue_keys_insert:
  "DeviceQueue_insert sleep pib r q = (b, q') \<Longrightarrow>
    b = (rq_key r \<notin> set (queue_keys q)) \<and> queue_keys q' = queue_keys q @ (if b then [rq_key r] else [])"
  by (auto simp: DeviceQueue_insert_def DeviceQueue_contains_iff split: if_splits)
    (simp add: queue_keys_def)

lemma queue_keys_frame [simp]:
  "queue_keys (q\<lparr>dq_state := st\<rparr>) = queue_keys q"
  "queue_keys (q\<lparr>dq_waker := w\<rparr>) = queue_keys q"
  "queue_keys (q\<lparr>last_pending_reported := lp\<rparr>) = queue_keys q"
  by (simp_all add: queue_keys_def)

lemma filter_shorter_iff: "length (filter P xs) < length xs \<longleftrightarrow> (\<exists>x \<in> set xs. \<not> P x)"
  by (induction xs) (auto simp: less_Suc_eq_le)

lemma DeviceQueue_remove_entries:
  assumes "DeviceQueue_remove k q = (b, q')"
  shows "entries q' = filter (\<lambda>e. rq_key (qe_data e) \<noteq> k) (entries q)" "b = (k \<in> set (queue_keys q))"
proof -
  show "entries q' = filter (\<lambda>e. rq_key (qe_data e) \<noteq> k) (entries q)"
    using assms by (simp add: DeviceQueue_remove_def Let_def DeviceQueue_wake_def split: if_splits)
      (auto split: if_splits)
  then have "length (entries q') < length (entries q) \<longleftrightarrow> (\<exists>e \<in> set (entries q). rq_key (qe_data e) = k)"
    using filter_shorter_iff [of "\<lambda>e. rq_key (qe_data e) \<noteq> k" "entries q"] by simp
  then have "b = ((case entries q of [] \<Rightarrow> False | front # _ \<Rightarrow> rq_key (qe_data front) = k) \<or>
      (\<exists>e \<in> set (entries q). rq_key (qe_data e) = k))"
    using assms by (auto simp: DeviceQueue_remove_def Let_def DeviceQueue_wake_def split: if_splits)
  also have "\<dots> = (k \<in> set (queue_keys q))"
    by (cases "entries q") (auto simp: queue_keys_def)
  finally show "b = (k \<in> set (queue_keys q))" .
qed

lemma queue_keys_remove:
  assumes "DeviceQueue_remove k q = (b, q')"
  shows "queue_keys q' = removeAll k (queue_keys q)"
  using DeviceQueue_remove_entries(1) [OF assms]
  by (simp add: queue_keys_def removeAll_filter_not_eq filter_map o_def eq_commute)

lemma settles_keys: "settles q q1 \<Longrightarrow> queue_keys q1 = queue_keys q"
  by (auto simp: settles_def queue_keys_def)

lemma mset_remove_nth: "i < length xs \<Longrightarrow> mset xs = add_mset (xs ! i) (mset (remove_nth i xs))"
  using arg_cong [OF id_take_nth_drop, of i xs mset] by (simp add: remove_nth_def)

lemma queue_keys_remove_nth:
  assumes "i < length (entries q)"
  shows "mset (queue_keys q) = add_mset (rq_key (qe_data (entries q ! i)))
      (mset (queue_keys (q\<lparr>entries := remove_nth i (entries q)\<rparr>)))"
  using arg_cong [OF mset_remove_nth [OF assms], of "image_mset (\<lambda>e. rq_key (qe_data e))"]
  by (simp add: queue_keys_def)

text \<open>The keys of a queue after a poll, with the key that was reported.\<close>

lemma poll_keys:
  assumes "DeviceQueue_poll_next_action timer_ready fresh cx pib q = (r, pib', q')"
  shows "mset (queue_keys q) = mset (queue_keys q') + mset (reported_keys [(c, DQ_polled r)])"
  using assms
proof (cases rule: poll_cases [of timer_ready fresh cx pib q])
  case (expired q1 i)
  have "mset (queue_keys q) = add_mset (rq_key (qe_data (entries q1 ! i)))
      (mset (queue_keys (q1\<lparr>entries := remove_nth i (entries q1)\<rparr>)))"
    using queue_keys_remove_nth [OF expired(2)] settles_keys [OF expired(1)] by simp
  with expired(3) assms show ?thesis by (auto split: if_splits)
next
  case (wait q1)
  with assms settles_keys [OF wait(1)] show ?thesis by auto
next
  case (result e es r')
  with assms show ?thesis by (auto simp: queue_keys_def)
qed (use assms in auto)

lemma dq_step_keys:
  assumes "dq_step sleep c q = (a, q')" "distinct (queue_keys q)"
  shows "mset (queue_keys q) + mset (inserted_keys [(c, a)]) =
      mset (queue_keys q') + mset (removed_keys [(c, a)]) + mset (reported_keys [(c, a)])"
proof (cases c)
  case (DQ_insert pib r)
  obtain b where "DeviceQueue_insert sleep pib r q = (b, q')" "a = DQ_done b"
    using assms(1) DQ_insert by (auto split: prod.splits)
  with DQ_insert queue_keys_insert show ?thesis by (cases b) auto
next
  case (DQ_remove k)
  obtain b where b: "DeviceQueue_remove k q = (b, q')" "a = DQ_done b"
    using assms(1) DQ_remove by (auto split: prod.splits)
  have "mset (queue_keys q) = mset (removeAll k (queue_keys q)) + (if b then {#k#} else {#})"
    using DeviceQueue_remove_entries(2) [OF b(1)] assms(2)
    by (auto simp: distinct_remove1_removeAll [symmetric] removeAll_id)
  with b DQ_remove queue_keys_remove [OF b(1)] show ?thesis by (cases b) auto
next
  case DQ_datarequest
  with assms(1) show ?thesis
    by (auto simp: DeviceQueue_process_datarequest_def split: device_queue_state.splits)
next
  case (DQ_send_result k ok)
  with assms(1) show ?thesis
    by (auto simp: DeviceQueue_process_send_result_def queue_keys_def
        split: device_queue_state.splits option.splits list.splits if_splits)
next
  case (DQ_acknowledge s p)
  with assms(1) show ?thesis
    by (auto simp: DeviceQueue_process_acknowledge_def split: device_queue_state.splits if_splits)
next
  case (DQ_poll timer_ready fresh cx pib)
  obtain r pib' where "DeviceQueue_poll_next_action timer_ready fresh cx pib q = (r, pib', q')"
    "a = DQ_polled r"
    using assms(1) DQ_poll by (auto split: prod.splits)
  with poll_keys [OF this(1), of c] DQ_poll show ?thesis by simp
qed

lemma dq_step_distinct:
  assumes "dq_step sleep c q = (a, q')" "distinct (queue_keys q)"
  shows "distinct (queue_keys q')"
proof (cases "\<exists>pib r. c = DQ_insert pib r")
  case True
  then show ?thesis using assms queue_keys_insert by (auto split: prod.splits if_splits)
next
  case False
  then have "inserted_keys [(c, a)] = []" by (cases c) auto
  with dq_step_keys [OF assms] have "mset (queue_keys q') \<subseteq># mset (queue_keys q)"
    by (simp add: subset_mset.le_iff_add add.assoc)
  then show ?thesis using assms(2) by (metis distinct_append mset_append mset_eq_imp_distinct_iff subset_mset.le_iff_add ex_mset)
qed

lemma inserted_keys_Cons: "inserted_keys (x # h) = inserted_keys [x] @ inserted_keys h"
  by (cases "x # h" rule: inserted_keys.cases) auto

lemma removed_keys_Cons: "removed_keys (x # h) = removed_keys [x] @ removed_keys h"
  by (cases "x # h" rule: removed_keys.cases) auto

lemma reported_keys_Cons: "reported_keys (x # h) = reported_keys [x] @ reported_keys h"
  by (cases "x # h" rule: reported_keys.cases) auto

lemmas history_keys_Cons = inserted_keys_Cons removed_keys_Cons reported_keys_Cons

lemma balance_trans:
  fixes A :: "'a multiset"
  assumes "A + i1 = B + r1 + p1" "B + i2 = D + r2 + p2"
  shows "A + (i1 + i2) = D + (r1 + r2) + (p1 + p2)"
proof -
  have "A + (i1 + i2) = (B + i2) + r1 + p1"
    unfolding add.assoc [symmetric] assms(1) by (simp add: ac_simps)
  then show ?thesis unfolding assms(2) by (simp add: ac_simps)
qed

lemma dq_run_keys:
  "dq_run sleep cs q = (h, q') \<Longrightarrow> distinct (queue_keys q) \<Longrightarrow>
    distinct (queue_keys q') \<and>
    mset (queue_keys q) + mset (inserted_keys h) =
      mset (queue_keys q') + mset (removed_keys h) + mset (reported_keys h)"
proof (induction cs arbitrary: q h)
  case (Cons c cs)
  obtain a q1 where step: "dq_step sleep c q = (a, q1)" by fastforce
  obtain h1 where run: "dq_run sleep cs q1 = (h1, q')" and h: "h = (c, a) # h1"
    using Cons.prems(1) step by (auto split: prod.splits)
  have "mset (queue_keys q) + mset (inserted_keys [(c, a)]) =
      mset (queue_keys q1) + mset (removed_keys [(c, a)]) + mset (reported_keys [(c, a)])"
    by (rule dq_step_keys [OF step Cons.prems(2)])
  moreover have "distinct (queue_keys q') \<and> mset (queue_keys q1) + mset (inserted_keys h1) =
      mset (queue_keys q') + mset (removed_keys h1) + mset (reported_keys h1)"
    by (rule Cons.IH [OF run dq_step_distinct [OF step Cons.prems(2)]])
  ultimately show ?case
    unfolding h history_keys_Cons [of "(c, a)" h1] mset_append by (blast intro: balance_trans)
qed simp

section \<open>Credits\<close>

text \<open>Sends of indirect frames against data requests.\<close>

definition front_indirect :: "device_queue \<Rightarrow> bool" where
  "front_indirect q = (case entries q of [] \<Rightarrow> False | e # _ \<Rightarrow> rq_indirect (qe_data e))"

definition is_send :: "dq_answer \<Rightarrow> bool" where
  "is_send a \<longleftrightarrow> (\<exists>k f. a = DQ_polled (Ready (DeviceQueueAction_SendFrame k f)))"

fun indirect_sends :: "sleep_fn \<Rightarrow> dq_call list \<Rightarrow> device_queue \<Rightarrow> nat" where
  "indirect_sends sleep [] q = 0"
| "indirect_sends sleep (c # cs) q =
     (case dq_step sleep c q of (a, q') \<Rightarrow>
        (if is_send a \<and> front_indirect q then 1 else 0) + indirect_sends sleep cs q')"

definition credit :: "device_queue \<Rightarrow> nat" where
  "credit q = (if dq_state q = DQ_Idle True then 1 else 0)"

lemma credit_settles: "settles q q1 \<Longrightarrow> credit q1 = 0"
  by (auto simp: settles_def credit_def)

lemma credit_step:
  assumes "dq_step sleep c q = (a, q')"
  shows "(if is_send a \<and> front_indirect q then 1 else 0) + credit q' \<le>
    credit q + (if c = DQ_datarequest then 1 else 0)"
proof (cases c)
  case (DQ_poll timer_ready fresh cx pib)
  then obtain r pib' where poll: "DeviceQueue_poll_next_action timer_ready fresh cx pib q = (r, pib', q')"
    and a: "a = DQ_polled r" using assms by (auto split: prod.splits)
  then show ?thesis
  proof (cases rule: poll_cases [of timer_ready fresh cx pib q])
    case (send e es d more ack frame pib')
    then show ?thesis using poll a by (auto simp: credit_def front_indirect_def)
  next
    case (expired q1 i)
    then show ?thesis using poll a credit_settles [OF expired(1)]
      by (auto simp: is_send_def credit_def split: if_splits)
  next
    case (wait q1)
    then show ?thesis using poll a credit_settles [OF wait(1)] by (auto simp: is_send_def credit_def)
  qed (use poll a in \<open>auto simp: is_send_def credit_def\<close>)
next
  case (DQ_insert pib r)
  then show ?thesis using assms
    by (auto simp: is_send_def credit_def DeviceQueue_insert_def DeviceQueue_wake_def split: if_splits)
next
  case (DQ_remove k)
  then show ?thesis using assms
    by (auto simp: is_send_def credit_def DeviceQueue_remove_def DeviceQueue_wake_def Let_def split: if_splits)
next
  case DQ_datarequest
  then show ?thesis using assms by (auto simp: is_send_def credit_def)
next
  case (DQ_send_result k ok)
  then show ?thesis using assms
    by (auto simp: is_send_def credit_def DeviceQueue_process_send_result_def
        split: device_queue_state.splits option.splits list.splits if_splits)
next
  case (DQ_acknowledge s p)
  then show ?thesis using assms
    by (auto simp: is_send_def credit_def DeviceQueue_process_acknowledge_def
        split: device_queue_state.splits if_splits)
qed

lemma indirect_sends_bound:
  "indirect_sends sleep cs q \<le> count_list cs DQ_datarequest + credit q"
proof (induction cs arbitrary: q)
  case (Cons c cs)
  obtain a q' where step: "dq_step sleep c q = (a, q')" by fastforce
  from credit_step [OF step] Cons.IH [of q'] show ?case by (auto simp: step split: if_splits)
qed simp

text \<open>Sends of a direct frame against its retries.\<close>

definition front_direct :: "unique_key \<Rightarrow> device_queue \<Rightarrow> bool" where
  "front_direct k q = (case entries q of [] \<Rightarrow> False
     | e # _ \<Rightarrow> rq_key (qe_data e) = k \<and> \<not> rq_indirect (qe_data e))"

fun direct_sends :: "unique_key \<Rightarrow> sleep_fn \<Rightarrow> dq_call list \<Rightarrow> device_queue \<Rightarrow> nat" where
  "direct_sends k sleep [] q = 0"
| "direct_sends k sleep (c # cs) q =
     (case dq_step sleep c q of (a, q') \<Rightarrow>
        (if is_send a \<and> front_direct k q then 1 else 0) + direct_sends k sleep cs q')"

text \<open>What the calls allow: one send more than the retries for every insertion of the key.\<close>

fun call_budget :: "unique_key \<Rightarrow> dq_call \<Rightarrow> nat" where
  "call_budget k (DQ_insert pib r) = (if rq_key r = k then Suc (unat (mac_max_frame_retries pib)) else 0)"
| "call_budget k _ = 0"

definition entry_budget :: "unique_key \<Rightarrow> device_queue_entry \<Rightarrow> nat" where
  "entry_budget k e = (if rq_key (qe_data e) = k \<and> \<not> rq_indirect (qe_data e) then Suc (retries_left e) else 0)"

definition is_idle :: "device_queue \<Rightarrow> bool" where
  "is_idle q = (case dq_state q of DQ_Idle _ \<Rightarrow> True | _ \<Rightarrow> False)"

definition budget :: "unique_key \<Rightarrow> device_queue \<Rightarrow> nat" where
  "budget k q = sum_list (map (entry_budget k) (entries q)) -
     (if front_direct k q \<and> \<not> is_idle q then 1 else 0)"

lemma budget_Cons:
  "entries q = e # es \<Longrightarrow> budget k q =
    (if rq_key (qe_data e) = k \<and> \<not> rq_indirect (qe_data e)
     then retries_left e + (if is_idle q then 1 else 0) else 0) +
    sum_list (map (entry_budget k) es)"
  by (auto simp: budget_def entry_budget_def front_direct_def)

lemma budget_Nil: "entries q = [] \<Longrightarrow> budget k q = 0"
  by (simp add: budget_def)

lemma budget_le: "budget k q \<le> sum_list (map (entry_budget k) (entries q))"
  by (simp add: budget_def)

lemma budget_idle: "is_idle q \<Longrightarrow> budget k q = sum_list (map (entry_budget k) (entries q))"
  by (simp add: budget_def)

lemma budget_frame:
  "entries q' = entries q \<Longrightarrow> is_idle q' = is_idle q \<Longrightarrow>
    budget k q' = budget k q"
  by (simp add: budget_def front_direct_def)

lemma budget_tail:
  assumes "entries q = e # es"
  shows "sum_list (map (entry_budget k) es) \<le> budget k q"
  using budget_Cons [OF assms, of k] by simp

lemma budget_settles:
  assumes "settles q q1"
  shows "budget k q1 \<le> budget k q"
proof -
  obtain e es where q: "entries q = e # es" using assms by (auto simp: settles_def)
  show ?thesis
    using assms q by (auto simp: settles_def budget_Cons is_idle_def)
qed

lemma sum_list_remove_nth: "sum_list (map f (remove_nth i xs)) \<le> (sum_list (map f xs) :: nat)"
proof (cases "i < length xs")
  case True
  have "sum_list (map f xs) = sum_list (map f (take i xs @ xs ! i # drop (Suc i) xs))"
    using id_take_nth_drop [OF True] by simp
  then show ?thesis by (simp add: remove_nth_def)
qed (simp add: remove_nth_def)

lemma budget_expired:
  assumes "i < length (entries q)"
  shows "budget k (if i = 0 then q\<lparr>entries := remove_nth i (entries q), dq_state := DQ_Idle False\<rparr>
          else q\<lparr>entries := remove_nth i (entries q)\<rparr>) \<le> budget k q"
proof -
  obtain e es where q: "entries q = e # es" using assms by (cases "entries q") auto
  show ?thesis
  proof (cases i)
    case 0
    then show ?thesis using budget_tail [OF q] by (simp add: budget_idle is_idle_def remove_nth_def q)
  next
    case (Suc j)
    have "remove_nth i (entries q) = e # remove_nth j es" using Suc q by (simp add: remove_nth_def)
    then show ?thesis using Suc sum_list_remove_nth [of "entry_budget k" j es] q
      by (simp add: budget_Cons is_idle_def)
  qed
qed

lemma sum_list_filter_le: "sum_list (map f (filter P xs)) \<le> (sum_list (map f xs) :: nat)"
  by (induction xs) auto

lemma budget_remove:
  assumes "DeviceQueue_remove key q = (b, q')"
  shows "budget k q' \<le> budget k q"
proof (cases "entries q")
  case Nil
  then have "entries q' = []" using DeviceQueue_remove_entries(1) [OF assms] by simp
  then show ?thesis by (simp add: budget_Nil)
next
  case (Cons e es)
  let ?f = "filter (\<lambda>e. rq_key (qe_data e) \<noteq> key) es"
  have es: "sum_list (map (entry_budget k) ?f) \<le> sum_list (map (entry_budget k) es)"
    by (rule sum_list_filter_le)
  show ?thesis
  proof (cases "rq_key (qe_data e) = key")
    case True
    then have "entries q' = ?f" "dq_state q' = DQ_Idle False"
      using assms Cons by (auto simp: DeviceQueue_remove_def DeviceQueue_wake_def Let_def split: if_splits)
    then show ?thesis using es budget_tail [OF Cons, of k] by (simp add: budget_idle is_idle_def)
  next
    case False
    then have "entries q' = e # ?f" "dq_state q' = dq_state q"
      using assms Cons by (auto simp: DeviceQueue_remove_def DeviceQueue_wake_def Let_def split: if_splits)
    then show ?thesis using es Cons by (simp add: budget_Cons is_idle_def)
  qed
qed

lemma budget_insert:
  assumes "DeviceQueue_insert sleep pib r q = (b, q')"
  shows "budget k q' \<le> budget k q + call_budget k (DQ_insert pib r)"
proof -
  let ?e = "\<lparr>qe_data = r, retries_left = unat (mac_max_frame_retries pib),
      qe_timeout = sleep (mac_transaction_persistence_time pib)\<rparr>"
  have "q' = q \<or> entries q' = entries q @ [?e] \<and> dq_state q' = dq_state q"
    using assms by (auto simp: DeviceQueue_insert_def DeviceQueue_wake_def split: if_splits)
  then show ?thesis
    by (cases "entries q") (auto simp: budget_Cons budget_Nil is_idle_def entry_budget_def)
qed

lemma budget_step:
  assumes "dq_step sleep c q = (a, q')"
  shows "(if is_send a \<and> front_direct k q then 1 else 0) + budget k q' \<le> budget k q + call_budget k c"
proof (cases c)
  case (DQ_poll timer_ready fresh cx pib)
  then obtain r pib' where poll: "DeviceQueue_poll_next_action timer_ready fresh cx pib q = (r, pib', q')"
    and a: "a = DQ_polled r" using assms by (auto split: prod.splits)
  then show ?thesis
  proof (cases rule: poll_cases [of timer_ready fresh cx pib q])
    case (send e es d more ack frame pib')
    then show ?thesis using poll a by (auto simp: budget_Cons is_idle_def front_direct_def)
  next
    case (result e es r')
    then show ?thesis using poll a budget_tail [OF result(1), of k]
      by (auto simp: is_send_def budget_idle is_idle_def)
  next
    case (expired q1 i)
    have "q' = (if i = 0 then q1\<lparr>entries := remove_nth i (entries q1), dq_state := DQ_Idle False\<rparr>
          else q1\<lparr>entries := remove_nth i (entries q1)\<rparr>)" "\<not> is_send a"
      using expired(3) poll a by (auto simp: is_send_def)
    then show ?thesis
      using budget_expired [OF expired(2), of k] budget_settles [OF expired(1), of k] by simp
  next
    case (wait q1)
    then have "budget k q' = budget k q1" "\<not> is_send a"
      using poll a by (auto intro!: budget_frame simp: is_send_def is_idle_def)
    then show ?thesis using budget_settles [OF wait(1), of k] by simp
  next
    case (pending_bit b)
    then have "budget k q' = budget k q" "\<not> is_send a"
      using poll a by (auto intro!: budget_frame simp: is_send_def is_idle_def)
    then show ?thesis by simp
  next
    case empty
    then have "budget k q' = 0" "\<not> is_send a" using poll a by (auto simp: is_send_def budget_Nil)
    then show ?thesis by simp
  qed
next
  case (DQ_insert pib r)
  then show ?thesis using assms budget_insert [of sleep pib r q _ q' k]
    by (auto simp: is_send_def split: prod.splits)
next
  case (DQ_remove key)
  then show ?thesis using assms budget_remove [of key q _ q' k] by (auto simp: is_send_def split: prod.splits)
next
  case DQ_datarequest
  then have "budget k q' = budget k q" using assms
    by (auto intro!: budget_frame simp: DeviceQueue_process_datarequest_def DeviceQueue_wake_def
        is_idle_def split: device_queue_state.splits)
  then show ?thesis using assms DQ_datarequest by (auto simp: is_send_def)
next
  case (DQ_send_result key ok)
  then have "budget k q' \<le> budget k q" using assms
    by (cases "entries q")
      (auto simp: DeviceQueue_process_send_result_def budget_Nil budget_Cons is_idle_def
        split: device_queue_state.splits option.splits if_splits)
  then show ?thesis using assms DQ_send_result by (auto simp: is_send_def)
next
  case (DQ_acknowledge s p)
  then have "budget k q' = budget k q" using assms
    by (auto intro!: budget_frame simp: DeviceQueue_process_acknowledge_def is_idle_def
        split: device_queue_state.splits if_splits)
  then show ?thesis using assms DQ_acknowledge by (auto simp: is_send_def)
qed

lemma direct_sends_bound:
  "direct_sends k sleep cs q \<le> budget k q + sum_list (map (call_budget k) cs)"
proof (induction cs arbitrary: q)
  case (Cons c cs)
  obtain a q' where step: "dq_step sleep c q = (a, q')" by fastforce
  from budget_step [OF step, of k] Cons.IH [of q'] show ?case by (auto simp: step split: if_splits)
qed simp

section \<open>Reported successes\<close>

definition sent :: "dq_history \<Rightarrow> unique_key \<Rightarrow> frame \<Rightarrow> bool" where
  "sent h k f \<longleftrightarrow> (\<exists>c. (c, DQ_polled (Ready (DeviceQueueAction_SendFrame k f))) \<in> set h)"

definition send_confirmed :: "dq_history \<Rightarrow> unique_key \<Rightarrow> bool" where
  "send_confirmed h k \<longleftrightarrow> (\<exists>a. (DQ_send_result k True, a) \<in> set h)"

definition acknowledged :: "dq_history \<Rightarrow> u8 \<Rightarrow> bytes \<Rightarrow> bool" where
  "acknowledged h s p \<longleftrightarrow> (\<exists>a. (DQ_acknowledge (Some s) p, a) \<in> set h)"

text \<open>\<open>f\<close> is the frame of request \<open>r\<close> under sequence number \<open>s\<close>.\<close>

definition frame_for :: "queue_request \<Rightarrow> frame \<Rightarrow> u8 \<Rightarrow> bool" where
  "frame_for r f s \<longleftrightarrow> destination f = rq_destination r \<and> frame_type f = rq_content r \<and>
     acknowledge_request f = rq_acknowledge_request r \<and> sequence_number f = Some s"

definition success_backed :: "dq_history \<Rightarrow> queue_request \<Rightarrow> bytes \<Rightarrow> bool" where
  "success_backed h r p \<longleftrightarrow> (\<exists>k f s. sent h k f \<and> frame_for r f s \<and> send_confirmed h k \<and>
     (rq_acknowledge_request r \<longrightarrow> acknowledged h s p))"

fun front_ok :: "dq_history \<Rightarrow> queue_request \<Rightarrow> device_queue_state \<Rightarrow> bool" where
  "front_ok h r (DQ_Idle _) = True"
| "front_ok h r (DQ_Sending k a p) = (\<exists>f s. sent h k f \<and> frame_for r f s \<and>
     (case a of Some s' \<Rightarrow> s' = s | None \<Rightarrow> rq_acknowledge_request r \<longrightarrow> acknowledged h s p))"
| "front_ok h r (DQ_WaitingForAck s _) = (\<exists>k f. sent h k f \<and> frame_for r f s \<and> send_confirmed h k)"
| "front_ok h r (DQ_HaveResult res) = (\<forall>p. res = Ok p \<longrightarrow> success_backed h r p)"

definition history_ok :: "dq_history \<Rightarrow> device_queue \<Rightarrow> bool" where
  "history_ok h q \<longleftrightarrow>
     (\<forall>e \<in> set (entries q). \<exists>pib. (DQ_insert pib (qe_data e), DQ_done True) \<in> set h) \<and>
     (case entries q of [] \<Rightarrow> is_idle q | e # _ \<Rightarrow> front_ok h (qe_data e) (dq_state q))"

lemma history_grows:
  "sent h k f \<Longrightarrow> sent (h @ h') k f" "send_confirmed h k \<Longrightarrow> send_confirmed (h @ h') k"
  "acknowledged h s p \<Longrightarrow> acknowledged (h @ h') s p"
  by (auto simp: sent_def send_confirmed_def acknowledged_def)

lemma front_ok_grows: "front_ok h r st \<Longrightarrow> front_ok (h @ h') r st"
  by (cases st; simp add: success_backed_def split: option.splits; blast intro: history_grows)

lemma create_frame_for:
  "DeviceQueue_create_frame r pib m = (ack, f, pib') \<Longrightarrow>
    frame_for r f (mac_dsn pib) \<and> ack = (if rq_acknowledge_request r then Some (mac_dsn pib) else None)"
  by (auto simp: DeviceQueue_create_frame_def PIB_next_data_sequence_nr_def frame_for_def Let_def)

lemma history_ok_Cons:
  "entries q = e # es \<Longrightarrow> history_ok h q \<longleftrightarrow> front_ok h (qe_data e) (dq_state q) \<and>
    (\<forall>e \<in> set (e # es). \<exists>pib. (DQ_insert pib (qe_data e), DQ_done True) \<in> set h)"
  by (auto simp: history_ok_def)

lemma history_ok_idle:
  "is_idle q \<Longrightarrow> history_ok h q \<longleftrightarrow>
    (\<forall>e \<in> set (entries q). \<exists>pib. (DQ_insert pib (qe_data e), DQ_done True) \<in> set h)"
  by (auto simp: history_ok_def is_idle_def split: list.splits device_queue_state.splits)

lemma history_ok_grows: "history_ok h q \<Longrightarrow> history_ok (h @ h') q"
  by (auto simp: history_ok_def split: list.splits intro: front_ok_grows)

lemma history_ok_settles:
  assumes "history_ok h q" "settles q q1"
  shows "history_ok h q1"
proof -
  obtain e es where q: "entries q = e # es" using assms(2) by (auto simp: settles_def)
  with assms show ?thesis by (auto simp: settles_def history_ok_Cons)
qed

lemma history_ok_expired:
  assumes "history_ok h q" "i < length (entries q)"
  shows "history_ok h (if i = 0 then q\<lparr>entries := remove_nth i (entries q), dq_state := DQ_Idle False\<rparr>
          else q\<lparr>entries := remove_nth i (entries q)\<rparr>)"
proof -
  obtain e es where q: "entries q = e # es" using assms(2) by (cases "entries q") auto
  have sub: "set (remove_nth i (entries q)) \<subseteq> set (entries q)"
    by (auto simp: remove_nth_def dest: in_set_takeD in_set_dropD)
  show ?thesis
  proof (cases i)
    case 0
    have "is_idle (q\<lparr>entries := remove_nth i (entries q), dq_state := DQ_Idle False\<rparr>)"
      by (simp add: is_idle_def)
    from history_ok_idle [OF this] assms(1) sub 0 show ?thesis by (auto simp: history_ok_def)
  next
    case (Suc j)
    have "remove_nth i (entries q) = e # remove_nth j es" using Suc q by (simp add: remove_nth_def)
    then show ?thesis using Suc assms(1) sub q by (auto simp: history_ok_Cons)
  qed
qed

lemma history_ok_frame:
  "entries q' = entries q \<Longrightarrow> dq_state q' = dq_state q \<Longrightarrow> history_ok h q' \<longleftrightarrow> history_ok h q"
  by (cases "entries q") (simp_all add: history_ok_def is_idle_def)

lemma history_ok_poll:
  assumes "history_ok h q" "DeviceQueue_poll_next_action timer_ready fresh cx pib q = (r, pib', q')"
  shows "history_ok (h @ [(c, DQ_polled r)]) q'"
  using assms
proof (cases rule: poll_cases [of timer_ready fresh cx pib q])
  case (pending_bit b)
  then show ?thesis
    using assms history_ok_grows history_ok_frame [of q' q] by auto
next
  case empty
  then show ?thesis using assms by (auto simp: history_ok_idle is_idle_def)
next
  case (send e es d more ack frame pib'')
  then have "sent (h @ [(c, DQ_polled r)]) (UniqueKey_new fresh) frame"
    using assms(2) by (auto simp: sent_def)
  moreover note create_frame_for [OF send(4)]
  moreover have "q' = q\<lparr>dq_state := DQ_Sending (UniqueKey_new fresh) ack []\<rparr>" using send assms(2) by simp
  moreover have "history_ok (h @ [(c, DQ_polled r)]) q" by (rule history_ok_grows [OF assms(1)])
  ultimately show ?thesis using send(1) by (auto simp: history_ok_Cons)
next
  case (result e es r')
  then show ?thesis using assms by (auto simp: history_ok_idle is_idle_def history_ok_Cons)
next
  case (expired q1 i)
  then show ?thesis
    using history_ok_grows [OF history_ok_expired [OF history_ok_settles [OF assms(1) expired(1)] expired(2)]]
      assms(2) by auto
next
  case (wait q1)
  then have "history_ok (h @ [(c, DQ_polled r)]) q1"
    using history_ok_grows [OF history_ok_settles [OF assms(1) wait(1)]] by simp
  then show ?thesis using wait assms(2) history_ok_frame [of q' q1] by auto
qed

lemma history_ok_insert:
  assumes "history_ok h q" "DeviceQueue_insert sleep pib r q = (b, q')"
  shows "history_ok (h @ [(DQ_insert pib r, DQ_done b)]) q'"
proof (cases b)
  case False
  then have "q' = q" using assms(2) by (auto simp: DeviceQueue_insert_def split: if_splits)
  then show ?thesis using history_ok_grows [OF assms(1)] by simp
next
  case True
  let ?h = "h @ [(DQ_insert pib r, DQ_done b)]"
  obtain e where e: "entries q' = entries q @ [e]" "qe_data e = r" "dq_state q' = dq_state q"
    using assms(2) True by (auto simp: DeviceQueue_insert_def DeviceQueue_wake_def split: if_splits)
  have "history_ok ?h q" by (rule history_ok_grows [OF assms(1)])
  with e True show ?thesis
    by (cases "entries q") (auto simp: history_ok_def is_idle_def split: device_queue_state.splits)
qed

lemma history_ok_remove:
  assumes "history_ok h q" "DeviceQueue_remove k q = (b, q')"
  shows "history_ok h q'"
proof (cases "is_idle q'")
  case True
  from history_ok_idle [OF this] show ?thesis
    using assms(1) DeviceQueue_remove_entries(1) [OF assms(2)] by (auto simp: history_ok_def)
next
  case False
  then obtain e es where e: "entries q = e # es" "rq_key (qe_data e) \<noteq> k" "dq_state q' = dq_state q"
    using assms by (cases "entries q")
      (auto simp: DeviceQueue_remove_def DeviceQueue_wake_def Let_def is_idle_def history_ok_def split: if_splits)
  then show ?thesis
    using assms(1) DeviceQueue_remove_entries(1) [OF assms(2)] by (auto simp: history_ok_Cons)
qed

lemma history_ok_send_result:
  assumes "history_ok h q"
  shows "history_ok (h @ [(DQ_send_result k ok, a)]) (DeviceQueue_process_send_result sleep k ok q)"
proof -
  let ?h = "h @ [(DQ_send_result k ok, a)]" and ?q = "DeviceQueue_process_send_result sleep k ok q"
  have h: "history_ok ?h q" by (rule history_ok_grows [OF assms])
  have conf: "ok \<Longrightarrow> send_confirmed ?h k" by (auto simp: send_confirmed_def)
  show ?thesis
  proof (cases "\<exists>s p. dq_state q = DQ_Sending k s p")
    case False
    then have "?q = q"
      by (auto simp: DeviceQueue_process_send_result_def split: device_queue_state.splits)
    then show ?thesis using h by simp
  next
    case True
    then obtain s p where st: "dq_state q = DQ_Sending k s p" by blast
    then obtain e es where e: "entries q = e # es"
      using assms by (cases "entries q") (auto simp: history_ok_def is_idle_def)
    with h st conf show ?thesis
      by (cases s; cases ok)
        (auto simp: history_ok_Cons DeviceQueue_process_send_result_def success_backed_def)
  qed
qed

lemma history_ok_acknowledge:
  assumes "history_ok h q"
  shows "history_ok (h @ [(DQ_acknowledge s p, a)]) (DeviceQueue_process_acknowledge s p q)"
proof -
  let ?h = "h @ [(DQ_acknowledge s p, a)]" and ?q = "DeviceQueue_process_acknowledge s p q"
  have h: "history_ok ?h q" by (rule history_ok_grows [OF assms])
  have ack: "s = Some n \<Longrightarrow> acknowledged ?h n p" for n by (auto simp: acknowledged_def)
  show ?thesis
  proof (cases "entries q")
    case Nil
    then show ?thesis
      using h by (auto simp: history_ok_def is_idle_def DeviceQueue_process_acknowledge_def
          split: device_queue_state.splits)
  next
    case (Cons e es)
    with h ack show ?thesis
      by (cases "dq_state q")
        (auto simp: history_ok_Cons DeviceQueue_process_acknowledge_def success_backed_def
          split: if_splits, blast)
  qed
qed

lemma history_ok_step:
  assumes "history_ok h q" "dq_step sleep c q = (a, q')"
  shows "history_ok (h @ [(c, a)]) q'"
proof (cases c)
  case DQ_datarequest
  have "history_ok h (DeviceQueue_process_datarequest q)"
    using assms(1) by (cases "entries q")
      (auto simp: DeviceQueue_process_datarequest_def DeviceQueue_wake_def history_ok_def is_idle_def
        split: device_queue_state.splits)
  then show ?thesis using assms(2) DQ_datarequest by (auto intro: history_ok_grows)
qed (use assms in \<open>auto intro: history_ok_insert history_ok_grows [OF history_ok_remove]
    history_ok_send_result history_ok_acknowledge history_ok_poll split: prod.splits\<close>)

lemma history_ok_run: "dq_run sleep cs q = (h, q') \<Longrightarrow> history_ok h0 q \<Longrightarrow> history_ok (h0 @ h) q'"
proof (induction cs arbitrary: q h h0)
  case (Cons c cs)
  obtain a q1 where step: "dq_step sleep c q = (a, q1)" by fastforce
  obtain h1 where run: "dq_run sleep cs q1 = (h1, q')" and h: "h = (c, a) # h1"
    using Cons.prems(1) step by (auto split: prod.splits)
  from Cons.IH [OF run history_ok_step [OF Cons.prems(2) step]] show ?case by (simp add: h)
qed simp

lemma history_ok_new: "history_ok [] DeviceQueue_new"
  by (simp add: history_ok_def DeviceQueue_new_def is_idle_def)

text \<open>A run: one acknowledged direct request, sent, confirmed and acknowledged.\<close>

definition demo_pib :: pib where
  "demo_pib = PIB_new 0 7 (ExtendedAddress 1) 11 4"

definition demo_request :: queue_request where
  "demo_request =
     \<lparr>rq_key = UniqueKey 1, rq_destination = None, rq_source_mode = AddressingMode_Short,
      rq_acknowledge_request = True, rq_indirect = False, rq_content = FrameType_Data (Payload [1])\<rparr>"

definition demo_calls :: "dq_call list" where
  "demo_calls =
     [DQ_insert demo_pib demo_request,
      DQ_poll (\<lambda>_. False) 2 (Waker 0) demo_pib,
      DQ_poll (\<lambda>_. False) 3 (Waker 0) demo_pib,
      DQ_send_result (UniqueKey 3) True,
      DQ_acknowledge (Some 7) [9]]"

definition demo_run :: "dq_history \<times> device_queue" where
  "demo_run = dq_run SleepFuture demo_calls DeviceQueue_new"

lemma demo_run_computed:
  "inserted_keys (fst demo_run) = [UniqueKey 1]" "reported_keys (fst demo_run) = []"
  "removed_keys (fst demo_run) = []"
  "fst (DeviceQueue_poll_next_action (\<lambda>_. False) 4 (Waker 0) demo_pib (snd demo_run)) =
     Ready (DeviceQueueAction_ReportResult (UniqueKey 1) (Ok [9]))"
  by (simp_all add: demo_run_def demo_calls_def demo_request_def demo_pib_def PIB_new_def
      DeviceQueue_new_def DeviceQueue_insert_def DeviceQueue_contains_def DeviceQueue_wake_def
      DeviceQueue_poll_next_action_def DeviceQueue_create_frame_def PIB_next_data_sequence_nr_def
      DeviceQueue_process_send_result_def DeviceQueue_process_acknowledge_def UniqueKey_new_def Let_def)

section \<open>Properties\<close>

text \<open>
  C18. No request is lost and none is reported twice: after any sequence of calls on a new
  queue, the keys of the accepted requests are those reported by a poll, those taken back by
  \<^verbatim>\<open>remove\<close> and those still in the queue, each exactly once.
\<close>

theorem DeviceQueue_reports_once:
  assumes "dq_run sleep cs DeviceQueue_new = (h, q)"
  shows "distinct (map (\<lambda>e. rq_key (qe_data e)) (entries q)) \<and>
    mset (inserted_keys h) = mset (reported_keys h) + mset (removed_keys h) +
      mset (map (\<lambda>e. rq_key (qe_data e)) (entries q))"
  using dq_run_keys [OF assms] by (simp add: queue_keys_def DeviceQueue_new_def ac_simps)

theorem DeviceQueue_reports_once_witness:
  "mset [UniqueKey 1] = mset (map (\<lambda>e. rq_key (qe_data e)) (entries (snd demo_run)))"
  using DeviceQueue_reports_once [of SleepFuture demo_calls "fst demo_run" "snd demo_run"]
  by (simp add: demo_run_computed flip: demo_run_def)

text \<open>
  C17. Success is reported only for what happened: when a poll reports \<^verbatim>\<open>Ok\<close> with a payload for
  a key, a request with this key was accepted, its frame was handed out for sending, the
  radio confirmed that it was sent, and, if the request asked for it, an acknowledgement
  with the sequence number of the frame and this payload was received.
\<close>

theorem DeviceQueue_success_is_real:
  assumes "dq_run sleep cs DeviceQueue_new = (h, q)"
    and "DeviceQueue_poll_next_action timer_ready fresh cx pib q =
      (Ready (DeviceQueueAction_ReportResult k (Ok p)), pib', q')"
  shows "\<exists>pib0 r send_key f s. (DQ_insert pib0 r, DQ_done True) \<in> set h \<and> rq_key r = k \<and>
    sent h send_key f \<and> destination f = rq_destination r \<and> frame_type f = rq_content r \<and>
    acknowledge_request f = rq_acknowledge_request r \<and> sequence_number f = Some s \<and>
    send_confirmed h send_key \<and> (rq_acknowledge_request r \<longrightarrow> acknowledged h s p)"
proof -
  have ok: "history_ok h q" using history_ok_run [OF assms(1) history_ok_new] by simp
  obtain e es where "entries q = e # es" "rq_key (qe_data e) = k" "dq_state q = DQ_HaveResult (Ok p)"
    using assms(2) by (cases rule: poll_cases [of timer_ready fresh cx pib q]) auto
  moreover from this ok obtain pib0 where "(DQ_insert pib0 (qe_data e), DQ_done True) \<in> set h"
    "success_backed h (qe_data e) p"
    by (auto simp: history_ok_Cons)
  ultimately show ?thesis unfolding success_backed_def frame_for_def by blast
qed

theorem DeviceQueue_success_is_real_witness:
  "\<exists>pib0 r send_key f s. (DQ_insert pib0 r, DQ_done True) \<in> set (fst demo_run) \<and>
    rq_key r = UniqueKey 1 \<and> sent (fst demo_run) send_key f \<and> sequence_number f = Some s \<and>
    send_confirmed (fst demo_run) send_key \<and> (rq_acknowledge_request r \<longrightarrow> acknowledged (fst demo_run) s [9])"
proof -
  let ?p = "DeviceQueue_poll_next_action (\<lambda>_. False) 4 (Waker 0) demo_pib (snd demo_run)"
  have "?p = (Ready (DeviceQueueAction_ReportResult (UniqueKey 1) (Ok [9])), fst (snd ?p), snd (snd ?p))"
    by (simp add: prod_eq_iff demo_run_computed(4))
  from DeviceQueue_success_is_real [OF _ this, of SleepFuture demo_calls "fst demo_run"] show ?thesis
    by (simp flip: demo_run_def) blast
qed

text \<open>
  Retries are bounded: in any run of a new queue the frame of a direct request is handed
  out for sending at most once more than its number of retries, for every time its key was
  offered to the queue.
\<close>

theorem DeviceQueue_sends_bounded:
  "direct_sends k sleep cs DeviceQueue_new \<le> sum_list (map (call_budget k) cs)"
  using direct_sends_bound [of k sleep cs DeviceQueue_new]
  by (simp add: budget_def DeviceQueue_new_def)

text \<open>
  An indirect frame waits for the device: in any run of a new queue indirect frames are
  handed out at most as often as data requests were received.
\<close>

theorem DeviceQueue_indirect_needs_datarequest:
  "indirect_sends sleep cs DeviceQueue_new \<le> count_list cs DQ_datarequest"
  using indirect_sends_bound [of sleep cs DeviceQueue_new]
  by (simp add: credit_def DeviceQueue_new_def)

text \<open>
  C40. A retransmission is not started when the acknowledgement times out.  For a direct request with
  retries left at the head of the queue, whose pending bit has been reported and while no request has
  expired: the poll that sees the timeout takes exactly one of its retries, keeps all the rest of the
  queue, goes idle and returns \<^verbatim>\<open>Pending\<close> without waking anybody, although the very next poll would
  hand the frame out again.  Without another event, the frame waits.
\<close>

theorem DeviceQueue_retry_stalls:
  assumes "entries q = e # es" "dq_state q = DQ_WaitingForAck s t" "timer_ready t"
    and "\<not> rq_indirect (qe_data e)" "0 < retries_left e"
    and "last_pending_reported q = Some False"
    and "list_all (\<lambda>e. \<not> timer_ready (qe_timeout e)) (entries q)"
  shows "\<exists>q'. DeviceQueue_poll_next_action timer_ready fresh cx pib q = (Pending, pib, q') \<and>
    entries q' = e\<lparr>retries_left := retries_left e - 1\<rparr> # es \<and> dq_state q' = DQ_Idle False \<and>
    woken (dq_waker q') = woken (dq_waker q) \<and>
    (\<exists>f pib' q''. DeviceQueue_poll_next_action timer_ready' fresh' cx' pib q' =
      (Ready (DeviceQueueAction_SendFrame (UniqueKey_new fresh') f), pib', q''))"
proof -
  let ?e = "e\<lparr>retries_left := retries_left e - 1\<rparr>"
  let ?q = "q\<lparr>dq_state := DQ_Idle False, entries := ?e # es,
     dq_waker := WakerStore_register (dq_waker q) cx\<rparr>"
  have "List.find (\<lambda>i. timer_ready (qe_timeout ((?e # es) ! i))) [0..<length (?e # es)] = None"
    using assms(1,7) by (auto simp: find_None_iff list_all_iff nth_Cons split: nat.splits)
  then have "DeviceQueue_poll_next_action timer_ready fresh cx pib q = (Pending, pib, ?q)"
    using assms by (simp add: DeviceQueue_poll_next_action_def DeviceQueue_poll_timeouts_def
        WakerStore_pend_def)
  moreover have "woken (dq_waker ?q) = woken (dq_waker q)" by (simp add: WakerStore_register_def)
  moreover have "\<exists>f pib' q''. DeviceQueue_poll_next_action timer_ready' fresh' cx' pib ?q =
      (Ready (DeviceQueueAction_SendFrame (UniqueKey_new fresh') f), pib', q'')"
    using assms by (simp add: DeviceQueue_poll_next_action_def Let_def split: prod.splits)
  ultimately show ?thesis by (intro exI [of _ ?q] conjI) simp_all
qed

theorem DeviceQueue_retry_stalls_witness:
  "\<exists>q'. DeviceQueue_poll_next_action (\<lambda>t. t = SleepFuture 100) 5 (Waker 0) demo_pib
      \<lparr>dq_state = DQ_WaitingForAck 7 (SleepFuture 100), last_pending_reported = Some False,
       entries = [\<lparr>qe_data = demo_request, retries_left = 3, qe_timeout = SleepFuture 300000\<rparr>],
       dq_waker = WakerStore_new\<rparr> = (Pending, demo_pib, q') \<and> map retries_left (entries q') = [2] \<and> woken (dq_waker q') = []"
proof -
  let ?q = "\<lparr>dq_state = DQ_WaitingForAck 7 (SleepFuture 100), last_pending_reported = Some False,
       entries = [\<lparr>qe_data = demo_request, retries_left = 3, qe_timeout = SleepFuture 300000\<rparr>],
       dq_waker = WakerStore_new\<rparr>"
  show ?thesis
    using DeviceQueue_retry_stalls [of ?q "\<lparr>qe_data = demo_request, retries_left = 3,
        qe_timeout = SleepFuture 300000\<rparr>" "[]" 7 "SleepFuture 100" "\<lambda>t. t = SleepFuture 100" 5
        "Waker 0" demo_pib "\<lambda>_. False" 6 "Waker 0"]
    by (auto simp: demo_request_def WakerStore_new_def)
qed

end
