(* ===== verification/Data_Service.thy ===== *)
theory Data_Service
  imports Device_Queue Combined_Pending_Table Services Crates
begin

text \<open>
  The data service (\<^verbatim>\<open>mac/data.rs\<close>): the device queues by destination, the pending tables and
  the handles of the requests that came through MCPS.  The bidirectional map is the argument
  \<open>bm\<close>.  A poll hands out at most one key, so one fresh identifier is enough; the list of
  the queues is in the order in which the map is iterated, which is left open.
\<close>

section \<open>Definitions\<close>

datatype data_service_action =
    DataServiceAction_InitPendingTable unique_key
  | DataServiceAction_SetPendingShort unique_key usize "(panid \<times> short_address) option"
  | DataServiceAction_SetPendingExtended unique_key usize "extended_address option"
  | DataServiceAction_SendFrame unique_key frame
  | DataServiceAction_Confirm mcps_confirm

fun DataServiceAction_from :: "combined_pending_table_action \<Rightarrow> data_service_action" where
  "DataServiceAction_from (CombinedPendingTableAction_Init x) = DataServiceAction_InitPendingTable x"
| "DataServiceAction_from (CombinedPendingTableAction_UpdateShort k i v) =
     DataServiceAction_SetPendingShort k i v"
| "DataServiceAction_from (CombinedPendingTableAction_UpdateExtended k i v) =
     DataServiceAction_SetPendingExtended k i v"

record 'bm data_service =
  queues :: "(full_address option, device_queue) hash_map"
  msdu_handles :: 'bm
  ds_pending_table :: combined_pending_table
  ds_waker :: waker_store

type_synonym 'bm handle_map_ops = "(msdu_handle, unique_key, 'bm) bimap_ops"

definition DataService_new :: "'bm handle_map_ops \<Rightarrow> 'bm data_service" where
  "DataService_new bm =
     \<lparr>queues = [], msdu_handles = bm_new bm, ds_pending_table = CombinedPendingTable_new,
      ds_waker = WakerStore_new\<rparr>"

definition DataService_insert :: "sleep_fn \<Rightarrow> pib \<Rightarrow> queue_request \<Rightarrow> 'bm data_service \<Rightarrow>
    'bm data_service" where
  "DataService_insert sleep pib entry self =
     (case map_of (queues self) (rq_destination entry) of
        Some existing \<Rightarrow>
          self\<lparr>queues := hm_modify (rq_destination entry)
            (\<lambda>existing. snd (DeviceQueue_insert sleep pib entry existing)) (queues self)\<rparr>
      | None \<Rightarrow>
          (let new_queue = snd (DeviceQueue_insert sleep pib entry DeviceQueue_new)
           in self\<lparr>queues := AList.update (rq_destination entry) new_queue (queues self),
                   ds_waker := WakerStore_wake (ds_waker self)\<rparr>))"

text \<open>\<^verbatim>\<open>removed = removed || queue.remove(key)\<close>: once a queue had the key, the others are not asked.\<close>

fun DataService_remove_from :: "unique_key \<Rightarrow> bool \<Rightarrow> (full_address option, device_queue) hash_map \<Rightarrow>
    bool \<times> (full_address option, device_queue) hash_map" where
  "DataService_remove_from key removed [] = (removed, [])"
| "DataService_remove_from key removed ((d, queue) # rest) =
     (let (removed, queue) = (if removed then (True, queue) else DeviceQueue_remove key queue);
          (removed, rest) = DataService_remove_from key removed rest
      in (removed, (d, queue) # rest))"

definition DataService_remove :: "unique_key \<Rightarrow> 'bm data_service \<Rightarrow> bool \<times> 'bm data_service" where
  "DataService_remove key self =
     (case DataService_remove_from key False (queues self) of
        (removed, qs) \<Rightarrow> (removed, self\<lparr>queues := qs\<rparr>))"

text \<open>The loop over the queues, up to the first one that has something to do.\<close>

fun DataService_poll_queues :: "timer_ready \<Rightarrow> process_unique_id \<Rightarrow> waker \<Rightarrow> pib \<Rightarrow>
    (full_address option, device_queue) hash_map \<Rightarrow>
    (full_address option \<times> device_queue_action) option \<times> pib \<times>
    (full_address option, device_queue) hash_map" where
  "DataService_poll_queues timer_ready fresh cx pib [] = (None, pib, [])"
| "DataService_poll_queues timer_ready fresh cx pib ((d, queue) # rest) =
     (case DeviceQueue_poll_next_action timer_ready fresh cx pib queue of
        (Ready x, pib, queue) \<Rightarrow> (Some (d, x), pib, (d, queue) # rest)
      | (Pending, pib, queue) \<Rightarrow>
          (case DataService_poll_queues timer_ready fresh cx pib rest of
             (r, pib, rest) \<Rightarrow> (r, pib, (d, queue) # rest)))"

fun DeviceQueueError_into_mcps :: "device_queue_error \<Rightarrow> mac_error" where
  "DeviceQueueError_into_mcps DQ_TransactionExpired = TransactionExpired"
| "DeviceQueueError_into_mcps DQ_SendFailure = ChannelAccessFailure"
| "DeviceQueueError_into_mcps DQ_NoAck = NoAck"

text \<open>How much a queue can still keep the loop of \<open>poll_action\<close> busy.\<close>

definition queue_work :: "device_queue \<Rightarrow> nat" where
  "queue_work q = 3 * length (entries q) + 1 +
     (if last_pending_reported q =
         Some (case entries q of [] \<Rightarrow> False | e # _ \<Rightarrow> rq_indirect (qe_data e)) then 0 else 1)"

definition queues_work :: "(full_address option, device_queue) hash_map \<Rightarrow> nat" where
  "queues_work qs = sum_list (map (\<lambda>(_, q). queue_work q) qs)"

lemma settles_work: "settles q q1 \<Longrightarrow> queue_work q1 = queue_work q \<and> length (entries q1) = length (entries q)"
  by (auto simp: settles_def queue_work_def)

lemma poll_work_Pending:
  "DeviceQueue_poll_next_action timer_ready fresh cx pib q = (Pending, pib', q') \<Longrightarrow>
    queue_work q' = queue_work q"
  by (cases rule: poll_cases [of timer_ready fresh cx pib q])
    (auto dest!: settles_work simp: queue_work_def)

lemma queue_work_bounds:
  "3 * length (entries q) + 1 \<le> queue_work q" "queue_work q \<le> 3 * length (entries q) + 2"
  by (simp_all add: queue_work_def)

lemma poll_work_Ready:
  assumes "DeviceQueue_poll_next_action timer_ready fresh cx pib q = (Ready x, pib', q')"
  shows "queue_work q' \<le> queue_work q"
    and "x = DeviceQueueAction_SetPending b \<or> x = DeviceQueueAction_ReportResult k r \<Longrightarrow>
      queue_work q' < queue_work q"
proof -
  have "queue_work q' \<le> queue_work q \<and>
    (x = DeviceQueueAction_SetPending b \<or> x = DeviceQueueAction_ReportResult k r \<longrightarrow>
      queue_work q' < queue_work q)"
    using assms
  proof (cases rule: poll_cases [of timer_ready fresh cx pib q])
    case (pending_bit b')
    then have "q' = q\<lparr>last_pending_reported := Some b'\<rparr>" using assms by simp
    then show ?thesis using pending_bit(2,3) by (simp add: queue_work_def)
  next
    case empty
    then show ?thesis using assms by (auto simp: queue_work_def)
  next
    case (send e es d m ack frame pib'')
    then show ?thesis using assms by (auto simp: queue_work_def)
  next
    case (result e es r')
    then have "length (entries q) = Suc (length (entries q'))" using assms by auto
    then show ?thesis using queue_work_bounds [of q] queue_work_bounds [of q'] by simp
  next
    case (expired q1 i)
    then have "length (entries q) = Suc (length (entries q'))"
      using assms settles_work [OF expired(1)] by (auto simp: remove_nth_def split: if_splits)
    then show ?thesis using queue_work_bounds [of q] queue_work_bounds [of q'] by simp
  next
    case (wait q1)
    then show ?thesis using assms by simp
  qed
  then show "queue_work q' \<le> queue_work q"
    and "x = DeviceQueueAction_SetPending b \<or> x = DeviceQueueAction_ReportResult k r \<Longrightarrow>
      queue_work q' < queue_work q"
    by simp_all
qed

lemma poll_queues_work_None:
  "DataService_poll_queues timer_ready fresh cx pib qs = (None, pib', qs') \<Longrightarrow>
    queues_work qs' = queues_work qs \<and> map fst qs' = map fst qs"
  by (induction qs arbitrary: pib qs')
    (auto simp: queues_work_def poll_work_Pending split: prod.splits poll.splits)

text \<open>The queue that was ready, and what became of the list.\<close>

lemma poll_queues_Some:
  assumes "DataService_poll_queues timer_ready fresh cx pib qs = (Some (d, x), pib', qs')"
  obtains qs1 qs1' q q' rest pib1 where "qs = qs1 @ (d, q) # rest" "qs' = qs1' @ (d, q') # rest"
    "DataService_poll_queues timer_ready fresh cx pib qs1 = (None, pib1, qs1')"
    "DeviceQueue_poll_next_action timer_ready fresh cx pib1 q = (Ready x, pib', q')"
  using assms
proof (induction qs arbitrary: pib qs' thesis)
  case (Cons p qs)
  obtain d0 q0 where p: "p = (d0, q0)" by (cases p)
  obtain r pib1 q1 where poll: "DeviceQueue_poll_next_action timer_ready fresh cx pib q0 = (r, pib1, q1)"
    by (metis prod_cases3)
  show ?case
  proof (cases r)
    case (Ready y)
    with Cons.prems(2) p poll show ?thesis by (intro Cons.prems(1) [of "[]" q0 qs "[]" q1 pib]) auto
  next
    case Pending
    with Cons.prems(2) p poll obtain qs2
      where rest: "DataService_poll_queues timer_ready fresh cx pib1 qs = (Some (d, x), pib', qs2)"
      and qs': "qs' = (d0, q1) # qs2"
      by (auto split: prod.splits)
    obtain qs1 qs1' q q' rest pib2 where "qs = qs1 @ (d, q) # rest" "qs2 = qs1' @ (d, q') # rest"
      "DataService_poll_queues timer_ready fresh cx pib1 qs1 = (None, pib2, qs1')"
      "DeviceQueue_poll_next_action timer_ready fresh cx pib2 q = (Ready x, pib', q')"
      using Cons.IH [OF _ rest] by blast
    with p poll Pending qs' show ?thesis
      by (intro Cons.prems(1) [of "(d0, q0) # qs1" q rest "(d0, q1) # qs1'" q' pib2]) simp_all
  qed
qed simp

lemma queues_work_append [simp]: "queues_work (qs @ qs') = queues_work qs + queues_work qs'"
  "queues_work (p # qs) = queue_work (snd p) + queues_work qs" "queues_work [] = 0"
  by (simp_all add: queues_work_def case_prod_unfold)

lemma poll_queues_work_Some:
  assumes "DataService_poll_queues timer_ready fresh cx pib qs = (Some (d, x), pib', qs')"
  shows "queues_work qs' \<le> queues_work qs" "d \<in> fst ` set qs'" "map fst qs' = map fst qs"
    "x = DeviceQueueAction_SetPending b \<or> x = DeviceQueueAction_ReportResult k r \<Longrightarrow>
      queues_work qs' < queues_work qs"
proof -
  obtain qs1 qs1' q q' rest pib1 where *: "qs = qs1 @ (d, q) # rest" "qs' = qs1' @ (d, q') # rest"
    "DataService_poll_queues timer_ready fresh cx pib qs1 = (None, pib1, qs1')"
    "DeviceQueue_poll_next_action timer_ready fresh cx pib1 q = (Ready x, pib', q')"
    by (rule poll_queues_Some [OF assms])
  note w = poll_queues_work_None [OF *(3)] poll_work_Ready [OF *(4)]
  show "queues_work qs' \<le> queues_work qs" "d \<in> fst ` set qs'" "map fst qs' = map fst qs"
    using w(1,2) by (simp_all add: *)
  show "x = DeviceQueueAction_SetPending b \<or> x = DeviceQueueAction_ReportResult k r \<Longrightarrow>
      queues_work qs' < queues_work qs"
    using w(1) w(3) [of b k r] by (simp add: *)
qed

lemma queues_work_delete: "d \<in> fst ` set qs \<Longrightarrow> queues_work (AList.delete d qs) < queues_work qs"
proof (induction qs)
  case (Cons p qs)
  have le: "queues_work (AList.delete d qs) \<le> queues_work qs" for qs
    by (induction qs) (auto simp: le_SucI)
  have "0 < queue_work (snd p)" by (simp add: queue_work_def)
  with Cons le [of qs] show ?case by (cases p) (auto simp: le_imp_less_Suc)
qed simp

lemma retry_decreases:
  assumes "(Some (d, x), pib', qs') = DataService_poll_queues timer_ready fresh cx pib qs"
  shows "queues_work (AList.delete d qs') < queues_work qs"
    and "x = DeviceQueueAction_SetPending b \<Longrightarrow> queues_work qs' < queues_work qs"
    and "x = DeviceQueueAction_ReportResult k r \<Longrightarrow> queues_work qs' < queues_work qs"
  using queues_work_delete poll_queues_work_Some [OF assms [symmetric]] by fastforce+

function DataService_poll_action :: "'bm handle_map_ops \<Rightarrow> timer_ready \<Rightarrow> process_unique_id \<Rightarrow>
    waker \<Rightarrow> pib \<Rightarrow> 'bm data_service \<Rightarrow>
    (data_service_action poll \<times> pib \<times> 'bm data_service) outcome" where
  "DataService_poll_action bm timer_ready fresh cx pib self =
     (case CombinedPendingTable_poll_action fresh cx (ds_pending_table self) of
        (Ready x, table) \<Rightarrow>
          Return (Ready (DataServiceAction_from x), pib, self\<lparr>ds_pending_table := table\<rparr>)
      | (Pending, table) \<Rightarrow>
          (case DataService_poll_queues timer_ready fresh cx pib (queues self) of
             (None, pib, qs) \<Rightarrow>
               Return (Pending, pib, self\<lparr>ds_pending_table := table, queues := qs,
                 ds_waker := WakerStore_register (ds_waker self) cx\<rparr>)
           | (Some (dest, x), pib, qs) \<Rightarrow>
               (case x of
                  DeviceQueueAction_Empty \<Rightarrow>
                    DataService_poll_action bm timer_ready fresh cx pib
                      (self\<lparr>ds_pending_table := table, queues := AList.delete dest qs\<rparr>)
                | DeviceQueueAction_SetPending pending \<Rightarrow>
                    bind_outcome (CombinedPendingTable_set dest pending table) (\<lambda>table.
                      DataService_poll_action bm timer_ready fresh cx pib
                        (self\<lparr>ds_pending_table := table, queues := qs\<rparr>))
                | DeviceQueueAction_SendFrame key frame \<Rightarrow>
                    Return (Ready (DataServiceAction_SendFrame key frame), pib,
                      self\<lparr>ds_pending_table := table, queues := qs\<rparr>)
                | DeviceQueueAction_ReportResult key res \<Rightarrow>
                    (case bm_remove_by_right bm key (msdu_handles self) of
                       (Some (handle, _), hmap) \<Rightarrow>
                         Return (Ready (DataServiceAction_Confirm (McpsConfirm_Data
                             \<lparr>dc_msdu_handle = handle,
                              dc_ack_payload = map_err DeviceQueueError_into_mcps res\<rparr>)), pib,
                           self\<lparr>ds_pending_table := table, queues := qs, msdu_handles := hmap\<rparr>)
                     | (None, hmap) \<Rightarrow>
                         DataService_poll_action bm timer_ready fresh cx pib
                           (self\<lparr>ds_pending_table := table, queues := qs, msdu_handles := hmap\<rparr>)))))"
  by pat_completeness auto
termination
  by (relation "measure (\<lambda>(bm, timer_ready, fresh, cx, pib, self). queues_work (queues self))")
    (auto simp: retry_decreases)

declare DataService_poll_action.simps [simp del]

definition DataService_process_init_pending_table_result ::
    "unique_key \<Rightarrow> bool \<Rightarrow> 'bm data_service \<Rightarrow> 'bm data_service" where
  "DataService_process_init_pending_table_result key success self =
     self\<lparr>ds_pending_table :=
       CombinedPendingTable_report_init_result key success (ds_pending_table self)\<rparr>"

definition DataService_process_set_pending_result ::
    "unique_key \<Rightarrow> bool \<Rightarrow> 'bm data_service \<Rightarrow> 'bm data_service outcome" where
  "DataService_process_set_pending_result key success self =
     bind_outcome (CombinedPendingTable_report_update_result key success (ds_pending_table self))
       (\<lambda>table. Return (self\<lparr>ds_pending_table := table\<rparr>))"

definition DataService_process_send_result ::
    "sleep_fn \<Rightarrow> unique_key \<Rightarrow> bool \<Rightarrow> 'bm data_service \<Rightarrow> 'bm data_service" where
  "DataService_process_send_result sleep key success self =
     self\<lparr>queues := hm_map_values (DeviceQueue_process_send_result sleep key success) (queues self)\<rparr>"

definition DataService_process_frame_ack :: "frame \<Rightarrow> payload \<Rightarrow> 'bm data_service \<Rightarrow> 'bm data_service" where
  "DataService_process_frame_ack frm pl self =
     self\<lparr>queues := hm_map_values
       (DeviceQueue_process_acknowledge (sequence_number frm) (payload_bytes pl)) (queues self)\<rparr>"

definition DataService_process_frame_data_request :: "pib \<Rightarrow> frame \<Rightarrow> 'bm data_service \<Rightarrow> 'bm data_service" where
  "DataService_process_frame_data_request pib frm self =
     (if destination frm = Some (PIB_get_full_short_address pib)
         \<or> destination frm = Some (PIB_get_full_extended_address pib)
      then self\<lparr>queues := hm_modify (source frm) DeviceQueue_process_datarequest (queues self)\<rparr>
      else self)"

definition DataService_process_frame :: "pib \<Rightarrow> frame \<Rightarrow> 'bm data_service \<Rightarrow> 'bm data_service" where
  "DataService_process_frame pib frm self =
     (case frame_type frm of
        FrameType_Ack pl \<Rightarrow> DataService_process_frame_ack frm pl self
      | FrameType_Command Command_DataRequest \<Rightarrow> DataService_process_frame_data_request pib frm self
      | _ \<Rightarrow> self)"

definition DataService_process_mcps_data_request :: "'bm handle_map_ops \<Rightarrow> sleep_fn \<Rightarrow>
    process_unique_id \<Rightarrow> pib \<Rightarrow> data_request \<Rightarrow> 'bm data_service \<Rightarrow>
    mcps_confirm option \<times> 'bm data_service" where
  "DataService_process_mcps_data_request bm sleep fresh pib request self =
     (let key = UniqueKey_new fresh;
          internal_request =
            \<lparr>rq_key = key,
             rq_destination = dr_destination request,
             rq_source_mode = dr_source_addressing_mode request,
             rq_acknowledge_request = dr_ack_tx request,
             rq_indirect = dr_indirect_tx request,
             rq_content = FrameType_Data (Payload (dr_msdu request))\<rparr>;
          self = DataService_insert sleep pib internal_request self;
          self = self\<lparr>msdu_handles := bm_insert bm (dr_msdu_handle request) key (msdu_handles self)\<rparr>
      in (None, self))"

definition DataService_process_mcps_purge_request :: "'bm handle_map_ops \<Rightarrow> purge_request \<Rightarrow>
    'bm data_service \<Rightarrow> mcps_confirm \<times> 'bm data_service" where
  "DataService_process_mcps_purge_request bm request self =
     (case bm_remove_by_left bm (pr_msdu_handle request) (msdu_handles self) of
        (Some (handle, key), hmap) \<Rightarrow>
          (McpsConfirm_Purge \<lparr>pc_msdu_handle = handle, pc_status = Ok ()\<rparr>,
           snd (DataService_remove key (self\<lparr>msdu_handles := hmap\<rparr>)))
      | (None, hmap) \<Rightarrow>
          (McpsConfirm_Purge \<lparr>pc_msdu_handle = pr_msdu_handle request, pc_status = Err InvalidHandle\<rparr>,
           self\<lparr>msdu_handles := hmap\<rparr>))"

fun DataService_process_mcps_request :: "'bm handle_map_ops \<Rightarrow> sleep_fn \<Rightarrow> process_unique_id \<Rightarrow>
    pib \<Rightarrow> mcps_request \<Rightarrow> 'bm data_service \<Rightarrow> mcps_confirm option \<times> 'bm data_service" where
  "DataService_process_mcps_request bm sleep fresh pib (Mcps_Data r) self =
     DataService_process_mcps_data_request bm sleep fresh pib r self"
| "DataService_process_mcps_request bm sleep fresh pib (Mcps_Purge r) self =
     (case DataService_process_mcps_purge_request bm r self of (c, self) \<Rightarrow> (Some c, self))"

text \<open>\<^verbatim>\<open>match response {}\<close>: there is no response, so this is never called.\<close>

definition DataService_process_mcps_response :: "mcps_response \<Rightarrow> 'bm data_service \<Rightarrow> 'bm data_service" where
  "DataService_process_mcps_response response self = self"

section \<open>The keys in the queues\<close>

definition queued :: "(full_address option, device_queue) hash_map \<Rightarrow> unique_key multiset" where
  "queued qs = sum_list (map (\<lambda>p. mset (queue_keys (snd p))) qs)"

lemma queued_simps [simp]:
  "queued [] = {#}" "queued (p # qs) = mset (queue_keys (snd p)) + queued qs"
  "queued (qs @ qs') = queued qs + queued qs'"
  by (simp_all add: queued_def)

lemma queued_hm_map_values:
  "(\<And>q. queue_keys (f q) = queue_keys q) \<Longrightarrow> queued (hm_map_values f qs) = queued qs"
  by (induction qs) (auto simp: hm_map_values_def)

lemma queued_hm_modify_same:
  "(\<And>q. queue_keys (f q) = queue_keys q) \<Longrightarrow> queued (hm_modify d f qs) = queued qs"
  by (induction qs) (auto simp: hm_modify_def)

lemma hm_modify_absent: "d \<notin> fst ` set qs \<Longrightarrow> hm_modify d f qs = qs"
  by (induction qs) (auto simp: hm_modify_def)

lemma queued_hm_modify_add:
  assumes "hm_wf qs" "map_of qs d = Some q" "mset (queue_keys (f q)) = add_mset k (mset (queue_keys q))"
  shows "queued (hm_modify d f qs) = add_mset k (queued qs)"
  using assms
proof (induction qs)
  case (Cons p qs)
  obtain d' q' where p: "p = (d', q')" by (cases p)
  show ?case
  proof (cases "d' = d")
    case True
    then have "hm_modify d f qs = qs" using Cons.prems(1) p by (intro hm_modify_absent) (simp add: hm_wf_def)
    with True p Cons.prems show ?thesis by (simp add: hm_modify_def)
  next
    case False
    with p Cons show ?thesis by (simp add: hm_wf_def hm_modify_def)
  qed
qed simp

lemma process_keeps_keys [simp]:
  "queue_keys (DeviceQueue_process_send_result sleep k ok q) = queue_keys q"
  "queue_keys (DeviceQueue_process_acknowledge s p q) = queue_keys q"
  "queue_keys (DeviceQueue_process_datarequest q) = queue_keys q"
  by (auto simp: DeviceQueue_process_send_result_def DeviceQueue_process_acknowledge_def
      DeviceQueue_process_datarequest_def
      split: device_queue_state.splits option.splits list.splits)
    (auto simp: queue_keys_def)

lemma queued_poll_None:
  "DataService_poll_queues timer_ready fresh cx pib qs = (None, pib', qs') \<Longrightarrow> queued qs' = queued qs"
proof (induction qs arbitrary: pib qs')
  case (Cons p qs)
  obtain d q where p: "p = (d, q)" by (cases p)
  obtain r pib1 q1 where poll: "DeviceQueue_poll_next_action timer_ready fresh cx pib q = (r, pib1, q1)"
    by (metis prod_cases3)
  with Cons.prems p obtain qs1 where r: "r = Pending"
    and rest: "DataService_poll_queues timer_ready fresh cx pib1 qs = (None, pib', qs1)" "qs' = (d, q1) # qs1"
    by (auto split: poll.splits prod.splits)
  from poll_keys [OF poll, of undefined] r Cons.IH [OF rest(1)] rest(2) p show ?case by simp
qed simp

fun action_keys :: "device_queue_action \<Rightarrow> unique_key multiset" where
  "action_keys (DeviceQueueAction_ReportResult k _) = {#k#}"
| "action_keys _ = {#}"

lemma queued_poll_Some:
  assumes "DataService_poll_queues timer_ready fresh cx pib qs = (Some (d, x), pib', qs')"
  shows "queued qs = queued qs' + action_keys x"
proof -
  obtain qs1 qs1' q q' rest pib1 where *: "qs = qs1 @ (d, q) # rest" "qs' = qs1' @ (d, q') # rest"
    "DataService_poll_queues timer_ready fresh cx pib qs1 = (None, pib1, qs1')"
    "DeviceQueue_poll_next_action timer_ready fresh cx pib1 q = (Ready x, pib', q')"
    by (rule poll_queues_Some [OF assms])
  have "mset (queue_keys q) = mset (queue_keys q') + action_keys x"
    using poll_keys [OF *(4), of undefined] by (cases x) simp_all
  with queued_poll_None [OF *(3)] show ?thesis by (simp add: *(1,2) ac_simps)
qed

lemma poll_Empty:
  "DeviceQueue_poll_next_action timer_ready fresh cx pib q = (Ready DeviceQueueAction_Empty, pib', q') \<Longrightarrow>
    entries q' = [] \<and> last_pending_reported q' = Some False"
  by (cases rule: poll_cases [of timer_ready fresh cx pib q]) auto

lemma delete_middle:
  "hm_wf (qs1 @ (d, q) # rest) \<Longrightarrow> AList.delete d (qs1 @ (d, q) # rest) = qs1 @ rest"
  by (induction qs1) (auto simp: hm_wf_def intro: delete_idem)

lemma hm_wf_poll:
  "DataService_poll_queues timer_ready fresh cx pib qs = (r, pib', qs') \<Longrightarrow> hm_wf qs \<Longrightarrow> hm_wf qs'"
  by (cases r) (auto simp: hm_wf_def dest!: poll_queues_work_None poll_queues_work_Some(3))

lemma queued_poll_Empty:
  assumes "DataService_poll_queues timer_ready fresh cx pib qs = (Some (d, DeviceQueueAction_Empty), pib', qs')"
    and "hm_wf qs"
  shows "queued (AList.delete d qs') = queued qs"
proof -
  obtain qs1 qs1' q q' rest pib1 where *: "qs = qs1 @ (d, q) # rest" "qs' = qs1' @ (d, q') # rest"
    "DataService_poll_queues timer_ready fresh cx pib qs1 = (None, pib1, qs1')"
    "DeviceQueue_poll_next_action timer_ready fresh cx pib1 q = (Ready DeviceQueueAction_Empty, pib', q')"
    by (rule poll_queues_Some [OF assms(1)])
  have "hm_wf qs'" by (rule hm_wf_poll [OF assms])
  then have "AList.delete d qs' = qs1' @ rest" unfolding *(2) by (rule delete_middle)
  moreover have "queue_keys q' = []" using poll_Empty [OF *(4)] by (simp add: queue_keys_def)
  ultimately show ?thesis using queued_poll_Some [OF assms(1)] by (simp add: *(2))
qed

lemma distinct_from_count:
  assumes "\<And>x. count (mset xs) x \<le> 1"
  shows "distinct xs"
proof -
  have "count (mset xs) x = (if x \<in> set xs then 1 else 0)" for x
    using assms [of x] by (cases "x \<in> set xs") (auto intro!: le_antisym simp: Suc_le_eq)
  then show ?thesis by (simp add: distinct_count_atmost_1)
qed

lemma queued_remove_from_True: "DataService_remove_from k True qs = (True, qs)"
  by (induction qs) auto

lemma queued_remove_from:
  assumes "\<And>x. count (queued qs) x \<le> 1" "DataService_remove_from k False qs = (removed, qs')"
  shows "queued qs' = queued qs - {#k#} \<and> map fst qs' = map fst qs"
  using assms
proof (induction qs arbitrary: removed qs')
  case (Cons p qs)
  obtain d q where p: "p = (d, q)" by (cases p)
  obtain b q1 where rem: "DeviceQueue_remove k q = (b, q1)" by fastforce
  have b: "b = (k \<in> set (queue_keys q))" and keys: "queue_keys q1 = removeAll k (queue_keys q)"
    using DeviceQueue_remove_entries(2) [OF rem] queue_keys_remove [OF rem] by simp_all
  have "count (mset (queue_keys q)) x \<le> 1" for x using Cons.prems(1) [of x] p by simp
  then have dist: "distinct (queue_keys q)" by (rule distinct_from_count)
  show ?case
  proof (cases b)
    case True
    have "mset (removeAll k (queue_keys q)) = mset (queue_keys q) - {#k#}"
      using dist by (metis distinct_remove1_removeAll mset_remove1)
    with True b keys rem p Cons.prems(2) show ?thesis
      by (auto simp: queued_remove_from_True)
  next
    case False
    then obtain qs1 where "DataService_remove_from k False qs = (removed, qs1)" "qs' = (d, q1) # qs1"
      using rem p Cons.prems(2) by (auto split: prod.splits)
    moreover have "count (queued qs) x \<le> 1" for x using Cons.prems(1) [of x] p by simp
    ultimately have "qs' = (d, q1) # qs1" "queued qs1 = queued qs - {#k#}" "map fst qs1 = map fst qs"
      using Cons.IH by blast+
    moreover have "queue_keys q1 = queue_keys q" using False b keys by (simp add: removeAll_id)
    moreover have "mset (queue_keys q) + (queued qs - {#k#}) = mset (queue_keys q) + queued qs - {#k#}"
    proof (rule multiset_eqI)
      fix x
      show "count (mset (queue_keys q) + (queued qs - {#k#})) x =
          count (mset (queue_keys q) + queued qs - {#k#}) x"
        using False b by (cases "x = k") (simp_all add: count_mset_0_iff [THEN iffD2])
    qed
    ultimately show ?thesis using p by simp
  qed
qed simp

section \<open>The pending bits that were reported\<close>

text \<open>The last pending bit that the queue of a destination reported.\<close>

definition reported :: "(full_address option, device_queue) hash_map \<Rightarrow> full_address option \<Rightarrow>
    bool option" where
  "reported qs d = Option.bind (map_of qs d) last_pending_reported"

lemma reported_hm_map_values:
  "(\<And>q. last_pending_reported (f q) = last_pending_reported q) \<Longrightarrow>
    reported (hm_map_values f qs) = reported qs"
  by (rule ext) (simp add: reported_def split: Option.bind_split)

lemma reported_hm_modify:
  "(\<And>q. last_pending_reported (f q) = last_pending_reported q) \<Longrightarrow>
    reported (hm_modify d f qs) = reported qs"
  by (rule ext) (simp add: reported_def split: Option.bind_split)

lemma keeps_last_pending [simp]:
  "last_pending_reported (DeviceQueue_process_send_result sleep k ok q) = last_pending_reported q"
  "last_pending_reported (DeviceQueue_process_acknowledge s p q) = last_pending_reported q"
  "last_pending_reported (DeviceQueue_process_datarequest q) = last_pending_reported q"
  "last_pending_reported (snd (DeviceQueue_insert sleep pib r q)) = last_pending_reported q"
  "last_pending_reported (snd (DeviceQueue_remove k q)) = last_pending_reported q"
  by (auto simp: DeviceQueue_process_send_result_def DeviceQueue_process_acknowledge_def
      DeviceQueue_process_datarequest_def DeviceQueue_insert_def DeviceQueue_remove_def
      DeviceQueue_wake_def Let_def split: device_queue_state.splits option.splits list.splits)

lemma reported_remove_from:
  "DataService_remove_from k b qs = (b', qs') \<Longrightarrow> reported qs' = reported qs"
proof (induction qs arbitrary: b b' qs')
  case (Cons p qs)
  obtain d q where p: "p = (d, q)" by (cases p)
  obtain b1 q1 where q1: "(if b then (True, q) else DeviceQueue_remove k q) = (b1, q1)" by fastforce
  have "last_pending_reported q1 = last_pending_reported q"
    using q1 keeps_last_pending(5) [of k q] by (cases b) simp_all
  moreover obtain qs1 where "DataService_remove_from k b1 qs = (b', qs1)" "qs' = (d, q1) # qs1"
    using Cons.prems p q1 by (auto split: prod.splits)
  ultimately show ?case using Cons.IH p by (auto simp: reported_def fun_eq_iff)
qed simp

lemma poll_last_pending:
  "DeviceQueue_poll_next_action timer_ready fresh cx pib q = (r, pib', q') \<Longrightarrow>
    last_pending_reported q' = (case r of Ready (DeviceQueueAction_SetPending b) \<Rightarrow> Some b
      | _ \<Rightarrow> last_pending_reported q)"
  by (cases rule: poll_cases [of timer_ready fresh cx pib q]) (auto simp: settles_def)

text \<open>A queue that waits: something is in it, and the bit that fits its front is the one reported.\<close>

definition queue_quiet :: "device_queue \<Rightarrow> bool" where
  "queue_quiet q \<longleftrightarrow> entries q \<noteq> [] \<and> last_pending_reported q = Some (rq_indirect (qe_data (hd (entries q))))"

lemma poll_quiet:
  assumes "DeviceQueue_poll_next_action timer_ready fresh cx pib q = (Pending, pib', q')"
  shows "queue_quiet q'"
proof -
  let ?b = "case entries q of [] \<Rightarrow> False | e # _ \<Rightarrow> rq_indirect (qe_data e)"
  have "last_pending_reported q = Some ?b"
  proof (rule ccontr)
    assume "last_pending_reported q \<noteq> Some ?b"
    then have "fst (DeviceQueue_poll_next_action timer_ready fresh cx pib q) =
        Ready (DeviceQueueAction_SetPending ?b)"
      by (simp add: DeviceQueue_poll_next_action_def Let_def)
    with assms show False by simp
  qed
  then show ?thesis
    using assms by (cases rule: poll_cases [of timer_ready fresh cx pib q])
      (auto simp: settles_def queue_quiet_def)
qed

lemma reported_poll_None:
  "DataService_poll_queues timer_ready fresh cx pib qs = (None, pib', qs') \<Longrightarrow>
    reported qs' = reported qs \<and> (\<forall>(d, q) \<in> set qs'. queue_quiet q)"
proof (induction qs arbitrary: pib qs')
  case (Cons p qs)
  obtain d q where p: "p = (d, q)" by (cases p)
  obtain r pib1 q1 where poll: "DeviceQueue_poll_next_action timer_ready fresh cx pib q = (r, pib1, q1)"
    by (metis prod_cases3)
  with Cons.prems p obtain qs1 where r: "r = Pending"
    and rest: "DataService_poll_queues timer_ready fresh cx pib1 qs = (None, pib', qs1)" "qs' = (d, q1) # qs1"
    by (auto split: poll.splits prod.splits)
  have "queue_quiet q1" "last_pending_reported q1 = last_pending_reported q"
    using poll r poll_quiet poll_last_pending [OF poll] by auto
  with Cons.IH [OF rest(1)] rest(2) p show ?case by (auto simp: reported_def fun_eq_iff)
qed simp

lemma reported_middle:
  "hm_wf (qs1 @ (d, q) # rest) \<Longrightarrow>
    reported (qs1 @ (d, q) # rest) = (reported (qs1 @ rest)) (d := last_pending_reported q)"
proof (rule ext)
  fix d'
  assume "hm_wf (qs1 @ (d, q) # rest)"
  then have "map_of qs1 d = None" by (auto simp: hm_wf_def map_of_eq_None_iff)
  then show "reported (qs1 @ (d, q) # rest) d' =
      ((reported (qs1 @ rest)) (d := last_pending_reported q)) d'"
    by (cases "d' = d"; cases "map_of qs1 d'") (simp_all add: reported_def map_add_def)
qed

lemma reported_append_cong: "reported qs1' = reported qs1 \<Longrightarrow> map fst qs1' = map fst qs1 \<Longrightarrow>
    reported (qs1' @ rest) = reported (qs1 @ rest)"
proof (rule ext)
  fix d
  assume *: "reported qs1' = reported qs1" "map fst qs1' = map fst qs1"
  have "map_of qs1' d = None \<longleftrightarrow> map_of qs1 d = None"
    using arg_cong [OF *(2), of set] by (simp add: map_of_eq_None_iff)
  moreover have "reported qs1' d = reported qs1 d" using *(1) by simp
  ultimately show "reported (qs1' @ rest) d = reported (qs1 @ rest) d"
    by (cases "map_of qs1 d"; cases "map_of qs1' d") (simp_all add: reported_def map_add_def)
qed

lemma reported_poll_Some:
  assumes "DataService_poll_queues timer_ready fresh cx pib qs = (Some (d, x), pib', qs')" "hm_wf qs"
  shows "reported qs' = (case x of DeviceQueueAction_SetPending b \<Rightarrow> (reported qs)(d := Some b)
      | _ \<Rightarrow> reported qs)"
    and "x = DeviceQueueAction_Empty \<Longrightarrow>
      reported qs d = Some False \<and> reported (AList.delete d qs') = (reported qs)(d := None)"
proof -
  obtain qs1 qs1' q q' rest pib1 where *: "qs = qs1 @ (d, q) # rest" "qs' = qs1' @ (d, q') # rest"
    "DataService_poll_queues timer_ready fresh cx pib qs1 = (None, pib1, qs1')"
    "DeviceQueue_poll_next_action timer_ready fresh cx pib1 q = (Ready x, pib', q')"
    by (rule poll_queues_Some [OF assms(1)])
  have wf': "hm_wf qs'" by (rule hm_wf_poll [OF assms])
  have "map fst qs1' = map fst qs1" using poll_queues_work_None [OF *(3)] by simp
  then have same: "reported (qs1' @ rest) = reported (qs1 @ rest)"
    using reported_poll_None [OF *(3)] by (intro reported_append_cong) simp_all
  have r: "reported qs = (reported (qs1 @ rest))(d := last_pending_reported q)"
    "reported qs' = (reported (qs1 @ rest))(d := last_pending_reported q')"
    using assms(2) wf' same unfolding *(1,2) by (simp_all add: reported_middle)
  then show "reported qs' = (case x of DeviceQueueAction_SetPending b \<Rightarrow> (reported qs)(d := Some b)
      | _ \<Rightarrow> reported qs)"
    using poll_last_pending [OF *(4)] by (cases x) simp_all
  assume x: "x = DeviceQueueAction_Empty"
  have "AList.delete d qs' = qs1' @ rest" using wf' unfolding *(2) by (rule delete_middle)
  moreover have "reported (qs1 @ rest) d = None"
  proof -
    have "map_of qs1 d = None" "map_of rest d = None"
      using assms(2) by (simp_all add: *(1) hm_wf_def map_of_eq_None_iff)
    then show ?thesis by (simp add: reported_def map_add_def)
  qed
  ultimately show "reported qs d = Some False \<and> reported (AList.delete d qs') = (reported qs)(d := None)"
    using poll_last_pending [OF *(4)] poll_Empty [OF *(4) [unfolded x]] x r same by (auto simp: fun_eq_iff)
qed

text \<open>The addresses in the table for short addresses are those whose queue last reported pending data.\<close>

definition short_destination :: "panid \<times> short_address \<Rightarrow> full_address option" where
  "short_destination v = Some \<lparr>pan_id = fst v, address = Address_Short (snd v)\<rparr>"

definition bits_ok :: "(full_address option \<Rightarrow> bool option) \<Rightarrow> combined_pending_table \<Rightarrow> bool" where
  "bits_ok rep t \<longleftrightarrow> (\<forall>v. v \<in> pt_values (cpt_short t) \<longleftrightarrow> rep (short_destination v) = Some True)"

lemma values_set_short:
  assumes "tables_ok t" "CombinedPendingTable_set (short_destination v) b t = Return t'"
  shows "pt_values (cpt_short t') =
    (if b then insert v (pt_values (cpt_short t)) else pt_values (cpt_short t) - {v})"
proof -
  have inv: "pt_inv (cpt_short t)" "0 < length (pt_table (cpt_short t))"
    using assms(1) by (auto simp: tables_ok_def)
  have "\<exists>u. PendingTable_set v b (cpt_short t) = Return u \<and>
      pt_values u = (if b then insert v (pt_values (cpt_short t)) else pt_values (cpt_short t) - {v})"
  proof (cases b)
    case True
    obtain u where "PendingTable_insert v (cpt_short t) = Return (v \<notin> pt_values (cpt_short t), u)"
      "pt_values u = insert v (pt_values (cpt_short t))"
      by (rule PendingTable_insert_correct [OF inv])
    with True show ?thesis by (simp add: PendingTable_set_def)
  next
    case False
    obtain u where "PendingTable_remove v (cpt_short t) = (v \<in> pt_values (cpt_short t), u)"
      "pt_values u = pt_values (cpt_short t) - {v}"
      by (rule PendingTable_remove_correct [OF inv(1)])
    with False show ?thesis by (simp add: PendingTable_set_def)
  qed
  then obtain u where u: "PendingTable_set v b (cpt_short t) = Return u"
    "pt_values u = (if b then insert v (pt_values (cpt_short t)) else pt_values (cpt_short t) - {v})"
    by blast
  then have "t' = t\<lparr>cpt_short := u\<rparr>"
    using assms(2) by (simp add: short_destination_def CombinedPendingTable_set_def)
  with u(2) show ?thesis by simp
qed

lemma values_set_other:
  assumes "\<And>v. d \<noteq> short_destination v" "CombinedPendingTable_set d b t = Return t'"
  shows "cpt_short t' = cpt_short t"
proof (cases d)
  case None
  then show ?thesis using assms(2) by (auto simp: CombinedPendingTable_set_def)
next
  case (Some full)
  have "address full \<noteq> Address_Short a" for a
    using assms(1) [of "(pan_id full, a)"] by (auto simp: Some short_destination_def)
  then obtain a where "address full = Address_Extended a" by (cases "address full") auto
  with assms(2) Some show ?thesis
    by (auto simp: CombinedPendingTable_set_def bind_outcome_eq_Return_iff)
qed

lemma bits_ok_set:
  assumes "tables_ok t" "bits_ok rep t" "CombinedPendingTable_set d b t = Return t'"
  shows "bits_ok (rep(d := Some b)) t'"
  unfolding bits_ok_def
proof
  fix w
  have w: "w \<in> pt_values (cpt_short t) \<longleftrightarrow> rep (short_destination w) = Some True"
    using assms(2) unfolding bits_ok_def by (rule spec)
  show "w \<in> pt_values (cpt_short t') \<longleftrightarrow> (rep(d := Some b)) (short_destination w) = Some True"
  proof (cases "\<exists>v. d = short_destination v")
    case True
    then obtain v where d: "d = short_destination v" by blast
    have "short_destination w = d \<longleftrightarrow> w = v"
      by (auto simp: d short_destination_def prod_eq_iff)
    then show ?thesis using values_set_short [OF assms(1) assms(3) [unfolded d]] w by (cases "w = v") simp_all
  next
    case False
    then have ne: "d \<noteq> short_destination v" for v by blast
    then have "cpt_short t' = cpt_short t" by (rule values_set_other [OF _ assms(3)])
    then show ?thesis using w ne [of w] by simp
  qed
qed

lemma bits_ok_drop: "bits_ok rep t \<Longrightarrow> rep d = Some False \<Longrightarrow> bits_ok (rep(d := None)) t"
  by (auto simp: bits_ok_def)

lemma tables_ok_report_update:
  assumes "tables_ok t"
  obtains t' where "CombinedPendingTable_report_update_result k ok t = Return t'" "tables_ok t'"
    "pt_values (cpt_short t') = pt_values (cpt_short t)"
proof -
  obtain ts te where r: "PendingTable_report_update_result k ok (cpt_short t) = Return ts"
    "pt_values ts = pt_values (cpt_short t)"
    "PendingTable_report_update_result k ok (cpt_extended t) = Return te"
    using assms PendingTable_report_correct [of "cpt_short t" k ok]
      PendingTable_report_correct [of "cpt_extended t" k ok]
    by (metis tables_ok_def)
  then have "CombinedPendingTable_report_update_result k ok t = Return (t\<lparr>cpt_short := ts, cpt_extended := te\<rparr>)"
    by (simp add: CombinedPendingTable_report_update_result_def)
  with report_frame(1) [OF assms this] r(2) show thesis by (intro that [of "t\<lparr>cpt_short := ts, cpt_extended := te\<rparr>"]) simp_all
qed

lemma tables_ok_report_init:
  assumes "tables_ok t"
  shows "tables_ok (CombinedPendingTable_report_init_result k ok t)"
    "pt_values (cpt_short (CombinedPendingTable_report_init_result k ok t)) = pt_values (cpt_short t)"
  using assms by (simp_all add: CombinedPendingTable_report_init_result_def tables_ok_def Let_def
      PendingTable_assume_empty_correct)

lemma values_poll_action:
  assumes "tables_ok t" "CombinedPendingTable_poll_action fresh cx t = (r, t')"
  shows "pt_values (cpt_short t') = pt_values (cpt_short t)"
proof -
  obtain rs us where p: "PendingTable_poll_update fresh cx (cpt_short t) = (rs, us)"
    by (cases "PendingTable_poll_update fresh cx (cpt_short t)")
  obtain re ue where p': "PendingTable_poll_update fresh cx (cpt_extended t) = (re, ue)"
    by (cases "PendingTable_poll_update fresh cx (cpt_extended t)")
  have "pt_inv (cpt_short t)" using assms(1) by (simp add: tables_ok_def)
  then have "pt_values us = pt_values (cpt_short t)" by (rule PendingTable_poll_update_correct(3) [OF _ p])
  moreover have "cpt_short t' = cpt_short t \<or> cpt_short t' = us"
    using assms(2) by (auto simp: CombinedPendingTable_poll_action_def Let_def p p' split: if_splits poll.splits)
  ultimately show ?thesis by metis
qed

section \<open>Requests through MCPS\<close>

text \<open>
  The invariant of the service: every handle stands for a request that is still in a queue,
  and no key is in the queues twice.
\<close>

definition ds_inv :: "('bm \<Rightarrow> (msdu_handle \<times> unique_key) set) \<Rightarrow> 'bm data_service \<Rightarrow> bool" where
  "ds_inv pairs s \<longleftrightarrow> hm_wf (queues s) \<and> tables_ok (ds_pending_table s) \<and>
     bits_ok (reported (queues s)) (ds_pending_table s) \<and>
     (\<forall>k. count (queued (queues s)) k \<le> 1) \<and>
     snd ` pairs (msdu_handles s) \<subseteq> set_mset (queued (queues s))"

fun confirmed_handles :: "data_service_action poll \<Rightarrow> msdu_handle list" where
  "confirmed_handles (Ready (DataServiceAction_Confirm (McpsConfirm_Data c))) = [dc_msdu_handle c]"
| "confirmed_handles _ = []"

lemma ds_inv_cong:
  "queued (queues s') = queued (queues s) \<Longrightarrow> map fst (queues s') = map fst (queues s) \<Longrightarrow>
    reported (queues s') = reported (queues s) \<Longrightarrow> msdu_handles s' = msdu_handles s \<Longrightarrow>
    tables_ok (ds_pending_table s') \<Longrightarrow>
    pt_values (cpt_short (ds_pending_table s')) = pt_values (cpt_short (ds_pending_table s)) \<Longrightarrow>
    ds_inv pairs s \<Longrightarrow> ds_inv pairs s'"
  by (simp add: ds_inv_def hm_wf_def bits_ok_def)

lemma ds_inv_insert:
  assumes "ds_inv pairs s" "rq_key r \<notin># queued (queues s)"
  shows "ds_inv pairs (DataService_insert sleep pib r s)"
    and "queued (queues (DataService_insert sleep pib r s)) = add_mset (rq_key r) (queued (queues s))"
    and "msdu_handles (DataService_insert sleep pib r s) = msdu_handles s"
proof -
  let ?s = "DataService_insert sleep pib r s"
  have ins: "queue_keys (snd (DeviceQueue_insert sleep pib r q)) = queue_keys q @ [rq_key r]"
    if "rq_key r \<notin> set (queue_keys q)" for q
    using that queue_keys_insert [of sleep pib r q] by (cases "DeviceQueue_insert sleep pib r q") auto
  have "queued (queues ?s) = add_mset (rq_key r) (queued (queues s)) \<and> hm_wf (queues ?s) \<and>
      tables_ok (ds_pending_table ?s) \<and> bits_ok (reported (queues ?s)) (ds_pending_table ?s)"
  proof (cases "map_of (queues s) (rq_destination r)")
    case None
    have "queue_keys DeviceQueue_new = []" by (simp add: queue_keys_def DeviceQueue_new_def)
    then have new: "queue_keys (snd (DeviceQueue_insert sleep pib r DeviceQueue_new)) = [rq_key r]"
      using ins [of DeviceQueue_new] by simp
    have "rq_destination r \<notin> fst ` set (queues s)" using None by (simp add: map_of_eq_None_iff)
    have "AList.update (rq_destination r) q (queues s) = queues s @ [(rq_destination r, q)]" for q
      using None by (rule update_fresh)
    moreover have "reported (queues s @ [(rq_destination r, q)]) = reported (queues s)"
      if "last_pending_reported q = None" for q
      using that None by (auto simp: reported_def fun_eq_iff map_add_def split: option.splits)
    moreover have "last_pending_reported (snd (DeviceQueue_insert sleep pib r DeviceQueue_new)) = None"
      by (simp add: DeviceQueue_new_def)
    ultimately show ?thesis using None new assms(1) \<open>rq_destination r \<notin> fst ` set (queues s)\<close>
      by (simp add: DataService_insert_def Let_def ds_inv_def hm_wf_def)
  next
    case (Some q)
    have "mset (queue_keys q) \<subseteq># queued (queues s)"
      using map_of_SomeD [OF Some] by (auto simp: queued_def in_set_conv_decomp)
    then have "rq_key r \<notin> set (queue_keys q)" using assms(2) by (metis mset_subset_eqD set_mset_mset)
    with Some ins [of q] assms(1) show ?thesis
      by (auto simp: DataService_insert_def ds_inv_def reported_hm_modify intro!: queued_hm_modify_add)
  qed
  moreover show "msdu_handles ?s = msdu_handles s"
    by (auto simp: DataService_insert_def Let_def split: option.splits)
  ultimately show "ds_inv pairs ?s" "queued (queues ?s) = add_mset (rq_key r) (queued (queues s))"
    using assms by (auto simp: ds_inv_def not_in_iff)
qed

text \<open>The bidirectional map at the types of the service.\<close>

locale handle_map = bimap_crate bm pairs
  for bm :: "'bm handle_map_ops" and pairs :: "'bm \<Rightarrow> (msdu_handle \<times> unique_key) set"
begin

lemma ds_inv_data_request:
  assumes "ds_inv pairs s" "UniqueKey_new fresh \<notin># queued (queues s)"
    and "dr_msdu_handle r \<notin> fst ` pairs (msdu_handles s)"
    and "DataService_process_mcps_data_request bm sleep fresh pib r s = (c, s')"
  shows "ds_inv pairs s'" "c = None"
    "pairs (msdu_handles s') = insert (dr_msdu_handle r, UniqueKey_new fresh) (pairs (msdu_handles s))"
proof -
  let ?r = "\<lparr>rq_key = UniqueKey_new fresh, rq_destination = dr_destination r,
     rq_source_mode = dr_source_addressing_mode r, rq_acknowledge_request = dr_ack_tx r,
     rq_indirect = dr_indirect_tx r, rq_content = FrameType_Data (Payload (dr_msdu r))\<rparr>"
  let ?s = "DataService_insert sleep pib ?r s"
  have c: "c = None" and s': "s' = ?s\<lparr>msdu_handles :=
      bm_insert bm (dr_msdu_handle r) (UniqueKey_new fresh) (msdu_handles ?s)\<rparr>"
    using assms(4) by (simp_all add: DataService_process_mcps_data_request_def Let_def)
  have "rq_key ?r \<notin># queued (queues s)" using assms(2) by simp
  note ins = ds_inv_insert [OF assms(1) this, of sleep pib]
  have "l \<noteq> dr_msdu_handle r \<and> k \<noteq> UniqueKey_new fresh" if "(l, k) \<in> pairs (msdu_handles s)" for l k
    using that assms(1-3) by (force simp: ds_inv_def)
  then show p: "pairs (msdu_handles s') =
      insert (dr_msdu_handle r, UniqueKey_new fresh) (pairs (msdu_handles s))"
    by (auto simp: s' ins(3) pairs_insert)
  show "c = None" by (rule c)
  show "ds_inv pairs s'"
    using ins p assms(1) by (auto simp: s' ds_inv_def)
qed

lemma ds_inv_purge:
  assumes "ds_inv pairs s" "DataService_process_mcps_purge_request bm r s = (c, s')"
  obtains (known) k where "(pr_msdu_handle r, k) \<in> pairs (msdu_handles s)"
      "c = McpsConfirm_Purge \<lparr>pc_msdu_handle = pr_msdu_handle r, pc_status = Ok ()\<rparr>"
      "ds_inv pairs s'" "pairs (msdu_handles s') = pairs (msdu_handles s) - {(pr_msdu_handle r, k)}"
      "queued (queues s') = queued (queues s) - {#k#}"
  | (unknown) "pr_msdu_handle r \<notin> fst ` pairs (msdu_handles s)"
      "c = McpsConfirm_Purge \<lparr>pc_msdu_handle = pr_msdu_handle r, pc_status = Err InvalidHandle\<rparr>"
      "ds_inv pairs s'" "pairs (msdu_handles s') = pairs (msdu_handles s)" "queues s' = queues s"
proof (cases "bm_remove_by_left bm (pr_msdu_handle r) (msdu_handles s)")
  case (Pair p m)
  show thesis
  proof (cases p)
    case None
    with Pair have n: "bm_remove_by_left bm (pr_msdu_handle r) (msdu_handles s) = (None, m)" by simp
    then have "c = McpsConfirm_Purge \<lparr>pc_msdu_handle = pr_msdu_handle r, pc_status = Err InvalidHandle\<rparr>"
      and "s' = s\<lparr>msdu_handles := m\<rparr>"
      using assms(2) by (simp_all add: DataService_process_mcps_purge_request_def)
    with remove_by_left_None [OF n] assms(1) show thesis
      by (intro unknown) (simp_all add: ds_inv_def)
  next
    case (Some hk)
    obtain h k where "hk = (h, k)" by (cases hk)
    with Pair Some have n: "bm_remove_by_left bm (pr_msdu_handle r) (msdu_handles s) = (Some (h, k), m)"
      by simp
    note rem = remove_by_left_Some [OF this]
    obtain removed qs where rf: "DataService_remove_from k False (queues s) = (removed, qs)"
      by fastforce
    have s': "s' = s\<lparr>msdu_handles := m, queues := qs\<rparr>"
      and c: "c = McpsConfirm_Purge \<lparr>pc_msdu_handle = pr_msdu_handle r, pc_status = Ok ()\<rparr>"
      using assms(2) n rem rf
      by (auto simp: DataService_process_mcps_purge_request_def DataService_remove_def)
    have q: "queued qs = queued (queues s) - {#k#}" "map fst qs = map fst (queues s)"
      using queued_remove_from [OF _ rf] assms(1) by (auto simp: ds_inv_def)
    have "k' \<noteq> k" if "(l, k') \<in> pairs m" for l k'
      using that rem pairs_right_unique by blast
    then have "snd ` pairs m \<subseteq> set_mset (queued qs)"
      using rem assms(1) unfolding q(1) by (force simp: ds_inv_def in_diff_count)
    moreover have "count (queued qs) x \<le> 1" for x
      using assms(1) unfolding q(1) ds_inv_def by (simp add: le_diff_conv le_SucI)
    ultimately have "ds_inv pairs s'"
      using assms(1) q(2) reported_remove_from [OF rf] by (simp add: s' ds_inv_def hm_wf_def)
    then show thesis using rem q(1) c by (intro known [of k]) (simp_all add: s')
  qed
qed

text \<open>What a poll does to the service: at most one handle is confirmed, and it is forgotten.\<close>

definition polled :: "'bm data_service \<Rightarrow> data_service_action poll \<Rightarrow> 'bm data_service \<Rightarrow> bool" where
  "polled s a s' \<longleftrightarrow> ds_inv pairs s' \<and> queued (queues s') \<subseteq># queued (queues s) \<and>
     pairs (msdu_handles s') \<subseteq> pairs (msdu_handles s) \<and>
     fst ` (pairs (msdu_handles s) - pairs (msdu_handles s')) = set (confirmed_handles a) \<and>
     (a = Pending \<longrightarrow> (\<forall>(d, q) \<in> set (queues s'). queue_quiet q))"

lemma polled_same:
  "ds_inv pairs s' \<Longrightarrow> queued (queues s') = queued (queues s) \<Longrightarrow>
    pairs (msdu_handles s') = pairs (msdu_handles s) \<Longrightarrow> confirmed_handles a = [] \<Longrightarrow>
    (a = Pending \<Longrightarrow> \<forall>(d, q) \<in> set (queues s'). queue_quiet q) \<Longrightarrow> polled s a s'"
  by (auto simp: polled_def)

lemma polled_retry:
  "polled s1 a s' \<Longrightarrow> queued (queues s1) \<subseteq># queued (queues s) \<Longrightarrow>
    pairs (msdu_handles s1) = pairs (msdu_handles s) \<Longrightarrow> polled s a s'"
  by (auto simp: polled_def intro: subset_mset.order_trans)

lemma ds_inv_poll_tables:
  assumes "ds_inv pairs s" "CombinedPendingTable_poll_action fresh cx (ds_pending_table s) = (r, t)"
  shows "ds_inv pairs (s\<lparr>ds_pending_table := t\<rparr>)"
  by (rule ds_inv_cong [OF _ _ _ _ _ _ assms(1)])
    (use assms tables_ok_poll(1) values_poll_action in \<open>auto simp: ds_inv_def\<close>)

lemma ds_inv_poll_None:
  assumes "ds_inv pairs s"
    "DataService_poll_queues timer_ready fresh cx pib (queues s) = (None, pib', qs)"
  shows "ds_inv pairs (s\<lparr>queues := qs\<rparr>)"
  by (rule ds_inv_cong [OF _ _ _ _ _ _ assms(1)])
    (use assms queued_poll_None reported_poll_None poll_queues_work_None in \<open>auto simp: ds_inv_def\<close>)

end

interpretation handle_map_impl: handle_map bimap_impl "\<lambda>m. set (bimap_pairs m)"
  by unfold_locales

context handle_map
begin

lemma ds_inv_queues:
  assumes "ds_inv pairs s" "hm_wf qs" "tables_ok t" "bits_ok (reported qs) t"
    "queued qs \<subseteq># queued (queues s)" "snd ` pairs m \<subseteq> set_mset (queued qs)"
  shows "ds_inv pairs (s\<lparr>queues := qs, ds_pending_table := t, msdu_handles := m\<rparr>)"
proof -
  have "count (queued qs) k \<le> 1" for k
    using assms(1) mset_subset_eq_count [OF assms(5), of k] by (auto simp: ds_inv_def intro: le_trans)
  with assms(2-4,6) show ?thesis by (simp add: ds_inv_def)
qed

lemma polled_ReportResult:
  assumes "ds_inv pairs s" "DataService_poll_queues timer_ready fresh cx pib (queues s) =
      (Some (d, DeviceQueueAction_ReportResult k r), pib', qs)"
    and "bm_remove_by_right bm k (msdu_handles s) = (res, m)"
  shows "ds_inv pairs (s\<lparr>queues := qs, msdu_handles := m\<rparr>)" "queued qs \<subseteq># queued (queues s)"
    "res = None \<Longrightarrow> pairs m = pairs (msdu_handles s)"
    "res = Some (h, k') \<Longrightarrow> (h, k) \<in> pairs (msdu_handles s) \<and> pairs m = pairs (msdu_handles s) - {(h, k)}"
proof -
  have q: "queued (queues s) = add_mset k (queued qs)" using queued_poll_Some [OF assms(2)] by simp
  show sub: "queued qs \<subseteq># queued (queues s)" by (simp add: q)
  show none: "res = None \<Longrightarrow> pairs m = pairs (msdu_handles s)"
    using remove_by_right_None assms(3) by simp
  show "res = Some (h, k') \<Longrightarrow> (h, k) \<in> pairs (msdu_handles s) \<and> pairs m = pairs (msdu_handles s) - {(h, k)}"
    using remove_by_right_Some assms(3) by blast
  have "k' \<noteq> k \<and> (h', k') \<in> pairs (msdu_handles s)" if "(h', k') \<in> pairs m" for h' k'
  proof (cases res)
    case None
    then show ?thesis using remove_by_right_None [of k _ m] assms(3) that by force
  next
    case (Some hk)
    obtain h k2 where "hk = (h, k2)" by (cases hk)
    then have "(h, k) \<in> pairs (msdu_handles s)" "pairs m = pairs (msdu_handles s) - {(h, k)}"
      using remove_by_right_Some assms(3) Some by blast+
    then show ?thesis using that pairs_right_unique by blast
  qed
  then have "snd ` pairs m \<subseteq> set_mset (queued qs)"
    using assms(1) by (force simp: ds_inv_def q)
  moreover have "hm_wf qs" "bits_ok (reported qs) (ds_pending_table s)"
    using assms(1) hm_wf_poll [OF assms(2)] reported_poll_Some(1) [OF assms(2)] by (auto simp: ds_inv_def)
  ultimately have "ds_inv pairs (s\<lparr>queues := qs, ds_pending_table := ds_pending_table s, msdu_handles := m\<rparr>)"
    using assms(1) sub by (intro ds_inv_queues) (auto simp: ds_inv_def)
  then show "ds_inv pairs (s\<lparr>queues := qs, msdu_handles := m\<rparr>)" by simp
qed

lemma ds_inv_poll_Empty:
  assumes "ds_inv pairs s" "DataService_poll_queues timer_ready fresh cx pib (queues s) =
      (Some (d, DeviceQueueAction_Empty), pib', qs)"
  shows "ds_inv pairs (s\<lparr>queues := AList.delete d qs\<rparr>)"
proof -
  have wf: "hm_wf (queues s)" using assms(1) by (simp add: ds_inv_def)
  have "bits_ok (reported (AList.delete d qs)) (ds_pending_table s)"
    using reported_poll_Some(2) [OF assms(2) wf refl] assms(1) bits_ok_drop by (simp add: ds_inv_def)
  then show ?thesis
    using queued_poll_Empty [OF assms(2) wf] assms(1) hm_wf_poll [OF assms(2) wf] by (simp add: ds_inv_def)
qed

lemma ds_inv_poll_SetPending:
  assumes "ds_inv pairs s" "DataService_poll_queues timer_ready fresh cx pib (queues s) =
      (Some (d, DeviceQueueAction_SetPending b), pib', qs)"
  obtains t where "CombinedPendingTable_set d b (ds_pending_table s) = Return t"
    "ds_inv pairs (s\<lparr>ds_pending_table := t, queues := qs\<rparr>)"
proof -
  have inv: "hm_wf (queues s)" "tables_ok (ds_pending_table s)"
    "bits_ok (reported (queues s)) (ds_pending_table s)" using assms(1) by (simp_all add: ds_inv_def)
  obtain t where t: "CombinedPendingTable_set d b (ds_pending_table s) = Return t"
    using inv(2) by (cases rule: CombinedPendingTable_set_cases [of _ d b]) auto
  have "bits_ok (reported qs) t"
    using bits_ok_set [OF inv(2,3) t] reported_poll_Some(1) [OF assms(2) inv(1)] by simp
  moreover have "tables_ok t" using CombinedPendingTable_set_frame [OF inv(2) t] by simp
  moreover have "queued qs = queued (queues s)" using queued_poll_Some [OF assms(2)] by simp
  ultimately have "ds_inv pairs (s\<lparr>ds_pending_table := t, queues := qs\<rparr>)"
    using assms(1) hm_wf_poll [OF assms(2) inv(1)] by (simp add: ds_inv_def)
  with t show thesis by (rule that)
qed

lemma ds_inv_poll_SendFrame:
  assumes "ds_inv pairs s" "DataService_poll_queues timer_ready fresh cx pib (queues s) =
      (Some (d, DeviceQueueAction_SendFrame k f), pib', qs)"
  shows "ds_inv pairs (s\<lparr>queues := qs\<rparr>)" "queued qs = queued (queues s)"
proof -
  show "queued qs = queued (queues s)" using queued_poll_Some [OF assms(2)] by simp
  then show "ds_inv pairs (s\<lparr>queues := qs\<rparr>)"
    using assms(1) hm_wf_poll [OF assms(2)] reported_poll_Some(1) [OF assms(2)] by (auto simp: ds_inv_def)
qed

lemma ds_inv_waker: "ds_inv pairs (s\<lparr>ds_waker := w\<rparr>) \<longleftrightarrow> ds_inv pairs s"
  by (simp add: ds_inv_def)

text \<open>One round of the loop: it returns, or it goes round again with less to do.\<close>

definition goes_round :: "timer_ready \<Rightarrow> process_unique_id \<Rightarrow> waker \<Rightarrow> pib \<Rightarrow> 'bm data_service \<Rightarrow>
    pib \<Rightarrow> 'bm data_service \<Rightarrow> bool" where
  "goes_round timer_ready fresh cx pib s pib1 s1 \<longleftrightarrow>
     DataService_poll_action bm timer_ready fresh cx pib s =
       DataService_poll_action bm timer_ready fresh cx pib1 s1 \<and>
     queues_work (queues s1) < queues_work (queues s) \<and> ds_inv pairs s1 \<and>
     queued (queues s1) \<subseteq># queued (queues s) \<and> pairs (msdu_handles s1) = pairs (msdu_handles s)"

lemma round_Empty:
  assumes "ds_inv pairs s"
    "CombinedPendingTable_poll_action fresh cx (ds_pending_table s) = (Pending, t)"
    "DataService_poll_queues timer_ready fresh cx pib (queues s) = (Some (d, DeviceQueueAction_Empty), pib', qs)"
  shows "goes_round timer_ready fresh cx pib s pib' (s\<lparr>ds_pending_table := t, queues := AList.delete d qs\<rparr>)"
proof -
  let ?s = "s\<lparr>ds_pending_table := t\<rparr>"
  have inv: "ds_inv pairs ?s" by (rule ds_inv_poll_tables [OF assms(1,2)])
  have pq: "DataService_poll_queues timer_ready fresh cx pib (queues ?s) =
      (Some (d, DeviceQueueAction_Empty), pib', qs)" using assms(3) by simp
  have "hm_wf (queues s)" using assms(1) by (simp add: ds_inv_def)
  then show ?thesis
    using ds_inv_poll_Empty [OF inv pq] retry_decreases(1) [OF assms(3) [symmetric]]
      queued_poll_Empty [OF assms(3)] DataService_poll_action.simps [of bm timer_ready fresh cx pib s]
    by (simp add: goes_round_def assms(2,3))
qed

lemma round_SetPending:
  assumes "ds_inv pairs s"
    "CombinedPendingTable_poll_action fresh cx (ds_pending_table s) = (Pending, t)"
    "DataService_poll_queues timer_ready fresh cx pib (queues s) =
      (Some (d, DeviceQueueAction_SetPending b), pib', qs)"
  shows "\<exists>t2. goes_round timer_ready fresh cx pib s pib' (s\<lparr>ds_pending_table := t2, queues := qs\<rparr>)"
proof -
  let ?s = "s\<lparr>ds_pending_table := t\<rparr>"
  have inv: "ds_inv pairs ?s" by (rule ds_inv_poll_tables [OF assms(1,2)])
  have pq: "DataService_poll_queues timer_ready fresh cx pib (queues ?s) =
      (Some (d, DeviceQueueAction_SetPending b), pib', qs)" using assms(3) by simp
  obtain t2 where t2: "CombinedPendingTable_set d b (ds_pending_table ?s) = Return t2"
      "ds_inv pairs (?s\<lparr>ds_pending_table := t2, queues := qs\<rparr>)"
    by (rule ds_inv_poll_SetPending [OF inv pq])
  then have "goes_round timer_ready fresh cx pib s pib' (s\<lparr>ds_pending_table := t2, queues := qs\<rparr>)"
    using retry_decreases(2) [OF assms(3) [symmetric] refl]
      queued_poll_Some [OF assms(3)] DataService_poll_action.simps [of bm timer_ready fresh cx pib s]
    by (simp add: goes_round_def assms(2,3))
  then show ?thesis ..
qed

lemma round_ReportResult:
  assumes "ds_inv pairs s"
    "CombinedPendingTable_poll_action fresh cx (ds_pending_table s) = (Pending, t)"
    "DataService_poll_queues timer_ready fresh cx pib (queues s) =
      (Some (d, DeviceQueueAction_ReportResult k r), pib', qs)"
  shows "(\<exists>a s'. DataService_poll_action bm timer_ready fresh cx pib s = Return (a, pib', s') \<and> polled s a s') \<or>
    (\<exists>s1. goes_round timer_ready fresh cx pib s pib' s1)"
proof -
  let ?s = "s\<lparr>ds_pending_table := t\<rparr>"
  have inv: "ds_inv pairs ?s" by (rule ds_inv_poll_tables [OF assms(1,2)])
  have pq: "DataService_poll_queues timer_ready fresh cx pib (queues ?s) =
      (Some (d, DeviceQueueAction_ReportResult k r), pib', qs)" using assms(3) by simp
  obtain rm m where rm: "bm_remove_by_right bm k (msdu_handles ?s) = (rm, m)"
    by (cases "bm_remove_by_right bm k (msdu_handles ?s)")
  note rep = polled_ReportResult [OF inv pq rm]
  note step = DataService_poll_action.simps [of bm timer_ready fresh cx pib s]
  show ?thesis
  proof (cases rm)
    case None
    have "goes_round timer_ready fresh cx pib s pib' (?s\<lparr>queues := qs, msdu_handles := m\<rparr>)"
      using rep(1,2) rep(3) [OF None] retry_decreases(3) [OF assms(3) [symmetric] refl] rm None step
      by (simp add: goes_round_def assms(2,3))
    then show ?thesis by (intro disjI2 exI)
  next
    case (Some hk)
    obtain h k2 where hk: "hk = (h, k2)" by (cases hk)
    let ?a = "Ready (DataServiceAction_Confirm (McpsConfirm_Data
        \<lparr>dc_msdu_handle = h, dc_ack_payload = map_err DeviceQueueError_into_mcps r\<rparr>))"
    have p: "(h, k) \<in> pairs (msdu_handles s)" "pairs m = pairs (msdu_handles s) - {(h, k)}"
      using rep(4) [OF Some [unfolded hk]] by simp_all
    then have "pairs (msdu_handles s) - pairs m = {(h, k)}" by blast
    then have "polled s ?a (?s\<lparr>queues := qs, msdu_handles := m\<rparr>)"
      using rep(1,2) p(2) by (simp add: polled_def)
    moreover have "DataService_poll_action bm timer_ready fresh cx pib s =
        Return (?a, pib', ?s\<lparr>queues := qs, msdu_handles := m\<rparr>)"
      using rm Some hk step by (simp add: assms(2,3))
    ultimately show ?thesis by (intro disjI1 exI conjI)
  qed
qed

lemma round_of_queue:
  assumes "ds_inv pairs s"
    "CombinedPendingTable_poll_action fresh cx (ds_pending_table s) = (Pending, t)"
    "DataService_poll_queues timer_ready fresh cx pib (queues s) = (Some (d, x), pib', qs)"
  shows "(\<exists>a s'. DataService_poll_action bm timer_ready fresh cx pib s = Return (a, pib', s') \<and> polled s a s') \<or>
    (\<exists>s1. goes_round timer_ready fresh cx pib s pib' s1)"
proof (cases x)
  case DeviceQueueAction_Empty
  with round_Empty [OF assms(1,2)] assms(3) show ?thesis by blast
next
  case (DeviceQueueAction_SetPending b)
  with round_SetPending [OF assms(1,2)] assms(3) show ?thesis by blast
next
  case (DeviceQueueAction_ReportResult k r)
  with round_ReportResult [OF assms(1,2)] assms(3) show ?thesis by blast
next
  case (DeviceQueueAction_SendFrame k f)
  let ?s = "s\<lparr>ds_pending_table := t\<rparr>"
  have "DataService_poll_queues timer_ready fresh cx pib (queues ?s) =
      (Some (d, DeviceQueueAction_SendFrame k f), pib', qs)"
    using assms(3) DeviceQueueAction_SendFrame by simp
  from ds_inv_poll_SendFrame [OF ds_inv_poll_tables [OF assms(1,2)] this]
  have "polled s (Ready (DataServiceAction_SendFrame k f)) (?s\<lparr>queues := qs\<rparr>)"
    by (intro polled_same) simp_all
  then show ?thesis
    using DeviceQueueAction_SendFrame DataService_poll_action.simps [of bm timer_ready fresh cx pib s]
    by (simp add: assms(2,3))
qed

lemma poll_action_round:
  assumes "ds_inv pairs s"
  shows "(\<exists>a pib' s'. DataService_poll_action bm timer_ready fresh cx pib s = Return (a, pib', s') \<and> polled s a s') \<or>
    (\<exists>pib1 s1. goes_round timer_ready fresh cx pib s pib1 s1)"
proof -
  obtain r t where t: "CombinedPendingTable_poll_action fresh cx (ds_pending_table s) = (r, t)"
    by (cases "CombinedPendingTable_poll_action fresh cx (ds_pending_table s)")
  let ?s = "s\<lparr>ds_pending_table := t\<rparr>"
  have inv: "ds_inv pairs ?s" by (rule ds_inv_poll_tables [OF assms t])
  obtain o' pib' qs where pq: "DataService_poll_queues timer_ready fresh cx pib (queues s) = (o', pib', qs)"
    by (cases "DataService_poll_queues timer_ready fresh cx pib (queues s)")
  note step = DataService_poll_action.simps [of bm timer_ready fresh cx pib s] t pq
  consider (ready) a where "r = Ready a" | (idle) "r = Pending" "o' = None"
    | (action) d x where "r = Pending" "o' = Some (d, x)"
    by (cases r; cases o') auto
  then show ?thesis
  proof cases
    case (ready a)
    have "confirmed_handles (Ready (DataServiceAction_from a)) = []" by (cases a) simp_all
    then have "polled s (Ready (DataServiceAction_from a)) ?s" using inv by (intro polled_same) simp_all
    then show ?thesis using ready by (simp add: step)
  next
    case idle
    have "polled s Pending (?s\<lparr>queues := qs, ds_waker := WakerStore_register (ds_waker s) cx\<rparr>)"
      using ds_inv_poll_None [OF inv, of timer_ready fresh cx pib pib' qs] pq idle(2)
        queued_poll_None [of timer_ready fresh cx pib "queues s" pib' qs]
        reported_poll_None [of timer_ready fresh cx pib "queues s" pib' qs]
      by (intro polled_same) (simp_all add: ds_inv_waker)
    then show ?thesis using idle by (simp add: step)
  next
    case (action d x)
    with round_of_queue [OF assms] t pq show ?thesis by blast
  qed
qed

text \<open>A poll returns, whatever the queues hold.\<close>

lemma poll_action_polled:
  assumes "ds_inv pairs s"
  shows "\<exists>a pib' s'. DataService_poll_action bm timer_ready fresh cx pib s = Return (a, pib', s') \<and>
    polled s a s'"
  using assms
proof (induction "queues_work (queues s)" arbitrary: s pib rule: less_induct)
  case less
  from poll_action_round [OF less.prems, of timer_ready fresh cx pib] show ?case
  proof (elim disjE exE)
    fix pib1 s1
    assume r: "goes_round timer_ready fresh cx pib s pib1 s1"
    then have *: "queues_work (queues s1) < queues_work (queues s)" "ds_inv pairs s1"
      by (simp_all add: goes_round_def)
    show ?thesis using less.hyps [OF *, of pib1] r polled_retry by (auto simp: goes_round_def)
  qed auto
qed

end

section \<open>The service and its callers\<close>

text \<open>
  The service with what its callers saw: the handles of the data requests, those confirmed
  and those purged.  A step is a call of the service with any arguments.  A caller does not
  reuse a handle and a new key is not in a queue, which is what \<^verbatim>\<open>MsduHandle::new\<close> and
  \<^verbatim>\<open>UniqueKey::new\<close> are for.  Before a call the map may be iterated in another order.
\<close>

record 'bm ds_system =
  service :: "'bm data_service"
  requested :: "msdu_handle list"
  confirmed :: "msdu_handle list"
  purged :: "msdu_handle list"

fun purged_handles :: "mcps_confirm \<Rightarrow> msdu_handle list" where
  "purged_handles (McpsConfirm_Purge c) = (if pc_status c = Ok () then [pc_msdu_handle c] else [])"
| "purged_handles _ = []"

inductive ds_step :: "'bm handle_map_ops \<Rightarrow> 'bm ds_system \<Rightarrow> 'bm ds_system \<Rightarrow> bool" for bm where
  data_request: "dr_msdu_handle r \<notin> set (requested x) \<Longrightarrow>
    UniqueKey_new fresh \<notin># queued (queues (service x)) \<Longrightarrow>
    DataService_process_mcps_data_request bm sleep fresh pib r (service x) = (c, s) \<Longrightarrow>
    ds_step bm x (x\<lparr>service := s, requested := requested x @ [dr_msdu_handle r]\<rparr>)"
| purge_request: "DataService_process_mcps_purge_request bm pr (service x) = (c', s) \<Longrightarrow>
    ds_step bm x (x\<lparr>service := s, purged := purged x @ purged_handles c'\<rparr>)"
| poll: "DataService_poll_action bm timer_ready fresh cx pib (service x) = Return (a, pib', s) \<Longrightarrow>
    ds_step bm x (x\<lparr>service := s, confirmed := confirmed x @ confirmed_handles a\<rparr>)"
| management_insert: "rq_key q \<notin># queued (queues (service x)) \<Longrightarrow>
    ds_step bm x (x\<lparr>service := DataService_insert sleep pib q (service x)\<rparr>)"
| init_result:
    "ds_step bm x (x\<lparr>service := DataService_process_init_pending_table_result k ok (service x)\<rparr>)"
| set_pending_result: "DataService_process_set_pending_result k ok (service x) = Return s \<Longrightarrow>
    ds_step bm x (x\<lparr>service := s\<rparr>)"
| send_result: "ds_step bm x (x\<lparr>service := DataService_process_send_result sleep k ok (service x)\<rparr>)"
| frame: "ds_step bm x (x\<lparr>service := DataService_process_frame pib f (service x)\<rparr>)"
| reorder: "reordered (queues (service x)) qs \<Longrightarrow> ds_step bm x (x\<lparr>service := (service x)\<lparr>queues := qs\<rparr>\<rparr>)"

inductive ds_reachable :: "'bm handle_map_ops \<Rightarrow> 'bm ds_system \<Rightarrow> bool" for bm where
  start: "ds_reachable bm \<lparr>service = DataService_new bm, requested = [], confirmed = [], purged = []\<rparr>"
| step: "ds_reachable bm x \<Longrightarrow> ds_step bm x y \<Longrightarrow> ds_reachable bm y"

lemma queued_reordered:
  assumes "hm_wf qs" "reordered qs qs'"
  shows "queued qs' = queued qs"
proof -
  have "distinct qs" "distinct qs'" "set qs' = set qs"
    using assms by (simp_all add: reordered_def hm_wf_def distinct_map)
  then have "mset qs' = mset qs" by (simp add: set_eq_iff_mset_eq_distinct)
  moreover have "queued qs = \<Sum>\<^sub># (image_mset (\<lambda>p. mset (queue_keys (snd p))) (mset qs))" for qs
    by (induction qs) simp_all
  ultimately show ?thesis by simp
qed

lemma ds_inv_process:
  assumes "ds_inv pairs s"
  shows "ds_inv pairs (DataService_process_init_pending_table_result k ok s)"
    "ds_inv pairs (DataService_process_send_result sleep k ok s)"
    "ds_inv pairs (DataService_process_frame pib f s)"
proof -
  have ok: "tables_ok (ds_pending_table s)" using assms by (simp add: ds_inv_def)
  show "ds_inv pairs (DataService_process_init_pending_table_result k ok s)"
    by (rule ds_inv_cong [OF _ _ _ _ _ _ assms])
      (simp_all add: DataService_process_init_pending_table_result_def tables_ok_report_init [OF ok])
  show "ds_inv pairs (DataService_process_send_result sleep k ok s)"
    by (rule ds_inv_cong [OF _ _ _ _ _ _ assms])
      (simp_all add: DataService_process_send_result_def queued_hm_map_values reported_hm_map_values ok)
  have "queued (queues (DataService_process_frame pib f s)) = queued (queues s) \<and>
      map fst (queues (DataService_process_frame pib f s)) = map fst (queues s) \<and>
      reported (queues (DataService_process_frame pib f s)) = reported (queues s) \<and>
      msdu_handles (DataService_process_frame pib f s) = msdu_handles s \<and>
      ds_pending_table (DataService_process_frame pib f s) = ds_pending_table s"
    by (cases "frame_type f"; simp add: DataService_process_frame_def DataService_process_frame_ack_def
        queued_hm_map_values reported_hm_map_values)
      (auto simp: DataService_process_frame_data_request_def queued_hm_modify_same reported_hm_modify
        split: command.splits)
  then show "ds_inv pairs (DataService_process_frame pib f s)"
    by (intro ds_inv_cong [OF _ _ _ _ _ _ assms]) (simp_all add: ok)
qed

lemma ds_inv_set_pending_result:
  assumes "ds_inv pairs s"
  obtains s' where "DataService_process_set_pending_result k ok s = Return s'" "ds_inv pairs s'"
    "msdu_handles s' = msdu_handles s"
proof -
  have "tables_ok (ds_pending_table s)" using assms by (simp add: ds_inv_def)
  then obtain t where t: "CombinedPendingTable_report_update_result k ok (ds_pending_table s) = Return t"
    "tables_ok t" "pt_values (cpt_short t) = pt_values (cpt_short (ds_pending_table s))"
    by (rule tables_ok_report_update)
  have "ds_inv pairs (s\<lparr>ds_pending_table := t\<rparr>)"
    by (rule ds_inv_cong [OF _ _ _ _ _ _ assms]) (simp_all add: t)
  with t(1) show thesis
    by (intro that [of "s\<lparr>ds_pending_table := t\<rparr>"]) (simp_all add: DataService_process_set_pending_result_def)
qed

lemma process_keeps_handles [simp]:
  "msdu_handles (DataService_process_init_pending_table_result k ok s) = msdu_handles s"
  "msdu_handles (DataService_process_send_result sleep k ok s) = msdu_handles s"
  "msdu_handles (DataService_process_frame pib f s) = msdu_handles s"
  by (auto simp: DataService_process_init_pending_table_result_def DataService_process_send_result_def
      DataService_process_frame_def DataService_process_frame_ack_def
      DataService_process_frame_data_request_def split: frame_type.splits command.splits)

lemma ds_inv_reorder:
  assumes "ds_inv pairs s" "reordered (queues s) qs"
  shows "ds_inv pairs (s\<lparr>queues := qs\<rparr>)"
proof -
  have wf: "hm_wf (queues s)" using assms(1) by (simp add: ds_inv_def)
  have "reported qs = reported (queues s)"
    by (rule ext) (simp add: reported_def reordered_map_of [OF wf assms(2)])
  then show ?thesis
    using assms queued_reordered [OF wf assms(2)] reordered_wf [OF assms(2)] by (simp add: ds_inv_def)
qed

text \<open>Every requested handle is confirmed, purged or still known, and only one of the three.\<close>

definition handles_inv :: "('bm \<Rightarrow> (msdu_handle \<times> unique_key) set) \<Rightarrow> 'bm ds_system \<Rightarrow> bool" where
  "handles_inv pairs x \<longleftrightarrow> ds_inv pairs (service x) \<and>
     distinct (requested x) \<and> distinct (confirmed x @ purged x) \<and>
     fst ` pairs (msdu_handles (service x)) \<inter> set (confirmed x @ purged x) = {} \<and>
     set (requested x) = set (confirmed x @ purged x) \<union> fst ` pairs (msdu_handles (service x))"

lemma handles_inv_frame:
  "handles_inv pairs x \<Longrightarrow> ds_inv pairs s \<Longrightarrow> msdu_handles s = msdu_handles (service x) \<Longrightarrow>
    handles_inv pairs (x\<lparr>service := s\<rparr>)"
  by (simp add: handles_inv_def)

lemma fst_image_diff:
  assumes "A \<subseteq> B" "\<And>l r r'. (l, r) \<in> B \<Longrightarrow> (l, r') \<in> B \<Longrightarrow> r = r'"
  shows "fst ` A = fst ` B - fst ` (B - A)"
proof -
  have "l \<notin> fst ` (B - A)" if "(l, r) \<in> A" for l r
    using that assms(1) assms(2) [of l r] by (auto simp: subset_iff)
  then have "fst ` A \<subseteq> fst ` B - fst ` (B - A)" using assms(1) by force
  moreover have "fst ` B - fst ` (B - A) \<subseteq> fst ` A" by blast
  ultimately show ?thesis by blast
qed

context handle_map
begin

lemma handles_inv_poll:
  assumes "handles_inv pairs x" "polled (service x) a s"
  shows "handles_inv pairs (x\<lparr>service := s, confirmed := confirmed x @ confirmed_handles a\<rparr>)"
proof -
  let ?p = "pairs (msdu_handles (service x))" and ?p' = "pairs (msdu_handles s)"
  have sub: "?p' \<subseteq> ?p" and diff: "fst ` (?p - ?p') = set (confirmed_handles a)"
    using assms(2) by (simp_all add: polled_def)
  have "fst ` ?p' = fst ` ?p - set (confirmed_handles a)"
    unfolding diff [symmetric] by (rule fst_image_diff [OF sub pairs_left_unique])
  moreover have "set (confirmed_handles a) \<subseteq> fst ` ?p" unfolding diff [symmetric] by blast
  moreover have "distinct (confirmed_handles a)"
    by (cases "a" rule: confirmed_handles.cases) simp_all
  moreover have "ds_inv pairs s" using assms(2) by (simp add: polled_def)
  ultimately show ?thesis using assms(1) unfolding handles_inv_def by auto
qed

lemma handles_inv_purge:
  assumes "handles_inv pairs x" "DataService_process_mcps_purge_request bm r (service x) = (c, s)"
  shows "handles_inv pairs (x\<lparr>service := s, purged := purged x @ purged_handles c\<rparr>)"
proof -
  have "ds_inv pairs (service x)" using assms(1) by (simp add: handles_inv_def)
  then show ?thesis
    using assms(2)
  proof (cases rule: ds_inv_purge)
    case (known k)
    have "fst ` pairs (msdu_handles s) = fst ` pairs (msdu_handles (service x)) - {pr_msdu_handle r}"
      using fst_image_diff [of "pairs (msdu_handles s)" "pairs (msdu_handles (service x))"] known(1,4)
        pairs_left_unique [of _ _ "msdu_handles (service x)"] by (auto simp: double_diff)
    moreover have "pr_msdu_handle r \<in> fst ` pairs (msdu_handles (service x))" using known(1) by force
    ultimately show ?thesis using assms(1) known(2,3) unfolding handles_inv_def by auto
  next
    case unknown
    then show ?thesis using assms(1) by (simp add: handles_inv_def)
  qed
qed

lemma handles_inv_data_request:
  assumes "handles_inv pairs x" "dr_msdu_handle r \<notin> set (requested x)"
    "UniqueKey_new fresh \<notin># queued (queues (service x))"
    "DataService_process_mcps_data_request bm sleep fresh pib r (service x) = (c, s)"
  shows "handles_inv pairs (x\<lparr>service := s, requested := requested x @ [dr_msdu_handle r]\<rparr>)"
proof -
  have inv: "ds_inv pairs (service x)" "dr_msdu_handle r \<notin> fst ` pairs (msdu_handles (service x))"
    using assms(1,2) by (auto simp: handles_inv_def)
  note req = ds_inv_data_request [OF inv(1) assms(3) inv(2) assms(4)]
  then show ?thesis using assms(1,2) by (auto simp: handles_inv_def)
qed

lemma handles_inv_step: "ds_step bm x y \<Longrightarrow> handles_inv pairs x \<Longrightarrow> handles_inv pairs y"
proof (induction rule: ds_step.induct)
  case (poll timer_ready fresh cx pib x a pib' s)
  have "ds_inv pairs (service x)" using poll.prems by (simp add: handles_inv_def)
  from poll_action_polled [OF this, of timer_ready fresh cx pib] poll.hyps
  have "polled (service x) a s" by auto
  with poll.prems show ?case by (rule handles_inv_poll)
next
  case (management_insert q x sleep pib)
  then have "ds_inv pairs (service x)" by (simp add: handles_inv_def)
  from ds_inv_insert [OF this management_insert.hyps, of sleep pib] management_insert.prems
  show ?case by (intro handles_inv_frame)
next
  case (set_pending_result k ok x s)
  then have "ds_inv pairs (service x)" by (simp add: handles_inv_def)
  then obtain s' where "DataService_process_set_pending_result k ok (service x) = Return s'"
    "ds_inv pairs s'" "msdu_handles s' = msdu_handles (service x)"
    by (rule ds_inv_set_pending_result)
  with set_pending_result show ?case by (intro handles_inv_frame) simp_all
next
  case (reorder x qs)
  then have "ds_inv pairs (service x)" by (simp add: handles_inv_def)
  from ds_inv_reorder [OF this reorder.hyps] reorder.prems show ?case by (intro handles_inv_frame) simp_all
next
  case (data_request r x fresh sleep pib c s)
  then show ?case by (intro handles_inv_data_request)
next
  case (purge_request pr x c s)
  then show ?case by (intro handles_inv_purge)
qed (rule handles_inv_frame, assumption, simp_all add: handles_inv_def ds_inv_process)

lemma ds_inv_new: "ds_inv pairs (DataService_new bm)"
proof -
  have "tables_ok CombinedPendingTable_new" "pt_values (cpt_short CombinedPendingTable_new) = {}"
    by (simp_all add: tables_ok_def CombinedPendingTable_new_def pt_inv_new, simp_all add: PendingTable_new_def)
  then show ?thesis by (simp add: ds_inv_def DataService_new_def pairs_new bits_ok_def reported_def)
qed

lemma ds_reachable_inv: "ds_reachable bm x \<Longrightarrow> handles_inv pairs x"
proof (induction rule: ds_reachable.induct)
  case start
  have "pairs (msdu_handles (DataService_new bm)) = {}" by (simp add: DataService_new_def pairs_new)
  with ds_inv_new show ?case by (simp add: handles_inv_def)
next
  case (step x y)
  show ?case by (rule handles_inv_step [OF step.hyps(2) step.IH])
qed

end

section \<open>Properties\<close>

text \<open>A run: a request that is sent without acknowledgement, and its confirmation.\<close>

definition demo_data_request :: data_request where
  "demo_data_request = \<lparr>dr_source_addressing_mode = AddressingMode_Short,
     dr_destination = Some demo_address, dr_msdu = [1, 2, 3],
     dr_msdu_handle = MsduHandle (UniqueKey 100), dr_ack_tx = False, dr_indirect_tx = False\<rparr>"

definition demo_service :: "(msdu_handle \<times> unique_key) list data_service" where
  "demo_service = snd (DataService_process_mcps_data_request bimap_impl (\<lambda>_. SleepFuture 0) 1
     (PIB_new 0 0 (ExtendedAddress 0) 11 0) demo_data_request (DataService_new bimap_impl))"

lemma demo_handles:
  "msdu_handles demo_service = [(MsduHandle (UniqueKey 100), UniqueKey 1)]"
  by (simp add: demo_service_def DataService_process_mcps_data_request_def Let_def DataService_new_def
      DataService_insert_def demo_data_request_def bimap_impl_def UniqueKey_new_def)

lemma demo_ds_reachable:
  "ds_reachable bimap_impl \<lparr>service = demo_service, requested = [MsduHandle (UniqueKey 100)],
     confirmed = [], purged = []\<rparr>"
proof -
  let ?x = "\<lparr>service = DataService_new bimap_impl, requested = [], confirmed = [], purged = []\<rparr>"
  have "ds_step bimap_impl ?x (?x\<lparr>service := demo_service,
      requested := requested ?x @ [dr_msdu_handle demo_data_request]\<rparr>)"
    by (rule ds_step.data_request [where fresh = 1 and sleep = "\<lambda>_. SleepFuture 0"
          and pib = "PIB_new 0 0 (ExtendedAddress 0) 11 0" and c = None])
      (simp_all add: DataService_new_def demo_service_def DataService_process_mcps_data_request_def Let_def)
  from ds_reachable.step [OF ds_reachable.start this] show ?thesis
    by (simp add: demo_data_request_def)
qed

text \<open>
  C5. Every data request that came through MCPS is confirmed at most once and never both
  confirmed and purged: whatever the order of requests, purges, polls, radio results and
  received frames, the handles requested so far are, without repetition, those confirmed,
  those purged and those the service still knows, and behind each of the latter a request
  is still in one of the queues.
\<close>

theorem DataService_confirms_once:
  assumes "bimap_crate bm pairs" "ds_reachable bm x"
  shows "distinct (requested x) \<and> distinct (confirmed x @ purged x) \<and>
    set (requested x) - set (confirmed x @ purged x) = fst ` pairs (msdu_handles (service x)) \<and>
    set (confirmed x @ purged x) \<subseteq> set (requested x) \<and>
    (\<forall>(h, k) \<in> pairs (msdu_handles (service x)).
      \<exists>d q. map_of (queues (service x)) d = Some q \<and> DeviceQueue_contains q k)"
proof -
  have inv: "handles_inv pairs x" by (rule handle_map.ds_reachable_inv [OF handle_map.intro [OF assms(1)] assms(2)])
  have "\<exists>d q. map_of (queues (service x)) d = Some q \<and> DeviceQueue_contains q k"
    if "(h, k) \<in> pairs (msdu_handles (service x))" for h k
  proof -
    have "k \<in># queued (queues (service x))" "hm_wf (queues (service x))"
      using inv that by (auto simp: handles_inv_def ds_inv_def)
    then obtain d q where "(d, q) \<in> set (queues (service x))" "k \<in> set (queue_keys q)"
      by (auto simp: queued_def set_mset_sum_list)
    with \<open>hm_wf _\<close> show ?thesis by (auto simp: hm_wf_def DeviceQueue_contains_iff)
  qed
  with inv show ?thesis by (auto simp: handles_inv_def)
qed

theorem DataService_confirms_once_witness:
  "\<exists>d q. map_of (queues demo_service) d = Some q \<and> DeviceQueue_contains q (UniqueKey 1)"
proof -
  have "(MsduHandle (UniqueKey 100), UniqueKey 1) \<in> set (bimap_pairs (msdu_handles demo_service))"
    by (simp add: demo_handles)
  with DataService_confirms_once [OF bimap_impl.bimap_crate_axioms demo_ds_reachable] show ?thesis
    by auto
qed

text \<open>
  C19. Polling the data service always returns: whatever the queues hold and whichever timers
  have run out, the retry loop ends without a panic.  When it returns with nothing to do, no
  queue is empty and the addresses in the pending table for short addresses are exactly
  those of the queues whose next request is to be sent indirectly.
\<close>

theorem DataService_poll_settles:
  assumes "bimap_crate bm pairs" "ds_reachable bm x"
  shows "\<exists>a pib' s. DataService_poll_action bm timer_ready fresh cx pib (service x) = Return (a, pib', s) \<and>
    (a = Pending \<longrightarrow> (\<forall>v. v \<in> pt_values (cpt_short (ds_pending_table s)) \<longleftrightarrow>
      (\<exists>q e es. map_of (queues s) (short_destination v) = Some q \<and> entries q = e # es \<and>
        rq_indirect (qe_data e))))"
proof -
  have hm: "handle_map bm pairs" by (rule handle_map.intro [OF assms(1)])
  have "ds_inv pairs (service x)"
    using handle_map.ds_reachable_inv [OF hm assms(2)] by (simp add: handles_inv_def)
  then obtain a pib' s where r: "DataService_poll_action bm timer_ready fresh cx pib (service x) = Return (a, pib', s)"
    and p: "handle_map.polled pairs (service x) a s"
    using handle_map.poll_action_polled [OF hm] by blast
  have bits: "bits_ok (reported (queues s)) (ds_pending_table s)"
    and quiet: "a = Pending \<Longrightarrow> \<forall>(d, q) \<in> set (queues s). queue_quiet q"
    using p by (simp_all add: handle_map.polled_def [OF hm] ds_inv_def)
  have "(\<exists>q e es. map_of (queues s) d = Some q \<and> entries q = e # es \<and> rq_indirect (qe_data e)) \<longleftrightarrow>
      reported (queues s) d = Some True" if "a = Pending" for d
  proof (cases "map_of (queues s) d")
    case (Some q)
    then have "queue_quiet q" using quiet [OF that] by (auto dest: map_of_SomeD)
    with Some show ?thesis by (cases "entries q") (auto simp: queue_quiet_def reported_def)
  qed (simp add: reported_def)
  with bits r show ?thesis by (auto simp: bits_ok_def)
qed

theorem DataService_poll_settles_witness:
  "\<exists>a pib' s. DataService_poll_action bimap_impl (\<lambda>_. True) 2 (Waker 0) (PIB_new 0 0 (ExtendedAddress 0) 11 0)
    demo_service = Return (a, pib', s)"
  using DataService_poll_settles [OF bimap_impl.bimap_crate_axioms demo_ds_reachable,
      of "\<lambda>_. True" 2 "Waker 0" "PIB_new 0 0 (ExtendedAddress 0) 11 0"]
  by auto

text \<open>
  Purging a request takes it out of the queues: after a purge confirmed with success no
  queue holds the request and the handle is forgotten, and a purge of a handle that is not
  outstanding changes no queue and is answered with \<^verbatim>\<open>InvalidHandle\<close>.
\<close>

theorem DataService_purge:
  assumes "bimap_crate bm pairs" "ds_reachable bm x"
    and "DataService_process_mcps_purge_request bm r (service x) = (McpsConfirm_Purge c, s)"
  shows "pc_msdu_handle c = pr_msdu_handle r \<and>
    (pc_status c = Ok () \<longrightarrow>
      (\<exists>k. (pr_msdu_handle r, k) \<in> pairs (msdu_handles (service x)) \<and>
        (\<forall>(d, q) \<in> set (queues s). \<not> DeviceQueue_contains q k)) \<and>
      pr_msdu_handle r \<notin> fst ` pairs (msdu_handles s)) \<and>
    (pc_status c \<noteq> Ok () \<longrightarrow> pc_status c = Err InvalidHandle \<and> queues s = queues (service x) \<and>
      pr_msdu_handle r \<notin> set (requested x) - set (confirmed x @ purged x))"
proof -
  have hm: "handle_map bm pairs" by (rule handle_map.intro [OF assms(1)])
  have inv: "handles_inv pairs x" by (rule handle_map.ds_reachable_inv [OF hm assms(2)])
  then have "ds_inv pairs (service x)" by (simp add: handles_inv_def)
  show ?thesis
  proof (cases rule: handle_map.ds_inv_purge [OF hm \<open>ds_inv pairs (service x)\<close> assms(3),
      case_names known unknown])
    case (known k)
    have "count (queued (queues (service x))) k \<le> 1"
      using \<open>ds_inv pairs (service x)\<close> by (simp add: ds_inv_def)
    then have "k \<notin># queued (queues s)" by (simp add: known(5) in_diff_count)
    then have "\<not> DeviceQueue_contains q k" if "(d, q) \<in> set (queues s)" for d q
      using that by (auto simp: DeviceQueue_contains_iff queued_def set_mset_sum_list)
    moreover have "pr_msdu_handle r \<notin> fst ` pairs (msdu_handles s)"
    proof
      assume "pr_msdu_handle r \<in> fst ` pairs (msdu_handles s)"
      then obtain k' where "(pr_msdu_handle r, k') \<in> pairs (msdu_handles s)" by force
      then show False
        using known(4) bimap_crate.pairs_left_unique [OF assms(1) known(1), of k'] by simp
    qed
    ultimately show ?thesis using known(1,2) by (auto intro!: exI [of _ k])
  next
    case unknown
    with inv show ?thesis by (auto simp: handles_inv_def)
  qed
qed

end
