(* ===== verification/Management.thy ===== *)
theory Management
  imports Data_Service Radio
begin

text \<open>
  The management service (\<^verbatim>\<open>mac/management.rs\<close>): the radio parameters that follow the PIB, the
  beacons to send, MLME requests and responses, and the frames of other devices that concern
  management.  The step relation puts the service beside a radio that carries out the
  parameter changes in the order in which they were sent, successfully or not.
\<close>

section \<open>Definitions\<close>

datatype management_service_action =
    ManagementServiceAction_SetParam unique_key radio_param radio_param_value
  | ManagementServiceAction_SendFrame frame

record radio_param_info =
  requested_value :: radio_param_value
  rpi_updating :: "unique_key option"
  rpi_dirty :: bool

record management_service =
  outgoing :: "frame list"
  ms_waker :: waker_store
  radio_params :: "(radio_param, radio_param_info) hash_map"

definition ManagementService_update_radio_parameter ::
    "radio_param \<Rightarrow> radio_param_value \<Rightarrow> management_service \<Rightarrow> management_service" where
  "ManagementService_update_radio_parameter parameter val self =
     (case map_of (radio_params self) parameter of
        Some current \<Rightarrow>
          if requested_value current \<noteq> val then
            self\<lparr>radio_params := hm_modify parameter
                   (\<lambda>current. current\<lparr>requested_value := val, rpi_dirty := True\<rparr>) (radio_params self),
                 ms_waker := WakerStore_wake (ms_waker self)\<rparr>
          else self
      | None \<Rightarrow>
          self\<lparr>radio_params := AList.update parameter
                 \<lparr>requested_value = val, rpi_updating = None, rpi_dirty = True\<rparr> (radio_params self),
               ms_waker := WakerStore_wake (ms_waker self)\<rparr>)"

definition ManagementService_update_radio_parameters ::
    "pib \<Rightarrow> management_service \<Rightarrow> management_service" where
  "ManagementService_update_radio_parameters pib self =
     (let self = ManagementService_update_radio_parameter RawRadioParam_Channel
            (RadioParamValue_from_u16 (phy_current_channel pib)) self;
          self = ManagementService_update_radio_parameter RawRadioParam_PanId
            (RadioParamValue_from_u16 (PANID_into (mac_pan_id pib))) self;
          self = ManagementService_update_radio_parameter RawRadioParam_ShortAddress
            (RadioParamValue_from_u16 (ShortAddress_into (mac_short_address pib))) self;
          self = ManagementService_update_radio_parameter RawRadioParam_RxMode
            (RadioParamValue_from_RadioRxMode
              \<lparr>address_filter = True, autoack = True, poll_mode = False\<rparr>) self
      in ManagementService_update_radio_parameter RawRadioParam_TxPower
            (RadioParamValue_from_u16 (phy_tx_power pib)) self)"

definition ManagementService_new :: "pib \<Rightarrow> management_service" where
  "ManagementService_new pib =
     ManagementService_update_radio_parameters pib
       \<lparr>outgoing = [], ms_waker = WakerStore_new, radio_params = []\<rparr>"

fun ManagementService_poll_radio_params :: "process_unique_id \<Rightarrow>
    (radio_param, radio_param_info) hash_map \<Rightarrow>
    management_service_action poll \<times> (radio_param, radio_param_info) hash_map" where
  "ManagementService_poll_radio_params fresh [] = (Pending, [])"
| "ManagementService_poll_radio_params fresh ((param, info) # rest) =
     (if rpi_dirty info \<and> rpi_updating info = None then
        (let key = UniqueKey_new fresh
         in (Ready (ManagementServiceAction_SetParam key param (requested_value info)),
             (param, info\<lparr>rpi_dirty := False, rpi_updating := Some key\<rparr>) # rest))
      else (case ManagementService_poll_radio_params fresh rest of
              (r, rest) \<Rightarrow> (r, (param, info) # rest)))"

definition ManagementService_poll_radio_param_update :: "process_unique_id \<Rightarrow> management_service \<Rightarrow>
    management_service_action poll \<times> management_service" where
  "ManagementService_poll_radio_param_update fresh self =
     (case ManagementService_poll_radio_params fresh (radio_params self) of
        (r, params) \<Rightarrow> (r, self\<lparr>radio_params := params\<rparr>))"

text \<open>The loop over the parameters in \<^verbatim>\<open>process_set_param_result\<close>, with \<open>should_wake\<close> threaded through.\<close>

fun ManagementService_set_param_results :: "unique_key \<Rightarrow> bool \<Rightarrow> bool \<Rightarrow>
    (radio_param, radio_param_info) hash_map \<Rightarrow> bool \<times> (radio_param, radio_param_info) hash_map" where
  "ManagementService_set_param_results key ok should_wake [] = (should_wake, [])"
| "ManagementService_set_param_results key ok should_wake ((param, info) # rest) =
     (let (info, should_wake) =
            (if rpi_updating info = Some key then
               (let info = info\<lparr>rpi_updating := None\<rparr>;
                    info = (if \<not> ok then info\<lparr>rpi_dirty := True\<rparr> else info)
                in (info, rpi_dirty info \<or> should_wake))
             else (info, should_wake));
          (should_wake, rest) = ManagementService_set_param_results key ok should_wake rest
      in (should_wake, (param, info) # rest))"

definition ManagementService_process_set_param_result :: "unique_key \<Rightarrow> bool \<Rightarrow>
    management_service \<Rightarrow> management_service" where
  "ManagementService_process_set_param_result key ok self =
     (case ManagementService_set_param_results key ok False (radio_params self) of
        (should_wake, params) \<Rightarrow>
          (let self = self\<lparr>radio_params := params\<rparr>
           in if should_wake then self\<lparr>ms_waker := WakerStore_wake (ms_waker self)\<rparr> else self))"

definition ManagementService_poll_action :: "process_unique_id \<Rightarrow> waker \<Rightarrow> management_service \<Rightarrow>
    management_service_action poll \<times> management_service" where
  "ManagementService_poll_action fresh cx self =
     (case ManagementService_poll_radio_param_update fresh self of
        (Ready action, self) \<Rightarrow> (Ready action, self)
      | (Pending, self) \<Rightarrow>
          (case outgoing self of
             f # rest \<Rightarrow> (Ready (ManagementServiceAction_SendFrame f), self\<lparr>outgoing := rest\<rparr>)
           | [] \<Rightarrow> (case WakerStore_pend (ms_waker self) cx of (r, w) \<Rightarrow> (r, self\<lparr>ms_waker := w\<rparr>))))"

subsection \<open>MLME requests\<close>

definition ManagementService_process_mlme_beacon_request :: "beacon_request \<Rightarrow> pib \<Rightarrow>
    management_service \<Rightarrow> (unit, mac_error) result \<times> pib \<times> management_service" where
  "ManagementService_process_mlme_beacon_request request pib self =
     (if br_superframe_order request \<noteq> 15
         \<or> br_channel request \<noteq> phy_current_channel pib
         \<or> br_channel_page request \<noteq> 0
      then (Err InvalidParameter, pib, self)
      else
        (let beacon =
               \<lparr>beacon_order = 15,
                superframe_order = br_superframe_order request,
                final_cap_slot = 15,
                battery_life_extension = False,
                pan_coordinator = (mac_associated_pan_coord pib =
                  Some (mac_extended_address pib, mac_short_address pib)),
                association_permit = mac_association_permit pib,
                payload = Payload (mac_beacon_payload pib)\<rparr>;
             (nr, pib) = PIB_next_beacon_sequence_nr pib;
             frm =
               \<lparr>frame_pending = False,
                acknowledge_request = False,
                sequence_number = Some nr,
                destination = None,
                source = Some (PIB_get_full_short_address pib),
                frame_type = FrameType_Beacon beacon\<rparr>
         in (Ok (), pib, self\<lparr>outgoing := outgoing self @ [frm]\<rparr>)))"

text \<open>\<open>random_bsn\<close> and \<open>random_dsn\<close> are drawn by \<^verbatim>\<open>pib.reset()\<close>.\<close>

definition ManagementService_process_mlme_reset_request :: "'bm handle_map_ops \<Rightarrow> u8 \<Rightarrow> u8 \<Rightarrow>
    reset_request \<Rightarrow> 'bm data_service \<Rightarrow> pib \<Rightarrow> management_service \<Rightarrow>
    (unit, mac_error) result \<times> 'bm data_service \<times> pib \<times> management_service" where
  "ManagementService_process_mlme_reset_request bm random_bsn random_dsn request data pib self =
     (let pib = (if set_default_pib request then PIB_reset random_bsn random_dsn pib else pib);
          self = ManagementService_new pib;
          data = DataService_new bm
      in (Ok (), data, pib, self))"

definition ManagementService_process_mlme_get_request :: "get_request \<Rightarrow> pib \<Rightarrow>
    (pib_value, mac_error) result" where
  "ManagementService_process_mlme_get_request request pib =
     map_err (\<lambda>_. UnsupportedAttribute) (PIB_get pib (gr_attribute request))"

definition ManagementService_process_mlme_set_request :: "set_request \<Rightarrow> pib \<Rightarrow>
    management_service \<Rightarrow> (unit, mac_error) result \<times> pib \<times> management_service" where
  "ManagementService_process_mlme_set_request request pib self =
     (let (res, pib) = PIB_set pib (st_attribute request) (st_value request);
          self = ManagementService_update_radio_parameters pib self
      in (res, pib, self))"

definition ManagementService_process_mlme_start_request :: "start_request \<Rightarrow> pib \<Rightarrow>
    management_service \<Rightarrow> (unit, mac_error) result \<times> pib \<times> management_service" where
  "ManagementService_process_mlme_start_request request pib self =
     (if mac_short_address pib = ShortAddress 0xFFFF then (Err NoShortAddress, pib, self)
      else if sr_channel_page request \<noteq> 0
         \<or> sr_start_time request \<noteq> 0
         \<or> sr_beacon_order request \<noteq> 15
         \<or> sr_superframe_order request \<noteq> 15
         \<or> \<not> sr_pan_coordinator request
         \<or> sr_battery_life_extension request
      then (Err InvalidParameter, pib, self)
      else
        (let pib = pib\<lparr>phy_current_channel := sr_channel_number request\<rparr>;
             pib = pib\<lparr>mac_pan_id := sr_pan_id request\<rparr>;
             pib = (if sr_pan_coordinator request then
                pib\<lparr>mac_associated_pan_coord := Some (mac_extended_address pib, mac_short_address pib)\<rparr>
              else pib);
             self = ManagementService_update_radio_parameters pib self
         in (Ok (), pib, self)))"

fun ManagementService_process_mlme_request :: "'bm handle_map_ops \<Rightarrow> u8 \<Rightarrow> u8 \<Rightarrow> mlme_request \<Rightarrow>
    pib \<Rightarrow> 'bm data_service \<Rightarrow> management_service \<Rightarrow>
    mlme_confirm option \<times> pib \<times> 'bm data_service \<times> management_service" where
  "ManagementService_process_mlme_request bm random_bsn random_dsn (Mlme_Beacon request) pib data self =
     (case ManagementService_process_mlme_beacon_request request pib self of
        (res, pib, self) \<Rightarrow> (Some (MlmeConfirm_Beacon res), pib, data, self))"
| "ManagementService_process_mlme_request bm random_bsn random_dsn (Mlme_Reset request) pib data self =
     (case ManagementService_process_mlme_reset_request bm random_bsn random_dsn request data pib self of
        (res, data, pib, self) \<Rightarrow> (Some (MlmeConfirm_Reset res), pib, data, self))"
| "ManagementService_process_mlme_request bm random_bsn random_dsn (Mlme_Start request) pib data self =
     (case ManagementService_process_mlme_start_request request pib self of
        (res, pib, self) \<Rightarrow> (Some (MlmeConfirm_Start res), pib, data, self))"
| "ManagementService_process_mlme_request bm random_bsn random_dsn (Mlme_Get request) pib data self =
     (Some (MlmeConfirm_Get (gr_attribute request)
        (ManagementService_process_mlme_get_request request pib)), pib, data, self)"
| "ManagementService_process_mlme_request bm random_bsn random_dsn (Mlme_Set request) pib data self =
     (case ManagementService_process_mlme_set_request request pib self of
        (res, pib, self) \<Rightarrow> (Some (MlmeConfirm_Set (st_attribute request) res), pib, data, self))"

subsection \<open>MLME responses\<close>

definition ManagementService_process_mlme_associate_response :: "sleep_fn \<Rightarrow> process_unique_id \<Rightarrow>
    pib \<Rightarrow> extended_address \<Rightarrow> bool \<Rightarrow> (short_address option, association_error) result \<Rightarrow>
    'bm data_service \<Rightarrow> 'bm data_service" where
  "ManagementService_process_mlme_associate_response sleep fresh pib device_address fast status data =
     (let status = map_ok (\<lambda>addr. case addr of Some a \<Rightarrow> a | None \<Rightarrow> ShortAddress_none_assigned) status;
          command = Command_AssociationResponse \<lparr>ar_fast_association = fast, ar_status = status\<rparr>;
          entry =
            \<lparr>rq_key = UniqueKey_new fresh,
             rq_destination = Some \<lparr>pan_id = mac_pan_id pib, address = Address_Extended device_address\<rparr>,
             rq_source_mode = AddressingMode_Extended,
             rq_acknowledge_request = True,
             rq_indirect = (\<not> fast),
             rq_content = FrameType_Command command\<rparr>
      in DataService_insert sleep pib entry data)"

fun ManagementService_process_mlme_response :: "sleep_fn \<Rightarrow> process_unique_id \<Rightarrow> pib \<Rightarrow>
    mlme_response \<Rightarrow> 'bm data_service \<Rightarrow> 'bm data_service" where
  "ManagementService_process_mlme_response sleep fresh pib
      (MlmeResponse_Associate device_address fast status) data =
     ManagementService_process_mlme_associate_response sleep fresh pib device_address fast status data"

subsection \<open>Received frames\<close>

definition ManagementService_process_frame_beacon_request :: "frame \<Rightarrow> pib \<Rightarrow> management_service \<Rightarrow>
    mlme_indication option \<times> pib \<times> management_service" where
  "ManagementService_process_frame_beacon_request frm pib self =
     (if mac_beacon_auto_respond pib then
        (let request =
               \<lparr>br_beacon_type = BeaconType_Beacon,
                br_channel = phy_current_channel pib,
                br_channel_page = 0,
                br_superframe_order = 15,
                br_dst_addr = source frm\<rparr>;
             (_, pib, self) = ManagementService_process_mlme_beacon_request request pib self
         in (None, pib, self))
      else
        (Some (MlmeIndication_BeaconRequest BeaconType_Beacon (source frm)
           (case destination frm of None \<Rightarrow> PANID_broadcast | Some full \<Rightarrow> pan_id full)), pib, self))"

definition ManagementService_process_frame_association_request :: "pib \<Rightarrow> frame \<Rightarrow>
    capability_information \<Rightarrow> mlme_indication option" where
  "ManagementService_process_frame_association_request pib frm capability =
     (if \<not> mac_association_permit pib then None
      else if destination frm \<noteq> Some (PIB_get_full_short_address pib) then None
      else case source frm of
        Some full \<Rightarrow>
          (case address full of
             Address_Extended device_address \<Rightarrow> Some (MlmeIndication_Associate device_address capability)
           | Address_Short _ \<Rightarrow> None)
      | None \<Rightarrow> None)"

definition ManagementService_process_frame :: "frame \<Rightarrow> pib \<Rightarrow> management_service \<Rightarrow>
    mlme_indication option \<times> pib \<times> management_service" where
  "ManagementService_process_frame frm pib self =
     (case frame_type frm of
        FrameType_Command Command_BeaconRequest \<Rightarrow>
          ManagementService_process_frame_beacon_request frm pib self
      | FrameType_Command (Command_AssociationRequest req) \<Rightarrow>
          (ManagementService_process_frame_association_request pib frm req, pib, self)
      | _ \<Rightarrow> (None, pib, self))"

section \<open>The parameters a PIB asks for\<close>

fun wanted :: "pib \<Rightarrow> radio_param \<Rightarrow> radio_param_value option" where
  "wanted pib RawRadioParam_Channel = Some (RadioParamValue_U16 (phy_current_channel pib))"
| "wanted pib RawRadioParam_PanId = Some (RadioParamValue_U16 (PANID_into (mac_pan_id pib)))"
| "wanted pib RawRadioParam_ShortAddress =
     Some (RadioParamValue_U16 (ShortAddress_into (mac_short_address pib)))"
| "wanted pib RawRadioParam_RxMode = Some (RadioParamValue_U16 3)"
| "wanted pib RawRadioParam_TxPower = Some (RadioParamValue_U16 (phy_tx_power pib))"
| "wanted pib _ = None"

definition requested_values :: "(radio_param, radio_param_info) hash_map \<Rightarrow>
    radio_param \<Rightarrow> radio_param_value option" where
  "requested_values m p = map_option requested_value (map_of m p)"

lemma requested_values_update:
  "requested_values (radio_params (ManagementService_update_radio_parameter p v s)) =
    (requested_values (radio_params s))(p \<mapsto> v)"
  by (rule ext)
    (auto simp: requested_values_def ManagementService_update_radio_parameter_def update_conv'
      split: option.splits)

lemma rx_mode_value:
  "RadioParamValue_from_RadioRxMode \<lparr>address_filter = True, autoack = True, poll_mode = False\<rparr> =
    RadioParamValue_U16 3"
  by (simp add: RadioParamValue_from_RadioRxMode_def RadioParamValue_from_u16_def bool_to_word_def)

lemma requested_values_updates:
  "requested_values (radio_params (ManagementService_update_radio_parameters pib s)) =
    requested_values (radio_params s) ++ wanted pib"
proof (rule ext)
  fix p
  show "requested_values (radio_params (ManagementService_update_radio_parameters pib s)) p =
      (requested_values (radio_params s) ++ wanted pib) p"
    by (cases p) (simp_all add: ManagementService_update_radio_parameters_def Let_def
        requested_values_update rx_mode_value RadioParamValue_from_u16_def map_add_def)
qed

section \<open>The service and the radio\<close>

text \<open>
  \<open>unanswered\<close> are the changes handed out and not answered, in the order in which they were
  handed out.  The radio carries them out in this order.  A successful change stores the
  value; after a failure the parameter may have any value.
\<close>

record mgmt_system =
  mgmt :: management_service
  mgmt_pib :: pib
  device :: "radio_param \<Rightarrow> radio_param_value"
  unanswered :: "(unique_key \<times> radio_param \<times> radio_param_value) list"

inductive mgmt_step :: "'bm handle_map_ops \<Rightarrow> mgmt_system \<Rightarrow> mgmt_system \<Rightarrow> bool" for bm where
  mlme_request: "ManagementService_process_mlme_request bm random_bsn random_dsn r (mgmt_pib s) data (mgmt s) =
      (c, pib', data', m) \<Longrightarrow>
    mgmt_step bm s (s\<lparr>mgmt := m, mgmt_pib := pib'\<rparr>)"
| frame: "ManagementService_process_frame f (mgmt_pib s) (mgmt s) = (i, pib', m) \<Longrightarrow>
    mgmt_step bm s (s\<lparr>mgmt := m, mgmt_pib := pib'\<rparr>)"
| data_sequence_nr: "PIB_next_data_sequence_nr (mgmt_pib s) = (nr, pib') \<Longrightarrow>
    mgmt_step bm s (s\<lparr>mgmt_pib := pib'\<rparr>)"
| poll_set_param:
    "ManagementService_poll_action fresh cx (mgmt s) =
      (Ready (ManagementServiceAction_SetParam k p v), m) \<Longrightarrow>
    UniqueKey_new fresh \<notin> fst ` set (unanswered s) \<Longrightarrow>
    mgmt_step bm s (s\<lparr>mgmt := m, unanswered := unanswered s @ [(k, p, v)]\<rparr>)"
| poll_other: "ManagementService_poll_action fresh cx (mgmt s) = (r', m) \<Longrightarrow>
    (\<And>k p v. r' \<noteq> Ready (ManagementServiceAction_SetParam k p v)) \<Longrightarrow>
    mgmt_step bm s (s\<lparr>mgmt := m\<rparr>)"
| answer: "unanswered s = (k, p, v) # rest \<Longrightarrow> (ok \<Longrightarrow> w = v) \<Longrightarrow>
    mgmt_step bm s (s\<lparr>mgmt := ManagementService_process_set_param_result k ok (mgmt s),
      device := (device s)(p := w), unanswered := rest\<rparr>)"
| reorder: "reordered (radio_params (mgmt s)) ps \<Longrightarrow>
    mgmt_step bm s (s\<lparr>mgmt := (mgmt s)\<lparr>radio_params := ps\<rparr>\<rparr>)"

inductive mgmt_reachable :: "'bm handle_map_ops \<Rightarrow> mgmt_system \<Rightarrow> bool" for bm where
  start: "mgmt_reachable bm \<lparr>mgmt = ManagementService_new pib, mgmt_pib = pib, device = d, unanswered = []\<rparr>"
| step: "mgmt_reachable bm s \<Longrightarrow> mgmt_step bm s s' \<Longrightarrow> mgmt_reachable bm s'"

subsection \<open>The invariant of one parameter\<close>

type_synonym change = "unique_key \<times> radio_param \<times> radio_param_value"

definition changes_of :: "radio_param \<Rightarrow> change list \<Rightarrow> change list" where
  "changes_of p un = [c \<leftarrow> un. fst (snd c) = p]"

definition param_ok :: "(radio_param \<Rightarrow> radio_param_value) \<Rightarrow> change list \<Rightarrow> radio_param \<Rightarrow>
    radio_param_info \<Rightarrow> bool" where
  "param_ok dev un p info \<longleftrightarrow>
     (case rpi_updating info of
        Some k \<Rightarrow> (\<exists>v. (k, p, v) \<in> set un) \<and>
          (rpi_dirty info \<or> (\<exists>cs. changes_of p un = cs @ [(k, p, requested_value info)]))
      | None \<Rightarrow> rpi_dirty info \<or> changes_of p un = [] \<and> dev p = requested_value info)"

lemma changes_of_simps [simp]:
  "changes_of p [] = []"
  "changes_of p ((k, p', v) # un) = (if p' = p then (k, p', v) # changes_of p un else changes_of p un)"
  "changes_of p (un @ un') = changes_of p un @ changes_of p un'"
  by (simp_all add: changes_of_def)

lemma set_changes_of: "set (changes_of p un) = {c \<in> set un. fst (snd c) = p}"
  by (auto simp: changes_of_def)

lemma param_ok_new [simp]: "param_ok dev un p \<lparr>requested_value = v, rpi_updating = None, rpi_dirty = True\<rparr>"
  by (simp add: param_ok_def)

lemma param_ok_change: "param_ok dev un p info \<Longrightarrow> param_ok dev un p (info\<lparr>requested_value := v, rpi_dirty := True\<rparr>)"
  by (auto simp: param_ok_def split: option.splits)

lemma param_ok_handed_out:
  "param_ok dev (un @ [(k, p, requested_value info)]) p (info\<lparr>rpi_dirty := False, rpi_updating := Some k\<rparr>)"
  by (auto simp: param_ok_def)

lemma param_ok_other_handed_out:
  "p' \<noteq> p \<Longrightarrow> param_ok dev un p info \<Longrightarrow> param_ok dev (un @ [(k, p', v)]) p info"
  by (auto simp: param_ok_def split: option.splits)

text \<open>An answer that is not for this parameter, or for a change the service has forgotten in a reset.\<close>

lemma param_ok_other_answered:
  assumes "param_ok dev ((k, p', v) # un) p info" "rpi_updating info \<noteq> Some k"
  shows "param_ok (dev(p' := w)) un p info"
proof (cases "rpi_updating info")
  case None
  with assms(1) show ?thesis by (auto simp: param_ok_def split: if_splits)
next
  case (Some k')
  with assms have k': "(\<exists>v. (k', p, v) \<in> set un)" "k' \<noteq> k" by (auto simp: param_ok_def)
  have "\<exists>cs. changes_of p un = cs @ [(k', p, requested_value info)]"
    if "changes_of p ((k, p', v) # un) = cs @ [(k', p, requested_value info)]" for cs
    using that k'(2) by (cases cs) (auto split: if_splits)
  with Some assms(1) k'(1) show ?thesis by (auto simp: param_ok_def simp del: changes_of_simps)
qed

lemma param_ok_own_answered:
  assumes "param_ok dev ((k, p', v) # un) p info" "rpi_updating info = Some k"
    and "distinct (map fst ((k, p', v) # un))" "ok \<Longrightarrow> w = v"
  shows "param_ok (dev(p' := w)) un p (info\<lparr>rpi_updating := None, rpi_dirty := rpi_dirty info \<or> \<not> ok\<rparr>)"
proof (cases "rpi_dirty info \<or> \<not> ok")
  case False
  have k: "k \<notin> fst ` set un" using assms(3) by simp
  obtain cs where cs: "changes_of p ((k, p', v) # un) = cs @ [(k, p, requested_value info)]"
    using assms(1,2) False by (auto simp: param_ok_def simp del: changes_of_simps)
  have "(k, p, x) \<notin> set (changes_of p un)" for x using k by (force simp: set_changes_of)
  moreover have "(k, p, x) \<notin> set un" for x using k by force
  ultimately have "p' = p" "v = requested_value info" "changes_of p un = []"
    using cs by (cases cs; force split: if_splits)+
  with False assms(4) show ?thesis by (simp add: param_ok_def)
qed (simp add: param_ok_def)

subsection \<open>The invariant of the service\<close>

definition params_ok :: "(radio_param \<Rightarrow> radio_param_value) \<Rightarrow> change list \<Rightarrow>
    (radio_param, radio_param_info) hash_map \<Rightarrow> bool" where
  "params_ok dev un m \<longleftrightarrow> hm_wf m \<and> (\<forall>(p, info) \<in> set m. param_ok dev un p info)"

definition mgmt_inv :: "mgmt_system \<Rightarrow> bool" where
  "mgmt_inv s \<longleftrightarrow> distinct (map fst (unanswered s)) \<and>
     params_ok (device s) (unanswered s) (radio_params (mgmt s)) \<and>
     wanted (mgmt_pib s) \<subseteq>\<^sub>m requested_values (radio_params (mgmt s))"

lemma params_ok_modify:
  "params_ok dev un m \<Longrightarrow>
    params_ok dev un (hm_modify p (\<lambda>current. current\<lparr>requested_value := v, rpi_dirty := True\<rparr>) m)"
  unfolding params_ok_def
proof (intro conjI ballI)
  fix c
  assume m: "hm_wf m \<and> (\<forall>(p, info) \<in> set m. param_ok dev un p info)"
    and "c \<in> set (hm_modify p (\<lambda>current. current\<lparr>requested_value := v, rpi_dirty := True\<rparr>) m)"
  then obtain q info where "(q, info) \<in> set m"
    and c: "c = (q, if q = p then info\<lparr>requested_value := v, rpi_dirty := True\<rparr> else info)"
    by (auto simp: hm_modify_def)
  then have "param_ok dev un q info" using m by blast
  then show "case c of (p, info) \<Rightarrow> param_ok dev un p info" using c by (auto intro: param_ok_change)
qed auto

lemma params_ok_update:
  assumes "params_ok dev un (radio_params s)"
  shows "params_ok dev un (radio_params (ManagementService_update_radio_parameter p v s))"
proof (cases "map_of (radio_params s) p")
  case None
  have "params_ok dev un (radio_params s @ [(p, \<lparr>requested_value = v, rpi_updating = None, rpi_dirty = True\<rparr>)])"
    using assms None by (auto simp: params_ok_def hm_wf_def map_of_eq_None_iff)
  with None show ?thesis
    by (simp add: ManagementService_update_radio_parameter_def update_fresh)
next
  case (Some info)
  then show ?thesis
    using assms params_ok_modify by (simp add: ManagementService_update_radio_parameter_def)
qed

lemma params_ok_updates:
  "params_ok dev un (radio_params s) \<Longrightarrow>
    params_ok dev un (radio_params (ManagementService_update_radio_parameters pib s))"
  by (simp add: ManagementService_update_radio_parameters_def Let_def params_ok_update)

lemma params_ok_new: "params_ok dev un (radio_params (ManagementService_new pib))"
  unfolding ManagementService_new_def by (rule params_ok_updates) (simp add: params_ok_def)

lemma wanted_updates:
  "wanted pib \<subseteq>\<^sub>m requested_values (radio_params (ManagementService_update_radio_parameters pib s))"
  by (simp add: requested_values_updates)

lemma wanted_new: "wanted pib \<subseteq>\<^sub>m requested_values (radio_params (ManagementService_new pib))"
  by (simp add: ManagementService_new_def wanted_updates)

lemma wanted_cong:
  "phy_current_channel pib' = phy_current_channel pib \<Longrightarrow> mac_pan_id pib' = mac_pan_id pib \<Longrightarrow>
    mac_short_address pib' = mac_short_address pib \<Longrightarrow> phy_tx_power pib' = phy_tx_power pib \<Longrightarrow>
    wanted pib' = wanted pib"
  by (rule ext, rename_tac p, case_tac p) simp_all

text \<open>Beacons change neither the parameters nor what the PIB asks for.\<close>

lemma beacon_request_frame:
  "ManagementService_process_mlme_beacon_request r pib m = (c, pib', m') \<Longrightarrow>
    radio_params m' = radio_params m \<and> wanted pib' = wanted pib"
  by (auto simp: ManagementService_process_mlme_beacon_request_def Let_def PIB_next_beacon_sequence_nr_def
      intro!: wanted_cong split: if_splits)

lemma process_frame_frame:
  "ManagementService_process_frame f pib m = (i, pib', m') \<Longrightarrow>
    radio_params m' = radio_params m \<and> wanted pib' = wanted pib"
  by (auto simp: ManagementService_process_frame_def ManagementService_process_frame_beacon_request_def
      Let_def dest!: beacon_request_frame split: frame_type.splits command.splits if_splits prod.splits)

lemma mlme_request_params:
  assumes "ManagementService_process_mlme_request bm rb rd r pib data m = (c, pib', data', m')"
    and "params_ok dev un (radio_params m)" "wanted pib \<subseteq>\<^sub>m requested_values (radio_params m)"
  shows "params_ok dev un (radio_params m')" "wanted pib' \<subseteq>\<^sub>m requested_values (radio_params m')"
proof -
  have "params_ok dev un (radio_params m') \<and> wanted pib' \<subseteq>\<^sub>m requested_values (radio_params m')"
  proof (cases r)
    case (Mlme_Reset q)
    then show ?thesis
      using assms(1) params_ok_new wanted_new
      by (auto simp: ManagementService_process_mlme_reset_request_def Let_def)
  next
    case (Mlme_Start q)
    then show ?thesis
      using assms params_ok_updates wanted_updates
      by (auto simp: ManagementService_process_mlme_start_request_def Let_def split: if_splits)
  next
    case (Mlme_Beacon q)
    then show ?thesis using assms by (auto dest!: beacon_request_frame split: prod.splits)
  next
    case (Mlme_Get q)
    then show ?thesis using assms by auto
  next
    case (Mlme_Set q)
    then show ?thesis
      using assms params_ok_updates wanted_updates
      by (auto simp: ManagementService_process_mlme_set_request_def Let_def split: prod.splits)
  qed
  then show "params_ok dev un (radio_params m')" "wanted pib' \<subseteq>\<^sub>m requested_values (radio_params m')"
    by simp_all
qed

text \<open>What the loop over the parameters finds.\<close>

lemma poll_radio_params_cases:
  obtains (found) m1 p info m2 where "m = m1 @ (p, info) # m2" "rpi_updating info = None"
      "ManagementService_poll_radio_params fresh m =
        (Ready (ManagementServiceAction_SetParam (UniqueKey_new fresh) p (requested_value info)),
         m1 @ (p, info\<lparr>rpi_dirty := False, rpi_updating := Some (UniqueKey_new fresh)\<rparr>) # m2)"
  | (clean) "ManagementService_poll_radio_params fresh m = (Pending, m)"
      "\<forall>(p, info) \<in> set m. rpi_dirty info \<longrightarrow> rpi_updating info \<noteq> None"
proof (induction m arbitrary: thesis)
  case Nil
  then show ?case by simp
next
  case (Cons c m)
  obtain p info where c: "c = (p, info)" by (cases c)
  show ?case
  proof (cases "rpi_dirty info \<and> rpi_updating info = None")
    case True
    with c show ?thesis by (intro Cons.prems(1) [of "[]" p info m]) (simp_all add: Let_def)
  next
    case False
    show ?thesis
    proof (rule Cons.IH)
      fix m1 p' info' m2
      assume "m = m1 @ (p', info') # m2" "rpi_updating info' = None"
        "ManagementService_poll_radio_params fresh m =
          (Ready (ManagementServiceAction_SetParam (UniqueKey_new fresh) p' (requested_value info')),
           m1 @ (p', info'\<lparr>rpi_dirty := False, rpi_updating := Some (UniqueKey_new fresh)\<rparr>) # m2)"
      with c False show ?thesis by (intro Cons.prems(1) [of "c # m1" p' info' m2]) auto
    next
      assume "ManagementService_poll_radio_params fresh m = (Pending, m)"
        "\<forall>(p, info) \<in> set m. rpi_dirty info \<longrightarrow> rpi_updating info \<noteq> None"
      with c False show ?thesis by (intro Cons.prems(2)) auto
    qed
  qed
qed

lemma params_ok_handed_out:
  assumes "params_ok dev un (m1 @ (p, info) # m2)"
  shows "params_ok dev (un @ [(k, p, requested_value info)])
    (m1 @ (p, info\<lparr>rpi_dirty := False, rpi_updating := Some k\<rparr>) # m2)"
proof -
  have wf: "hm_wf (m1 @ (p, info) # m2)" and ok: "\<forall>(p, info) \<in> set (m1 @ m2). param_ok dev un p info"
    using assms by (auto simp: params_ok_def)
  have other: "param_ok dev (un @ [(k, p, requested_value info)]) p' i" if "(p', i) \<in> set (m1 @ m2)" for p' i
  proof (rule param_ok_other_handed_out)
    have "p \<notin> fst ` set (m1 @ m2)" using wf by (auto simp: hm_wf_def)
    with that show "p \<noteq> p'" by force
    show "param_ok dev un p' i" using that ok by blast
  qed
  have "hm_wf (m1 @ (p, info\<lparr>rpi_dirty := False, rpi_updating := Some k\<rparr>) # m2)"
    using wf by (simp add: hm_wf_def)
  then show ?thesis unfolding params_ok_def using other param_ok_handed_out by auto
qed

lemma requested_values_handed_out:
  "requested_values (m1 @ (p, info\<lparr>rpi_dirty := False, rpi_updating := Some k\<rparr>) # m2) =
    requested_values (m1 @ (p, info) # m2)"
  by (rule ext) (auto simp: requested_values_def map_add_def split: option.splits)

lemma set_param_results_map:
  "snd (ManagementService_set_param_results k ok b m) =
    map (\<lambda>(p, info). (p, if rpi_updating info = Some k
      then info\<lparr>rpi_updating := None, rpi_dirty := rpi_dirty info \<or> \<not> ok\<rparr> else info)) m"
proof (induction m arbitrary: b)
  case (Cons c m)
  obtain p info where c: "c = (p, info)" by (cases c)
  let ?next = "\<lambda>b'. snd (ManagementService_set_param_results k ok b' m)"
  have dirty: "(if \<not> ok then i\<lparr>rpi_dirty := True\<rparr> else i) = i\<lparr>rpi_dirty := rpi_dirty i \<or> \<not> ok\<rparr>" for i
    by simp
  have "\<exists>b'. snd (ManagementService_set_param_results k ok b (c # m)) =
      (p, if rpi_updating info = Some k
        then info\<lparr>rpi_updating := None, rpi_dirty := rpi_dirty info \<or> \<not> ok\<rparr> else info) # ?next b'"
    by (auto simp: c Let_def case_prod_unfold dirty)
  then show ?case using Cons.IH by (auto simp: c)
qed simp

lemma radio_params_set_param_result:
  "radio_params (ManagementService_process_set_param_result k ok s) =
    map (\<lambda>(p, info). (p, if rpi_updating info = Some k
      then info\<lparr>rpi_updating := None, rpi_dirty := rpi_dirty info \<or> \<not> ok\<rparr> else info)) (radio_params s)"
  using set_param_results_map [of k ok False "radio_params s"]
  by (simp add: ManagementService_process_set_param_result_def Let_def case_prod_unfold)

lemma params_ok_answered:
  assumes "params_ok dev ((k, p, v) # un) m" "distinct (map fst ((k, p, v) # un))" "ok \<Longrightarrow> w = v"
  shows "params_ok (dev(p := w)) un (map (\<lambda>(q, info). (q, if rpi_updating info = Some k
      then info\<lparr>rpi_updating := None, rpi_dirty := rpi_dirty info \<or> \<not> ok\<rparr> else info)) m)"
proof -
  have "param_ok (dev(p := w)) un q (if rpi_updating info = Some k
      then info\<lparr>rpi_updating := None, rpi_dirty := rpi_dirty info \<or> \<not> ok\<rparr> else info)"
    if "(q, info) \<in> set m" for q info
  proof -
    have "param_ok dev ((k, p, v) # un) q info" using that assms(1) by (auto simp: params_ok_def)
    then show ?thesis
      using param_ok_own_answered [OF _ _ assms(2,3)] param_ok_other_answered by (cases "rpi_updating info = Some k") auto
  qed
  then show ?thesis using assms(1) by (auto simp: params_ok_def hm_wf_def o_def case_prod_unfold)
qed

lemma requested_values_answered:
  "requested_values (map (\<lambda>(q, info). (q, if rpi_updating info = Some k
      then info\<lparr>rpi_updating := None, rpi_dirty := rpi_dirty info \<or> \<not> ok\<rparr> else info)) m) = requested_values m"
  by (rule ext, induction m) (auto simp: requested_values_def)

lemma poll_action_cases:
  obtains (handed_out) m1 p info m2 where "radio_params s = m1 @ (p, info) # m2" "rpi_updating info = None"
      "ManagementService_poll_action fresh cx s =
        (Ready (ManagementServiceAction_SetParam (UniqueKey_new fresh) p (requested_value info)),
         s\<lparr>radio_params := m1 @ (p, info\<lparr>rpi_dirty := False, rpi_updating := Some (UniqueKey_new fresh)\<rparr>) # m2\<rparr>)"
  | (beacon) f rest where "outgoing s = f # rest"
      "ManagementService_poll_action fresh cx s =
        (Ready (ManagementServiceAction_SendFrame f), s\<lparr>outgoing := rest\<rparr>)"
      "\<forall>(p, info) \<in> set (radio_params s). rpi_dirty info \<longrightarrow> rpi_updating info \<noteq> None"
  | (idle) w where "outgoing s = []"
      "ManagementService_poll_action fresh cx s = (Pending, s\<lparr>ms_waker := w\<rparr>)"
      "\<forall>(p, info) \<in> set (radio_params s). rpi_dirty info \<longrightarrow> rpi_updating info \<noteq> None"
proof (cases rule: poll_radio_params_cases [of "radio_params s" fresh])
  case (found m1 p info m2)
  then show ?thesis
    using that(1) by (simp add: ManagementService_poll_action_def ManagementService_poll_radio_param_update_def)
next
  case clean
  then have poll: "ManagementService_poll_action fresh cx s =
      (case outgoing s of
         f # rest \<Rightarrow> (Ready (ManagementServiceAction_SendFrame f), s\<lparr>outgoing := rest\<rparr>)
       | [] \<Rightarrow> (Pending, s\<lparr>ms_waker := WakerStore_register (ms_waker s) cx\<rparr>))"
    by (simp add: ManagementService_poll_action_def ManagementService_poll_radio_param_update_def
        WakerStore_pend_def split: list.splits)
  show ?thesis using poll clean(2) that(2,3) by (cases "outgoing s") auto
qed

lemma mgmt_inv_step: "mgmt_step bm s s' \<Longrightarrow> mgmt_inv s \<Longrightarrow> mgmt_inv s'"
proof (induction rule: mgmt_step.induct)
  case (mlme_request random_bsn random_dsn r s data c pib' data' m)
  then show ?case using mlme_request_params [OF mlme_request.hyps, of "device s" "unanswered s"]
    by (simp add: mgmt_inv_def)
next
  case (frame f s i pib' m)
  then show ?case using process_frame_frame [OF frame.hyps] by (simp add: mgmt_inv_def)
next
  case (data_sequence_nr s nr pib')
  then have "wanted pib' = wanted (mgmt_pib s)"
    by (auto simp: PIB_next_data_sequence_nr_def intro!: wanted_cong)
  with data_sequence_nr.prems show ?case by (simp add: mgmt_inv_def)
next
  case (poll_set_param fresh cx s k p v m)
  show ?case
  proof (cases rule: poll_action_cases [of "mgmt s" fresh cx])
    case (handed_out m1 p' info m2)
    with poll_set_param show ?thesis
      by (auto simp: mgmt_inv_def params_ok_handed_out requested_values_handed_out)
  qed (use poll_set_param.hyps in auto)
next
  case (poll_other fresh cx s r' m)
  show ?case
    using poll_other by (cases rule: poll_action_cases [of "mgmt s" fresh cx]) (auto simp: mgmt_inv_def)
next
  case (answer s k p v rest ok w)
  then show ?case
    using params_ok_answered [of "device s" k p v rest "radio_params (mgmt s)" ok w]
    by (simp add: mgmt_inv_def radio_params_set_param_result requested_values_answered)
next
  case (reorder s ps)
  then have "map_of ps = map_of (radio_params (mgmt s))"
    by (intro reordered_map_of) (simp_all add: mgmt_inv_def params_ok_def)
  with reorder show ?case
    by (simp add: mgmt_inv_def params_ok_def reordered_def hm_wf_def requested_values_def [abs_def])
qed

lemma mgmt_reachable_inv: "mgmt_reachable bm s \<Longrightarrow> mgmt_inv s"
proof (induction rule: mgmt_reachable.induct)
  case (start pib d)
  show ?case by (simp add: mgmt_inv_def params_ok_new wanted_new)
next
  case (step s s')
  show ?case by (rule mgmt_inv_step [OF step.hyps(2) step.IH])
qed

lemma param_settled:
  assumes "mgmt_inv s" "unanswered s = []"
    and "\<forall>(p, info) \<in> set (radio_params (mgmt s)). rpi_dirty info \<longrightarrow> rpi_updating info \<noteq> None"
    and "wanted (mgmt_pib s) p = Some v"
  shows "device s p = v"
proof -
  have "requested_values (radio_params (mgmt s)) p = Some v"
    using assms(1,4) by (auto simp: mgmt_inv_def map_le_def dom_def)
  then obtain info where "(p, info) \<in> set (radio_params (mgmt s))" "requested_value info = v"
    by (auto simp: requested_values_def dest: map_of_SomeD)
  with assms(1-3) show ?thesis
    by (fastforce simp: mgmt_inv_def params_ok_def param_ok_def split: option.splits)
qed

text \<open>A run: the parameters of a new service are sent to a radio that answers every change.\<close>

definition demo_mgmt :: "pib \<Rightarrow> (radio_param \<Rightarrow> radio_param_value) \<Rightarrow> mgmt_system" where
  "demo_mgmt pib d = \<lparr>mgmt = ManagementService_new pib, mgmt_pib = pib, device = d, unanswered = []\<rparr>"

definition demo_turn :: "process_unique_id \<Rightarrow> mgmt_system \<Rightarrow> mgmt_system" where
  "demo_turn fresh s =
     (case ManagementService_poll_action fresh (Waker 0) (mgmt s) of
        (Ready (ManagementServiceAction_SetParam k p v), m) \<Rightarrow>
          s\<lparr>mgmt := ManagementService_process_set_param_result k True m, device := (device s)(p := v),
             unanswered := []\<rparr>
      | (_, m) \<Rightarrow> s\<lparr>mgmt := m\<rparr>)"

lemma demo_turn_reachable:
  assumes "mgmt_reachable bm s" "unanswered s = []"
  shows "mgmt_reachable bm (demo_turn fresh s) \<and> unanswered (demo_turn fresh s) = []"
proof (cases rule: poll_action_cases [of "mgmt s" fresh "Waker 0"])
  case (handed_out m1 p info m2)
  let ?m = "(mgmt s)\<lparr>radio_params := m1 @ (p, info\<lparr>rpi_dirty := False,
      rpi_updating := Some (UniqueKey_new fresh)\<rparr>) # m2\<rparr>"
  let ?s = "s\<lparr>mgmt := ?m, unanswered := [(UniqueKey_new fresh, p, requested_value info)]\<rparr>"
  have "mgmt_step bm s (s\<lparr>mgmt := ?m, unanswered := unanswered s @ [(UniqueKey_new fresh, p, requested_value info)]\<rparr>)"
    by (rule mgmt_step.poll_set_param [OF handed_out(3)]) (simp add: assms(2))
  then have "mgmt_reachable bm ?s" using mgmt_reachable.step [OF assms(1)] assms(2) by simp
  moreover have "mgmt_step bm ?s (?s\<lparr>mgmt := ManagementService_process_set_param_result (UniqueKey_new fresh) True (mgmt ?s),
      device := (device ?s)(p := requested_value info), unanswered := []\<rparr>)"
    by (rule mgmt_step.answer) simp_all
  ultimately have "mgmt_reachable bm (?s\<lparr>mgmt := ManagementService_process_set_param_result (UniqueKey_new fresh) True (mgmt ?s),
      device := (device ?s)(p := requested_value info), unanswered := []\<rparr>)"
    by (rule mgmt_reachable.step)
  then show ?thesis by (simp add: demo_turn_def handed_out(3))
next
  case (beacon f rest)
  have "mgmt_step bm s (s\<lparr>mgmt := (mgmt s)\<lparr>outgoing := rest\<rparr>\<rparr>)"
    by (rule mgmt_step.poll_other [OF beacon(2)]) simp
  then show ?thesis using mgmt_reachable.step [OF assms(1)] beacon(2) assms(2) by (simp add: demo_turn_def)
next
  case (idle w)
  have "mgmt_step bm s (s\<lparr>mgmt := (mgmt s)\<lparr>ms_waker := w\<rparr>\<rparr>)"
    by (rule mgmt_step.poll_other [OF idle(2)]) simp
  then show ?thesis using mgmt_reachable.step [OF assms(1)] idle(2) assms(2) by (simp add: demo_turn_def)
qed

definition demo_settled :: mgmt_system where
  "demo_settled = fold demo_turn [1, 2, 3, 4, 5] (demo_mgmt (PIB_new 0 0 (ExtendedAddress 7) 11 4)
     (\<lambda>_. RadioParamValue_U16 0))"

lemma demo_settled_reachable: "mgmt_reachable bm demo_settled \<and> unanswered demo_settled = []"
proof -
  have "mgmt_reachable bm (fold demo_turn ns (demo_mgmt pib d)) \<and>
      unanswered (fold demo_turn ns (demo_mgmt pib d)) = []" for ns pib d
  proof (induction ns rule: rev_induct)
    case Nil
    show ?case by (simp add: demo_mgmt_def mgmt_reachable.start)
  next
    case (snoc n ns)
    then show ?case using demo_turn_reachable [of bm "fold demo_turn ns (demo_mgmt pib d)" n] by simp
  qed
  then show ?thesis by (simp only: demo_settled_def)
qed

lemma demo_settled_quiet:
  "fst (ManagementService_poll_action 6 (Waker 0) (mgmt demo_settled)) = Pending"
  by (simp add: demo_settled_def demo_turn_def demo_mgmt_def ManagementService_new_def
      ManagementService_update_radio_parameters_def ManagementService_update_radio_parameter_def Let_def
      ManagementService_poll_action_def ManagementService_poll_radio_param_update_def
      ManagementService_process_set_param_result_def WakerStore_pend_def)

lemma outgoing_update_parameter [simp]:
  "outgoing (ManagementService_update_radio_parameter p v m) = outgoing m"
  by (simp add: ManagementService_update_radio_parameter_def split: option.splits)

lemma outgoing_update_parameters [simp]:
  "outgoing (ManagementService_update_radio_parameters pib m) = outgoing m"
  by (simp add: ManagementService_update_radio_parameters_def Let_def)

section \<open>Properties\<close>

text \<open>
  C6. The radio follows the PIB: after any sequence of MLME requests, received frames, polls
  and answers of the radio, successful or not, when a poll hands out no further change and
  none is unanswered, channel, PAN id, short address, receive mode and transmit power of
  the radio are those of the PIB.
\<close>

theorem ManagementService_radio_follows_pib:
  assumes "mgmt_reachable bm s" "unanswered s = []"
    and "ManagementService_poll_action fresh cx (mgmt s) = (r, m)"
    and "\<And>k p v. r \<noteq> Ready (ManagementServiceAction_SetParam k p v)"
  shows "device s RawRadioParam_Channel = RadioParamValue_U16 (phy_current_channel (mgmt_pib s)) \<and>
    device s RawRadioParam_PanId = RadioParamValue_U16 (PANID_into (mac_pan_id (mgmt_pib s))) \<and>
    device s RawRadioParam_ShortAddress =
      RadioParamValue_U16 (ShortAddress_into (mac_short_address (mgmt_pib s))) \<and>
    device s RawRadioParam_RxMode = RadioParamValue_U16 3 \<and>
    device s RawRadioParam_TxPower = RadioParamValue_U16 (phy_tx_power (mgmt_pib s))"
proof -
  have "\<forall>(p, info) \<in> set (radio_params (mgmt s)). rpi_dirty info \<longrightarrow> rpi_updating info \<noteq> None"
    using assms(3,4) by (cases rule: poll_action_cases [of "mgmt s" fresh cx]) auto
  from param_settled [OF mgmt_reachable_inv [OF assms(1)] assms(2) this] show ?thesis by simp
qed

theorem ManagementService_radio_follows_pib_witness:
  "device demo_settled RawRadioParam_TxPower = RadioParamValue_U16 (phy_tx_power (mgmt_pib demo_settled))"
proof -
  have "mgmt_reachable (bimap_impl :: (msdu_handle \<times> unique_key) list handle_map_ops) demo_settled"
    "unanswered demo_settled = []"
    using demo_settled_reachable by blast+
  from ManagementService_radio_follows_pib [OF this, of 6 "Waker 0" Pending
      "snd (ManagementService_poll_action 6 (Waker 0) (mgmt demo_settled))"] demo_settled_quiet
  show ?thesis by (simp add: prod_eq_iff)
qed

text \<open>
  Every MLME request is confirmed at once, by a confirm of its own kind and for its own
  attribute, and a request that is refused changes neither the PIB nor the data service and
  sends no beacon.
\<close>

theorem ManagementService_confirms_every_request:
  "case ManagementService_process_mlme_request bm random_bsn random_dsn r pib data m of
     (c, pib', data', m') \<Rightarrow>
       (case (r, c) of
          (Mlme_Reset _, Some (MlmeConfirm_Reset res)) \<Rightarrow> res = Ok ()
        | (Mlme_Start _, Some (MlmeConfirm_Start res)) \<Rightarrow> is_ok res \<or> pib' = pib \<and> m' = m \<and> data' = data
        | (Mlme_Beacon _, Some (MlmeConfirm_Beacon res)) \<Rightarrow>
            data' = data \<and>
            (is_ok res \<and> length (outgoing m') = length (outgoing m) + 1 \<or> pib' = pib \<and> m' = m)
        | (Mlme_Get g, Some (MlmeConfirm_Get a res)) \<Rightarrow>
            a = gr_attribute g \<and> pib' = pib \<and> m' = m \<and> data' = data
        | (Mlme_Set q, Some (MlmeConfirm_Set a res)) \<Rightarrow>
            a = st_attribute q \<and> data' = data \<and> outgoing m' = outgoing m \<and> (is_ok res \<or> pib' = pib)
        | _ \<Rightarrow> False)"
proof (cases r)
  case (Mlme_Reset q)
  then show ?thesis by (simp add: ManagementService_process_mlme_reset_request_def Let_def)
next
  case (Mlme_Start q)
  then show ?thesis by (simp add: ManagementService_process_mlme_start_request_def Let_def)
next
  case (Mlme_Beacon q)
  then show ?thesis
    by (simp add: ManagementService_process_mlme_beacon_request_def Let_def case_prod_unfold)
next
  case (Mlme_Get q)
  then show ?thesis by simp
next
  case (Mlme_Set q)
  obtain res pib' where set: "PIB_set pib (st_attribute q) (st_value q) = (res, pib')" by fastforce
  have "is_ok res \<or> pib' = pib" using PIB_set_refused set by (cases res) auto
  then show ?thesis using Mlme_Set set by (simp add: ManagementService_process_mlme_set_request_def)
qed

text \<open>
  An association request is passed on exactly when association is permitted, the frame is
  addressed to this device under its full short address and its source is an extended
  address, with that address and the capabilities of the frame; a beacon request is answered
  with one beacon or passed on, never both; no other frame reaches the user of the service.
\<close>

theorem ManagementService_indications:
  "case ManagementService_process_frame f pib m of
     (i, pib', m') \<Rightarrow>
       (\<forall>dev cap. i = Some (MlmeIndication_Associate dev cap) \<longleftrightarrow>
         frame_type f = FrameType_Command (Command_AssociationRequest cap) \<and>
         mac_association_permit pib \<and> destination f = Some (PIB_get_full_short_address pib) \<and>
         (\<exists>p. source f = Some \<lparr>pan_id = p, address = Address_Extended dev\<rparr>)) \<and>
       (\<forall>t src p. i = Some (MlmeIndication_BeaconRequest t src p) \<longleftrightarrow>
         frame_type f = FrameType_Command Command_BeaconRequest \<and> \<not> mac_beacon_auto_respond pib \<and>
         t = BeaconType_Beacon \<and> src = source f \<and>
         p = (case destination f of Some full \<Rightarrow> pan_id full | None \<Rightarrow> PANID_broadcast)) \<and>
       length (outgoing m') = length (outgoing m) +
         (if frame_type f = FrameType_Command Command_BeaconRequest \<and> mac_beacon_auto_respond pib
          then 1 else 0)"
proof -
  have ext: "(\<exists>p. full = \<lparr>pan_id = p, address = Address_Extended a\<rparr>) \<longleftrightarrow> address full = Address_Extended a"
    for full a by (cases full) auto
  show ?thesis
    by (cases "frame_type f")
      (auto simp: ManagementService_process_frame_def ManagementService_process_frame_beacon_request_def
        ManagementService_process_frame_association_request_def
        ManagementService_process_mlme_beacon_request_def Let_def ext PIB_next_beacon_sequence_nr_def
        split: command.splits option.splits address.splits)
qed

end
