(* ===== verification/Mac_Service.thy ===== *)
theory Mac_Service
  imports Management
begin

text \<open>
  The MAC service (\<^verbatim>\<open>mac/service.rs\<close>): the start-up dialogue with the radio and the loop that
  polls the management service, the data service, the radio and the users' channels in this
  order and processes what comes first.  A channel is what has been sent on it or what has
  arrived on it and not been taken; sending on a channel whose receiver is gone is an error,
  and an input channel whose senders are gone ends.
\<close>

section \<open>Channels\<close>

datatype send_error = SendError

record 'a channel_sink =
  sink_open :: bool
  sink_sent :: "'a list"

definition Sink_send :: "'a \<Rightarrow> 'a channel_sink \<Rightarrow> (unit, send_error) result \<times> 'a channel_sink" where
  "Sink_send x sink =
     (if sink_open sink then (Ok (), sink\<lparr>sink_sent := sink_sent sink @ [x]\<rparr>)
      else (Err SendError, sink))"

record 'a channel_stream =
  arrived :: "'a list"
  ended :: bool

definition Stream_poll_next :: "'a channel_stream \<Rightarrow> 'a option poll \<times> 'a channel_stream" where
  "Stream_poll_next stream =
     (case arrived stream of
        x # rest \<Rightarrow> (Ready (Some x), stream\<lparr>arrived := rest\<rparr>)
      | [] \<Rightarrow> if ended stream then (Ready None, stream) else (Pending, stream))"

section \<open>The start-up dialogue\<close>

text \<open>
  \<^verbatim>\<open>SyncRadio\<close> sends a request and takes responses until one has its token; the responses in
  between are dropped.  \<open>None\<close>: the answer is not among the responses that ever arrive.
\<close>

record sync_radio =
  sr_requests :: "radio_request channel_sink"
  sr_responses :: "radio_response list"

fun SyncRadio_await :: "(radio_response \<Rightarrow> 'a option) \<Rightarrow> radio_response list \<Rightarrow>
    ('a \<times> radio_response list) option" where
  "SyncRadio_await answer [] = None"
| "SyncRadio_await answer (response # rest) =
     (case answer response of
        Some x \<Rightarrow> Some (x, rest)
      | None \<Rightarrow> SyncRadio_await answer rest)"

fun get_param_answer :: "unique_key \<Rightarrow> radio_response \<Rightarrow> (radio_param_value, radio_error) result option" where
  "get_param_answer token (RadioResponse_GetParam response_token _ res) =
     (if token = response_token then Some res else None)"
| "get_param_answer token _ = None"

fun set_param_answer :: "unique_key \<Rightarrow> radio_response \<Rightarrow> (unit, radio_error) result option" where
  "set_param_answer token (RadioResponse_SetParam response_token _ res) =
     (if token = response_token then Some (map_ok (\<lambda>_. ()) res) else None)"
| "set_param_answer token _ = None"

fun set_power_answer :: "unique_key \<Rightarrow> radio_response \<Rightarrow> (unit, radio_error) result option" where
  "set_power_answer token (RadioResponse_SetPower response_token _ res) =
     (if token = response_token then Some res else None)"
| "set_power_answer token _ = None"

definition SyncRadio_get_param :: "process_unique_id \<Rightarrow> radio_param \<Rightarrow> radio_param_type \<Rightarrow>
    sync_radio \<Rightarrow> ((radio_param_value, radio_error) result \<times> sync_radio) option" where
  "SyncRadio_get_param fresh param param_type self =
     (let token = UniqueKey_new fresh;
          (_, requests) = Sink_send (RadioRequest_GetParam token param param_type) (sr_requests self)
      in map_option (\<lambda>(res, responses). (res, \<lparr>sr_requests = requests, sr_responses = responses\<rparr>))
           (SyncRadio_await (get_param_answer token) (sr_responses self)))"

definition SyncRadio_get_param_u64 :: "process_unique_id \<Rightarrow> radio_param \<Rightarrow> sync_radio \<Rightarrow>
    ((u64, radio_error) result \<times> sync_radio) option" where
  "SyncRadio_get_param_u64 fresh param self =
     map_option (\<lambda>(res, self). (and_then res RadioParamValue_try_into_u64, self))
       (SyncRadio_get_param fresh param RadioParamType_U64 self)"

definition SyncRadio_get_param_u16 :: "process_unique_id \<Rightarrow> radio_param \<Rightarrow> sync_radio \<Rightarrow>
    ((u16, radio_error) result \<times> sync_radio) option" where
  "SyncRadio_get_param_u16 fresh param self =
     map_option (\<lambda>(res, self). (and_then res RadioParamValue_try_into_u16, self))
       (SyncRadio_get_param fresh param RadioParamType_U16 self)"

text \<open>\<^verbatim>\<open>set_param\<close> and \<^verbatim>\<open>set_power\<close> unwrap the result of the send.\<close>

definition SyncRadio_set_param :: "process_unique_id \<Rightarrow> radio_param \<Rightarrow> radio_param_value \<Rightarrow>
    sync_radio \<Rightarrow> ((unit, radio_error) result \<times> sync_radio) outcome option" where
  "SyncRadio_set_param fresh param val self =
     (let token = UniqueKey_new fresh
      in case Sink_send (RadioRequest_SetParam token param val) (sr_requests self) of
           (Err _, _) \<Rightarrow> Some Panic
         | (Ok _, requests) \<Rightarrow>
             map_option (\<lambda>(res, responses). Return (res, \<lparr>sr_requests = requests, sr_responses = responses\<rparr>))
               (SyncRadio_await (set_param_answer token) (sr_responses self)))"

definition SyncRadio_set_power :: "process_unique_id \<Rightarrow> bool \<Rightarrow> sync_radio \<Rightarrow>
    ((unit, radio_error) result \<times> sync_radio) outcome option" where
  "SyncRadio_set_power fresh on self =
     (let token = UniqueKey_new fresh
      in case Sink_send (RadioRequest_SetPower token on) (sr_requests self) of
           (Err _, _) \<Rightarrow> Some Panic
         | (Ok _, requests) \<Rightarrow>
             map_option (\<lambda>(res, responses). Return (res, \<lparr>sr_requests = requests, sr_responses = responses\<rparr>))
               (SyncRadio_await (set_power_answer token) (sr_responses self)))"

section \<open>The state of the service\<close>

record 'bm mac_data =
  mac_pib :: pib
  radio_requests :: "radio_request channel_sink"
  radio_responses :: "radio_response channel_stream"
  mlme_out :: "mlme_output channel_sink"
  mlme_in :: "mlme_input channel_stream"
  mcps_out :: "mcps_output channel_sink"
  mcps_in :: "mcps_input channel_stream"
  management :: management_service
  mac_data_service :: "'bm data_service"

datatype mac_input =
    MacInput_Radio radio_response
  | MacInput_MlmeRequest mlme_request
  | MacInput_MlmeResponse mlme_response
  | MacInput_McpsRequest mcps_request
  | MacInput_McpsResponse mcps_response
  | MacInput_Management management_service_action
  | MacInput_Data data_service_action

text \<open>
  \<^verbatim>\<open>MacData::new\<close> with the responses the radio will send; \<open>fresh\<close> are the identifiers of the five
  tokens.  \<open>None\<close>: it waits for an answer that does not come.
\<close>

definition MacData_new :: "'bm handle_map_ops \<Rightarrow> (nat \<Rightarrow> process_unique_id) \<Rightarrow> u8 \<Rightarrow> u8 \<Rightarrow>
    radio_request channel_sink \<Rightarrow> radio_response list \<Rightarrow> mlme_input channel_stream \<Rightarrow>
    mlme_output channel_sink \<Rightarrow> mcps_input channel_stream \<Rightarrow> mcps_output channel_sink \<Rightarrow>
    'bm mac_data outcome option" where
  "MacData_new bm fresh random_bsn random_dsn requests responses mlme_input mlme_output mcps_input mcps_output =
     (let radio = \<lparr>sr_requests = requests, sr_responses = responses\<rparr>
      in case SyncRadio_get_param_u64 (fresh 0) RawRadioParam_LongAddress radio of
           None \<Rightarrow> None
         | Some (Err _, radio) \<Rightarrow> Some Panic
         | Some (Ok extended_address, radio) \<Rightarrow>
      (case SyncRadio_get_param_u16 (fresh 1) RawRadioParam_TxPowerMax radio of
           None \<Rightarrow> None
         | Some (Err _, radio) \<Rightarrow> Some Panic
         | Some (Ok max_tx_power, radio) \<Rightarrow>
      (case SyncRadio_get_param_u16 (fresh 2) RawRadioParam_Channel radio of
           None \<Rightarrow> None
         | Some (Err _, radio) \<Rightarrow> Some Panic
         | Some (Ok current_channel, radio) \<Rightarrow>
      (case SyncRadio_set_param (fresh 3) RawRadioParam_RxMode
              (RadioParamValue_from_RadioRxMode
                \<lparr>address_filter = True, autoack = True, poll_mode = False\<rparr>) radio of
           None \<Rightarrow> None
         | Some Panic \<Rightarrow> Some Panic
         | Some (Return (Err _, radio)) \<Rightarrow> Some Panic
         | Some (Return (Ok _, radio)) \<Rightarrow>
      (case SyncRadio_set_power (fresh 4) True radio of
           None \<Rightarrow> None
         | Some Panic \<Rightarrow> Some Panic
         | Some (Return (Err _, radio)) \<Rightarrow> Some Panic
         | Some (Return (Ok _, radio)) \<Rightarrow>
             (let pib = PIB_new random_bsn random_dsn (ExtendedAddress extended_address)
                    current_channel max_tx_power
              in Some (Return
                   \<lparr>mac_pib = pib,
                    radio_requests = sr_requests radio,
                    radio_responses = \<lparr>arrived = sr_responses radio, ended = False\<rparr>,
                    mlme_out = mlme_output,
                    mlme_in = mlme_input,
                    mcps_out = mcps_output,
                    mcps_in = mcps_input,
                    management = ManagementService_new pib,
                    mac_data_service = DataService_new bm\<rparr>)))))))"

section \<open>One turn of the loop\<close>

text \<open>The last three branches of \<^verbatim>\<open>poll_next_input\<close>: the radio, then the two users.\<close>

definition MacData_poll_channels :: "'bm mac_data \<Rightarrow> (mac_input poll \<times> 'bm mac_data) outcome" where
  "MacData_poll_channels self =
     (case Stream_poll_next (radio_responses self) of
        (Ready None, _) \<Rightarrow> Panic
      | (Ready (Some x), s) \<Rightarrow> Return (Ready (MacInput_Radio x), self\<lparr>radio_responses := s\<rparr>)
      | (Pending, s) \<Rightarrow>
     (let self = self\<lparr>radio_responses := s\<rparr>
      in case Stream_poll_next (mlme_in self) of
        (Ready None, _) \<Rightarrow> Panic
      | (Ready (Some (MlmeInput_Request x)), s) \<Rightarrow>
          Return (Ready (MacInput_MlmeRequest x), self\<lparr>mlme_in := s\<rparr>)
      | (Ready (Some (MlmeInput_Response x)), s) \<Rightarrow>
          Return (Ready (MacInput_MlmeResponse x), self\<lparr>mlme_in := s\<rparr>)
      | (Pending, s) \<Rightarrow>
     (let self = self\<lparr>mlme_in := s\<rparr>
      in case Stream_poll_next (mcps_in self) of
        (Ready None, _) \<Rightarrow> Panic
      | (Ready (Some (McpsInput_Request x)), s) \<Rightarrow>
          Return (Ready (MacInput_McpsRequest x), self\<lparr>mcps_in := s\<rparr>)
      | (Ready (Some (McpsInput_Response x)), s) \<Rightarrow>
          Return (Ready (MacInput_McpsResponse x), self\<lparr>mcps_in := s\<rparr>)
      | (Pending, s) \<Rightarrow> Return (Pending, self\<lparr>mcps_in := s\<rparr>))))"

definition MacData_poll_next_input :: "'bm handle_map_ops \<Rightarrow> timer_ready \<Rightarrow> process_unique_id \<Rightarrow>
    waker \<Rightarrow> 'bm mac_data \<Rightarrow> (mac_input poll \<times> 'bm mac_data) outcome" where
  "MacData_poll_next_input bm timer_ready fresh cx self =
     (case ManagementService_poll_action fresh cx (management self) of
        (Ready x, m) \<Rightarrow> Return (Ready (MacInput_Management x), self\<lparr>management := m\<rparr>)
      | (Pending, m) \<Rightarrow>
          (let self = self\<lparr>management := m\<rparr>
           in bind_outcome
             (DataService_poll_action bm timer_ready fresh cx (mac_pib self) (mac_data_service self))
             (\<lambda>(r, pib, d).
               (let self = self\<lparr>mac_pib := pib, mac_data_service := d\<rparr>
                in case r of
                     Ready x \<Rightarrow> Return (Ready (MacInput_Data x), self)
                   | Pending \<Rightarrow> MacData_poll_channels self))))"

text \<open>\<^verbatim>\<open>sink.send(x).await.unwrap()\<close> on each of the three sinks.\<close>

definition MacData_send_radio :: "radio_request \<Rightarrow> 'bm mac_data \<Rightarrow> 'bm mac_data outcome" where
  "MacData_send_radio x self =
     (case Sink_send x (radio_requests self) of
        (res, sink) \<Rightarrow> bind_outcome (unwrap res) (\<lambda>_. Return (self\<lparr>radio_requests := sink\<rparr>)))"

definition MacData_send_mlme :: "mlme_output \<Rightarrow> 'bm mac_data \<Rightarrow> 'bm mac_data outcome" where
  "MacData_send_mlme x self =
     (case Sink_send x (mlme_out self) of
        (res, sink) \<Rightarrow> bind_outcome (unwrap res) (\<lambda>_. Return (self\<lparr>mlme_out := sink\<rparr>)))"

definition MacData_send_mcps :: "mcps_output \<Rightarrow> 'bm mac_data \<Rightarrow> 'bm mac_data outcome" where
  "MacData_send_mcps x self =
     (case Sink_send x (mcps_out self) of
        (res, sink) \<Rightarrow> bind_outcome (unwrap res) (\<lambda>_. Return (self\<lparr>mcps_out := sink\<rparr>)))"

definition MacData_send_frame :: "bf16 \<Rightarrow> unique_key \<Rightarrow> frame \<Rightarrow> 'bm mac_data \<Rightarrow> 'bm mac_data outcome" where
  "MacData_send_frame bf key frm self =
     bind_outcome (unwrap (Frame_pack bf VecPackTarget_append frm VecPackTarget_new)) (\<lambda>target.
       MacData_send_radio (RadioRequest_SendPacket key (VecPackTarget_into target)) self)"

fun MacData_process_management :: "bf16 \<Rightarrow> process_unique_id \<Rightarrow> management_service_action \<Rightarrow>
    'bm mac_data \<Rightarrow> 'bm mac_data outcome" where
  "MacData_process_management bf fresh (ManagementServiceAction_SetParam k p v) self =
     MacData_send_radio (RadioRequest_SetParam k p v) self"
| "MacData_process_management bf fresh (ManagementServiceAction_SendFrame f) self =
     MacData_send_frame bf (UniqueKey_new fresh) f self"

fun MacData_process_data :: "bf16 \<Rightarrow> data_service_action \<Rightarrow> 'bm mac_data \<Rightarrow> 'bm mac_data outcome" where
  "MacData_process_data bf (DataServiceAction_InitPendingTable key) self =
     MacData_send_radio (RadioRequest_InitPendingDataTable key) self"
| "MacData_process_data bf (DataServiceAction_SetPendingShort key index val) self =
     MacData_send_radio (RadioRequest_SetPendingShort key index
       (map_option (\<lambda>(p, a). (PANID_into p, ShortAddress_into a)) val)) self"
| "MacData_process_data bf (DataServiceAction_SetPendingExtended key index val) self =
     MacData_send_radio (RadioRequest_SetPendingExtended key index
       (map_option ExtendedAddress_into val)) self"
| "MacData_process_data bf (DataServiceAction_SendFrame key frm) self = MacData_send_frame bf key frm self"
| "MacData_process_data bf (DataServiceAction_Confirm confirm) self =
     MacData_send_mcps (McpsOutput_Confirm confirm) self"

definition MacData_process_mlme_request :: "'bm handle_map_ops \<Rightarrow> u8 \<Rightarrow> u8 \<Rightarrow> mlme_request \<Rightarrow>
    'bm mac_data \<Rightarrow> 'bm mac_data outcome" where
  "MacData_process_mlme_request bm random_bsn random_dsn request self =
     (case ManagementService_process_mlme_request bm random_bsn random_dsn request (mac_pib self)
         (mac_data_service self) (management self) of
        (c, pib, d, m) \<Rightarrow>
          (let self = self\<lparr>mac_pib := pib, mac_data_service := d, management := m\<rparr>
           in case c of
             Some confirm \<Rightarrow> MacData_send_mlme (MlmeOutput_Confirm confirm) self
           | None \<Rightarrow> Return self))"

definition MacData_process_mcps_request :: "'bm handle_map_ops \<Rightarrow> sleep_fn \<Rightarrow> process_unique_id \<Rightarrow>
    mcps_request \<Rightarrow> 'bm mac_data \<Rightarrow> 'bm mac_data outcome" where
  "MacData_process_mcps_request bm sleep fresh request self =
     (case DataService_process_mcps_request bm sleep fresh (mac_pib self) request (mac_data_service self) of
        (c, d) \<Rightarrow>
          (let self = self\<lparr>mac_data_service := d\<rparr>
           in case c of
             Some confirm \<Rightarrow> MacData_send_mcps (McpsOutput_Confirm confirm) self
           | None \<Rightarrow> Return self))"

definition MacData_process_mlme_response :: "sleep_fn \<Rightarrow> process_unique_id \<Rightarrow> mlme_response \<Rightarrow>
    'bm mac_data \<Rightarrow> 'bm mac_data" where
  "MacData_process_mlme_response sleep fresh response self =
     self\<lparr>mac_data_service := ManagementService_process_mlme_response sleep fresh (mac_pib self) response
       (mac_data_service self)\<rparr>"

definition MacData_process_mcps_response :: "mcps_response \<Rightarrow> 'bm mac_data \<Rightarrow> 'bm mac_data" where
  "MacData_process_mcps_response response self =
     self\<lparr>mac_data_service := DataService_process_mcps_response response (mac_data_service self)\<rparr>"

definition MacData_process_radio_packet :: "bf16 \<Rightarrow> radio_packet \<Rightarrow> 'bm mac_data \<Rightarrow> 'bm mac_data outcome" where
  "MacData_process_radio_packet bf packet self =
     bind_outcome (unwrap (Frame_unpack bf (packet_data packet))) (\<lambda>(frm, _).
       (case ManagementService_process_frame frm (mac_pib self) (management self) of
          (i, pib, m) \<Rightarrow>
            bind_outcome
              (let self = self\<lparr>mac_pib := pib, management := m\<rparr>
               in case i of
                 Some indication \<Rightarrow> MacData_send_mlme (MlmeOutput_Indication indication) self
               | None \<Rightarrow> Return self)
              (\<lambda>self. Return (self\<lparr>mac_data_service :=
                 DataService_process_frame (mac_pib self) frm (mac_data_service self)\<rparr>))))"

definition MacData_process_radio_send_result :: "sleep_fn \<Rightarrow> unique_key \<Rightarrow> (unit, radio_error) result \<Rightarrow>
    'bm mac_data \<Rightarrow> 'bm mac_data" where
  "MacData_process_radio_send_result sleep key res self =
     self\<lparr>mac_data_service := DataService_process_send_result sleep key (is_ok res) (mac_data_service self)\<rparr>"

fun MacData_process_radio_response :: "bf16 \<Rightarrow> sleep_fn \<Rightarrow> radio_response \<Rightarrow> 'bm mac_data \<Rightarrow>
    'bm mac_data outcome" where
  "MacData_process_radio_response bf sleep (RadioResponse_InitPendingDataTable x r) self =
     Return (self\<lparr>mac_data_service :=
       DataService_process_init_pending_table_result x (is_ok r) (mac_data_service self)\<rparr>)"
| "MacData_process_radio_response bf sleep (RadioResponse_SetPendingShort k r) self =
     bind_outcome (DataService_process_set_pending_result k (is_ok r) (mac_data_service self))
       (\<lambda>d. Return (self\<lparr>mac_data_service := d\<rparr>))"
| "MacData_process_radio_response bf sleep (RadioResponse_SetPendingExtended k r) self =
     bind_outcome (DataService_process_set_pending_result k (is_ok r) (mac_data_service self))
       (\<lambda>d. Return (self\<lparr>mac_data_service := d\<rparr>))"
| "MacData_process_radio_response bf sleep (RadioResponse_SetParam k _ r) self =
     Return (self\<lparr>management :=
       ManagementService_process_set_param_result k (is_ok r) (management self)\<rparr>)"
| "MacData_process_radio_response bf sleep (RadioResponse_OnPacket packet) self =
     MacData_process_radio_packet bf packet self"
| "MacData_process_radio_response bf sleep (RadioResponse_SendPacket k r) self =
     Return (MacData_process_radio_send_result sleep k r self)"
| "MacData_process_radio_response bf sleep _ self = Return self"

text \<open>
  What a turn takes from its environment: the answers of the timers, new sleep futures, the
  identifier for a key made in the poll and for one made while processing, the random
  numbers of a reset and the waker.
\<close>

record mac_env =
  env_timer_ready :: timer_ready
  env_sleep :: sleep_fn
  env_fresh :: process_unique_id
  env_fresh' :: process_unique_id
  env_random_bsn :: u8
  env_random_dsn :: u8
  env_cx :: waker

fun MacData_process_input :: "'bm handle_map_ops \<Rightarrow> bf16 \<Rightarrow> mac_env \<Rightarrow> mac_input \<Rightarrow> 'bm mac_data \<Rightarrow>
    'bm mac_data outcome" where
  "MacData_process_input bm bf env (MacInput_Management x) self =
     MacData_process_management bf (env_fresh' env) x self"
| "MacData_process_input bm bf env (MacInput_Data x) self = MacData_process_data bf x self"
| "MacData_process_input bm bf env (MacInput_MlmeRequest x) self =
     MacData_process_mlme_request bm (env_random_bsn env) (env_random_dsn env) x self"
| "MacData_process_input bm bf env (MacInput_MlmeResponse x) self =
     Return (MacData_process_mlme_response (env_sleep env) (env_fresh' env) x self)"
| "MacData_process_input bm bf env (MacInput_Radio x) self =
     MacData_process_radio_response bf (env_sleep env) x self"
| "MacData_process_input bm bf env (MacInput_McpsRequest x) self =
     MacData_process_mcps_request bm (env_sleep env) (env_fresh' env) x self"
| "MacData_process_input bm bf env (MacInput_McpsResponse x) self =
     Return (MacData_process_mcps_response x self)"

text \<open>One poll of the task: when the poller is ready, its input is processed.\<close>

definition MacData_turn :: "'bm handle_map_ops \<Rightarrow> bf16 \<Rightarrow> mac_env \<Rightarrow> 'bm mac_data \<Rightarrow>
    'bm mac_data outcome" where
  "MacData_turn bm bf env self =
     bind_outcome (MacData_poll_next_input bm (env_timer_ready env) (env_fresh env) (env_cx env) self)
       (\<lambda>(r, self). case r of
          Pending \<Rightarrow> Return self
        | Ready input \<Rightarrow> MacData_process_input bm bf env input self)"

text \<open>
  \<^verbatim>\<open>process\<close>: turns of the loop with arrivals in between.
\<close>

datatype mac_event =
    Mac_Turn mac_env
  | Mac_Radio_Arrives radio_response
  | Mac_Mlme_Arrives mlme_input
  | Mac_Mcps_Arrives mcps_input

definition Stream_arrive :: "'a \<Rightarrow> 'a channel_stream \<Rightarrow> 'a channel_stream" where
  "Stream_arrive x stream = stream\<lparr>arrived := arrived stream @ [x]\<rparr>"

fun MacData_process :: "'bm handle_map_ops \<Rightarrow> bf16 \<Rightarrow> mac_event list \<Rightarrow> 'bm mac_data \<Rightarrow>
    'bm mac_data outcome" where
  "MacData_process bm bf [] self = Return self"
| "MacData_process bm bf (Mac_Turn env # events) self =
     bind_outcome (MacData_turn bm bf env self) (MacData_process bm bf events)"
| "MacData_process bm bf (Mac_Radio_Arrives x # events) self =
     MacData_process bm bf events (self\<lparr>radio_responses := Stream_arrive x (radio_responses self)\<rparr>)"
| "MacData_process bm bf (Mac_Mlme_Arrives x # events) self =
     MacData_process bm bf events (self\<lparr>mlme_in := Stream_arrive x (mlme_in self)\<rparr>)"
| "MacData_process bm bf (Mac_Mcps_Arrives x # events) self =
     MacData_process bm bf events (self\<lparr>mcps_in := Stream_arrive x (mcps_in self)\<rparr>)"

section \<open>What the queues hold\<close>

definition contents :: "(full_address option, device_queue) hash_map \<Rightarrow> frame_type set" where
  "contents qs = (\<lambda>e. rq_content (qe_data e)) ` (\<Union>(d, q) \<in> set qs. set (entries q))"

lemma contents_simps [simp]:
  "contents [] = {}"
  "contents ((d, q) # qs) = (\<lambda>e. rq_content (qe_data e)) ` set (entries q) \<union> contents qs"
  "contents (qs @ qs') = contents qs \<union> contents qs'"
  by (auto simp: contents_def)

lemma contents_mono:
  "set qs' \<subseteq> set qs \<Longrightarrow> contents qs' \<subseteq> contents qs"
  unfolding contents_def by (intro image_mono UN_mono) auto

lemma poll_contents:
  assumes "DeviceQueue_poll_next_action timer_ready fresh cx pib q = (r, pib', q')"
  shows "qe_data ` set (entries q') \<subseteq> qe_data ` set (entries q)"
    and "r = Ready (DeviceQueueAction_SendFrame k f) \<Longrightarrow>
      frame_type f \<in> (\<lambda>e. rq_content (qe_data e)) ` set (entries q)"
proof -
  have settles: "qe_data ` set (entries q1) = qe_data ` set (entries q)" if "settles q q1" for q1
    using that by (auto simp: settles_def)
  have nth: "set (remove_nth i es) \<subseteq> set es" for i and es :: "device_queue_entry list"
    by (auto simp: remove_nth_def dest: in_set_takeD in_set_dropD)
  have "qe_data ` set (entries q') \<subseteq> qe_data ` set (entries q) \<and>
      (r = Ready (DeviceQueueAction_SendFrame k f) \<longrightarrow>
        frame_type f \<in> (\<lambda>e. rq_content (qe_data e)) ` set (entries q))"
    using assms
  proof (cases rule: poll_cases [of timer_ready fresh cx pib q])
    case (expired q1 i)
    have "qe_data ` set (remove_nth i (entries q1)) \<subseteq> qe_data ` set (entries q)"
      using settles [OF expired(1)] nth by blast
    with expired(3) assms show ?thesis by (auto split: if_splits)
  next
    case (wait q1)
    with settles [OF wait(1)] assms show ?thesis by auto
  next
    case (send e es d m ack f' pib'')
    then have "frame_type f' = rq_content (qe_data e)"
      by (auto simp: DeviceQueue_create_frame_def Let_def case_prod_unfold)
    with send assms show ?thesis by auto
  qed (use assms in auto)
  then show "qe_data ` set (entries q') \<subseteq> qe_data ` set (entries q)"
    and "r = Ready (DeviceQueueAction_SendFrame k f) \<Longrightarrow>
      frame_type f \<in> (\<lambda>e. rq_content (qe_data e)) ` set (entries q)"
    by simp_all
qed

lemma poll_content_set:
  "DeviceQueue_poll_next_action timer_ready fresh cx pib q = (r, pib', q') \<Longrightarrow>
    (\<lambda>e. rq_content (qe_data e)) ` set (entries q') \<subseteq> (\<lambda>e. rq_content (qe_data e)) ` set (entries q)"
  using image_mono [OF poll_contents(1), of timer_ready fresh cx pib q r pib' q' rq_content]
  by (simp add: image_image)

lemma poll_queues_contents:
  "DataService_poll_queues timer_ready fresh cx pib qs = (r, pib', qs') \<Longrightarrow>
    contents qs' \<subseteq> contents qs \<and>
    (\<forall>d k f. r = Some (d, DeviceQueueAction_SendFrame k f) \<longrightarrow> frame_type f \<in> contents qs)"
proof (induction qs arbitrary: pib r qs')
  case (Cons c qs)
  obtain d q where c: "c = (d, q)" by (cases c)
  obtain r1 pib1 q1 where poll: "DeviceQueue_poll_next_action timer_ready fresh cx pib q = (r1, pib1, q1)"
    by (metis prod_cases3)
  show ?case
  proof (cases r1)
    case (Ready x)
    then show ?thesis
      using Cons.prems c poll poll_content_set [OF poll] poll_contents(2) [OF poll] by auto
  next
    case Pending
    then obtain qs1 where "DataService_poll_queues timer_ready fresh cx pib1 qs = (r, pib', qs1)"
      "qs' = (d, q1) # qs1"
      using Cons.prems c poll by (auto split: prod.splits)
    with Cons.IH [OF this(1)] poll_content_set [OF poll] c show ?thesis by auto
  qed
qed simp

lemma contents_delete: "contents (AList.delete d qs) \<subseteq> contents qs"
  by (rule contents_mono) (auto simp: AList.delete_eq)

lemma poll_action_contents:
  "DataService_poll_action bm timer_ready fresh cx pib s = Return (a, pib', s') \<Longrightarrow>
    contents (queues s') \<subseteq> contents (queues s) \<and>
    (\<forall>k f. a = Ready (DataServiceAction_SendFrame k f) \<longrightarrow> frame_type f \<in> contents (queues s)) \<and>
    (\<forall>c. a \<noteq> Ready (DataServiceAction_Confirm (McpsConfirm_Purge c)))"
proof (induction "queues_work (queues s)" arbitrary: s pib rule: less_induct)
  case less
  obtain r t where t: "CombinedPendingTable_poll_action fresh cx (ds_pending_table s) = (r, t)"
    by (cases "CombinedPendingTable_poll_action fresh cx (ds_pending_table s)")
  obtain x pib1 qs where pq: "DataService_poll_queues timer_ready fresh cx pib (queues s) = (x, pib1, qs)"
    by (cases "DataService_poll_queues timer_ready fresh cx pib (queues s)")
  note sub = poll_queues_contents [OF pq]
  note step = less.prems [unfolded DataService_poll_action.simps [of bm timer_ready fresh cx pib s]]
  have retry: ?case
    if "DataService_poll_action bm timer_ready fresh cx pib1 s1 = Return (a, pib', s')"
      "queues_work (queues s1) < queues_work (queues s)" "contents (queues s1) \<subseteq> contents (queues s)" for s1
    using less.hyps [OF that(2,1)] that(3) by blast
  show ?case
  proof (cases "r = Pending \<and> x \<noteq> None")
    case False
    have "DataServiceAction_from y \<noteq> DataServiceAction_SendFrame k f"
      "DataServiceAction_from y \<noteq> DataServiceAction_Confirm c" for y k f c
      by (cases y; simp)+
    with False step t pq sub show ?thesis by (cases r; cases x) auto
  next
    case True
    then obtain d y where r: "r = Pending" and x: "x = Some (d, y)" by auto
    note dec = retry_decreases [OF pq [unfolded x, symmetric]]
    note step' = step [unfolded t pq r x, simplified]
    show ?thesis
    proof (cases y)
      case DeviceQueueAction_Empty
      show ?thesis
        by (rule retry [of "s\<lparr>ds_pending_table := t, queues := AList.delete d qs\<rparr>"])
          (use step' DeviceQueueAction_Empty dec(1) sub contents_delete in auto)
    next
      case (DeviceQueueAction_SetPending b)
      then obtain t2 where t2: "DataService_poll_action bm timer_ready fresh cx pib1
          (s\<lparr>ds_pending_table := t2, queues := qs\<rparr>) = Return (a, pib', s')"
        using step' by (auto simp: bind_outcome_eq_Return_iff)
      show ?thesis
        by (rule retry [OF t2]) (use dec(2) [OF DeviceQueueAction_SetPending] sub in auto)
    next
      case (DeviceQueueAction_SendFrame k f)
      then show ?thesis using step' sub x by auto
    next
      case (DeviceQueueAction_ReportResult k res)
      obtain rm m where rm: "bm_remove_by_right bm k (msdu_handles s) = (rm, m)"
        by (cases "bm_remove_by_right bm k (msdu_handles s)")
      show ?thesis
      proof (cases rm)
        case None
        show ?thesis
          by (rule retry [of "s\<lparr>ds_pending_table := t, queues := qs, msdu_handles := m\<rparr>"])
            (use step' DeviceQueueAction_ReportResult rm None dec(3) sub in auto)
      next
        case (Some hk)
        then show ?thesis
          using step' DeviceQueueAction_ReportResult rm sub by (cases hk) auto
      qed
    qed
  qed
qed

text \<open>The other calls of the data service.\<close>

lemma contents_Cons: "contents (p # qs) = rq_content ` qe_data ` set (entries (snd p)) \<union> contents qs"
  by (cases p) (simp add: image_image)

lemma contents_hm_map_values:
  assumes "\<And>q. qe_data ` set (entries (f q)) = qe_data ` set (entries q)"
  shows "contents (hm_map_values f qs) = contents qs"
proof (induction qs)
  case (Cons p qs)
  have "hm_map_values f (p # qs) = (fst p, f (snd p)) # hm_map_values f qs"
    by (simp add: hm_map_values_def case_prod_unfold)
  then show ?case using Cons assms by (simp only: contents_Cons snd_conv)
qed (simp add: hm_map_values_def)

lemma contents_hm_modify:
  assumes "\<And>q. qe_data ` set (entries (f q)) \<subseteq> qe_data ` set (entries q) \<union> X"
  shows "contents (hm_modify d f qs) \<subseteq> contents qs \<union> rq_content ` X"
proof (induction qs)
  case (Cons p qs)
  let ?q = "if fst p = d then f (snd p) else snd p"
  have "hm_modify d f (p # qs) = (fst p, ?q) # hm_modify d f qs"
    by (simp add: hm_modify_def case_prod_unfold)
  moreover have "rq_content ` qe_data ` set (entries ?q) \<subseteq>
      rq_content ` qe_data ` set (entries (snd p)) \<union> rq_content ` X"
    using image_mono [OF assms [of "snd p"], of rq_content] by (auto simp: image_Un)
  ultimately have "contents (hm_modify d f (p # qs)) \<subseteq>
      (rq_content ` qe_data ` set (entries (snd p)) \<union> rq_content ` X) \<union> (contents qs \<union> rq_content ` X)"
    using Cons by (simp only: contents_Cons snd_conv Un_mono)
  then show ?case unfolding contents_Cons by blast
qed (simp add: hm_modify_def)

lemma process_keeps_requests:
  "qe_data ` set (entries (DeviceQueue_process_send_result sleep k ok q)) = qe_data ` set (entries q)"
  "qe_data ` set (entries (DeviceQueue_process_acknowledge s p q)) = qe_data ` set (entries q)"
  "qe_data ` set (entries (DeviceQueue_process_datarequest q)) = qe_data ` set (entries q)"
  by (auto simp: DeviceQueue_process_send_result_def DeviceQueue_process_acknowledge_def
      DeviceQueue_process_datarequest_def DeviceQueue_wake_def
      split: device_queue_state.splits option.splits list.splits)

lemma contents_process:
  "contents (queues (DataService_process_init_pending_table_result k ok s)) = contents (queues s)"
  "contents (queues (DataService_process_send_result sleep k ok s)) = contents (queues s)"
  "contents (queues (DataService_process_frame pib f s)) \<subseteq> contents (queues s)"
proof -
  show "contents (queues (DataService_process_init_pending_table_result k ok s)) = contents (queues s)"
    by (simp add: DataService_process_init_pending_table_result_def)
  show "contents (queues (DataService_process_send_result sleep k ok s)) = contents (queues s)"
    by (simp add: DataService_process_send_result_def contents_hm_map_values process_keeps_requests)
  have "contents (queues (DataService_process_frame_ack f p s)) = contents (queues s)" for p
    by (simp add: DataService_process_frame_ack_def contents_hm_map_values process_keeps_requests)
  moreover have "contents (queues (DataService_process_frame_data_request pib f s)) \<subseteq> contents (queues s)"
    using contents_hm_modify [of DeviceQueue_process_datarequest "{}" "source f" "queues s"]
    by (auto simp: DataService_process_frame_data_request_def process_keeps_requests)
  ultimately show "contents (queues (DataService_process_frame pib f s)) \<subseteq> contents (queues s)"
    by (simp add: DataService_process_frame_def split: frame_type.split command.split)
qed

lemma contents_set_pending_result:
  "DataService_process_set_pending_result k ok s = Return s' \<Longrightarrow> queues s' = queues s"
  by (auto simp: DataService_process_set_pending_result_def bind_outcome_eq_Return_iff)

lemma contents_insert:
  "contents (queues (DataService_insert sleep pib r s)) \<subseteq> insert (rq_content r) (contents (queues s))"
proof (cases "map_of (queues s) (rq_destination r)")
  case None
  then show ?thesis
    by (auto simp: DataService_insert_def Let_def update_fresh DeviceQueue_insert_def DeviceQueue_new_def
        DeviceQueue_contains_def DeviceQueue_wake_def)
next
  case (Some q)
  have "qe_data ` set (entries (snd (DeviceQueue_insert sleep pib r q))) \<subseteq> qe_data ` set (entries q) \<union> {r}" for q
    by (auto simp: DeviceQueue_insert_def DeviceQueue_wake_def)
  from contents_hm_modify [OF this, of "rq_destination r" "queues s"] Some show ?thesis
    by (simp add: DataService_insert_def)
qed

lemma contents_remove_from:
  "DataService_remove_from k b qs = (b', qs') \<Longrightarrow> contents qs' \<subseteq> contents qs"
proof (induction qs arbitrary: b b' qs')
  case (Cons p qs)
  obtain d q where p: "p = (d, q)" by (cases p)
  obtain b1 q1 where q1: "(if b then (True, q) else DeviceQueue_remove k q) = (b1, q1)" by fastforce
  have "set (entries q1) \<subseteq> set (entries q)"
  proof (cases b)
    case True
    then show ?thesis using q1 by simp
  next
    case False
    then have "DeviceQueue_remove k q = (b1, q1)" using q1 by simp
    then show ?thesis using DeviceQueue_remove_entries(1) by auto
  qed
  moreover obtain qs1 where "DataService_remove_from k b1 qs = (b', qs1)" "qs' = (d, q1) # qs1"
    using Cons.prems p q1 by (auto split: prod.splits)
  ultimately show ?case using Cons.IH [of b1 b' qs1] p by auto
qed simp

lemma contents_purge:
  "DataService_process_mcps_purge_request bm r s = (c, s') \<Longrightarrow> contents (queues s') \<subseteq> contents (queues s)"
  by (auto simp: DataService_process_mcps_purge_request_def DataService_remove_def
      dest!: contents_remove_from split: prod.splits option.splits)

section \<open>The invariant of the service\<close>

fun data_handles :: "mcps_input \<Rightarrow> msdu_handle list" where
  "data_handles (McpsInput_Request (Mcps_Data r)) = [dr_msdu_handle r]"
| "data_handles _ = []"

fun settled_handles :: "mcps_output \<Rightarrow> msdu_handle list" where
  "settled_handles (McpsOutput_Confirm (McpsConfirm_Data c)) = [dc_msdu_handle c]"
| "settled_handles (McpsOutput_Confirm c) = purged_handles c"
| "settled_handles _ = []"

datatype mlme_kind = Kind_Reset | Kind_Start | Kind_Beacon | Kind_Get pib_property | Kind_Set pib_property

fun request_kind :: "mlme_request \<Rightarrow> mlme_kind" where
  "request_kind (Mlme_Reset _) = Kind_Reset"
| "request_kind (Mlme_Start _) = Kind_Start"
| "request_kind (Mlme_Beacon _) = Kind_Beacon"
| "request_kind (Mlme_Get r) = Kind_Get (gr_attribute r)"
| "request_kind (Mlme_Set r) = Kind_Set (st_attribute r)"

fun confirm_kind :: "mlme_confirm \<Rightarrow> mlme_kind" where
  "confirm_kind (MlmeConfirm_Reset _) = Kind_Reset"
| "confirm_kind (MlmeConfirm_Start _) = Kind_Start"
| "confirm_kind (MlmeConfirm_Beacon _) = Kind_Beacon"
| "confirm_kind (MlmeConfirm_Get a _) = Kind_Get a"
| "confirm_kind (MlmeConfirm_Set a _) = Kind_Set a"

fun requested_kinds :: "mlme_input \<Rightarrow> mlme_kind list" where
  "requested_kinds (MlmeInput_Request r) = [request_kind r]"
| "requested_kinds (MlmeInput_Response _) = []"

fun confirmed_kinds :: "mlme_output \<Rightarrow> mlme_kind list" where
  "confirmed_kinds (MlmeOutput_Confirm c) = [confirm_kind c]"
| "confirmed_kinds (MlmeOutput_Indication _) = []"

fun packet_ok :: "bf16 \<Rightarrow> radio_response \<Rightarrow> bool" where
  "packet_ok bf (RadioResponse_OnPacket p) = is_ok (Frame_unpack bf (packet_data p))"
| "packet_ok bf _ = True"

text \<open>The frames the service sends: none is an association request, all can be packed.\<close>

abbreviation sendable :: "frame_type \<Rightarrow> bool" where
  "sendable t \<equiv> FrameType_packable t \<and> \<not> FrameType_is_association_request t"

fun request_ok :: "bf16 \<Rightarrow> radio_request \<Rightarrow> bool" where
  "request_ok bf (RadioRequest_SendPacket k data) = (\<exists>f. sendable (frame_type f) \<and> data = Frame_bytes bf f)"
| "request_ok bf _ = True"

abbreviation handles_todo :: "'bm mac_data \<Rightarrow> msdu_handle list" where
  "handles_todo mac \<equiv> concat (map data_handles (arrived (mcps_in mac)))"

abbreviation handles_done :: "'bm mac_data \<Rightarrow> msdu_handle list" where
  "handles_done mac \<equiv> concat (map settled_handles (sink_sent (mcps_out mac)))"

abbreviation kinds_todo :: "'bm mac_data \<Rightarrow> mlme_kind list" where
  "kinds_todo mac \<equiv> concat (map requested_kinds (arrived (mlme_in mac)))"

abbreviation kinds_done :: "'bm mac_data \<Rightarrow> mlme_kind list" where
  "kinds_done mac \<equiv> concat (map confirmed_kinds (sink_sent (mlme_out mac)))"

text \<open>The parts of the invariant: the channels, the data service, its handles and the MLME confirms.\<close>

definition channels_ok :: "bf16 \<Rightarrow> 'bm mac_data \<Rightarrow> bool" where
  "channels_ok bf mac \<longleftrightarrow> sink_open (radio_requests mac) \<and> sink_open (mlme_out mac) \<and>
     sink_open (mcps_out mac) \<and> \<not> ended (radio_responses mac) \<and> \<not> ended (mlme_in mac) \<and>
     \<not> ended (mcps_in mac) \<and> list_all (packet_ok bf) (arrived (radio_responses mac)) \<and>
     list_all (request_ok bf) (sink_sent (radio_requests mac))"

definition service_ok :: "('bm \<Rightarrow> (msdu_handle \<times> unique_key) set) \<Rightarrow> process_unique_id set \<Rightarrow>
    'bm data_service \<Rightarrow> bool" where
  "service_ok pairs used d \<longleftrightarrow> ds_inv pairs d \<and> set_mset (queued (queues d)) \<subseteq> UniqueKey_new ` used \<and>
     (\<forall>t \<in> contents (queues d). sendable t)"

definition beacons_ok :: "management_service \<Rightarrow> bool" where
  "beacons_ok m \<longleftrightarrow> (\<forall>f \<in> set (outgoing m). sendable (frame_type f))"

text \<open>\<open>now\<close> are the handles of the input being processed, \<open>now_kinds\<close> the kind of its request.\<close>

definition handles_ok :: "msdu_handle set \<Rightarrow> msdu_handle set \<Rightarrow> msdu_handle list \<Rightarrow>
    msdu_handle list \<Rightarrow> bool" where
  "handles_ok seen known todo settled \<longleftrightarrow>
     distinct (todo @ settled) \<and> known \<inter> set (todo @ settled) = {} \<and>
     known \<union> set (todo @ settled) \<subseteq> seen"

definition mac_ok :: "('bm \<Rightarrow> (msdu_handle \<times> unique_key) set) \<Rightarrow> bf16 \<Rightarrow> process_unique_id set \<Rightarrow>
    msdu_handle set \<Rightarrow> mlme_kind list \<Rightarrow> msdu_handle list \<Rightarrow> mlme_kind list \<Rightarrow> 'bm mac_data \<Rightarrow> bool" where
  "mac_ok pairs bf used seen kinds now now_kinds mac \<longleftrightarrow>
     channels_ok bf mac \<and> service_ok pairs used (mac_data_service mac) \<and> beacons_ok (management mac) \<and>
     handles_ok seen (fst ` pairs (msdu_handles (mac_data_service mac)))
       (now @ handles_todo mac) (handles_done mac) \<and>
     kinds = kinds_done mac @ now_kinds @ kinds_todo mac"

fun input_handles :: "mac_input \<Rightarrow> msdu_handle list" where
  "input_handles (MacInput_McpsRequest r) = data_handles (McpsInput_Request r)"
| "input_handles (MacInput_Data a) = confirmed_handles (Ready a)"
| "input_handles _ = []"

fun input_kinds :: "mac_input \<Rightarrow> mlme_kind list" where
  "input_kinds (MacInput_MlmeRequest r) = [request_kind r]"
| "input_kinds _ = []"

fun input_ok :: "bf16 \<Rightarrow> mac_input \<Rightarrow> bool" where
  "input_ok bf (MacInput_Management (ManagementServiceAction_SendFrame f)) = sendable (frame_type f)"
| "input_ok bf (MacInput_Data (DataServiceAction_SendFrame k f)) = sendable (frame_type f)"
| "input_ok bf (MacInput_Data (DataServiceAction_Confirm (McpsConfirm_Purge c))) = False"
| "input_ok bf (MacInput_Radio r) = packet_ok bf r"
| "input_ok bf _ = True"

lemma poll_management_ok:
  assumes "beacons_ok m" "ManagementService_poll_action fresh cx m = (r, m')"
  shows "beacons_ok m'" "r = Ready a \<Longrightarrow> input_ok bf (MacInput_Management a) \<and>
    input_handles (MacInput_Management a) = [] \<and> input_kinds (MacInput_Management a) = []"
  using assms by (cases rule: poll_action_cases [of m fresh cx]; auto simp: beacons_ok_def)+

lemma service_ok_used: "service_ok pairs used d \<Longrightarrow> used \<subseteq> used' \<Longrightarrow> service_ok pairs used' d"
  unfolding service_ok_def by blast

lemma mac_ok_used: "mac_ok pairs bf used seen kinds now nk mac \<Longrightarrow>
    mac_ok pairs bf (insert n used) seen kinds now nk mac"
  by (auto simp: mac_ok_def intro: service_ok_used)

lemma mac_ok_frame:
  "mac_ok pairs bf used seen kinds now nk mac \<Longrightarrow> service_ok pairs used d \<Longrightarrow>
    msdu_handles d = msdu_handles (mac_data_service mac) \<Longrightarrow> beacons_ok m \<Longrightarrow>
    mac_ok pairs bf used seen kinds now nk (mac\<lparr>mac_pib := pib, mac_data_service := d, management := m\<rparr>)"
  by (simp add: mac_ok_def channels_ok_def)

lemma Stream_poll_next_cases:
  assumes "\<not> ended s"
  obtains (next_item) x rest where "arrived s = x # rest" "Stream_poll_next s = (Ready (Some x), s\<lparr>arrived := rest\<rparr>)"
  | (none) "arrived s = []" "Stream_poll_next s = (Pending, s)"
  using assms by (cases "arrived s") (auto simp: Stream_poll_next_def)

lemma poll_channels_ok:
  assumes "mac_ok pairs bf used seen kinds [] [] mac"
  shows "\<exists>r mac'. MacData_poll_channels mac = Return (r, mac') \<and>
    (case r of Pending \<Rightarrow> mac_ok pairs bf used seen kinds [] [] mac'
     | Ready i \<Rightarrow> mac_ok pairs bf used seen kinds (input_handles i) (input_kinds i) mac' \<and> input_ok bf i)"
proof -
  have open_in: "\<not> ended (radio_responses mac)" "\<not> ended (mlme_in mac)" "\<not> ended (mcps_in mac)"
    using assms by (simp_all add: mac_ok_def channels_ok_def)
  note ok = assms [unfolded mac_ok_def channels_ok_def]
  show ?thesis
  proof (cases rule: Stream_poll_next_cases [OF open_in(1), case_names next_item none])
    case (next_item x rest)
    with ok show ?thesis by (simp add: MacData_poll_channels_def mac_ok_def channels_ok_def)
  next
    case radio_none: none
    show ?thesis
    proof (cases rule: Stream_poll_next_cases [OF open_in(2), case_names next_item none])
      case (next_item x rest)
      with radio_none ok show ?thesis
        by (cases x) (simp_all add: MacData_poll_channels_def mac_ok_def channels_ok_def)
    next
      case mlme_none: none
      show ?thesis
      proof (cases rule: Stream_poll_next_cases [OF open_in(3), case_names next_item none])
        case (next_item x rest)
        with radio_none mlme_none ok show ?thesis
          by (cases x) (simp_all add: MacData_poll_channels_def mac_ok_def channels_ok_def)
      next
        case none
        with radio_none mlme_none ok show ?thesis
          by (simp add: MacData_poll_channels_def mac_ok_def channels_ok_def)
      qed
    qed
  qed
qed

context handle_map
begin

lemma poll_data_ok:
  assumes "service_ok pairs used d"
    and "handles_ok seen (fst ` pairs (msdu_handles d)) todo settled"
  obtains a pib' d' where "DataService_poll_action bm timer_ready fresh cx pib d = Return (a, pib', d')"
    "service_ok pairs used d'"
    "handles_ok seen (fst ` pairs (msdu_handles d')) (confirmed_handles a @ todo) settled"
    "\<forall>x. a = Ready x \<longrightarrow> input_ok bf (MacInput_Data x)"
proof -
  have inv: "ds_inv pairs d" using assms(1) by (simp add: service_ok_def)
  obtain a pib' d' where r: "DataService_poll_action bm timer_ready fresh cx pib d = Return (a, pib', d')"
    and p: "polled d a d'"
    using poll_action_polled [OF inv] by blast
  have sub: "pairs (msdu_handles d') \<subseteq> pairs (msdu_handles d)"
    and diff: "fst ` (pairs (msdu_handles d) - pairs (msdu_handles d')) = set (confirmed_handles a)"
    and "ds_inv pairs d'" "queued (queues d') \<subseteq># queued (queues d)"
    using p by (simp_all add: polled_def)
  then have "service_ok pairs used d'"
    using assms(1) poll_action_contents [OF r] set_mset_mono unfolding service_ok_def by blast
  moreover have "handles_ok seen (fst ` pairs (msdu_handles d')) (confirmed_handles a @ todo) settled"
  proof -
    have "fst ` pairs (msdu_handles d') = fst ` pairs (msdu_handles d) - set (confirmed_handles a)"
      unfolding diff [symmetric] by (rule fst_image_diff [OF sub pairs_left_unique])
    moreover have "set (confirmed_handles a) \<subseteq> fst ` pairs (msdu_handles d)"
      unfolding diff [symmetric] by blast
    moreover have "distinct (confirmed_handles a)" by (cases a rule: confirmed_handles.cases) simp_all
    ultimately show ?thesis using assms(2) by (auto simp: handles_ok_def)
  qed
  moreover have "input_ok bf (MacInput_Data x)" if "a = Ready x" for x
    using that poll_action_contents [OF r] assms(1)
    by (cases "(bf, MacInput_Data x)" rule: input_ok.cases) (auto simp: service_ok_def)
  ultimately show thesis using r by (intro that) auto
qed

lemma poll_next_input_ok:
  assumes "mac_ok pairs bf used seen kinds [] [] mac"
  shows "\<exists>r mac'. MacData_poll_next_input bm timer_ready fresh cx mac = Return (r, mac') \<and>
    (case r of Pending \<Rightarrow> mac_ok pairs bf used seen kinds [] [] mac'
     | Ready i \<Rightarrow> mac_ok pairs bf used seen kinds (input_handles i) (input_kinds i) mac' \<and> input_ok bf i)"
proof -
  obtain r m where m: "ManagementService_poll_action fresh cx (management mac) = (r, m)"
    by (cases "ManagementService_poll_action fresh cx (management mac)")
  have "beacons_ok (management mac)" using assms by (simp add: mac_ok_def)
  note mg = poll_management_ok [OF this m]
  show ?thesis
  proof (cases r)
    case (Ready x)
    then have "mac_ok pairs bf used seen kinds (input_handles (MacInput_Management x))
        (input_kinds (MacInput_Management x)) (mac\<lparr>management := m\<rparr>)"
      using assms mg by (simp add: mac_ok_def channels_ok_def)
    with Ready mg(2) m show ?thesis by (simp add: MacData_poll_next_input_def)
  next
    case Pending
    have sv: "service_ok pairs used (mac_data_service mac)"
      "handles_ok seen (fst ` pairs (msdu_handles (mac_data_service mac))) (handles_todo mac) (handles_done mac)"
      using assms by (simp_all add: mac_ok_def)
    obtain a pib' d where d: "DataService_poll_action bm timer_ready fresh cx (mac_pib mac) (mac_data_service mac) =
        Return (a, pib', d)" "service_ok pairs used d"
        "handles_ok seen (fst ` pairs (msdu_handles d)) (confirmed_handles a @ handles_todo mac) (handles_done mac)"
        "\<forall>x. a = Ready x \<longrightarrow> input_ok bf (MacInput_Data x)"
      by (rule poll_data_ok [OF sv, of timer_ready fresh cx "mac_pib mac" bf])
    let ?mac = "mac\<lparr>management := m, mac_pib := pib', mac_data_service := d\<rparr>"
    show ?thesis
    proof (cases a)
      case (Ready x)
      then have "mac_ok pairs bf used seen kinds (input_handles (MacInput_Data x))
          (input_kinds (MacInput_Data x)) ?mac"
        using assms d(2,3) mg(1) by (simp add: mac_ok_def channels_ok_def)
      with Ready d(1,4) Pending m show ?thesis by (simp add: MacData_poll_next_input_def)
    next
      case idle: Pending
      have ok: "mac_ok pairs bf used seen kinds [] [] ?mac"
        using assms d(2,3) mg(1) idle by (simp add: mac_ok_def channels_ok_def)
      have poll: "MacData_poll_next_input bm timer_ready fresh cx mac =
          MacData_poll_channels ?mac"
        using m Pending d(1) idle by (simp add: MacData_poll_next_input_def)
      show ?thesis unfolding poll by (rule poll_channels_ok [OF ok])
    qed
  qed
qed

end

section \<open>Processing an input\<close>

lemma Sink_send_open: "sink_open s \<Longrightarrow> Sink_send x s = (Ok (), s\<lparr>sink_sent := sink_sent s @ [x]\<rparr>)"
  by (simp add: Sink_send_def)

lemma send_radio_ok:
  assumes "mac_ok pairs bf used seen kinds [] [] mac" "request_ok bf x"
  shows "\<exists>mac'. MacData_send_radio x mac = Return mac' \<and> mac_ok pairs bf used seen kinds [] [] mac'"
  using assms by (simp add: MacData_send_radio_def mac_ok_def channels_ok_def Sink_send_open)

lemma send_mlme_ok:
  assumes "mac_ok pairs bf used seen kinds [] (confirmed_kinds x) mac"
  shows "\<exists>mac'. MacData_send_mlme x mac = Return mac' \<and> mac_ok pairs bf used seen kinds [] [] mac' \<and>
    mac_data_service mac' = mac_data_service mac \<and> mac_pib mac' = mac_pib mac \<and> management mac' = management mac"
  using assms by (simp add: MacData_send_mlme_def mac_ok_def channels_ok_def Sink_send_open)

lemma handles_ok_settle:
  "handles_ok seen known (h @ todo) settled \<Longrightarrow> handles_ok seen known todo (settled @ h)"
  by (auto simp: handles_ok_def)

lemma send_mcps_ok:
  assumes "mac_ok pairs bf used seen kinds (settled_handles x) [] mac"
  shows "\<exists>mac'. MacData_send_mcps x mac = Return mac' \<and> mac_ok pairs bf used seen kinds [] [] mac'"
  using assms handles_ok_settle [of seen "fst ` pairs (msdu_handles (mac_data_service mac))" "settled_handles x"
      "handles_todo mac" "handles_done mac"]
  by (simp add: MacData_send_mcps_def mac_ok_def channels_ok_def Sink_send_open)

lemma send_frame_ok:
  assumes "mac_ok pairs bf used seen kinds [] [] mac" "sendable (frame_type f)"
  shows "\<exists>mac'. MacData_send_frame bf k f mac = Return mac' \<and> mac_ok pairs bf used seen kinds [] [] mac'"
proof -
  obtain t where t: "Frame_pack bf VecPackTarget_append f VecPackTarget_new = Ok t"
    "VecPackTarget_into t = Frame_bytes bf f"
    using assms(2) by (simp add: vec.Frame_pack_emit VecPackTarget_new_def)
  have "request_ok bf (RadioRequest_SendPacket k (Frame_bytes bf f))" using assms(2) by auto
  with t show ?thesis using send_radio_ok [OF assms(1)] by (simp add: MacData_send_frame_def)
qed

lemma process_management_ok:
  assumes "mac_ok pairs bf used seen kinds [] [] mac" "input_ok bf (MacInput_Management a)"
  shows "\<exists>mac'. MacData_process_management bf n a mac = Return mac' \<and> mac_ok pairs bf used seen kinds [] [] mac'"
  using assms(2) by (cases a) (simp_all add: send_radio_ok [OF assms(1)] send_frame_ok [OF assms(1)])

lemma process_data_ok:
  assumes "mac_ok pairs bf used seen kinds (confirmed_handles (Ready a)) [] mac" "input_ok bf (MacInput_Data a)"
  shows "\<exists>mac'. MacData_process_data bf a mac = Return mac' \<and> mac_ok pairs bf used seen kinds [] [] mac'"
proof (cases a)
  case (DataServiceAction_Confirm c)
  with assms(2) obtain x where "c = McpsConfirm_Data x" by (cases c) auto
  with DataServiceAction_Confirm assms(1) show ?thesis
    using send_mcps_ok [of pairs bf used seen kinds "McpsOutput_Confirm c" mac] by simp
qed (use assms in \<open>simp_all add: send_radio_ok send_frame_ok\<close>)

lemma beacon_request_beacons:
  "ManagementService_process_mlme_beacon_request r pib m = (c, pib', m') \<Longrightarrow> beacons_ok m \<Longrightarrow> beacons_ok m'"
  by (auto simp: ManagementService_process_mlme_beacon_request_def Let_def beacons_ok_def
      Beacon_in_range_def case_prod_unfold split: if_splits)

lemma process_frame_beacons:
  "ManagementService_process_frame f pib m = (i, pib', m') \<Longrightarrow> beacons_ok m \<Longrightarrow> beacons_ok m'"
  by (auto simp: ManagementService_process_frame_def ManagementService_process_frame_beacon_request_def
      Let_def dest!: beacon_request_beacons split: frame_type.splits command.splits if_splits prod.splits)

lemma outgoing_set_param_result [simp]:
  "outgoing (ManagementService_process_set_param_result k ok m) = outgoing m"
  by (simp add: ManagementService_process_set_param_result_def Let_def split: prod.split)

lemma beacons_ok_new [simp]: "beacons_ok (ManagementService_new pib)"
  by (simp add: beacons_ok_def ManagementService_new_def)

lemma beacons_ok_updates [simp]:
  "beacons_ok (ManagementService_update_radio_parameters pib m) = beacons_ok m"
  "beacons_ok (ManagementService_process_set_param_result k ok m) = beacons_ok m"
  by (simp_all add: beacons_ok_def)

lemma request_confirm_kind:
  "ManagementService_process_mlme_request bm rb rd r pib d m = (c, pib', d', m') \<Longrightarrow>
    beacons_ok m \<Longrightarrow>
    (\<exists>confirm. c = Some confirm \<and> confirm_kind confirm = request_kind r) \<and>
    (d' = d \<or> d' = DataService_new bm) \<and> beacons_ok m'"
  by (cases r)
    (auto simp: ManagementService_process_mlme_reset_request_def
      ManagementService_process_mlme_start_request_def ManagementService_process_mlme_set_request_def
      Let_def dest: beacon_request_beacons split: prod.splits if_splits)

lemma service_ok_insert:
  assumes "service_ok pairs used d" "rq_key r = UniqueKey_new n" "n \<notin> used" "sendable (rq_content r)"
  shows "service_ok pairs (insert n used) (DataService_insert sleep pib r d)"
    "msdu_handles (DataService_insert sleep pib r d) = msdu_handles d"
proof -
  have inv: "ds_inv pairs d" and keys: "set_mset (queued (queues d)) \<subseteq> UniqueKey_new ` used"
    and pack: "\<forall>t \<in> contents (queues d). sendable t"
    using assms(1) by (simp_all add: service_ok_def)
  have "rq_key r \<notin># queued (queues d)"
    using keys assms(2,3) by (auto simp: UniqueKey_new_def)
  note ins = ds_inv_insert [OF inv this, of sleep pib]
  show "msdu_handles (DataService_insert sleep pib r d) = msdu_handles d" by (rule ins(3))
  have "set_mset (queued (queues (DataService_insert sleep pib r d))) \<subseteq> UniqueKey_new ` insert n used"
    using keys assms(2) by (auto simp: ins(2))
  moreover have "\<forall>t \<in> contents (queues (DataService_insert sleep pib r d)). sendable t"
    using contents_insert [of sleep pib r d] pack assms(4) by blast
  ultimately show "service_ok pairs (insert n used) (DataService_insert sleep pib r d)"
    using ins(1) by (simp add: service_ok_def)
qed

lemma service_ok_process:
  assumes "service_ok pairs used d"
  shows "service_ok pairs used (DataService_process_init_pending_table_result k ok d)"
    "service_ok pairs used (DataService_process_send_result sleep k ok d)"
    "service_ok pairs used (DataService_process_frame pib f d)"
proof -
  have inv: "ds_inv pairs d" using assms by (simp add: service_ok_def)
  have "queued (queues (DataService_process_frame pib f d)) = queued (queues d)"
    by (cases "frame_type f")
      (auto simp: DataService_process_frame_def DataService_process_frame_ack_def queued_hm_map_values
        DataService_process_frame_data_request_def queued_hm_modify_same split: command.splits)
  then show "service_ok pairs used (DataService_process_frame pib f d)"
    using assms ds_inv_process(3) [OF inv] contents_process(3) [of pib f d]
    by (auto simp: service_ok_def)
  show "service_ok pairs used (DataService_process_init_pending_table_result k ok d)"
    using assms ds_inv_process(1) [OF inv]
    by (simp add: service_ok_def contents_process) (simp add: DataService_process_init_pending_table_result_def)
  show "service_ok pairs used (DataService_process_send_result sleep k ok d)"
    using assms ds_inv_process(2) [OF inv]
    by (simp add: service_ok_def contents_process)
      (simp add: DataService_process_send_result_def queued_hm_map_values)
qed

lemma service_ok_set_pending_result:
  assumes "service_ok pairs used d"
  obtains d' where "DataService_process_set_pending_result k ok d = Return d'" "service_ok pairs used d'"
    "msdu_handles d' = msdu_handles d"
proof -
  have "ds_inv pairs d" using assms by (simp add: service_ok_def)
  then obtain d' where d': "DataService_process_set_pending_result k ok d = Return d'" "ds_inv pairs d'"
    "msdu_handles d' = msdu_handles d"
    by (rule ds_inv_set_pending_result)
  moreover have "service_ok pairs used d'"
    using assms d'(2) contents_set_pending_result [OF d'(1)] by (simp add: service_ok_def)
  ultimately show thesis by (intro that)
qed

lemma mac_ok_service:
  "mac_ok pairs bf used seen kinds now nk mac \<Longrightarrow> service_ok pairs used' d \<Longrightarrow>
    msdu_handles d = msdu_handles (mac_data_service mac) \<Longrightarrow>
    mac_ok pairs bf used' seen kinds now nk (mac\<lparr>mac_data_service := d\<rparr>)"
  by (simp add: mac_ok_def channels_ok_def)

lemma process_radio_packet_ok:
  assumes "mac_ok pairs bf used seen kinds [] [] mac" "is_ok (Frame_unpack bf (packet_data p))"
  shows "\<exists>mac'. MacData_process_radio_packet bf p mac = Return mac' \<and> mac_ok pairs bf used seen kinds [] [] mac'"
proof -
  obtain f rest where f: "Frame_unpack bf (packet_data p) = Ok (f, rest)"
    using assms(2) by (cases "Frame_unpack bf (packet_data p)") auto
  obtain i pib m where m: "ManagementService_process_frame f (mac_pib mac) (management mac) = (i, pib, m)"
    by (metis prod_cases3)
  let ?mac = "mac\<lparr>mac_pib := pib, management := m\<rparr>"
  have "beacons_ok m" using assms(1) process_frame_beacons [OF m] by (simp add: mac_ok_def)
  then have ok: "mac_ok pairs bf used seen kinds [] [] ?mac" using assms(1) by (simp add: mac_ok_def channels_ok_def)
  obtain mac1 where mac1: "(case i of Some x \<Rightarrow> MacData_send_mlme (MlmeOutput_Indication x) ?mac | None \<Rightarrow> Return ?mac) =
      Return mac1" "mac_ok pairs bf used seen kinds [] [] mac1"
    using ok send_mlme_ok [of pairs bf used seen kinds "MlmeOutput_Indication _" ?mac] by (cases i) force+
  have "mac_ok pairs bf used seen kinds [] [] (mac1\<lparr>mac_data_service :=
      DataService_process_frame (mac_pib mac1) f (mac_data_service mac1)\<rparr>)"
    using mac1(2) by (intro mac_ok_service [OF mac1(2)] service_ok_process) (simp_all add: mac_ok_def)
  then show ?thesis using f m mac1(1) by (simp add: MacData_process_radio_packet_def)
qed

lemma process_radio_response_ok:
  assumes "mac_ok pairs bf used seen kinds [] [] mac" "packet_ok bf r"
  shows "\<exists>mac'. MacData_process_radio_response bf sleep r mac = Return mac' \<and> mac_ok pairs bf used seen kinds [] [] mac'"
proof -
  have sv: "service_ok pairs used (mac_data_service mac)" using assms(1) by (simp add: mac_ok_def)
  have pend: "\<exists>mac'. bind_outcome (DataService_process_set_pending_result k ok (mac_data_service mac))
      (\<lambda>d. Return (mac\<lparr>mac_data_service := d\<rparr>)) = Return mac' \<and> mac_ok pairs bf used seen kinds [] [] mac'" for k ok
    by (rule service_ok_set_pending_result [OF sv, of k ok]) (simp add: mac_ok_service [OF assms(1)])
  show ?thesis
  proof (cases r)
    case (RadioResponse_SetParam k p res)
    then show ?thesis using assms(1) by (simp add: mac_ok_def channels_ok_def)
  next
    case (RadioResponse_OnPacket p)
    then show ?thesis using process_radio_packet_ok [OF assms(1)] assms(2) by simp
  qed (use assms pend sv mac_ok_service [OF assms(1)] service_ok_process [OF sv]
      in \<open>simp_all add: MacData_process_radio_send_result_def\<close>)
qed

lemma process_mlme_response_ok:
  assumes "mac_ok pairs bf used seen kinds [] [] mac" "n \<notin> used"
  shows "mac_ok pairs bf (insert n used) seen kinds [] [] (MacData_process_mlme_response sleep n x mac)"
proof (cases x)
  case (MlmeResponse_Associate dev fast status)
  have "service_ok pairs used (mac_data_service mac)" using assms(1) by (simp add: mac_ok_def)
  from service_ok_insert [OF this _ assms(2)] MlmeResponse_Associate show ?thesis
    by (simp add: MacData_process_mlme_response_def ManagementService_process_mlme_associate_response_def
        Let_def mac_ok_service [OF assms(1)])
qed

context handle_map
begin

lemma service_ok_new: "service_ok pairs used (DataService_new bm)"
  using ds_inv_new by (simp add: service_ok_def DataService_new_def)

lemma process_mlme_request_ok:
  assumes "mac_ok pairs bf used seen kinds [] [request_kind r] mac"
  shows "\<exists>mac'. MacData_process_mlme_request bm rb rd r mac = Return mac' \<and> mac_ok pairs bf used seen kinds [] [] mac'"
proof -
  obtain c pib d m where r: "ManagementService_process_mlme_request bm rb rd r (mac_pib mac) (mac_data_service mac)
      (management mac) = (c, pib, d, m)"
    by (metis prod_cases4)
  have "beacons_ok (management mac)" using assms by (simp add: mac_ok_def)
  from request_confirm_kind [OF r this] obtain confirm where c: "c = Some confirm"
    "confirm_kind confirm = request_kind r" "d = mac_data_service mac \<or> d = DataService_new bm" "beacons_ok m"
    by blast
  let ?mac = "mac\<lparr>mac_pib := pib, mac_data_service := d, management := m\<rparr>"
  have "mac_ok pairs bf used seen kinds [] (confirmed_kinds (MlmeOutput_Confirm confirm)) ?mac"
    using c(3)
  proof
    assume "d = mac_data_service mac"
    then show ?thesis using assms c(2,4) by (simp add: mac_ok_def channels_ok_def)
  next
    assume d: "d = DataService_new bm"
    then have "pairs (msdu_handles d) = {}" by (simp add: DataService_new_def pairs_new)
    with d show ?thesis
      using assms c(2,4) service_ok_new by (auto simp: mac_ok_def channels_ok_def handles_ok_def)
  qed
  from send_mlme_ok [OF this] show ?thesis
    using r c(1) by (auto simp: MacData_process_mlme_request_def)
qed

lemma handles_ok_data_request:
  assumes "mac_ok pairs bf used seen kinds [dr_msdu_handle r] [] mac" "n \<notin> used"
    "DataService_process_mcps_data_request bm sleep n (mac_pib mac) r (mac_data_service mac) = (c, d)"
  shows "mac_ok pairs bf (insert n used) seen kinds [] [] (mac\<lparr>mac_data_service := d\<rparr>)" "c = None"
proof -
  let ?d = "mac_data_service mac"
  have sv: "service_ok pairs used ?d" and h: "dr_msdu_handle r \<notin> fst ` pairs (msdu_handles ?d)"
    using assms(1) by (auto simp: mac_ok_def handles_ok_def)
  then have inv: "ds_inv pairs ?d" and key: "UniqueKey_new n \<notin># queued (queues ?d)"
    using assms(2) by (auto simp: service_ok_def UniqueKey_new_def)
  note req = ds_inv_data_request [OF inv key h assms(3)]
  let ?r = "\<lparr>rq_key = UniqueKey_new n, rq_destination = dr_destination r,
     rq_source_mode = dr_source_addressing_mode r, rq_acknowledge_request = dr_ack_tx r,
     rq_indirect = dr_indirect_tx r, rq_content = FrameType_Data (Payload (dr_msdu r))\<rparr>"
  have "queues d = queues (DataService_insert sleep (mac_pib mac) ?r ?d)"
    using assms(3) by (auto simp: DataService_process_mcps_data_request_def Let_def)
  with service_ok_insert(1) [OF sv, of ?r n sleep "mac_pib mac"] assms(2) req(1)
  have "service_ok pairs (insert n used) d" by (simp add: service_ok_def)
  then show "mac_ok pairs bf (insert n used) seen kinds [] [] (mac\<lparr>mac_data_service := d\<rparr>)"
    using assms(1) req(3) by (auto simp: mac_ok_def channels_ok_def handles_ok_def)
  show "c = None" by (rule req(2))
qed

lemma handles_ok_purge:
  assumes "mac_ok pairs bf used seen kinds [] [] mac"
    "DataService_process_mcps_purge_request bm r (mac_data_service mac) = (c, d)"
  shows "mac_ok pairs bf used seen kinds (settled_handles (McpsOutput_Confirm c)) [] (mac\<lparr>mac_data_service := d\<rparr>)"
proof -
  let ?d = "mac_data_service mac"
  have inv: "ds_inv pairs ?d" using assms(1) by (simp add: mac_ok_def service_ok_def)
  have cont: "contents (queues d) \<subseteq> contents (queues ?d)" by (rule contents_purge [OF assms(2)])
  show ?thesis
    using inv assms(2)
  proof (cases rule: ds_inv_purge)
    case (known k)
    have "set_mset (queued (queues d)) \<subseteq> set_mset (queued (queues ?d))"
      unfolding known(5) by (auto dest: in_diffD)
    then have sv: "service_ok pairs used d"
      using assms(1) cont known(3) unfolding mac_ok_def service_ok_def by blast
    have "fst ` pairs (msdu_handles d) = fst ` pairs (msdu_handles ?d) - {pr_msdu_handle r}"
      using fst_image_diff [of "pairs (msdu_handles d)" "pairs (msdu_handles ?d)"] known(1,4)
        pairs_left_unique [of _ _ "msdu_handles ?d"] by (auto simp: double_diff)
    moreover have "pr_msdu_handle r \<in> fst ` pairs (msdu_handles ?d)" using known(1) by force
    ultimately have "handles_ok seen (fst ` pairs (msdu_handles d))
        (pr_msdu_handle r # handles_todo mac) (handles_done mac)"
      using assms(1) by (auto simp: mac_ok_def handles_ok_def)
    then show ?thesis using assms(1) sv known(2) by (simp add: mac_ok_def channels_ok_def)
  next
    case unknown
    have "service_ok pairs used d"
      using assms(1) unknown(3,5) by (simp add: mac_ok_def service_ok_def)
    then show ?thesis using assms(1) unknown(2,4) by (simp add: mac_ok_def channels_ok_def)
  qed
qed

lemma process_mcps_request_ok:
  assumes "mac_ok pairs bf used seen kinds (data_handles (McpsInput_Request r)) [] mac" "n \<notin> used"
  shows "\<exists>mac'. MacData_process_mcps_request bm sleep n r mac = Return mac' \<and>
    mac_ok pairs bf (insert n used) seen kinds [] [] mac'"
proof (cases r)
  case (Mcps_Data q)
  obtain c d where "DataService_process_mcps_data_request bm sleep n (mac_pib mac) q (mac_data_service mac) = (c, d)"
    by fastforce
  with handles_ok_data_request [OF _ assms(2) this] assms(1) Mcps_Data show ?thesis
    by (simp add: MacData_process_mcps_request_def)
next
  case (Mcps_Purge q)
  obtain c d where p: "DataService_process_mcps_purge_request bm q (mac_data_service mac) = (c, d)"
    by fastforce
  have "mac_ok pairs bf used seen kinds [] [] mac" using assms(1) Mcps_Purge by simp
  from send_mcps_ok [OF handles_ok_purge [OF this p]] obtain mac' where
    "MacData_send_mcps (McpsOutput_Confirm c) (mac\<lparr>mac_data_service := d\<rparr>) = Return mac'"
    "mac_ok pairs bf used seen kinds [] [] mac'" by blast
  then show ?thesis
    using p Mcps_Purge mac_ok_used by (auto simp: MacData_process_mcps_request_def)
qed

lemma process_input_ok:
  assumes "mac_ok pairs bf used seen kinds (input_handles i) (input_kinds i) mac" "input_ok bf i"
    "env_fresh' env \<notin> used"
  shows "\<exists>mac'. MacData_process_input bm bf env i mac = Return mac' \<and>
    mac_ok pairs bf (insert (env_fresh' env) used) seen kinds [] [] mac'"
proof (cases i)
  case (MacInput_Radio r)
  then show ?thesis using process_radio_response_ok [of pairs bf used seen kinds mac r] assms mac_ok_used by fastforce
next
  case (MacInput_MlmeRequest r)
  then show ?thesis using process_mlme_request_ok [of bf used seen kinds r mac] assms(1) mac_ok_used by fastforce
next
  case (MacInput_MlmeResponse r)
  then show ?thesis using process_mlme_response_ok [OF _ assms(3)] assms(1) by simp
next
  case (MacInput_McpsRequest r)
  then show ?thesis using process_mcps_request_ok [OF _ assms(3)] assms(1) by simp
next
  case (MacInput_McpsResponse r)
  then show ?thesis
    using assms(1) mac_ok_used
    by (simp add: MacData_process_mcps_response_def DataService_process_mcps_response_def)
next
  case (MacInput_Management a)
  then show ?thesis using process_management_ok [of pairs bf used seen kinds mac a] assms(1,2) mac_ok_used by fastforce
next
  case (MacInput_Data a)
  then show ?thesis using process_data_ok [of pairs bf used seen kinds a mac] assms(1,2) mac_ok_used by fastforce
qed

lemma turn_ok:
  assumes "mac_ok pairs bf used seen kinds [] [] mac" "env_fresh' env \<notin> used"
  shows "\<exists>mac'. MacData_turn bm bf env mac = Return mac' \<and>
    mac_ok pairs bf (insert (env_fresh' env) used) seen kinds [] [] mac'"
proof -
  obtain r mac1 where poll: "MacData_poll_next_input bm (env_timer_ready env) (env_fresh env) (env_cx env) mac = Return (r, mac1)"
    and ok: "case r of Pending \<Rightarrow> mac_ok pairs bf used seen kinds [] [] mac1
     | Ready i \<Rightarrow> mac_ok pairs bf used seen kinds (input_handles i) (input_kinds i) mac1 \<and> input_ok bf i"
    using poll_next_input_ok [OF assms(1)] by blast
  show ?thesis
  proof (cases r)
    case (Ready i)
    then show ?thesis using ok poll process_input_ok [OF _ _ assms(2)] by (simp add: MacData_turn_def)
  next
    case Pending
    then show ?thesis using ok poll mac_ok_used by (simp add: MacData_turn_def)
  qed
qed

end

section \<open>Runs\<close>

fun turn_ids :: "mac_event list \<Rightarrow> process_unique_id list" where
  "turn_ids [] = []"
| "turn_ids (Mac_Turn env # events) = env_fresh' env # turn_ids events"
| "turn_ids (_ # events) = turn_ids events"

fun event_handles :: "mac_event \<Rightarrow> msdu_handle list" where
  "event_handles (Mac_Mcps_Arrives x) = data_handles x"
| "event_handles _ = []"

fun event_kinds :: "mac_event \<Rightarrow> mlme_kind list" where
  "event_kinds (Mac_Mlme_Arrives x) = requested_kinds x"
| "event_kinds _ = []"

fun event_ok :: "bf16 \<Rightarrow> mac_event \<Rightarrow> bool" where
  "event_ok bf (Mac_Radio_Arrives r) = packet_ok bf r"
| "event_ok bf _ = True"

lemma mac_ok_mcps_arrives:
  assumes "mac_ok pairs bf used seen kinds [] [] mac" "set (data_handles x) \<inter> seen = {}"
  shows "mac_ok pairs bf used (seen \<union> set (data_handles x)) kinds [] []
    (mac\<lparr>mcps_in := Stream_arrive x (mcps_in mac)\<rparr>)"
proof -
  have "distinct (data_handles x)" by (cases x rule: data_handles.cases) simp_all
  with assms have "handles_ok (seen \<union> set (data_handles x)) (fst ` pairs (msdu_handles (mac_data_service mac)))
      (handles_todo mac @ data_handles x) (handles_done mac)"
    unfolding mac_ok_def handles_ok_def by auto
  with assms(1) show ?thesis by (simp add: mac_ok_def channels_ok_def Stream_arrive_def)
qed

lemma mac_ok_radio_arrives:
  "mac_ok pairs bf used seen kinds [] [] mac \<Longrightarrow> packet_ok bf x \<Longrightarrow>
    mac_ok pairs bf used seen kinds [] [] (mac\<lparr>radio_responses := Stream_arrive x (radio_responses mac)\<rparr>)"
  by (simp add: mac_ok_def channels_ok_def Stream_arrive_def)

lemma mac_ok_mlme_arrives:
  "mac_ok pairs bf used seen kinds [] [] mac \<Longrightarrow>
    mac_ok pairs bf used seen (kinds @ requested_kinds x) [] [] (mac\<lparr>mlme_in := Stream_arrive x (mlme_in mac)\<rparr>)"
  by (simp add: mac_ok_def channels_ok_def Stream_arrive_def)

context handle_map
begin

lemma process_ok:
  assumes "mac_ok pairs bf used seen kinds [] [] mac"
    "distinct (turn_ids events)" "set (turn_ids events) \<inter> used = {}"
    "distinct (concat (map event_handles events))" "set (concat (map event_handles events)) \<inter> seen = {}"
    "list_all (event_ok bf) events"
  shows "\<exists>mac' used'. MacData_process bm bf events mac = Return mac' \<and>
    mac_ok pairs bf used' (seen \<union> set (concat (map event_handles events)))
      (kinds @ concat (map event_kinds events)) [] [] mac'"
  using assms
proof (induction events arbitrary: used seen kinds mac)
  case Nil
  then show ?case by auto
next
  case (Cons e events)
  show ?case
  proof (cases e)
    case (Mac_Turn env)
    have "env_fresh' env \<notin> used" using Cons.prems(3) Mac_Turn by simp
    from turn_ok [OF Cons.prems(1) this] obtain mac1 where
      t: "MacData_turn bm bf env mac = Return mac1"
      "mac_ok pairs bf (insert (env_fresh' env) used) seen kinds [] [] mac1" by blast
    from Cons.IH [OF t(2)] t(1) Cons.prems(2-6) Mac_Turn show ?thesis by auto
  next
    case (Mac_Radio_Arrives x)
    from Cons.IH [OF mac_ok_radio_arrives [OF Cons.prems(1), of x]] Cons.prems(2-6) Mac_Radio_Arrives
    show ?thesis by auto
  next
    case (Mac_Mlme_Arrives x)
    from Cons.IH [OF mac_ok_mlme_arrives [OF Cons.prems(1), of x]] Cons.prems(2-6) Mac_Mlme_Arrives
    show ?thesis by auto
  next
    case (Mac_Mcps_Arrives x)
    have "set (data_handles x) \<inter> seen = {}" using Cons.prems(5) Mac_Mcps_Arrives by auto
    note ok = mac_ok_mcps_arrives [OF Cons.prems(1) this]
    have "set (concat (map event_handles events)) \<inter> (seen \<union> set (data_handles x)) = {}"
      using Cons.prems(4,5) Mac_Mcps_Arrives by auto
    from Cons.IH [OF ok _ _ _ this] Cons.prems(2,3,4,6) Mac_Mcps_Arrives
    show ?thesis by (auto simp: Un_assoc)
  qed
qed

end

text \<open>
  The service after a successful start with new channels, and a run of it: every turn makes
  its keys from identifiers of its own, no handle is used for two requests and the radio
  hands on only packets that are frames.
\<close>

definition mac_started :: "'bm handle_map_ops \<Rightarrow> bf16 \<Rightarrow> 'bm mac_data \<Rightarrow> bool" where
  "mac_started bm bf mac \<longleftrightarrow> (\<exists>fresh random_bsn random_dsn responses.
     MacData_new bm fresh random_bsn random_dsn \<lparr>sink_open = True, sink_sent = []\<rparr> responses
       \<lparr>arrived = [], ended = False\<rparr> \<lparr>sink_open = True, sink_sent = []\<rparr>
       \<lparr>arrived = [], ended = False\<rparr> \<lparr>sink_open = True, sink_sent = []\<rparr> = Some (Return mac) \<and>
     list_all (packet_ok bf) responses)"

definition well_behaved :: "bf16 \<Rightarrow> mac_event list \<Rightarrow> bool" where
  "well_behaved bf events \<longleftrightarrow> distinct (turn_ids events) \<and>
     distinct (concat (map event_handles events)) \<and> list_all (event_ok bf) events"

lemma SyncRadio_await_rest:
  "SyncRadio_await answer rs = Some (x, rest) \<Longrightarrow> set rest \<subseteq> set rs"
  by (induction rs) (auto split: option.splits)

lemma SyncRadio_rest:
  "SyncRadio_get_param_u64 n p radio = Some (res, radio') \<Longrightarrow> set (sr_responses radio') \<subseteq> set (sr_responses radio)"
  "SyncRadio_get_param_u16 n p radio = Some (res16, radio') \<Longrightarrow> set (sr_responses radio') \<subseteq> set (sr_responses radio)"
  "SyncRadio_set_param n p v radio = Some (Return (u, radio')) \<Longrightarrow>
    set (sr_responses radio') \<subseteq> set (sr_responses radio)"
  "SyncRadio_set_power n b radio = Some (Return (u, radio')) \<Longrightarrow>
    set (sr_responses radio') \<subseteq> set (sr_responses radio)"
  by (auto simp: SyncRadio_get_param_u64_def SyncRadio_get_param_u16_def SyncRadio_get_param_def
      SyncRadio_set_param_def SyncRadio_set_power_def Let_def dest!: SyncRadio_await_rest
      split: prod.splits sum.splits)

lemma SyncRadio_open:
  "sink_open (sr_requests radio) \<Longrightarrow> SyncRadio_get_param_u64 n p radio = Some (res, radio') \<Longrightarrow> sink_open (sr_requests radio')"
  "sink_open (sr_requests radio) \<Longrightarrow> SyncRadio_get_param_u16 n p radio = Some (res16, radio') \<Longrightarrow> sink_open (sr_requests radio')"
  "sink_open (sr_requests radio) \<Longrightarrow> SyncRadio_set_param n p v radio = Some (Return (u, radio')) \<Longrightarrow> sink_open (sr_requests radio')"
  "sink_open (sr_requests radio) \<Longrightarrow> SyncRadio_set_power n b radio = Some (Return (u, radio')) \<Longrightarrow> sink_open (sr_requests radio')"
  by (auto simp: SyncRadio_get_param_u64_def SyncRadio_get_param_u16_def SyncRadio_get_param_def
      SyncRadio_set_param_def SyncRadio_set_power_def Let_def Sink_send_def
      split: prod.splits sum.splits if_splits)

lemma SyncRadio_requests_ok:
  "list_all (request_ok bf) (sink_sent (sr_requests radio)) \<Longrightarrow>
    SyncRadio_get_param_u64 n p radio = Some (res, radio') \<Longrightarrow> list_all (request_ok bf) (sink_sent (sr_requests radio'))"
  "list_all (request_ok bf) (sink_sent (sr_requests radio)) \<Longrightarrow>
    SyncRadio_get_param_u16 n p radio = Some (res16, radio') \<Longrightarrow> list_all (request_ok bf) (sink_sent (sr_requests radio'))"
  "list_all (request_ok bf) (sink_sent (sr_requests radio)) \<Longrightarrow>
    SyncRadio_set_param n p v radio = Some (Return (u, radio')) \<Longrightarrow> list_all (request_ok bf) (sink_sent (sr_requests radio'))"
  "list_all (request_ok bf) (sink_sent (sr_requests radio)) \<Longrightarrow>
    SyncRadio_set_power n b radio = Some (Return (u, radio')) \<Longrightarrow> list_all (request_ok bf) (sink_sent (sr_requests radio'))"
  by (auto simp: SyncRadio_get_param_u64_def SyncRadio_get_param_u16_def SyncRadio_get_param_def
      SyncRadio_set_param_def SyncRadio_set_power_def Let_def Sink_send_def
      split: prod.splits sum.splits if_splits)

lemma MacData_new_cases:
  assumes "MacData_new bm fresh rb rd requests responses mi mo ci co = Some (Return mac)"
  obtains a pw ch u u' r1 r2 r3 r4 r5 where
    "SyncRadio_get_param_u64 (fresh 0) RawRadioParam_LongAddress
      \<lparr>sr_requests = requests, sr_responses = responses\<rparr> = Some (Ok a, r1)"
    "SyncRadio_get_param_u16 (fresh 1) RawRadioParam_TxPowerMax r1 = Some (Ok pw, r2)"
    "SyncRadio_get_param_u16 (fresh 2) RawRadioParam_Channel r2 = Some (Ok ch, r3)"
    "SyncRadio_set_param (fresh 3) RawRadioParam_RxMode (RadioParamValue_from_RadioRxMode
      \<lparr>address_filter = True, autoack = True, poll_mode = False\<rparr>) r3 = Some (Return (Ok u, r4))"
    "SyncRadio_set_power (fresh 4) True r4 = Some (Return (Ok u', r5))"
    "mac = \<lparr>mac_pib = PIB_new rb rd (ExtendedAddress a) ch pw,
      radio_requests = sr_requests r5,
      radio_responses = \<lparr>arrived = sr_responses r5, ended = False\<rparr>,
      mlme_out = mo, mlme_in = mi, mcps_out = co, mcps_in = ci,
      management = ManagementService_new (PIB_new rb rd (ExtendedAddress a) ch pw),
      mac_data_service = DataService_new bm\<rparr>"
  using assms unfolding MacData_new_def Let_def
  by (auto split: option.splits prod.splits sum.splits outcome.splits)

context handle_map
begin

lemma mac_started_ok:
  assumes "mac_started bm bf mac"
  shows "mac_ok pairs bf {} {} [] [] [] mac"
proof -
  obtain fresh rb rd responses where
    new: "MacData_new bm fresh rb rd \<lparr>sink_open = True, sink_sent = []\<rparr> responses
       \<lparr>arrived = [], ended = False\<rparr> \<lparr>sink_open = True, sink_sent = []\<rparr>
       \<lparr>arrived = [], ended = False\<rparr> \<lparr>sink_open = True, sink_sent = []\<rparr> = Some (Return mac)"
    and packets: "list_all (packet_ok bf) responses"
    using assms unfolding mac_started_def by blast
  obtain a pw ch u u' r1 r2 r3 r4 r5 where
    r: "SyncRadio_get_param_u64 (fresh 0) RawRadioParam_LongAddress
      \<lparr>sr_requests = \<lparr>sink_open = True, sink_sent = []\<rparr>, sr_responses = responses\<rparr> = Some (Ok a, r1)"
    "SyncRadio_get_param_u16 (fresh 1) RawRadioParam_TxPowerMax r1 = Some (Ok pw, r2)"
    "SyncRadio_get_param_u16 (fresh 2) RawRadioParam_Channel r2 = Some (Ok ch, r3)"
    "SyncRadio_set_param (fresh 3) RawRadioParam_RxMode (RadioParamValue_from_RadioRxMode
      \<lparr>address_filter = True, autoack = True, poll_mode = False\<rparr>) r3 = Some (Return (Ok u, r4))"
    "SyncRadio_set_power (fresh 4) True r4 = Some (Return (Ok u', r5))"
    and mac: "mac = \<lparr>mac_pib = PIB_new rb rd (ExtendedAddress a) ch pw,
      radio_requests = sr_requests r5,
      radio_responses = \<lparr>arrived = sr_responses r5, ended = False\<rparr>,
      mlme_out = \<lparr>sink_open = True, sink_sent = []\<rparr>, mlme_in = \<lparr>arrived = [], ended = False\<rparr>,
      mcps_out = \<lparr>sink_open = True, sink_sent = []\<rparr>, mcps_in = \<lparr>arrived = [], ended = False\<rparr>,
      management = ManagementService_new (PIB_new rb rd (ExtendedAddress a) ch pw),
      mac_data_service = DataService_new bm\<rparr>"
    by (rule MacData_new_cases [OF new])
  have "set (sr_responses r5) \<subseteq> set responses"
    using SyncRadio_rest(1) [OF r(1)] SyncRadio_rest(2) [OF r(2)] SyncRadio_rest(2) [OF r(3)]
      SyncRadio_rest(3) [OF r(4)] SyncRadio_rest(4) [OF r(5)] by simp
  then have "list_all (packet_ok bf) (sr_responses r5)" using packets by (auto simp: list_all_iff)
  moreover have "sink_open (sr_requests r5)"
    using SyncRadio_open(1) [OF _ r(1)] SyncRadio_open(2) [OF _ r(2)] SyncRadio_open(2) [OF _ r(3)]
      SyncRadio_open(3) [OF _ r(4)] SyncRadio_open(4) [OF _ r(5)] by simp
  moreover have "list_all (request_ok bf) (sink_sent (sr_requests r5))"
    using SyncRadio_requests_ok(1) [OF _ r(1)] SyncRadio_requests_ok(2) [OF _ r(2)]
      SyncRadio_requests_ok(2) [OF _ r(3)] SyncRadio_requests_ok(3) [OF _ r(4)]
      SyncRadio_requests_ok(4) [OF _ r(5)] by simp
  moreover have "pairs (msdu_handles (DataService_new bm)) = {}" by (simp add: DataService_new_def pairs_new)
  ultimately show ?thesis
    using service_ok_new by (simp add: mac mac_ok_def channels_ok_def handles_ok_def)
qed

end

section \<open>A successful start\<close>

lemma SyncRadio_await_skip:
  "\<forall>r \<in> set rs. answer r = None \<Longrightarrow> answer x = Some y \<Longrightarrow>
    SyncRadio_await answer (rs @ x # rest) = Some (y, rest)"
  by (induction rs) auto

lemma answers_by_key:
  "RadioResponse_key r \<noteq> Some k \<Longrightarrow> get_param_answer k r = None"
  "RadioResponse_key r \<noteq> Some k \<Longrightarrow> set_param_answer k r = None"
  "RadioResponse_key r \<noteq> Some k \<Longrightarrow> set_power_answer k r = None"
  by (cases r; simp)+

definition unrelated :: "(nat \<Rightarrow> process_unique_id) \<Rightarrow> radio_response list \<Rightarrow> bool" where
  "unrelated fresh rs \<longleftrightarrow> (\<forall>r \<in> set rs. \<forall>n < 5. RadioResponse_key r \<noteq> Some (UniqueKey_new (fresh n)))"

lemma unrelated_answers:
  assumes "unrelated fresh rs" "n < 5"
  shows "\<forall>r \<in> set rs. get_param_answer (UniqueKey_new (fresh n)) r = None"
    "\<forall>r \<in> set rs. set_param_answer (UniqueKey_new (fresh n)) r = None"
    "\<forall>r \<in> set rs. set_power_answer (UniqueKey_new (fresh n)) r = None"
  using assms by (auto simp: unrelated_def intro: answers_by_key)

definition start_requests :: "(nat \<Rightarrow> process_unique_id) \<Rightarrow> radio_request list" where
  "start_requests fresh =
     [RadioRequest_GetParam (UniqueKey_new (fresh 0)) RawRadioParam_LongAddress RadioParamType_U64,
      RadioRequest_GetParam (UniqueKey_new (fresh 1)) RawRadioParam_TxPowerMax RadioParamType_U16,
      RadioRequest_GetParam (UniqueKey_new (fresh 2)) RawRadioParam_Channel RadioParamType_U16,
      RadioRequest_SetParam (UniqueKey_new (fresh 3)) RawRadioParam_RxMode (RadioParamValue_U16 3),
      RadioRequest_SetPower (UniqueKey_new (fresh 4)) True]"

definition start_responses :: "(nat \<Rightarrow> process_unique_id) \<Rightarrow> u64 \<Rightarrow> u16 \<Rightarrow> u16 \<Rightarrow>
    (nat \<Rightarrow> radio_response list) \<Rightarrow> radio_response list" where
  "start_responses fresh addr power_max channel between =
     between 0 @ RadioResponse_GetParam (UniqueKey_new (fresh 0)) RawRadioParam_LongAddress
       (Ok (RadioParamValue_U64 addr)) #
     between 1 @ RadioResponse_GetParam (UniqueKey_new (fresh 1)) RawRadioParam_TxPowerMax
       (Ok (RadioParamValue_U16 power_max)) #
     between 2 @ RadioResponse_GetParam (UniqueKey_new (fresh 2)) RawRadioParam_Channel
       (Ok (RadioParamValue_U16 channel)) #
     between 3 @ RadioResponse_SetParam (UniqueKey_new (fresh 3)) RawRadioParam_RxMode
       (Ok (RadioParamValue_U16 3)) #
     between 4 @ RadioResponse_SetPower (UniqueKey_new (fresh 4)) True (Ok ()) #
     between 5"

lemma MacData_new_starts:
  assumes "sink_open requests" "\<And>n. n < 5 \<Longrightarrow> unrelated fresh (between n)"
  shows "MacData_new bm fresh rb rd requests (start_responses fresh addr power_max channel between) mi mo ci co =
    Some (Return
      \<lparr>mac_pib = PIB_new rb rd (ExtendedAddress addr) channel power_max,
       radio_requests = requests\<lparr>sink_sent := sink_sent requests @ start_requests fresh\<rparr>,
       radio_responses = \<lparr>arrived = between 5, ended = False\<rparr>,
       mlme_out = mo, mlme_in = mi, mcps_out = co, mcps_in = ci,
       management = ManagementService_new (PIB_new rb rd (ExtendedAddress addr) channel power_max),
       mac_data_service = DataService_new bm\<rparr>)"
proof -
  note un = unrelated_answers [OF assms(2)]
  have get: "SyncRadio_await (get_param_answer (UniqueKey_new (fresh n)))
      (between n @ RadioResponse_GetParam (UniqueKey_new (fresh n)) p v # rest) = Some (v, rest)"
    and set: "SyncRadio_await (set_param_answer (UniqueKey_new (fresh n)))
      (between n @ RadioResponse_SetParam (UniqueKey_new (fresh n)) p v # rest) = Some (map_ok (\<lambda>_. ()) v, rest)"
    and power: "SyncRadio_await (set_power_answer (UniqueKey_new (fresh n)))
      (between n @ RadioResponse_SetPower (UniqueKey_new (fresh n)) b w # rest) = Some (w, rest)"
    if "n < 5" for n p v b w rest
    using that by (simp_all add: SyncRadio_await_skip un)
  show ?thesis
    using assms(1)
    by (simp add: MacData_new_def start_responses_def SyncRadio_get_param_u64_def SyncRadio_get_param_u16_def
        SyncRadio_get_param_def SyncRadio_set_param_def SyncRadio_set_power_def Sink_send_def
        get set power Let_def start_requests_def rx_mode_value)
qed

definition demo_mac :: "(msdu_handle \<times> unique_key) list mac_data" where
  "demo_mac =
     \<lparr>mac_pib = PIB_new 0 0 (ExtendedAddress 7) 11 4,
      radio_requests = \<lparr>sink_open = True, sink_sent = start_requests id\<rparr>,
      radio_responses = \<lparr>arrived = [], ended = False\<rparr>,
      mlme_out = \<lparr>sink_open = True, sink_sent = []\<rparr>, mlme_in = \<lparr>arrived = [], ended = False\<rparr>,
      mcps_out = \<lparr>sink_open = True, sink_sent = []\<rparr>, mcps_in = \<lparr>arrived = [], ended = False\<rparr>,
      management = ManagementService_new (PIB_new 0 0 (ExtendedAddress 7) 11 4),
      mac_data_service = DataService_new bimap_impl\<rparr>"

lemma demo_mac_started: "mac_started bimap_impl bitfield_impl demo_mac"
  unfolding mac_started_def
proof (intro exI conjI)
  show "MacData_new bimap_impl id 0 0 \<lparr>sink_open = True, sink_sent = []\<rparr> (start_responses id 7 4 11 (\<lambda>_. []))
      \<lparr>arrived = [], ended = False\<rparr> \<lparr>sink_open = True, sink_sent = []\<rparr> \<lparr>arrived = [], ended = False\<rparr>
      \<lparr>sink_open = True, sink_sent = []\<rparr> = Some (Return demo_mac)"
    by (subst MacData_new_starts) (simp_all add: unrelated_def demo_mac_def)
  show "list_all (packet_ok bitfield_impl) (start_responses id 7 4 11 (\<lambda>_. []))"
    by (simp add: start_responses_def)
qed

definition demo_env :: "process_unique_id \<Rightarrow> mac_env" where
  "demo_env n = \<lparr>env_timer_ready = (\<lambda>_. False), env_sleep = (\<lambda>_. SleepFuture 0), env_fresh = 10 + 2 * n,
     env_fresh' = 11 + 2 * n, env_random_bsn = 0, env_random_dsn = 0, env_cx = Waker 0\<rparr>"

definition demo_events :: "mac_event list" where
  "demo_events =
     [Mac_Mlme_Arrives (MlmeInput_Request (Mlme_Get \<lparr>gr_attribute = MacPanId\<rparr>)),
      Mac_Turn (demo_env 0), Mac_Mcps_Arrives (McpsInput_Request (Mcps_Data demo_data_request)),
      Mac_Turn (demo_env 1), Mac_Turn (demo_env 2)]"

lemma demo_events_well_behaved: "well_behaved bitfield_impl demo_events"
  by (simp add: well_behaved_def demo_events_def demo_env_def)

lemma demo_events_run: "\<exists>mac'. MacData_process bimap_impl bitfield_impl demo_events demo_mac = Return mac'"
proof -
  have hm: "handle_map bimap_impl (\<lambda>m. set (bimap_pairs m))"
    by (rule handle_map.intro [OF bimap_impl.bimap_crate_axioms])
  show ?thesis
    using handle_map.process_ok [OF hm handle_map.mac_started_ok [OF hm demo_mac_started], of demo_events]
      demo_events_well_behaved
    by (auto simp: well_behaved_def)
qed

definition beacon_events :: "mac_event list" where
  "beacon_events =
     Mac_Mlme_Arrives (MlmeInput_Request (Mlme_Beacon
       \<lparr>br_beacon_type = BeaconType_Beacon, br_channel = 11, br_channel_page = 0, br_superframe_order = 15,
        br_dst_addr = None\<rparr>)) #
     map (\<lambda>n. Mac_Turn (demo_env n)) [0..<8]"

definition beacon_bytes :: bytes where
  "beacon_bytes = [0, 128, 0, 255, 255, 255, 255, 255, 15, 0, 0]"

definition demo_beacon :: frame where
  "demo_beacon =
     \<lparr>frame_pending = False, acknowledge_request = False, sequence_number = Some 0, destination = None,
      source = Some \<lparr>pan_id = PANID 0xFFFF, address = Address_Short (ShortAddress 0xFFFF)\<rparr>,
      frame_type = FrameType_Beacon
        \<lparr>beacon_order = 15, superframe_order = 15, final_cap_slot = 15, battery_life_extension = False,
         pan_coordinator = False, association_permit = False, payload = Payload []\<rparr>\<rparr>"

lemma demo_beacon_bytes: "Frame_bytes bitfield_impl demo_beacon = beacon_bytes"
  by code_simp

text \<open>What the service asks of the radio from its start to the beacon.\<close>

definition demo_requests :: "radio_request list" where
  "demo_requests = start_requests id @
     [RadioRequest_SetParam (UniqueKey_new 10) RawRadioParam_Channel (RadioParamValue_from_u16 11),
      RadioRequest_SetParam (UniqueKey_new 12) RawRadioParam_PanId (RadioParamValue_from_u16 65535),
      RadioRequest_SetParam (UniqueKey_new 14) RawRadioParam_ShortAddress (RadioParamValue_from_u16 65535),
      RadioRequest_SetParam (UniqueKey_new 16) RawRadioParam_RxMode
        (RadioParamValue_from_RadioRxMode \<lparr>address_filter = True, autoack = True, poll_mode = False\<rparr>),
      RadioRequest_SetParam (UniqueKey_new 18) RawRadioParam_TxPower (RadioParamValue_from_u16 4),
      RadioRequest_InitPendingDataTable (UniqueKey_new 20),
      RadioRequest_SendPacket (UniqueKey_new 25) beacon_bytes]"

lemma beacon_requests:
  "case MacData_process bimap_impl bitfield_impl beacon_events demo_mac of
     Return mac' \<Rightarrow> sink_sent (radio_requests mac') = demo_requests
   | Panic \<Rightarrow> False"
  by (simp add:
      beacon_events_def upt_rec demo_mac_def demo_env_def Stream_arrive_def MacData_turn_def
      MacData_poll_next_input_def ManagementService_poll_action_def
      ManagementService_poll_radio_param_update_def ManagementService_new_def
      ManagementService_update_radio_parameters_def ManagementService_update_radio_parameter_def
      PIB_new_def Let_def MacData_send_radio_def Sink_send_def WakerStore_pend_def
      WakerStore_register_def WakerStore_wake_def WakerStore_new_def WakerStore_take_def
      DataService_poll_action.simps CombinedPendingTable_poll_action_def
      CombinedPendingTable_new_def DataService_new_def MacData_poll_channels_def
      Stream_poll_next_def MacData_process_mlme_request_def
      ManagementService_process_mlme_beacon_request_def PIB_next_beacon_sequence_nr_def
      MacData_send_mlme_def MacData_send_frame_def vec.Frame_pack_emit VecPackTarget_new_def
      demo_beacon_bytes [symmetric] demo_beacon_def ShortAddress_none_assigned_def
      Beacon_in_range_def PIB_get_full_short_address_def demo_requests_def
      cong: bind_outcome_weak_cong)

section \<open>Properties\<close>

text \<open>
  C1. The MAC service never panics in a run in which its channels stay open and the radio hands
  on only packets that are frames: whatever requests, purges, responses, radio answers and
  frames arrive, in whatever order and however late, every turn of the loop returns.  In
  particular every frame it sends can be packed and the loop of the data service ends.
\<close>

theorem MacData_never_panics:
  assumes "bimap_crate bm pairs" "mac_started bm bf mac" "well_behaved bf events"
  shows "\<exists>mac'. MacData_process bm bf events mac = Return mac'"
proof -
  have hm: "handle_map bm pairs" by (rule handle_map.intro [OF assms(1)])
  show ?thesis
    using handle_map.process_ok [OF hm handle_map.mac_started_ok [OF hm assms(2)], of events] assms(3)
    by (auto simp: well_behaved_def)
qed

theorem MacData_never_panics_witness:
  "\<exists>mac'. MacData_process bimap_impl bitfield_impl demo_events demo_mac = Return mac'"
  by (rule MacData_never_panics [OF bimap_impl.bimap_crate_axioms demo_mac_started demo_events_well_behaved])

text \<open>
  C3. Every MLME request is confirmed once and in order: at any point of a run, the kinds (with
  the attribute) of the confirms sent so far, followed by those of the requests not yet
  taken from the channel, are the kinds of the requests that arrived.
\<close>

theorem MacData_confirms_mlme_in_order:
  assumes "bimap_crate bm pairs" "mac_started bm bf mac" "well_behaved bf events"
    and "MacData_process bm bf events mac = Return mac'"
  shows "concat (map confirmed_kinds (sink_sent (mlme_out mac'))) @
      concat (map requested_kinds (arrived (mlme_in mac'))) = concat (map event_kinds events)"
proof -
  have hm: "handle_map bm pairs" by (rule handle_map.intro [OF assms(1)])
  obtain used where "mac_ok pairs bf used (set (concat (map event_handles events)))
      (concat (map event_kinds events)) [] [] mac'"
    using handle_map.process_ok [OF hm handle_map.mac_started_ok [OF hm assms(2)], of events] assms(3,4)
    by (auto simp: well_behaved_def)
  then show ?thesis by (simp add: mac_ok_def)
qed

theorem MacData_confirms_mlme_in_order_witness:
  "\<exists>mac'. MacData_process bimap_impl bitfield_impl demo_events demo_mac = Return mac' \<and>
    concat (map confirmed_kinds (sink_sent (mlme_out mac'))) @
      concat (map requested_kinds (arrived (mlme_in mac'))) = [Kind_Get MacPanId]"
proof -
  obtain mac' where run: "MacData_process bimap_impl bitfield_impl demo_events demo_mac = Return mac'"
    using demo_events_run by blast
  from MacData_confirms_mlme_in_order [OF bimap_impl.bimap_crate_axioms demo_mac_started
      demo_events_well_behaved run] run
  show ?thesis by (simp add: demo_events_def)
qed

text \<open>
  C4. No data request is confirmed twice: at any point of a run, resets of the service included,
  the handles in the data confirms and the successful purge confirms are distinct, belong to
  requests that arrived, and none of them is still known to the service or waiting.
\<close>

theorem MacData_confirms_mcps_once:
  assumes "bimap_crate bm pairs" "mac_started bm bf mac" "well_behaved bf events"
    and "MacData_process bm bf events mac = Return mac'"
  shows "distinct (concat (map settled_handles (sink_sent (mcps_out mac')))) \<and>
    set (concat (map settled_handles (sink_sent (mcps_out mac')))) \<subseteq>
      set (concat (map event_handles events)) \<and>
    set (concat (map settled_handles (sink_sent (mcps_out mac')))) \<inter>
      (fst ` pairs (msdu_handles (mac_data_service mac')) \<union>
       set (concat (map data_handles (arrived (mcps_in mac'))))) = {}"
proof -
  have hm: "handle_map bm pairs" by (rule handle_map.intro [OF assms(1)])
  obtain used where "mac_ok pairs bf used (set (concat (map event_handles events)))
      (concat (map event_kinds events)) [] [] mac'"
    using handle_map.process_ok [OF hm handle_map.mac_started_ok [OF hm assms(2)], of events] assms(3,4)
    by (auto simp: well_behaved_def)
  then show ?thesis by (auto simp: mac_ok_def handles_ok_def)
qed

theorem MacData_confirms_mcps_once_witness:
  "\<exists>mac'. MacData_process bimap_impl bitfield_impl demo_events demo_mac = Return mac' \<and>
    set (concat (map settled_handles (sink_sent (mcps_out mac')))) \<subseteq> {dr_msdu_handle demo_data_request}"
proof -
  obtain mac' where run: "MacData_process bimap_impl bitfield_impl demo_events demo_mac = Return mac'"
    using demo_events_run by blast
  from MacData_confirms_mcps_once [OF bimap_impl.bimap_crate_axioms demo_mac_started
      demo_events_well_behaved run] run
  show ?thesis by (simp add: demo_events_def)
qed

text \<open>
  Every packet the service hands to the radio in a run is a frame that any device with this
  stack reads back completely: what a service sends never makes another one panic.
\<close>

theorem MacData_sends_readable_frames:
  assumes "bimap_crate bm pairs" "bitfield_crate bf" "mac_started bm bf mac" "well_behaved bf events"
    and "MacData_process bm bf events mac = Return mac'"
    and "RadioRequest_SendPacket k data \<in> set (sink_sent (radio_requests mac'))"
  shows "\<exists>f. Frame_unpack bf data = Ok (f, [])"
proof -
  have hm: "handle_map bm pairs" by (rule handle_map.intro [OF assms(1)])
  obtain used where "mac_ok pairs bf used (set (concat (map event_handles events)))
      (concat (map event_kinds events)) [] [] mac'"
    using handle_map.process_ok [OF hm handle_map.mac_started_ok [OF hm assms(3)], of events] assms(4,5)
    by (auto simp: well_behaved_def)
  then have "request_ok bf (RadioRequest_SendPacket k data)"
    using assms(6) unfolding mac_ok_def channels_ok_def list_all_iff by blast
  then show ?thesis
    using frame_bits.Frame_bytes_roundtrip [OF frame_bits.intro [OF assms(2)]] by auto
qed

text \<open>
  The start-up dialogue: when the radio answers the five requests, with any responses to
  other tokens and any packets in between, the service asks for the extended address, the
  maximal power and the channel, sets the receive mode and switches the radio on, in this
  order, and starts with a PIB made of the answers.
\<close>

theorem MacData_new_dialogue:
  assumes "sink_open requests" "\<And>n. n < 5 \<Longrightarrow> unrelated fresh (between n)"
  shows "\<exists>mac. MacData_new bm fresh rb rd requests (start_responses fresh addr power_max channel between)
      mi mo ci co = Some (Return mac) \<and>
    mac_pib mac = PIB_new rb rd (ExtendedAddress addr) channel power_max \<and>
    sink_sent (radio_requests mac) = sink_sent requests @ start_requests fresh \<and>
    arrived (radio_responses mac) = between 5"
  by (simp add: MacData_new_starts [OF assms])

text \<open>
  C39. A packet that is not a frame the service understands, a secured one for instance, stops
  the service: processing a packet panics exactly when it does not unpack, or when the frame gives
  an indication and the channel for indications is closed.
\<close>

theorem MacData_malformed_packet_panics:
  "MacData_process_radio_response bf sleep (RadioResponse_OnPacket p) mac = Panic \<longleftrightarrow>
    (case Frame_unpack bf (packet_data p) of
       Err _ \<Rightarrow> True
     | Ok (f, _) \<Rightarrow>
         fst (ManagementService_process_frame f (mac_pib mac) (management mac)) \<noteq> None \<and> \<not> sink_open (mlme_out mac))"
proof (cases "Frame_unpack bf (packet_data p)")
  case (Inr fr)
  obtain f rest where fr: "fr = (f, rest)" by (cases fr)
  obtain i pib m where "ManagementService_process_frame f (mac_pib mac) (management mac) = (i, pib, m)"
    by (metis prod_cases3)
  with Inr fr show ?thesis
    by (cases i; cases "sink_open (mlme_out mac)")
      (simp_all add: MacData_process_radio_packet_def MacData_send_mlme_def Sink_send_def Let_def)
qed (simp add: MacData_process_radio_packet_def)

end
