(* ===== verification/Whole_Stack.thy ===== *)
theory Whole_Stack
  imports Mac_Service
begin

text \<open>
  The layers together: what the MAC service hands out, through the radio service and the sink, over the serial port to the
  radio, and what the radio hears, through the stream and the radio service, into the MAC service.
\<close>

section \<open>From the MAC service to the port of the radio\<close>

text \<open>The packets that requests hand to the radio, and those that raw messages ask it to send.\<close>

definition packets_of :: "radio_request list \<Rightarrow> bytes list" where
  "packets_of requests = List.map_filter (\<lambda>r. case r of RadioRequest_SendPacket _ packet \<Rightarrow> Some packet | _ \<Rightarrow> None) requests"

definition raw_packets :: "raw_radio_message list \<Rightarrow> bytes list" where
  "raw_packets msgs = map rm_data (filter (\<lambda>m. rm_command_id m = RawRadioCommand_Send) msgs)"

lemma packets_of_simps [simp]:
  "packets_of [] = []"
  "packets_of (r # rs) = (case r of RadioRequest_SendPacket _ packet \<Rightarrow> packet # packets_of rs | _ \<Rightarrow> packets_of rs)"
  by (simp_all add: packets_of_def List.map_filter_def split: radio_request.split)

lemma in_packets_of: "packet \<in> set (packets_of rs) \<Longrightarrow> \<exists>k. RadioRequest_SendPacket k packet \<in> set rs"
  by (induction rs) (auto split: radio_request.splits)

lemma raw_packets_simps [simp]:
  "raw_packets [] = []"
  "raw_packets (m # ms) = (if rm_command_id m = RawRadioCommand_Send then rm_data m # raw_packets ms else raw_packets ms)"
  by (simp_all add: raw_packets_def)

lemma request_task_packets:
  "radio_request_task_step rands r m = Some (msg, m') \<Longrightarrow> raw_packets [msg] = packets_of [r]"
  by (cases r) (auto simp: radio_request_task_step_def split: option.splits if_splits radio_param_value.splits radio_param_type.splits)

lemma radio_service_packets:
  "radio_service_run evs m = Some (out, responses, m') \<Longrightarrow> raw_packets out = packets_of (requests_of evs)"
proof (induction evs m arbitrary: out responses rule: radio_service_run.induct)
  case (2 rands request evs m)
  then obtain msg m1 out1 where step: "radio_request_task_step rands request m = Some (msg, m1)"
    "radio_service_run evs m1 = Some (out1, responses, m')" "out = msg # out1"
    by (auto split: option.splits)
  show ?case using 2(1) [OF step(1) refl step(2)] request_task_packets [OF step(1)] step(3)
    by (auto split: radio_request.splits if_splits)
next
  case (3 msg evs m)
  then show ?case by (auto split: prod.splits)
qed simp

text \<open>
  C8. From the MAC service to the radio: when all raw messages of a run have at most 65527 bytes of data, and the sink has
  been flushed (nothing is left unsent), the packets that reach the radio at the other end of the serial port are those the
  service handed out in its run, in order, and each is a frame that unpacks completely; however the requests are
  interleaved with what the radio sends, and however the port cuts the bytes, as long as no read fails.
\<close>

theorem frames_reach_the_radio:
  assumes "bimap_crate bm pairs" "bitfield_crate bf" "cookie_crate cf" "nom_crate nom"
    and "mac_started bm bf mac" "well_behaved bf events" "MacData_process bm bf events mac = Return mac'"
    and "requests_of evs = sink_sent (radio_requests mac')" "radio_service evs = Some (msgs, responses, left_over)"
    and "sink_messages calls = msgs" "sink_run cf calls ([], RawRadioSink_new) = Return (bytes, s)" "unsent s = []"
    and "list_all message_fits msgs" "src_clean src" "src_bytes src = bytes" "length msgs + src_pendings src \<le> n"
  shows "\<exists>received frames. poll_all nom n src RawRadioStream_new = Return received \<and>
    raw_packets received = packets_of (sink_sent (radio_requests mac')) \<and>
    map (Frame_unpack bf) (raw_packets received) = map (\<lambda>f. Ok (f, [])) frames"
proof -
  have "sink_written RawRadioSink_new \<le> length (sink_buffer RawRadioSink_new)" "unsent RawRadioSink_new = []"
    by (simp_all add: RawRadioSink_new_def unsent_def)
  then have "bytes = concat (map message_bytes msgs)"
    using cookie_crate.sink_run_sends [OF assms(3), of RawRadioSink_new calls "[]"] assms(10-12) by auto
  then have "carries (content RawRadioStream_new @ src_bytes src) msgs"
    using carries_messages [OF assms(13)] assms(15) by simp
  then have received: "poll_all nom n src RawRadioStream_new = Return msgs"
    by (rule nom_crate.poll_all_delivers [OF assms(4) stream_new(1) assms(14)]) (rule assms(16))
  have packets: "raw_packets msgs = packets_of (sink_sent (radio_requests mac'))"
    using radio_service_packets [of evs "[]"] assms(8,9) by (simp add: radio_service_def)
  have "\<exists>f. Frame_unpack bf packet = Ok (f, [])" if "packet \<in> set (raw_packets msgs)" for packet
    using MacData_sends_readable_frames [OF assms(1,2,5-7)] in_packets_of that packets by metis
  then obtain frame where "\<And>packet. packet \<in> set (raw_packets msgs) \<Longrightarrow> Frame_unpack bf packet = Ok (frame packet, [])"
    by metis
  then have "map (Frame_unpack bf) (raw_packets msgs) = map (\<lambda>f. Ok (f, [])) (map frame (raw_packets msgs))" by simp
  with received packets show ?thesis by blast
qed

section \<open>From the port of the radio to the MAC service\<close>

fun messages_of :: "radio_event list \<Rightarrow> raw_radio_message list" where
  "messages_of [] = []"
| "messages_of (Radio_Request _ _ # evs) = messages_of evs"
| "messages_of (Radio_Message m # evs) = m # messages_of evs"

fun radio_arrivals :: "mac_event list \<Rightarrow> radio_response list" where
  "radio_arrivals [] = []"
| "radio_arrivals (Mac_Radio_Arrives r # events) = r # radio_arrivals events"
| "radio_arrivals (_ # events) = radio_arrivals events"

text \<open>The radio hears frames: a packet it reports is one, followed by two bytes on how well it was received.\<close>

definition hears_frame :: "bf16 \<Rightarrow> raw_radio_message \<Rightarrow> bool" where
  "hears_frame bf m \<longleftrightarrow> (if rm_command_id m = RawRadioCommand_OnPacket \<and> 2 \<le> length (rm_data m)
     then is_ok (Frame_unpack bf (take (length (rm_data m) - 2) (rm_data m))) else True)"

lemma response_task_packet_ok:
  assumes "hears_frame bf msg" "list_all (\<lambda>(i, p). \<forall>r. packet_ok bf (p r)) m"
  shows "list_all (packet_ok bf) (fst (radio_response_task_step msg m)) \<and>
    list_all (\<lambda>(i, p). \<forall>r. packet_ok bf (p r)) (snd (radio_response_task_step msg m))"
proof -
  have parser: "packet_ok bf (p r)" if "map_of m i = Some p" for i p r
    using map_of_SomeD [OF that] assms(2) by (auto simp: list_all_iff)
  have rest: "list_all (\<lambda>(i, p). \<forall>r. packet_ok bf (p r)) (AList.delete i m)" for i
    using assms(2) by (auto simp: list_all_iff AList.delete_eq)
  have "butlast (butlast xs) = take (length xs - 2) xs" for xs :: bytes
    by (simp add: butlast_conv_take take_take numeral_2_eq_2)
  then show ?thesis
    using assms parser rest by (auto simp: radio_response_task_step_def hears_frame_def split: raw_radio_command.split option.split)
qed

lemma list_all_update: "list_all P m \<Longrightarrow> P (i, p) \<Longrightarrow> list_all P (AList.update i p m)"
  by (induction m) auto

lemma request_task_packet_ok:
  assumes "radio_request_task_step rands r m = Some (msg, m')" "list_all (\<lambda>(i, p). \<forall>r. packet_ok bf (p r)) m"
  shows "list_all (\<lambda>(i, p). \<forall>r. packet_ok bf (p r)) m'"
proof -
  obtain c d p where raw: "RadioRequest_into_raw r = (c, d, p)" by (cases "RadioRequest_into_raw r")
  then have "packet_ok bf (p x)" for x by (cases r) auto
  then show ?thesis
    using assms raw by (auto simp: radio_request_task_step_def split: option.splits intro!: list_all_update)
qed

lemma radio_service_packet_ok:
  assumes "radio_service_run evs m = Some (out, responses, m')" "list_all (hears_frame bf) (messages_of evs)"
    and "list_all (\<lambda>(i, p). \<forall>r. packet_ok bf (p r)) m"
  shows "list_all (packet_ok bf) responses"
  using assms
proof (induction evs m arbitrary: out responses rule: radio_service_run.induct)
  case (2 rands request evs m)
  then obtain msg m1 out1 where step: "radio_request_task_step rands request m = Some (msg, m1)"
    "radio_service_run evs m1 = Some (out1, responses, m')"
    by (auto split: option.splits)
  show ?case
    using 2(1) [OF step(1) refl step(2)] request_task_packet_ok [OF step(1) 2(4)] 2(3) by simp
next
  case (3 msg evs m)
  obtain rs m1 where step: "radio_response_task_step msg m = (rs, m1)" by (cases "radio_response_task_step msg m")
  then obtain responses1 where rest: "radio_service_run evs m1 = Some (out, responses1, m')" "responses = rs @ responses1"
    using 3(2) by auto
  have "list_all (packet_ok bf) rs" "list_all (\<lambda>(i, p). \<forall>r. packet_ok bf (p r)) m1"
    using response_task_packet_ok [of bf msg m] 3(3,4) step by simp_all
  then show ?case using 3(1) [OF step [symmetric] rest(1)] 3(3) rest(2) by simp
qed simp

lemma arrivals_ok: "list_all (event_ok bf) events \<longleftrightarrow> list_all (packet_ok bf) (radio_arrivals events)"
  by (induction events rule: radio_arrivals.induct) simp_all

text \<open>
  C2. From the radio to the MAC service: when the packets the radio hears are frames, its messages have at most 65527 bytes
  of data, what is written between them does not contain the magic prefix, and no read of the port fails, these messages
  arrive in order and unchanged, in whatever pieces they are read, and the MAC service never panics on what the radio
  service makes of them, however these responses are interleaved with requests and turns.  (A message of more data than
  that ends the stream, see \<open>RawRadioStream_oversized_ends\<close>.)
\<close>

theorem stack_survives_frames:
  assumes "nom_crate nom" "bimap_crate bm pairs" "mac_started bm bf mac"
    and "wire_ok ws" "list_all (hears_frame bf) (map snd ws)"
    and "src_clean src" "src_bytes src = wire ws" "length ws + src_pendings src \<le> n"
    and "messages_of evs = map snd ws" "radio_service evs = Some (msgs, responses, left_over)"
    and "radio_arrivals events = responses" "distinct (turn_ids events)" "distinct (concat (map event_handles events))"
  shows "poll_all nom n src RawRadioStream_new = Return (messages_of evs) \<and>
    (\<exists>mac'. MacData_process bm bf events mac = Return mac')"
proof
  have "carries (content RawRadioStream_new @ src_bytes src) (map snd ws)" using assms(4,7) by (auto simp: carries_def)
  then show "poll_all nom n src RawRadioStream_new = Return (messages_of evs)"
    using nom_crate.poll_all_delivers [OF assms(1) stream_new(1) assms(6)] assms(8,9) by simp
  have "list_all (packet_ok bf) responses"
    using radio_service_packet_ok [of evs "[]"] assms(5,9,10) by (simp add: radio_service_def)
  then have "list_all (event_ok bf) events" by (simp add: arrivals_ok assms(11))
  moreover have hm: "handle_map bm pairs" by (rule handle_map.intro [OF assms(2)])
  ultimately show "\<exists>mac'. MacData_process bm bf events mac = Return mac'"
    using handle_map.process_ok [OF hm handle_map.mac_started_ok [OF hm assms(3)], of events] assms(12,13) by auto
qed

text \<open>A radio that hears a beacon behind some noise.\<close>

definition heard_message :: raw_radio_message where
  "heard_message = \<lparr>rm_command_id = RawRadioCommand_OnPacket, rm_request_id = 0, rm_data = beacon_bytes @ [200, 90]\<rparr>"

definition heard_response :: radio_response where
  "heard_response = RadioResponse_OnPacket \<lparr>packet_data = beacon_bytes, rssi = 200, link_quality = 90\<rparr>"

lemma beacon_unpacks: "Frame_unpack bitfield_impl beacon_bytes = Ok (demo_beacon, [])"
proof -
  have "FrameType_packable (frame_type demo_beacon)" "\<not> FrameType_is_association_request (frame_type demo_beacon)"
    by (simp_all add: demo_beacon_def Beacon_in_range_def)
  then show ?thesis
    using frame_bits.Frame_bytes_roundtrip [OF frame_bits.intro [OF bitfield_impl.bitfield_crate_axioms], of demo_beacon]
    unfolding demo_beacon_bytes by blast
qed

theorem stack_survives_frames_witness:
  "\<exists>mac'. MacData_process bimap_impl bitfield_impl [Mac_Radio_Arrives heard_response, Mac_Turn (demo_env 0)] demo_mac = Return mac'"
proof -
  let ?evs = "[Radio_Message heard_message]" and ?ws = "[([0x5A :: u8], heard_message)]"
    and ?events = "[Mac_Radio_Arrives heard_response, Mac_Turn (demo_env 0)]"
  have heard: "radio_service ?evs = Some ([], [heard_response], [])" "hears_frame bitfield_impl heard_message"
    using beacon_unpacks
    by (simp_all add: radio_service_def radio_response_task_step_def heard_message_def heard_response_def butlast_append hears_frame_def)
  have "wire_ok ?ws" by (simp add: noise_def message_fits_def heard_message_def beacon_bytes_def RADIO_MAGIC_PREFIX_def)
  then show ?thesis
    using stack_survives_frames [OF nom_impl.nom_crate_axioms bimap_impl.bimap_crate_axioms demo_mac_started, where ws = ?ws
        and src = "[SrcChunk (wire ?ws)]" and n = 1 and evs = ?evs and events = ?events
        and msgs = "[]" and left_over = "[]" and responses = "[heard_response]"] heard
    by (simp add: src_clean_def)
qed

definition demo_radio_events :: "radio_event list" where
  "demo_radio_events = map (\<lambda>(i, r). Radio_Request [i] r) (zip (map of_nat [0..<12]) demo_requests)"

definition demo_raw :: "raw_radio_message list" where
  "demo_raw = map (\<lambda>(i, r). case RadioRequest_into_raw r of (c, d, p) \<Rightarrow> \<lparr>rm_command_id = c, rm_request_id = i, rm_data = d\<rparr>)
     (zip (map of_nat [0..<12]) demo_requests)"

lemma demo_radio_run:
  "requests_of demo_radio_events = demo_requests"
  "\<exists>left. radio_service demo_radio_events = Some (demo_raw, [], left)"
  by (simp_all add: demo_radio_events_def demo_raw_def demo_requests_def start_requests_def upt_rec radio_service_def
      radio_request_task_step_def)

text \<open>A client that hands over its messages and then flushes, at a port with room for all of them.\<close>

definition send_all :: "raw_radio_message list \<Rightarrow> sink_call list" where
  "send_all ms = map Sink_start_send ms @ [Sink_poll_flush (Ready (Ok ())) [Ready (Ok (length (concat (map message_bytes ms))))]]"

lemma start_sends:
  "sink_run cookie_impl (map Sink_start_send ms @ cs) (out, s) =
    sink_run cookie_impl cs (out, s\<lparr>sink_buffer := sink_buffer s @ concat (map message_bytes ms)\<rparr>)"
  by (induction ms arbitrary: s) (simp_all add: RawRadioSink_start_send_def cookie_impl.RawRadioMessage_into_bytes)

lemma send_all:
  "sink_messages (send_all ms) = ms"
  "sink_run cookie_impl (send_all ms) ([], RawRadioSink_new) = Return (concat (map message_bytes ms), RawRadioSink_new)"
proof -
  have "sink_messages (map Sink_start_send ms @ cs) = ms @ sink_messages cs" for cs by (induction ms) simp_all
  then show "sink_messages (send_all ms) = ms" by (simp add: send_all_def)
  show "sink_run cookie_impl (send_all ms) ([], RawRadioSink_new) = Return (concat (map message_bytes ms), RawRadioSink_new)"
    unfolding send_all_def start_sends by (simp add: RawRadioSink_poll_flush_def RawRadioSink_new_def Let_def)
qed

theorem frames_reach_the_radio_witness:
  "\<exists>received frames. poll_all nom_impl 12 [SrcChunk (concat (map message_bytes demo_raw))] RawRadioStream_new = Return received \<and>
    raw_packets received = [beacon_bytes] \<and>
    map (Frame_unpack bitfield_impl) (raw_packets received) = map (\<lambda>f. Ok (f, [])) frames"
proof -
  obtain mac' where mac': "MacData_process bimap_impl bitfield_impl beacon_events demo_mac = Return mac'"
    "sink_sent (radio_requests mac') = demo_requests"
    using beacon_requests by (auto split: outcome.splits)
  obtain left_over where radio: "radio_service demo_radio_events = Some (demo_raw, [], left_over)" using demo_radio_run(2) by blast
  have behaved: "well_behaved bitfield_impl beacon_events"
    by (simp add: well_behaved_def beacon_events_def demo_env_def upt_rec)
  have fits: "list_all message_fits demo_raw" "length demo_raw = 12"
    by (simp_all add: demo_raw_def demo_requests_def start_requests_def upt_rec message_fits_def beacon_bytes_def to_be_bytes_u16
        RadioParamValue_from_u16_def RadioParamValue_from_RadioRxMode_def)
  have packets: "packets_of demo_requests = [beacon_bytes]" by (simp add: demo_requests_def start_requests_def)
  from frames_reach_the_radio [OF bimap_impl.bimap_crate_axioms bitfield_impl.bitfield_crate_axioms
      cookie_impl.cookie_crate_axioms nom_impl.nom_crate_axioms demo_mac_started behaved mac'(1) _ radio send_all,
      where src = "[SrcChunk (concat (map message_bytes demo_raw))]" and n = 12]
  show ?thesis
    using demo_radio_run(1) mac'(2) fits packets by (simp add: RawRadioSink_new_def unsent_def src_clean_def)
qed

end
