(* ===== verification/Main_Loop.thy ===== *)
theory Main_Loop
  imports Mac_Service
begin

text \<open>
  The main loop (\<^verbatim>\<open>main.rs\<close>): the requests it sends to start a network, and its answers to what
  the MAC service reports.  What it sends is the two lists of messages on the MLME and the
  MCPS channel.
\<close>

section \<open>Definitions\<close>

datatype mainloop_input = MainloopInput_Mlme mlme_output | MainloopInput_Mcps mcps_output

record mainloop_state =
  main_mlme :: "mlme_input channel_sink"
  main_mcps :: "mcps_input channel_sink"

definition send_request :: "mlme_request \<Rightarrow> mainloop_state \<Rightarrow> mainloop_state outcome" where
  "send_request request self =
     (case Sink_send (MlmeInput_Request request) (main_mlme self) of
        (res, sink) \<Rightarrow> bind_outcome (unwrap res) (\<lambda>_. Return (self\<lparr>main_mlme := sink\<rparr>)))"

definition send_response :: "mlme_response \<Rightarrow> mainloop_state \<Rightarrow> mainloop_state outcome" where
  "send_response response self =
     (case Sink_send (MlmeInput_Response response) (main_mlme self) of
        (res, sink) \<Rightarrow> bind_outcome (unwrap res) (\<lambda>_. Return (self\<lparr>main_mlme := sink\<rparr>)))"

definition send_mcps_request :: "mcps_request \<Rightarrow> mainloop_state \<Rightarrow> mainloop_state outcome" where
  "send_mcps_request request self =
     (case Sink_send (McpsInput_Request request) (main_mcps self) of
        (res, sink) \<Rightarrow> bind_outcome (unwrap res) (\<lambda>_. Return (self\<lparr>main_mcps := sink\<rparr>)))"

definition beacon_payload :: bytes where
  "beacon_payload = [0x00, 0x22, 0x84, 0x15, 0x68, 0x89, 0x0e, 0x00, 0x4b, 0x12, 0x00, 0xFF, 0xFF, 0xFF, 0x00]"

definition mainloop_start :: "mainloop_state \<Rightarrow> mainloop_state outcome" where
  "mainloop_start self =
     bind_outcome (send_request (Mlme_Reset \<lparr>set_default_pib = True\<rparr>) self) (\<lambda>self.
     bind_outcome (send_request (Mlme_Set \<lparr>st_attribute = PhyCurrentChannel,
       st_value = PIBValue_from_u16 25\<rparr>) self) (\<lambda>self.
     bind_outcome (send_request (Mlme_Set \<lparr>st_attribute = MacAssociationPermit,
       st_value = PIBValue_from_bool True\<rparr>) self) (\<lambda>self.
     bind_outcome (send_request (Mlme_Set \<lparr>st_attribute = MacShortAddress,
       st_value = PIBValue_from_ShortAddress (ShortAddress 0x0000)\<rparr>) self) (\<lambda>self.
     bind_outcome (send_request (Mlme_Set \<lparr>st_attribute = MacBeaconPayload,
       st_value = PIBValue_from_Vec beacon_payload\<rparr>) self) (\<lambda>self.
     bind_outcome (send_request (Mlme_Set \<lparr>st_attribute = MacBeaconAutoRespond,
       st_value = PIBValue_from_bool True\<rparr>) self) (\<lambda>self.
     send_request (Mlme_Start
       \<lparr>sr_pan_id = PANID 0x1234,
        sr_channel_number = 25,
        sr_channel_page = 0,
        sr_start_time = 0,
        sr_beacon_order = 15,
        sr_superframe_order = 15,
        sr_pan_coordinator = True,
        sr_battery_life_extension = False\<rparr>) self))))))"

definition nwk_header :: bytes where
  "nwk_header = [0x48, 0x00, 0x67, 0x45, 0x00, 0x00, 0x1E, 0x28]"

definition aps_header :: bytes where
  "aps_header =
     [0x21, 0x06, 0x10, 0x01, 0x00, 0x00, 0x00, 0xe3, 0xbd, 0x18, 0x74, 0x09, 0x2c,
      0x2c, 0xa3, 0x58, 0x1d, 0x8a, 0x23, 0xb9, 0x6c, 0x3b, 0x80, 0xf0, 0xad, 0x27,
      0x1c, 0x59, 0x8a, 0xdf, 0x27, 0xbc, 0x21, 0xc7, 0x47, 0xf0, 0x31, 0x74, 0x80,
      0xbc, 0x8c, 0x53, 0x88, 0x11, 0x8f, 0x02]"

text \<open>The body of the loop; \<open>fresh\<close> is the identifier of \<^verbatim>\<open>MsduHandle::new()\<close>.\<close>

fun mainloop_body :: "process_unique_id \<Rightarrow> mainloop_input \<Rightarrow> mainloop_state \<Rightarrow>
    mainloop_state outcome" where
  "mainloop_body fresh (MainloopInput_Mlme (MlmeOutput_Indication
      (MlmeIndication_BeaconRequest beacon_type src_addr dst_pan_id))) self =
     send_request (Mlme_Beacon
       \<lparr>br_beacon_type = beacon_type,
        br_channel = 25,
        br_channel_page = 0,
        br_superframe_order = 15,
        br_dst_addr = None\<rparr>) self"
| "mainloop_body fresh (MainloopInput_Mlme (MlmeOutput_Indication
      (MlmeIndication_Associate device_address capability))) self =
     (let assigned = ShortAddress 0x4567;
          data = nwk_header @ aps_header
      in bind_outcome (send_response (MlmeResponse_Associate device_address
             (ci_fast_association capability) (Ok (Some assigned))) self) (\<lambda>self.
         send_mcps_request (Mcps_Data
           \<lparr>dr_source_addressing_mode = AddressingMode_Short,
            dr_destination = Some \<lparr>pan_id = PANID 0x1234, address = Address_Short assigned\<rparr>,
            dr_msdu = data,
            dr_msdu_handle = MsduHandle_new fresh,
            dr_ack_tx = True,
            dr_indirect_tx = True\<rparr>) self))"
| "mainloop_body fresh _ self = Return self"

text \<open>
  The loop, over what \<^verbatim>\<open>select!\<close> yields: \<open>None\<close> when the stream that was chosen has ended, on which
  the loop ends.
\<close>

fun mainloop_loop :: "(process_unique_id \<times> mainloop_input option) list \<Rightarrow> mainloop_state \<Rightarrow>
    mainloop_state outcome" where
  "mainloop_loop [] self = Return self"
| "mainloop_loop ((fresh, None) # inputs) self = Return self"
| "mainloop_loop ((fresh, Some input) # inputs) self =
     bind_outcome (mainloop_body fresh input self) (mainloop_loop inputs)"

definition mainloop :: "(process_unique_id \<times> mainloop_input option) list \<Rightarrow> mainloop_state \<Rightarrow>
    mainloop_state outcome" where
  "mainloop inputs self = bind_outcome (mainloop_start self) (mainloop_loop inputs)"

section \<open>Starting the network\<close>

text \<open>The management service working through a list of inputs, without the radio in between.\<close>

fun work_off :: "'bm handle_map_ops \<Rightarrow> u8 \<Rightarrow> u8 \<Rightarrow> mlme_input list \<Rightarrow>
    pib \<times> 'bm data_service \<times> management_service \<Rightarrow> mlme_confirm list \<times> pib \<times> 'bm data_service \<times> management_service" where
  "work_off bm rb rd [] (pib, d, m) = ([], pib, d, m)"
| "work_off bm rb rd (MlmeInput_Request r # inputs) (pib, d, m) =
     (case ManagementService_process_mlme_request bm rb rd r pib d m of
        (c, pib, d, m) \<Rightarrow>
          (case work_off bm rb rd inputs (pib, d, m) of
             (cs, s) \<Rightarrow> ((case c of Some x \<Rightarrow> [x] | None \<Rightarrow> []) @ cs, s)))"
| "work_off bm rb rd (MlmeInput_Response r # inputs) s = work_off bm rb rd inputs s"

text \<open>
  C20. The requests the main loop starts with bring up the network: whatever the PIB was before,
  the management service confirms all seven with success, in order, and afterwards the PIB
  describes a coordinator with short address 0 in PAN 0x1234 on channel 25 that permits
  association and answers beacon requests with the given payload.
\<close>

theorem mainloop_start_brings_up_network:
  assumes "mainloop_start \<lparr>main_mlme = \<lparr>sink_open = True, sink_sent = []\<rparr>, main_mcps = mcps\<rparr> = Return s"
    and "work_off bm rb rd (sink_sent (main_mlme s)) (pib, d, m) = (cs, pib', d', m')"
  shows "cs = [MlmeConfirm_Reset (Ok ()), MlmeConfirm_Set PhyCurrentChannel (Ok ()),
      MlmeConfirm_Set MacAssociationPermit (Ok ()), MlmeConfirm_Set MacShortAddress (Ok ()),
      MlmeConfirm_Set MacBeaconPayload (Ok ()), MlmeConfirm_Set MacBeaconAutoRespond (Ok ()),
      MlmeConfirm_Start (Ok ())] \<and>
    mac_extended_address pib' = mac_extended_address pib \<and>
    phy_current_channel pib' = 25 \<and> mac_pan_id pib' = PANID 0x1234 \<and>
    mac_short_address pib' = ShortAddress 0 \<and> mac_association_permit pib' \<and>
    mac_beacon_auto_respond pib' \<and> mac_beacon_payload pib' = beacon_payload \<and>
    mac_associated_pan_coord pib' = Some (mac_extended_address pib, ShortAddress 0)"
  using assms
  by (auto simp: mainloop_start_def send_request_def Sink_send_def Let_def assign_def PIB_set_def
      ManagementService_process_mlme_reset_request_def ManagementService_process_mlme_set_request_def
      ManagementService_process_mlme_start_request_def PIB_reset_def PIB_new_def PIBValue_from_defs)

theorem mainloop_start_brings_up_network_witness:
  "\<exists>s cs pib' d' m'. mainloop_start \<lparr>main_mlme = \<lparr>sink_open = True, sink_sent = []\<rparr>,
       main_mcps = \<lparr>sink_open = True, sink_sent = []\<rparr>\<rparr> = Return s \<and>
     work_off bimap_impl 0 0 (sink_sent (main_mlme s))
       (mac_pib demo_mac, mac_data_service demo_mac, management demo_mac) = (cs, pib', d', m') \<and>
     mac_short_address pib' = ShortAddress 0"
proof -
  let ?s0 = "\<lparr>main_mlme = \<lparr>sink_open = True, sink_sent = []\<rparr>, main_mcps = \<lparr>sink_open = True, sink_sent = []\<rparr>\<rparr>"
  obtain s where s: "mainloop_start ?s0 = Return s"
    by (simp add: mainloop_start_def send_request_def Sink_send_def)
  obtain cs pib' d' m' where w: "work_off bimap_impl 0 0 (sink_sent (main_mlme s))
      (mac_pib demo_mac, mac_data_service demo_mac, management demo_mac) = (cs, pib', d', m')"
    by (metis prod_cases4)
  from mainloop_start_brings_up_network [OF s w] s w show ?thesis by blast
qed

section \<open>A device joins\<close>

lemma inserted_entry:
  assumes "hm_wf (queues d)" "rq_key r \<notin># queued (queues d)"
  shows "\<exists>q e. map_of (queues (DataService_insert sleep pib r d)) (rq_destination r) = Some q \<and>
    e \<in> set (entries q) \<and> qe_data e = r"
proof (cases "map_of (queues d) (rq_destination r)")
  case None
  then show ?thesis
    by (simp add: DataService_insert_def Let_def update_conv' DeviceQueue_insert_def DeviceQueue_new_def
        DeviceQueue_contains_def DeviceQueue_wake_def)
next
  case (Some q)
  have "mset (queue_keys q) \<subseteq># queued (queues d)"
    using map_of_SomeD [OF Some] by (auto simp: queued_def in_set_conv_decomp)
  then have "\<not> DeviceQueue_contains q (rq_key r)"
    using assms(2) unfolding DeviceQueue_contains_iff by (metis mset_subset_eqD set_mset_mset)
  with Some show ?thesis
    by (auto simp: DataService_insert_def DeviceQueue_insert_def DeviceQueue_wake_def)
qed

definition join_packet :: radio_packet where
  "join_packet = \<lparr>packet_data = [0x23, 0xC8, 0x01, 0x34, 0x12, 0x00, 0x00, 0xFF, 0xFF,
     0x01, 0x02, 0x03, 0x04, 0x05, 0x06, 0x07, 0x08, 0x01, 0x80], rssi = 0, link_quality = 0\<rparr>"

definition join_frame :: frame where
  "join_frame =
     \<lparr>frame_pending = False, acknowledge_request = True, sequence_number = Some 1,
      destination = Some \<lparr>pan_id = PANID 0x1234, address = Address_Short (ShortAddress 0)\<rparr>,
      source = Some \<lparr>pan_id = PANID 0xFFFF, address = Address_Extended (ExtendedAddress 0x0807060504030201)\<rparr>,
      frame_type = FrameType_Command (Command_AssociationRequest
        \<lparr>device_type = RFD, power_source = Battery, receiver_on_when_idle = False, ci_fast_association = False,
         security_capable = False, allocate_address = True\<rparr>)\<rparr>"

lemma join_frame_unpacked: "Frame_unpack bitfield_impl (packet_data join_packet) = Ok (join_frame, [])"
  by code_simp

definition joining_mac :: "(msdu_handle \<times> unique_key) list mac_data" where
  "joining_mac = demo_mac\<lparr>mac_pib := (PIB_new 0 0 (ExtendedAddress 7) 11 4)
     \<lparr>mac_association_permit := True, mac_pan_id := PANID 0x1234, mac_short_address := ShortAddress 0\<rparr>\<rparr>"

text \<open>
  C12. A device joins: when the coordinator permits association, an association request addressed
  to it from an extended address is indicated to the main loop; the main loop answers with
  the address 0x4567; and the MAC service then has, in the queue of the device, an
  association response with this address that asks for an acknowledgement and waits for the
  device unless it asked for fast association.
\<close>

theorem association_is_answered:
  assumes "Frame_unpack bf (packet_data p) = Ok (f, rest)"
    and "frame_type f = FrameType_Command (Command_AssociationRequest cap)"
    and "destination f = Some (PIB_get_full_short_address (mac_pib mac))"
    and "source f = Some \<lparr>pan_id = src_pan, address = Address_Extended dev\<rparr>"
    and "mac_association_permit (mac_pib mac)"
    and "sink_open (mlme_out mac)" "sink_open (main_mlme s)" "sink_open (main_mcps s)"
    and "hm_wf (queues (mac_data_service mac))"
    and "UniqueKey_new n \<notin># queued (queues (mac_data_service mac))"
  shows "\<exists>mac1 i s1 r q e.
    MacData_process_radio_packet bf p mac = Return mac1 \<and>
    sink_sent (mlme_out mac1) = sink_sent (mlme_out mac) @ [MlmeOutput_Indication i] \<and>
    mainloop_body fresh (MainloopInput_Mlme (MlmeOutput_Indication i)) s = Return s1 \<and>
    sink_sent (main_mlme s1) = sink_sent (main_mlme s) @ [MlmeInput_Response r] \<and>
    map_of (queues (mac_data_service (MacData_process_mlme_response sleep n r mac1)))
      (Some \<lparr>pan_id = mac_pan_id (mac_pib mac), address = Address_Extended dev\<rparr>) = Some q \<and>
    e \<in> set (entries q) \<and>
    rq_content (qe_data e) = FrameType_Command (Command_AssociationResponse
      \<lparr>ar_fast_association = ci_fast_association cap, ar_status = Ok (ShortAddress 0x4567)\<rparr>) \<and>
    rq_acknowledge_request (qe_data e) \<and> rq_indirect (qe_data e) = (\<not> ci_fast_association cap)"
proof -
  let ?i = "MlmeIndication_Associate dev cap"
  let ?r = "MlmeResponse_Associate dev (ci_fast_association cap) (Ok (Some (ShortAddress 0x4567)))"
  let ?mac = "mac\<lparr>mlme_out := (mlme_out mac)\<lparr>sink_sent := sink_sent (mlme_out mac) @ [MlmeOutput_Indication ?i]\<rparr>\<rparr>"
  let ?q = "\<lparr>rq_key = UniqueKey_new n,
     rq_destination = Some \<lparr>pan_id = mac_pan_id (mac_pib mac), address = Address_Extended dev\<rparr>,
     rq_source_mode = AddressingMode_Extended, rq_acknowledge_request = True,
     rq_indirect = (\<not> ci_fast_association cap),
     rq_content = FrameType_Command (Command_AssociationResponse
       \<lparr>ar_fast_association = ci_fast_association cap, ar_status = Ok (ShortAddress 0x4567)\<rparr>)\<rparr>"
  have packet: "MacData_process_radio_packet bf p mac = Return ?mac"
    using assms(1-6)
    by (simp add: MacData_process_radio_packet_def ManagementService_process_frame_def
        ManagementService_process_frame_association_request_def MacData_send_mlme_def Sink_send_def
        DataService_process_frame_def)
  obtain s1 where "mainloop_body fresh (MainloopInput_Mlme (MlmeOutput_Indication ?i)) s = Return s1"
    "sink_sent (main_mlme s1) = sink_sent (main_mlme s) @ [MlmeInput_Response ?r]"
    using assms(7,8) by (simp add: Let_def send_response_def send_mcps_request_def Sink_send_def)
  moreover have "mac_data_service (MacData_process_mlme_response sleep n ?r ?mac) =
      DataService_insert sleep (mac_pib mac) ?q (mac_data_service mac)"
    by (simp add: MacData_process_mlme_response_def ManagementService_process_mlme_associate_response_def)
  moreover obtain q e where "map_of (queues (DataService_insert sleep (mac_pib mac) ?q (mac_data_service mac)))
      (rq_destination ?q) = Some q" "e \<in> set (entries q)" "qe_data e = ?q"
    using inserted_entry [OF assms(9), of ?q sleep "mac_pib mac"] assms(10) by auto
  ultimately show ?thesis
    using packet by (intro exI [of _ ?mac] exI [of _ ?i] exI [of _ s1] exI [of _ ?r] exI [of _ q] exI [of _ e]) simp
qed

theorem association_is_answered_witness:
  "\<exists>mac1 i r q e. MacData_process_radio_packet bitfield_impl join_packet joining_mac = Return mac1 \<and>
    sink_sent (mlme_out mac1) = [MlmeOutput_Indication i] \<and>
    map_of (queues (mac_data_service (MacData_process_mlme_response (\<lambda>_. SleepFuture 0) 1 r mac1)))
      (Some \<lparr>pan_id = PANID 0x1234, address = Address_Extended (ExtendedAddress 0x0807060504030201)\<rparr>) = Some q \<and>
    e \<in> set (entries q) \<and>
    rq_content (qe_data e) = FrameType_Command (Command_AssociationResponse
      \<lparr>ar_fast_association = False, ar_status = Ok (ShortAddress 0x4567)\<rparr>)"
proof -
  let ?open = "\<lparr>main_mlme = \<lparr>sink_open = True, sink_sent = []\<rparr>, main_mcps = \<lparr>sink_open = True, sink_sent = []\<rparr>\<rparr>"
  let ?cap = "\<lparr>device_type = RFD, power_source = Battery, receiver_on_when_idle = False,
      ci_fast_association = False, security_capable = False, allocate_address = True\<rparr>"
  have "frame_type join_frame = FrameType_Command (Command_AssociationRequest ?cap)"
    "destination join_frame = Some (PIB_get_full_short_address (mac_pib joining_mac))"
    "source join_frame = Some \<lparr>pan_id = PANID 0xFFFF, address = Address_Extended (ExtendedAddress 0x0807060504030201)\<rparr>"
    "mac_association_permit (mac_pib joining_mac)"
    "sink_open (mlme_out joining_mac)" "sink_open (main_mlme ?open)" "sink_open (main_mcps ?open)"
    "hm_wf (queues (mac_data_service joining_mac))"
    "UniqueKey_new 1 \<notin># queued (queues (mac_data_service joining_mac))"
    by (simp_all add: join_frame_def joining_mac_def demo_mac_def PIB_get_full_short_address_def
        DataService_new_def queued_def hm_wf_def ShortAddress_none_assigned_def)
  note answered = association_is_answered [OF join_frame_unpacked this, of 0 "\<lambda>_. SleepFuture 0"]
  have "sink_sent (mlme_out joining_mac) = []" "mac_pan_id (mac_pib joining_mac) = PANID 0x1234"
    by (simp_all add: joining_mac_def demo_mac_def)
  with answered show ?thesis by fastforce
qed

end
