(* ===== verification/Mru_Set.thy ===== *)
theory Mru_Set
  imports Frame
begin

text \<open>
  The set of most recently used values of the earlier stack (\<^verbatim>\<open>old_src/mru_set.rs\<close>), a doubly
  linked list kept in two hash maps of which the newest values own the slots of the radio, and
  the pair of such sets for addresses (\<^verbatim>\<open>old_src/ieee802154/mac/mru_address_set.rs\<close>).
\<close>

section \<open>Definitions\<close>

record 'a mru_set =
  mru_entries :: "'a set"
  assigned_slots :: "'a \<rightharpoonup> usize"
  link_newer :: "'a \<rightharpoonup> 'a"
  link_older :: "'a \<rightharpoonup> 'a"
  newest :: "'a option"
  oldest_slotted :: "'a option"
  free_slots :: "usize list"

datatype 'a mru_set_action = MRUSetAction_None | MRUSetAction_ClearSlot usize | MRUSetAction_SetSlot usize 'a

definition insert_or_remove :: "'k \<Rightarrow> 'v option \<Rightarrow> ('k \<rightharpoonup> 'v) \<Rightarrow> 'v option \<times> ('k \<rightharpoonup> 'v)" where
  "insert_or_remove key val self = (self key, self(key := val))"

definition assert_that :: "bool \<Rightarrow> unit outcome" where
  "assert_that b = (if b then Return () else Panic)"

definition MRUSet_new :: "usize \<Rightarrow> 'a mru_set outcome" where
  "MRUSet_new num_slots =
     bind_outcome (assert_that (num_slots \<noteq> 0)) (\<lambda>_. Return
       \<lparr>mru_entries = {}, assigned_slots = Map.empty, link_newer = Map.empty, link_older = Map.empty,
        newest = None, oldest_slotted = None, free_slots = [0..<num_slots]\<rparr>)"

definition MRUSet_contains :: "'a mru_set \<Rightarrow> 'a \<Rightarrow> bool" where
  "MRUSet_contains self item \<longleftrightarrow> item \<in> mru_entries self"

definition MRUSet_unlink :: "'a \<Rightarrow> 'a mru_set \<Rightarrow> 'a mru_set outcome" where
  "MRUSet_unlink item self =
     (let newer = link_newer self item;
          self = self\<lparr>link_newer := (link_newer self)(item := None)\<rparr>;
          older = link_older self item;
          self = self\<lparr>link_older := (link_older self)(item := None)\<rparr>
      in bind_outcome
          (case newer of
             Some n \<Rightarrow>
               (case insert_or_remove n older (link_older self) of
                  (old, links) \<Rightarrow> bind_outcome (assert_that (old = Some item)) (\<lambda>_.
                    Return (self\<lparr>link_older := links\<rparr>)))
           | None \<Rightarrow> Return self) (\<lambda>self.
         bind_outcome
          (case older of
             Some n \<Rightarrow>
               (case insert_or_remove n newer (link_newer self) of
                  (old, links) \<Rightarrow> bind_outcome (assert_that (old = Some item)) (\<lambda>_.
                    Return (self\<lparr>link_newer := links\<rparr>)))
           | None \<Rightarrow> Return self) (\<lambda>self.
         let self = (if newest self = Some item then self\<lparr>newest := older\<rparr> else self);
             self = (if oldest_slotted self = Some item then self\<lparr>oldest_slotted := newer\<rparr> else self)
         in Return self)))"

definition MRUSet_link_as_newest :: "'a \<Rightarrow> 'a mru_set \<Rightarrow> 'a mru_set outcome" where
  "MRUSet_link_as_newest item self =
     (let second_newest = newest self;
          self = self\<lparr>newest := Some item\<rparr>
      in bind_outcome
          (case second_newest of
             Some second \<Rightarrow> bind_outcome (assert_that (link_newer self second = None)) (\<lambda>_.
               Return (self\<lparr>link_newer := (link_newer self)(second \<mapsto> item)\<rparr>))
           | None \<Rightarrow> Return self) (\<lambda>self.
         case insert_or_remove item second_newest (link_older self) of
           (old, links) \<Rightarrow> bind_outcome (assert_that (old = None)) (\<lambda>_.
             let self = self\<lparr>link_older := links\<rparr>
             in Return (if oldest_slotted self = None then self\<lparr>oldest_slotted := Some item\<rparr> else self))))"

definition MRUSet_take_oldest_slot :: "'a mru_set \<Rightarrow> usize option \<times> 'a mru_set" where
  "MRUSet_take_oldest_slot self =
     (case free_slots self of
        slot # rest \<Rightarrow> (Some slot, self\<lparr>free_slots := rest\<rparr>)
      | [] \<Rightarrow>
          (case oldest_slotted self of
             None \<Rightarrow> (None, self)
           | Some oldest \<Rightarrow>
               (assigned_slots self oldest,
                self\<lparr>oldest_slotted := link_newer self oldest,
                     assigned_slots := (assigned_slots self)(oldest := None)\<rparr>)))"

definition MRUSet_has_slot :: "'a mru_set \<Rightarrow> 'a \<Rightarrow> usize option" where
  "MRUSet_has_slot self item = assigned_slots self item"

definition MRUSet_insert :: "'a \<Rightarrow> 'a mru_set \<Rightarrow> ('a mru_set_action \<times> 'a mru_set) outcome" where
  "MRUSet_insert item self =
     (if newest self = Some item then Return (MRUSetAction_None, self)
      else
        bind_outcome (MRUSet_unlink item (self\<lparr>mru_entries := insert item (mru_entries self)\<rparr>)) (\<lambda>self.
        bind_outcome
          (case assigned_slots self item of
             Some slot \<Rightarrow>
               Return (MRUSetAction_None, slot, self\<lparr>assigned_slots := (assigned_slots self)(item := None)\<rparr>)
           | None \<Rightarrow>
               (case MRUSet_take_oldest_slot self of
                  (Some slot, self) \<Rightarrow> Return (MRUSetAction_SetSlot slot item, slot, self)
                | (None, self) \<Rightarrow> Panic)) (\<lambda>(retval, slot, self).
        bind_outcome (MRUSet_link_as_newest item
            (self\<lparr>assigned_slots := (assigned_slots self)(item \<mapsto> slot)\<rparr>)) (\<lambda>self.
        Return (retval, self)))))"

definition MRUSet_reassign_slot :: "usize \<Rightarrow> 'a mru_set \<Rightarrow> 'a option \<times> 'a mru_set" where
  "MRUSet_reassign_slot slot self =
     (case Option.bind (oldest_slotted self) (link_older self) of
        Some next_in_line \<Rightarrow>
          (Some next_in_line,
           self\<lparr>assigned_slots := (assigned_slots self)(next_in_line \<mapsto> slot),
                oldest_slotted := Some next_in_line\<rparr>)
      | None \<Rightarrow> (None, self\<lparr>free_slots := free_slots self @ [slot]\<rparr>))"

definition MRUSet_remove :: "'a \<Rightarrow> 'a mru_set \<Rightarrow> ('a mru_set_action \<times> 'a mru_set) outcome" where
  "MRUSet_remove item self =
     bind_outcome (MRUSet_unlink item self) (\<lambda>self.
       let self = self\<lparr>mru_entries := mru_entries self - {item}\<rparr>
       in case assigned_slots self item of
            Some slot \<Rightarrow>
              (case MRUSet_reassign_slot slot (self\<lparr>assigned_slots := (assigned_slots self)(item := None)\<rparr>) of
                 (Some new_item, self) \<Rightarrow> Return (MRUSetAction_SetSlot slot new_item, self)
               | (None, self) \<Rightarrow> Return (MRUSetAction_ClearSlot slot, self))
          | None \<Rightarrow> Return (MRUSetAction_None, self))"

definition MRUSet_len :: "'a mru_set \<Rightarrow> usize" where
  "MRUSet_len self = card (mru_entries self)"

subsection \<open>The sets of addresses\<close>

datatype address_specification =
    AddressSpecification_None
  | AddressSpecification_Short panid short_address
  | AddressSpecification_Extended panid extended_address

datatype mru_address_set_action =
    MRUAddressSetAction_None
  | MRUAddressSetAction_SetShortSlot usize "(panid \<times> short_address) option"
  | MRUAddressSetAction_SetExtendedSlot usize "extended_address option"

fun MRUAddressSetAction_from_short :: "(panid \<times> short_address) mru_set_action \<Rightarrow> mru_address_set_action" where
  "MRUAddressSetAction_from_short MRUSetAction_None = MRUAddressSetAction_None"
| "MRUAddressSetAction_from_short (MRUSetAction_SetSlot slot addr) =
     MRUAddressSetAction_SetShortSlot slot (Some addr)"
| "MRUAddressSetAction_from_short (MRUSetAction_ClearSlot slot) = MRUAddressSetAction_SetShortSlot slot None"

fun MRUAddressSetAction_from_extended :: "extended_address mru_set_action \<Rightarrow> mru_address_set_action" where
  "MRUAddressSetAction_from_extended MRUSetAction_None = MRUAddressSetAction_None"
| "MRUAddressSetAction_from_extended (MRUSetAction_SetSlot slot addr) =
     MRUAddressSetAction_SetExtendedSlot slot (Some addr)"
| "MRUAddressSetAction_from_extended (MRUSetAction_ClearSlot slot) =
     MRUAddressSetAction_SetExtendedSlot slot None"

record mru_address_set =
  mru_short :: "(panid \<times> short_address) mru_set"
  mru_extended :: "extended_address mru_set"

definition MRUAddressSet_new :: "usize \<Rightarrow> usize \<Rightarrow> mru_address_set outcome" where
  "MRUAddressSet_new num_short_slots num_extended_slots =
     bind_outcome (MRUSet_new num_short_slots) (\<lambda>short.
     bind_outcome (MRUSet_new num_extended_slots) (\<lambda>extended.
     Return \<lparr>mru_short = short, mru_extended = extended\<rparr>))"

fun MRUAddressSet_contains :: "mru_address_set \<Rightarrow> address_specification \<Rightarrow> bool" where
  "MRUAddressSet_contains self AddressSpecification_None = False"
| "MRUAddressSet_contains self (AddressSpecification_Short pan addr) =
     MRUSet_contains (mru_short self) (pan, addr)"
| "MRUAddressSet_contains self (AddressSpecification_Extended _ addr) =
     MRUSet_contains (mru_extended self) addr"

fun MRUAddressSet_insert :: "address_specification \<Rightarrow> mru_address_set \<Rightarrow>
    (mru_address_set_action \<times> mru_address_set) outcome" where
  "MRUAddressSet_insert AddressSpecification_None self = Return (MRUAddressSetAction_None, self)"
| "MRUAddressSet_insert (AddressSpecification_Short pan addr) self =
     bind_outcome (MRUSet_insert (pan, addr) (mru_short self)) (\<lambda>(action, short).
       Return (MRUAddressSetAction_from_short action, self\<lparr>mru_short := short\<rparr>))"
| "MRUAddressSet_insert (AddressSpecification_Extended _ addr) self =
     bind_outcome (MRUSet_insert addr (mru_extended self)) (\<lambda>(action, extended).
       Return (MRUAddressSetAction_from_extended action, self\<lparr>mru_extended := extended\<rparr>))"

fun MRUAddressSet_remove :: "address_specification \<Rightarrow> mru_address_set \<Rightarrow>
    (mru_address_set_action \<times> mru_address_set) outcome" where
  "MRUAddressSet_remove AddressSpecification_None self = Return (MRUAddressSetAction_None, self)"
| "MRUAddressSet_remove (AddressSpecification_Short pan addr) self =
     bind_outcome (MRUSet_remove (pan, addr) (mru_short self)) (\<lambda>(action, short).
       Return (MRUAddressSetAction_from_short action, self\<lparr>mru_short := short\<rparr>))"
| "MRUAddressSet_remove (AddressSpecification_Extended _ addr) self =
     bind_outcome (MRUSet_remove addr (mru_extended self)) (\<lambda>(action, extended).
       Return (MRUAddressSetAction_from_extended action, self\<lparr>mru_extended := extended\<rparr>))"

definition MRUAddressSet_len :: "mru_address_set \<Rightarrow> usize" where
  "MRUAddressSet_len self = MRUSet_len (mru_short self) + MRUSet_len (mru_extended self)"

section \<open>Chains\<close>

text \<open>The successor of each element of a list of distinct values.\<close>

definition first :: "'a list \<Rightarrow> 'a option" where
  "first xs = (case xs of [] \<Rightarrow> None | x # _ \<Rightarrow> Some x)"

definition chain :: "'a list \<Rightarrow> 'a \<rightharpoonup> 'a" where
  "chain xs = map_of (zip xs (tl xs))"

lemma first_simps [simp]:
  "first [] = None" "first (x # xs) = Some x" "first xs = None \<longleftrightarrow> xs = []"
  by (auto simp: first_def split: list.splits)

lemma first_append: "first (xs @ ys) = (if xs = [] then first ys else first xs)"
  by (cases xs) simp_all

lemma first_rev: "xs \<noteq> [] \<Longrightarrow> first (rev xs) = Some (last xs)"
  by (cases xs rule: rev_cases) simp_all

lemma first_SomeD: "first xs = Some x \<Longrightarrow> x \<in> set xs"
  by (cases xs) simp_all

lemma chain_Nil [simp]: "chain [] = Map.empty"
  by (simp add: chain_def)

lemma chain_outside [simp]: "x \<notin> set xs \<Longrightarrow> chain xs x = None"
  by (auto simp: chain_def map_of_eq_None_iff dest: set_zip_leftD)

lemma chain_Cons: "x \<notin> set xs \<Longrightarrow> chain (x # xs) = (chain xs)(x := first xs)"
  by (cases xs) (auto simp: chain_def)

lemma chain_at: "distinct (xs @ x # ys) \<Longrightarrow> chain (xs @ x # ys) x = first ys"
  by (induction xs) (auto simp: chain_Cons)

lemma chain_unlink:
  "distinct (xs @ x # ys) \<Longrightarrow> chain (xs @ ys) =
    (case first (rev xs) of
       None \<Rightarrow> (chain (xs @ x # ys))(x := None)
     | Some n \<Rightarrow> (chain (xs @ x # ys))(x := None, n := first ys))"
proof (induction xs)
  case Nil
  then show ?case by (auto simp: chain_Cons)
next
  case (Cons a xs)
  show ?case
  proof (cases xs)
    case Nil
    then show ?thesis using Cons.prems by (auto simp: chain_Cons fun_upd_twist)
  next
    case (Cons b xs')
    then have "xs \<noteq> []" by simp
    then obtain n where n: "first (rev xs) = Some n" "n \<in> set xs" by (simp add: first_rev)
    with Cons.IH Cons.prems have "chain (xs @ ys) = (chain (xs @ x # ys))(x := None, n := first ys)"
      by (simp add: fun_eq_iff)
    moreover have "chain ((a # xs) @ zs) = (chain (xs @ zs))(a := first xs)" if "a \<notin> set (xs @ zs)" for zs
      using that \<open>xs \<noteq> []\<close> by (simp add: chain_Cons first_append)
    moreover have "first (rev (a # xs)) = Some n" "a \<noteq> n" using n \<open>xs \<noteq> []\<close> Cons.prems by (auto simp: first_append)
    ultimately show ?thesis using Cons.prems by (simp add: fun_eq_iff)
  qed
qed

lemma chain_last_None: "distinct xs \<Longrightarrow> xs \<noteq> [] \<Longrightarrow> chain xs (last xs) = None"
  using chain_at [of "butlast xs" "last xs" "[]"] by simp

lemma chain_before: "distinct (xs @ x # ys) \<Longrightarrow> first (rev xs) = Some n \<Longrightarrow> chain (xs @ x # ys) n = Some x"
  using chain_at [of "butlast xs" "last xs" "x # ys"] by (cases xs rule: rev_cases) auto

lemma chain_snoc:
  assumes "distinct (xs @ [x])"
  shows "chain (xs @ [x]) = (case first (rev xs) of None \<Rightarrow> Map.empty | Some n \<Rightarrow> (chain xs)(n \<mapsto> x))"
proof (cases "first (rev xs)")
  case (Some n)
  have "chain xs = (chain (xs @ [x]))(x := None, n := None)"
    using chain_unlink [OF assms] Some by simp
  moreover have "chain (xs @ [x]) n = Some x" "chain (xs @ [x]) x = None"
    using chain_before [OF assms Some] chain_at [OF assms] by simp_all
  ultimately show ?thesis using Some by auto
qed (simp add: chain_def)

section \<open>The linked list\<close>

definition linked :: "'a list \<Rightarrow> 'a mru_set \<Rightarrow> bool" where
  "linked l self \<longleftrightarrow> distinct l \<and> link_older self = chain l \<and> link_newer self = chain (rev l) \<and>
     newest self = first l"

lemma unlink_correct:
  assumes "linked l self"
  shows "MRUSet_unlink x self = Return (self
    \<lparr>link_older := chain (removeAll x l), link_newer := chain (rev (removeAll x l)),
     newest := first (removeAll x l),
     oldest_slotted := if oldest_slotted self = Some x then chain (rev l) x else oldest_slotted self\<rparr>)"
proof (cases "x \<in> set l")
  case False
  then have "first l \<noteq> Some x" "chain l x = None" "chain (rev l) x = None" by (auto dest: first_SomeD)
  then show ?thesis
    using assms False by (cases self) (auto simp: MRUSet_unlink_def linked_def Let_def)
next
  case True
  then obtain xs ys where l: "l = xs @ x # ys" by (auto simp: in_set_conv_decomp)
  have d: "distinct (xs @ x # ys)" "distinct (rev ys @ x # rev xs)" using assms l by (auto simp: linked_def)
  then have rem: "removeAll x l = xs @ ys" using l by simp
  note at = chain_at [OF d(1)] chain_at [OF d(2)]
  note before = chain_before [OF d(1)] chain_before [OF d(2)]
  note unlink = chain_unlink [OF d(1)] chain_unlink [OF d(2)]
  have new: "first l = Some x \<longleftrightarrow> xs = []" using d(1) l by (cases xs) auto
  have diff: "first (rev xs) = Some n \<Longrightarrow> n \<noteq> x" "first ys = Some n \<Longrightarrow> n \<noteq> x" for n
    using d(1) by (auto dest!: first_SomeD)
  have newer: "chain (rev l) x = first (rev xs)" and older: "chain l x = first ys"
    using at l by simp_all
  have older_links: "(case first (rev xs) of None \<Rightarrow> (chain l)(x := None)
      | Some n \<Rightarrow> (chain l)(x := None, n := first ys)) = chain (xs @ ys)"
    unfolding l by (rule unlink(1) [symmetric])
  have newer_links: "(case first ys of None \<Rightarrow> (chain (rev l))(x := None)
      | Some n \<Rightarrow> (chain (rev l))(x := None, n := first (rev xs))) = chain (rev (xs @ ys))"
    unfolding l rev_append rev.simps append.assoc append.simps using unlink(2) [symmetric] by simp
  have asserted: "first (rev xs) = Some n \<Longrightarrow> ((chain l)(x := None)) n = Some x"
    "first ys = Some n \<Longrightarrow> ((chain (rev l))(x := None)) n = Some x" for n
    using before diff l by simp_all
  have newest: "(if first l = Some x then first ys else first l) = first (xs @ ys)"
    using new l by (simp add: first_append)
  obtain en as ln lo nw os fs where self: "self = \<lparr>mru_entries = en, assigned_slots = as, link_newer = ln,
      link_older = lo, newest = nw, oldest_slotted = os, free_slots = fs\<rparr>" by (cases self)
  have links: "lo = chain l" "ln = chain (rev l)" "nw = first l" using assms self by (simp_all add: linked_def)
  show ?thesis
    unfolding self links MRUSet_unlink_def rem newest [symmetric] older_links [symmetric] newer_links [symmetric]
    using asserted
    by (cases "first (rev xs)"; cases "first ys")
      (simp_all add: Let_def newer older insert_or_remove_def assert_that_def del: fun_upd_apply)
qed

lemma link_as_newest_correct:
  assumes "linked l self" "x \<notin> set l"
  shows "MRUSet_link_as_newest x self = Return (self
    \<lparr>link_older := chain (x # l), link_newer := chain (rev (x # l)), newest := Some x,
     oldest_slotted := if oldest_slotted self = None then Some x else oldest_slotted self\<rparr>)"
proof -
  have d: "distinct (rev l @ [x])" using assms by (simp add: linked_def)
  show ?thesis
  proof (cases l)
    case Nil
    then show ?thesis
      using assms by (cases self) (auto simp: MRUSet_link_as_newest_def linked_def Let_def insert_or_remove_def
          assert_that_def chain_Cons)
  next
    case (Cons y ys)
    have "chain (rev l) y = None" using chain_last_None [of "rev l"] d Cons by simp
    moreover have "chain (rev l @ [x]) = (chain (rev l))(y \<mapsto> x)" using chain_snoc [OF d] Cons by simp
    ultimately show ?thesis
      using assms Cons chain_Cons [OF assms(2)]
      by (cases self) (auto simp: MRUSet_link_as_newest_def linked_def Let_def insert_or_remove_def assert_that_def)
  qed
qed

section \<open>The slots\<close>

text \<open>\<open>slots\<close> is what the radio holds, \<open>l\<close> the values from the newest to the oldest.\<close>

definition mutual :: "('a \<rightharpoonup> 'b) \<Rightarrow> ('b \<rightharpoonup> 'a) \<Rightarrow> bool" where
  "mutual f g \<longleftrightarrow> (\<forall>x y. f x = Some y \<longleftrightarrow> g y = Some x)"

lemma mutualD: "mutual f g \<Longrightarrow> f x = Some y \<longleftrightarrow> g y = Some x"
  by (simp add: mutual_def)

lemma mutual_link: "mutual f g \<Longrightarrow> f x = None \<Longrightarrow> g y = None \<Longrightarrow> mutual (f(x \<mapsto> y)) (g(y \<mapsto> x))"
  by (auto simp: mutual_def) (metis option.distinct(1))+

lemma mutual_cut: "mutual f g \<Longrightarrow> f x = Some y \<Longrightarrow> mutual (f(x := None)) (g(y := None))"
  by (auto simp: mutual_def) (metis option.inject)+

lemma mutual_relink:
  assumes "mutual f g" "f x = Some y" "f z = None"
  shows "mutual (f(x := None, z \<mapsto> y)) (g(y \<mapsto> z))"
  using mutual_link [OF mutual_cut [OF assms(1,2)], of z y] assms(2,3) by simp

definition slot_ok :: "usize \<Rightarrow> 'a list \<Rightarrow> (usize \<rightharpoonup> 'a) \<Rightarrow> ('a \<rightharpoonup> usize) \<Rightarrow> usize list \<Rightarrow> bool" where
  "slot_ok n l slots assigned free \<longleftrightarrow> mutual assigned slots \<and>
     dom assigned = set (take n l) \<and> distinct free \<and> set free = {s. s < n \<and> slots s = None} \<and>
     dom slots \<subseteq> {..<n} \<and> length free = n - length l"

definition mru_inv :: "usize \<Rightarrow> 'a list \<Rightarrow> (usize \<rightharpoonup> 'a) \<Rightarrow> 'a mru_set \<Rightarrow> bool" where
  "mru_inv n l slots self \<longleftrightarrow> linked l self \<and> mru_entries self = set l \<and>
     oldest_slotted self = first (rev (take n l)) \<and> slot_ok n l slots (assigned_slots self) (free_slots self)"

fun apply_action :: "'a mru_set_action \<Rightarrow> (usize \<rightharpoonup> 'a) \<Rightarrow> (usize \<rightharpoonup> 'a)" where
  "apply_action MRUSetAction_None slots = slots"
| "apply_action (MRUSetAction_ClearSlot s) slots = slots(s := None)"
| "apply_action (MRUSetAction_SetSlot s x) slots = slots(s \<mapsto> x)"

lemma take_removeAll_inside:
  assumes "distinct l" "x \<in> set (take n l)"
  shows "take (n - 1) (removeAll x l) = removeAll x (take n l)"
proof -
  obtain xs ys where l: "l = xs @ x # ys" using assms(2) by (meson in_set_takeD split_list)
  then have "length xs < n" using assms by (auto simp: take_Cons' split: if_splits dest: in_set_takeD)
  moreover have "removeAll x (take m xs) = take m xs" "removeAll x (take m ys) = take m ys" for m
    using assms(1) l by (auto intro!: removeAll_id dest: in_set_takeD)
  ultimately show ?thesis using assms(1) l by (simp add: take_Cons')
qed

lemma take_removeAll_outside:
  assumes "distinct l" "x \<notin> set (take n l)"
  shows "take n (removeAll x l) = take n l"
proof (cases "x \<in> set l")
  case True
  then obtain xs ys where l: "l = xs @ x # ys" by (auto simp: in_set_conv_decomp)
  then have "n \<le> length xs" using assms(2) by (auto simp: take_Cons' split: if_splits)
  then show ?thesis using assms(1) l by simp
qed (simp add: removeAll_id)

text \<open>The oldest value with a slot after one of them is unlinked.\<close>

lemma oldest_after_unlink:
  assumes "distinct l" "x \<in> set (take n l)"
  shows "(if first (rev (take n l)) = Some x then chain (rev l) x else first (rev (take n l))) =
    first (rev (take (n - 1) (removeAll x l)))"
proof -
  obtain xs ys where t: "take n l = xs @ x # ys" using assms(2) by (auto simp: in_set_conv_decomp)
  have d: "distinct (xs @ x # ys)" using assms(1) t distinct_take by metis
  have "rev l = rev (ys @ drop n l) @ x # rev xs"
    using append_take_drop_id [of n l] t by (metis append.assoc append_Cons rev.simps(2) rev_append append_Nil)
  then have "chain (rev l) x = first (rev xs)" using chain_at [of "rev (ys @ drop n l)" x "rev xs"] assms(1)
    by (metis distinct_rev)
  moreover have "removeAll x (take n l) = xs @ ys" using d t by simp
  ultimately show ?thesis
    using t d take_removeAll_inside [OF assms]
    by (cases ys rule: rev_cases) (auto simp: first_append)
qed

lemma Suc_length_removeAll: "distinct xs \<Longrightarrow> x \<in> set xs \<Longrightarrow> Suc (length (removeAll x xs)) = length xs"
  by (induction xs) auto

lemma slot_ok_fields:
  assumes "slot_ok n l slots assigned free"
  shows "mutual assigned slots" "x \<in> set (take n l) \<longleftrightarrow> assigned x \<noteq> None"
    "s \<in> set free \<longleftrightarrow> s < n \<and> slots s = None" "assigned x = Some s \<Longrightarrow> s < n \<and> slots s = Some x"
    "length free = n - length l"
  using assms by (auto simp: slot_ok_def mutualD dest: subsetD [OF _ domI])

text \<open>A value with a slot becomes the newest.\<close>

lemma slot_ok_move:
  assumes "slot_ok n l slots assigned free" "distinct l" "assigned x = Some s"
  shows "slot_ok n (x # removeAll x l) slots assigned free"
proof -
  have x: "x \<in> set (take n l)" using slot_ok_fields(2) [OF assms(1)] assms(3) by simp
  then have "n > 0" "x \<in> set l" by (auto dest: in_set_takeD intro: ccontr)
  then have "take n (x # removeAll x l) = x # removeAll x (take n l)"
    using take_removeAll_inside [OF assms(2) x] by (simp add: take_Cons')
  then have "set (take n (x # removeAll x l)) = set (take n l)" using x by auto
  moreover have "length (x # removeAll x l) = length l"
    using Suc_length_removeAll [OF assms(2) \<open>x \<in> set l\<close>] by simp
  ultimately show ?thesis using assms(1) by (simp add: slot_ok_def)
qed

text \<open>A new value takes a free slot, or that of the oldest value that has one.\<close>

lemma slot_ok_fill:
  assumes "slot_ok n l slots assigned (s # free)" "x \<notin> set l"
  shows "slot_ok n (x # l) (slots(s \<mapsto> x)) (assigned(x \<mapsto> s)) free"
proof -
  have len: "length l < n" using slot_ok_fields(5) [OF assms(1)] by simp
  have s: "s < n" "slots s = None" using slot_ok_fields(3) [OF assms(1), of s] by simp_all
  have x: "assigned x = None" using slot_ok_fields(2) [OF assms(1), of x] assms(2) by (auto dest: in_set_takeD)
  have "mutual (assigned(x \<mapsto> s)) (slots(s \<mapsto> x))"
    by (rule mutual_link [OF slot_ok_fields(1) [OF assms(1)] x s(2)])
  then show ?thesis using assms(1) len s unfolding slot_ok_def by (auto simp: take_Cons')
qed

lemma slot_ok_evict:
  assumes "slot_ok n (xs @ old # ys) slots assigned []" "length xs + 1 = n" "distinct (xs @ old # ys)"
    "assigned old = Some s" "x \<notin> set (xs @ [old])"
  shows "slot_ok n (x # removeAll x (xs @ old # ys)) (slots(s \<mapsto> x)) (assigned(old := None, x \<mapsto> s)) []"
proof -
  have take: "take n (xs @ old # ys) = xs @ [old]" using assms(2) by auto
  then have dom: "dom assigned = insert old (set xs)" using assms(1) by (simp add: slot_ok_def)
  then have "assigned x = None" using assms(5) by auto
  then have "mutual (assigned(old := None, x \<mapsto> s)) (slots(s \<mapsto> x))"
    by (rule mutual_relink [OF slot_ok_fields(1) [OF assms(1)] assms(4)])
  moreover have "s < n" using slot_ok_fields(4) [OF assms(1,4)] by simp
  moreover have "take n (x # removeAll x (xs @ old # ys)) = x # xs" using assms(2,5) by (auto simp: take_Cons')
  moreover have "dom (assigned(old := None, x \<mapsto> s)) = set (x # xs)" using dom assms(3,5) by auto
  ultimately show ?thesis using assms(1,2,5) unfolding slot_ok_def by auto
qed

text \<open>A value is removed: its slot goes to the newest value without one, if there is one.\<close>

lemma slot_ok_forget:
  assumes "slot_ok n l slots assigned free" "distinct l" "assigned x = None"
  shows "slot_ok n (removeAll x l) slots assigned free"
proof (cases "x \<in> set l")
  case True
  have x: "x \<notin> set (take n l)" using slot_ok_fields(2) [OF assms(1)] assms(3) by simp
  then have "n < length l" using True by (metis leI take_all)
  then show ?thesis
    using assms(1) take_removeAll_outside [OF assms(2) x] Suc_length_removeAll [OF assms(2) True]
    unfolding slot_ok_def by auto
qed (use assms(1) in \<open>simp add: removeAll_id\<close>)

lemma slot_ok_release:
  assumes "slot_ok n l slots assigned free" "distinct l" "assigned x = Some s" "length l \<le> n"
  shows "slot_ok n (removeAll x l) (slots(s := None)) (assigned(x := None)) (free @ [s])"
proof -
  have x: "x \<in> set l" using slot_ok_fields(2) [OF assms(1), of x] assms(3) by (auto dest: in_set_takeD)
  have s: "s < n" "slots s = Some x" using slot_ok_fields(4) [OF assms(1,3)] by simp_all
  have "mutual (assigned(x := None)) (slots(s := None))"
    by (rule mutual_cut [OF slot_ok_fields(1) [OF assms(1)] assms(3)])
  moreover have "s \<notin> set free" using slot_ok_fields(3) [OF assms(1)] s by simp
  moreover have "length (removeAll x l) + 1 = length l"
    using Suc_length_removeAll [OF assms(2) x] by simp
  ultimately show ?thesis using assms(1,4) s unfolding slot_ok_def by auto
qed

lemma slot_ok_pass:
  assumes "slot_ok n l slots assigned free" "distinct l" "assigned x = Some s"
    "removeAll x l = xs @ y # ys" "length xs + 1 = n"
  shows "slot_ok n (removeAll x l) (slots(s \<mapsto> y)) (assigned(x := None, y \<mapsto> s)) free"
proof -
  have x: "x \<in> set (take n l)" using slot_ok_fields(2) [OF assms(1), of x] assms(3) by simp
  then have "removeAll x (take n l) = xs" using take_removeAll_inside [OF assms(2) x] assms(4,5) by simp
  then have dom: "set (take n l) = insert x (set xs)" "x \<notin> set xs" using x by auto
  have "distinct (xs @ y # ys)" "y \<in> set (removeAll x l)"
    using assms(2,4) by (metis distinct_removeAll, simp)
  then have y: "y \<notin> set xs" "y \<noteq> x" by auto
  then have "assigned y = None" using slot_ok_fields(2) [OF assms(1), of y] dom(1) by simp
  then have "mutual (assigned(x := None, y \<mapsto> s)) (slots(s \<mapsto> y))"
    by (rule mutual_relink [OF slot_ok_fields(1) [OF assms(1)] assms(3)])
  moreover have "s < n" using slot_ok_fields(4) [OF assms(1,3)] by simp
  moreover have "length (removeAll x l) + 1 = length l"
    using Suc_length_removeAll [OF assms(2) in_set_takeD [OF x]] by simp
  moreover have "take n (removeAll x l) = xs @ [y]" using assms(4,5) by (auto simp: take_Cons')
  moreover have "dom (assigned(x := None, y \<mapsto> s)) = set (xs @ [y])"
    using assms(1) dom y by (auto simp: slot_ok_def)
  moreover have "n \<le> length (removeAll x l)" using assms(4,5) by simp
  ultimately show ?thesis using assms(1) slot_ok_fields(4) [OF assms(1,3)] unfolding slot_ok_def by auto
qed

section \<open>The operations\<close>

text \<open>What unlinking leaves, and what the caller of \<^verbatim>\<open>link_as_newest\<close> has to provide.\<close>

definition unlinked :: "'a \<Rightarrow> 'a list \<Rightarrow> 'a mru_set \<Rightarrow> bool" where
  "unlinked x l self \<longleftrightarrow> distinct l \<and> link_older self = chain (removeAll x l) \<and>
     link_newer self = chain (rev (removeAll x l)) \<and> newest self = first (removeAll x l)"

definition ready :: "usize \<Rightarrow> 'a \<Rightarrow> 'a list \<Rightarrow> (usize \<rightharpoonup> 'a) \<Rightarrow> usize \<Rightarrow> 'a mru_set \<Rightarrow> bool" where
  "ready n x l slots s self \<longleftrightarrow> unlinked x l self \<and> mru_entries self = insert x (set l) \<and>
     oldest_slotted self = first (rev (take (n - 1) (removeAll x l))) \<and>
     slot_ok n (x # removeAll x l) slots ((assigned_slots self)(x \<mapsto> s)) (free_slots self)"

lemma unlink_unlinked:
  assumes "linked l self"
  obtains self' where "MRUSet_unlink x self = Return self'" "unlinked x l self'"
    "oldest_slotted self' = (if oldest_slotted self = Some x then chain (rev l) x else oldest_slotted self)"
    "mru_entries self' = mru_entries self" "assigned_slots self' = assigned_slots self"
    "free_slots self' = free_slots self"
  by (rule that [OF unlink_correct [OF assms, of x]]) (use assms in \<open>simp_all add: unlinked_def linked_def\<close>)

lemma link_ready:
  assumes "ready n x l slots s self" "n > 0"
  shows "\<exists>self'. MRUSet_link_as_newest x (self\<lparr>assigned_slots := (assigned_slots self)(x \<mapsto> s)\<rparr>) = Return self' \<and>
    mru_inv n (x # removeAll x l) slots self'"
proof -
  let ?self = "self\<lparr>assigned_slots := (assigned_slots self)(x \<mapsto> s)\<rparr>"
  have "linked (removeAll x l) ?self"
    using assms by (simp add: ready_def unlinked_def linked_def distinct_removeAll)
  from link_as_newest_correct [OF this, of x] show ?thesis
    using assms
    by (auto simp: mru_inv_def linked_def ready_def unlinked_def distinct_removeAll take_Cons' first_append)
qed

text \<open>The three ways in which the inserted value gets its slot.\<close>

lemma ready_move:
  assumes "mru_inv n l slots self" "assigned_slots self x = Some s" "unlinked x l u"
    "oldest_slotted u = (if oldest_slotted self = Some x then chain (rev l) x else oldest_slotted self)"
    "mru_entries u = insert x (mru_entries self)" "assigned_slots u = assigned_slots self"
    "free_slots u = free_slots self"
  shows "ready n x l slots s (u\<lparr>assigned_slots := (assigned_slots u)(x := None)\<rparr>)"
proof -
  have sl: "slot_ok n l slots (assigned_slots self) (free_slots self)" and d: "distinct l"
    using assms(1) by (auto simp: mru_inv_def linked_def)
  have "x \<in> set (take n l)" using slot_ok_fields(2) [OF sl] assms(2) by simp
  from oldest_after_unlink [OF d this]
  have "oldest_slotted u = first (rev (take (n - 1) (removeAll x l)))"
    using assms(1,4) by (simp only: mru_inv_def)
  with slot_ok_move [OF sl d assms(2)] assms show ?thesis
    by (simp add: ready_def mru_inv_def unlinked_def fun_upd_idem)
qed

lemma ready_fill:
  assumes "mru_inv n l slots self" "assigned_slots self x = None" "free_slots self = s # rest" "unlinked x l u"
    "oldest_slotted u = (if oldest_slotted self = Some x then chain (rev l) x else oldest_slotted self)"
    "mru_entries u = insert x (mru_entries self)" "assigned_slots u = assigned_slots self"
  shows "ready n x l (slots(s \<mapsto> x)) s (u\<lparr>free_slots := rest\<rparr>)"
proof -
  have sl: "slot_ok n l slots (assigned_slots self) (s # rest)" using assms(1,3) by (simp add: mru_inv_def)
  have len: "length l < n" using slot_ok_fields(5) [OF sl] by simp
  moreover from this have "x \<notin> set l" using slot_ok_fields(2) [OF sl, of x] assms(2) by simp
  moreover from this have "first (rev l) \<noteq> Some x" by (auto dest: first_SomeD)
  ultimately show ?thesis
    using slot_ok_fill [OF sl, of x] assms by (simp add: ready_def mru_inv_def unlinked_def removeAll_id)
qed

lemma oldest_split:
  assumes "n \<le> length l" "n > 0"
  obtains xs old where "take n l = xs @ [old]" "length xs + 1 = n" "l = xs @ old # drop n l"
proof -
  have "take n l = take (n - 1) l @ [l ! (n - 1)]"
    using assms take_Suc_conv_app_nth [of "n - 1" l] by simp
  moreover from this have "l = take (n - 1) l @ l ! (n - 1) # drop n l"
    using append_take_drop_id [of n l] by simp
  ultimately show thesis using assms by (intro that [of "take (n - 1) l" "l ! (n - 1)"]) simp_all
qed

lemma ready_evict:
  assumes "mru_inv n l slots self" "n > 0" "assigned_slots self x = None" "free_slots self = []" "unlinked x l u"
    "oldest_slotted u = (if oldest_slotted self = Some x then chain (rev l) x else oldest_slotted self)"
    "mru_entries u = insert x (mru_entries self)" "assigned_slots u = assigned_slots self" "free_slots u = []"
  obtains old s where "oldest_slotted u = Some old" "assigned_slots u old = Some s"
    "ready n x l (slots(s \<mapsto> x)) s
      (u\<lparr>oldest_slotted := link_newer u old, assigned_slots := (assigned_slots u)(old := None)\<rparr>)"
proof -
  have sl: "slot_ok n l slots (assigned_slots self) []" and d: "distinct l"
    and os: "oldest_slotted self = first (rev (take n l))"
    using assms(1,4) by (auto simp: mru_inv_def linked_def)
  have x: "x \<notin> set (take n l)" using slot_ok_fields(2) [OF sl] assms(3) by simp
  have len: "n \<le> length l" using slot_ok_fields(5) [OF sl] by simp
  obtain xs old where t: "take n l = xs @ [old]" "length xs + 1 = n" "l = xs @ old # drop n l"
    by (rule oldest_split [OF len assms(2)])
  then obtain s where s: "assigned_slots self old = Some s"
    using slot_ok_fields(2) [OF sl, of old] by auto
  have evict: "slot_ok n (x # removeAll x l) (slots(s \<mapsto> x)) ((assigned_slots self)(old := None, x \<mapsto> s)) []"
    using slot_ok_evict [of n xs old "drop n l" slots "assigned_slots self" s x] sl d t s x
    by (metis append_take_drop_id)
  define ys where "ys = removeAll x (drop n l)"
  have rem: "removeAll x l = xs @ old # ys"
    using x t(1) arg_cong [OF t(3), of "removeAll x"] by (auto simp: ys_def removeAll_id)
  have "distinct (rev ys @ old # rev xs)"
    using distinct_removeAll [OF d, of x] unfolding rem by auto
  from chain_at [OF this] have "link_newer u old = first (rev xs)"
    using assms(5) by (simp add: unlinked_def rem)
  moreover have "oldest_slotted u = Some old"
    using assms(6) os x t(1) by (auto simp: first_append)
  ultimately show thesis
    using that [of old s] s evict assms rem t(2) by (simp add: ready_def mru_inv_def unlinked_def)
qed

lemma MRUSet_insert_correct:
  assumes inv: "mru_inv n l slots self" and n: "n > 0"
  shows "\<exists>a self'. MRUSet_insert x self = Return (a, self') \<and>
    mru_inv n (x # removeAll x l) (apply_action a slots) self'"
proof (cases "newest self = Some x")
  case True
  then obtain t where "l = x # t" "x \<notin> set t"
    using inv by (cases l) (auto simp: mru_inv_def linked_def)
  then show ?thesis using inv True by (simp add: MRUSet_insert_def removeAll_id)
next
  case False
  let ?self = "self\<lparr>mru_entries := insert x (mru_entries self)\<rparr>"
  have "linked l ?self" using inv by (simp add: mru_inv_def linked_def)
  then obtain u where "MRUSet_unlink x ?self = Return u" "unlinked x l u"
    "oldest_slotted u = (if oldest_slotted ?self = Some x then chain (rev l) x else oldest_slotted ?self)"
    "mru_entries u = mru_entries ?self" "assigned_slots u = assigned_slots ?self"
    "free_slots u = free_slots ?self" by (rule unlink_unlinked)
  then have u: "MRUSet_unlink x ?self = Return u" "unlinked x l u"
    "oldest_slotted u = (if oldest_slotted self = Some x then chain (rev l) x else oldest_slotted self)"
    "mru_entries u = insert x (mru_entries self)" "assigned_slots u = assigned_slots self"
    "free_slots u = free_slots self" by simp_all
  note ins = MRUSet_insert_def [of x self] False u(1)
  show ?thesis
  proof (cases "assigned_slots self x")
    case (Some s)
    from link_ready [OF ready_move [OF inv Some u(2-6)] n] Some u(5) show ?thesis
      by (auto simp: ins)
  next
    case None
    show ?thesis
    proof (cases "free_slots self")
      case (Cons s rest)
      from link_ready [OF ready_fill [OF inv None Cons u(2-5)] n] None Cons u(5,6) show ?thesis
        by (auto simp: ins MRUSet_take_oldest_slot_def)
    next
      case Nil
      then have "free_slots u = []" using u(6) by simp
      then obtain old s where e: "oldest_slotted u = Some old" "assigned_slots u old = Some s"
        "ready n x l (slots(s \<mapsto> x)) s
          (u\<lparr>oldest_slotted := link_newer u old, assigned_slots := (assigned_slots u)(old := None)\<rparr>)"
        by (rule ready_evict [OF inv n None Nil u(2-5)])
      from link_ready [OF e(3) n] e(1,2) None u(5) \<open>free_slots u = []\<close> show ?thesis
        by (auto simp: ins MRUSet_take_oldest_slot_def)
    qed
  qed
qed

lemma removed_oldest:
  assumes "distinct l" "l \<noteq> [] \<Longrightarrow> k > 0"
  shows "Option.bind (first (rev (take k l))) (chain l) = first (drop k l)"
proof (cases "l = []")
  case False
  with assms(2) have k: "k > 0" by simp
  then obtain xs y where t: "take k l = xs @ [y]" using False by (cases "take k l" rule: rev_cases) auto
  then have l: "l = xs @ y # drop k l" using append_take_drop_id [of k l] by simp
  have "chain l y = first (drop k l)" using chain_at [of xs y "drop k l"] assms(1) l by metis
  then show ?thesis using t by simp
qed simp

lemma unlinked_updates [simp]:
  "unlinked x l (u\<lparr>mru_entries := e\<rparr>) = unlinked x l u"
  "unlinked x l (u\<lparr>assigned_slots := as\<rparr>) = unlinked x l u"
  "unlinked x l (u\<lparr>oldest_slotted := os\<rparr>) = unlinked x l u"
  "unlinked x l (u\<lparr>free_slots := free\<rparr>) = unlinked x l u"
  by (simp_all add: unlinked_def)

lemma unlinked_inv:
  assumes "unlinked x l u" "mru_entries u = set l - {x}" "oldest_slotted u = first (rev (take n (removeAll x l)))"
    "slot_ok n (removeAll x l) slots (assigned_slots u) (free_slots u)"
  shows "mru_inv n (removeAll x l) slots u"
  using assms by (auto simp: mru_inv_def linked_def unlinked_def distinct_removeAll)

lemma take_one_more:
  assumes "drop (n - 1) l = y # ys" "n > 0"
  shows "l = take (n - 1) l @ y # ys" "length (take (n - 1) l) + 1 = n" "take n l = take (n - 1) l @ [y]"
proof -
  show l: "l = take (n - 1) l @ y # ys" using append_take_drop_id [of "n - 1" l] unfolding assms(1) by simp
  have "n - 1 < length l" using assms(1) by (metis drop_all leI list.distinct(1))
  then show len: "length (take (n - 1) l) + 1 = n" using assms(2) by simp
  show "take n l = take (n - 1) l @ [y]" by (subst l) (use len in simp)
qed

lemma remove_slotted:
  assumes inv: "mru_inv n l slots self" and n: "n > 1" and s: "assigned_slots self x = Some s"
    and u: "unlinked x l u" "mru_entries u = set l - {x}" "assigned_slots u = assigned_slots self"
      "free_slots u = free_slots self"
      "oldest_slotted u = (if oldest_slotted self = Some x then chain (rev l) x else oldest_slotted self)"
    and r: "MRUSet_reassign_slot s (u\<lparr>assigned_slots := (assigned_slots u)(x := None)\<rparr>) = (r, self')"
  shows "mru_inv n (removeAll x l) (apply_action (case r of Some y \<Rightarrow> MRUSetAction_SetSlot s y
    | None \<Rightarrow> MRUSetAction_ClearSlot s) slots) self'"
proof -
  let ?l = "removeAll x l"
  have d: "distinct l" and sl: "slot_ok n l slots (assigned_slots self) (free_slots self)"
    and os: "oldest_slotted self = first (rev (take n l))"
    using inv by (auto simp: mru_inv_def linked_def)
  have x: "x \<in> set (take n l)" using slot_ok_fields(2) [OF sl] s by simp
  have os': "oldest_slotted u = first (rev (take (n - 1) ?l))"
    using u(5) os oldest_after_unlink [OF d x] by (simp only:)
  have next_in_line: "Option.bind (oldest_slotted u) (link_older u) = first (drop (n - 1) ?l)"
    using removed_oldest [of ?l "n - 1"] n u(1) os' d by (simp add: unlinked_def distinct_removeAll)
  show ?thesis
  proof (cases "drop (n - 1) ?l")
    case Nil
    then have "length l \<le> n" using Suc_length_removeAll [OF d in_set_takeD [OF x]] n by simp
    moreover have "take (n - 1) ?l = take n ?l" using Nil by simp
    moreover have "r = None" "self' = u\<lparr>assigned_slots := (assigned_slots u)(x := None), free_slots := free_slots u @ [s]\<rparr>"
      using r next_in_line Nil by (simp_all add: MRUSet_reassign_slot_def)
    ultimately show ?thesis
      using slot_ok_release [OF sl d s] os' u(1-4) by (intro unlinked_inv) simp_all
  next
    case (Cons y ys)
    have split: "?l = take (n - 1) ?l @ y # ys" "length (take (n - 1) ?l) + 1 = n"
      "take n ?l = take (n - 1) ?l @ [y]"
      by (rule take_one_more [OF Cons]; use n in simp)+
    moreover have "r = Some y" "self' = u\<lparr>assigned_slots := (assigned_slots u)(x := None, y \<mapsto> s),
        oldest_slotted := Some y\<rparr>"
      using r next_in_line Cons by (auto simp: MRUSet_reassign_slot_def)
    ultimately show ?thesis
      using slot_ok_pass [OF sl d s split(1,2)] u(1-4) by (intro unlinked_inv) simp_all
  qed
qed

lemma MRUSet_remove_correct:
  assumes inv: "mru_inv n l slots self" and n: "n > 1"
  shows "\<exists>a self'. MRUSet_remove x self = Return (a, self') \<and>
    mru_inv n (removeAll x l) (apply_action a slots) self'"
proof -
  have lk: "linked l self" and d: "distinct l" and sl: "slot_ok n l slots (assigned_slots self) (free_slots self)"
    and os: "oldest_slotted self = first (rev (take n l))" and en: "mru_entries self = set l"
    using inv by (auto simp: mru_inv_def linked_def)
  obtain u where u: "MRUSet_unlink x self = Return u" "unlinked x l u"
    "oldest_slotted u = (if oldest_slotted self = Some x then chain (rev l) x else oldest_slotted self)"
    "mru_entries u = mru_entries self" "assigned_slots u = assigned_slots self"
    "free_slots u = free_slots self" by (rule unlink_unlinked [OF lk])
  let ?u = "u\<lparr>mru_entries := mru_entries u - {x}\<rparr>"
  show ?thesis
  proof (cases "assigned_slots self x")
    case None
    then have x: "x \<notin> set (take n l)" using slot_ok_fields(2) [OF sl] by simp
    then have "oldest_slotted u = first (rev (take n (removeAll x l)))"
      using u(3) os take_removeAll_outside [OF d x] by (auto dest: first_SomeD)
    then have "mru_inv n (removeAll x l) slots ?u"
      using slot_ok_forget [OF sl d None] u en by (intro unlinked_inv) simp_all
    with u None show ?thesis by (simp add: MRUSet_remove_def)
  next
    case (Some s)
    obtain r self' where r: "MRUSet_reassign_slot s (?u\<lparr>assigned_slots := (assigned_slots ?u)(x := None)\<rparr>) = (r, self')"
      by fastforce
    have "mru_inv n (removeAll x l) (apply_action (case r of Some y \<Rightarrow> MRUSetAction_SetSlot s y
        | None \<Rightarrow> MRUSetAction_ClearSlot s) slots) self'"
      by (rule remove_slotted [OF inv n Some _ _ _ _ _ r]) (use u en in simp_all)
    with u(1,5) r Some show ?thesis by (cases r) (auto simp: MRUSet_remove_def Let_def)
  qed
qed

section \<open>Runs\<close>

datatype 'a mru_op = MRU_Insert 'a | MRU_Remove 'a

text \<open>A run, with what the radio's slots hold after its actions.\<close>

fun mru_step :: "'a mru_op \<Rightarrow> 'a mru_set \<Rightarrow> ('a mru_set_action \<times> 'a mru_set) outcome" where
  "mru_step (MRU_Insert x) self = MRUSet_insert x self"
| "mru_step (MRU_Remove x) self = MRUSet_remove x self"

fun mru_run :: "'a mru_op list \<Rightarrow> (usize \<rightharpoonup> 'a) \<times> 'a mru_set \<Rightarrow> ((usize \<rightharpoonup> 'a) \<times> 'a mru_set) outcome" where
  "mru_run [] s = Return s"
| "mru_run (op # ops) (slots, self) =
     bind_outcome (mru_step op self) (\<lambda>(a, self). mru_run ops (apply_action a slots, self))"

text \<open>The specification: the values from the most to the least recently inserted.\<close>

fun mru_spec :: "'a mru_op \<Rightarrow> 'a list \<Rightarrow> 'a list" where
  "mru_spec (MRU_Insert x) l = x # removeAll x l"
| "mru_spec (MRU_Remove x) l = removeAll x l"

lemma mru_step_correct:
  "mru_inv n l slots self \<Longrightarrow> n > 1 \<Longrightarrow>
    \<exists>a self'. mru_step op self = Return (a, self') \<and> mru_inv n (mru_spec op l) (apply_action a slots) self'"
  using MRUSet_insert_correct [of n l slots self] MRUSet_remove_correct [of n l slots self] by (cases op) simp_all

lemma mru_run_correct:
  "mru_inv n l slots self \<Longrightarrow> n > 1 \<Longrightarrow>
    \<exists>slots' self'. mru_run ops (slots, self) = Return (slots', self') \<and> mru_inv n (fold mru_spec ops l) slots' self'"
proof (induction ops arbitrary: l slots self)
  case (Cons op ops)
  from mru_step_correct [OF Cons.prems, of op] obtain a self' where
    "mru_step op self = Return (a, self')" "mru_inv n (mru_spec op l) (apply_action a slots) self'" by blast
  with Cons.IH [OF this(2) Cons.prems(2)] show ?case by simp
qed simp

lemma mru_inv_new:
  "n > 0 \<Longrightarrow> \<exists>self. MRUSet_new n = Return self \<and> mru_inv n [] Map.empty self"
  by (auto simp: MRUSet_new_def assert_that_def mru_inv_def linked_def slot_ok_def mutual_def)

section \<open>Properties\<close>

text \<open>
  C34. The linked list in two hash maps refines a list ordered by the last insertion: with two or
  more slots, no sequence of insertions and removals panics or breaks a link; the set holds
  exactly the listed values; and the slots of the radio, updated by the returned actions,
  hold exactly the newest of them, as many as there are slots.
\<close>

theorem MRUSet_refines_recency:
  assumes "n > 1"
  shows "\<exists>start slots self. MRUSet_new n = Return start \<and>
    mru_run ops (Map.empty, start) = Return (slots, self) \<and>
    (\<forall>x. MRUSet_contains self x \<longleftrightarrow> x \<in> set (fold mru_spec ops [])) \<and>
    ran slots = set (take n (fold mru_spec ops [])) \<and> dom slots \<subseteq> {..<n} \<and>
    (\<forall>x s. MRUSet_has_slot self x = Some s \<longleftrightarrow> slots s = Some x)"
proof -
  obtain start :: "'a mru_set" where start: "MRUSet_new n = Return start" "mru_inv n [] Map.empty start"
    using mru_inv_new [of n] assms by auto
  from mru_run_correct [OF start(2) assms, of ops] obtain slots self where
    run: "mru_run ops (Map.empty, start) = Return (slots, self)" "mru_inv n (fold mru_spec ops []) slots self"
    by blast
  have mut: "assigned_slots self x = Some s \<longleftrightarrow> slots s = Some x" for x s
    using run(2) by (simp add: mru_inv_def slot_ok_def mutualD)
  have "dom (assigned_slots self) = set (take n (fold mru_spec ops []))" "dom slots \<subseteq> {..<n}"
    "mru_entries self = set (fold mru_spec ops [])"
    using run(2) by (simp_all add: mru_inv_def slot_ok_def)
  moreover have "ran slots = dom (assigned_slots self)" using mut by (auto simp: ran_def)
  ultimately show ?thesis
    using start(1) run(1) mut by (auto simp: MRUSet_contains_def MRUSet_has_slot_def)
qed

theorem MRUSet_refines_recency_witness:
  "\<exists>start slots self. MRUSet_new 2 = Return start \<and>
    mru_run [MRU_Insert (1::nat), MRU_Insert 2, MRU_Insert 3, MRU_Remove 3] (Map.empty, start) = Return (slots, self) \<and>
    ran slots = {1, 2}"
proof -
  have "(1::nat) < 2" by simp
  from MRUSet_refines_recency [OF this, of "[MRU_Insert (1::nat), MRU_Insert 2, MRU_Insert 3, MRU_Remove 3]"]
  show ?thesis by (auto simp: insert_commute)
qed

text \<open>
  With a single slot a value can be forgotten: after the insertion of two values and the
  removal of the second, the first is still in the set and the slot is free, but the slot is
  cleared instead of given to it, and inserting it again changes nothing.
\<close>

theorem MRUSet_single_slot_forgets:
  assumes "x \<noteq> y"
  shows "\<exists>s0 s1 s2 s3. MRUSet_new 1 = Return s0 \<and>
    MRUSet_insert x s0 = Return (MRUSetAction_SetSlot 0 x, s1) \<and>
    MRUSet_insert y s1 = Return (MRUSetAction_SetSlot 0 y, s2) \<and>
    MRUSet_remove y s2 = Return (MRUSetAction_ClearSlot 0, s3) \<and>
    MRUSet_contains s3 x \<and> MRUSet_has_slot s3 x = None \<and> free_slots s3 = [0] \<and>
    MRUSet_insert x s3 = Return (MRUSetAction_None, s3)"
  using assms
  by (auto simp: MRUSet_new_def MRUSet_insert_def MRUSet_remove_def MRUSet_unlink_def MRUSet_link_as_newest_def
      MRUSet_take_oldest_slot_def MRUSet_reassign_slot_def MRUSet_contains_def MRUSet_has_slot_def
      insert_or_remove_def assert_that_def Let_def)

end
