(* ===== verification/Ccm_Star.thy ===== *)
theory Ccm_Star
  imports Crates
begin

unbundle bit_operations_syntax

text \<open>
  The authenticated encryption of the earlier stack: CBC-MAC (\<^verbatim>\<open>old_src/zigbee/security/cbcmac.rs\<close>)
  and CCM* (\<^verbatim>\<open>ccmstar.rs\<close>).  The block cipher, the counter-mode key stream and the comparison in
  constant time come from crates and are arguments; \<^verbatim>\<open>put\<close> and \<^verbatim>\<open>put_u8\<close> on a vector append.
\<close>

section \<open>The cryptographic crates\<close>

record ('c, 's) cipher_ops =
  encrypt_block :: "'c \<Rightarrow> bytes \<Rightarrow> bytes"
  ctr_from_cipher :: "'c \<Rightarrow> bytes \<Rightarrow> 's"
  apply_keystream :: "'s \<Rightarrow> bytes \<Rightarrow> bytes \<times> 's"
  ct_eq :: "bytes \<Rightarrow> bytes \<Rightarrow> bool"

abbreviation xor_bytes :: "bytes \<Rightarrow> bytes \<Rightarrow> bytes" where
  "xor_bytes \<equiv> map2 (XOR)"

text \<open>
  A block cipher maps blocks to blocks; a key stream is added to the data byte by byte and
  advances by the length of the data; the comparison is equality.
\<close>

locale cipher_crates =
  fixes ops :: "('c, 's) cipher_ops"
    and keystream :: "'s \<Rightarrow> nat \<Rightarrow> bytes"
    and advance :: "'s \<Rightarrow> nat \<Rightarrow> 's"
  assumes length_encrypt_block: "length (encrypt_block ops c b) = length b"
    and apply_keystream_eq: "apply_keystream ops s d = (xor_bytes d (keystream s (length d)), advance s (length d))"
    and length_keystream: "length (keystream s n) = n"
    and ct_eq_iff: "length a = length b \<Longrightarrow> ct_eq ops a b \<longleftrightarrow> a = b"

section \<open>CBC-MAC\<close>

record 'c cbc_mac =
  cm_cipher :: 'c
  cm_buffer :: bytes
  cm_filled :: usize

definition CbcMac_from_cipher :: "usize \<Rightarrow> 'c \<Rightarrow> 'c cbc_mac" where
  "CbcMac_from_cipher block_size cipher =
     \<lparr>cm_cipher = cipher, cm_buffer = replicate block_size 0, cm_filled = 0\<rparr>"

definition CbcMac_new :: "(bytes \<Rightarrow> 'c) \<Rightarrow> usize \<Rightarrow> bytes \<Rightarrow> 'c cbc_mac" where
  "CbcMac_new cipher_new block_size key =
     \<lparr>cm_cipher = cipher_new key, cm_buffer = replicate block_size 0, cm_filled = 0\<rparr>"

fun CbcMac_input :: "('c, 's) cipher_ops \<Rightarrow> bytes \<Rightarrow> 'c cbc_mac \<Rightarrow> 'c cbc_mac outcome" where
  "CbcMac_input ops [] self = Return self"
| "CbcMac_input ops (b # data) self =
     (if cm_filled self < length (cm_buffer self) then
        (let self = self\<lparr>cm_buffer := (cm_buffer self)[cm_filled self := cm_buffer self ! cm_filled self XOR b],
                         cm_filled := cm_filled self + 1\<rparr>;
             self = (if cm_filled self = length (cm_buffer self)
                     then self\<lparr>cm_buffer := encrypt_block ops (cm_cipher self) (cm_buffer self), cm_filled := 0\<rparr>
                     else self)
         in CbcMac_input ops data self)
      else Panic)"

definition CbcMac_reset :: "'c cbc_mac \<Rightarrow> 'c cbc_mac" where
  "CbcMac_reset self = self\<lparr>cm_filled := 0, cm_buffer := map (\<lambda>_. 0) (cm_buffer self)\<rparr>"

definition CbcMac_result :: "('c, 's) cipher_ops \<Rightarrow> 'c cbc_mac \<Rightarrow> bytes" where
  "CbcMac_result ops self =
     (if cm_filled self > 0 then encrypt_block ops (cm_cipher self) (cm_buffer self) else cm_buffer self)"

section \<open>CCM*\<close>

datatype ccm_star_integrity_code_len =
    CcmStarIntegrityCodeLen_None
  | CcmStarIntegrityCodeLen_MIC4
  | CcmStarIntegrityCodeLen_MIC6
  | CcmStarIntegrityCodeLen_MIC8
  | CcmStarIntegrityCodeLen_MIC10
  | CcmStarIntegrityCodeLen_MIC12
  | CcmStarIntegrityCodeLen_MIC14
  | CcmStarIntegrityCodeLen_MIC16

fun CcmStarIntegrityCodeLen_as_usize :: "ccm_star_integrity_code_len \<Rightarrow> usize" where
  "CcmStarIntegrityCodeLen_as_usize CcmStarIntegrityCodeLen_None = 0"
| "CcmStarIntegrityCodeLen_as_usize CcmStarIntegrityCodeLen_MIC4 = 1"
| "CcmStarIntegrityCodeLen_as_usize CcmStarIntegrityCodeLen_MIC6 = 2"
| "CcmStarIntegrityCodeLen_as_usize CcmStarIntegrityCodeLen_MIC8 = 3"
| "CcmStarIntegrityCodeLen_as_usize CcmStarIntegrityCodeLen_MIC10 = 4"
| "CcmStarIntegrityCodeLen_as_usize CcmStarIntegrityCodeLen_MIC12 = 5"
| "CcmStarIntegrityCodeLen_as_usize CcmStarIntegrityCodeLen_MIC14 = 6"
| "CcmStarIntegrityCodeLen_as_usize CcmStarIntegrityCodeLen_MIC16 = 7"

definition CcmStarIntegrityCodeLen_tag_size :: "ccm_star_integrity_code_len \<Rightarrow> usize" where
  "CcmStarIntegrityCodeLen_tag_size self =
     (let as_num = CcmStarIntegrityCodeLen_as_usize self
      in if as_num = 0 then 0 else as_num * 2 + 2)"

datatype ccm_star_length_size =
    CcmStarLengthSize_Len16
  | CcmStarLengthSize_Len24
  | CcmStarLengthSize_Len32
  | CcmStarLengthSize_Len40
  | CcmStarLengthSize_Len48
  | CcmStarLengthSize_Len56
  | CcmStarLengthSize_Len64

fun CcmStarLengthSize_as_usize :: "ccm_star_length_size \<Rightarrow> usize" where
  "CcmStarLengthSize_as_usize CcmStarLengthSize_Len16 = 2"
| "CcmStarLengthSize_as_usize CcmStarLengthSize_Len24 = 3"
| "CcmStarLengthSize_as_usize CcmStarLengthSize_Len32 = 4"
| "CcmStarLengthSize_as_usize CcmStarLengthSize_Len40 = 5"
| "CcmStarLengthSize_as_usize CcmStarLengthSize_Len48 = 6"
| "CcmStarLengthSize_as_usize CcmStarLengthSize_Len56 = 7"
| "CcmStarLengthSize_as_usize CcmStarLengthSize_Len64 = 8"

record 'c ccm_star =
  cs_cipher :: 'c
  integrity_code_len :: ccm_star_integrity_code_len
  length_size :: ccm_star_length_size

datatype aead_error = AeadError

record aead_payload =
  pl_msg :: bytes
  pl_aad :: bytes

definition CcmStar_from_cipher :: "'c \<Rightarrow> ccm_star_integrity_code_len \<Rightarrow> ccm_star_length_size \<Rightarrow> 'c ccm_star" where
  "CcmStar_from_cipher cipher code_len len_size =
     \<lparr>cs_cipher = cipher, integrity_code_len = code_len, length_size = len_size\<rparr>"

text \<open>\<^verbatim>\<open>while auth_data.len() % 16 != 0 { auth_data.put_u8(0) }\<close>\<close>

function pad_auth_data :: "bytes \<Rightarrow> bytes" where
  "pad_auth_data auth_data =
     (if length auth_data mod 16 \<noteq> 0 then pad_auth_data (auth_data @ [0]) else auth_data)"
  by pat_completeness auto
termination
  by (relation "measure (\<lambda>d. (16 - length d mod 16) mod 16)") (auto simp: mod_Suc)

declare pad_auth_data.simps [simp del]

definition CcmStar_auth_data :: "aead_payload \<Rightarrow> (bytes, aead_error) result" where
  "CcmStar_auth_data plaintext =
     and_then
       (if length (pl_aad plaintext) = 0 then Ok []
        else if length (pl_aad plaintext) < 0xFF00 then
          Ok (to_be_bytes (of_nat (length (pl_aad plaintext)) :: u16))
        else if length (pl_aad plaintext) \<le> 0xFFFFFFFF then
          Ok (to_be_bytes (0xFFFE :: u16) @ to_be_bytes (of_nat (length (pl_aad plaintext)) :: u32))
        else if length (pl_aad plaintext) \<le> 0xFFFFFFFFFFFFFFFF then
          Ok (to_be_bytes (0xFFFF :: u16) @ to_be_bytes (of_nat (length (pl_aad plaintext)) :: u64))
        else Err AeadError)
       (\<lambda>auth_data. Ok (pad_auth_data (auth_data @ pl_aad plaintext) @ pl_msg plaintext))"

definition CcmStar_auth_data_flag :: "u8 bitfield_ops \<Rightarrow> 'c ccm_star \<Rightarrow> aead_payload \<Rightarrow> u8" where
  "CcmStar_auth_data_flag bf self plaintext =
     (let flag = 0;
          flag = set_bit_range bf flag 7 7 0;
          flag = set_bit_range bf flag 6 6 (bool_to_word (length (pl_aad plaintext) > 0));
          flag = set_bit_range bf flag 5 3 (of_nat (CcmStarIntegrityCodeLen_as_usize (integrity_code_len self)));
          flag = set_bit_range bf flag 2 0 (of_nat (CcmStarLengthSize_as_usize (length_size self)) - 1)
      in flag)"

text \<open>\<^verbatim>\<open>>>\<close> on \<^verbatim>\<open>usize\<close> panics on a shift by 64 or more.\<close>

definition shr_usize :: "usize \<Rightarrow> nat \<Rightarrow> usize outcome" where
  "shr_usize n k = (if k < 64 then Return (n div 2 ^ k) else Panic)"

definition CcmStar_calculate_tag :: "u8 bitfield_ops \<Rightarrow> ('c, 's) cipher_ops \<Rightarrow> 'c ccm_star \<Rightarrow> aead_payload \<Rightarrow>
    bytes \<Rightarrow> (bytes, aead_error) result outcome" where
  "CcmStar_calculate_tag bf ops self plaintext nonce =
     (case CcmStar_auth_data plaintext of
        Err e \<Rightarrow> Return (Err e)
      | Ok auth_data \<Rightarrow>
          (let auth_data_b0 = [CcmStar_auth_data_flag bf self plaintext] @ nonce;
               len_size = CcmStarLengthSize_as_usize (length_size self)
           in bind_outcome (shr_usize (length (pl_msg plaintext)) (len_size * 8)) (\<lambda>rest.
              if rest \<noteq> 0 then Return (Err AeadError)
              else
                (let auth_data_b0 = auth_data_b0 @
                       map (\<lambda>i. of_nat (length (pl_msg plaintext) div 2 ^ ((len_size - i - 1) * 8) mod 256))
                         [0..<len_size]
                 in if length auth_data_b0 \<noteq> 16 then Return (Err AeadError)
                    else
                      bind_outcome (CbcMac_input ops auth_data_b0 (CbcMac_from_cipher 16 (cs_cipher self))) (\<lambda>mac.
                      bind_outcome (CbcMac_input ops auth_data mac) (\<lambda>mac.
                      Return (Ok (CbcMac_result ops mac))))))))"

definition CcmStar_create_ctr :: "u8 bitfield_ops \<Rightarrow> ('c, 's) cipher_ops \<Rightarrow> 'c ccm_star \<Rightarrow> bytes \<Rightarrow> 's outcome" where
  "CcmStar_create_ctr bf ops self nonce =
     (let flag = 0;
          flag = set_bit_range bf flag 7 6 0;
          flag = set_bit_range bf flag 5 3 0;
          flag = set_bit_range bf flag 2 0 (of_nat (CcmStarLengthSize_as_usize (length_size self)) - 1);
          counter_nonce = (replicate 16 0)[0 := flag]
      in if length nonce < 16 then
           Return (ctr_from_cipher ops (cs_cipher self)
             (fold (\<lambda>i cn. cn[i + 1 := nonce ! i]) [0..<length nonce] counter_nonce))
         else Panic)"

definition CcmStar_get_tag_len :: "'c ccm_star \<Rightarrow> usize" where
  "CcmStar_get_tag_len self = CcmStarIntegrityCodeLen_tag_size (integrity_code_len self)"

definition CcmStar_encrypt :: "u8 bitfield_ops \<Rightarrow> ('c, 's) cipher_ops \<Rightarrow> 'c ccm_star \<Rightarrow> bytes \<Rightarrow> aead_payload \<Rightarrow>
    (bytes, aead_error) result outcome" where
  "CcmStar_encrypt bf ops self nonce plaintext =
     (let nonce = take (15 - CcmStarLengthSize_as_usize (length_size self)) nonce
      in bind_outcome (CcmStar_calculate_tag bf ops self plaintext nonce) (\<lambda>tag.
         case tag of
           Err e \<Rightarrow> Return (Err e)
         | Ok mac \<Rightarrow>
             bind_outcome (CcmStar_create_ctr bf ops self nonce) (\<lambda>ctr.
               (case apply_keystream ops ctr mac of
                  (mac, ctr) \<Rightarrow>
                    (case apply_keystream ops ctr (pl_msg plaintext) of
                       (output, ctr) \<Rightarrow> Return (Ok (output @ take (CcmStar_get_tag_len self) mac)))))))"

definition CcmStar_decrypt :: "u8 bitfield_ops \<Rightarrow> ('c, 's) cipher_ops \<Rightarrow> 'c ccm_star \<Rightarrow> bytes \<Rightarrow> aead_payload \<Rightarrow>
    (bytes, aead_error) result outcome" where
  "CcmStar_decrypt bf ops self nonce ciphertext =
     (let nonce = take (15 - CcmStarLengthSize_as_usize (length_size self)) nonce;
          tag_len = CcmStar_get_tag_len self
      in if length (pl_msg ciphertext) < tag_len then Return (Err AeadError)
         else bind_outcome (CcmStar_create_ctr bf ops self nonce) (\<lambda>ctr.
           (let msg_len = length (pl_msg ciphertext) - tag_len;
                tag = fold (\<lambda>i t. t[i := pl_msg ciphertext ! (msg_len + i)]) [0..<tag_len] (replicate 16 0)
            in case apply_keystream ops ctr tag of
                 (tag, ctr) \<Rightarrow>
                   (case apply_keystream ops ctr (take msg_len (pl_msg ciphertext)) of
                      (plaintext, ctr) \<Rightarrow>
                        if tag_len > 0 then
                          bind_outcome (CcmStar_calculate_tag bf ops self
                              \<lparr>pl_msg = plaintext, pl_aad = pl_aad ciphertext\<rparr> nonce) (\<lambda>res.
                            case res of
                              Err e \<Rightarrow> Return (Err e)
                            | Ok mac \<Rightarrow>
                                if \<not> ct_eq ops (take tag_len mac) (take tag_len tag) then Return (Err AeadError)
                                else Return (Ok plaintext))
                        else Return (Ok plaintext)))))"

section \<open>CBC-MAC is the usual chain of blocks\<close>

definition pad_to :: "nat \<Rightarrow> bytes \<Rightarrow> bytes" where
  "pad_to n b = b @ replicate (n - length b) 0"

function cbc_from :: "(bytes \<Rightarrow> bytes) \<Rightarrow> nat \<Rightarrow> bytes \<Rightarrow> bytes \<Rightarrow> bytes" where
  "cbc_from enc n h data =
     (if data = [] \<or> n = 0 then h
      else cbc_from enc n (enc (xor_bytes h (pad_to n (take n data)))) (drop n data))"
  by pat_completeness auto
termination by (relation "measure (\<lambda>(enc, n, h, data). length data)") auto

declare cbc_from.simps [simp del]

definition cbc_state :: "'c \<Rightarrow> nat \<Rightarrow> bytes \<Rightarrow> bytes \<Rightarrow> 'c cbc_mac \<Rightarrow> bool" where
  "cbc_state c n h rest self \<longleftrightarrow> cm_cipher self = c \<and> cm_buffer self = xor_bytes h (pad_to n rest) \<and>
     cm_filled self = length rest \<and> length h = n \<and> length rest < n"

lemma length_pad_to [simp]: "length (pad_to n b) = max n (length b)"
  by (simp add: pad_to_def)

lemma xor_bytes_zeros: "length h = n \<Longrightarrow> xor_bytes h (replicate n 0) = h"
  by (rule nth_equalityI) simp_all

lemma xor_pad_update:
  assumes "length h = n" "length rest < n"
  shows "(xor_bytes h (pad_to n rest))[length rest := xor_bytes h (pad_to n rest) ! length rest XOR b] =
    xor_bytes h (pad_to n (rest @ [b]))"
proof (rule nth_equalityI)
  fix i
  assume "i < length ((xor_bytes h (pad_to n rest))[length rest := xor_bytes h (pad_to n rest) ! length rest XOR b])"
  then have "i < n" using assms by simp
  then show "(xor_bytes h (pad_to n rest))[length rest := xor_bytes h (pad_to n rest) ! length rest XOR b] ! i =
      xor_bytes h (pad_to n (rest @ [b])) ! i"
    using assms by (cases "i = length rest") (auto simp: pad_to_def nth_append)
qed (use assms in simp)

lemma cbc_from_block:
  assumes "length block = n" "n > 0"
  shows "cbc_from enc n h (block @ data) = cbc_from enc n (enc (xor_bytes h block)) data"
proof -
  have "block \<noteq> []" using assms by auto
  then show ?thesis using assms by (subst cbc_from.simps) (simp add: pad_to_def)
qed

context cipher_crates
begin

lemma CbcMac_input_chain:
  "cbc_state c n h rest self \<Longrightarrow>
    \<exists>h' rest' self'. CbcMac_input ops data self = Return self' \<and> cbc_state c n h' rest' self' \<and>
      (\<forall>more. cbc_from (encrypt_block ops c) n h (rest @ data @ more) =
        cbc_from (encrypt_block ops c) n h' (rest' @ more))"
proof (induction data arbitrary: h rest self)
  case Nil
  then show ?case by auto
next
  case (Cons b data)
  have st: "cm_cipher self = c" "cm_buffer self = xor_bytes h (pad_to n rest)" "cm_filled self = length rest"
    "length h = n" "length rest < n"
    using Cons.prems by (simp_all add: cbc_state_def)
  let ?buf = "xor_bytes h (pad_to n (rest @ [b]))"
  have buf: "(cm_buffer self)[cm_filled self := cm_buffer self ! cm_filled self XOR b] = ?buf" "length ?buf = n"
    using xor_pad_update [OF st(4,5), of b] st by simp_all
  show ?case
  proof (cases "length rest + 1 = n")
    case True
    let ?self = "self\<lparr>cm_buffer := encrypt_block ops c ?buf, cm_filled := 0\<rparr>"
    let ?h = "encrypt_block ops c ?buf"
    have "length ?h = n" using buf(2) by (simp only: length_encrypt_block)
    then have "cbc_state c n ?h [] ?self"
      using st True by (simp add: cbc_state_def pad_to_def xor_bytes_zeros)
    from Cons.IH [OF this] obtain h' rest' self' where
      "CbcMac_input ops data ?self = Return self'" "cbc_state c n h' rest' self'"
      "\<forall>more. cbc_from (encrypt_block ops c) n ?h ([] @ data @ more) =
        cbc_from (encrypt_block ops c) n h' (rest' @ more)" by blast
    moreover have "cbc_from (encrypt_block ops c) n h ((rest @ [b]) @ d) = cbc_from (encrypt_block ops c) n ?h d" for d
      using cbc_from_block [of "rest @ [b]" n "encrypt_block ops c" h d] True by (simp add: pad_to_def)
    ultimately show ?thesis using st buf True by (auto simp: Let_def)
  next
    case False
    let ?self = "self\<lparr>cm_buffer := ?buf, cm_filled := length rest + 1\<rparr>"
    have "cbc_state c n h (rest @ [b]) ?self" using st False by (simp add: cbc_state_def)
    from Cons.IH [OF this] show ?thesis using st buf False by (auto simp: Let_def)
  qed
qed

lemma CbcMac_result_chain:
  assumes "cbc_state c n h rest self"
  shows "CbcMac_result ops self = cbc_from (encrypt_block ops c) n h rest" "length (CbcMac_result ops self) = n"
proof -
  have st: "cm_cipher self = c" "cm_buffer self = xor_bytes h (pad_to n rest)" "cm_filled self = length rest"
    "length h = n" "length rest < n"
    using assms by (simp_all add: cbc_state_def)
  have "drop n rest = []" "take n rest = rest" using st by simp_all
  then show "CbcMac_result ops self = cbc_from (encrypt_block ops c) n h rest"
    using st by (subst cbc_from.simps)
      (auto simp: CbcMac_result_def pad_to_def xor_bytes_zeros cbc_from.simps)
  show "length (CbcMac_result ops self) = n"
    using st by (simp add: CbcMac_result_def length_encrypt_block)
qed

lemma cbc_state_start: "n > 0 \<Longrightarrow> cbc_state c n (replicate n 0) [] (CbcMac_from_cipher n c)"
  by (simp add: cbc_state_def CbcMac_from_cipher_def pad_to_def xor_bytes_zeros)

end

section \<open>Encryption and decryption\<close>

declare CbcMac_input.simps(2) [simp del]

lemma xor_bytes_cancel: "length d = length k \<Longrightarrow> xor_bytes (xor_bytes d k) k = d"
  by (rule nth_equalityI) (simp_all add: xor.assoc)

lemma xor_bytes_swap: "length a = length k \<Longrightarrow> length b = length k \<Longrightarrow> xor_bytes a k = b \<longleftrightarrow> a = xor_bytes b k"
  using xor_bytes_cancel by metis

lemma take_xor_bytes: "take n (xor_bytes a b) = xor_bytes (take n a) (take n b)"
  by (simp add: take_map take_zip)

lemma fold_fill:
  "m \<le> length zs \<Longrightarrow> k + m \<le> length xs \<Longrightarrow>
    fold (\<lambda>i t. t[i := xs ! (k + i)]) [0..<m] zs = take m (drop k xs) @ drop m zs"
proof (induction m)
  case (Suc m)
  have "take (Suc m) (drop k xs) = take m (drop k xs) @ [xs ! (k + m)]"
    using Suc.prems by (simp add: take_Suc_conv_app_nth)
  moreover have "drop m zs = zs ! m # drop (Suc m) zs" using Suc.prems by (simp add: Cons_nth_drop_Suc)
  ultimately show ?case using Suc by (simp add: list_update_append)
qed simp

lemma tag_len_le: "CcmStar_get_tag_len self \<le> 16"
  by (cases "integrity_code_len self")
    (simp_all add: CcmStar_get_tag_len_def CcmStarIntegrityCodeLen_tag_size_def)

lemma len_size_bounds: "2 \<le> CcmStarLengthSize_as_usize l" "CcmStarLengthSize_as_usize l \<le> 8"
  "CcmStarLengthSize_as_usize l = 8 \<longleftrightarrow> l = CcmStarLengthSize_Len64"
  by (cases l; simp)+

context cipher_crates
begin

lemma CcmStar_mac:
  obtains mac where "bind_outcome (CbcMac_input ops b0 (CbcMac_from_cipher 16 c)) (\<lambda>mac.
      bind_outcome (CbcMac_input ops data mac) (\<lambda>mac. Return (Ok (CbcMac_result ops mac)))) =
    Return (Ok mac :: (bytes, aead_error) result)" "length mac = 16"
    "mac = cbc_from (encrypt_block ops c) 16 (replicate 16 0) (b0 @ data)"
proof -
  have "cbc_state c 16 (replicate 16 0) [] (CbcMac_from_cipher 16 c)" by (rule cbc_state_start) simp
  from CbcMac_input_chain [OF this, of b0] obtain h1 r1 s1 where
    1: "CbcMac_input ops b0 (CbcMac_from_cipher 16 c) = Return s1" "cbc_state c 16 h1 r1 s1"
      "\<forall>more. cbc_from (encrypt_block ops c) 16 (replicate 16 0) ([] @ b0 @ more) =
        cbc_from (encrypt_block ops c) 16 h1 (r1 @ more)" by blast
  from CbcMac_input_chain [OF 1(2), of data] obtain h2 r2 s2 where
    2: "CbcMac_input ops data s1 = Return s2" "cbc_state c 16 h2 r2 s2"
      "\<forall>more. cbc_from (encrypt_block ops c) 16 h1 (r1 @ data @ more) =
        cbc_from (encrypt_block ops c) 16 h2 (r2 @ more)" by blast
  from 1(3) [rule_format, of data] 2(3) [rule_format, of "[]"]
  have "cbc_from (encrypt_block ops c) 16 (replicate 16 0) (b0 @ data) = cbc_from (encrypt_block ops c) 16 h2 r2"
    by simp
  with CbcMac_result_chain [OF 2(2)] 1(1) 2(1) show thesis by (intro that [of "CbcMac_result ops s2"]) simp_all
qed

lemma calculate_tag_cases:
  assumes "length nonce + CcmStarLengthSize_as_usize (length_size self) = 15" "length (pl_aad p) \<le> 0xFFFFFFFFFFFFFFFF"
  shows "CcmStar_calculate_tag bf ops self p nonce = Panic \<longleftrightarrow> length_size self = CcmStarLengthSize_Len64"
    "(\<exists>mac. CcmStar_calculate_tag bf ops self p nonce = Return (Ok mac)) \<longleftrightarrow>
      length_size self \<noteq> CcmStarLengthSize_Len64 \<and>
      length (pl_msg p) < 2 ^ (CcmStarLengthSize_as_usize (length_size self) * 8)"
proof -
  obtain data where data: "CcmStar_auth_data p = Ok data" 
    using assms(2) by (cases "CcmStar_auth_data p") (auto simp: CcmStar_auth_data_def split: if_splits)
  let ?l = "CcmStarLengthSize_as_usize (length_size self)"
  let ?b0 = "[CcmStar_auth_data_flag bf self p] @ nonce @
      map (\<lambda>i. of_nat (length (pl_msg p) div 2 ^ ((?l - i - 1) * 8) mod 256)) [0..<?l]"
  obtain mac where mac: "bind_outcome (CbcMac_input ops ?b0 (CbcMac_from_cipher 16 (cs_cipher self))) (\<lambda>mac.
      bind_outcome (CbcMac_input ops data mac) (\<lambda>mac. Return (Ok (CbcMac_result ops mac)))) =
    Return (Ok mac :: (bytes, aead_error) result)" by (rule CcmStar_mac)
  have small: "length (pl_msg p) div 2 ^ (?l * 8) = 0 \<longleftrightarrow> length (pl_msg p) < 2 ^ (?l * 8)"
    by (simp add: div_eq_0_iff)
  have calc: "CcmStar_calculate_tag bf ops self p nonce =
      (if ?l = 8 then Panic else if length (pl_msg p) < 2 ^ (?l * 8) then Return (Ok mac) else Return (Err AeadError))"
    using assms(1) data mac len_size_bounds(2) [of "length_size self"] small
    by (simp add: CcmStar_calculate_tag_def shr_usize_def Let_def)
  show "CcmStar_calculate_tag bf ops self p nonce = Panic \<longleftrightarrow> length_size self = CcmStarLengthSize_Len64"
    "(\<exists>mac. CcmStar_calculate_tag bf ops self p nonce = Return (Ok mac)) \<longleftrightarrow>
      length_size self \<noteq> CcmStarLengthSize_Len64 \<and> length (pl_msg p) < 2 ^ (?l * 8)"
    unfolding calc len_size_bounds(3) by auto
qed

lemma CbcMac_result_length:
  "CbcMac_input ops b0 (CbcMac_from_cipher 16 c) = Return m1 \<Longrightarrow> CbcMac_input ops data m1 = Return m2 \<Longrightarrow>
    length (CbcMac_result ops m2) = 16"
  by (rule CcmStar_mac [of b0 c data]) simp

lemma calculate_tag_length:
  "CcmStar_calculate_tag bf ops self p nonce = Return (Ok mac) \<Longrightarrow> length mac = 16"
  by (auto dest: CbcMac_result_length simp: CcmStar_calculate_tag_def bind_outcome_eq_Return_iff Let_def split: sum.splits if_splits)

end

context cipher_crates
begin

abbreviation used_nonce :: "'c ccm_star \<Rightarrow> bytes \<Rightarrow> bytes" where
  "used_nonce self nonce \<equiv> take (15 - CcmStarLengthSize_as_usize (length_size self)) nonce"

lemma encrypt_Ok_iff:
  "CcmStar_encrypt bf ops self nonce pl = Return (Ok c) \<longleftrightarrow>
    (\<exists>mac ctr. CcmStar_calculate_tag bf ops self pl (used_nonce self nonce) = Return (Ok mac) \<and>
      CcmStar_create_ctr bf ops self (used_nonce self nonce) = Return ctr \<and>
      c = xor_bytes (pl_msg pl) (keystream (advance ctr 16) (length (pl_msg pl))) @
        take (CcmStar_get_tag_len self) (xor_bytes mac (keystream ctr 16)))"
proof (cases "CcmStar_calculate_tag bf ops self pl (used_nonce self nonce)")
  case (Return tag)
  then show ?thesis
    using calculate_tag_length [of bf self pl "used_nonce self nonce"]
    by (cases tag) (auto simp: CcmStar_encrypt_def Let_def bind_outcome_eq_Return_iff apply_keystream_eq)
qed (simp add: CcmStar_encrypt_def)

lemma filled_tag:
  assumes "length (pl_msg pl) \<ge> t" "t \<le> 16"
  shows "fold (\<lambda>i tag. tag[i := pl_msg pl ! (length (pl_msg pl) - t + i)]) [0..<t] (replicate 16 0) =
    drop (length (pl_msg pl) - t) (pl_msg pl) @ replicate (16 - t) 0"
  using fold_fill [of t "replicate 16 0" "length (pl_msg pl) - t" "pl_msg pl"] assms by simp

lemma decrypt_eq:
  assumes t: "CcmStar_get_tag_len self \<le> length (pl_msg pl)"
    and ctr: "CcmStar_create_ctr bf ops self (used_nonce self nonce) = Return ctr"
  defines "m \<equiv> length (pl_msg pl) - CcmStar_get_tag_len self"
  defines "p \<equiv> xor_bytes (take m (pl_msg pl)) (keystream (advance ctr 16) m)"
  shows "CcmStar_decrypt bf ops self nonce pl =
    (if CcmStar_get_tag_len self > 0 then
       bind_outcome (CcmStar_calculate_tag bf ops self \<lparr>pl_msg = p, pl_aad = pl_aad pl\<rparr> (used_nonce self nonce))
         (\<lambda>res. case res of Err e \<Rightarrow> Return (Err e)
          | Ok mac \<Rightarrow> if \<not> ct_eq ops (take (CcmStar_get_tag_len self) mac)
                (xor_bytes (drop m (pl_msg pl)) (take (CcmStar_get_tag_len self) (keystream ctr 16)))
              then Return (Err AeadError) else Return (Ok p))
     else Return (Ok p))"
proof -
  have tag: "take (CcmStar_get_tag_len self) (xor_bytes (drop m (pl_msg pl) @
      replicate (16 - CcmStar_get_tag_len self) 0) (keystream ctr 16)) =
      xor_bytes (drop m (pl_msg pl)) (take (CcmStar_get_tag_len self) (keystream ctr 16))"
    using t by (simp add: take_xor_bytes m_def)
  show ?thesis
    unfolding CcmStar_decrypt_def Let_def filled_tag [OF t tag_len_le] apply_keystream_eq p_def m_def
    using t ctr tag_len_le [of self] by (simp add: tag [unfolded m_def])
qed

lemma decrypt_Ok_iff:
  "CcmStar_decrypt bf ops self nonce pl = Return (Ok p) \<longleftrightarrow>
    (let t = CcmStar_get_tag_len self; m = length (pl_msg pl) - t in
     t \<le> length (pl_msg pl) \<and>
     (\<exists>ctr. CcmStar_create_ctr bf ops self (used_nonce self nonce) = Return ctr \<and>
       p = xor_bytes (take m (pl_msg pl)) (keystream (advance ctr 16) m) \<and>
       (t = 0 \<or> (\<exists>mac. CcmStar_calculate_tag bf ops self \<lparr>pl_msg = p, pl_aad = pl_aad pl\<rparr>
            (used_nonce self nonce) = Return (Ok mac) \<and>
          take t mac = xor_bytes (drop m (pl_msg pl)) (take t (keystream ctr 16))))))"
proof -
  let ?t = "CcmStar_get_tag_len self" and ?m = "length (pl_msg pl) - CcmStar_get_tag_len self"
  show ?thesis
  proof (cases "?t \<le> length (pl_msg pl) \<and> (\<exists>ctr. CcmStar_create_ctr bf ops self (used_nonce self nonce) = Return ctr)")
    case True
    then obtain ctr where t: "?t \<le> length (pl_msg pl)"
      and ctr: "CcmStar_create_ctr bf ops self (used_nonce self nonce) = Return ctr" by blast
    let ?p = "xor_bytes (take ?m (pl_msg pl)) (keystream (advance ctr 16) ?m)"
    have eq: "ct_eq ops (take ?t mac) (xor_bytes (drop ?m (pl_msg pl)) (take ?t (keystream ctr 16))) \<longleftrightarrow>
        take ?t mac = xor_bytes (drop ?m (pl_msg pl)) (take ?t (keystream ctr 16))" if "length mac = 16" for mac
      using that t tag_len_le [of self] by (intro ct_eq_iff) (simp add: length_keystream)
    let ?calc = "CcmStar_calculate_tag bf ops self \<lparr>pl_msg = ?p, pl_aad = pl_aad pl\<rparr> (used_nonce self nonce)"
    note dec = decrypt_eq [OF t ctr]
    show ?thesis
    proof (cases ?calc)
      case Panic
      then show ?thesis unfolding dec using t ctr by (auto simp: Let_def)
    next
      case (Return res)
      then show ?thesis
        unfolding dec using t ctr eq calculate_tag_length [of bf self _ "used_nonce self nonce"]
        by (cases res) (auto simp: Let_def)
    qed
  next
    case False
    then show ?thesis
      by (cases "CcmStar_create_ctr bf ops self (used_nonce self nonce)") (auto simp: CcmStar_decrypt_def Let_def)
  qed
qed

lemma decrypt_encrypted:
  assumes "CcmStar_encrypt bf ops self nonce \<lparr>pl_msg = p, pl_aad = a\<rparr> = Return (Ok (pl_msg pl))" "pl_aad pl = a"
  shows "CcmStar_decrypt bf ops self nonce pl = Return (Ok p)"
proof -
  let ?t = "CcmStar_get_tag_len self" and ?c = "pl_msg pl"
  from assms(1) obtain mac ctr where e: "CcmStar_calculate_tag bf ops self \<lparr>pl_msg = p, pl_aad = a\<rparr> (used_nonce self nonce) = Return (Ok mac)"
    "CcmStar_create_ctr bf ops self (used_nonce self nonce) = Return ctr"
    and c: "?c = xor_bytes p (keystream (advance ctr 16) (length p)) @ take ?t (xor_bytes mac (keystream ctr 16))"
    unfolding encrypt_Ok_iff by auto
  have m: "length mac = 16" by (rule calculate_tag_length [OF e(1)])
  have "length ?c = length p + ?t" using c m tag_len_le [of self] by (simp add: length_keystream)
  then have parts: "take (length ?c - ?t) ?c = xor_bytes p (keystream (advance ctr 16) (length p))"
    "drop (length ?c - ?t) ?c = take ?t (xor_bytes mac (keystream ctr 16))" "length ?c - ?t = length p" "?t \<le> length ?c"
    by (simp_all add: c length_keystream)
  have "take ?t mac = xor_bytes (drop (length ?c - ?t) ?c) (take ?t (keystream ctr 16))"
    unfolding parts(2) take_xor_bytes by (rule xor_bytes_cancel [symmetric]) (simp add: m length_keystream)
  moreover have "p = xor_bytes (take (length ?c - ?t) ?c) (keystream (advance ctr 16) (length ?c - ?t))"
    unfolding parts(1) unfolding parts(3) by (rule xor_bytes_cancel [symmetric]) (simp add: length_keystream)
  ultimately show ?thesis using e parts(4) assms(2) unfolding decrypt_Ok_iff Let_def by blast
qed

lemma encrypt_decrypted:
  assumes "CcmStar_get_tag_len self > 0" "CcmStar_decrypt bf ops self nonce pl = Return (Ok p)" "pl_aad pl = a"
  shows "CcmStar_encrypt bf ops self nonce \<lparr>pl_msg = p, pl_aad = a\<rparr> = Return (Ok (pl_msg pl))"
proof -
  let ?t = "CcmStar_get_tag_len self" and ?c = "pl_msg pl"
  let ?m = "length ?c - ?t"
  from assms(2) obtain mac ctr where d: "CcmStar_calculate_tag bf ops self \<lparr>pl_msg = p, pl_aad = a\<rparr> (used_nonce self nonce) = Return (Ok mac)"
    "CcmStar_create_ctr bf ops self (used_nonce self nonce) = Return ctr"
    and p: "p = xor_bytes (take ?m ?c) (keystream (advance ctr 16) ?m)" "?t \<le> length ?c"
    and tag: "take ?t mac = xor_bytes (drop ?m ?c) (take ?t (keystream ctr 16))"
    using assms(1,3) unfolding decrypt_Ok_iff Let_def by auto
  have m: "length mac = 16" by (rule calculate_tag_length [OF d(1)])
  have "length p = ?m" using p by (simp add: length_keystream)
  then have "take ?m ?c = xor_bytes p (keystream (advance ctr 16) (length p))"
    using p xor_bytes_cancel [of "take ?m ?c" "keystream (advance ctr 16) ?m"] by (simp add: length_keystream)
  moreover have "drop ?m ?c = take ?t (xor_bytes mac (keystream ctr 16))"
    using xor_bytes_cancel [of "drop ?m ?c" "take ?t (keystream ctr 16)"] p(2) tag_len_le [of self]
    by (simp add: take_xor_bytes tag length_keystream)
  ultimately have "?c = xor_bytes p (keystream (advance ctr 16) (length p)) @ take ?t (xor_bytes mac (keystream ctr 16))"
    by (metis append_take_drop_id)
  with d show ?thesis unfolding encrypt_Ok_iff by auto
qed

lemma encrypt_outcome:
  assumes "length nonce = 15" "length (pl_aad pl) \<le> 0xFFFFFFFFFFFFFFFF"
  shows "CcmStar_encrypt bf ops self nonce pl = Panic \<longleftrightarrow> length_size self = CcmStarLengthSize_Len64"
    "(\<exists>c. CcmStar_encrypt bf ops self nonce pl = Return (Ok c)) \<longleftrightarrow>
      length_size self \<noteq> CcmStarLengthSize_Len64 \<and>
      length (pl_msg pl) < 2 ^ (CcmStarLengthSize_as_usize (length_size self) * 8)"
proof -
  have len: "length (used_nonce self nonce) + CcmStarLengthSize_as_usize (length_size self) = 15"
    using assms(1) len_size_bounds(2) [of "length_size self"] by simp
  then have "length (used_nonce self nonce) < 16" by simp
  then obtain ctr where ctr: "CcmStar_create_ctr bf ops self (used_nonce self nonce) = Return ctr"
    by (simp add: CcmStar_create_ctr_def Let_def)
  let ?out = "\<lambda>mac. fst (apply_keystream ops (snd (apply_keystream ops ctr mac)) (pl_msg pl)) @
    take (CcmStar_get_tag_len self) (fst (apply_keystream ops ctr mac))"
  have enc: "CcmStar_encrypt bf ops self nonce pl =
      bind_outcome (CcmStar_calculate_tag bf ops self pl (used_nonce self nonce))
      (\<lambda>tag. case tag of Err e \<Rightarrow> Return (Err e) | Ok mac \<Rightarrow> Return (Ok (?out mac)))"
    unfolding CcmStar_encrypt_def Let_def ctr bind_outcome_simps case_prod_unfold ..
  have *: "(CcmStar_encrypt bf ops self nonce pl = Panic \<longleftrightarrow>
        CcmStar_calculate_tag bf ops self pl (used_nonce self nonce) = Panic) \<and>
      ((\<exists>c. CcmStar_encrypt bf ops self nonce pl = Return (Ok c)) \<longleftrightarrow>
        (\<exists>mac. CcmStar_calculate_tag bf ops self pl (used_nonce self nonce) = Return (Ok mac)))"
  proof (cases "CcmStar_calculate_tag bf ops self pl (used_nonce self nonce)")
    case (Return res)
    then show ?thesis unfolding enc by (cases res) simp_all
  qed (simp add: enc)
  show "CcmStar_encrypt bf ops self nonce pl = Panic \<longleftrightarrow> length_size self = CcmStarLengthSize_Len64"
    "(\<exists>c. CcmStar_encrypt bf ops self nonce pl = Return (Ok c)) \<longleftrightarrow>
      length_size self \<noteq> CcmStarLengthSize_Len64 \<and>
      length (pl_msg pl) < 2 ^ (CcmStarLengthSize_as_usize (length_size self) * 8)"
    unfolding * [THEN conjunct1] * [THEN conjunct2]
    using calculate_tag_cases [OF len assms(2), of bf] by blast+
qed

end

section \<open>Counter mode\<close>

text \<open>
  The key stream of \<^verbatim>\<open>Ctr128\<close> over any block cipher: the blocks of a big-endian 128-bit counter,
  encrypted.
\<close>

definition ctr_block :: "bytes \<Rightarrow> nat \<Rightarrow> bytes" where
  "ctr_block iv n = to_be_bytes ((from_be_bytes iv :: u128) + of_nat n)"

definition ctr_keystream :: "('c \<Rightarrow> bytes \<Rightarrow> bytes) \<Rightarrow> 'c \<times> bytes \<times> nat \<Rightarrow> nat \<Rightarrow> bytes" where
  "ctr_keystream enc = (\<lambda>(c, iv, pos) n. map (\<lambda>i. enc c (ctr_block iv (i div 16)) ! (i mod 16)) [pos..<pos + n])"

definition ctr_advance :: "'c \<times> bytes \<times> nat \<Rightarrow> nat \<Rightarrow> 'c \<times> bytes \<times> nat" where
  "ctr_advance = (\<lambda>(c, iv, pos) n. (c, iv, pos + n))"

definition ctr_ops :: "('c \<Rightarrow> bytes \<Rightarrow> bytes) \<Rightarrow> ('c, 'c \<times> bytes \<times> nat) cipher_ops" where
  "ctr_ops enc =
     \<lparr>encrypt_block = enc,
      ctr_from_cipher = (\<lambda>c iv. (c, iv, 0)),
      apply_keystream = (\<lambda>s d. (xor_bytes d (ctr_keystream enc s (length d)), ctr_advance s (length d))),
      ct_eq = (=)\<rparr>"

locale block_cipher =
  fixes enc :: "'c \<Rightarrow> bytes \<Rightarrow> bytes"
  assumes length_enc: "length (enc c b) = length b"

sublocale block_cipher \<subseteq> ctr: cipher_crates "ctr_ops enc" "ctr_keystream enc" ctr_advance
  by unfold_locales (auto simp: ctr_ops_def ctr_keystream_def length_enc)

text \<open>A block cipher for examples: the bytes in reverse order, added to those of the key.\<close>

definition demo_cipher :: "bytes \<Rightarrow> bytes \<Rightarrow> bytes" where
  "demo_cipher key b = map (\<lambda>i. rev b ! i XOR (if i < length key then key ! i else 0)) [0..<length b]"

interpretation demo_cipher: block_cipher demo_cipher
  by unfold_locales (simp add: demo_cipher_def)

definition demo_ccm :: "ccm_star_integrity_code_len \<Rightarrow> ccm_star_length_size \<Rightarrow> bytes ccm_star" where
  "demo_ccm = CcmStar_from_cipher [0xC0, 0xC1, 0xC2, 0xC3, 0xC4, 0xC5, 0xC6, 0xC7, 0xC8, 0xC9, 0xCA, 0xCB, 0xCC, 0xCD, 0xCE, 0xCF]"

section \<open>Properties\<close>

text \<open>
  The incremental MAC is CBC-MAC: however the data is cut into calls of \<^verbatim>\<open>input\<close>, no call
  panics and the result is the chain of encrypted blocks of the whole data, the last block
  filled with zeros.
\<close>

theorem CbcMac_is_chain:
  assumes "cipher_crates ops keystream advance" "n > 0"
  shows "\<exists>self. foldl (\<lambda>m data. bind_outcome m (CbcMac_input ops data)) (Return (CbcMac_from_cipher n c)) parts =
      Return self \<and>
    CbcMac_result ops self = cbc_from (encrypt_block ops c) n (replicate n 0) (concat parts)"
proof -
  have "\<exists>h rest self. foldl (\<lambda>m data. bind_outcome m (CbcMac_input ops data)) (Return (CbcMac_from_cipher n c)) parts =
      Return self \<and> cbc_state c n h rest self \<and>
      (\<forall>more. cbc_from (encrypt_block ops c) n (replicate n 0) (concat parts @ more) =
        cbc_from (encrypt_block ops c) n h (rest @ more))"
  proof (induction parts rule: rev_induct)
    case Nil
    then show ?case using cipher_crates.cbc_state_start [OF assms] by fastforce
  next
    case (snoc data parts)
    then obtain h rest self where s: "foldl (\<lambda>m data. bind_outcome m (CbcMac_input ops data))
        (Return (CbcMac_from_cipher n c)) parts = Return self" "cbc_state c n h rest self"
      "\<forall>more. cbc_from (encrypt_block ops c) n (replicate n 0) (concat parts @ more) =
        cbc_from (encrypt_block ops c) n h (rest @ more)" by blast
    from cipher_crates.CbcMac_input_chain [OF assms(1) s(2), of data] s show ?case by fastforce
  qed
  then obtain h rest self where s: "foldl (\<lambda>m data. bind_outcome m (CbcMac_input ops data))
      (Return (CbcMac_from_cipher n c)) parts = Return self" "cbc_state c n h rest self"
    "\<forall>more. cbc_from (encrypt_block ops c) n (replicate n 0) (concat parts @ more) =
      cbc_from (encrypt_block ops c) n h (rest @ more)" by blast
  from s(3) [rule_format, of "[]"] cipher_crates.CbcMac_result_chain(1) [OF assms(1) s(2)] s(1)
  show ?thesis by simp
qed

text \<open>
  C33. Decryption undoes encryption, and with an integrity code it accepts nothing else: whatever
  decrypts to a message, with the same nonce and associated data, is the encryption of this
  message.
\<close>

theorem CcmStar_decrypts_exactly_encrypted:
  assumes "cipher_crates ops keystream advance"
  shows "(CcmStar_encrypt bf ops self nonce \<lparr>pl_msg = p, pl_aad = a\<rparr> = Return (Ok c) \<longrightarrow>
      CcmStar_decrypt bf ops self nonce \<lparr>pl_msg = c, pl_aad = a\<rparr> = Return (Ok p)) \<and>
    (integrity_code_len self \<noteq> CcmStarIntegrityCodeLen_None \<longrightarrow>
      CcmStar_decrypt bf ops self nonce \<lparr>pl_msg = c, pl_aad = a\<rparr> = Return (Ok p) \<longrightarrow>
      CcmStar_encrypt bf ops self nonce \<lparr>pl_msg = p, pl_aad = a\<rparr> = Return (Ok c))"
proof -
  have "integrity_code_len self \<noteq> CcmStarIntegrityCodeLen_None \<Longrightarrow> CcmStar_get_tag_len self > 0"
    by (cases "integrity_code_len self")
      (simp_all add: CcmStar_get_tag_len_def CcmStarIntegrityCodeLen_tag_size_def)
  then show ?thesis
    using cipher_crates.decrypt_encrypted [OF assms, where pl = "\<lparr>pl_msg = c, pl_aad = a\<rparr>"]
      cipher_crates.encrypt_decrypted [OF assms, where pl = "\<lparr>pl_msg = c, pl_aad = a\<rparr>"]
    unfolding aead_payload.select_convs by blast
qed

theorem CcmStar_decrypts_exactly_encrypted_witness:
  "\<exists>c. CcmStar_encrypt bitfield_impl (ctr_ops demo_cipher)
      (demo_ccm CcmStarIntegrityCodeLen_MIC8 CcmStarLengthSize_Len16) (replicate 15 0)
      \<lparr>pl_msg = [1, 2, 3], pl_aad = [4]\<rparr> = Return (Ok c) \<and>
    CcmStar_decrypt bitfield_impl (ctr_ops demo_cipher)
      (demo_ccm CcmStarIntegrityCodeLen_MIC8 CcmStarLengthSize_Len16) (replicate 15 0)
      \<lparr>pl_msg = c, pl_aad = [4]\<rparr> = Return (Ok [1, 2, 3])"
proof -
  have "length (replicate 15 (0 :: u8)) = 15" "length (pl_aad \<lparr>pl_msg = [1, 2, 3], pl_aad = [4]\<rparr>) \<le> 0xFFFFFFFFFFFFFFFF"
    by simp_all
  from demo_cipher.ctr.encrypt_outcome(2) [OF this, of bitfield_impl
      "demo_ccm CcmStarIntegrityCodeLen_MIC8 CcmStarLengthSize_Len16"]
  obtain c where "CcmStar_encrypt bitfield_impl (ctr_ops demo_cipher)
      (demo_ccm CcmStarIntegrityCodeLen_MIC8 CcmStarLengthSize_Len16) (replicate 15 0)
      \<lparr>pl_msg = [1, 2, 3], pl_aad = [4]\<rparr> = Return (Ok c)"
    by (auto simp: demo_ccm_def CcmStar_from_cipher_def)
  with CcmStar_decrypts_exactly_encrypted [OF demo_cipher.ctr.cipher_crates_axioms, of bitfield_impl
      "demo_ccm CcmStarIntegrityCodeLen_MIC8 CcmStarLengthSize_Len16" "replicate 15 0" "[1, 2, 3]" "[4]" c]
  show ?thesis by blast
qed

text \<open>
  With a nonce of 15 bytes, encryption succeeds exactly when the length of the message fits
  its length field; with a length field of 64 bits it always panics, because the check
  shifts a \<^verbatim>\<open>usize\<close> by its whole width.
\<close>

theorem CcmStar_encrypt_outcome:
  assumes "cipher_crates ops keystream advance" "length nonce = 15" "length (pl_aad pl) \<le> 0xFFFFFFFFFFFFFFFF"
  shows "(CcmStar_encrypt bf ops self nonce pl = Panic \<longleftrightarrow> length_size self = CcmStarLengthSize_Len64) \<and>
    ((\<exists>c. CcmStar_encrypt bf ops self nonce pl = Return (Ok c)) \<longleftrightarrow>
      length_size self \<noteq> CcmStarLengthSize_Len64 \<and>
      length (pl_msg pl) < 2 ^ (CcmStarLengthSize_as_usize (length_size self) * 8))"
  using cipher_crates.encrypt_outcome [OF assms] by blast

end
