(* ===== verification/Mmo_Hash.thy ===== *)
theory Mmo_Hash
  imports Ccm_Star
begin

unbundle bit_operations_syntax

text \<open>
  The Matyas-Meyer-Oseas hash of the earlier stack (\<^verbatim>\<open>old_src/zigbee/security/mmohash.rs\<close>).  The block
  cipher, created with the current hash as its key, is an argument.
\<close>

section \<open>Definitions\<close>

type_synonym keyed_cipher = "bytes \<Rightarrow> bytes \<Rightarrow> bytes"

record mmo_hash =
  mh_hash :: bytes
  mh_buffer :: bytes
  mh_filled :: usize
  mh_length :: usize

definition MMOHash_process_block :: "keyed_cipher \<Rightarrow> mmo_hash \<Rightarrow> mmo_hash" where
  "MMOHash_process_block enc self =
     self\<lparr>mh_hash := xor_bytes (enc (mh_hash self) (mh_buffer self)) (mh_buffer self),
          mh_buffer := map (\<lambda>_. 0) (mh_buffer self),
          mh_filled := 0\<rparr>"

definition MMOHash_default :: "usize \<Rightarrow> mmo_hash" where
  "MMOHash_default block_size =
     \<lparr>mh_hash = replicate block_size 0, mh_buffer = replicate block_size 0, mh_filled = 0, mh_length = 0\<rparr>"

definition MMOHash_reset :: "mmo_hash \<Rightarrow> mmo_hash" where
  "MMOHash_reset self =
     self\<lparr>mh_hash := map (\<lambda>_. 0) (mh_hash self), mh_buffer := map (\<lambda>_. 0) (mh_buffer self),
          mh_filled := 0, mh_length := 0\<rparr>"

text \<open>The loop of \<^verbatim>\<open>input\<close>; an index beyond the buffer panics.\<close>

fun MMOHash_input_loop :: "keyed_cipher \<Rightarrow> usize \<Rightarrow> bytes \<Rightarrow> mmo_hash \<Rightarrow> mmo_hash outcome" where
  "MMOHash_input_loop enc block_size [] self = Return self"
| "MMOHash_input_loop enc block_size (b # data) self =
     (if mh_filled self < length (mh_buffer self) then
        (let self = self\<lparr>mh_buffer := (mh_buffer self)[mh_filled self := b], mh_filled := mh_filled self + 1\<rparr>;
             self = (if mh_filled self = block_size then MMOHash_process_block enc self else self)
         in MMOHash_input_loop enc block_size data self)
      else Panic)"

definition MMOHash_input :: "keyed_cipher \<Rightarrow> usize \<Rightarrow> bytes \<Rightarrow> mmo_hash \<Rightarrow> mmo_hash outcome" where
  "MMOHash_input enc block_size data self =
     bind_outcome (MMOHash_input_loop enc block_size data self) (\<lambda>self.
       Return (self\<lparr>mh_length := mh_length self + length data\<rparr>))"

text \<open>The loop that writes the length into the padding; \<open>shift\<close> is an \<^verbatim>\<open>isize\<close>.\<close>

fun MMOHash_pad_loop :: "usize \<Rightarrow> usize list \<Rightarrow> int \<Rightarrow> bytes \<Rightarrow> bytes outcome" where
  "MMOHash_pad_loop length_in_bits [] shift padding_buffer = Return padding_buffer"
| "MMOHash_pad_loop length_in_bits (i # is) shift padding_buffer =
     (let shift = shift - 8
      in if shift < 64 \<and> shift > -8 then
           (if shift < 0 \<or> length padding_buffer \<le> i then Panic
            else MMOHash_pad_loop length_in_bits is shift
              (padding_buffer[i := padding_buffer ! i OR of_nat (length_in_bits div 2 ^ nat shift mod 256)]))
         else MMOHash_pad_loop length_in_bits is shift padding_buffer)"

text \<open>The padding \<^verbatim>\<open>fixed_result\<close> appends; a product beyond \<^verbatim>\<open>usize\<close> and a failed \<^verbatim>\<open>assert!\<close> panic.\<close>

definition MMOHash_padding :: "usize \<Rightarrow> mmo_hash \<Rightarrow> bytes outcome" where
  "MMOHash_padding block_size self =
     (if block_size = 0 \<or> mh_length self * 8 \<ge> 2 ^ 64 then Panic
      else
        (let padding_buffer = (replicate (block_size * 2) 0)[0 := 0x80];
             length_in_bits = mh_length self * 8
         in bind_outcome (shr_usize length_in_bits block_size) (\<lambda>high.
            bind_outcome (shr_usize length_in_bits (2 * block_size)) (\<lambda>higher.
            let fits_small_suffix = (high = 0);
                fits_big_suffix = (higher = 0)
            in if \<not> fits_big_suffix then Panic
               else
                 (let padding_bits_required = 1 + (if fits_small_suffix then block_size else block_size * 3);
                      padding_bytes_required = (padding_bits_required + 7) div 8;
                      padding_bytes = block_size - mh_filled self;
                      padding_bytes = (if padding_bytes < padding_bytes_required
                        then padding_bytes + block_size else padding_bytes);
                      shift = int padding_bytes * 8;
                      shift = (if \<not> fits_small_suffix then shift - 8 else shift)
                  in bind_outcome (MMOHash_pad_loop length_in_bits [0..<padding_bytes] shift padding_buffer)
                       (\<lambda>padding_buffer. Return (take padding_bytes padding_buffer)))))))"

definition MMOHash_fixed_result :: "keyed_cipher \<Rightarrow> usize \<Rightarrow> mmo_hash \<Rightarrow> bytes outcome" where
  "MMOHash_fixed_result enc block_size self =
     bind_outcome (MMOHash_padding block_size self) (\<lambda>padding.
     bind_outcome (MMOHash_input enc block_size padding self) (\<lambda>self.
     if mh_filled self = 0 then Return (mh_hash self) else Panic))"

section \<open>The hash of a sequence of blocks\<close>

function mmo_blocks :: "keyed_cipher \<Rightarrow> nat \<Rightarrow> bytes \<Rightarrow> bytes \<Rightarrow> bytes" where
  "mmo_blocks enc n h data =
     (if length data < n \<or> n = 0 then h
      else mmo_blocks enc n (xor_bytes (enc h (take n data)) (take n data)) (drop n data))"
  by pat_completeness auto
termination by (relation "measure (\<lambda>(enc, n, h, data). length data)") auto

declare mmo_blocks.simps [simp del]

definition mmo_state :: "nat \<Rightarrow> bytes \<Rightarrow> bytes \<Rightarrow> mmo_hash \<Rightarrow> bool" where
  "mmo_state n h rest self \<longleftrightarrow> mh_hash self = h \<and> mh_buffer self = pad_to n rest \<and>
     mh_filled self = length rest \<and> length rest < n"

lemma pad_to_snoc: "length rest < n \<Longrightarrow> (pad_to n rest)[length rest := b] = pad_to n (rest @ [b])"
  by (simp add: pad_to_def list_update_append Suc_diff_Suc [symmetric])

lemma mmo_blocks_block:
  "length block = n \<Longrightarrow> n > 0 \<Longrightarrow>
    mmo_blocks enc n h (block @ data) = mmo_blocks enc n (xor_bytes (enc h block) block) data"
  by (subst mmo_blocks.simps) simp

lemma MMOHash_input_loop_blocks:
  "mmo_state n h rest self \<Longrightarrow>
    \<exists>h' rest' self'. MMOHash_input_loop enc n data self = Return self' \<and> mmo_state n h' rest' self' \<and>
      mh_length self' = mh_length self \<and> length rest' = (length rest + length data) mod n \<and>
      (\<forall>more. mmo_blocks enc n h (rest @ data @ more) = mmo_blocks enc n h' (rest' @ more))"
proof (induction data arbitrary: h rest self)
  case Nil
  then show ?case by (auto simp: mmo_state_def)
next
  case (Cons b data)
  have st: "mh_hash self = h" "mh_buffer self = pad_to n rest" "mh_filled self = length rest" "length rest < n"
    using Cons.prems by (simp_all add: mmo_state_def)
  show ?case
  proof (cases "length rest + 1 = n")
    case True
    let ?self = "MMOHash_process_block enc (self\<lparr>mh_buffer := rest @ [b], mh_filled := n\<rparr>)"
    let ?h = "xor_bytes (enc h (rest @ [b])) (rest @ [b])"
    have full: "pad_to n (rest @ [b]) = rest @ [b]" using True by (simp add: pad_to_def)
    have "mmo_state n ?h [] ?self"
      using st True by (auto simp: mmo_state_def MMOHash_process_block_def pad_to_def map_replicate_const)
    from Cons.IH [OF this] obtain h' rest' self' where IH:
      "MMOHash_input_loop enc n data ?self = Return self'" "mmo_state n h' rest' self'"
      "mh_length self' = mh_length ?self" "length rest' = length data mod n"
      "\<forall>more. mmo_blocks enc n ?h (data @ more) = mmo_blocks enc n h' (rest' @ more)" by auto
    have "mmo_blocks enc n h ((rest @ [b]) @ d) = mmo_blocks enc n ?h d" for d
      using mmo_blocks_block [of "rest @ [b]" n enc h d] True by simp
    moreover have "MMOHash_input_loop enc n (b # data) self = Return self'"
      using st True IH(1) pad_to_snoc [OF st(4), of b] full by (simp add: Let_def)
    moreover have "(length rest + length (b # data)) mod n = length data mod n"
      using True by (metis add.commute add.left_commute length_Cons mod_add_self1 plus_1_eq_Suc)
    ultimately show ?thesis using IH by (auto simp: MMOHash_process_block_def)
  next
    case False
    let ?self = "self\<lparr>mh_buffer := pad_to n (rest @ [b]), mh_filled := length rest + 1\<rparr>"
    have "mmo_state n h (rest @ [b]) ?self" using st False by (simp add: mmo_state_def)
    from Cons.IH [OF this] show ?thesis
      using st False pad_to_snoc [OF st(4), of b] by (auto simp: Let_def)
  qed
qed

section \<open>The padding\<close>

definition length_byte :: "nat \<Rightarrow> nat \<Rightarrow> u8" where
  "length_byte bits k = of_nat (bits div 2 ^ (8 * k) mod 256)"

definition written :: "nat \<Rightarrow> nat \<Rightarrow> nat \<Rightarrow> nat \<Rightarrow> bytes \<Rightarrow> nat \<Rightarrow> u8" where
  "written bits off pb i buf j =
     (if i \<le> j \<and> j + off < pb \<and> pb - 1 - j - off < 8
      then buf ! j OR length_byte bits (pb - 1 - j - off) else buf ! j)"

lemma MMOHash_pad_loop_write:
  assumes "shift - 8 = int (8 * n)" "n < 8" "i < length buf"
  shows "MMOHash_pad_loop bits (i # is) shift buf =
    MMOHash_pad_loop bits is (shift - 8) (buf[i := buf ! i OR length_byte bits n])"
proof -
  have "shift - 8 < 64" "shift - 8 > -8" "\<not> shift - 8 < 0" "nat (shift - 8) = 8 * n" using assms(1,2) by simp_all
  then show ?thesis using assms(3) unfolding MMOHash_pad_loop.simps Let_def by (simp add: length_byte_def)
qed

lemma MMOHash_pad_loop_eq:
  "i \<le> pb \<Longrightarrow> pb \<le> length buf \<Longrightarrow>
    MMOHash_pad_loop bits [i..<pb] (8 * (int pb - int i) - 8 * int off) buf =
    Return (map (written bits off pb i buf) [0..<length buf])"
proof (induction "pb - i" arbitrary: i buf)
  case 0
  then have "map (written bits off pb i buf) [0..<length buf] = map ((!) buf) [0..<length buf]"
    by (intro map_cong) (auto simp: written_def)
  with 0 show ?case by (simp add: map_nth)
next
  case (Suc k)
  then have i: "i < pb" "k = pb - Suc i" by simp_all
  have shift: "8 * (int pb - int i) - 8 * int off - 8 = 8 * (int pb - int (Suc i)) - 8 * int off" by simp
  note IH = Suc.hyps(1) [OF i(2)]
  show ?case
  proof (cases "i + off < pb \<and> pb - 1 - i - off < 8")
    case True
    let ?buf = "buf[i := buf ! i OR length_byte bits (pb - 1 - i - off)]"
    have "map (written bits off pb (Suc i) ?buf) [0..<length buf] = map (written bits off pb i buf) [0..<length buf]"
      using True by (intro map_cong) (auto simp: written_def nth_list_update not_le less_Suc_eq_le dest: le_antisym)
    moreover have "MMOHash_pad_loop bits [Suc i..<pb] (8 * (int pb - int (Suc i)) - 8 * int off) ?buf =
        Return (map (written bits off pb (Suc i) ?buf) [0..<length ?buf])"
      using Suc.prems i by (intro IH) simp_all
    moreover have "MMOHash_pad_loop bits [i..<pb] (8 * (int pb - int i) - 8 * int off) buf =
        MMOHash_pad_loop bits [Suc i..<pb] (8 * (int pb - int i) - 8 * int off - 8) ?buf"
      unfolding upt_conv_Cons [OF i(1)]
      by (rule MMOHash_pad_loop_write) (use True i Suc.prems in \<open>simp_all add: of_nat_diff\<close>)
    ultimately show ?thesis unfolding shift by simp
  next
    case False
    then have skip: "\<not> (8 * (int pb - int (Suc i)) - 8 * int off < 64 \<and> 8 * (int pb - int (Suc i)) - 8 * int off > -8)"
      by auto
    have "map (written bits off pb (Suc i) buf) [0..<length buf] = map (written bits off pb i buf) [0..<length buf]"
      using False by (intro map_cong) (auto simp: written_def le_Suc_eq not_less_eq_eq)
    moreover have "MMOHash_pad_loop bits [Suc i..<pb] (8 * (int pb - int (Suc i)) - 8 * int off) buf =
        Return (map (written bits off pb (Suc i) buf) [0..<length buf])"
      using Suc.prems i by (intro IH) simp_all
    ultimately show ?thesis
      unfolding upt_conv_Cons [OF i(1)] MMOHash_pad_loop.simps Let_def shift if_not_P [OF skip] by simp
  qed
qed

text \<open>The padding of the specification: a bit, zeros, and the length in two bytes, or in four followed by two zeros.\<close>

definition small_padding :: "nat \<Rightarrow> nat \<Rightarrow> bytes" where
  "small_padding filled bits =
     (let pb = (if filled \<le> 13 then 16 - filled else 32 - filled)
      in [0x80] @ replicate (pb - 3) 0 @ [length_byte bits 1, length_byte bits 0])"

definition big_suffix :: "nat \<Rightarrow> bytes" where
  "big_suffix bits = [length_byte bits 3, length_byte bits 2, length_byte bits 1, length_byte bits 0]"

lemma length_byte_zero: "bits < 2 ^ (8 * k) \<Longrightarrow> k \<le> j \<Longrightarrow> length_byte bits j = 0"
  unfolding length_byte_def
  by (subst div_less) (auto intro: less_le_trans power_increasing)

lemma loop_result:
  assumes "pb \<le> 32" "pb > 0" "off \<le> 1"
  shows "bind_outcome (MMOHash_pad_loop bits [0..<pb] (int pb * 8 - 8 * int off) ((replicate 32 0)[0 := 0x80]))
      (\<lambda>buf. Return (take pb buf)) =
    Return (map (written bits off pb 0 ((replicate 32 0)[0 := 0x80])) [0..<pb])"
  using MMOHash_pad_loop_eq [of 0 pb "(replicate 32 0)[0 := 0x80]" bits off] assms
  by (simp add: take_map min_def mult.commute)

lemma MMOHash_padding_small:
  assumes "mh_filled self < 16" "mh_length self * 8 < 2 ^ 16"
  shows "MMOHash_padding 16 self = Return (small_padding (mh_filled self) (mh_length self * 8))"
proof -
  let ?bits = "mh_length self * 8" and ?f = "mh_filled self"
  let ?pb = "if ?f \<le> 13 then 16 - ?f else 32 - ?f"
  let ?buf = "(replicate 32 0)[0 := 0x80] :: bytes"
  have pb: "3 \<le> ?pb" "?pb \<le> 32" using assms(1) by auto
  have buf: "?buf ! j = (if j = 0 then 0x80 else 0)" if "j < ?pb" for j
    using that pb(2) by (simp only: nth_list_update length_replicate nth_replicate less_le_trans [OF that pb(2)]) simp
  have "map (written ?bits 0 ?pb 0 ?buf) [0..<?pb] = small_padding ?f ?bits"
  proof (rule nth_equalityI)
    fix j
    assume "j < length (map (written ?bits 0 ?pb 0 ?buf) [0..<?pb])"
    then have j: "j < ?pb" by simp
    have zero: "j + 2 < ?pb \<Longrightarrow> length_byte ?bits (?pb - 1 - j) = 0"
      using assms(2) by (intro length_byte_zero [of _ 2]) simp_all
    consider "j = 0" | "0 < j" "j + 2 < ?pb" | "j = ?pb - 2" | "j = ?pb - 1" using j by linarith
    then have "written ?bits 0 ?pb 0 ?buf j = small_padding ?f ?bits ! j"
      unfolding written_def buf [OF j]
      using pb zero by cases (auto simp: small_padding_def Let_def nth_append nth_Cons')
    with j show "map (written ?bits 0 ?pb 0 ?buf) [0..<?pb] ! j = small_padding ?f ?bits ! j"
      by (simp only: nth_map length_upt nth_upt) simp
  qed (use pb in \<open>simp add: small_padding_def Let_def\<close>)
  moreover have "?bits div 2 ^ 16 = 0" "?bits div 2 ^ 32 = 0" "?bits < 2 ^ 64" using assms(2) by simp_all
  moreover have "(if 16 - ?f < 3 then 16 - ?f + 16 else 16 - ?f) = ?pb" using assms(1) by auto
  ultimately show ?thesis
    using loop_result [of ?pb 0 ?bits] pb
    unfolding MMOHash_padding_def Let_def shr_usize_def by simp
qed

text \<open>The padding of a long message, with the number of zeros that follow its length.\<close>

definition big_padding :: "nat \<Rightarrow> nat \<Rightarrow> nat \<Rightarrow> bytes" where
  "big_padding zeros filled bits =
     (let pb = (if filled \<le> 9 then 16 - filled else 32 - filled)
      in [0x80] @ replicate (pb - 5 - zeros) 0 @ big_suffix bits @ replicate zeros 0)"

lemma written_big:
  assumes "7 \<le> pb" "pb \<le> 32" "bits < 2 ^ 32"
  shows "map (written bits 1 pb 0 ((replicate 32 0)[0 := 0x80])) [0..<pb] =
    [0x80] @ replicate (pb - 6) 0 @ big_suffix bits @ [0]"
proof (rule nth_equalityI)
  let ?buf = "(replicate 32 0)[0 := 0x80] :: bytes"
  fix j
  assume "j < length (map (written bits 1 pb 0 ?buf) [0..<pb])"
  then have j: "j < pb" by simp
  have buf: "?buf ! j = (if j = 0 then 0x80 else 0)"
    by (simp only: nth_list_update length_replicate nth_replicate less_le_trans [OF j assms(2)]) simp
  have zero: "j + 5 < pb \<Longrightarrow> length_byte bits (pb - 1 - j - 1) = 0"
    using assms(3) by (intro length_byte_zero [of _ 4]) simp_all
  obtain k where k: "pb = k + 7" using assms(1) by (metis add.commute le_Suc_ex)
  consider "j = 0" | "0 < j" "j \<le> k + 1" | "j = k + 2" | "j = k + 3" | "j = k + 4" | "j = k + 5" | "j = k + 6"
    using j k by linarith
  then have "written bits 1 pb 0 ?buf j = ([0x80] @ replicate (pb - 6) 0 @ big_suffix bits @ [0]) ! j"
    unfolding written_def buf
    using zero unfolding k by cases (auto simp: big_suffix_def nth_append nth_Cons')
  with j show "map (written bits 1 pb 0 ?buf) [0..<pb] ! j = ([0x80] @ replicate (pb - 6) 0 @ big_suffix bits @ [0]) ! j"
    by (simp only: nth_map length_upt nth_upt) simp
qed (use assms in \<open>simp add: big_suffix_def\<close>)

lemma MMOHash_padding_big:
  assumes "mh_filled self < 16" "2 ^ 16 \<le> mh_length self * 8" "mh_length self * 8 < 2 ^ 32"
  shows "MMOHash_padding 16 self = Return (big_padding 1 (mh_filled self) (mh_length self * 8))"
proof -
  let ?bits = "mh_length self * 8" and ?f = "mh_filled self"
  define pb where "pb = (if ?f \<le> 9 then 16 - ?f else 32 - ?f)"
  have pb: "7 \<le> pb" "pb \<le> 32" using assms(1) by (auto simp: pb_def)
  have pad: "big_padding 1 ?f ?bits = [0x80] @ replicate (pb - 6) 0 @ big_suffix ?bits @ [0]"
    by (simp add: big_padding_def Let_def pb_def)
  have high: "?bits div 2 ^ 16 \<noteq> 0" "?bits div 2 ^ 32 = 0" "?bits < 2 ^ 64"
    using assms(2,3) by (simp_all add: div_eq_0_iff)
  have bytes: "(if 16 - ?f < 7 then 16 - ?f + 16 else 16 - ?f) = pb" using assms(1) by (auto simp: pb_def)
  show ?thesis
    using loop_result [of pb 1 ?bits] pb high bytes
    unfolding MMOHash_padding_def Let_def shr_usize_def pad written_big [OF pb assms(3), symmetric] by simp
qed

lemma big_padding_differ:
  assumes "filled < 16" "2 ^ 16 \<le> bits" "bits < 2 ^ 32"
  shows "big_padding 1 filled bits \<noteq> big_padding 2 filled bits"
proof
  define pb where "pb = (if filled \<le> 9 then 16 - filled else 32 - filled)"
  have "7 \<le> pb" using assms(1) by (auto simp: pb_def)
  then obtain k where k: "pb = k + 7" by (metis add.commute le_Suc_ex)
  assume "big_padding 1 filled bits = big_padding 2 filled bits"
  then have "replicate (k + 1) 0 @ big_suffix bits @ [0] = replicate k 0 @ big_suffix bits @ [0, 0]"
    by (simp add: big_padding_def Let_def pb_def [symmetric] k numeral_2_eq_2)
  then have "replicate k 0 @ 0 # big_suffix bits @ [0] = replicate k 0 @ big_suffix bits @ [0, 0]"
    by (simp add: replicate_app_Cons_same)
  then have "0 # big_suffix bits @ [0] = big_suffix bits @ [0, 0]" by simp
  then have "length_byte bits 3 = 0" "length_byte bits 2 = 0" by (simp_all add: big_suffix_def)
  then have zero: "bits div 2 ^ 24 mod 256 = 0" "bits div 2 ^ 16 mod 256 = 0"
    by (simp_all add: length_byte_def word_of_nat_eq_0_iff dvd_eq_mod_eq_0)
  have "bits div 2 ^ 24 < 256" using assms(3) by (simp add: div_less_iff_less_mult)
  then have "bits < 2 ^ 24" using zero(1) by (simp add: div_eq_0_iff)
  then have "bits div 2 ^ 16 < 256" by (simp add: div_less_iff_less_mult)
  then show False using zero(2) assms(2) by (simp add: div_eq_0_iff)
qed

section \<open>The result\<close>

lemma MMOHash_input_blocks:
  assumes "mmo_state n h rest self"
  obtains h' rest' self' where "MMOHash_input enc n data self = Return self'" "mmo_state n h' rest' self'"
    "mh_length self' = mh_length self + length data" "length rest' = (length rest + length data) mod n"
    "\<And>more. mmo_blocks enc n h (rest @ data @ more) = mmo_blocks enc n h' (rest' @ more)"
proof -
  from MMOHash_input_loop_blocks [OF assms, of enc data] obtain h' rest' self' where
    "MMOHash_input_loop enc n data self = Return self'" "mmo_state n h' rest' self'"
    "mh_length self' = mh_length self" "length rest' = (length rest + length data) mod n"
    "\<forall>more. mmo_blocks enc n h (rest @ data @ more) = mmo_blocks enc n h' (rest' @ more)" by blast
  then show thesis
    by (intro that [of "self'\<lparr>mh_length := mh_length self + length data\<rparr>" h' rest'])
      (simp_all add: MMOHash_input_def mmo_state_def)
qed

lemma MMOHash_inputs_blocks:
  assumes "n > 0"
  shows "\<exists>h rest self. foldl (\<lambda>m data. bind_outcome m (MMOHash_input enc n data)) (Return (MMOHash_default n)) parts =
      Return self \<and> mmo_state n h rest self \<and> mh_length self = length (concat parts) \<and>
      length rest = length (concat parts) mod n \<and>
      (\<forall>more. mmo_blocks enc n (replicate n 0) (concat parts @ more) = mmo_blocks enc n h (rest @ more))"
proof (induction parts rule: rev_induct)
  case Nil
  then show ?case using assms by (auto simp: MMOHash_default_def mmo_state_def pad_to_def)
next
  case (snoc data parts)
  then obtain h rest self where s: "foldl (\<lambda>m data. bind_outcome m (MMOHash_input enc n data))
      (Return (MMOHash_default n)) parts = Return self" "mmo_state n h rest self"
    "mh_length self = length (concat parts)" "length rest = length (concat parts) mod n"
    "\<forall>more. mmo_blocks enc n (replicate n 0) (concat parts @ more) = mmo_blocks enc n h (rest @ more)" by blast
  obtain h' rest' self' where i: "MMOHash_input enc n data self = Return self'" "mmo_state n h' rest' self'"
    "mh_length self' = mh_length self + length data" "length rest' = (length rest + length data) mod n"
    "\<And>more. mmo_blocks enc n h (rest @ data @ more) = mmo_blocks enc n h' (rest' @ more)"
    by (rule MMOHash_input_blocks [OF s(2), where enc = enc and data = data], rule that)
  have "length rest' = length (concat (parts @ [data])) mod n" using i(4) s(4) by (simp add: mod_simps)
  with s(1,3,5) i show ?case by (intro exI [of _ h'] exI [of _ rest'] exI [of _ self']) simp
qed

lemma MMOHash_fixed_result_blocks:
  assumes "mmo_state n h rest self" "MMOHash_padding n self = Return padding" "n dvd length rest + length padding"
  shows "MMOHash_fixed_result enc n self = Return (mmo_blocks enc n h (rest @ padding))"
proof -
  obtain h' rest' self' where i: "MMOHash_input enc n padding self = Return self'" "mmo_state n h' rest' self'"
    "length rest' = (length rest + length padding) mod n"
    "\<And>more. mmo_blocks enc n h (rest @ padding @ more) = mmo_blocks enc n h' (rest' @ more)"
    by (rule MMOHash_input_blocks [OF assms(1), where enc = enc and data = padding], rule that)
  have "rest' = []" using i(3) assms(3) by (simp add: dvd_eq_mod_eq_0)
  moreover have "mmo_blocks enc n h' [] = h'" using i(2) by (subst mmo_blocks.simps) (auto simp: mmo_state_def)
  ultimately show ?thesis
    using assms(2) i(1,2) i(4) [of "[]"] by (simp add: MMOHash_fixed_result_def mmo_state_def)
qed

section \<open>Properties\<close>

text \<open>
  The hash of a message of less than 8192 bytes is the Matyas-Meyer-Oseas chain over the
  message, a one bit, zeros and the length in 16 bits, which together are whole blocks;
  however the message is cut into calls of \<^verbatim>\<open>input\<close>, nothing panics.
\<close>

theorem MMOHash_is_chain:
  assumes "length (concat parts) < 8192"
  shows "bind_outcome (foldl (\<lambda>m data. bind_outcome m (MMOHash_input enc 16 data)) (Return (MMOHash_default 16)) parts)
      (MMOHash_fixed_result enc 16) =
    Return (mmo_blocks enc 16 (replicate 16 0) (concat parts @
      small_padding (length (concat parts) mod 16) (length (concat parts) * 8))) \<and>
    16 dvd length (concat parts @ small_padding (length (concat parts) mod 16) (length (concat parts) * 8))"
proof -
  let ?m = "concat parts"
  obtain h rest self where s: "foldl (\<lambda>m data. bind_outcome m (MMOHash_input enc 16 data))
      (Return (MMOHash_default 16)) parts = Return self" "mmo_state 16 h rest self"
    "mh_length self = length ?m" "length rest = length ?m mod 16"
    "\<forall>more. mmo_blocks enc 16 (replicate 16 0) (?m @ more) = mmo_blocks enc 16 h (rest @ more)"
    using MMOHash_inputs_blocks [of 16 enc parts] by auto
  have filled: "mh_filled self = length ?m mod 16" using s(2,4) by (simp add: mmo_state_def)
  let ?pad = "small_padding (length ?m mod 16) (length ?m * 8)"
  have pad: "MMOHash_padding 16 self = Return ?pad"
    using MMOHash_padding_small [of self] assms s(3) filled by simp
  have "length ?pad = (if length ?m mod 16 \<le> 13 then 16 - length ?m mod 16 else 32 - length ?m mod 16)"
    by (auto simp: small_padding_def Let_def)
  then have "16 dvd length rest + length ?pad" "16 dvd length (?m @ ?pad)" unfolding s(4) length_append by presburger+
  with MMOHash_fixed_result_blocks [OF s(2) pad] s(1,5) show ?thesis by simp
qed

text \<open>
  A longer message is padded wrongly: its length in 32 bits is followed by one zero byte,
  not by the two bytes (as many bits as a block has bytes) that the comment and the
  definition of the hash ask for, so the hashed data differs from that of the specification.
\<close>

theorem MMOHash_long_padding_off:
  assumes "8192 \<le> length (concat parts)" "length (concat parts) < 2 ^ 29"
  shows "bind_outcome (foldl (\<lambda>m data. bind_outcome m (MMOHash_input enc 16 data)) (Return (MMOHash_default 16)) parts)
      (MMOHash_fixed_result enc 16) =
    Return (mmo_blocks enc 16 (replicate 16 0) (concat parts @
      big_padding 1 (length (concat parts) mod 16) (length (concat parts) * 8))) \<and>
    big_padding 1 (length (concat parts) mod 16) (length (concat parts) * 8) \<noteq>
      big_padding 2 (length (concat parts) mod 16) (length (concat parts) * 8)"
proof -
  let ?m = "concat parts"
  obtain h rest self where s: "foldl (\<lambda>m data. bind_outcome m (MMOHash_input enc 16 data))
      (Return (MMOHash_default 16)) parts = Return self" "mmo_state 16 h rest self"
    "mh_length self = length ?m" "length rest = length ?m mod 16"
    "\<forall>more. mmo_blocks enc 16 (replicate 16 0) (?m @ more) = mmo_blocks enc 16 h (rest @ more)"
    using MMOHash_inputs_blocks [of 16 enc parts] by auto
  have filled: "mh_filled self = length ?m mod 16" using s(2,4) by (simp add: mmo_state_def)
  let ?pad = "big_padding 1 (length ?m mod 16) (length ?m * 8)"
  have pad: "MMOHash_padding 16 self = Return ?pad"
    using MMOHash_padding_big [of self] assms s(3) filled by simp
  have "length ?pad = (if length ?m mod 16 \<le> 9 then 16 - length ?m mod 16 else 32 - length ?m mod 16)"
    using mod_less_divisor [of 16 "length ?m"] by (auto simp: big_padding_def big_suffix_def Let_def)
  then have "16 dvd length rest + length ?pad" unfolding s(4) by presburger
  with MMOHash_fixed_result_blocks [OF s(2) pad] s(1,5) have "bind_outcome (foldl (\<lambda>m data. bind_outcome m
      (MMOHash_input enc 16 data)) (Return (MMOHash_default 16)) parts) (MMOHash_fixed_result enc 16) =
    Return (mmo_blocks enc 16 (replicate 16 0) (?m @ ?pad))" by simp
  moreover have "?pad \<noteq> big_padding 2 (length ?m mod 16) (length ?m * 8)"
    using assms by (intro big_padding_differ) simp_all
  ultimately show ?thesis by blast
qed

end
