(* ===== verification/Serial_Codec.thy ===== *)
theory Serial_Codec
  imports Prelude
begin

text \<open>
  The serial protocol of the earlier radio bridge (\<^verbatim>\<open>old_src/radio_bridge/serial_protocol.rs\<close>).  The
  buffers of the \<^verbatim>\<open>bytes\<close> crate are byte lists, to which \<^verbatim>\<open>put_u8\<close>, \<^verbatim>\<open>put_u16_be\<close> and
  \<^verbatim>\<open>extend_from_slice\<close> append; \<^verbatim>\<open>advance\<close> panics beyond the end, as does the difference of two
  lengths below zero.
\<close>

section \<open>Definitions\<close>

record bridge_command =
  command_id :: u8
  request_id :: u16
  command_data :: bytes

datatype decoder_state =
    WaitingForMagic
  | WaitingForCommandId
  | WaitingForRequestId u8
  | WaitingForLength u8 u16
  | WaitingForData u8 u16 usize

definition Codec_new :: decoder_state where
  "Codec_new = WaitingForMagic"

definition MAGIC_PREFIX :: bytes where
  "MAGIC_PREFIX = [0x5A, 0x50, 0x42]"

lemma length_MAGIC_PREFIX [simp]: "length MAGIC_PREFIX = 3"
  by (simp add: MAGIC_PREFIX_def)

text \<open>\<^verbatim>\<open>haystack.windows(needle.len()).position(|window| window == needle)\<close>\<close>

fun codec_find_subsequence :: "'a list \<Rightarrow> 'a list \<Rightarrow> nat option" where
  "codec_find_subsequence haystack needle =
     (if length haystack < length needle then None
      else if take (length needle) haystack = needle then Some 0
      else (case haystack of [] \<Rightarrow> None | _ # rest \<Rightarrow> map_option Suc (codec_find_subsequence rest needle)))"

declare codec_find_subsequence.simps [simp del]

definition advance :: "nat \<Rightarrow> bytes \<Rightarrow> bytes outcome" where
  "advance n src = (if n \<le> length src then Return (drop n src) else Panic)"

definition sub_usize :: "usize \<Rightarrow> usize \<Rightarrow> usize outcome" where
  "sub_usize a b = (if b \<le> a then Return (a - b) else Panic)"

text \<open>One turn of the loop: whether to keep going, the command decoded, the next state and the rest.\<close>

fun Codec_decode_step :: "decoder_state \<Rightarrow> bytes \<Rightarrow>
    (bool \<times> bridge_command option \<times> decoder_state \<times> bytes) outcome" where
  "Codec_decode_step WaitingForMagic src =
     (case codec_find_subsequence src MAGIC_PREFIX of
        Some magic_offset \<Rightarrow>
          bind_outcome (advance (magic_offset + length MAGIC_PREFIX) src) (\<lambda>src.
          Return (True, None, WaitingForCommandId, src))
      | None \<Rightarrow>
          bind_outcome (sub_usize (length src) (length MAGIC_PREFIX)) (\<lambda>n.
          bind_outcome (advance n src) (\<lambda>src.
          Return (False, None, WaitingForMagic, src))))"
| "Codec_decode_step WaitingForCommandId src =
     (if length src < 1 then Return (False, None, WaitingForCommandId, src)
      else Return (True, None, WaitingForRequestId (hd src), drop 1 src))"
| "Codec_decode_step (WaitingForRequestId cid) src =
     (if length src < 2 then Return (False, None, WaitingForRequestId cid, src)
      else Return (True, None, WaitingForLength cid (from_be_bytes (take 2 src)), drop 2 src))"
| "Codec_decode_step (WaitingForLength cid rid) src =
     (if length src < 2 then Return (False, None, WaitingForLength cid rid, src)
      else Return (True, None, WaitingForData cid rid (unat (from_be_bytes (take 2 src) :: u16)), drop 2 src))"
| "Codec_decode_step (WaitingForData cid rid len) src =
     (if length src < len then Return (False, None, WaitingForData cid rid len, src)
      else Return (True, Some \<lparr>command_id = cid, request_id = rid, command_data = take len src\<rparr>,
             WaitingForMagic, drop len src))"

lemma codec_find_subsequence_bound:
  "codec_find_subsequence h n = Some k \<Longrightarrow> k + length n \<le> length h"
proof (induction h arbitrary: k)
  case Nil
  then show ?case by (subst (asm) codec_find_subsequence.simps) (auto split: if_splits)
next
  case (Cons x h)
  from Cons.prems show ?case
    by (subst (asm) codec_find_subsequence.simps) (auto split: if_splits dest: Cons.IH)
qed

lemma Codec_decode_step_shorter:
  assumes "Codec_decode_step st src = Return (True, None, st', src')"
  shows "length src' < length src"
  using assms
  by (cases st) (auto simp: advance_def sub_usize_def MAGIC_PREFIX_def bind_outcome_eq_Return_iff
    split: option.splits if_splits dest: codec_find_subsequence_bound)

function Codec_decode :: "decoder_state \<Rightarrow> bytes \<Rightarrow> (bridge_command option \<times> decoder_state \<times> bytes) outcome" where
  "Codec_decode st src =
     (if src = [] then Return (None, st, src)
      else bind_outcome (Codec_decode_step st src) (\<lambda>(keep_going, retval, st', src').
        if retval = None \<and> keep_going then Codec_decode st' src' else Return (retval, st', src')))"
  by pat_completeness auto
termination
  by (relation "measure (length \<circ> snd)") (auto dest: Codec_decode_step_shorter)

declare Codec_decode.simps [simp del]

definition Codec_encode :: "bridge_command \<Rightarrow> bytes \<Rightarrow> bytes" where
  "Codec_encode item dst =
     (let dst = dst @ MAGIC_PREFIX;
          dst = dst @ [command_id item];
          dst = dst @ to_be_bytes (request_id item);
          len = (if length (command_data item) > 0xFFFF then 0xFFFF
                 else of_nat (length (command_data item))) :: u16;
          dst = dst @ to_be_bytes len;
          dst = dst @ take (unat len) (command_data item)
      in dst)"


text \<open>
  The reader of \<^verbatim>\<open>Framed\<close> calls \<^verbatim>\<open>decode\<close> until it returns \<^verbatim>\<open>None\<close>, then waits for more bytes.
\<close>

lemma Codec_decode_Nil [simp]: "Codec_decode st [] = Return (None, st, [])"
  by (simp add: Codec_decode.simps)

lemma Codec_decode_step_retval:
  assumes "Codec_decode_step st src = Return (keep, Some c, st', src')"
  shows "st \<noteq> WaitingForMagic \<and> st' = WaitingForMagic \<and> length src' \<le> length src"
  using assms by (cases st) (auto simp: bind_outcome_eq_Return_iff split: if_splits option.splits)

lemma Codec_decode_Some_shorter:
  "Codec_decode st src = Return (Some c, st', src') \<Longrightarrow>
    st' = WaitingForMagic \<and> length src' \<le> length src \<and> (st = WaitingForMagic \<longrightarrow> length src' < length src)"
proof (induction st src rule: Codec_decode.induct)
  case (1 st src)
  then have ne: "src \<noteq> []" by auto
  with "1.prems" obtain keep ret st1 src1 where step: "Codec_decode_step st src = Return (keep, ret, st1, src1)"
    and rest: "(if ret = None \<and> keep then Codec_decode st1 src1 else Return (ret, st1, src1)) = Return (Some c, st', src')"
    by (subst (asm) Codec_decode.simps) (auto simp: bind_outcome_eq_Return_iff)
  show ?case
  proof (cases "ret = None \<and> keep")
    case True
    have "Codec_decode st1 src1 = Return (Some c, st', src')" using rest True by simp
    from "1.IH" [OF ne step refl refl refl True this] Codec_decode_step_shorter [of st src st1 src1] True step
    show ?thesis by auto
  next
    case False
    with rest step Codec_decode_step_retval [of st src keep c st' src'] show ?thesis by (auto split: if_splits)
  qed
qed

function Codec_drain :: "decoder_state \<Rightarrow> bytes \<Rightarrow> (bridge_command list \<times> decoder_state \<times> bytes) outcome" where
  "Codec_drain st src =
     bind_outcome (Codec_decode st src) (\<lambda>(retval, st', src').
       case retval of
         None \<Rightarrow> Return ([], st', src')
       | Some c \<Rightarrow> bind_outcome (Codec_drain st' src') (\<lambda>(cs, rest). Return (c # cs, rest)))"
  by pat_completeness auto
termination
proof (relation "measure (\<lambda>(st, src). 2 * length src + (if st = WaitingForMagic then 0 else 1))")
qed (auto dest!: Codec_decode_Some_shorter)

declare Codec_drain.simps [simp del]

fun Codec_run :: "bytes list \<Rightarrow> decoder_state \<Rightarrow> bytes \<Rightarrow> (bridge_command list \<times> decoder_state \<times> bytes) outcome" where
  "Codec_run [] st src = Return ([], st, src)"
| "Codec_run (chunk # chunks) st src =
     bind_outcome (Codec_drain st (src @ chunk)) (\<lambda>(cs, st, src).
     bind_outcome (Codec_run chunks st src) (\<lambda>(cs', rest). Return (cs @ cs', rest)))"

section \<open>Decoding in pieces\<close>

lemma codec_find_subsequence_append_Some:
  "codec_find_subsequence h n = Some k \<Longrightarrow> codec_find_subsequence (h @ extra) n = Some k"
proof (induction h arbitrary: k)
  case Nil
  then show ?case by (subst (asm) codec_find_subsequence.simps, subst codec_find_subsequence.simps) (auto split: if_splits)
next
  case (Cons x h)
  have "take (length n) (x # h @ extra) = take (length n) (x # h)" if "length n \<le> Suc (length h)"
    using that by (simp flip: append_Cons)
  with Cons.prems show ?case
    by (subst (asm) codec_find_subsequence.simps, subst codec_find_subsequence.simps)
      (auto split: if_splits simp: Cons.IH not_less)
qed

lemma codec_find_subsequence_append_None:
  "codec_find_subsequence h n = None \<Longrightarrow> length n \<le> length h \<Longrightarrow>
    codec_find_subsequence (h @ extra) n =
      map_option ((+) (length h - length n)) (codec_find_subsequence (drop (length h - length n) h @ extra) n)"
proof (induction h)
  case Nil
  then show ?case by (simp add: option.map_ident)
next
  case (Cons x h)
  show ?case
  proof (cases "length n \<le> length h")
    case True
    from Cons.prems True have no: "take (length n) (x # h) \<noteq> n" "codec_find_subsequence h n = None"
      by (subst (asm) codec_find_subsequence.simps, force split: if_splits)+
    have "codec_find_subsequence ((x # h) @ extra) n = map_option Suc (codec_find_subsequence (h @ extra) n)"
      using no(1) True by (subst codec_find_subsequence.simps) (auto simp: take_Cons' split: if_splits)
    also have "\<dots> = map_option ((+) (Suc (length h - length n)))
        (codec_find_subsequence (drop (length h - length n) h @ extra) n)"
      by (cases "codec_find_subsequence (drop (length h - length n) h @ extra) n")
        (simp_all add: Cons.IH [OF no(2) True])
    finally show ?thesis using True
      by (cases "codec_find_subsequence (drop (length h - length n) h @ extra) n") (simp_all add: Suc_diff_le)
  next
    case False
    with Cons.prems(2) have "length (x # h) - length n = 0" by simp
    then show ?thesis by (simp only: drop_0) (simp add: option.map_ident)
  qed
qed

lemma Codec_decode_step_append:
  assumes "Codec_decode_step st src = Return (True, r, st', src')"
  shows "Codec_decode_step st (src @ extra) = Return (True, r, st', src' @ extra)"
  using assms
  by (cases st) (auto simp: advance_def bind_outcome_eq_Return_iff codec_find_subsequence_append_Some
    hd_append Suc_le_eq split: if_splits option.splits dest: codec_find_subsequence_bound)

lemma Codec_decode_step_stuck:
  assumes "Codec_decode_step st src = Return (False, r, st', src')"
  shows "r = None \<and> st' = st \<and> (st \<noteq> WaitingForMagic \<longrightarrow> src' = src) \<and>
    (st = WaitingForMagic \<longrightarrow> codec_find_subsequence src MAGIC_PREFIX = None \<and> 3 \<le> length src \<and>
      src' = drop (length src - 3) src)"
  using assms
  by (cases st) (auto simp: advance_def sub_usize_def bind_outcome_eq_Return_iff
    split: if_splits option.splits)

lemma Codec_decode_magic_skip:
  assumes "codec_find_subsequence src MAGIC_PREFIX = None" "3 \<le> length src"
  shows "Codec_decode WaitingForMagic (drop (length src - 3) src @ extra) =
    Codec_decode WaitingForMagic (src @ extra)"
proof -
  let ?d = "length src - 3"
  have *: "codec_find_subsequence (src @ extra) MAGIC_PREFIX =
      map_option ((+) ?d) (codec_find_subsequence (drop ?d src @ extra) MAGIC_PREFIX)"
    using codec_find_subsequence_append_None [OF assms(1)] assms(2) by simp
  have "Codec_decode_step WaitingForMagic (drop ?d src @ extra) = Codec_decode_step WaitingForMagic (src @ extra)"
  proof (cases "codec_find_subsequence (drop ?d src @ extra) MAGIC_PREFIX")
    case None
    with * have none: "codec_find_subsequence (src @ extra) MAGIC_PREFIX = None" by simp
    show ?thesis using None none assms(2) by (simp add: advance_def sub_usize_def add.commute)
  next
    case (Some k)
    with * have some: "codec_find_subsequence (src @ extra) MAGIC_PREFIX = Some (?d + k)" by simp
    have "?d + k + 3 \<le> length (src @ extra)" "k + 3 \<le> length (drop ?d src @ extra)"
      using codec_find_subsequence_bound [OF some] codec_find_subsequence_bound [OF Some] by simp_all
    moreover have "drop (?d + k + 3) (src @ extra) = drop (k + 3) (drop ?d src @ extra)"
      using assms(2) by (simp add: add.commute add.left_commute)
    ultimately show ?thesis
      unfolding Codec_decode_step.simps Some some advance_def by simp
  qed
  moreover have "src \<noteq> []" "drop ?d src \<noteq> []" using assms(2) by auto
  ultimately show ?thesis by (subst (1 2) Codec_decode.simps) simp
qed


lemma Codec_decode_nonempty:
  assumes "Codec_decode st src = Return (ret, st', src')" "src \<noteq> []"
  obtains (go) st1 src1 where "Codec_decode_step st src = Return (True, None, st1, src1)"
      "Codec_decode st1 src1 = Return (ret, st', src')"
  | (stop) keep where "Codec_decode_step st src = Return (keep, ret, st', src')" "ret \<noteq> None \<or> \<not> keep"
proof -
  have "Codec_decode st src = bind_outcome (Codec_decode_step st src) (\<lambda>(keep_going, retval, st', src').
      if retval = None \<and> keep_going then Codec_decode st' src' else Return (retval, st', src'))"
    using assms(2) by (subst Codec_decode.simps) simp
  with assms(1) obtain keep ret1 st1 src1 where step: "Codec_decode_step st src = Return (keep, ret1, st1, src1)"
    and rest: "(if ret1 = None \<and> keep then Codec_decode st1 src1 else Return (ret1, st1, src1)) = Return (ret, st', src')"
    by (auto simp: bind_outcome_eq_Return_iff)
  show thesis
  proof (cases "ret1 = None \<and> keep")
    case True
    with step rest show thesis by (intro go) simp_all
  next
    case False
    with step rest show thesis by (intro stop) simp_all
  qed
qed

lemma Codec_decode_Some_append:
  "Codec_decode st src = Return (Some c, st', src') \<Longrightarrow>
    Codec_decode st (src @ extra) = Return (Some c, st', src' @ extra)"
proof (induction "length src" arbitrary: st src rule: less_induct)
  case less
  then have ne: "src \<noteq> []" by auto
  from less.prems ne show ?case
  proof (cases rule: Codec_decode_nonempty)
    case (go st1 src1)
    with less.hyps [OF Codec_decode_step_shorter [OF go(1)] go(2)] ne show ?thesis
      by (subst Codec_decode.simps) (simp add: Codec_decode_step_append)
  next
    case (stop keep)
    then have keep: "keep" using Codec_decode_step_stuck [of st src "Some c"] by (cases keep) auto
    with stop(1) ne show ?thesis by (subst Codec_decode.simps) (simp add: Codec_decode_step_append)
  qed
qed

lemma Codec_decode_None_append:
  "Codec_decode st src = Return (None, st', src') \<Longrightarrow>
    Codec_decode st (src @ extra) = Codec_decode st' (src' @ extra)"
proof (induction "length src" arbitrary: st src rule: less_induct)
  case less
  show ?case
  proof (cases "src = []")
    case True
    with less.prems show ?thesis by simp
  next
    case ne: False
    from less.prems ne show ?thesis
    proof (cases rule: Codec_decode_nonempty)
      case (go st1 src1)
      with less.hyps [OF Codec_decode_step_shorter [OF go(1)] go(2)] ne show ?thesis
        by (subst Codec_decode.simps) (simp add: Codec_decode_step_append)
    next
      case (stop keep)
      then have "Codec_decode_step st src = Return (False, None, st', src')" by (cases keep) auto
      from Codec_decode_step_stuck [OF this] show ?thesis
        by (cases "st = WaitingForMagic") (auto simp: Codec_decode_magic_skip)
    qed
  qed
qed

text \<open>Draining a longer buffer is draining its start and going on with the rest.\<close>

lemma Codec_drain_append:
  "Codec_drain st src = Return (out, st', src') \<Longrightarrow>
    Codec_drain st (src @ extra) =
      bind_outcome (Codec_drain st' (src' @ extra)) (\<lambda>(out', rest). Return (out @ out', rest))"
proof (induction st src arbitrary: out rule: Codec_drain.induct)
  case (1 st src)
  from "1.prems" obtain ret st1 src1 where dec: "Codec_decode st src = Return (ret, st1, src1)"
    by (subst (asm) Codec_drain.simps) (auto simp: bind_outcome_eq_Return_iff)
  show ?case
  proof (cases ret)
    case None
    with "1.prems" dec have "out = []" "st' = st1" "src' = src1"
      by (subst (asm) Codec_drain.simps, simp)+
    moreover have "Codec_drain st (src @ extra) = Codec_drain st1 (src1 @ extra)"
      using Codec_decode_None_append [of st src st1 src1 extra] dec None
      by (subst (1 2) Codec_drain.simps) simp
    ultimately show ?thesis by (cases "Codec_drain st1 (src1 @ extra)") auto
  next
    case (Some c)
    with "1.prems" dec obtain cs where cs: "Codec_drain st1 src1 = Return (cs, st', src')" "out = c # cs"
      by (subst (asm) Codec_drain.simps) (auto simp: bind_outcome_eq_Return_iff)
    from "1.IH" [OF dec refl refl Some cs(1)] show ?thesis
      using Codec_decode_Some_append [of st src c st1 src1 extra] dec Some cs(2)
      by (subst Codec_drain.simps) (cases "Codec_drain st' (src' @ extra)"; auto)
  qed
qed

lemma Codec_drain_Nil [simp]: "Codec_drain st [] = Return ([], st, [])"
  by (simp add: Codec_drain.simps)

lemma Codec_run_snoc:
  "Codec_run (chunks @ [chunk]) st src =
    bind_outcome (Codec_run chunks st src) (\<lambda>(cs, st, src).
      bind_outcome (Codec_drain st (src @ chunk)) (\<lambda>(cs', rest). Return (cs @ cs', rest)))"
proof (induction chunks arbitrary: st src)
  case Nil
  then show ?case by (cases "Codec_drain st (src @ chunk)") auto
next
  case (Cons c chunks)
  show ?case
  proof (cases "Codec_drain st (src @ c)")
    case (Return r)
    then obtain cs st' src' where r: "Codec_drain st (src @ c) = Return (cs, st', src')" by (cases r) auto
    show ?thesis
      by (cases "Codec_run chunks st' src'")
        (auto simp: r Cons.IH bind_outcome_def split: outcome.splits)
  qed simp
qed

theorem Codec_run_pieces:
  "Codec_run chunks WaitingForMagic [] =
    (if \<exists>k \<le> length chunks. Codec_drain WaitingForMagic (concat (take k chunks)) = Panic then Panic
     else Codec_drain WaitingForMagic (concat chunks))"
proof (induction chunks rule: rev_induct)
  case Nil
  then show ?case by simp
next
  case (snoc chunk chunks)
  let ?drain = "Codec_drain WaitingForMagic"
  have upto: "(\<exists>k \<le> length (chunks @ [chunk]). ?drain (concat (take k (chunks @ [chunk]))) = Panic) \<longleftrightarrow>
      (\<exists>k \<le> length chunks. ?drain (concat (take k chunks)) = Panic) \<or> ?drain (concat (chunks @ [chunk])) = Panic"
    by (auto simp: le_Suc_eq)
  show ?case
  proof (cases "\<exists>k \<le> length chunks. ?drain (concat (take k chunks)) = Panic")
    case True
    with snoc.IH upto show ?thesis by (simp add: Codec_run_snoc)
  next
    case False
    then have "?drain (concat chunks) \<noteq> Panic" by (metis le_refl take_all)
    then obtain cs st' src' where r: "?drain (concat chunks) = Return (cs, st', src')"
      by (cases "?drain (concat chunks)") auto
    with snoc.IH False have "Codec_run chunks WaitingForMagic [] = Return (cs, st', src')" by simp
    with Codec_drain_append [OF r, of chunk] upto False show ?thesis
      by (auto simp: Codec_run_snoc)
  qed
qed


section \<open>Decoding what was encoded\<close>

definition sendable :: "bridge_command \<Rightarrow> bool" where
  "sendable c \<longleftrightarrow> command_data c \<noteq> [] \<and> length (command_data c) \<le> 0xFFFF"

definition encoded :: "bridge_command \<Rightarrow> bytes" where
  "encoded c = Codec_encode c []"

lemma encoded_eq:
  assumes "length (command_data c) \<le> 0xFFFF"
  shows "encoded c = MAGIC_PREFIX @ [command_id c] @ to_be_bytes (request_id c) @
    to_be_bytes (of_nat (length (command_data c)) :: u16) @ command_data c"
  using assms by (simp add: encoded_def Codec_encode_def Let_def take_bit_nat_eq_self unat_of_nat)

lemma Codec_decode_go:
  assumes "Codec_decode_step st src = Return (True, None, st', src')" "src \<noteq> []"
  shows "Codec_decode st src = Codec_decode st' src'"
  using assms by (subst Codec_decode.simps) simp

lemma find_magic: "codec_find_subsequence (MAGIC_PREFIX @ extra) MAGIC_PREFIX = Some 0"
  by (subst codec_find_subsequence.simps) simp

lemma Codec_decode_magic: "Codec_decode WaitingForMagic (MAGIC_PREFIX @ extra) = Codec_decode WaitingForCommandId extra"
  by (rule Codec_decode_go) (simp_all add: find_magic advance_def, simp add: MAGIC_PREFIX_def)

lemma Codec_decode_header:
  assumes "length (command_data c) \<le> 0xFFFF"
  shows "Codec_decode WaitingForMagic (encoded c @ extra) =
    Codec_decode (WaitingForData (command_id c) (request_id c) (length (command_data c))) (command_data c @ extra)"
proof -
  have len: "unat (of_nat (length (command_data c)) :: u16) = length (command_data c)"
    using assms by (simp add: unat_of_nat take_bit_nat_eq_self)
  have ne: "to_be_bytes (w :: u16) \<noteq> []" for w by (simp flip: length_0_conv)
  have "Codec_decode WaitingForMagic (encoded c @ extra) = Codec_decode WaitingForCommandId
      ([command_id c] @ to_be_bytes (request_id c) @ to_be_bytes (of_nat (length (command_data c)) :: u16) @ command_data c @ extra)"
    unfolding encoded_eq [OF assms] append_assoc by (rule Codec_decode_magic)
  also have "\<dots> = Codec_decode (WaitingForRequestId (command_id c))
      (to_be_bytes (request_id c) @ to_be_bytes (of_nat (length (command_data c)) :: u16) @ command_data c @ extra)"
    by (rule Codec_decode_go) simp_all
  also have "\<dots> = Codec_decode (WaitingForLength (command_id c) (request_id c))
      (to_be_bytes (of_nat (length (command_data c)) :: u16) @ command_data c @ extra)"
    by (rule Codec_decode_go) (simp_all add: from_be_bytes_to_be_bytes ne)
  also have "\<dots> = Codec_decode (WaitingForData (command_id c) (request_id c) (length (command_data c))) (command_data c @ extra)"
    by (rule Codec_decode_go) (use len ne in \<open>simp_all add: from_be_bytes_to_be_bytes\<close>)
  finally show ?thesis .
qed

lemma Codec_decode_encoded:
  assumes "sendable c"
  shows "Codec_decode WaitingForMagic (encoded c @ extra) = Return (Some c, WaitingForMagic, extra)"
  using assms unfolding sendable_def
  by (subst Codec_decode_header, simp, subst Codec_decode.simps) simp

lemma Codec_decode_no_panic:
  "st \<noteq> WaitingForMagic \<Longrightarrow> Codec_decode st src \<noteq> Panic"
proof (induction "length src" arbitrary: st src rule: less_induct)
  case less
  have "Codec_decode_step st src \<noteq> Panic" using less.prems by (cases st) auto
  then obtain keep ret st1 src1 where step: "Codec_decode_step st src = Return (keep, ret, st1, src1)"
    by (cases "Codec_decode_step st src") auto
  have "ret = None \<Longrightarrow> keep \<Longrightarrow> st1 \<noteq> WaitingForMagic" using step less.prems by (cases st) (auto split: if_splits)
  with step less.hyps [of src1 st1] Codec_decode_step_shorter [of st src st1 src1] show ?case
    by (subst Codec_decode.simps) auto
qed

text \<open>The beginning of a frame is not taken for a command, and panics only when shorter than the magic bytes.\<close>

lemma Codec_decode_partial:
  assumes "sendable c" "encoded c = part @ extra" "extra \<noteq> []"
  shows "Codec_decode WaitingForMagic part = Panic \<longleftrightarrow> length part \<in> {1, 2}"
    and "Codec_decode WaitingForMagic part \<noteq> Return (Some d, st, src)"
proof -
  have whole: "Codec_decode WaitingForMagic (part @ extra) = Return (Some c, WaitingForMagic, [])"
    using Codec_decode_encoded [OF assms(1), of "[]"] assms(2) by simp
  show "Codec_decode WaitingForMagic part \<noteq> Return (Some d, st, src)"
    using Codec_decode_Some_append [of WaitingForMagic part d st src extra] whole assms(3) by auto
  have eq: "part = take (length part) (MAGIC_PREFIX @ [command_id c] @ to_be_bytes (request_id c) @
      to_be_bytes (of_nat (length (command_data c)) :: u16) @ command_data c)"
    using encoded_eq assms(1,2) by (metis append_eq_conv_conj sendable_def)
  consider "part = []" | "length part \<in> {1, 2}" | "3 \<le> length part"
    by (cases "length part < 3") (auto simp: less_Suc_eq numeral_3_eq_3)
  then show "Codec_decode WaitingForMagic part = Panic \<longleftrightarrow> length part \<in> {1, 2}"
  proof cases
    case 3
    then have "part = MAGIC_PREFIX @ take (length part - 3) ([command_id c] @ to_be_bytes (request_id c) @
        to_be_bytes (of_nat (length (command_data c)) :: u16) @ command_data c)"
      using eq unfolding take_append [of _ MAGIC_PREFIX] by simp
    then have "Codec_decode WaitingForMagic part \<noteq> Panic"
      by (metis Codec_decode_magic Codec_decode_no_panic decoder_state.distinct(1))
    with 3 show ?thesis by auto
  next
    case 2
    then have "part \<noteq> []" "length part < 3" by auto
    then have "codec_find_subsequence part MAGIC_PREFIX = None" by (subst codec_find_subsequence.simps) simp
    with 2 \<open>part \<noteq> []\<close> show ?thesis by (subst Codec_decode.simps) (auto simp: sub_usize_def)
  qed simp
qed


text \<open>How far into a frame the first \<open>n\<close> bytes of encoded commands reach.\<close>

fun frame_offset :: "bridge_command list \<Rightarrow> nat \<Rightarrow> nat" where
  "frame_offset [] n = 0"
| "frame_offset (c # cs) n = (if n < length (encoded c) then n else frame_offset cs (n - length (encoded c)))"

lemma Codec_drain_encoded:
  assumes "sendable c"
  shows "Codec_drain WaitingForMagic (encoded c @ extra) =
    bind_outcome (Codec_drain WaitingForMagic extra) (\<lambda>(cs, rest). Return (c # cs, rest))"
  by (subst Codec_drain.simps) (simp add: Codec_decode_encoded [OF assms])

lemma Codec_drain_prefix:
  assumes "\<forall>c \<in> set cmds. sendable c" "concat (map encoded cmds) = part @ extra"
  shows "Codec_drain WaitingForMagic part = Panic \<longleftrightarrow> frame_offset cmds (length part) \<in> {1, 2}"
  using assms
proof (induction cmds arbitrary: part)
  case Nil
  then show ?case by simp
next
  case (Cons c cmds)
  then have c: "sendable c" by simp
  show ?case
  proof (cases "length (encoded c) \<le> length part")
    case True
    with Cons.prems(2) obtain part' where part: "part = encoded c @ part'" "concat (map encoded cmds) = part' @ extra"
      by (auto simp: append_eq_append_conv2)
    have "Codec_drain WaitingForMagic part' = Panic \<longleftrightarrow> frame_offset cmds (length part') \<in> {1, 2}"
      using Cons.prems(1) part(2) by (intro Cons.IH) simp_all
    then show ?thesis unfolding part(1) Codec_drain_encoded [OF c]
      by (cases "Codec_drain WaitingForMagic part'") auto
  next
    case False
    then obtain extra' where enc: "encoded c = part @ extra'" "extra' \<noteq> []"
      using Cons.prems(2) by (auto simp: append_eq_append_conv2)
    have "Codec_drain WaitingForMagic part = Panic \<longleftrightarrow> Codec_decode WaitingForMagic part = Panic"
    proof (cases "Codec_decode WaitingForMagic part")
      case (Return r)
      then obtain ret st src where r: "Codec_decode WaitingForMagic part = Return (ret, st, src)" by (cases r) auto
      then have "ret = None" using Codec_decode_partial(2) [OF c enc] by (cases ret) auto
      with r show ?thesis by (subst Codec_drain.simps) simp
    qed (subst Codec_drain.simps, simp)
    with Codec_decode_partial(1) [OF c enc] False show ?thesis by simp
  qed
qed

lemma Codec_drain_all:
  "\<forall>c \<in> set cmds. sendable c \<Longrightarrow>
    Codec_drain WaitingForMagic (concat (map encoded cmds)) = Return (cmds, WaitingForMagic, [])"
  by (induction cmds) (simp_all add: Codec_drain_encoded)

section \<open>Properties\<close>

text \<open>
  C36. Commands with at least one and at most 65535 bytes of data that are sent one after the other
  are all delivered, however the bytes are cut into pieces, except when a piece ends one or two bytes
  into a frame: then the decoder subtracts the length of the magic bytes from a smaller length and
  panics.
\<close>

theorem Codec_delivers_unless_split:
  assumes "\<forall>c \<in> set cmds. sendable c" "concat chunks = concat (map (\<lambda>c. Codec_encode c []) cmds)"
  shows "Codec_run chunks Codec_new [] =
    (if \<exists>k \<le> length chunks. frame_offset cmds (length (concat (take k chunks))) \<in> {1, 2} then Panic
     else Return (cmds, WaitingForMagic, []))"
proof -
  have enc: "concat chunks = concat (map encoded cmds)" using assms(2) by (simp add: encoded_def [abs_def])
  have "Codec_drain WaitingForMagic (concat (take k chunks)) = Panic \<longleftrightarrow>
      frame_offset cmds (length (concat (take k chunks))) \<in> {1, 2}" for k
  proof (rule Codec_drain_prefix [OF assms(1)])
    show "concat (map encoded cmds) = concat (take k chunks) @ concat (drop k chunks)"
      unfolding enc [symmetric] by (metis append_take_drop_id concat_append)
  qed
  then show ?thesis
    unfolding Codec_new_def Codec_run_pieces enc Codec_drain_all [OF assms(1)] by presburger
qed

theorem Codec_delivers_unless_split_witness:
  "Codec_run [[0x5A, 0x50, 0x42, 1, 0], [2, 0, 1, 7]] Codec_new [] =
      Return ([\<lparr>command_id = 1, request_id = 2, command_data = [7]\<rparr>], WaitingForMagic, [])"
proof -
  let ?c = "\<lparr>command_id = 1, request_id = 2, command_data = [7]\<rparr>"
  have enc: "Codec_encode ?c [] = [0x5A, 0x50, 0x42, 1, 0, 2, 0, 1, 7]"
    by (simp add: Codec_encode_def MAGIC_PREFIX_def to_be_bytes_u16)
  let ?chunks = "[[0x5A, 0x50, 0x42, 1, 0], [2, 0, 1, 7]] :: bytes list"
  have "frame_offset [?c] (length (concat (take k ?chunks))) \<notin> {1, 2}" if "k \<le> length ?chunks" for k
  proof -
    have "k = 0 \<or> k = 1 \<or> k = 2" using that by (simp add: le_Suc_eq numeral_2_eq_2)
    then show ?thesis by (auto simp: encoded_def enc numeral_2_eq_2)
  qed
  then have "\<not> (\<exists>k \<le> length ?chunks. frame_offset [?c] (length (concat (take k ?chunks))) \<in> {1, 2})" by blast
  with Codec_delivers_unless_split [of "[?c]" ?chunks] show ?thesis
    by (simp only: if_False) (simp add: sendable_def enc)
qed

text \<open>
  A command without data is not delivered when its last byte arrives but when a byte of the
  next one does, and that byte is left alone for the decoder to panic on.
\<close>

theorem Codec_empty_command_waits:
  assumes "command_data c = []"
  shows "Codec_run [Codec_encode c []] Codec_new [] =
      Return ([], WaitingForData (command_id c) (request_id c) 0, []) \<and>
    Codec_decode (WaitingForData (command_id c) (request_id c) 0) [b] = Return (Some c, WaitingForMagic, [b]) \<and>
    Codec_run [Codec_encode c [], [b]] Codec_new [] = Panic"
proof -
  have dec: "Codec_decode WaitingForMagic (encoded c) = Return (None, WaitingForData (command_id c) (request_id c) 0, [])"
    using Codec_decode_header [of c "[]"] assms by simp
  have next_byte: "Codec_decode (WaitingForData (command_id c) (request_id c) 0) [b] = Return (Some c, WaitingForMagic, [b])"
    using assms by (subst Codec_decode.simps) simp
  have "Codec_decode WaitingForMagic [b] = Panic"
    by (subst Codec_decode.simps) (simp add: codec_find_subsequence.simps sub_usize_def)
  then have "Codec_drain (WaitingForData (command_id c) (request_id c) 0) [b] = Panic"
    by (subst Codec_drain.simps, subst Codec_drain.simps) (simp add: next_byte)
  moreover have "Codec_drain WaitingForMagic (encoded c) = Return ([], WaitingForData (command_id c) (request_id c) 0, [])"
    by (subst Codec_drain.simps) (simp add: dec)
  ultimately show ?thesis using next_byte by (simp add: Codec_new_def encoded_def)
qed

end
