(* ===== verification/Radio_Bridge.thy ===== *)
theory Radio_Bridge
  imports Serial_Codec
begin

unbundle bit_operations_syntax

text \<open>
  The radio service of the earlier stack: \<^verbatim>\<open>old_src/radio_bridge/raw_service.rs\<close>, which matches answers
  to requests by a counter, and \<^verbatim>\<open>service.rs\<close>, the operations of the radio.  The sending end of a
  oneshot channel is a value \<open>tx\<close> and answering it an event; the two unbounded channels are lists of
  what was sent, with a flag that says whether the other end is there.
\<close>

section \<open>Requests and answers\<close>

datatype request_command =
    RadioPrepare | RadioTransmit | RadioSend | RadioChannelClear | RadioOn | RadioOff
  | RadioGetValue | RadioSetValue | RadioGetObject | RadioSetObject | RadioInitPendingTable | RadioSetPending

fun RequestCommand_as_u8 :: "request_command \<Rightarrow> u8" where
  "RequestCommand_as_u8 RadioPrepare = 0"
| "RequestCommand_as_u8 RadioTransmit = 1"
| "RequestCommand_as_u8 RadioSend = 2"
| "RequestCommand_as_u8 RadioChannelClear = 3"
| "RequestCommand_as_u8 RadioOn = 4"
| "RequestCommand_as_u8 RadioOff = 5"
| "RequestCommand_as_u8 RadioGetValue = 6"
| "RequestCommand_as_u8 RadioSetValue = 7"
| "RequestCommand_as_u8 RadioGetObject = 8"
| "RequestCommand_as_u8 RadioSetObject = 9"
| "RequestCommand_as_u8 RadioInitPendingTable = 10"
| "RequestCommand_as_u8 RadioSetPending = 11"

record raw_request =
  rq_command :: request_command
  rq_data :: bytes

datatype raw_error = RawError_BridgeError bytes | RawError_OneshotError

type_synonym raw_answer = "(bytes, raw_error) result"

record 'tx dispatcher =
  next_available_request_id :: u16
  in_flight :: "u16 \<rightharpoonup> 'tx"

definition Dispatcher_new :: "'tx dispatcher" where
  "Dispatcher_new = \<lparr>next_available_request_id = 0, in_flight = Map.empty\<rparr>"

text \<open>The sum of 16-bit numbers panics when it does not fit.\<close>

definition Dispatcher_new_request :: "'tx \<Rightarrow> 'tx dispatcher \<Rightarrow> (u16 \<times> 'tx dispatcher) outcome" where
  "Dispatcher_new_request sender self =
     (let rid = next_available_request_id self
      in if unat rid + 1 < 2 ^ 16 then
           Return (rid, self\<lparr>next_available_request_id := rid + 1, in_flight := (in_flight self)(rid \<mapsto> sender)\<rparr>)
         else Panic)"

definition Dispatcher_resolve :: "u16 \<Rightarrow> bytes \<Rightarrow> 'tx dispatcher \<Rightarrow> ('tx \<times> raw_answer) list \<times> 'tx dispatcher" where
  "Dispatcher_resolve rid data self =
     (case in_flight self rid of
        Some x \<Rightarrow> ([(x, Ok data)], self\<lparr>in_flight := (in_flight self)(rid := None)\<rparr>)
      | None \<Rightarrow> ([], self))"

definition Dispatcher_reject :: "u16 \<Rightarrow> bytes \<Rightarrow> 'tx dispatcher \<Rightarrow> ('tx \<times> raw_answer) list \<times> 'tx dispatcher" where
  "Dispatcher_reject rid error self =
     (case in_flight self rid of
        Some x \<Rightarrow> ([(x, Err (RawError_BridgeError error))], self\<lparr>in_flight := (in_flight self)(rid := None)\<rparr>)
      | None \<Rightarrow> ([], self))"

record bridge_packet =
  bp_packet :: bytes
  bp_rssi :: u8
  bp_link_quality :: u8

record 'tx bridge_output =
  answers :: "('tx \<times> raw_answer) list"
  packets :: "bridge_packet list"

definition handle_incoming_command :: "bridge_command \<Rightarrow> bool \<Rightarrow> 'tx dispatcher \<Rightarrow>
    ('tx bridge_output \<times> 'tx dispatcher) outcome" where
  "handle_incoming_command cmd packet_output_open dispatcher =
     (if command_id cmd = 0x80 then
        (case Dispatcher_resolve (request_id cmd) (command_data cmd) dispatcher of
           (sent, dispatcher) \<Rightarrow> Return (\<lparr>answers = sent, packets = []\<rparr>, dispatcher))
      else if command_id cmd = 0x81 then
        (case Dispatcher_reject (request_id cmd) (command_data cmd) dispatcher of
           (sent, dispatcher) \<Rightarrow> Return (\<lparr>answers = sent, packets = []\<rparr>, dispatcher))
      else if command_id cmd = 0xC0 then
        (let data = command_data cmd
         in if length data > 2 then
              if packet_output_open then
                Return (\<lparr>answers = [], packets = [\<lparr>bp_packet = take (length data - 2) data,
                  bp_rssi = data ! (length data - 2), bp_link_quality = data ! (length data - 1)\<rparr>]\<rparr>, dispatcher)
              else Panic
            else Return (\<lparr>answers = [], packets = []\<rparr>, dispatcher))
      else Return (\<lparr>answers = [], packets = []\<rparr>, dispatcher))"

definition RawBridgeService_call :: "'tx \<Rightarrow> raw_request \<Rightarrow> bool \<Rightarrow> 'tx dispatcher \<Rightarrow>
    (bridge_command \<times> 'tx dispatcher) outcome" where
  "RawBridgeService_call sender request command_sink_open dispatcher =
     bind_outcome (Dispatcher_new_request sender dispatcher) (\<lambda>(rid, dispatcher).
       if command_sink_open then
         Return (\<lparr>command_id = RequestCommand_as_u8 (rq_command request), request_id = rid,
                  command_data = rq_data request\<rparr>, dispatcher)
       else Panic)"

text \<open>The callers and the task that reads the serial port share the dispatcher.\<close>

datatype 'tx bridge_event = Event_Call 'tx raw_request | Event_Command bridge_command

record 'tx bridge_state =
  br_dispatcher :: "'tx dispatcher"
  br_sent :: "bridge_command list"
  br_answers :: "('tx \<times> raw_answer) list"
  br_packets :: "bridge_packet list"

fun bridge_step :: "'tx bridge_event \<Rightarrow> 'tx bridge_state \<Rightarrow> 'tx bridge_state outcome" where
  "bridge_step (Event_Call tx request) s =
     bind_outcome (RawBridgeService_call tx request True (br_dispatcher s)) (\<lambda>(cmd, d).
       Return (s\<lparr>br_dispatcher := d, br_sent := br_sent s @ [cmd]\<rparr>))"
| "bridge_step (Event_Command cmd) s =
     bind_outcome (handle_incoming_command cmd True (br_dispatcher s)) (\<lambda>(out, d).
       Return (s\<lparr>br_dispatcher := d, br_answers := br_answers s @ answers out, br_packets := br_packets s @ packets out\<rparr>))"

definition bridge_start :: "'tx bridge_state" where
  "bridge_start = \<lparr>br_dispatcher = Dispatcher_new, br_sent = [], br_answers = [], br_packets = []\<rparr>"

fun bridge_run :: "'tx bridge_event list \<Rightarrow> 'tx bridge_state \<Rightarrow> 'tx bridge_state outcome" where
  "bridge_run [] s = Return s"
| "bridge_run (e # es) s = bind_outcome (bridge_step e s) (bridge_run es)"

section \<open>The operations of the radio\<close>

datatype bridge_param =
    PowerMode | Channel | PanId | ShortAddress | RxMode | TxMode | TxPower | CcaThreshold | Rssi | LastRssi
  | LastLinkQuality | LongAddress | LastPacketTimestamp | ChannelMin | ChannelMax | TxPowerMin | TxPowerMax

fun bridge_param_as_u16 :: "bridge_param \<Rightarrow> u16" where
  "bridge_param_as_u16 PowerMode = 0"
| "bridge_param_as_u16 Channel = 1"
| "bridge_param_as_u16 PanId = 2"
| "bridge_param_as_u16 ShortAddress = 3"
| "bridge_param_as_u16 RxMode = 4"
| "bridge_param_as_u16 TxMode = 5"
| "bridge_param_as_u16 TxPower = 6"
| "bridge_param_as_u16 CcaThreshold = 7"
| "bridge_param_as_u16 Rssi = 8"
| "bridge_param_as_u16 LastRssi = 9"
| "bridge_param_as_u16 LastLinkQuality = 10"
| "bridge_param_as_u16 LongAddress = 11"
| "bridge_param_as_u16 LastPacketTimestamp = 12"
| "bridge_param_as_u16 ChannelMin = 13"
| "bridge_param_as_u16 ChannelMax = 14"
| "bridge_param_as_u16 TxPowerMin = 15"
| "bridge_param_as_u16 TxPowerMax = 16"

datatype bridge_error =
    BridgeError_RawError raw_error
  | BridgeError_UnexpectedResponseSize
  | BridgeError_ErrorCode usize
  | BridgeError_Unsupported


text \<open>A type that implements \<^verbatim>\<open>FromToRadioValue\<close> is given by its two conversions.\<close>

record 't radio_value =
  to_radio_value :: "'t \<Rightarrow> (u16, bridge_error) result"
  from_radio_value :: "u16 \<Rightarrow> ('t, bridge_error) result"

definition u16_value :: "u16 radio_value" where
  "u16_value = \<lparr>to_radio_value = Ok, from_radio_value = Ok\<rparr>"

definition bool_value :: "bool radio_value" where
  "bool_value =
     \<lparr>to_radio_value = (\<lambda>b. if b then Ok 1 else Ok 0),
      from_radio_value = (\<lambda>value. if value = 0 then Ok False else if value = 1 then Ok True
        else Err BridgeError_Unsupported)\<rparr>"

record bridge_rx_mode =
  brx_address_filter :: bool
  brx_autoack :: bool
  brx_poll_mode :: bool

definition bridge_rx_mode_value :: "bridge_rx_mode radio_value" where
  "bridge_rx_mode_value =
     \<lparr>to_radio_value = (\<lambda>m. Ok
        (push_bit 0 (bool_to_word (brx_address_filter m)) OR push_bit 1 (bool_to_word (brx_autoack m)) OR
         push_bit 2 (bool_to_word (brx_poll_mode m)))),
      from_radio_value = (\<lambda>param.
        if drop_bit 3 param \<noteq> 0 then Err BridgeError_Unsupported
        else Ok \<lparr>brx_address_filter = (drop_bit 0 param AND 0x1 \<noteq> 0),
                 brx_autoack = (drop_bit 1 param AND 0x1 \<noteq> 0),
                 brx_poll_mode = (drop_bit 2 param AND 0x1 \<noteq> 0)\<rparr>)\<rparr>"

text \<open>
  An operation sends a request at once and turns the answer into its result later, or fails at
  once.
\<close>

datatype 'a bridge_future =
    Failed bridge_error
  | Called raw_request "raw_answer \<Rightarrow> ('a, bridge_error) result"

definition status_result :: "u16 \<Rightarrow> raw_answer \<Rightarrow> (unit, bridge_error) result" where
  "status_result expected answer =
     and_then (map_err BridgeError_RawError answer) (\<lambda>data.
       if length data < 2 then Err BridgeError_UnexpectedResponseSize
       else
         (let retval = from_be_bytes (take 2 data) :: u16
          in if retval = expected then Ok () else Err (BridgeError_ErrorCode (unat retval))))"

definition RadioBridgeService_get_object :: "bridge_param \<Rightarrow> usize \<Rightarrow> bytes bridge_future" where
  "RadioBridgeService_get_object radio_param expected_size =
     Called \<lparr>rq_command = RadioGetObject,
             rq_data = to_be_bytes (bridge_param_as_u16 radio_param) @ to_be_bytes (of_nat expected_size :: u16)\<rparr>
       (\<lambda>answer. and_then (map_err BridgeError_RawError answer) (\<lambda>data.
          if length data < 2 then Err BridgeError_UnexpectedResponseSize
          else
            (let retval = from_be_bytes (take 2 data) :: u16;
                 data = drop 2 data
             in if retval \<noteq> 0 then Err (BridgeError_ErrorCode (unat retval))
                else if length data < expected_size then Err BridgeError_UnexpectedResponseSize
                else Ok data)))"

fun map_future :: "('a \<Rightarrow> 'b) \<Rightarrow> 'a bridge_future \<Rightarrow> 'b bridge_future" where
  "map_future f (Failed e) = Failed e"
| "map_future f (Called request handle) = Called request (\<lambda>answer. map_ok f (handle answer))"

definition RadioBridgeService_get_long_address :: "u64 bridge_future" where
  "RadioBridgeService_get_long_address =
     map_future (\<lambda>data. from_be_bytes (take 8 data)) (RadioBridgeService_get_object LongAddress 8)"

definition RadioBridgeService_get_value :: "'t radio_value \<Rightarrow> bridge_param \<Rightarrow> 't bridge_future" where
  "RadioBridgeService_get_value t radio_param =
     Called \<lparr>rq_command = RadioGetValue, rq_data = to_be_bytes (bridge_param_as_u16 radio_param)\<rparr>
       (\<lambda>answer. and_then (map_err BridgeError_RawError answer) (\<lambda>data.
          if length data < 2 then Err BridgeError_UnexpectedResponseSize
          else
            (let retval = from_be_bytes (take 2 data) :: u16;
                 data = drop 2 data
             in if retval \<noteq> 0 then Err (BridgeError_ErrorCode (unat retval))
                else if length data < 2 then Err BridgeError_UnexpectedResponseSize
                else from_radio_value t (from_be_bytes (take 2 data)))))"

definition RadioBridgeService_set_value :: "'t radio_value \<Rightarrow> bridge_param \<Rightarrow> 't \<Rightarrow> unit bridge_future" where
  "RadioBridgeService_set_value t radio_param value =
     (case to_radio_value t value of
        Ok request_value \<Rightarrow>
          Called \<lparr>rq_command = RadioSetValue,
                  rq_data = to_be_bytes (bridge_param_as_u16 radio_param) @ to_be_bytes request_value\<rparr>
            (status_result 0)
      | Err x \<Rightarrow> Failed x)"

definition RadioBridgeService_send :: "bytes \<Rightarrow> unit bridge_future" where
  "RadioBridgeService_send data = Called \<lparr>rq_command = RadioSend, rq_data = data\<rparr> (status_result 0)"

definition RadioBridgeService_on :: "unit bridge_future" where
  "RadioBridgeService_on = Called \<lparr>rq_command = RadioOn, rq_data = []\<rparr> (status_result 1)"

definition RadioBridgeService_init_pending_data_table :: "unit bridge_future" where
  "RadioBridgeService_init_pending_data_table =
     Called \<lparr>rq_command = RadioInitPendingTable, rq_data = []\<rparr> (status_result 0)"

definition RadioBridgeService_set_pending_data_ext :: "usize \<Rightarrow> u64 option \<Rightarrow> unit bridge_future" where
  "RadioBridgeService_set_pending_data_ext index address =
     Called \<lparr>rq_command = RadioSetPending,
             rq_data = [0x80 OR of_nat index] @ (case address of Some address \<Rightarrow> to_le_bytes address | None \<Rightarrow> [])\<rparr>
       (status_result 0)"

definition RadioBridgeService_set_pending_data_short :: "usize \<Rightarrow> (u16 \<times> u16) option \<Rightarrow> unit bridge_future" where
  "RadioBridgeService_set_pending_data_short index address =
     Called \<lparr>rq_command = RadioSetPending,
             rq_data = [0x7F AND of_nat index] @
               (case address of Some (panid, address) \<Rightarrow> to_le_bytes panid @ to_le_bytes address | None \<Rightarrow> [])\<rparr>
       (status_result 0)"

text \<open>The accessors that \<^verbatim>\<open>default_param_get_set!\<close> generates.\<close>

definition RadioBridgeService_get_power_mode where "RadioBridgeService_get_power_mode = RadioBridgeService_get_value bool_value PowerMode"
definition RadioBridgeService_set_power_mode where "RadioBridgeService_set_power_mode = RadioBridgeService_set_value bool_value PowerMode"
definition RadioBridgeService_get_channel where "RadioBridgeService_get_channel = RadioBridgeService_get_value u16_value Channel"
definition RadioBridgeService_set_channel where "RadioBridgeService_set_channel = RadioBridgeService_set_value u16_value Channel"
definition RadioBridgeService_get_pan_id where "RadioBridgeService_get_pan_id = RadioBridgeService_get_value u16_value PanId"
definition RadioBridgeService_set_pan_id where "RadioBridgeService_set_pan_id = RadioBridgeService_set_value u16_value PanId"
definition RadioBridgeService_get_short_address where "RadioBridgeService_get_short_address = RadioBridgeService_get_value u16_value ShortAddress"
definition RadioBridgeService_set_short_address where "RadioBridgeService_set_short_address = RadioBridgeService_set_value u16_value ShortAddress"
definition RadioBridgeService_get_rx_mode where "RadioBridgeService_get_rx_mode = RadioBridgeService_get_value bridge_rx_mode_value RxMode"
definition RadioBridgeService_set_rx_mode where "RadioBridgeService_set_rx_mode = RadioBridgeService_set_value bridge_rx_mode_value RxMode"
definition RadioBridgeService_get_tx_power where "RadioBridgeService_get_tx_power = RadioBridgeService_get_value u16_value TxPower"
definition RadioBridgeService_set_tx_power where "RadioBridgeService_set_tx_power = RadioBridgeService_set_value u16_value TxPower"
definition RadioBridgeService_get_channel_min where "RadioBridgeService_get_channel_min = RadioBridgeService_get_value u16_value ChannelMin"
definition RadioBridgeService_set_channel_min where "RadioBridgeService_set_channel_min = RadioBridgeService_set_value u16_value ChannelMin"
definition RadioBridgeService_get_channel_max where "RadioBridgeService_get_channel_max = RadioBridgeService_get_value u16_value ChannelMax"
definition RadioBridgeService_set_channel_max where "RadioBridgeService_set_channel_max = RadioBridgeService_set_value u16_value ChannelMax"
definition RadioBridgeService_get_tx_power_min where "RadioBridgeService_get_tx_power_min = RadioBridgeService_get_value u16_value TxPowerMin"
definition RadioBridgeService_set_tx_power_min where "RadioBridgeService_set_tx_power_min = RadioBridgeService_set_value u16_value TxPowerMin"
definition RadioBridgeService_get_tx_power_max where "RadioBridgeService_get_tx_power_max = RadioBridgeService_get_value u16_value TxPowerMax"
definition RadioBridgeService_set_tx_power_max where "RadioBridgeService_set_tx_power_max = RadioBridgeService_set_value u16_value TxPowerMax"


section \<open>Every request is answered by its own response\<close>

fun event_calls :: "'tx bridge_event \<Rightarrow> 'tx list" where
  "event_calls (Event_Call tx request) = [tx]"
| "event_calls (Event_Command cmd) = []"

abbreviation calls :: "'tx bridge_event list \<Rightarrow> 'tx list" where
  "calls es \<equiv> concat (map event_calls es)"

definition answer_of :: "bridge_command \<Rightarrow> raw_answer option" where
  "answer_of cmd =
     (if command_id cmd = 0x80 then Some (Ok (command_data cmd))
      else if command_id cmd = 0x81 then Some (Err (RawError_BridgeError (command_data cmd)))
      else None)"

lemma handle_incoming_command_eq:
  "handle_incoming_command cmd True d =
    Return (\<lparr>answers = (case answer_of cmd of None \<Rightarrow> [] | Some r \<Rightarrow>
               (case in_flight d (request_id cmd) of None \<Rightarrow> [] | Some tx \<Rightarrow> [(tx, r)])),
             packets = (if command_id cmd = 0xC0 \<and> length (command_data cmd) > 2 then
               [\<lparr>bp_packet = take (length (command_data cmd) - 2) (command_data cmd),
                 bp_rssi = command_data cmd ! (length (command_data cmd) - 2),
                 bp_link_quality = command_data cmd ! (length (command_data cmd) - 1)\<rparr>] else [])\<rparr>,
      if answer_of cmd = None then d else d\<lparr>in_flight := (in_flight d)(request_id cmd := None)\<rparr>)"
  by (cases "in_flight d (request_id cmd)")
    (auto simp: handle_incoming_command_def Dispatcher_resolve_def Dispatcher_reject_def answer_of_def Let_def
      fun_upd_idem)

definition bridge_inv :: "'tx bridge_event list \<Rightarrow> 'tx bridge_state \<Rightarrow> bool" where
  "bridge_inv es s \<longleftrightarrow>
     unat (next_available_request_id (br_dispatcher s)) = length (calls es) \<and>
     map (unat \<circ> request_id) (br_sent s) = [0..<length (calls es)] \<and>
     (\<forall>rid tx. in_flight (br_dispatcher s) rid = Some tx \<longrightarrow> unat rid < length (calls es) \<and> calls es ! unat rid = tx) \<and>
     (\<forall>rid. unat rid < length (calls es) \<longrightarrow> in_flight (br_dispatcher s) rid = None \<longrightarrow>
        calls es ! unat rid \<in> fst ` set (br_answers s)) \<and>
     (\<forall>tx r. (tx, r) \<in> set (br_answers s) \<longrightarrow> (\<exists>cmd. Event_Command cmd \<in> set es \<and> answer_of cmd = Some r \<and>
        unat (request_id cmd) < length (calls es) \<and> calls es ! unat (request_id cmd) = tx \<and>
        in_flight (br_dispatcher s) (request_id cmd) = None)) \<and>
     distinct (map fst (br_answers s))"

lemma bridge_inv_start: "bridge_inv [] bridge_start"
  by (simp add: bridge_inv_def bridge_start_def Dispatcher_new_def)

lemma bridge_step_call_panic:
  assumes "bridge_inv es s"
  shows "bridge_step (Event_Call tx request) s = Panic \<longleftrightarrow> length (calls es) + 1 \<ge> 2 ^ 16"
  using assms by (auto simp: bridge_inv_def RawBridgeService_call_def Dispatcher_new_request_def Let_def)

lemma bridge_step_call:
  assumes inv: "bridge_inv es s" and step: "bridge_step (Event_Call tx request) s = Return s'"
  shows "bridge_inv (es @ [Event_Call tx request]) s'"
proof -
  let ?d = "br_dispatcher s" and ?n = "length (calls es)"
  let ?rid = "next_available_request_id ?d"
  have n: "unat ?rid = ?n" "?n + 1 < 2 ^ 16"
    using inv bridge_step_call_panic [OF inv, of tx request] step by (auto simp: bridge_inv_def)
  have s': "s' = s\<lparr>br_dispatcher := ?d\<lparr>next_available_request_id := ?rid + 1, in_flight := (in_flight ?d)(?rid \<mapsto> tx)\<rparr>,
      br_sent := br_sent s @ [\<lparr>command_id = RequestCommand_as_u8 (rq_command request), request_id = ?rid,
        command_data = rq_data request\<rparr>]\<rparr>"
    using step n by (simp add: RawBridgeService_call_def Dispatcher_new_request_def Let_def)
  have old: "rid = ?rid \<or> unat rid < ?n" if "unat rid < Suc ?n" for rid
    using that n(1) by (metis less_SucE word_unat_eq_iff)
  have new: "unat (?rid + 1) = Suc ?n" using n by (simp add: unat_plus_if')
  have other: "unat rid < ?n \<Longrightarrow> rid \<noteq> ?rid" for rid using n(1) by auto
  note i = inv [unfolded bridge_inv_def]
  note flying = i [THEN conjunct2, THEN conjunct2, THEN conjunct1, rule_format]
  note waiting = i [THEN conjunct2, THEN conjunct2, THEN conjunct2, THEN conjunct1, rule_format]
  note answered = i [THEN conjunct2, THEN conjunct2, THEN conjunct2, THEN conjunct2, THEN conjunct1, rule_format]
  have "unat rid < Suc ?n \<and> (calls es @ [tx]) ! unat rid = tx'"
    if "((in_flight ?d)(?rid \<mapsto> tx)) rid = Some tx'" for rid tx'
    using that flying [of rid tx'] n(1) by (cases "rid = ?rid") (auto simp: nth_append)
  moreover have "(calls es @ [tx]) ! unat rid \<in> fst ` set (br_answers s)"
    if "unat rid < Suc ?n" "((in_flight ?d)(?rid \<mapsto> tx)) rid = None" for rid
    using that old [of rid] waiting [of rid] by (auto simp: nth_append split: if_splits)
  moreover have "\<exists>cmd. Event_Command cmd \<in> set (es @ [Event_Call tx request]) \<and> answer_of cmd = Some r \<and>
      unat (request_id cmd) < Suc ?n \<and> (calls es @ [tx]) ! unat (request_id cmd) = tx' \<and>
      ((in_flight ?d)(?rid \<mapsto> tx)) (request_id cmd) = None" if "(tx', r) \<in> set (br_answers s)" for tx' r
  proof -
    from answered [OF that] obtain cmd :: bridge_command where cmd: "Event_Command cmd \<in> set es" "answer_of cmd = Some r"
      "unat (request_id cmd) < ?n" "calls es ! unat (request_id cmd) = tx'" "in_flight ?d (request_id cmd) = None" by blast
    then show ?thesis using other [of "request_id cmd"] by (intro exI [of _ cmd]) (simp add: nth_append)
  qed
  ultimately show ?thesis unfolding bridge_inv_def s' using i new n(1) by simp
qed

lemma bridge_inv_unchanged:
  assumes "bridge_inv es s" "in_flight (br_dispatcher s') = in_flight (br_dispatcher s)"
    "next_available_request_id (br_dispatcher s') = next_available_request_id (br_dispatcher s)"
    "br_sent s' = br_sent s" "br_answers s' = br_answers s"
  shows "bridge_inv (es @ [Event_Command cmd]) s'"
  using assms(1) unfolding bridge_inv_def assms(2-5) by (simp, blast)

lemma bridge_inv_answered:
  assumes inv: "bridge_inv es s" and distinct: "distinct (calls es)"
    and cmd: "answer_of cmd = Some r" "in_flight (br_dispatcher s) (request_id cmd) = Some tx"
    and s': "in_flight (br_dispatcher s') = (in_flight (br_dispatcher s))(request_id cmd := None)"
    "next_available_request_id (br_dispatcher s') = next_available_request_id (br_dispatcher s)"
    "br_sent s' = br_sent s" "br_answers s' = br_answers s @ [(tx, r)]"
  shows "bridge_inv (es @ [Event_Command cmd]) s'"
proof -
  note i = inv [unfolded bridge_inv_def]
  note answered = i [THEN conjunct2, THEN conjunct2, THEN conjunct2, THEN conjunct2, THEN conjunct1, rule_format]
  have tx: "unat (request_id cmd) < length (calls es)" "calls es ! unat (request_id cmd) = tx" using i cmd(2) by blast+
  have fresh: "tx \<notin> fst ` set (br_answers s)"
  proof
    assume "tx \<in> fst ` set (br_answers s)"
    then obtain r' where "(tx, r') \<in> set (br_answers s)" by auto
    from answered [OF this] obtain c :: bridge_command where c: "unat (request_id c) < length (calls es)" "calls es ! unat (request_id c) = tx"
      "in_flight (br_dispatcher s) (request_id c) = None" by blast
    then have "request_id c = request_id cmd"
      using distinct tx by (metis nth_eq_iff_index_eq word_unat_eq_iff)
    with c(3) cmd(2) show False by simp
  qed
  have "tx' \<in> fst ` set (br_answers s')" if "unat rid < length (calls es)" "calls es ! unat rid = tx'"
    "in_flight (br_dispatcher s') rid = None" for rid tx'
  proof (cases "rid = request_id cmd")
    case True
    with that tx(2) s'(4) show ?thesis by simp
  next
    case False
    with that s'(1,4) i show ?thesis by auto
  qed
  moreover have "\<exists>c. Event_Command c \<in> set (es @ [Event_Command cmd]) \<and> answer_of c = Some r' \<and>
      unat (request_id c) < length (calls es) \<and> calls es ! unat (request_id c) = tx' \<and>
      in_flight (br_dispatcher s') (request_id c) = None" if "(tx', r') \<in> set (br_answers s')" for tx' r'
  proof (cases "(tx', r') \<in> set (br_answers s)")
    case True
    from answered [OF this] obtain c :: bridge_command where "Event_Command c \<in> set es" "answer_of c = Some r'" "unat (request_id c) < length (calls es)"
      "calls es ! unat (request_id c) = tx'" "in_flight (br_dispatcher s) (request_id c) = None" by blast
    then show ?thesis using s'(1) by (intro exI [of _ c]) simp
  next
    case False
    with that s'(4) have "tx' = tx" "r' = r" by auto
    then show ?thesis using cmd(1) tx s'(1) by (intro exI [of _ cmd]) simp
  qed
  moreover have "distinct (map fst (br_answers s'))" using i fresh s'(4) by simp
  ultimately show ?thesis unfolding bridge_inv_def using i s'(1-3) by simp
qed

lemma bridge_step_command:
  assumes inv: "bridge_inv es s" and distinct: "distinct (calls es)"
  shows "\<exists>s'. bridge_step (Event_Command cmd) s = Return s' \<and> bridge_inv (es @ [Event_Command cmd]) s'"
proof (cases "answer_of cmd = None \<or> in_flight (br_dispatcher s) (request_id cmd) = None")
  case True
  then show ?thesis
    by (auto simp: handle_incoming_command_eq fun_upd_idem split: option.splits
      intro!: bridge_inv_unchanged [OF inv])
next
  case False
  then obtain r tx where r: "answer_of cmd = Some r" "in_flight (br_dispatcher s) (request_id cmd) = Some tx" by auto
  then show ?thesis
    by (auto simp: handle_incoming_command_eq intro!: bridge_inv_answered [OF inv distinct r])
qed


lemma bridge_run_snoc:
  "bridge_run (es @ [e]) s = bind_outcome (bridge_run es s) (bridge_step e)"
  by (induction es arbitrary: s) (auto simp: bind_outcome_def split: outcome.splits)

lemma bridge_run_cases:
  assumes "distinct (calls es)"
  shows "(length (calls es) \<ge> 2 ^ 16 \<and> bridge_run es bridge_start = Panic) \<or>
    (length (calls es) < 2 ^ 16 \<and> (\<exists>s. bridge_run es bridge_start = Return s \<and> bridge_inv es s))"
  using assms
proof (induction es rule: rev_induct)
  case Nil
  then show ?case using bridge_inv_start by simp
next
  case (snoc e es)
  then have distinct: "distinct (calls es)" by simp
  from snoc.IH [OF distinct] show ?case
  proof
    assume "length (calls es) < 2 ^ 16 \<and> (\<exists>s. bridge_run es bridge_start = Return s \<and> bridge_inv es s)"
    then obtain s where s: "length (calls es) < 2 ^ 16" "bridge_run es bridge_start = Return s" "bridge_inv es s" by blast
    show ?thesis
    proof (cases e)
      case (Event_Call tx request)
      with s bridge_step_call_panic [OF s(3), of tx request] bridge_step_call [OF s(3), of tx request] show ?thesis
        by (cases "bridge_step e s") (auto simp: bridge_run_snoc)
    next
      case (Event_Command cmd)
      with s bridge_step_command [OF s(3) distinct, of cmd] show ?thesis
        by (auto simp: bridge_run_snoc)
    qed
  qed (auto simp: bridge_run_snoc)
qed

section \<open>Properties\<close>

text \<open>
  Requests and responses in any order: the requests carry different identifiers, a caller is
  answered at most once, by a response that names the identifier of its own request, and a caller
  without an answer is still waited for.
\<close>

theorem bridge_answers_own_request:
  assumes "distinct (calls es)" "bridge_run es bridge_start = Return s"
  shows "distinct (map request_id (br_sent s)) \<and> length (br_sent s) = length (calls es) \<and>
    distinct (map fst (br_answers s)) \<and>
    (\<forall>tx r. (tx, r) \<in> set (br_answers s) \<longrightarrow> (\<exists>cmd k. Event_Command cmd \<in> set es \<and> answer_of cmd = Some r \<and>
      k < length (calls es) \<and> calls es ! k = tx \<and> request_id (br_sent s ! k) = request_id cmd)) \<and>
    (\<forall>k < length (calls es). calls es ! k \<in> fst ` set (br_answers s) \<or>
      in_flight (br_dispatcher s) (request_id (br_sent s ! k)) = Some (calls es ! k))"
proof -
  from bridge_run_cases [OF assms(1)] assms(2) have inv: "bridge_inv es s" by auto
  note i = inv [unfolded bridge_inv_def]
  note ids = i [THEN conjunct2, THEN conjunct1]
  note answered = i [THEN conjunct2, THEN conjunct2, THEN conjunct2, THEN conjunct2, THEN conjunct1, rule_format]
  have len: "length (br_sent s) = length (calls es)" using arg_cong [OF ids, of length] by simp
  have id: "unat (request_id (br_sent s ! k)) = k" if "k < length (calls es)" for k
    using arg_cong [OF ids, of "\<lambda>l. l ! k"] that len by simp
  have "distinct (map (unat \<circ> request_id) (br_sent s))" unfolding ids by simp
  then have "distinct (map request_id (br_sent s))" by (simp flip: map_map add: distinct_map)
  moreover have "\<exists>cmd k. Event_Command cmd \<in> set es \<and> answer_of cmd = Some r \<and> k < length (calls es) \<and>
      calls es ! k = tx \<and> request_id (br_sent s ! k) = request_id cmd" if "(tx, r) \<in> set (br_answers s)" for tx r
  proof -
    from answered [OF that] obtain cmd :: bridge_command where "Event_Command cmd \<in> set es" "answer_of cmd = Some r"
      "unat (request_id cmd) < length (calls es)" "calls es ! unat (request_id cmd) = tx" by blast
    then show ?thesis using id by (intro exI [of _ cmd] exI [of _ "unat (request_id cmd)"]) (simp add: word_unat_eq_iff)
  qed
  moreover have "calls es ! k \<in> fst ` set (br_answers s) \<or>
      in_flight (br_dispatcher s) (request_id (br_sent s ! k)) = Some (calls es ! k)" if "k < length (calls es)" for k
    using i id [OF that] that
    by (cases "in_flight (br_dispatcher s) (request_id (br_sent s ! k))") (metis, metis option.sel)
  ultimately show ?thesis using len i by blast
qed

text \<open>
  The bridge serves 65535 requests and panics on the next one, because the counter of the
  identifiers has 16 bits and is never reused.
\<close>

theorem bridge_panics_after_65535:
  assumes "distinct (calls es)"
  shows "bridge_run es bridge_start = Panic \<longleftrightarrow> length (calls es) > 65535"
  using bridge_run_cases [OF assms] by auto

lemma bit_push_flag: "k < 16 \<Longrightarrow> bit (push_bit k (bool_to_word b) :: u16) n \<longleftrightarrow> b \<and> n = k"
  by (cases b) (auto simp: bool_to_word_def bit_simps)

lemma low_flag: "drop_bit k (v :: u16) AND 1 \<noteq> 0 \<longleftrightarrow> bit v k"
  by (simp add: bit_iff_odd_drop_bit and_one_eq odd_iff_mod_2_eq_one)

lemma drop_three: "drop_bit 3 (v :: u16) = 0 \<longleftrightarrow> (\<forall>n \<ge> 3. \<not> bit v n)"
proof
  assume zero: "drop_bit 3 v = 0"
  show "\<forall>n \<ge> 3. \<not> bit v n"
  proof (intro allI impI)
    fix n :: nat
    assume "3 \<le> n"
    then have "bit (drop_bit 3 v) (n - 3) = bit v n" by (simp add: bit_drop_bit_eq)
    then show "\<not> bit v n" unfolding zero by simp
  qed
qed (auto intro!: bit_word_eqI simp: bit_drop_bit_eq)

lemma three_flags:
  "(v :: u16) = push_bit 0 (bool_to_word a) OR push_bit 1 (bool_to_word c) OR push_bit 2 (bool_to_word d) \<longleftrightarrow>
    drop_bit 3 v = 0 \<and> bit v 0 = a \<and> bit v 1 = c \<and> bit v 2 = d" (is "v = ?w \<longleftrightarrow> ?rhs")
proof -
  have w: "bit ?w n \<longleftrightarrow> (a \<and> n = 0) \<or> (c \<and> n = 1) \<or> (d \<and> n = 2)" for n
    unfolding bit_or_iff by (simp only: bit_push_flag)
  have "v = ?w \<longleftrightarrow> (\<forall>n. bit v n = ((a \<and> n = 0) \<or> (c \<and> n = 1) \<or> (d \<and> n = 2)))"
    unfolding bit_eq_iff [of v] w by (intro iff_allI) (auto simp: possible_bit_word dest: bit_imp_le_length)
  also have "\<dots> \<longleftrightarrow> ?rhs"
  proof
    assume rhs: ?rhs
    show "\<forall>n. bit v n = ((a \<and> n = 0) \<or> (c \<and> n = 1) \<or> (d \<and> n = 2))"
    proof
      fix n :: nat
      consider "n = 0" | "n = 1" | "n = 2" | "3 \<le> n" by linarith
      then show "bit v n = ((a \<and> n = 0) \<or> (c \<and> n = 1) \<or> (d \<and> n = 2))"
        using rhs by cases (auto simp: drop_three)
    qed
  qed (auto simp: drop_three)
  finally show ?thesis .
qed

text \<open>
  The conversions of the boolean parameters and of the receive mode are inverse to each other,
  and numbers that mean nothing are refused.
\<close>

theorem bridge_values_inverse:
  "(from_radio_value bool_value v = Ok b \<longleftrightarrow> to_radio_value bool_value b = Ok v) \<and>
   (from_radio_value bridge_rx_mode_value v = Ok m \<longleftrightarrow> to_radio_value bridge_rx_mode_value m = Ok v)"
proof
  show "from_radio_value bool_value v = Ok b \<longleftrightarrow> to_radio_value bool_value b = Ok v"
    by (auto simp: bool_value_def)
  have "to_radio_value bridge_rx_mode_value m = Ok v \<longleftrightarrow> drop_bit 3 v = 0 \<and> bit v 0 = brx_address_filter m \<and>
      bit v 1 = brx_autoack m \<and> bit v 2 = brx_poll_mode m"
    unfolding three_flags [symmetric] by (auto simp: bridge_rx_mode_value_def)
  moreover have "from_radio_value bridge_rx_mode_value v = Ok m \<longleftrightarrow> drop_bit 3 v = 0 \<and>
      m = \<lparr>brx_address_filter = bit v 0, brx_autoack = bit v 1, brx_poll_mode = bit v 2\<rparr>"
    unfolding low_flag [symmetric] by (auto simp: bridge_rx_mode_value_def)
  ultimately show "from_radio_value bridge_rx_mode_value v = Ok m \<longleftrightarrow> to_radio_value bridge_rx_mode_value m = Ok v"
    by (cases m) auto
qed

text \<open>
  For slots below 128, requests that mark addresses as pending are different unless they set
  the same slot of the same table to the same address.
\<close>

theorem bridge_pending_requests_differ:
  assumes "i < 128" "j < 128"
  shows "(RadioBridgeService_set_pending_data_ext i a = RadioBridgeService_set_pending_data_ext j b \<longleftrightarrow> i = j \<and> a = b) \<and>
    (RadioBridgeService_set_pending_data_short i c = RadioBridgeService_set_pending_data_short j d \<longleftrightarrow> i = j \<and> c = d) \<and>
    RadioBridgeService_set_pending_data_ext i a \<noteq> RadioBridgeService_set_pending_data_short j d"
proof -
  have low: "(0x7F :: u8) AND of_nat k = of_nat k" if "k < 128" for k
  proof -
    have "unat ((0x7F :: u8) AND of_nat k) = (0x7F AND k)"
      using that by (simp add: unsigned_and_eq unat_of_nat take_bit_nat_eq_self)
    also have "\<dots> = take_bit 7 k" by (simp add: take_bit_eq_mask and.commute mask_eq_exp_minus_1)
    also have "\<dots> = k" using that by (simp add: take_bit_nat_eq_self)
    also have "\<dots> = unat (of_nat k :: u8)" using that by (simp add: unat_of_nat take_bit_nat_eq_self)
    finally show ?thesis by (simp add: word_unat_eq_iff)
  qed
  have inj: "(of_nat i :: u8) = of_nat j \<longleftrightarrow> i = j"
    using assms by (simp add: word_unat_eq_iff unat_of_nat take_bit_nat_eq_self)
  have ext: "(0x80 :: u8) OR of_nat i = 0x80 OR of_nat j \<longleftrightarrow> i = j"
  proof
    assume "(0x80 :: u8) OR of_nat i = 0x80 OR of_nat j"
    then have "0x7F AND ((0x80 :: u8) OR of_nat i) = 0x7F AND (0x80 OR of_nat j)" by simp
    then show "i = j" using low assms inj by (simp add: bit.conj_disj_distrib)
  qed simp
  have "bit ((0x80 :: u8) OR of_nat i) 7" "\<not> bit ((0x7F :: u8) AND of_nat j) 7"
    by (simp_all add: bit_simps)
  then have other: "(0x80 :: u8) OR of_nat i \<noteq> 0x7F AND of_nat j" by metis
  have le: "length (to_le_bytes (x :: u64)) = 8" "length (to_le_bytes (y :: u16)) = 2" for x y by simp_all
  have "(case a of Some x \<Rightarrow> to_le_bytes x | None \<Rightarrow> []) = (case b of Some x \<Rightarrow> to_le_bytes x | None \<Rightarrow> []) \<longleftrightarrow> a = b"
    using le(1) by (cases a; cases b) (auto simp: to_le_bytes_eq_iff dest!: arg_cong [of _ _ length])
  moreover have "(case c of Some (x, y) \<Rightarrow> to_le_bytes x @ to_le_bytes y | None \<Rightarrow> []) =
      (case d of Some (x, y) \<Rightarrow> to_le_bytes x @ to_le_bytes y | None \<Rightarrow> []) \<longleftrightarrow> c = d"
    using le(2) by (cases c; cases d) (auto simp: to_le_bytes_eq_iff dest: arg_cong [of _ _ length])
  ultimately show ?thesis
    using ext other inj low assms
    by (simp add: RadioBridgeService_set_pending_data_ext_def RadioBridgeService_set_pending_data_short_def)
qed

end
