(* ===== verification/Parse_Serialize.thy ===== *)
theory Parse_Serialize
  imports Frame Crates
begin

text \<open>
  The interface of \<^verbatim>\<open>parse_serialize\<close>, the module the earlier stack builds its frames with and which
  is not part of the repository.  A type with \<^verbatim>\<open>Serialize\<close> and \<^verbatim>\<open>Deserialize\<close> implemented there or
  derived is given by its two functions.  \<^verbatim>\<open>serialize_to\<close> changes the target and returns whether it
  succeeded; on an error the bytes already written stay.
\<close>

section \<open>Serialisers\<close>

type_synonym 'se ser = "bytes \<Rightarrow> (unit, 'se) result \<times> bytes"

definition ser_ok :: "'se ser" where
  "ser_ok target = (Ok (), target)"

definition ser_fail :: "'se \<Rightarrow> 'se ser" where
  "ser_fail e target = (Err e, target)"

definition ser_extend :: "bytes \<Rightarrow> 'se ser" where
  "ser_extend bs target = (Ok (), target @ bs)"

text \<open>\<^verbatim>\<open>f(r?)\<close>, where \<open>r\<close> has no effect.\<close>

definition ser_result :: "('a, 'se) result \<Rightarrow> ('a \<Rightarrow> 'se ser) \<Rightarrow> 'se ser" where
  "ser_result r f = (case r of Err e \<Rightarrow> ser_fail e | Ok x \<Rightarrow> f x)"

lemma ser_result_Ok [simp]: "ser_result (Ok x) f = f x"
  by (simp add: ser_result_def)

text \<open>\<^verbatim>\<open>a?; b\<close>\<close>

definition ser_then :: "'se ser \<Rightarrow> 'se ser \<Rightarrow> 'se ser" where
  "ser_then a b target =
     (case a target of
        (Err e, target) \<Rightarrow> (Err e, target)
      | (Ok _, target) \<Rightarrow> b target)"

definition ser_optional :: "('a \<Rightarrow> 'se ser) \<Rightarrow> 'a option \<Rightarrow> 'se ser" where
  "ser_optional f x = (case x of None \<Rightarrow> ser_ok | Some x \<Rightarrow> f x)"

fun ser_each :: "('a \<Rightarrow> 'se ser) \<Rightarrow> 'a list \<Rightarrow> 'se ser" where
  "ser_each f [] = ser_ok"
| "ser_each f (x # xs) = ser_then (f x) (ser_each f xs)"

definition appends :: "'se ser \<Rightarrow> bytes \<Rightarrow> bool" where
  "appends s bs \<longleftrightarrow> (\<forall>target. s target = (Ok (), target @ bs))"

named_theorems appends_intros \<open>which bytes a serialiser appends\<close>

lemma appends_ok [appends_intros]: "appends ser_ok []"
  by (simp add: appends_def ser_ok_def)

lemma appends_extend [appends_intros]: "appends (ser_extend bs) bs"
  by (simp add: appends_def ser_extend_def)

lemma appends_then [appends_intros]: "appends a bs \<Longrightarrow> appends b cs \<Longrightarrow> appends (ser_then a b) (bs @ cs)"
  by (simp add: appends_def ser_then_def)

lemma appends_optional [appends_intros]:
  "(\<And>y. x = Some y \<Longrightarrow> appends (f y) (enc y)) \<Longrightarrow> appends (ser_optional f x) (case x of None \<Rightarrow> [] | Some y \<Rightarrow> enc y)"
  by (cases x) (simp_all add: ser_optional_def appends_ok)

lemma appends_each [appends_intros]:
  "(\<And>x. x \<in> set xs \<Longrightarrow> appends (f x) (enc x)) \<Longrightarrow> appends (ser_each f xs) (concat (map enc xs))"
  by (induction xs) (auto intro: appends_intros)

lemma ser_then_Ok_iff:
  "ser_then a b target = (Ok (), result) \<longleftrightarrow> (\<exists>between. a target = (Ok (), between) \<and> b between = (Ok (), result))"
  by (auto simp: ser_then_def split: prod.splits sum.splits)

lemma ser_then_Err:
  "fst (a target) \<noteq> Ok () \<Longrightarrow> fst (ser_then a b target) \<noteq> Ok ()"
  "(\<And>t. fst (b t) \<noteq> Ok ()) \<Longrightarrow> fst (ser_then a b target) \<noteq> Ok ()"
  by (auto simp: ser_then_def split: prod.splits sum.splits)

section \<open>Parsers\<close>

type_synonym ('a, 'de) parser = "bytes \<Rightarrow> (bytes \<times> 'a, 'de) result"

text \<open>\<^verbatim>\<open>nom::combinator::map\<close>, \<^verbatim>\<open>cond\<close>, \<^verbatim>\<open>rest\<close> and \<^verbatim>\<open>nom::multi::count\<close>\<close>

definition nom_map :: "('a, 'de) parser \<Rightarrow> ('a \<Rightarrow> 'b) \<Rightarrow> ('b, 'de) parser" where
  "nom_map p f input = and_then (p input) (\<lambda>(input, x). Ok (input, f x))"

definition nom_cond :: "bool \<Rightarrow> ('a, 'de) parser \<Rightarrow> ('a option, 'de) parser" where
  "nom_cond b p input = (if b then nom_map p Some input else Ok (input, None))"

definition nom_rest :: "(bytes, 'de) parser" where
  "nom_rest input = Ok ([], input)"

fun nom_count :: "('a, 'de) parser \<Rightarrow> nat \<Rightarrow> ('a list, 'de) parser" where
  "nom_count p 0 input = Ok (input, [])"
| "nom_count p (Suc n) input =
     and_then (p input) (\<lambda>(input, x). and_then (nom_count p n input) (\<lambda>(input, xs). Ok (input, x # xs)))"

lemma flag_bits:
  "take_bit (Suc 0) (bool_to_word b :: 'w::len word) = bool_to_word b"
  "((bool_to_word b :: 'w::len word) = 0) \<longleftrightarrow> \<not> b" "0 < (bool_to_word b :: 'w::len word) \<longleftrightarrow> b"
  by (cases b; simp)+

section \<open>Types with both\<close>

record ('a, 'se, 'de) serde =
  serialize_to :: "'a \<Rightarrow> 'se ser"
  deserialize :: "('a, 'de) parser"

definition encoding :: "('a, 'se, 'de) serde \<Rightarrow> 'a \<Rightarrow> bytes" where
  "encoding c x = snd (serialize_to c x [])"

definition optional_bytes :: "('a, 'se, 'de) serde \<Rightarrow> 'a option \<Rightarrow> bytes" where
  "optional_bytes c x = (case x of None \<Rightarrow> [] | Some y \<Rightarrow> encoding c y)"

text \<open>The contract: a value is appended, and read back from what was appended, whatever follows.\<close>

definition lawful :: "('a, 'se, 'de) serde \<Rightarrow> bool" where
  "lawful c \<longleftrightarrow> (\<forall>x. appends (serialize_to c x) (encoding c x)) \<and>
     (\<forall>x rest. deserialize c (encoding c x @ rest) = Ok (rest, x))"

lemma lawful_appends [appends_intros]: "lawful c \<Longrightarrow> appends (serialize_to c x) (encoding c x)"
  by (simp add: lawful_def)

lemma lawful_deserialize: "lawful c \<Longrightarrow> deserialize c (encoding c x @ rest) = Ok (rest, x)"
  by (simp add: lawful_def)

lemma encoding_inject:
  assumes "lawful c" "encoding c x @ r = encoding c y @ s"
  shows "x = y" "r = s"
proof -
  have "deserialize c (encoding c x @ r) = deserialize c (encoding c y @ s)" unfolding assms(2) ..
  then have "(r, x) = (s, y)" unfolding lawful_deserialize [OF assms(1)] by simp
  then show "x = y" "r = s" by simp_all
qed

lemma appends_unique: "appends s bs \<Longrightarrow> appends s cs \<Longrightarrow> bs = cs"
  by (simp add: appends_def)

lemma nom_count_encoded:
  "lawful c \<Longrightarrow> nom_count (deserialize c) (length xs) (concat (map (encoding c) xs) @ rest) = Ok (rest, xs)"
  by (induction xs) (simp_all add: lawful_deserialize)

lemma nom_cond_encoded:
  "lawful c \<Longrightarrow> nom_cond (x \<noteq> None) (deserialize c) ((case x of None \<Rightarrow> [] | Some y \<Rightarrow> encoding c y) @ rest) = Ok (rest, x)"
  by (cases x) (simp_all add: nom_cond_def nom_map_def lawful_deserialize)

text \<open>Machine integers and tuples of them in little-endian order, for the instances.\<close>

definition le_serde :: "'de \<Rightarrow> ('w::len word, 'se, 'de) serde" where
  "le_serde e =
     \<lparr>serialize_to = (\<lambda>w. ser_extend (to_le_bytes w)),
      deserialize = (\<lambda>input. if length input < size_of TYPE('w word) then Err e
        else Ok (drop (size_of TYPE('w word)) input, from_le_bytes (take (size_of TYPE('w word)) input)))\<rparr>"

definition map_serde :: "('b \<Rightarrow> 'a) \<Rightarrow> ('a \<Rightarrow> 'b) \<Rightarrow> ('a, 'se, 'de) serde \<Rightarrow> ('b, 'se, 'de) serde" where
  "map_serde rep unrep c = \<lparr>serialize_to = (\<lambda>x. serialize_to c (rep x)), deserialize = nom_map (deserialize c) unrep\<rparr>"

definition pair_serde :: "('a, 'se, 'de) serde \<Rightarrow> ('b, 'se, 'de) serde \<Rightarrow> ('a \<times> 'b, 'se, 'de) serde" where
  "pair_serde a b =
     \<lparr>serialize_to = (\<lambda>(x, y). ser_then (serialize_to a x) (serialize_to b y)),
      deserialize = (\<lambda>input. and_then (deserialize a input) (\<lambda>(input, x). nom_map (deserialize b) (Pair x) input))\<rparr>"

lemma lawfulI:
  assumes "\<And>x. appends (serialize_to c x) (enc x)" "\<And>x rest. deserialize c (enc x @ rest) = Ok (rest, x)"
  shows "lawful c" "encoding c = enc"
proof -
  show enc: "encoding c = enc" using assms(1) by (auto simp: encoding_def appends_def)
  show "lawful c" unfolding lawful_def enc using assms by blast
qed

lemma lawful_le_serde [simp, intro]:
  assumes "8 dvd LENGTH('w::len)"
  shows "lawful (le_serde e :: ('w word, 'se, 'de) serde)" "encoding (le_serde e :: ('w word, 'se, 'de) serde) = to_le_bytes"
  using assms
  by (intro lawfulI [where enc = to_le_bytes]; simp add: le_serde_def appends_extend from_le_bytes_to_le_bytes size_of_def)+

lemma lawful_map_serde:
  assumes "lawful c" "\<And>x. unrep (rep x) = x"
  shows "lawful (map_serde rep unrep c)" "encoding (map_serde rep unrep c) = encoding c \<circ> rep"
  using assms
  by (intro lawfulI [where enc = "encoding c \<circ> rep"]; simp add: map_serde_def nom_map_def lawful_deserialize lawful_appends)+

lemma lawful_pair_serde:
  assumes "lawful a" "lawful b"
  shows "lawful (pair_serde a b)" "encoding (pair_serde a b) = (\<lambda>(x, y). encoding a x @ encoding b y)"
  using assms
  by (intro lawfulI [where enc = "\<lambda>(x, y). encoding a x @ encoding b y"];
    auto simp: pair_serde_def nom_map_def lawful_deserialize intro!: appends_intros)+


section \<open>The module\<close>

text \<open>
  The implementations the earlier stack uses: of integers and of the types that derive theirs,
  the serialiser of a tuple from those of its components, the parsers of tuples, and the errors.
  A bit field is its integer.
\<close>

datatype association_response_status =
    Status_AssociationSuccessful
  | Status_PANAtCapacity
  | Status_PANAccessDenied
  | Status_HoppingSequenceOffsetDuplication
  | Status_FastAssociationSuccessful

record ('se, 'de) parse_serialize =
  se_unexpected_data :: 'se
  se_unimplemented :: "string \<Rightarrow> 'se"
  de_unexpected_data :: "bytes \<Rightarrow> 'de"
  de_unimplemented :: "bytes \<Rightarrow> string \<Rightarrow> 'de"
  de_invalid_enum :: "bytes \<Rightarrow> 'de"
  sd_u8 :: "(u8, 'se, 'de) serde"
  sd_u16 :: "(u16, 'se, 'de) serde"
  sd_u32 :: "(u32, 'se, 'de) serde"
  sd_panid :: "(panid, 'se, 'de) serde"
  sd_short_address :: "(short_address, 'se, 'de) serde"
  sd_extended_address :: "(extended_address, 'se, 'de) serde"
  sd_bitfield_u8 :: "(u8, 'se, 'de) serde"
  sd_bitfield_u16 :: "(u16, 'se, 'de) serde"
  sd_association_status :: "(association_response_status, 'se, 'de) serde"
  ser_tuple :: "'se ser list \<Rightarrow> 'se ser"
  de_u8_u8 :: "(u8 \<times> u8, 'de) parser"
  de_bitfield_u8_u8 :: "(u16 \<times> u8 \<times> u8, 'de) parser"
  de_short_short_u8_u8 :: "(short_address \<times> short_address \<times> u8 \<times> u8, 'de) parser"

definition de_pair :: "('a, 'de) parser \<Rightarrow> ('b, 'de) parser \<Rightarrow> ('a \<times> 'b, 'de) parser" where
  "de_pair a b input = and_then (a input) (\<lambda>(input, x). and_then (b input) (\<lambda>(input, y). Ok (input, (x, y))))"

locale parse_serialize_module =
  fixes ps :: "('se, 'de) parse_serialize"
  assumes u8: "lawful (sd_u8 ps)" and u16: "lawful (sd_u16 ps)" and u32: "lawful (sd_u32 ps)"
    and panid: "lawful (sd_panid ps)"
    and short_address: "lawful (sd_short_address ps)"
    and extended_address: "lawful (sd_extended_address ps)"
    and bitfield_u8: "lawful (sd_bitfield_u8 ps)" and bitfield_u16: "lawful (sd_bitfield_u16 ps)"
    and association_status: "lawful (sd_association_status ps)"
    and widths: "length (encoding (sd_u8 ps) a) = 1" "length (encoding (sd_u32 ps) b) = 4"
      "length (encoding (sd_extended_address ps) c) = 8" "length (encoding (sd_bitfield_u8 ps) a) = 1"
    and tuple: "ser_tuple ps ss = foldr ser_then ss ser_ok"
    and u8_u8: "de_u8_u8 ps = de_pair (deserialize (sd_u8 ps)) (deserialize (sd_u8 ps))"
    and bitfield_u8_u8: "de_bitfield_u8_u8 ps =
      de_pair (deserialize (sd_bitfield_u16 ps)) (de_pair (deserialize (sd_u8 ps)) (deserialize (sd_u8 ps)))"
    and short_short_u8_u8: "de_short_short_u8_u8 ps =
      de_pair (deserialize (sd_short_address ps)) (de_pair (deserialize (sd_short_address ps))
        (de_pair (deserialize (sd_u8 ps)) (deserialize (sd_u8 ps))))"
begin

lemmas serde_lawful = u8 u16 u32 panid short_address extended_address bitfield_u8 bitfield_u16 association_status

lemmas serde_read [simp] = serde_lawful [THEN lawful_deserialize]

lemmas serde_write = serde_lawful [THEN lawful_appends]

lemma appends_tuple:
  "list_all2 appends ss bs \<Longrightarrow> appends (ser_tuple ps ss) (concat bs)"
  unfolding tuple by (induction ss bs rule: list_all2_induct) (auto intro: appends_intros)

end

text \<open>An implementation with all numbers in little-endian order, as the tests of the frames show them.\<close>

definition status_number :: "association_response_status \<Rightarrow> u8" where
  "status_number s =
     (case s of Status_AssociationSuccessful \<Rightarrow> 0 | Status_PANAtCapacity \<Rightarrow> 1 | Status_PANAccessDenied \<Rightarrow> 2
      | Status_HoppingSequenceOffsetDuplication \<Rightarrow> 3 | Status_FastAssociationSuccessful \<Rightarrow> 0x80)"

definition status_of_number :: "u8 \<Rightarrow> association_response_status option" where
  "status_of_number n =
     (if n = 0 then Some Status_AssociationSuccessful else if n = 1 then Some Status_PANAtCapacity
      else if n = 2 then Some Status_PANAccessDenied else if n = 3 then Some Status_HoppingSequenceOffsetDuplication
      else if n = 0x80 then Some Status_FastAssociationSuccessful else None)"

definition status_serde :: "(association_response_status, string, string) serde" where
  "status_serde =
     \<lparr>serialize_to = (\<lambda>s. ser_extend [status_number s]),
      deserialize = (\<lambda>input. case input of [] \<Rightarrow> Err ''incomplete''
        | b # input \<Rightarrow> (case status_of_number b of None \<Rightarrow> Err ''invalid enum'' | Some s \<Rightarrow> Ok (input, s)))\<rparr>"

abbreviation le :: "('w::len word, string, string) serde" where
  "le \<equiv> le_serde ''incomplete''"

definition short_serde :: "(short_address, string, string) serde" where
  "short_serde = map_serde ShortAddress_into ShortAddress le"

definition parse_serialize_impl :: "(string, string) parse_serialize" where
  "parse_serialize_impl =
     \<lparr>se_unexpected_data = ''unexpected data'',
      se_unimplemented = id,
      de_unexpected_data = (\<lambda>_. ''unexpected data''),
      de_unimplemented = (\<lambda>_ what. what),
      de_invalid_enum = (\<lambda>_. ''invalid enum''),
      sd_u8 = le, sd_u16 = le, sd_u32 = le,
      sd_panid = map_serde PANID_into PANID le,
      sd_short_address = short_serde,
      sd_extended_address = map_serde ExtendedAddress_into ExtendedAddress le,
      sd_bitfield_u8 = le, sd_bitfield_u16 = le,
      sd_association_status = status_serde,
      ser_tuple = (\<lambda>ss. foldr ser_then ss ser_ok),
      de_u8_u8 = de_pair (deserialize le) (deserialize le),
      de_bitfield_u8_u8 = de_pair (deserialize le) (de_pair (deserialize le) (deserialize le)),
      de_short_short_u8_u8 = de_pair (deserialize short_serde) (de_pair (deserialize short_serde)
        (de_pair (deserialize le) (deserialize le)))\<rparr>"

lemma status_serde: "lawful status_serde"
proof (rule lawfulI(1) [where enc = "\<lambda>s. [status_number s]"])
  show "deserialize status_serde ([status_number s] @ rest) = Ok (rest, s)" for s rest
    by (cases s) (simp_all add: status_serde_def status_number_def status_of_number_def)
qed (simp add: status_serde_def appends_extend)

interpretation parse_serialize_impl: parse_serialize_module parse_serialize_impl
  by unfold_locales
    (simp_all add: parse_serialize_impl_def short_serde_def lawful_map_serde status_serde)

end
