(* ===== verification/Zigbee_Security.thy ===== *)
theory Zigbee_Security
  imports Parse_Serialize Ccm_Star Mmo_Hash
begin

unbundle bit_operations_syntax

text \<open>
  The security of the ZigBee frames of the earlier stack (\<^verbatim>\<open>old_src/zigbee/security/mod.rs\<close>): the
  auxiliary header, the keys, the nonce and the protection of a payload with CCM*.  The serialisers of
  \<^verbatim>\<open>parse_serialize\<close>, the bit fields, the creation of a cipher from a key and the keyed hash are
  arguments; a bit field is its integer.
\<close>

section \<open>Secured data\<close>

datatype key_identifier =
    KeyIdentifier_Data
  | KeyIdentifier_Network u8
  | KeyIdentifier_KeyTransport
  | KeyIdentifier_KeyLoad

record key_store =
  ks_data :: "bytes option"
  ks_network :: "u8 \<rightharpoonup> bytes"
  ks_key_transport :: "bytes option"
  ks_key_load :: "bytes option"

datatype message_integrity_code_len = MIC_None | MIC32 | MIC64 | MIC128

fun MessageIntegrityCodeLen_as_u8 :: "message_integrity_code_len \<Rightarrow> u8" where
  "MessageIntegrityCodeLen_as_u8 MIC_None = 0"
| "MessageIntegrityCodeLen_as_u8 MIC32 = 1"
| "MessageIntegrityCodeLen_as_u8 MIC64 = 2"
| "MessageIntegrityCodeLen_as_u8 MIC128 = 3"

fun MessageIntegrityCodeLen_into :: "message_integrity_code_len \<Rightarrow> ccm_star_integrity_code_len" where
  "MessageIntegrityCodeLen_into MIC_None = CcmStarIntegrityCodeLen_None"
| "MessageIntegrityCodeLen_into MIC32 = CcmStarIntegrityCodeLen_MIC4"
| "MessageIntegrityCodeLen_into MIC64 = CcmStarIntegrityCodeLen_MIC8"
| "MessageIntegrityCodeLen_into MIC128 = CcmStarIntegrityCodeLen_MIC16"

record security_level =
  sl_encryption :: bool
  sl_mig_len :: message_integrity_code_len

definition SecurityLevel_into :: "security_level \<Rightarrow> u8" where
  "SecurityLevel_into self =
     (if sl_encryption self then MessageIntegrityCodeLen_as_u8 (sl_mig_len self) OR 4
      else MessageIntegrityCodeLen_as_u8 (sl_mig_len self))"

definition KeyIdentifier_serialize_to :: "('se, 'de) parse_serialize \<Rightarrow> key_identifier \<Rightarrow> 'se ser" where
  "KeyIdentifier_serialize_to ps self =
     (case self of
        KeyIdentifier_Network key_sequence_number \<Rightarrow> serialize_to (sd_u8 ps) key_sequence_number
      | _ \<Rightarrow> ser_ok)"

fun KeyIdentifier_serialize_tag :: "key_identifier \<Rightarrow> (u8, 'se) result" where
  "KeyIdentifier_serialize_tag KeyIdentifier_Data = Ok 0"
| "KeyIdentifier_serialize_tag (KeyIdentifier_Network _) = Ok 1"
| "KeyIdentifier_serialize_tag KeyIdentifier_KeyTransport = Ok 2"
| "KeyIdentifier_serialize_tag KeyIdentifier_KeyLoad = Ok 3"

definition KeyIdentifier_deserialize :: "('se, 'de) parse_serialize \<Rightarrow> u8 \<Rightarrow> (key_identifier, 'de) parser" where
  "KeyIdentifier_deserialize ps tag input =
     (if tag = 0 then Ok (input, KeyIdentifier_Data)
      else if tag = 1 then nom_map (deserialize (sd_u8 ps)) KeyIdentifier_Network input
      else if tag = 2 then Ok (input, KeyIdentifier_KeyTransport)
      else if tag = 3 then Ok (input, KeyIdentifier_KeyLoad)
      else Err (de_unexpected_data ps input))"

record secured_data =
  sd_key_identifier :: key_identifier
  sd_frame_counter :: u32
  sd_extended_source :: "extended_address option"
  sd_payload :: bytes

text \<open>The bit field \<^verbatim>\<open>SecurityControl\<close> with its four parts.\<close>

definition SecurityControl :: "u8 bitfield_ops \<Rightarrow> u8 \<Rightarrow> u8 \<Rightarrow> bool \<Rightarrow> u8" where
  "SecurityControl bf level key_tag extended =
     (let sc = 0;
          sc = set_bit_range bf sc 2 0 level;
          sc = set_bit_range bf sc 4 3 key_tag;
          sc = set_bit_range bf sc 5 5 (bool_to_word extended)
      in set_bit_range bf sc 7 6 0)"

definition SecuredData_serialize_to :: "('se, 'de) parse_serialize \<Rightarrow> u8 bitfield_ops \<Rightarrow> secured_data \<Rightarrow> 'se ser" where
  "SecuredData_serialize_to ps bf self =
     ser_result (KeyIdentifier_serialize_tag (sd_key_identifier self)) (\<lambda>tag.
     ser_then (serialize_to (sd_bitfield_u8 ps) (SecurityControl bf 0 tag (sd_extended_source self \<noteq> None)))
     (ser_then (serialize_to (sd_u32 ps) (sd_frame_counter self))
     (ser_then (ser_optional (serialize_to (sd_extended_address ps)) (sd_extended_source self))
     (ser_then (KeyIdentifier_serialize_to ps (sd_key_identifier self))
       (ser_extend (sd_payload self))))))"

definition SecuredData_deserialize :: "('se, 'de) parse_serialize \<Rightarrow> u8 bitfield_ops \<Rightarrow> (secured_data, 'de) parser" where
  "SecuredData_deserialize ps bf input =
     and_then (deserialize (sd_bitfield_u8 ps) input) (\<lambda>(input, sc).
     if bit_range bf sc 2 0 \<noteq> 0 then Err (de_unexpected_data ps input)
     else
       and_then (deserialize (sd_u32 ps) input) (\<lambda>(input, frame_counter).
       and_then (nom_cond (bit_range bf sc 5 5 \<noteq> 0) (deserialize (sd_extended_address ps)) input)
         (\<lambda>(input, extended_source).
       and_then (KeyIdentifier_deserialize ps (bit_range bf sc 4 3) input) (\<lambda>(input, key_identifier).
       and_then (nom_rest input) (\<lambda>(input, payload).
       Ok (input, \<lparr>sd_key_identifier = key_identifier, sd_frame_counter = frame_counter,
         sd_extended_source = extended_source, sd_payload = payload\<rparr>))))))"

section \<open>Data that may be secured\<close>

datatype 'a securable = Securable_Secured secured_data | Securable_Unsecured 'a

fun Securable_is_secured :: "'a securable \<Rightarrow> bool" where
  "Securable_is_secured (Securable_Secured _) = True"
| "Securable_is_secured (Securable_Unsecured _) = False"

fun Securable_serialize_to :: "('se, 'de) parse_serialize \<Rightarrow> u8 bitfield_ops \<Rightarrow> ('a \<Rightarrow> 'se ser) \<Rightarrow> 'a securable \<Rightarrow> 'se ser" where
  "Securable_serialize_to ps bf t (Securable_Secured data) = SecuredData_serialize_to ps bf data"
| "Securable_serialize_to ps bf t (Securable_Unsecured data) = t data"

definition Securable_serialize_tag :: "'a securable \<Rightarrow> (bool, 'se) result" where
  "Securable_serialize_tag self = Ok (Securable_is_secured self)"

definition Securable_deserialize :: "('se, 'de) parse_serialize \<Rightarrow> u8 bitfield_ops \<Rightarrow> ('a, 'de) parser \<Rightarrow> bool \<Rightarrow>
    ('a securable, 'de) parser" where
  "Securable_deserialize ps bf t tag input =
     (if tag then nom_map (SecuredData_deserialize ps bf) Securable_Secured input
      else nom_map t Securable_Unsecured input)"

datatype ('a, 'g) securable_tagged = SecurableTagged_Secured 'g secured_data | SecurableTagged_Unsecured 'a

fun SecurableTagged_serialize_to :: "('se, 'de) parse_serialize \<Rightarrow> u8 bitfield_ops \<Rightarrow> ('a \<Rightarrow> 'se ser) \<Rightarrow>
    ('a, 'g) securable_tagged \<Rightarrow> 'se ser" where
  "SecurableTagged_serialize_to ps bf t (SecurableTagged_Secured _ data) = SecuredData_serialize_to ps bf data"
| "SecurableTagged_serialize_to ps bf t (SecurableTagged_Unsecured data) = t data"

fun SecurableTagged_serialize_tag :: "('a \<Rightarrow> ('g, 'se) result) \<Rightarrow> ('a, 'g) securable_tagged \<Rightarrow> (bool \<times> 'g, 'se) result" where
  "SecurableTagged_serialize_tag t (SecurableTagged_Secured tag _) = Ok (True, tag)"
| "SecurableTagged_serialize_tag t (SecurableTagged_Unsecured data) = and_then (t data) (\<lambda>tag. Ok (False, tag))"

definition SecurableTagged_deserialize :: "('se, 'de) parse_serialize \<Rightarrow> u8 bitfield_ops \<Rightarrow> ('g \<Rightarrow> ('a, 'de) parser) \<Rightarrow>
    bool \<times> 'g \<Rightarrow> (('a, 'g) securable_tagged, 'de) parser" where
  "SecurableTagged_deserialize ps bf t tag input =
     (if fst tag then
        and_then (SecuredData_deserialize ps bf input) (\<lambda>(input, data). Ok (input, SecurableTagged_Secured (snd tag) data))
      else
        and_then (t (snd tag) input) (\<lambda>(input, data). Ok (input, SecurableTagged_Unsecured data)))"

section \<open>Keys, nonce and associated data\<close>

text \<open>\<open>hmac key message\<close> is \<^verbatim>\<open>Hmac<MMOHash<Aes128>>\<close>.\<close>

definition generate_encryption_key :: "(bytes \<Rightarrow> bytes \<Rightarrow> bytes) \<Rightarrow> key_identifier \<Rightarrow> key_store \<Rightarrow> bytes option" where
  "generate_encryption_key hmac key_identifier store =
     (case key_identifier of
        KeyIdentifier_Data \<Rightarrow> ks_data store
      | KeyIdentifier_Network key_sequence_number \<Rightarrow> ks_network store key_sequence_number
      | KeyIdentifier_KeyTransport \<Rightarrow> map_option (\<lambda>key. hmac key [0]) (ks_key_transport store)
      | KeyIdentifier_KeyLoad \<Rightarrow> map_option (\<lambda>key. hmac key [2]) (ks_key_transport store))"

text \<open>\<^verbatim>\<open>serialize_to(&mut target).ok()?\<close> on a local vector.\<close>

definition ser_ok_bytes :: "'se ser \<Rightarrow> bytes \<Rightarrow> bytes option" where
  "ser_ok_bytes s target = (case s target of (Ok _, target) \<Rightarrow> Some target | (Err _, _) \<Rightarrow> None)"

definition resize :: "nat \<Rightarrow> bytes \<Rightarrow> bytes" where
  "resize n v = take n v @ replicate (n - length v) 0"

definition generate_nonce :: "('se, 'de) parse_serialize \<Rightarrow> u8 bitfield_ops \<Rightarrow> key_identifier \<Rightarrow> u32 \<Rightarrow> bool \<Rightarrow>
    security_level \<Rightarrow> extended_address \<Rightarrow> bytes option" where
  "generate_nonce ps bf key_identifier frame_counter extended_nonce security_level source_address =
     map_option (resize 15)
       (ser_ok_bytes
         (ser_then (serialize_to (sd_extended_address ps) source_address)
         (ser_then (serialize_to (sd_u32 ps) frame_counter)
         (ser_result (KeyIdentifier_serialize_tag key_identifier) (\<lambda>tag.
           serialize_to (sd_bitfield_u8 ps) (SecurityControl bf (SecurityLevel_into security_level) tag extended_nonce)))))
         [])"

definition generate_associated_data :: "('se, 'de) parse_serialize \<Rightarrow> u8 bitfield_ops \<Rightarrow> key_identifier \<Rightarrow> u32 \<Rightarrow>
    extended_address option \<Rightarrow> security_level \<Rightarrow> 'se ser" where
  "generate_associated_data ps bf key_identifier frame_counter extended_source security_level =
     ser_result (KeyIdentifier_serialize_tag key_identifier) (\<lambda>tag.
     ser_then (serialize_to (sd_bitfield_u8 ps)
       (SecurityControl bf (SecurityLevel_into security_level) tag (extended_source \<noteq> None)))
     (ser_then (serialize_to (sd_u32 ps) frame_counter)
     (ser_then (ser_optional (serialize_to (sd_extended_address ps)) extended_source)
       (KeyIdentifier_serialize_to ps key_identifier))))"

definition SecuredData_generate_nonce :: "('se, 'de) parse_serialize \<Rightarrow> u8 bitfield_ops \<Rightarrow> security_level \<Rightarrow>
    extended_address \<Rightarrow> secured_data \<Rightarrow> bytes option" where
  "SecuredData_generate_nonce ps bf security_level source_address self =
     generate_nonce ps bf (sd_key_identifier self) (sd_frame_counter self) (sd_extended_source self \<noteq> None)
       security_level (case sd_extended_source self of Some extended \<Rightarrow> extended | None \<Rightarrow> source_address)"

definition SecuredData_generate_associated_data :: "('se, 'de) parse_serialize \<Rightarrow> u8 bitfield_ops \<Rightarrow> security_level \<Rightarrow>
    secured_data \<Rightarrow> 'se ser" where
  "SecuredData_generate_associated_data ps bf security_level self =
     generate_associated_data ps bf (sd_key_identifier self) (sd_frame_counter self) (sd_extended_source self) security_level"

section \<open>Encryption and decryption\<close>

text \<open>What the two operations take from crates: the ciphers and their creation, and the keyed hash.\<close>

record ('c, 's) crypto =
  cr_ops :: "('c, 's) cipher_ops"
  cr_new :: "bytes \<Rightarrow> 'c"
  cr_hmac :: "bytes \<Rightarrow> bytes \<Rightarrow> bytes"

definition ok_outcome :: "('a, 'e) result outcome \<Rightarrow> 'a option outcome" where
  "ok_outcome m = bind_outcome m (\<lambda>r. Return (case r of Ok x \<Rightarrow> Some x | Err _ \<Rightarrow> None))"

definition bind_some :: "'a option \<Rightarrow> ('a \<Rightarrow> 'b option outcome) \<Rightarrow> 'b option outcome" where
  "bind_some x f = (case x of None \<Rightarrow> Return None | Some x \<Rightarrow> f x)"

definition SecuredData_decrypt :: "('se, 'de) parse_serialize \<Rightarrow> u8 bitfield_ops \<Rightarrow> ('c, 's) crypto \<Rightarrow> bytes \<Rightarrow>
    security_level \<Rightarrow> extended_address \<Rightarrow> key_store \<Rightarrow> secured_data \<Rightarrow> bytes option outcome" where
  "SecuredData_decrypt ps bf cr associated_data security_level source_address store self =
     bind_some (generate_encryption_key (cr_hmac cr) (sd_key_identifier self) store) (\<lambda>key.
     bind_some (SecuredData_generate_nonce ps bf security_level source_address self) (\<lambda>nonce.
     let ccmstar = CcmStar_from_cipher (cr_new cr key) (MessageIntegrityCodeLen_into (sl_mig_len security_level))
           CcmStarLengthSize_Len16
     in bind_some (ser_ok_bytes (SecuredData_generate_associated_data ps bf security_level self) associated_data)
          (\<lambda>associated_data.
        if sl_encryption security_level then
          ok_outcome (CcmStar_decrypt bf (cr_ops cr) ccmstar nonce
            \<lparr>pl_msg = sd_payload self, pl_aad = associated_data\<rparr>)
        else
          (let tag_size = CcmStar_get_tag_len ccmstar;
               payload_len = length (sd_payload self)
           in if payload_len < tag_size then Return None
              else
                (let tag_start = payload_len - tag_size;
                     message = take tag_start (sd_payload self);
                     tag = drop tag_start (sd_payload self)
                 in bind_outcome (ok_outcome (CcmStar_decrypt bf (cr_ops cr) ccmstar nonce
                        \<lparr>pl_msg = tag, pl_aad = associated_data @ message\<rparr>)) (\<lambda>r.
                    bind_some r (\<lambda>_. Return (Some message))))))))"

definition SecuredData_encrypt :: "('se, 'de) parse_serialize \<Rightarrow> u8 bitfield_ops \<Rightarrow> ('c, 's) crypto \<Rightarrow> bytes \<Rightarrow> bytes \<Rightarrow>
    security_level \<Rightarrow> key_identifier \<Rightarrow> u32 \<Rightarrow> bool \<Rightarrow> extended_address \<Rightarrow> key_store \<Rightarrow> secured_data option outcome" where
  "SecuredData_encrypt ps bf cr plaintext associated_data security_level key_identifier frame_counter extended_source
       source_address store =
     bind_some (generate_encryption_key (cr_hmac cr) key_identifier store) (\<lambda>key.
     bind_some (generate_nonce ps bf key_identifier frame_counter extended_source security_level source_address) (\<lambda>nonce.
     let ccmstar = CcmStar_from_cipher (cr_new cr key) (MessageIntegrityCodeLen_into (sl_mig_len security_level))
           CcmStarLengthSize_Len16
     in bind_some (ser_ok_bytes (generate_associated_data ps bf key_identifier frame_counter
            (if extended_source then Some source_address else None) security_level) associated_data) (\<lambda>associated_data.
        bind_outcome
          (if sl_encryption security_level then
             ok_outcome (CcmStar_encrypt bf (cr_ops cr) ccmstar nonce
               \<lparr>pl_msg = plaintext, pl_aad = associated_data\<rparr>)
           else
             bind_outcome (ok_outcome (CcmStar_encrypt bf (cr_ops cr) ccmstar nonce
               \<lparr>pl_msg = [], pl_aad = associated_data @ plaintext\<rparr>)) (\<lambda>tag.
             Return (map_option (\<lambda>tag. plaintext @ tag) tag)))
          (\<lambda>payload.
             bind_some payload (\<lambda>payload.
             Return (Some \<lparr>sd_key_identifier = key_identifier, sd_frame_counter = frame_counter,
               sd_extended_source = (if extended_source then Some source_address else None),
               sd_payload = payload\<rparr>))))))"


section \<open>The auxiliary header\<close>

locale security_serde = parse_serialize_module ps + bitfield_crate bf
  for ps :: "('se, 'de) parse_serialize" and bf :: "u8 bitfield_ops"

interpretation security_impl: security_serde parse_serialize_impl bitfield_impl ..

fun key_tag :: "key_identifier \<Rightarrow> u8" where
  "key_tag KeyIdentifier_Data = 0"
| "key_tag (KeyIdentifier_Network _) = 1"
| "key_tag KeyIdentifier_KeyTransport = 2"
| "key_tag KeyIdentifier_KeyLoad = 3"

lemma serialize_tag_eq [simp]: "KeyIdentifier_serialize_tag k = Ok (key_tag k)"
  by (cases k) simp_all

definition key_bytes :: "('se, 'de) parse_serialize \<Rightarrow> key_identifier \<Rightarrow> bytes" where
  "key_bytes ps k = (case k of KeyIdentifier_Network n \<Rightarrow> encoding (sd_u8 ps) n | _ \<Rightarrow> [])"

definition secured_bytes :: "('se, 'de) parse_serialize \<Rightarrow> u8 bitfield_ops \<Rightarrow> secured_data \<Rightarrow> bytes" where
  "secured_bytes ps bf d =
     encoding (sd_bitfield_u8 ps) (SecurityControl bf 0 (key_tag (sd_key_identifier d)) (sd_extended_source d \<noteq> None)) @
     encoding (sd_u32 ps) (sd_frame_counter d) @
     optional_bytes (sd_extended_address ps) (sd_extended_source d) @
     key_bytes ps (sd_key_identifier d) @ sd_payload d"

context security_serde
begin

lemma SecurityControl_fields [simp]:
  "bit_range bf (SecurityControl bf level tag extended) 2 0 = take_bit 3 level"
  "bit_range bf (SecurityControl bf level tag extended) 4 3 = take_bit 2 tag"
  "bit_range bf (SecurityControl bf level tag extended) 5 5 = bool_to_word extended"
  unfolding SecurityControl_def Let_def
  by (cases extended; simp add: get_set)+

lemma appends_key: "appends (KeyIdentifier_serialize_to ps k) (key_bytes ps k)"
  by (cases k) (simp_all add: KeyIdentifier_serialize_to_def key_bytes_def appends_ok serde_write)

lemma appends_source: "appends (ser_optional (serialize_to (sd_extended_address ps)) x) (optional_bytes (sd_extended_address ps) x)"
  unfolding optional_bytes_def by (intro appends_optional serde_write)

lemma appends_secured: "appends (SecuredData_serialize_to ps bf d) (secured_bytes ps bf d)"
  unfolding SecuredData_serialize_to_def secured_bytes_def serialize_tag_eq ser_result_Ok
  by (intro appends_then appends_extend appends_key appends_source serde_write)

lemma KeyIdentifier_deserialize_bytes:
  "KeyIdentifier_deserialize ps (take_bit 2 (key_tag k)) (key_bytes ps k @ rest) = Ok (rest, k)"
  by (cases k) (simp_all add: KeyIdentifier_deserialize_def key_bytes_def nom_map_def)

lemma SecuredData_deserialize_bytes:
  "SecuredData_deserialize ps bf (secured_bytes ps bf d) = Ok ([], d)"
proof -
  have source: "nom_cond (bool_to_word (sd_extended_source d \<noteq> None) \<noteq> (0 :: u8)) (deserialize (sd_extended_address ps))
      (optional_bytes (sd_extended_address ps) (sd_extended_source d) @ rest) = Ok (rest, sd_extended_source d)" for rest
    using nom_cond_encoded [OF extended_address, of "sd_extended_source d" rest]
    by (cases "sd_extended_source d") (simp_all add: optional_bytes_def)
  show ?thesis
    unfolding SecuredData_deserialize_def secured_bytes_def
    by (simp add: source KeyIdentifier_deserialize_bytes nom_rest_def del: not_None_eq)
qed

lemma generate_nonce_eq:
  "generate_nonce ps bf k n ext level src = Some (resize 15
    (encoding (sd_extended_address ps) src @ encoding (sd_u32 ps) n @
     encoding (sd_bitfield_u8 ps) (SecurityControl bf (SecurityLevel_into level) (key_tag k) ext)))"
proof -
  let ?ser = "ser_then (serialize_to (sd_extended_address ps) src) (ser_then (serialize_to (sd_u32 ps) n)
    (serialize_to (sd_bitfield_u8 ps) (SecurityControl bf (SecurityLevel_into level) (key_tag k) ext)))"
  have "appends ?ser (encoding (sd_extended_address ps) src @ encoding (sd_u32 ps) n @
     encoding (sd_bitfield_u8 ps) (SecurityControl bf (SecurityLevel_into level) (key_tag k) ext))"
    by (intro appends_then serde_write)
  then show ?thesis unfolding generate_nonce_def by (simp add: ser_ok_bytes_def appends_def)
qed

lemma SecurityLevel_into_inject:
  "take_bit 3 (SecurityLevel_into a) = take_bit 3 (SecurityLevel_into b) \<longleftrightarrow> a = b"
proof -
  have "SecurityLevel_into l < 8" "SecurityLevel_into l = SecurityLevel_into m \<longleftrightarrow> l = m" for l m :: security_level
    by (cases l; cases m; cases "sl_mig_len l"; cases "sl_mig_len m"; simp add: SecurityLevel_into_def)+
  then show ?thesis by (cases a; cases b; cases "sl_mig_len a"; cases "sl_mig_len b"; simp add: SecurityLevel_into_def)
qed

lemma generate_nonce_inject:
  assumes "generate_nonce ps bf k n ext level src = generate_nonce ps bf k' n' ext' level' src'"
  shows "src = src' \<and> n = n' \<and> ext = ext' \<and> level = level' \<and> key_tag k = key_tag k'"
proof -
  let ?enc = "\<lambda>k n ext level src. encoding (sd_extended_address ps) src @ encoding (sd_u32 ps) n @
     encoding (sd_bitfield_u8 ps) (SecurityControl bf (SecurityLevel_into level) (key_tag k) ext)"
  have len: "length (?enc k n ext level src) = 13" for k n ext level src by (simp add: widths)
  have "take 13 (resize 15 b) = b" if "length b = 13" for b using that by (simp add: resize_def)
  with assms len have eq: "?enc k n ext level src = ?enc k' n' ext' level' src'"
    unfolding generate_nonce_eq by (metis option.inject)
  from encoding_inject [OF extended_address eq] have src: "src = src'" and
    eq: "encoding (sd_u32 ps) n @ encoding (sd_bitfield_u8 ps) (SecurityControl bf (SecurityLevel_into level) (key_tag k) ext) =
      encoding (sd_u32 ps) n' @ encoding (sd_bitfield_u8 ps) (SecurityControl bf (SecurityLevel_into level') (key_tag k') ext')" .
  from encoding_inject [OF u32 eq] have n: "n = n'" and
    "encoding (sd_bitfield_u8 ps) (SecurityControl bf (SecurityLevel_into level) (key_tag k) ext) =
      encoding (sd_bitfield_u8 ps) (SecurityControl bf (SecurityLevel_into level') (key_tag k') ext')" .
  then have sc: "SecurityControl bf (SecurityLevel_into level) (key_tag k) ext =
      SecurityControl bf (SecurityLevel_into level') (key_tag k') ext'"
    using encoding_inject(1) [OF bitfield_u8, of _ "[]" _ "[]"] by simp
  have "take_bit 2 (key_tag k) = key_tag k" for k by (cases k) simp_all
  with sc have "key_tag k = key_tag k'" by (metis SecurityControl_fields(2))
  moreover have "level = level'" using sc by (metis SecurityControl_fields(1) SecurityLevel_into_inject)
  moreover have "ext = ext'" using sc SecurityControl_fields(3) by (metis bool_to_word_simps zero_neq_one)
  ultimately show ?thesis using src n by simp
qed

end

section \<open>Protecting a payload\<close>

context cipher_crates
begin

lemma encrypt_length:
  assumes "CcmStar_encrypt bf ops self nonce pl = Return (Ok c)"
  shows "length c = length (pl_msg pl) + CcmStar_get_tag_len self"
  using assms tag_len_le [of self]
  by (auto simp: encrypt_Ok_iff length_keystream dest!: calculate_tag_length)

lemma decrypt_length:
  assumes "CcmStar_decrypt bf ops self nonce pl = Return (Ok p)"
  shows "length (pl_msg pl) = length p + CcmStar_get_tag_len self"
  using assms by (auto simp: decrypt_Ok_iff Let_def length_keystream)

end


lemma bind_some_eq_Some_iff:
  "bind_some x f = Return (Some y) \<longleftrightarrow> (\<exists>v. x = Some v \<and> f v = Return (Some y))"
  by (cases x) (simp_all add: bind_some_def)

lemma ok_outcome_simps [simp]:
  "ok_outcome (Return (Ok x)) = Return (Some x)" "ok_outcome (Return (Err e)) = Return None" "ok_outcome Panic = Panic"
  by (simp_all add: ok_outcome_def)

lemma ok_outcome_eq_Some_iff: "ok_outcome m = Return (Some x) \<longleftrightarrow> m = Return (Ok x)"
proof (cases m)
  case (Return r)
  then show ?thesis by (cases r) simp_all
qed simp

definition protect :: "u8 bitfield_ops \<Rightarrow> ('c, 's) cipher_ops \<Rightarrow> 'c ccm_star \<Rightarrow> bytes \<Rightarrow> bool \<Rightarrow> bytes \<Rightarrow> bytes \<Rightarrow>
    bytes \<Rightarrow> bool" where
  "protect bf ops ccmstar nonce encryption aad p c \<longleftrightarrow>
     (if encryption then CcmStar_encrypt bf ops ccmstar nonce \<lparr>pl_msg = p, pl_aad = aad\<rparr> = Return (Ok c)
      else (\<exists>tag. CcmStar_encrypt bf ops ccmstar nonce \<lparr>pl_msg = [], pl_aad = aad @ p\<rparr> = Return (Ok tag) \<and> c = p @ tag))"

text \<open>Both directions in one form: the key, the nonce and the associated data, then the protected payload.\<close>

lemma SecuredData_encrypt_iff:
  "SecuredData_encrypt ps bf cr p aad level k n ext src store = Return (Some d) \<longleftrightarrow>
    (\<exists>key nonce full. generate_encryption_key (cr_hmac cr) k store = Some key \<and>
      generate_nonce ps bf k n ext level src = Some nonce \<and>
      ser_ok_bytes (generate_associated_data ps bf k n (if ext then Some src else None) level) aad = Some full \<and>
      protect bf (cr_ops cr) (CcmStar_from_cipher (cr_new cr key) (MessageIntegrityCodeLen_into (sl_mig_len level))
        CcmStarLengthSize_Len16) nonce (sl_encryption level) full p (sd_payload d) \<and>
      sd_key_identifier d = k \<and> sd_frame_counter d = n \<and> sd_extended_source d = (if ext then Some src else None))"
  unfolding SecuredData_encrypt_def protect_def
  by (cases d; cases "sl_encryption level")
    (auto simp: bind_some_eq_Some_iff ok_outcome_eq_Some_iff bind_outcome_eq_Return_iff Let_def)

context cipher_crates
begin

lemma unprotect_protected:
  assumes "protect bf ops ccmstar nonce encryption aad p c"
  shows "if encryption then CcmStar_decrypt bf ops ccmstar nonce \<lparr>pl_msg = c, pl_aad = aad\<rparr> = Return (Ok p)
    else CcmStar_get_tag_len ccmstar \<le> length c \<and> take (length c - CcmStar_get_tag_len ccmstar) c = p \<and>
      (\<exists>q. CcmStar_decrypt bf ops ccmstar nonce \<lparr>pl_msg = drop (length c - CcmStar_get_tag_len ccmstar) c,
        pl_aad = aad @ p\<rparr> = Return (Ok q))"
proof (cases encryption)
  case True
  with assms decrypt_encrypted [of bf ccmstar nonce p aad "\<lparr>pl_msg = c, pl_aad = aad\<rparr>"] show ?thesis
    by (simp add: protect_def)
next
  case False
  with assms obtain tag where tag: "CcmStar_encrypt bf ops ccmstar nonce \<lparr>pl_msg = [], pl_aad = aad @ p\<rparr> = Return (Ok tag)"
    "c = p @ tag" by (auto simp: protect_def)
  from encrypt_length [OF tag(1)] have "length tag = CcmStar_get_tag_len ccmstar" by simp
  with decrypt_encrypted [of bf ccmstar nonce "[]" "aad @ p" "\<lparr>pl_msg = tag, pl_aad = aad @ p\<rparr>"] tag False
  show ?thesis by simp
qed

lemma protected_unprotect:
  assumes "CcmStar_get_tag_len ccmstar > 0"
    and "if encryption then CcmStar_decrypt bf ops ccmstar nonce \<lparr>pl_msg = c, pl_aad = aad\<rparr> = Return (Ok p)
    else CcmStar_get_tag_len ccmstar \<le> length c \<and> take (length c - CcmStar_get_tag_len ccmstar) c = p \<and>
      (\<exists>q. CcmStar_decrypt bf ops ccmstar nonce \<lparr>pl_msg = drop (length c - CcmStar_get_tag_len ccmstar) c,
        pl_aad = aad @ p\<rparr> = Return (Ok q))"
  shows "protect bf ops ccmstar nonce encryption aad p c"
proof (cases encryption)
  case True
  with assms(2) encrypt_decrypted [OF assms(1), of bf nonce "\<lparr>pl_msg = c, pl_aad = aad\<rparr>" p aad] show ?thesis
    by (simp add: protect_def)
next
  case False
  let ?tag = "drop (length c - CcmStar_get_tag_len ccmstar) c"
  from False assms(2) obtain q where q: "CcmStar_get_tag_len ccmstar \<le> length c"
    "take (length c - CcmStar_get_tag_len ccmstar) c = p"
    "CcmStar_decrypt bf ops ccmstar nonce \<lparr>pl_msg = ?tag, pl_aad = aad @ p\<rparr> = Return (Ok q)" by auto
  from decrypt_length [OF q(3)] q(1) have "q = []" by simp
  with encrypt_decrypted [OF assms(1) q(3)] q(2) False show ?thesis
    by (auto simp: protect_def intro: exI [of _ ?tag])
qed

end

lemma SecuredData_decrypt_iff:
  "SecuredData_decrypt ps bf cr aad level src store d = Return (Some p) \<longleftrightarrow>
    (\<exists>key nonce full ccmstar. generate_encryption_key (cr_hmac cr) (sd_key_identifier d) store = Some key \<and>
      SecuredData_generate_nonce ps bf level src d = Some nonce \<and>
      ser_ok_bytes (SecuredData_generate_associated_data ps bf level d) aad = Some full \<and>
      ccmstar = CcmStar_from_cipher (cr_new cr key) (MessageIntegrityCodeLen_into (sl_mig_len level)) CcmStarLengthSize_Len16 \<and>
      (let c = sd_payload d in
       if sl_encryption level then CcmStar_decrypt bf (cr_ops cr) ccmstar nonce \<lparr>pl_msg = c, pl_aad = full\<rparr> = Return (Ok p)
       else CcmStar_get_tag_len ccmstar \<le> length c \<and> take (length c - CcmStar_get_tag_len ccmstar) c = p \<and>
        (\<exists>q. CcmStar_decrypt bf (cr_ops cr) ccmstar nonce \<lparr>pl_msg = drop (length c - CcmStar_get_tag_len ccmstar) c,
          pl_aad = full @ p\<rparr> = Return (Ok q))))"
  unfolding SecuredData_decrypt_def
  by (cases "sl_encryption level")
    (auto simp: bind_some_eq_Some_iff ok_outcome_eq_Some_iff bind_outcome_eq_Return_iff Let_def split: if_splits)


lemma nonce_and_data_agree:
  assumes "sd_key_identifier d = k" "sd_frame_counter d = n" "sd_extended_source d = (if ext then Some src else None)"
  shows "SecuredData_generate_nonce ps bf level src d = generate_nonce ps bf k n ext level src"
    and "SecuredData_generate_associated_data ps bf level d =
      generate_associated_data ps bf k n (if ext then Some src else None) level"
  using assms by (auto simp: SecuredData_generate_nonce_def SecuredData_generate_associated_data_def)

lemma decrypt_encrypted_data:
  assumes "cipher_crates (cr_ops cr) keystream advance"
    and "SecuredData_encrypt ps bf cr p aad level k n ext src store = Return (Some d)"
  shows "SecuredData_decrypt ps bf cr aad level src store d = Return (Some p)"
proof -
  from assms(2) [unfolded SecuredData_encrypt_iff] obtain key nonce full where
    e: "generate_encryption_key (cr_hmac cr) k store = Some key" "generate_nonce ps bf k n ext level src = Some nonce"
    "ser_ok_bytes (generate_associated_data ps bf k n (if ext then Some src else None) level) aad = Some full"
    "protect bf (cr_ops cr) (CcmStar_from_cipher (cr_new cr key) (MessageIntegrityCodeLen_into (sl_mig_len level))
        CcmStarLengthSize_Len16) nonce (sl_encryption level) full p (sd_payload d)"
    "sd_key_identifier d = k" "sd_frame_counter d = n" "sd_extended_source d = (if ext then Some src else None)" by blast
  show ?thesis
    unfolding SecuredData_decrypt_iff nonce_and_data_agree [OF e(5-7)]
    using e(1-3,5) cipher_crates.unprotect_protected [OF assms(1) e(4)] unfolding Let_def by blast
qed

lemma encrypt_decrypted_data:
  assumes "cipher_crates (cr_ops cr) keystream advance" "sl_mig_len level \<noteq> MIC_None"
    and "SecuredData_decrypt ps bf cr aad level src store d = Return (Some p)"
    and "sd_extended_source d = (if ext then Some src else None)"
  shows "SecuredData_encrypt ps bf cr p aad level (sd_key_identifier d) (sd_frame_counter d) ext src store = Return (Some d)"
proof -
  note agree = nonce_and_data_agree [OF refl refl assms(4)]
  from assms(3) [unfolded SecuredData_decrypt_iff agree] obtain key nonce full ccmstar where
    d: "generate_encryption_key (cr_hmac cr) (sd_key_identifier d) store = Some key"
    "generate_nonce ps bf (sd_key_identifier d) (sd_frame_counter d) ext level src = Some nonce"
    "ser_ok_bytes (generate_associated_data ps bf (sd_key_identifier d) (sd_frame_counter d) (if ext then Some src else None) level) aad = Some full"
    "ccmstar = CcmStar_from_cipher (cr_new cr key) (MessageIntegrityCodeLen_into (sl_mig_len level)) CcmStarLengthSize_Len16"
    and r: "let c = sd_payload d in
       if sl_encryption level then CcmStar_decrypt bf (cr_ops cr) ccmstar nonce \<lparr>pl_msg = c, pl_aad = full\<rparr> = Return (Ok p)
       else CcmStar_get_tag_len ccmstar \<le> length c \<and> take (length c - CcmStar_get_tag_len ccmstar) c = p \<and>
        (\<exists>q. CcmStar_decrypt bf (cr_ops cr) ccmstar nonce \<lparr>pl_msg = drop (length c - CcmStar_get_tag_len ccmstar) c,
          pl_aad = full @ p\<rparr> = Return (Ok q))" by blast
  have "CcmStar_get_tag_len ccmstar > 0" using assms(2) unfolding d(4)
    by (cases "sl_mig_len level")
      (simp_all add: CcmStar_from_cipher_def CcmStar_get_tag_len_def CcmStarIntegrityCodeLen_tag_size_def)
  from cipher_crates.protected_unprotect [OF assms(1) this r [unfolded Let_def]] d assms(4) show ?thesis
    unfolding SecuredData_encrypt_iff by blast
qed

section \<open>When encryption succeeds\<close>

lemma length_resize [simp]: "length (resize n v) = n"
  by (simp add: resize_def)

context security_serde
begin

lemma generate_associated_data_length:
  "\<exists>b. ser_ok_bytes (generate_associated_data ps bf k n ext level) aad = Some (aad @ b) \<and> length b \<le> 14"
proof -
  let ?b = "encoding (sd_bitfield_u8 ps) (SecurityControl bf (SecurityLevel_into level) (key_tag k) (ext \<noteq> None)) @
    encoding (sd_u32 ps) n @ optional_bytes (sd_extended_address ps) ext @ key_bytes ps k"
  have "appends (generate_associated_data ps bf k n ext level) ?b"
    unfolding generate_associated_data_def serialize_tag_eq ser_result_Ok
    by (intro appends_then appends_key appends_source serde_write)
  moreover have "length (key_bytes ps k) \<le> 1" "length (optional_bytes (sd_extended_address ps) ext) \<le> 8"
    by (cases k; cases ext; simp add: key_bytes_def optional_bytes_def widths)+
  ultimately show ?thesis by (intro exI [of _ ?b]) (simp add: appends_def ser_ok_bytes_def widths)
qed

end

text \<open>The length of the nonce and of the length field fit, so only a missing key or a long message fail.\<close>

lemma protect_outcome:
  assumes "cipher_crates ops keystream advance" "length nonce = 15" "length aad + length p \<le> 0xFFFFFFFFFFFFFFFF"
    "length_size ccmstar = CcmStarLengthSize_Len16"
    and m: "m = (if encryption then ok_outcome (CcmStar_encrypt bf ops ccmstar nonce \<lparr>pl_msg = p, pl_aad = aad\<rparr>)
    else bind_outcome (ok_outcome (CcmStar_encrypt bf ops ccmstar nonce \<lparr>pl_msg = [], pl_aad = aad @ p\<rparr>))
      (\<lambda>tag. Return (map_option (\<lambda>tag. p @ tag) tag)))"
  shows "if encryption \<and> length p \<ge> 2 ^ 16 then m = Return None else \<exists>c. m = Return (Some c)"
proof -
  have enc: "if length msg \<ge> 2 ^ 16 then ok_outcome (CcmStar_encrypt bf ops ccmstar nonce \<lparr>pl_msg = msg, pl_aad = a\<rparr>) = Return None
      else \<exists>c. ok_outcome (CcmStar_encrypt bf ops ccmstar nonce \<lparr>pl_msg = msg, pl_aad = a\<rparr>) = Return (Some c)"
    if "length a \<le> 0xFFFFFFFFFFFFFFFF" for msg a
  proof -
    from that have a: "length (pl_aad \<lparr>pl_msg = msg, pl_aad = a\<rparr>) \<le> 0xFFFFFFFFFFFFFFFF" by simp
    from cipher_crates.encrypt_outcome [OF assms(1,2) a, of bf ccmstar] assms(4)
    have "CcmStar_encrypt bf ops ccmstar nonce \<lparr>pl_msg = msg, pl_aad = a\<rparr> \<noteq> Panic"
      "(\<exists>c. CcmStar_encrypt bf ops ccmstar nonce \<lparr>pl_msg = msg, pl_aad = a\<rparr> = Return (Ok c)) \<longleftrightarrow> length msg < 2 ^ 16"
      by simp_all
    then obtain r where r: "CcmStar_encrypt bf ops ccmstar nonce \<lparr>pl_msg = msg, pl_aad = a\<rparr> = Return r"
      "(\<exists>c. r = Ok c) \<longleftrightarrow> length msg < 2 ^ 16"
      by (cases "CcmStar_encrypt bf ops ccmstar nonce \<lparr>pl_msg = msg, pl_aad = a\<rparr>") auto
    then show ?thesis by (cases r) (auto simp: not_le)
  qed
  show ?thesis
    using enc [of aad p] enc [of "aad @ p" "[]"] assms(3) unfolding m by (cases encryption) auto
qed

lemma SecuredData_encrypt_cases:
  assumes "cipher_crates (cr_ops cr) keystream advance" "parse_serialize_module ps" "bitfield_crate bf"
    "length aad + length p \<le> 0xFFFFFFFFFFFFFFF0"
  shows "if generate_encryption_key (cr_hmac cr) k store = None \<or> sl_encryption level \<and> length p \<ge> 2 ^ 16
    then SecuredData_encrypt ps bf cr p aad level k n ext src store = Return None
    else (\<exists>d. SecuredData_encrypt ps bf cr p aad level k n ext src store = Return (Some d))"
proof (cases "generate_encryption_key (cr_hmac cr) k store")
  case None
  then show ?thesis by (simp add: SecuredData_encrypt_def bind_some_def)
next
  case (Some key)
  have serde: "security_serde ps bf" by (intro security_serde.intro assms(2,3))
  from security_serde.generate_associated_data_length [OF serde] obtain b where
    b: "ser_ok_bytes (generate_associated_data ps bf k n (if ext then Some src else None) level) aad = Some (aad @ b)"
    "length b \<le> 14" by blast
  have len: "length (aad @ b) + length p \<le> 0xFFFFFFFFFFFFFFFF" using b(2) assms(4) by simp
  note out = protect_outcome [where nonce = "resize 15 (encoding (sd_extended_address ps) src @ encoding (sd_u32 ps) n @
      encoding (sd_bitfield_u8 ps) (SecurityControl bf (SecurityLevel_into level) (key_tag k) ext))",
      OF assms(1) length_resize len, where encryption = "sl_encryption level" and bf = bf and
      ccmstar = "CcmStar_from_cipher (cr_new cr key) (MessageIntegrityCodeLen_into (sl_mig_len level)) CcmStarLengthSize_Len16",
      OF _ refl, unfolded CcmStar_from_cipher_def ccm_star.select_convs, OF refl]
  show ?thesis
    using Some out
    unfolding SecuredData_encrypt_def security_serde.generate_nonce_eq [OF serde] b(1)
    by (cases "sl_encryption level") (auto simp: bind_some_def Let_def CcmStar_from_cipher_def split: if_splits)
qed

section \<open>Properties\<close>

text \<open>
  C35. What was encrypted decrypts to the plaintext, with the same keys, header and addresses;
  and with an integrity code nothing else decrypts to it: data that decrypts to a message is what
  encrypting this message yields.
\<close>

theorem SecuredData_decrypts_exactly_encrypted:
  assumes "cipher_crates (cr_ops cr) keystream advance"
  shows "(SecuredData_encrypt ps bf cr p aad level k n ext src store = Return (Some d) \<longrightarrow>
      SecuredData_decrypt ps bf cr aad level src store d = Return (Some p)) \<and>
    (sl_mig_len level \<noteq> MIC_None \<longrightarrow> sd_key_identifier d = k \<longrightarrow> sd_frame_counter d = n \<longrightarrow>
      sd_extended_source d = (if ext then Some src else None) \<longrightarrow>
      SecuredData_decrypt ps bf cr aad level src store d = Return (Some p) \<longrightarrow>
      SecuredData_encrypt ps bf cr p aad level k n ext src store = Return (Some d))"
  using decrypt_encrypted_data [OF assms] encrypt_decrypted_data [OF assms] by blast


definition demo_crypto :: "(bytes, bytes \<times> bytes \<times> nat) crypto" where
  "demo_crypto = \<lparr>cr_ops = ctr_ops demo_cipher, cr_new = id, cr_hmac = (\<lambda>key m. demo_cipher m key)\<rparr>"

definition demo_store :: key_store where
  "demo_store = \<lparr>ks_data = None, ks_network = [0 \<mapsto> replicate 16 7], ks_key_transport = Some (replicate 16 9), ks_key_load = None\<rparr>"

lemma demo_crypto_ok: "cipher_crates (cr_ops demo_crypto) (ctr_keystream demo_cipher) ctr_advance"
  using demo_cipher.ctr.cipher_crates_axioms by (simp add: demo_crypto_def)

theorem SecuredData_decrypts_exactly_encrypted_witness:
  "\<exists>d. SecuredData_encrypt parse_serialize_impl bitfield_impl demo_crypto [1, 2, 3] [0x21, 6]
      \<lparr>sl_encryption = True, sl_mig_len = MIC32\<rparr> (KeyIdentifier_Network 0) 1 False (ExtendedAddress 5) demo_store = Return (Some d) \<and>
    SecuredData_decrypt parse_serialize_impl bitfield_impl demo_crypto [0x21, 6]
      \<lparr>sl_encryption = True, sl_mig_len = MIC32\<rparr> (ExtendedAddress 5) demo_store d = Return (Some [1, 2, 3])"
proof -
  from SecuredData_encrypt_cases [OF demo_crypto_ok parse_serialize_impl.parse_serialize_module_axioms
      bitfield_impl.bitfield_crate_axioms, of "[0x21, 6]" "[1, 2, 3]" "KeyIdentifier_Network 0" demo_store
      "\<lparr>sl_encryption = True, sl_mig_len = MIC32\<rparr>" 1 False "ExtendedAddress 5"]
  obtain d where d: "SecuredData_encrypt parse_serialize_impl bitfield_impl demo_crypto [1, 2, 3] [0x21, 6]
      \<lparr>sl_encryption = True, sl_mig_len = MIC32\<rparr> (KeyIdentifier_Network 0) 1 False (ExtendedAddress 5) demo_store = Return (Some d)"
    by (auto simp: generate_encryption_key_def demo_store_def)
  with SecuredData_decrypts_exactly_encrypted [OF demo_crypto_ok] show ?thesis by blast
qed

text \<open>
  Encryption never panics, and fails only without a key or, when it hides the payload, for a
  payload that does not fit a length of 16 bits.
\<close>

theorem SecuredData_encrypt_outcome:
  assumes "cipher_crates (cr_ops cr) keystream advance" "parse_serialize_module ps" "bitfield_crate bf"
    "length aad + length p \<le> 0xFFFFFFFFFFFFFFF0"
  shows "SecuredData_encrypt ps bf cr p aad level k n ext src store \<noteq> Panic \<and>
    (SecuredData_encrypt ps bf cr p aad level k n ext src store = Return None \<longleftrightarrow>
      generate_encryption_key (cr_hmac cr) k store = None \<or> sl_encryption level \<and> length p \<ge> 2 ^ 16)"
  using SecuredData_encrypt_cases [OF assms, of k store level n ext src] by (auto split: if_splits)

text \<open>
  Two messages have the same nonce only if they agree in the source address, the frame counter,
  the security level, the kind of key and whether the address is sent.
\<close>

theorem nonces_differ:
  assumes "parse_serialize_module ps" "bitfield_crate bf"
    "generate_nonce ps bf k n ext level src = generate_nonce ps bf k' n' ext' level' src'"
  shows "src = src' \<and> n = n' \<and> ext = ext' \<and> level = level' \<and> KeyIdentifier_serialize_tag k = KeyIdentifier_serialize_tag k'"
  using security_serde.generate_nonce_inject [OF security_serde.intro [OF assms(1,2)] assms(3)] by simp

text \<open>
  Secured data is always serialised, and read back from its bytes as it was.
\<close>

theorem SecuredData_roundtrip:
  assumes "parse_serialize_module ps" "bitfield_crate bf"
  shows "\<exists>bs. SecuredData_serialize_to ps bf d target = (Ok (), target @ bs) \<and> SecuredData_deserialize ps bf bs = Ok ([], d)"
  using security_serde.appends_secured [OF security_serde.intro [OF assms], of d]
    security_serde.SecuredData_deserialize_bytes [OF security_serde.intro [OF assms], of d]
  by (auto simp: appends_def)

text \<open>
  The key for loading keys is derived from the transport key: the key that the store holds for
  it has no influence, and without a transport key there is none.
\<close>

theorem key_load_key_unused:
  "generate_encryption_key hmac KeyIdentifier_KeyLoad (store\<lparr>ks_key_load := x\<rparr>) =
     generate_encryption_key hmac KeyIdentifier_KeyLoad store \<and>
   (generate_encryption_key hmac KeyIdentifier_KeyLoad store = None \<longleftrightarrow> ks_key_transport store = None)"
  by (simp add: generate_encryption_key_def)

end
