(* ===== verification/Zigbee_Nwk.thy ===== *)
theory Zigbee_Nwk
  imports Zigbee_Security
begin

unbundle bit_operations_syntax

text \<open>
  The network layer frames of the earlier stack (\<^verbatim>\<open>old_src/zigbee/nwk/frame.rs\<close>), over the
  serialisers of \<^verbatim>\<open>parse_serialize\<close> and the bit fields, which are arguments.
\<close>

section \<open>Definitions\<close>

datatype nwk_frame_type = NwkFrameType_Data bytes | NwkFrameType_Command bytes | NwkFrameType_InterPAN bytes

datatype discover_route = SupressRouteDiscovery | EnableRouteDiscovery

fun DiscoverRoute_as_u16 :: "discover_route \<Rightarrow> u16" where
  "DiscoverRoute_as_u16 SupressRouteDiscovery = 0"
| "DiscoverRoute_as_u16 EnableRouteDiscovery = 1"

text \<open>What \<^verbatim>\<open>TryFromPrimitive\<close> derives.\<close>

definition DiscoverRoute_try_from :: "u16 \<Rightarrow> discover_route option" where
  "DiscoverRoute_try_from n =
     (if n = 0 then Some SupressRouteDiscovery else if n = 1 then Some EnableRouteDiscovery else None)"

record source_route =
  relay_index :: u8
  relay_list :: "short_address list"

record nwk_frame =
  nf_frame_type :: "(nwk_frame_type, u16) securable_tagged"
  nf_protocol_version :: u8
  nf_destination :: short_address
  nf_source :: short_address
  nf_radius :: u8
  nf_sequence_number :: u8
  nf_discover_route :: discover_route
  nf_destination_ext :: "extended_address option"
  nf_source_ext :: "extended_address option"
  nf_source_route :: "source_route option"

definition NwkFrameType_serialize_to :: "('se, 'de) parse_serialize \<Rightarrow> nwk_frame_type \<Rightarrow> 'se ser" where
  "NwkFrameType_serialize_to ps self =
     (case self of
        NwkFrameType_Data bytes \<Rightarrow> ser_extend bytes
      | _ \<Rightarrow> ser_fail (se_unimplemented ps ''Not yet implemented''))"

fun NwkFrameType_serialize_tag :: "nwk_frame_type \<Rightarrow> (u16, 'se) result" where
  "NwkFrameType_serialize_tag (NwkFrameType_Data _) = Ok 0"
| "NwkFrameType_serialize_tag (NwkFrameType_Command _) = Ok 1"
| "NwkFrameType_serialize_tag (NwkFrameType_InterPAN _) = Ok 3"

definition NwkFrameType_deserialize :: "('se, 'de) parse_serialize \<Rightarrow> u16 \<Rightarrow> (nwk_frame_type, 'de) parser" where
  "NwkFrameType_deserialize ps tag input =
     (if tag = 0 then nom_map nom_rest NwkFrameType_Data input
      else Err (de_unexpected_data ps input))"

definition SourceRoute_serialize_to :: "('se, 'de) parse_serialize \<Rightarrow> source_route \<Rightarrow> 'se ser" where
  "SourceRoute_serialize_to ps self =
     (let len = length (relay_list self)
      in if len > 255 then ser_fail (se_unexpected_data ps)
         else
           ser_then
             (ser_tuple ps [serialize_to (sd_u8 ps) (of_nat len), serialize_to (sd_u8 ps) (relay_index self)])
             (ser_each (serialize_to (sd_short_address ps)) (relay_list self)))"

definition SourceRoute_deserialize :: "('se, 'de) parse_serialize \<Rightarrow> (source_route, 'de) parser" where
  "SourceRoute_deserialize ps input =
     and_then (de_u8_u8 ps input) (\<lambda>(input, (len, relay_index)).
     and_then (nom_count (deserialize (sd_short_address ps)) (unat len) input) (\<lambda>(input, relay_list).
     Ok (input, \<lparr>relay_index = relay_index, relay_list = relay_list\<rparr>)))"

definition NwkFrame_serialize_to :: "('se, 'de) parse_serialize \<Rightarrow> u8 bitfield_ops \<Rightarrow> u16 bitfield_ops \<Rightarrow> nwk_frame \<Rightarrow> 'se ser" where
  "NwkFrame_serialize_to ps bf8 bf self =
     ser_result (SecurableTagged_serialize_tag NwkFrameType_serialize_tag (nf_frame_type self)) (\<lambda>frame_type_tag.
     let fsf = 0;
         fsf = set_bit_range bf fsf 1 0 (snd frame_type_tag)
     in if nf_protocol_version self > 15 then ser_fail (se_unexpected_data ps)
        else
          (let fsf = set_bit_range bf fsf 5 2 (ucast (nf_protocol_version self));
               fsf = set_bit_range bf fsf 7 6 (DiscoverRoute_as_u16 (nf_discover_route self));
               fsf = set_bit_range bf fsf 8 8 0;
               fsf = set_bit_range bf fsf 9 9 (bool_to_word (fst frame_type_tag));
               fsf = set_bit_range bf fsf 10 10 (bool_to_word (nf_source_route self \<noteq> None));
               fsf = set_bit_range bf fsf 11 11 (bool_to_word (nf_destination_ext self \<noteq> None));
               fsf = set_bit_range bf fsf 12 12 (bool_to_word (nf_source_ext self \<noteq> None));
               fsf = set_bit_range bf fsf 15 13 0
           in ser_then
                (ser_tuple ps
                  [serialize_to (sd_bitfield_u16 ps) fsf,
                   serialize_to (sd_short_address ps) (nf_destination self),
                   serialize_to (sd_short_address ps) (nf_source self),
                   serialize_to (sd_u8 ps) (nf_radius self),
                   serialize_to (sd_u8 ps) (nf_sequence_number self)])
              (ser_then (ser_optional (serialize_to (sd_extended_address ps)) (nf_destination_ext self))
              (ser_then (ser_optional (serialize_to (sd_extended_address ps)) (nf_source_ext self))
              (ser_then (ser_optional (SourceRoute_serialize_to ps) (nf_source_route self))
                (SecurableTagged_serialize_to ps bf8 (NwkFrameType_serialize_to ps) (nf_frame_type self)))))))"

definition NwkFrame_deserialize :: "('se, 'de) parse_serialize \<Rightarrow> u8 bitfield_ops \<Rightarrow> u16 bitfield_ops \<Rightarrow> (nwk_frame, 'de) parser" where
  "NwkFrame_deserialize ps bf8 bf input =
     and_then (deserialize (sd_bitfield_u16 ps) input) (\<lambda>(input, fsf).
     let protocol_version = ucast (bit_range bf fsf 5 2) :: u8
     in case DiscoverRoute_try_from (bit_range bf fsf 7 6) of
          None \<Rightarrow> Err (de_invalid_enum ps input)
        | Some discover_route \<Rightarrow>
            if bit_range bf fsf 8 8 \<noteq> 0 then Err (de_unimplemented ps input ''Multicast not yet supported'')
            else if bit_range bf fsf 15 13 \<noteq> 0 then Err (de_unimplemented ps input ''Reserved was not 0'')
            else
              and_then (de_short_short_u8_u8 ps input) (\<lambda>(input, (dst, src, radius, sequence_number)).
              and_then (nom_cond (bit_range bf fsf 11 11 \<noteq> 0) (deserialize (sd_extended_address ps)) input)
                (\<lambda>(input, destination_ext).
              and_then (nom_cond (bit_range bf fsf 12 12 \<noteq> 0) (deserialize (sd_extended_address ps)) input)
                (\<lambda>(input, source_ext).
              and_then (nom_cond (bit_range bf fsf 10 10 \<noteq> 0) (SourceRoute_deserialize ps) input)
                (\<lambda>(input, route).
              and_then (SecurableTagged_deserialize ps bf8 (NwkFrameType_deserialize ps)
                  (bit_range bf fsf 9 9 \<noteq> 0, bit_range bf fsf 1 0) input) (\<lambda>(input, frame_type).
              Ok (input, \<lparr>nf_frame_type = frame_type, nf_protocol_version = protocol_version,
                nf_destination = dst, nf_source = src, nf_radius = radius, nf_sequence_number = sequence_number,
                nf_discover_route = discover_route, nf_destination_ext = destination_ext, nf_source_ext = source_ext,
                nf_source_route = route\<rparr>)))))))"


section \<open>Reading back\<close>

locale nwk_serde = security_serde ps bf8 + nwk: bitfield_crate bf
  for ps :: "('se, 'de) parse_serialize" and bf8 :: "u8 bitfield_ops" and bf :: "u16 bitfield_ops"

interpretation nwk_impl: nwk_serde parse_serialize_impl bitfield_impl bitfield_impl ..

definition nwk_control :: "u16 bitfield_ops \<Rightarrow> bool \<times> u16 \<Rightarrow> nwk_frame \<Rightarrow> u16" where
  "nwk_control bf tag self =
     (let fsf = set_bit_range bf 0 1 0 (snd tag);
          fsf = set_bit_range bf fsf 5 2 (ucast (nf_protocol_version self));
          fsf = set_bit_range bf fsf 7 6 (DiscoverRoute_as_u16 (nf_discover_route self));
          fsf = set_bit_range bf fsf 8 8 0;
          fsf = set_bit_range bf fsf 9 9 (bool_to_word (fst tag));
          fsf = set_bit_range bf fsf 10 10 (bool_to_word (nf_source_route self \<noteq> None));
          fsf = set_bit_range bf fsf 11 11 (bool_to_word (nf_destination_ext self \<noteq> None));
          fsf = set_bit_range bf fsf 12 12 (bool_to_word (nf_source_ext self \<noteq> None))
      in set_bit_range bf fsf 15 13 0)"

fun frame_tag :: "(nwk_frame_type, u16) securable_tagged \<Rightarrow> bool \<times> u16" where
  "frame_tag (SecurableTagged_Secured tag _) = (True, tag)"
| "frame_tag (SecurableTagged_Unsecured (NwkFrameType_Data _)) = (False, 0)"
| "frame_tag (SecurableTagged_Unsecured (NwkFrameType_Command _)) = (False, 1)"
| "frame_tag (SecurableTagged_Unsecured (NwkFrameType_InterPAN _)) = (False, 3)"

lemma serialize_frame_tag:
  "SecurableTagged_serialize_tag NwkFrameType_serialize_tag t = Ok (frame_tag t)"
  by (cases t rule: frame_tag.cases) simp_all

definition route_bytes :: "('se, 'de) parse_serialize \<Rightarrow> source_route \<Rightarrow> bytes" where
  "route_bytes ps r =
     encoding (sd_u8 ps) (of_nat (length (relay_list r))) @ encoding (sd_u8 ps) (relay_index r) @
     concat (map (encoding (sd_short_address ps)) (relay_list r))"

context nwk_serde
begin

lemma nwk_control_fields [simp]:
  "bit_range bf (nwk_control bf tag f) 1 0 = take_bit 2 (snd tag)"
  "bit_range bf (nwk_control bf tag f) 5 2 = take_bit 4 (ucast (nf_protocol_version f))"
  "bit_range bf (nwk_control bf tag f) 7 6 = take_bit 2 (DiscoverRoute_as_u16 (nf_discover_route f))"
  "bit_range bf (nwk_control bf tag f) 8 8 = 0"
  "bit_range bf (nwk_control bf tag f) 9 9 = bool_to_word (fst tag)"
  "bit_range bf (nwk_control bf tag f) 10 10 = bool_to_word (nf_source_route f \<noteq> None)"
  "bit_range bf (nwk_control bf tag f) 11 11 = bool_to_word (nf_destination_ext f \<noteq> None)"
  "bit_range bf (nwk_control bf tag f) 12 12 = bool_to_word (nf_source_ext f \<noteq> None)"
  "bit_range bf (nwk_control bf tag f) 15 13 = 0"
  unfolding nwk_control_def Let_def by (simp_all add: nwk.get_set flag_bits numeral_2_eq_2)

lemmas nwk_control_type [simp] = nwk_control_fields(1) [unfolded One_nat_def]

lemma route_written:
  assumes "length (relay_list r) \<le> 255"
  shows "appends (SourceRoute_serialize_to ps r) (route_bytes ps r)"
proof -
  have "appends (ser_tuple ps [serialize_to (sd_u8 ps) (of_nat (length (relay_list r))), serialize_to (sd_u8 ps) (relay_index r)])
      (concat [encoding (sd_u8 ps) (of_nat (length (relay_list r))), encoding (sd_u8 ps) (relay_index r)])"
    by (intro appends_tuple) (simp add: serde_write)
  moreover have "appends (ser_each (serialize_to (sd_short_address ps)) (relay_list r))
      (concat (map (encoding (sd_short_address ps)) (relay_list r)))"
    by (intro appends_each serde_write)
  ultimately show ?thesis
    using assms appends_then by (fastforce simp: SourceRoute_serialize_to_def route_bytes_def)
qed

lemma route_read:
  assumes "length (relay_list r) \<le> 255"
  shows "SourceRoute_deserialize ps (route_bytes ps r @ rest) = Ok (rest, r)"
  using assms nom_count_encoded [OF short_address, of "relay_list r" rest]
  by (simp add: SourceRoute_deserialize_def route_bytes_def u8_u8 de_pair_def unat_of_nat take_bit_nat_eq_self)

lemma route_refused: "length (relay_list r) > 255 \<Longrightarrow> fst (SourceRoute_serialize_to ps r target) \<noteq> Ok ()"
  by (simp add: SourceRoute_serialize_to_def ser_fail_def)

end

fun type_bytes :: "('se, 'de) parse_serialize \<Rightarrow> u8 bitfield_ops \<Rightarrow> (nwk_frame_type, u16) securable_tagged \<Rightarrow> bytes" where
  "type_bytes ps bf8 (SecurableTagged_Secured _ d) = secured_bytes ps bf8 d"
| "type_bytes ps bf8 (SecurableTagged_Unsecured (NwkFrameType_Data bytes)) = bytes"
| "type_bytes ps bf8 (SecurableTagged_Unsecured _) = []"

fun type_writable :: "(nwk_frame_type, u16) securable_tagged \<Rightarrow> bool" where
  "type_writable (SecurableTagged_Secured _ _) = True"
| "type_writable (SecurableTagged_Unsecured (NwkFrameType_Data _)) = True"
| "type_writable (SecurableTagged_Unsecured _) = False"

definition nwk_writable :: "nwk_frame \<Rightarrow> bool" where
  "nwk_writable f \<longleftrightarrow> nf_protocol_version f \<le> 15 \<and> type_writable (nf_frame_type f) \<and>
     (\<forall>r. nf_source_route f = Some r \<longrightarrow> length (relay_list r) \<le> 255)"

definition nwk_bytes :: "('se, 'de) parse_serialize \<Rightarrow> u8 bitfield_ops \<Rightarrow> u16 bitfield_ops \<Rightarrow> nwk_frame \<Rightarrow> bytes" where
  "nwk_bytes ps bf8 bf f =
     (encoding (sd_bitfield_u16 ps) (nwk_control bf (frame_tag (nf_frame_type f)) f) @
      encoding (sd_short_address ps) (nf_destination f) @ encoding (sd_short_address ps) (nf_source f) @
      encoding (sd_u8 ps) (nf_radius f) @ encoding (sd_u8 ps) (nf_sequence_number f)) @
     optional_bytes (sd_extended_address ps) (nf_destination_ext f) @
     optional_bytes (sd_extended_address ps) (nf_source_ext f) @
     (case nf_source_route f of None \<Rightarrow> [] | Some r \<Rightarrow> route_bytes ps r) @
     type_bytes ps bf8 (nf_frame_type f)"

context nwk_serde
begin

lemma NwkFrame_serialize_eq:
  "nf_protocol_version f \<le> 15 \<Longrightarrow>
    NwkFrame_serialize_to ps bf8 bf f =
      ser_then (ser_tuple ps
        [serialize_to (sd_bitfield_u16 ps) (nwk_control bf (frame_tag (nf_frame_type f)) f),
         serialize_to (sd_short_address ps) (nf_destination f), serialize_to (sd_short_address ps) (nf_source f),
         serialize_to (sd_u8 ps) (nf_radius f), serialize_to (sd_u8 ps) (nf_sequence_number f)])
      (ser_then (ser_optional (serialize_to (sd_extended_address ps)) (nf_destination_ext f))
      (ser_then (ser_optional (serialize_to (sd_extended_address ps)) (nf_source_ext f))
      (ser_then (ser_optional (SourceRoute_serialize_to ps) (nf_source_route f))
        (SecurableTagged_serialize_to ps bf8 (NwkFrameType_serialize_to ps) (nf_frame_type f)))))"
  unfolding NwkFrame_serialize_to_def serialize_frame_tag nwk_control_def Let_def
  by (simp add: linorder_not_less [symmetric])

lemma NwkFrame_written:
  assumes "nwk_writable f"
  shows "appends (NwkFrame_serialize_to ps bf8 bf f) (nwk_bytes ps bf8 bf f)"
proof -
  have proto: "nf_protocol_version f \<le> 15" using assms by (simp add: nwk_writable_def)
  have header: "appends (ser_tuple ps
        [serialize_to (sd_bitfield_u16 ps) (nwk_control bf (frame_tag (nf_frame_type f)) f),
         serialize_to (sd_short_address ps) (nf_destination f), serialize_to (sd_short_address ps) (nf_source f),
         serialize_to (sd_u8 ps) (nf_radius f), serialize_to (sd_u8 ps) (nf_sequence_number f)])
      (concat [encoding (sd_bitfield_u16 ps) (nwk_control bf (frame_tag (nf_frame_type f)) f),
         encoding (sd_short_address ps) (nf_destination f), encoding (sd_short_address ps) (nf_source f),
         encoding (sd_u8 ps) (nf_radius f), encoding (sd_u8 ps) (nf_sequence_number f)])"
    by (intro appends_tuple) (simp add: serde_write)
  have route: "appends (ser_optional (SourceRoute_serialize_to ps) (nf_source_route f))
      (case nf_source_route f of None \<Rightarrow> [] | Some r \<Rightarrow> route_bytes ps r)"
    using assms by (intro appends_optional route_written) (simp add: nwk_writable_def)
  have kind: "appends (SecurableTagged_serialize_to ps bf8 (NwkFrameType_serialize_to ps) (nf_frame_type f))
      (type_bytes ps bf8 (nf_frame_type f))"
    using assms unfolding nwk_writable_def
    by (cases "nf_frame_type f" rule: type_writable.cases)
      (simp_all add: appends_secured NwkFrameType_serialize_to_def appends_extend)
  have "nwk_bytes ps bf8 bf f = concat [encoding (sd_bitfield_u16 ps) (nwk_control bf (frame_tag (nf_frame_type f)) f),
         encoding (sd_short_address ps) (nf_destination f), encoding (sd_short_address ps) (nf_source f),
         encoding (sd_u8 ps) (nf_radius f), encoding (sd_u8 ps) (nf_sequence_number f)] @
      optional_bytes (sd_extended_address ps) (nf_destination_ext f) @
      optional_bytes (sd_extended_address ps) (nf_source_ext f) @
      (case nf_source_route f of None \<Rightarrow> [] | Some r \<Rightarrow> route_bytes ps r) @ type_bytes ps bf8 (nf_frame_type f)"
    by (simp add: nwk_bytes_def)
  then show ?thesis
    unfolding NwkFrame_serialize_eq [OF proto] optional_bytes_def
    by (elim ssubst) (intro appends_then appends_optional header route kind serde_write)
qed

lemma NwkFrame_refused:
  assumes "\<not> nwk_writable f"
  shows "fst (NwkFrame_serialize_to ps bf8 bf f target) \<noteq> Ok ()"
proof (cases "nf_protocol_version f \<le> 15")
  case True
  have kind: "fst (SecurableTagged_serialize_to ps bf8 (NwkFrameType_serialize_to ps) (nf_frame_type f) t) \<noteq> Ok ()"
    if "\<not> type_writable (nf_frame_type f)" for t
    using that by (cases "nf_frame_type f" rule: type_writable.cases) (simp_all add: NwkFrameType_serialize_to_def ser_fail_def)
  have route: "fst (ser_optional (SourceRoute_serialize_to ps) (nf_source_route f) t) \<noteq> Ok ()"
    if "nf_source_route f = Some r" "255 < length (relay_list r)" for r t
    using that route_refused by (simp add: ser_optional_def)
  from assms True consider "\<not> type_writable (nf_frame_type f)"
    | r where "nf_source_route f = Some r" "255 < length (relay_list r)" by (auto simp: nwk_writable_def not_le)
  then show ?thesis
  proof cases
    case 1
    then show ?thesis unfolding NwkFrame_serialize_eq [OF True] by (intro ser_then_Err(2) kind)
  next
    case (2 r)
    have "fst (ser_then (ser_optional (SourceRoute_serialize_to ps) (nf_source_route f)) b t) \<noteq> Ok ()" for b t
      by (rule ser_then_Err(1)) (rule route [OF 2])
    then show ?thesis unfolding NwkFrame_serialize_eq [OF True] by (intro ser_then_Err(2) [where b = "ser_then _ _"])
  qed
next
  case False
  then have "15 < nf_protocol_version f" by simp
  then show ?thesis unfolding NwkFrame_serialize_to_def serialize_frame_tag Let_def by (simp add: ser_fail_def)
qed

lemma NwkFrame_read:
  assumes "nwk_writable f" "take_bit 2 (snd (frame_tag (nf_frame_type f))) = snd (frame_tag (nf_frame_type f))"
  shows "NwkFrame_deserialize ps bf8 bf (nwk_bytes ps bf8 bf f) = Ok ([], f)"
proof -
  have proto: "ucast (take_bit 4 (ucast (nf_protocol_version f) :: u16)) = nf_protocol_version f"
    using assms(1) by (simp add: nwk_writable_def word_le_nat_alt word_unat_eq_iff unsigned_take_bit_eq unsigned_ucast_eq take_bit_nat_eq_self)
  have discover: "DiscoverRoute_try_from (take_bit 2 (DiscoverRoute_as_u16 d)) = Some d" for d
    by (cases d) (simp_all add: DiscoverRoute_try_from_def)
  have ext: "nom_cond (x \<noteq> None) (deserialize (sd_extended_address ps))
      (optional_bytes (sd_extended_address ps) x @ rest) = Ok (rest, x)" for x rest
    unfolding optional_bytes_def by (rule nom_cond_encoded [OF extended_address])
  have route: "nom_cond (nf_source_route f \<noteq> None) (SourceRoute_deserialize ps)
      ((case nf_source_route f of None \<Rightarrow> [] | Some r \<Rightarrow> route_bytes ps r) @ rest) = Ok (rest, nf_source_route f)" for rest
    using assms(1) route_read unfolding nwk_writable_def
    by (cases "nf_source_route f") (simp_all add: nom_cond_def nom_map_def)
  have kind: "SecurableTagged_deserialize ps bf8 (NwkFrameType_deserialize ps)
      (fst (frame_tag (nf_frame_type f)), snd (frame_tag (nf_frame_type f))) (type_bytes ps bf8 (nf_frame_type f)) = Ok ([], nf_frame_type f)"
    using assms(1) unfolding nwk_writable_def
    by (cases "nf_frame_type f" rule: type_writable.cases)
      (simp_all add: SecurableTagged_deserialize_def SecuredData_deserialize_bytes NwkFrameType_deserialize_def nom_map_def nom_rest_def)
  show ?thesis
    unfolding NwkFrame_deserialize_def nwk_bytes_def append_assoc
    by (simp add: short_short_u8_u8 de_pair_def proto discover ext route kind [simplified] assms(2) flag_bits(2) Let_def del: not_None_eq)
qed

end

text \<open>What the parser accepts.\<close>

fun tag_fits :: "(nwk_frame_type, u16) securable_tagged \<Rightarrow> bool" where
  "tag_fits (SecurableTagged_Secured tag _) = (tag < 4)"
| "tag_fits (SecurableTagged_Unsecured _) = True"

lemma tag_fits_iff: "tag_fits t \<longleftrightarrow> take_bit 2 (snd (frame_tag t)) = snd (frame_tag t)"
proof -
  have "take_bit 2 tag = tag \<longleftrightarrow> tag < 4" for tag :: u16
    by (simp add: word_unat_eq_iff unsigned_take_bit_eq take_bit_nat_eq_self_iff word_less_nat_alt)
  then show ?thesis by (cases t rule: frame_tag.cases) simp_all
qed

lemma nom_count_length: "nom_count p n input = Ok (rest, xs) \<Longrightarrow> length xs = n"
  by (induction n arbitrary: input xs) (auto simp: and_then_eq_Ok_iff)

lemma nom_cond_Ok: "nom_cond b p input = Ok (rest, x) \<Longrightarrow> x = Some y \<Longrightarrow> \<exists>r. p input = Ok (r, y)"
  by (auto simp: nom_cond_def nom_map_def and_then_eq_Ok_iff split: if_splits)

lemma route_parsed: "SourceRoute_deserialize ps input = Ok (rest, r) \<Longrightarrow> length (relay_list r) \<le> 255"
proof -
  assume "SourceRoute_deserialize ps input = Ok (rest, r)"
  then obtain len :: u8 where "length (relay_list r) = unat len"
    by (auto simp: SourceRoute_deserialize_def and_then_eq_Ok_iff dest: nom_count_length)
  then show ?thesis using unsigned_less [of len, where 'a = nat] by simp
qed

lemma nwk_type_parsed:
  assumes "SecurableTagged_deserialize ps bf8 (NwkFrameType_deserialize ps) tag input = Ok (rest, t)"
  shows "type_writable t" "rest = []" "take_bit 2 (snd tag) = snd tag \<Longrightarrow> tag_fits t"
  using assms
  by (auto simp: SecurableTagged_deserialize_def SecuredData_deserialize_def NwkFrameType_deserialize_def nom_map_def
    nom_rest_def and_then_eq_Ok_iff tag_fits_iff split: if_splits)

context nwk_serde
begin

lemma NwkFrame_parsed:
  assumes "NwkFrame_deserialize ps bf8 bf input = Ok (rest, f)"
  shows "nwk_writable f \<and> tag_fits (nf_frame_type f) \<and> rest = []"
proof -
  from assms obtain fsf a b c d where
    version: "nf_protocol_version f = ucast (bit_range bf fsf 5 2)"
    and route: "nom_cond (bit_range bf fsf 10 10 \<noteq> 0) (SourceRoute_deserialize ps) a = Ok (b, nf_source_route f)"
    and kind: "SecurableTagged_deserialize ps bf8 (NwkFrameType_deserialize ps)
        (bit_range bf fsf 9 9 \<noteq> 0, bit_range bf fsf 1 0) b = Ok (rest, nf_frame_type f)"
    unfolding NwkFrame_deserialize_def Let_def
    by (auto simp: and_then_eq_Ok_iff split: option.splits if_splits)
  have "take_bit 4 (bit_range bf fsf 5 2) = bit_range bf fsf 5 2" using nwk.get_bound [of 2 5 fsf] by simp
  then have "unat (bit_range bf fsf 5 2) < 16"
    using take_bit_nat_eq_self_iff [of 4 "unat (bit_range bf fsf 5 2)"]
    by (simp add: word_unat_eq_iff unsigned_take_bit_eq)
  then have "nf_protocol_version f \<le> 15"
    unfolding version word_le_nat_alt unsigned_ucast_eq by (simp add: take_bit_nat_eq_self)
  moreover have "length (relay_list r) \<le> 255" if "nf_source_route f = Some r" for r
    using nom_cond_Ok [OF route that] route_parsed by blast
  moreover have "take_bit 2 (bit_range bf fsf 1 0) = bit_range bf fsf 1 0" using nwk.get_bound [of 0 1 fsf] by (simp add: numeral_2_eq_2)
  ultimately show ?thesis
    using nwk_type_parsed [OF kind] by (simp add: nwk_writable_def)
qed

end

section \<open>Theorems\<close>

text \<open>A network frame that can be written is written, and the bytes appended to the target
  parse to the frame, with nothing left over: header flags, addresses, source route and the secured or
  plain payload.\<close>

theorem NwkFrame_roundtrip:
  assumes "parse_serialize_module ps" "bitfield_crate bf8" "bitfield_crate bf"
    and "nwk_writable f" "tag_fits (nf_frame_type f)"
  shows "\<exists>bs. (\<forall>target. NwkFrame_serialize_to ps bf8 bf f target = (Ok (), target @ bs)) \<and>
    NwkFrame_deserialize ps bf8 bf bs = Ok ([], f)"
proof -
  have serde: "nwk_serde ps bf8 bf" using assms(1-3) by (simp add: nwk_serde_def security_serde_def)
  show ?thesis
    using nwk_serde.NwkFrame_written [OF serde assms(4)] nwk_serde.NwkFrame_read [OF serde assms(4)] assms(5)
    unfolding appends_def tag_fits_iff by blast
qed

definition routed_frame :: nwk_frame where
  "routed_frame =
     \<lparr>nf_frame_type = SecurableTagged_Secured 0
        \<lparr>sd_key_identifier = KeyIdentifier_Network 0, sd_frame_counter = 10, sd_extended_source = None, sd_payload = [1, 2, 3]\<rparr>,
      nf_protocol_version = 2, nf_destination = ShortAddress 0x1234, nf_source = ShortAddress 0, nf_radius = 30,
      nf_sequence_number = 7, nf_discover_route = EnableRouteDiscovery, nf_destination_ext = None,
      nf_source_ext = Some (ExtendedAddress 5),
      nf_source_route = Some \<lparr>relay_index = 1, relay_list = [ShortAddress 9, ShortAddress 8]\<rparr>\<rparr>"

text \<open>Serialising a network frame succeeds exactly on the frames with a protocol version of four
  bits, a source route of at most 255 relays and a payload that is plain data or secured: commands and
  inter-PAN frames are refused, although they have a tag.\<close>

theorem NwkFrame_serialize_succeeds_iff:
  assumes "parse_serialize_module ps" "bitfield_crate bf8" "bitfield_crate bf"
  shows "fst (NwkFrame_serialize_to ps bf8 bf f target) = Ok () \<longleftrightarrow> nwk_writable f"
proof -
  have serde: "nwk_serde ps bf8 bf" using assms by (simp add: nwk_serde_def security_serde_def)
  show ?thesis
    using nwk_serde.NwkFrame_written [OF serde, of f] nwk_serde.NwkFrame_refused [OF serde, of f target]
    by (auto simp: appends_def)
qed

text \<open>C28. Every network frame the parser accepts is well formed: its protocol version has four bits,
  its source route at most 255 relays, its payload is plain data or secured with a tag of two bits; it has
  consumed its whole input, and the frame can be written again, to bytes that parse to it.\<close>

theorem NwkFrame_parsed_well_formed:
  assumes "parse_serialize_module ps" "bitfield_crate bf8" "bitfield_crate bf"
    and parsed: "NwkFrame_deserialize ps bf8 bf input = Ok (rest, f)"
  shows "nwk_writable f \<and> tag_fits (nf_frame_type f) \<and> rest = [] \<and>
    (\<exists>bs. NwkFrame_serialize_to ps bf8 bf f [] = (Ok (), bs) \<and> NwkFrame_deserialize ps bf8 bf bs = Ok ([], f))"
proof -
  have serde: "nwk_serde ps bf8 bf" using assms(1-3) by (simp add: nwk_serde_def security_serde_def)
  show ?thesis
    using nwk_serde.NwkFrame_parsed [OF serde parsed] nwk_serde.NwkFrame_written [OF serde, of f]
      nwk_serde.NwkFrame_read [OF serde, of f]
    by (auto simp: appends_def tag_fits_iff)
qed

theorem NwkFrame_parsed_well_formed_witness:
  "\<exists>f. NwkFrame_deserialize parse_serialize_impl bitfield_impl bitfield_impl [0x48, 0x00, 0x34, 0x12, 0, 0, 30, 7, 1, 2, 3] = Ok ([], f)
     \<and> nwk_writable f"
proof -
  let ?f = "\<lparr>nf_frame_type = SecurableTagged_Unsecured (NwkFrameType_Data [1, 2, 3]), nf_protocol_version = 2,
    nf_destination = ShortAddress 0x1234, nf_source = ShortAddress 0, nf_radius = 30,
    nf_sequence_number = 7, nf_discover_route = EnableRouteDiscovery, nf_destination_ext = None,
    nf_source_ext = None, nf_source_route = None\<rparr>"
  have "NwkFrame_deserialize parse_serialize_impl bitfield_impl bitfield_impl [0x48, 0x00, 0x34, 0x12, 0, 0, 30, 7, 1, 2, 3] = Ok ([], ?f)"
    by code_simp
  then show ?thesis
    using NwkFrame_parsed_well_formed [OF parse_serialize_impl.parse_serialize_module_axioms
      bitfield_impl.bitfield_crate_axioms bitfield_impl.bitfield_crate_axioms] by blast
qed

end
