(* ===== verification/Zigbee_Aps.thy ===== *)
theory Zigbee_Aps
  imports Zigbee_Security
begin

unbundle bit_operations_syntax

text \<open>
  The frames and commands of the application support layer of the earlier stack
  (\<^verbatim>\<open>old_src/zigbee/aps\<close>, with the identifiers of \<^verbatim>\<open>old_src/zigbee/mod.rs\<close>).  What the derive
  macros of \<^verbatim>\<open>parse_serialize\<close> generate for the identifiers and the key descriptors is an argument.
\<close>

section \<open>Identifiers and key descriptors\<close>

datatype cluster_id = ClusterId (cluster_number: u16)
datatype profile_id = ProfileId (profile_number: u16)
datatype endpoint_id = EndpointId (endpoint_number: u8)
datatype group_id = GroupId (group_number: u16)

record trust_center_key_descriptor =
  tk_key :: bytes
  tk_destination :: extended_address
  tk_source :: extended_address

record network_key_descriptor =
  nk_key :: bytes
  nk_sequence_number :: u8
  nk_destination :: extended_address
  nk_source :: extended_address

record application_key_descriptor =
  ak_key :: bytes
  ak_partner :: extended_address
  ak_initiator :: bool

datatype key_descriptor =
    TrustCenterMasterKey trust_center_key_descriptor
  | StandardNetworkKey network_key_descriptor
  | ApplicationMasterKey application_key_descriptor
  | ApplicationLinkKey application_key_descriptor
  | UniqueTrustCenterLinkKey trust_center_key_descriptor
  | HighSecurityNetworkKey network_key_descriptor
  | UnknownKey network_key_descriptor

datatype aps_command = TransportKey key_descriptor

datatype extended_header = ExtendedHeader

record ('se, 'de) aps_derived =
  ser_cluster_id :: "cluster_id \<Rightarrow> 'se ser"
  ser_profile_id :: "profile_id \<Rightarrow> 'se ser"
  ser_endpoint_id :: "endpoint_id \<Rightarrow> 'se ser"
  ser_group_id :: "group_id \<Rightarrow> 'se ser"
  ser_extended_header :: "extended_header \<Rightarrow> 'se ser"
  sd_trust_center_key :: "(trust_center_key_descriptor, 'se, 'de) serde"
  sd_network_key :: "(network_key_descriptor, 'se, 'de) serde"
  sd_application_key :: "(application_key_descriptor, 'se, 'de) serde"

section \<open>Commands\<close>

definition KeyDescriptor_serialize_to :: "('se, 'de) parse_serialize \<Rightarrow> ('se, 'de) aps_derived \<Rightarrow> key_descriptor \<Rightarrow> 'se ser" where
  "KeyDescriptor_serialize_to ps ap self =
     (case self of
        TrustCenterMasterKey x \<Rightarrow> ser_tuple ps [serialize_to (sd_u8 ps) 0, serialize_to (sd_trust_center_key ap) x]
      | StandardNetworkKey x \<Rightarrow> ser_tuple ps [serialize_to (sd_u8 ps) 1, serialize_to (sd_network_key ap) x]
      | ApplicationMasterKey x \<Rightarrow> ser_tuple ps [serialize_to (sd_u8 ps) 2, serialize_to (sd_application_key ap) x]
      | ApplicationLinkKey x \<Rightarrow> ser_tuple ps [serialize_to (sd_u8 ps) 3, serialize_to (sd_application_key ap) x]
      | UniqueTrustCenterLinkKey x \<Rightarrow> ser_tuple ps [serialize_to (sd_u8 ps) 4, serialize_to (sd_trust_center_key ap) x]
      | HighSecurityNetworkKey x \<Rightarrow> ser_tuple ps [serialize_to (sd_u8 ps) 5, serialize_to (sd_network_key ap) x]
      | UnknownKey x \<Rightarrow> ser_tuple ps [serialize_to (sd_u8 ps) 6, serialize_to (sd_network_key ap) x])"

definition KeyDescriptor_deserialize :: "('se, 'de) parse_serialize \<Rightarrow> ('se, 'de) aps_derived \<Rightarrow> (key_descriptor, 'de) parser" where
  "KeyDescriptor_deserialize ps ap input =
     and_then (deserialize (sd_u8 ps) input) (\<lambda>(input, key_type).
       if key_type = 0 then nom_map (deserialize (sd_trust_center_key ap)) TrustCenterMasterKey input
       else if key_type = 1 then nom_map (deserialize (sd_network_key ap)) StandardNetworkKey input
       else if key_type = 2 then nom_map (deserialize (sd_application_key ap)) ApplicationMasterKey input
       else if key_type = 3 then nom_map (deserialize (sd_application_key ap)) ApplicationLinkKey input
       else if key_type = 4 then nom_map (deserialize (sd_trust_center_key ap)) UniqueTrustCenterLinkKey input
       else if key_type = 5 then nom_map (deserialize (sd_network_key ap)) HighSecurityNetworkKey input
       else if key_type = 6 then nom_map (deserialize (sd_network_key ap)) UnknownKey input
       else Err (de_unexpected_data ps input))"

definition ApsCommand_serialize_to :: "('se, 'de) parse_serialize \<Rightarrow> ('se, 'de) aps_derived \<Rightarrow> aps_command \<Rightarrow> 'se ser" where
  "ApsCommand_serialize_to ps ap self =
     (case self of
        TransportKey key_descriptor \<Rightarrow>
          ser_tuple ps [serialize_to (sd_u8 ps) 5, KeyDescriptor_serialize_to ps ap key_descriptor])"

definition ApsCommand_deserialize :: "('se, 'de) parse_serialize \<Rightarrow> ('se, 'de) aps_derived \<Rightarrow> (aps_command, 'de) parser" where
  "ApsCommand_deserialize ps ap input =
     and_then (deserialize (sd_u8 ps) input) (\<lambda>(input, cmd_id).
       if cmd_id = 5 then nom_map (KeyDescriptor_deserialize ps ap) TransportKey input
       else Err (de_unexpected_data ps input))"

section \<open>Frames\<close>

datatype aps_payload = ApsPayload (payload_bytes: bytes)

definition ApsPayload_serialize_to :: "aps_payload \<Rightarrow> 'se ser" where
  "ApsPayload_serialize_to self = ser_extend (payload_bytes self)"

definition ApsPayload_deserialize :: "(aps_payload, 'de) parser" where
  "ApsPayload_deserialize input = nom_map nom_rest ApsPayload input"

datatype endpoint_or_group = EndpointOrGroup_Endpoint endpoint_id | EndpointOrGroup_Group group_id

definition EndpointOrGroup_serialize_to :: "('se, 'de) aps_derived \<Rightarrow> endpoint_or_group \<Rightarrow> 'se ser" where
  "EndpointOrGroup_serialize_to ap self =
     (case self of EndpointOrGroup_Endpoint e \<Rightarrow> ser_endpoint_id ap e | EndpointOrGroup_Group g \<Rightarrow> ser_group_id ap g)"

definition EndpointOrGroup_serialize_tag :: "endpoint_or_group \<Rightarrow> (bool, 'se) result" where
  "EndpointOrGroup_serialize_tag self =
     Ok (case self of EndpointOrGroup_Endpoint _ \<Rightarrow> False | EndpointOrGroup_Group _ \<Rightarrow> True)"

datatype delivery_mode = DeliveryMode_Unicast | DeliveryMode_Reserved | DeliveryMode_Broadcast | DeliveryMode_Group

fun DeliveryMode_as_u8 :: "delivery_mode \<Rightarrow> u8" where
  "DeliveryMode_as_u8 DeliveryMode_Unicast = 0"
| "DeliveryMode_as_u8 DeliveryMode_Reserved = 1"
| "DeliveryMode_as_u8 DeliveryMode_Broadcast = 2"
| "DeliveryMode_as_u8 DeliveryMode_Group = 3"

datatype data_destination =
    DataDestination_Unicast endpoint_id
  | DataDestination_Broadcast endpoint_id
  | DataDestination_Group group_id

record aps_data =
  ad_ack_request :: bool
  ad_destination :: data_destination
  ad_cluster :: "cluster_id \<times> profile_id"
  ad_source :: endpoint_id
  ad_aps_counter :: u8
  ad_extended_header :: "extended_header option"
  ad_payload :: "aps_payload securable"

record aps_command_frame =
  ac_delivery_mode :: delivery_mode
  ac_ack_request :: bool
  ac_aps_counter :: u8
  ac_payload :: "aps_command securable"

record aps_data_ack =
  aa_destination :: endpoint_id
  aa_cluster :: "cluster_id \<times> profile_id"
  aa_source :: endpoint_id
  aa_aps_counter :: u8
  aa_extended_header :: "extended_header option"

datatype aps_frame =
    ApsFrame_Data aps_data
  | ApsFrame_Command aps_command_frame
  | ApsFrame_DataAck aps_data_ack
  | ApsFrame_CommandAck u8

definition ApsFrame_serialize_to :: "('se, 'de) parse_serialize \<Rightarrow> ('se, 'de) aps_derived \<Rightarrow> u8 bitfield_ops \<Rightarrow>
    aps_frame \<Rightarrow> 'se ser" where
  "ApsFrame_serialize_to ps ap bf self =
     (let frame_control = 0
      in case self of
        ApsFrame_Data f \<Rightarrow>
          (let fc = set_bit_range bf frame_control 1 0 0;
               fc = (case ad_destination f of
                   DataDestination_Unicast _ \<Rightarrow> set_bit_range bf fc 3 2 0
                 | DataDestination_Broadcast _ \<Rightarrow> set_bit_range bf fc 3 2 2
                 | DataDestination_Group _ \<Rightarrow> set_bit_range bf fc 3 2 3);
               fc = set_bit_range bf fc 4 4 0
           in ser_result (Securable_serialize_tag (ad_payload f)) (\<lambda>tag.
             let fc = set_bit_range bf fc 5 5 (bool_to_word tag);
                 fc = set_bit_range bf fc 6 6 (bool_to_word (ad_ack_request f));
                 fc = set_bit_range bf fc 7 7 (bool_to_word (ad_extended_header f \<noteq> None))
             in ser_then (serialize_to (sd_bitfield_u8 ps) fc)
                (ser_then
                  (case ad_destination f of
                     DataDestination_Unicast e \<Rightarrow> ser_endpoint_id ap e
                   | DataDestination_Broadcast e \<Rightarrow> ser_endpoint_id ap e
                   | DataDestination_Group g \<Rightarrow> ser_group_id ap g)
                (ser_then (ser_tuple ps [ser_cluster_id ap (fst (ad_cluster f)), ser_profile_id ap (snd (ad_cluster f))])
                (ser_then (ser_endpoint_id ap (ad_source f))
                (ser_then (serialize_to (sd_u8 ps) (ad_aps_counter f))
                (ser_then (ser_optional (ser_extended_header ap) (ad_extended_header f))
                  (Securable_serialize_to ps bf ApsPayload_serialize_to (ad_payload f)))))))))
      | ApsFrame_Command f \<Rightarrow>
          (let fc = set_bit_range bf frame_control 1 0 1;
               fc = set_bit_range bf fc 3 2 (DeliveryMode_as_u8 (ac_delivery_mode f));
               fc = set_bit_range bf fc 4 4 0
           in ser_result (Securable_serialize_tag (ac_payload f)) (\<lambda>tag.
             let fc = set_bit_range bf fc 5 5 (bool_to_word tag);
                 fc = set_bit_range bf fc 6 6 (bool_to_word (ac_ack_request f));
                 fc = set_bit_range bf fc 7 7 (bool_to_word False)
             in ser_then (serialize_to (sd_bitfield_u8 ps) fc)
                (ser_then (serialize_to (sd_u8 ps) (ac_aps_counter f))
                  (Securable_serialize_to ps bf (ApsCommand_serialize_to ps ap) (ac_payload f)))))
      | _ \<Rightarrow> ser_ok)"


section \<open>What the derive macros promise\<close>

text \<open>
  A structure with one field is serialised as the field, the empty structure as nothing; a key
  descriptor with a key of 16 bytes, the length its type fixes, is appended and read back.
\<close>

definition lawful_at :: "('a, 'se, 'de) serde \<Rightarrow> 'a \<Rightarrow> bool" where
  "lawful_at c x \<longleftrightarrow> appends (serialize_to c x) (encoding c x) \<and>
     (\<forall>rest. deserialize c (encoding c x @ rest) = Ok (rest, x))"

locale aps_serde = security_serde ps bf
  for ps :: "('se, 'de) parse_serialize" and bf :: "u8 bitfield_ops" +
  fixes ap :: "('se, 'de) aps_derived"
  assumes cluster: "ser_cluster_id ap c = serialize_to (sd_u16 ps) (cluster_number c)"
    and profile: "ser_profile_id ap p = serialize_to (sd_u16 ps) (profile_number p)"
    and endpoint: "ser_endpoint_id ap e = serialize_to (sd_u8 ps) (endpoint_number e)"
    and group: "ser_group_id ap g = serialize_to (sd_u16 ps) (group_number g)"
    and header: "ser_extended_header ap h = ser_ok"
    and trust_center_key: "length (tk_key t) = 16 \<Longrightarrow> lawful_at (sd_trust_center_key ap) t"
    and network_key: "length (nk_key n) = 16 \<Longrightarrow> lawful_at (sd_network_key ap) n"
    and application_key: "length (ak_key a) = 16 \<Longrightarrow> lawful_at (sd_application_key ap) a"

definition key_serde :: "(bytes, string, string) serde" where
  "key_serde =
     \<lparr>serialize_to = ser_extend,
      deserialize = (\<lambda>input. if length input < 16 then Err ''incomplete'' else Ok (drop 16 input, take 16 input))\<rparr>"

definition bool_serde :: "(bool, string, string) serde" where
  "bool_serde =
     \<lparr>serialize_to = (\<lambda>b. ser_extend [bool_to_word b]),
      deserialize = (\<lambda>input. case input of [] \<Rightarrow> Err ''incomplete'' | b # input \<Rightarrow> Ok (input, b \<noteq> 0))\<rparr>"

abbreviation extended_serde :: "(extended_address, string, string) serde" where
  "extended_serde \<equiv> sd_extended_address parse_serialize_impl"

definition aps_derived_impl :: "(string, string) aps_derived" where
  "aps_derived_impl =
     \<lparr>ser_cluster_id = (\<lambda>c. serialize_to (sd_u16 parse_serialize_impl) (cluster_number c)),
      ser_profile_id = (\<lambda>p. serialize_to (sd_u16 parse_serialize_impl) (profile_number p)),
      ser_endpoint_id = (\<lambda>e. serialize_to (sd_u8 parse_serialize_impl) (endpoint_number e)),
      ser_group_id = (\<lambda>g. serialize_to (sd_u16 parse_serialize_impl) (group_number g)),
      ser_extended_header = (\<lambda>_. ser_ok),
      sd_trust_center_key = map_serde (\<lambda>k. (tk_key k, tk_destination k, tk_source k))
        (\<lambda>(k, d, s). \<lparr>tk_key = k, tk_destination = d, tk_source = s\<rparr>)
        (pair_serde key_serde (pair_serde extended_serde extended_serde)),
      sd_network_key = map_serde (\<lambda>k. (nk_key k, nk_sequence_number k, nk_destination k, nk_source k))
        (\<lambda>(k, n, d, s). \<lparr>nk_key = k, nk_sequence_number = n, nk_destination = d, nk_source = s\<rparr>)
        (pair_serde key_serde (pair_serde le (pair_serde extended_serde extended_serde))),
      sd_application_key = map_serde (\<lambda>k. (ak_key k, ak_partner k, ak_initiator k))
        (\<lambda>(k, p, i). \<lparr>ak_key = k, ak_partner = p, ak_initiator = i\<rparr>)
        (pair_serde key_serde (pair_serde extended_serde bool_serde))\<rparr>"

lemma lawful_bool_serde: "lawful bool_serde"
proof (rule lawfulI(1) [where enc = "\<lambda>b. [bool_to_word b]"])
  show "deserialize bool_serde ([bool_to_word b] @ rest) = Ok (rest, b)" for b rest
    by (cases b) (simp_all add: bool_serde_def)
qed (simp add: bool_serde_def appends_extend)

lemma lawful_at_map_serde:
  assumes "lawful_at c (rep x)" "unrep (rep x) = x"
  shows "lawful_at (map_serde rep unrep c) x"
  using assms by (simp add: lawful_at_def map_serde_def nom_map_def encoding_def)

lemma lawful_at_key_pair:
  assumes "length k = 16" "lawful c"
  shows "lawful_at (pair_serde key_serde c) (k, x)"
proof -
  have "appends (serialize_to (pair_serde key_serde c) (k, x)) (k @ encoding c x)"
    using assms(2) by (auto simp: pair_serde_def key_serde_def intro!: appends_intros)
  moreover from this have "encoding (pair_serde key_serde c) (k, x) = k @ encoding c x"
    by (simp add: encoding_def appends_def)
  moreover have "deserialize (pair_serde key_serde c) (k @ encoding c x @ rest) = Ok (rest, (k, x))" for rest
    using assms by (simp add: pair_serde_def key_serde_def nom_map_def lawful_deserialize)
  ultimately show ?thesis by (simp add: lawful_at_def)
qed

interpretation aps_impl: aps_serde parse_serialize_impl bitfield_impl aps_derived_impl
proof
  have le: "lawful (le :: (u8, string, string) serde)" by simp
  note parts = lawful_pair_serde(1) lawful_bool_serde parse_serialize_impl.extended_address le
  show "lawful_at (sd_trust_center_key aps_derived_impl) t" if "length (tk_key t) = 16" for t
    unfolding aps_derived_impl_def by (auto intro!: lawful_at_map_serde lawful_at_key_pair parts that)
  show "lawful_at (sd_network_key aps_derived_impl) n" if "length (nk_key n) = 16" for n
    unfolding aps_derived_impl_def by (auto intro!: lawful_at_map_serde lawful_at_key_pair parts that)
  show "lawful_at (sd_application_key aps_derived_impl) a" if "length (ak_key a) = 16" for a
    unfolding aps_derived_impl_def by (auto intro!: lawful_at_map_serde lawful_at_key_pair parts that)
qed (simp_all add: aps_derived_impl_def)

section \<open>Commands read back\<close>

fun key_well_formed :: "key_descriptor \<Rightarrow> bool" where
  "key_well_formed (TrustCenterMasterKey x) = (length (tk_key x) = 16)"
| "key_well_formed (StandardNetworkKey x) = (length (nk_key x) = 16)"
| "key_well_formed (ApplicationMasterKey x) = (length (ak_key x) = 16)"
| "key_well_formed (ApplicationLinkKey x) = (length (ak_key x) = 16)"
| "key_well_formed (UniqueTrustCenterLinkKey x) = (length (tk_key x) = 16)"
| "key_well_formed (HighSecurityNetworkKey x) = (length (nk_key x) = 16)"
| "key_well_formed (UnknownKey x) = (length (nk_key x) = 16)"

fun descriptor_bytes :: "('se, 'de) parse_serialize \<Rightarrow> ('se, 'de) aps_derived \<Rightarrow> key_descriptor \<Rightarrow> bytes" where
  "descriptor_bytes ps ap (TrustCenterMasterKey x) = encoding (sd_u8 ps) 0 @ encoding (sd_trust_center_key ap) x"
| "descriptor_bytes ps ap (StandardNetworkKey x) = encoding (sd_u8 ps) 1 @ encoding (sd_network_key ap) x"
| "descriptor_bytes ps ap (ApplicationMasterKey x) = encoding (sd_u8 ps) 2 @ encoding (sd_application_key ap) x"
| "descriptor_bytes ps ap (ApplicationLinkKey x) = encoding (sd_u8 ps) 3 @ encoding (sd_application_key ap) x"
| "descriptor_bytes ps ap (UniqueTrustCenterLinkKey x) = encoding (sd_u8 ps) 4 @ encoding (sd_trust_center_key ap) x"
| "descriptor_bytes ps ap (HighSecurityNetworkKey x) = encoding (sd_u8 ps) 5 @ encoding (sd_network_key ap) x"
| "descriptor_bytes ps ap (UnknownKey x) = encoding (sd_u8 ps) 6 @ encoding (sd_network_key ap) x"

fun command_well_formed :: "aps_command \<Rightarrow> bool" where
  "command_well_formed (TransportKey k) = key_well_formed k"

fun command_bytes :: "('se, 'de) parse_serialize \<Rightarrow> ('se, 'de) aps_derived \<Rightarrow> aps_command \<Rightarrow> bytes" where
  "command_bytes ps ap (TransportKey k) = encoding (sd_u8 ps) 5 @ descriptor_bytes ps ap k"

context aps_serde
begin

lemma appends_tuple_pair:
  "appends a bs \<Longrightarrow> appends b cs \<Longrightarrow> appends (ser_tuple ps [a, b]) (bs @ cs)"
  using appends_tuple [of "[a, b]" "[bs, cs]"] by simp

lemmas key_lawful = trust_center_key network_key application_key

lemma KeyDescriptor_written:
  "key_well_formed k \<Longrightarrow> appends (KeyDescriptor_serialize_to ps ap k) (descriptor_bytes ps ap k)"
  using key_lawful
  by (cases k) (auto simp: KeyDescriptor_serialize_to_def lawful_at_def intro!: appends_tuple_pair serde_write)

lemma KeyDescriptor_read:
  "key_well_formed k \<Longrightarrow> KeyDescriptor_deserialize ps ap (descriptor_bytes ps ap k @ rest) = Ok (rest, k)"
  using key_lawful
  by (cases k) (simp_all add: KeyDescriptor_deserialize_def lawful_at_def nom_map_def)

lemma Command_written:
  "command_well_formed c \<Longrightarrow> appends (ApsCommand_serialize_to ps ap c) (command_bytes ps ap c)"
  by (cases c) (auto simp: ApsCommand_serialize_to_def intro!: appends_tuple_pair serde_write KeyDescriptor_written)

lemma Command_read:
  "command_well_formed c \<Longrightarrow> ApsCommand_deserialize ps ap (command_bytes ps ap c @ rest) = Ok (rest, c)"
  by (cases c) (simp add: ApsCommand_deserialize_def nom_map_def KeyDescriptor_read)

end

section \<open>The layout of a frame\<close>

definition aps_control :: "u8 bitfield_ops \<Rightarrow> u8 \<Rightarrow> u8 \<Rightarrow> bool \<Rightarrow> bool \<Rightarrow> bool \<Rightarrow> u8" where
  "aps_control bf kind mode secured ack_request extended =
     (let fc = set_bit_range bf 0 1 0 kind;
          fc = set_bit_range bf fc 3 2 mode;
          fc = set_bit_range bf fc 4 4 0;
          fc = set_bit_range bf fc 5 5 (bool_to_word secured);
          fc = set_bit_range bf fc 6 6 (bool_to_word ack_request)
      in set_bit_range bf fc 7 7 (bool_to_word extended))"

fun destination_mode :: "data_destination \<Rightarrow> u8" where
  "destination_mode (DataDestination_Unicast _) = 0"
| "destination_mode (DataDestination_Broadcast _) = 2"
| "destination_mode (DataDestination_Group _) = 3"

fun destination_bytes :: "('se, 'de) parse_serialize \<Rightarrow> data_destination \<Rightarrow> bytes" where
  "destination_bytes ps (DataDestination_Unicast e) = encoding (sd_u8 ps) (endpoint_number e)"
| "destination_bytes ps (DataDestination_Broadcast e) = encoding (sd_u8 ps) (endpoint_number e)"
| "destination_bytes ps (DataDestination_Group g) = encoding (sd_u16 ps) (group_number g)"

fun securable_bytes :: "('se, 'de) parse_serialize \<Rightarrow> u8 bitfield_ops \<Rightarrow> ('a \<Rightarrow> bytes) \<Rightarrow> 'a securable \<Rightarrow> bytes" where
  "securable_bytes ps bf enc (Securable_Secured d) = secured_bytes ps bf d"
| "securable_bytes ps bf enc (Securable_Unsecured x) = enc x"

fun aps_bytes :: "('se, 'de) parse_serialize \<Rightarrow> ('se, 'de) aps_derived \<Rightarrow> u8 bitfield_ops \<Rightarrow> aps_frame \<Rightarrow> bytes" where
  "aps_bytes ps ap bf (ApsFrame_Data f) =
     encoding (sd_bitfield_u8 ps) (aps_control bf 0 (destination_mode (ad_destination f))
       (Securable_is_secured (ad_payload f)) (ad_ack_request f) (ad_extended_header f \<noteq> None)) @
     destination_bytes ps (ad_destination f) @
     (encoding (sd_u16 ps) (cluster_number (fst (ad_cluster f))) @ encoding (sd_u16 ps) (profile_number (snd (ad_cluster f)))) @
     encoding (sd_u8 ps) (endpoint_number (ad_source f)) @ encoding (sd_u8 ps) (ad_aps_counter f) @
     securable_bytes ps bf payload_bytes (ad_payload f)"
| "aps_bytes ps ap bf (ApsFrame_Command f) =
     encoding (sd_bitfield_u8 ps) (aps_control bf 1 (DeliveryMode_as_u8 (ac_delivery_mode f))
       (Securable_is_secured (ac_payload f)) (ac_ack_request f) False) @
     encoding (sd_u8 ps) (ac_aps_counter f) @ securable_bytes ps bf (command_bytes ps ap) (ac_payload f)"
| "aps_bytes ps ap bf _ = []"

fun acknowledgement :: "aps_frame \<Rightarrow> bool" where
  "acknowledgement (ApsFrame_DataAck _) = True"
| "acknowledgement (ApsFrame_CommandAck _) = True"
| "acknowledgement _ = False"

fun aps_well_formed :: "aps_frame \<Rightarrow> bool" where
  "aps_well_formed (ApsFrame_Command f) = (\<forall>c. ac_payload f = Securable_Unsecured c \<longrightarrow> command_well_formed c)"
| "aps_well_formed _ = True"

context aps_serde
begin

lemma aps_control_fields [simp]:
  "bit_range bf (aps_control bf kind mode s a e) (Suc 0) 0 = take_bit 2 kind"
  "bit_range bf (aps_control bf kind mode s a e) 3 2 = take_bit 2 mode"
  "bit_range bf (aps_control bf kind mode s a e) 5 5 = bool_to_word s"
  "bit_range bf (aps_control bf kind mode s a e) 6 6 = bool_to_word a"
  "bit_range bf (aps_control bf kind mode s a e) 7 7 = bool_to_word e"
  unfolding aps_control_def Let_def
  by (cases s; cases a; cases e; simp add: get_set numeral_2_eq_2)+

lemma aps_control_inject:
  assumes "aps_control bf k m s a e = aps_control bf k' m' s' a' e'" "k < 4" "k' < 4" "m < 4" "m' < 4"
  shows "k = k' \<and> m = m' \<and> s = s' \<and> a = a' \<and> e = e'"
proof -
  have fits: "take_bit 2 x = x" if "x < 4" for x :: u8
    using that by (simp add: word_unat_eq_iff unsigned_take_bit_eq take_bit_nat_eq_self_iff word_less_nat_alt)
  have flag: "b = b'" if "(bool_to_word b :: u8) = bool_to_word b'" for b b'
    using that by (cases b; cases b') simp_all
  show ?thesis
    using aps_control_fields [of k m s a e, unfolded assms(1) aps_control_fields] assms(2-) by (auto simp: fits dest: flag)
qed

lemma appends_securable:
  assumes "\<And>x. p = Securable_Unsecured x \<Longrightarrow> appends (f x) (enc x)"
  shows "appends (Securable_serialize_to ps bf f p) (securable_bytes ps bf enc p)"
  using assms by (cases p) (simp_all add: appends_secured)

lemma appends_header: "appends (ser_optional (ser_extended_header ap) h) []"
  by (cases h) (simp_all add: ser_optional_def header appends_ok)

lemma ApsFrame_written:
  assumes "aps_well_formed f"
  shows "appends (ApsFrame_serialize_to ps ap bf f) (aps_bytes ps ap bf f)"
proof (cases f)
  case (ApsFrame_Data d)
  let ?destination = "case ad_destination d of DataDestination_Unicast e \<Rightarrow> ser_endpoint_id ap e
    | DataDestination_Broadcast e \<Rightarrow> ser_endpoint_id ap e | DataDestination_Group g \<Rightarrow> ser_group_id ap g"
  have ser: "ApsFrame_serialize_to ps ap bf f =
    ser_then (serialize_to (sd_bitfield_u8 ps) (aps_control bf 0 (destination_mode (ad_destination d))
       (Securable_is_secured (ad_payload d)) (ad_ack_request d) (ad_extended_header d \<noteq> None)))
    (ser_then ?destination
    (ser_then (ser_tuple ps [ser_cluster_id ap (fst (ad_cluster d)), ser_profile_id ap (snd (ad_cluster d))])
    (ser_then (ser_endpoint_id ap (ad_source d)) (ser_then (serialize_to (sd_u8 ps) (ad_aps_counter d))
    (ser_then (ser_optional (ser_extended_header ap) (ad_extended_header d))
      (Securable_serialize_to ps bf ApsPayload_serialize_to (ad_payload d)))))))"
    by (cases "ad_destination d")
      (simp_all add: ApsFrame_Data ApsFrame_serialize_to_def Securable_serialize_tag_def aps_control_def Let_def)
  have "appends ?destination (destination_bytes ps (ad_destination d))"
    by (cases "ad_destination d") (simp_all add: endpoint group serde_write)
  moreover have "appends (Securable_serialize_to ps bf ApsPayload_serialize_to (ad_payload d))
      (securable_bytes ps bf payload_bytes (ad_payload d))"
    by (rule appends_securable) (simp add: ApsPayload_serialize_to_def appends_extend)
  moreover note appends_then [OF appends_header, of _ _ "ad_extended_header d", unfolded append_Nil]
  ultimately show ?thesis
    unfolding ser unfolding ApsFrame_Data aps_bytes.simps cluster profile endpoint
    by (intro appends_then [OF serde_write(7)] appends_then appends_tuple_pair serde_write)
next
  case (ApsFrame_Command c)
  have "appends (Securable_serialize_to ps bf (ApsCommand_serialize_to ps ap) (ac_payload c))
      (securable_bytes ps bf (command_bytes ps ap) (ac_payload c))"
    using assms by (intro appends_securable Command_written) (simp add: ApsFrame_Command)
  then have "appends (ser_then (serialize_to (sd_bitfield_u8 ps) (aps_control bf 1 (DeliveryMode_as_u8 (ac_delivery_mode c))
       (Securable_is_secured (ac_payload c)) (ac_ack_request c) False))
     (ser_then (serialize_to (sd_u8 ps) (ac_aps_counter c))
       (Securable_serialize_to ps bf (ApsCommand_serialize_to ps ap) (ac_payload c)))) (aps_bytes ps ap bf f)"
    unfolding ApsFrame_Command aps_bytes.simps by (intro appends_then serde_write)
  then show ?thesis
    by (simp add: ApsFrame_Command ApsFrame_serialize_to_def Securable_serialize_tag_def aps_control_def Let_def)
qed (simp_all add: ApsFrame_serialize_to_def appends_ok)

lemma secured_bytes_inject: "secured_bytes ps bf d = secured_bytes ps bf d' \<Longrightarrow> d = d'"
proof -
  assume "secured_bytes ps bf d = secured_bytes ps bf d'"
  then have "(Ok ([], d) :: (bytes \<times> secured_data, 'de) result) = Ok ([], d')"
    using SecuredData_deserialize_bytes [of d] SecuredData_deserialize_bytes [of d'] by (simp only:)
  then show "d = d'" by simp
qed

lemma securable_bytes_inject:
  assumes "securable_bytes ps bf enc p = securable_bytes ps bf enc q" "Securable_is_secured p = Securable_is_secured q"
    and "\<And>x y. p = Securable_Unsecured x \<Longrightarrow> q = Securable_Unsecured y \<Longrightarrow> enc x = enc y \<Longrightarrow> x = y"
  shows "p = q"
proof (cases p)
  case (Securable_Secured d)
  then show ?thesis using assms(1,2) secured_bytes_inject by (cases q) auto
next
  case (Securable_Unsecured x)
  then obtain y where "q = Securable_Unsecured y" using assms(2) by (cases q) auto
  then show ?thesis using Securable_Unsecured assms(1) assms(3) [OF Securable_Unsecured] by simp
qed

lemma command_bytes_inject:
  "command_well_formed c \<Longrightarrow> command_well_formed c' \<Longrightarrow> command_bytes ps ap c = command_bytes ps ap c' \<Longrightarrow> c = c'"
  using Command_read [of c "[]"] Command_read [of c' "[]"] by simp

lemma mode_bounds: "destination_mode d < 4" "DeliveryMode_as_u8 m < 4"
  by (cases d; simp) (cases m; simp)

lemma DeliveryMode_inject: "DeliveryMode_as_u8 m = DeliveryMode_as_u8 n \<Longrightarrow> m = n"
  by (cases m; cases n) simp_all

lemma destination_bytes_inject:
  assumes "destination_bytes ps d @ r = destination_bytes ps d' @ s" "destination_mode d = destination_mode d'"
  shows "d = d' \<and> r = s"
  using assms
  by (cases d; cases d')
    (auto dest: encoding_inject [OF u8] encoding_inject [OF u16] endpoint_id.expand group_id.expand)

lemma data_bytes_inject:
  assumes "aps_bytes ps ap bf (ApsFrame_Data d) = aps_bytes ps ap bf (ApsFrame_Data d')"
  shows "d = (d' :: aps_data)"
proof -
  note bytes = assms [unfolded aps_bytes.simps append_assoc]
  note control = aps_control_inject [OF encoding_inject(1) [OF bitfield_u8 bytes], simplified mode_bounds, simplified]
  note rest = encoding_inject(2) [OF bitfield_u8 bytes]
  have destination: "ad_destination d = ad_destination d'"
    using destination_bytes_inject [OF rest] control by blast
  note rest = destination_bytes_inject [OF rest, THEN conjunct2]
  have "destination_mode (ad_destination d) = destination_mode (ad_destination d')" using control by blast
  note rest = rest [OF this]
  note cluster_eq = encoding_inject(1) [OF u16 rest] and rest = encoding_inject(2) [OF u16 rest]
  note profile_eq = encoding_inject(1) [OF u16 rest] and rest = encoding_inject(2) [OF u16 rest]
  note source_eq = encoding_inject(1) [OF u8 rest] and rest = encoding_inject(2) [OF u8 rest]
  note counter_eq = encoding_inject(1) [OF u8 rest] and rest = encoding_inject(2) [OF u8 rest]
  have "ad_payload d = ad_payload d'"
    using securable_bytes_inject [OF rest] control aps_payload.expand by blast
  moreover have "ad_extended_header d = ad_extended_header d'"
    using control extended_header.exhaust by (metis (full_types) not_None_eq option.exhaust)
  moreover have "ad_cluster d = ad_cluster d'"
    using cluster_eq profile_eq by (intro prod_eqI cluster_id.expand profile_id.expand)
  ultimately show ?thesis
    using control destination counter_eq endpoint_id.expand [OF source_eq] by simp
qed

lemma command_frame_inject:
  assumes "aps_bytes ps ap bf (ApsFrame_Command c) = aps_bytes ps ap bf (ApsFrame_Command c')"
    and "aps_well_formed (ApsFrame_Command c)" "aps_well_formed (ApsFrame_Command c')"
  shows "c = (c' :: aps_command_frame)"
proof -
  note bytes = assms(1) [unfolded aps_bytes.simps]
  note control = aps_control_inject [OF encoding_inject(1) [OF bitfield_u8 bytes], simplified mode_bounds, simplified]
  note rest = encoding_inject(2) [OF bitfield_u8 bytes]
  note counter_eq = encoding_inject(1) [OF u8 rest] and rest = encoding_inject(2) [OF u8 rest]
  have "ac_payload c = ac_payload c'"
    using securable_bytes_inject [OF rest] control command_bytes_inject assms(2,3) by auto
  then show ?thesis using control counter_eq DeliveryMode_inject by simp
qed

lemma aps_bytes_inject:
  assumes "aps_bytes ps ap bf f = aps_bytes ps ap bf g" "aps_well_formed f" "aps_well_formed g"
    and "\<not> acknowledgement f" "\<not> acknowledgement g"
  shows "f = g"
proof (cases f)
  case (ApsFrame_Data d)
  show ?thesis
  proof (cases g)
    case (ApsFrame_Data d')
    with assms(1) \<open>f = ApsFrame_Data d\<close> show ?thesis using data_bytes_inject by blast
  next
    case (ApsFrame_Command c)
    note bytes = assms(1) [unfolded \<open>f = ApsFrame_Data d\<close> ApsFrame_Command aps_bytes.simps]
    show ?thesis using aps_control_inject [OF encoding_inject(1) [OF bitfield_u8 bytes]] mode_bounds by simp
  qed (use assms in simp_all)
next
  case (ApsFrame_Command c)
  show ?thesis
  proof (cases g)
    case (ApsFrame_Data d)
    note bytes = assms(1) [unfolded \<open>f = ApsFrame_Command c\<close> ApsFrame_Data aps_bytes.simps]
    show ?thesis using aps_control_inject [OF encoding_inject(1) [OF bitfield_u8 bytes]] mode_bounds by simp
  next
    case (ApsFrame_Command c')
    with assms \<open>f = ApsFrame_Command c\<close> show ?thesis using command_frame_inject by blast
  qed (use assms in simp_all)
qed (use assms in simp_all)

end

section \<open>Theorems\<close>

text \<open>A command of the application support layer that carries a key of 16 bytes is written, and
  the bytes parse to it whatever follows them: all seven kinds of key descriptor keep their number.\<close>

theorem ApsCommand_roundtrip:
  assumes "aps_serde ps bf ap" "command_well_formed c"
  shows "\<exists>bs. (\<forall>target. ApsCommand_serialize_to ps ap c target = (Ok (), target @ bs)) \<and>
    (\<forall>rest. ApsCommand_deserialize ps ap (bs @ rest) = Ok (rest, c))"
  using aps_serde.Command_written [OF assms] aps_serde.Command_read [OF assms] by (auto simp: appends_def)

definition network_key_command :: aps_command where
  "network_key_command = TransportKey (StandardNetworkKey
     \<lparr>nk_key = [0x41, 0x71, 0x61, 0x72, 0x61, 0x48, 0x75, 0x62, 0, 0, 0, 0, 0, 0, 0, 0], nk_sequence_number = 0,
      nk_destination = ExtendedAddress 0xd0cf5efffe1c6306, nk_source = ExtendedAddress 0x00124b000e896815\<rparr>)"

text \<open>The bytes of an application support frame determine it: two data or command frames that are
  serialised onto the same target give the same bytes only if they are equal.  There is no parser for these frames, so
  this is what a receiver relies on.\<close>

theorem ApsFrame_serialize_injective:
  assumes "aps_serde ps bf ap" "aps_well_formed f" "aps_well_formed g"
    and "\<not> acknowledgement f" "\<not> acknowledgement g"
  shows "ApsFrame_serialize_to ps ap bf f target = ApsFrame_serialize_to ps ap bf g target \<longleftrightarrow> f = g"
proof -
  have "ApsFrame_serialize_to ps ap bf f target = ApsFrame_serialize_to ps ap bf g target \<longleftrightarrow>
      aps_bytes ps ap bf f = aps_bytes ps ap bf g"
    using aps_serde.ApsFrame_written [OF assms(1,2)] aps_serde.ApsFrame_written [OF assms(1,3)]
    by (simp add: appends_def)
  then show ?thesis using aps_serde.aps_bytes_inject [OF assms(1)] assms(2-5) by blast
qed

definition device_announce :: "data_destination \<Rightarrow> aps_frame" where
  "device_announce d = ApsFrame_Data
     \<lparr>ad_ack_request = False, ad_destination = d, ad_cluster = (ClusterId 0x13, ProfileId 0),
      ad_source = EndpointId 0, ad_aps_counter = 150, ad_extended_header = None,
      ad_payload = Securable_Unsecured (ApsPayload [0x81, 0x8b, 0x55])\<rparr>"

text \<open>Serialising an acknowledgement reports success and writes nothing, so all acknowledgements
  look the same; every data and command frame writes something.\<close>

theorem ApsFrame_acknowledgement_lost:
  assumes "aps_serde ps bf ap" "aps_well_formed f"
  shows "ApsFrame_serialize_to ps ap bf f target = (Ok (), target) \<longleftrightarrow> acknowledgement f"
proof -
  have "aps_bytes ps ap bf f = [] \<longleftrightarrow> acknowledgement f"
  proof (cases f)
    case (ApsFrame_Data d)
    have "encoding (sd_bitfield_u8 ps) w \<noteq> []" for w
      using parse_serialize_module.widths(4) [of ps w] assms(1) by (auto simp: aps_serde_def security_serde_def)
    then show ?thesis by (simp add: ApsFrame_Data)
  next
    case (ApsFrame_Command c)
    have "encoding (sd_bitfield_u8 ps) w \<noteq> []" for w
      using parse_serialize_module.widths(4) [of ps w] assms(1) by (auto simp: aps_serde_def security_serde_def)
    then show ?thesis by (simp add: ApsFrame_Command)
  qed simp_all
  then show ?thesis
    using aps_serde.ApsFrame_written [OF assms] by (auto simp: appends_def)
qed

end
