(* ===== verification/Old_Frame.thy ===== *)
theory Old_Frame
  imports Parse_Serialize Mru_Set
begin

unbundle bit_operations_syntax

text \<open>
  The MAC frames of the earlier stack (\<^verbatim>\<open>old_src/ieee802154/mac/frame.rs\<close>): their serialisation and
  the parser, over the serialisers of \<^verbatim>\<open>parse_serialize\<close> and the bit fields, which are arguments.
  The parser unwraps the conversions of the flags of an association request, so its result is an
  \<^verbatim>\<open>outcome\<close>.
\<close>

section \<open>Addresses\<close>

definition AddressSpecification_from_short :: "panid \<times> short_address \<Rightarrow> address_specification" where
  "AddressSpecification_from_short item = AddressSpecification_Short (fst item) (snd item)"

definition AddressSpecification_from_extended :: "panid \<times> extended_address \<Rightarrow> address_specification" where
  "AddressSpecification_from_extended item = AddressSpecification_Extended (fst item) (snd item)"

definition AddressSpecification_from_option :: "('a \<Rightarrow> address_specification) \<Rightarrow> 'a option \<Rightarrow> address_specification" where
  "AddressSpecification_from_option into item = (case item of None \<Rightarrow> AddressSpecification_None | Some x \<Rightarrow> into x)"

fun AddressSpecification_into_panid :: "address_specification \<Rightarrow> panid option" where
  "AddressSpecification_into_panid AddressSpecification_None = None"
| "AddressSpecification_into_panid (AddressSpecification_Short panid _) = Some panid"
| "AddressSpecification_into_panid (AddressSpecification_Extended panid _) = Some panid"

definition AddressSpecification_serialize_to :: "('se, 'de) parse_serialize \<Rightarrow> bool \<Rightarrow> address_specification \<Rightarrow> 'se ser" where
  "AddressSpecification_serialize_to ps skip_panid self =
     (case self of
        AddressSpecification_None \<Rightarrow> ser_ok
      | AddressSpecification_Short panid addr \<Rightarrow>
          ser_then (if \<not> skip_panid then serialize_to (sd_panid ps) panid else ser_ok)
            (serialize_to (sd_short_address ps) addr)
      | AddressSpecification_Extended panid addr \<Rightarrow>
          ser_then (if \<not> skip_panid then serialize_to (sd_panid ps) panid else ser_ok)
            (serialize_to (sd_extended_address ps) addr))"

fun AddressSpecification_serialize_tag :: "address_specification \<Rightarrow> (u16, 'se) result" where
  "AddressSpecification_serialize_tag AddressSpecification_None = Ok 0"
| "AddressSpecification_serialize_tag (AddressSpecification_Short _ _) = Ok 2"
| "AddressSpecification_serialize_tag (AddressSpecification_Extended _ _) = Ok 3"

definition AddressSpecification_deserialize :: "('se, 'de) parse_serialize \<Rightarrow> u16 \<Rightarrow> panid option \<Rightarrow>
    (address_specification, 'de) parser" where
  "AddressSpecification_deserialize ps tag use_panid input =
     (let panid_or = (case use_panid of Some panid \<Rightarrow> Ok (input, panid) | None \<Rightarrow> deserialize (sd_panid ps) input)
      in if tag = 0 then Ok (input, AddressSpecification_None)
         else if tag = 1 then
           Err (de_unimplemented ps input ''Unable to parse Frame with 'Reserved' address specification'')
         else if tag = 2 then
           and_then panid_or (\<lambda>(input, panid).
           and_then (deserialize (sd_short_address ps) input) (\<lambda>(input, addr).
           Ok (input, AddressSpecification_Short panid addr)))
         else if tag = 3 then
           and_then panid_or (\<lambda>(input, panid).
           and_then (deserialize (sd_extended_address ps) input) (\<lambda>(input, addr).
           Ok (input, AddressSpecification_Extended panid addr)))
         else Err (de_unexpected_data ps input))"

section \<open>Commands\<close>

datatype mac_device_type = DeviceType_RFD | DeviceType_FFD

datatype mac_power_source = PowerSource_Battery | PowerSource_Powered

text \<open>What \<^verbatim>\<open>TryFromPrimitive\<close> derives.\<close>

definition MacDeviceType_try_from :: "u8 \<Rightarrow> (mac_device_type, unit) result" where
  "MacDeviceType_try_from n = (if n = 0 then Ok DeviceType_RFD else if n = 1 then Ok DeviceType_FFD else Err ())"

definition MacPowerSource_try_from :: "u8 \<Rightarrow> (mac_power_source, unit) result" where
  "MacPowerSource_try_from n = (if n = 0 then Ok PowerSource_Battery else if n = 1 then Ok PowerSource_Powered else Err ())"

record mac_association_request =
  mar_alternate_pan_coordinator :: bool
  mar_device_type :: mac_device_type
  mar_power_source :: mac_power_source
  mar_receive_on_when_idle :: bool
  mar_security_capability :: bool
  mar_allocate_address :: bool

datatype mac_command =
    MacCommand_AssociationRequest mac_association_request
  | MacCommand_AssociationResponse short_address association_response_status
  | MacCommand_DataRequest
  | MacCommand_BeaconRequest

text \<open>\<^verbatim>\<open>?\<close> in code that may also panic.\<close>

definition try_outcome :: "('a, 'e) result \<Rightarrow> ('a \<Rightarrow> ('b, 'e) result outcome) \<Rightarrow> ('b, 'e) result outcome" where
  "try_outcome r f = (case r of Err e \<Rightarrow> Return (Err e) | Ok x \<Rightarrow> f x)"

lemma try_outcome_Ok_iff: "try_outcome r f = Return (Ok y) \<longleftrightarrow> (\<exists>x. r = Ok x \<and> f x = Return (Ok y))"
  by (cases r) (simp_all add: try_outcome_def)

definition MacCommand_deserialize :: "('se, 'de) parse_serialize \<Rightarrow> u8 bitfield_ops \<Rightarrow> bytes \<Rightarrow>
    (bytes \<times> mac_command, 'de) result outcome" where
  "MacCommand_deserialize ps bf8 input =
     try_outcome (deserialize (sd_u8 ps) input) (\<lambda>(input, command_id).
       if command_id = 1 then
         try_outcome (deserialize (sd_bitfield_u8 ps) input) (\<lambda>(input, flags).
         bind_outcome (unwrap (MacDeviceType_try_from (bit_range bf8 flags 1 1))) (\<lambda>device_type.
         bind_outcome (unwrap (MacPowerSource_try_from (bit_range bf8 flags 2 2))) (\<lambda>power_source.
         Return (Ok (input, MacCommand_AssociationRequest
           \<lparr>mar_alternate_pan_coordinator = (bit_range bf8 flags 0 0 > 0),
            mar_device_type = device_type,
            mar_power_source = power_source,
            mar_receive_on_when_idle = (bit_range bf8 flags 3 3 > 0),
            mar_security_capability = (bit_range bf8 flags 6 6 > 0),
            mar_allocate_address = (bit_range bf8 flags 7 7 > 0)\<rparr>)))))
       else if command_id = 2 then
         Return (and_then (deserialize (sd_short_address ps) input) (\<lambda>(input, short_address).
           and_then (deserialize (sd_association_status ps) input) (\<lambda>(input, status).
           Ok (input, MacCommand_AssociationResponse short_address status))))
       else if command_id = 4 then Return (Ok (input, MacCommand_DataRequest))
       else if command_id = 7 then Return (Ok (input, MacCommand_BeaconRequest))
       else Return (Err (de_unimplemented ps input ''Command not implemented'')))"

definition MacCommand_serialize_to :: "('se, 'de) parse_serialize \<Rightarrow> mac_command \<Rightarrow> 'se ser" where
  "MacCommand_serialize_to ps self =
     (case self of
        MacCommand_AssociationResponse short_address status \<Rightarrow>
          ser_tuple ps [serialize_to (sd_u8 ps) 2, serialize_to (sd_short_address ps) short_address,
            serialize_to (sd_association_status ps) status]
      | _ \<Rightarrow> ser_fail (se_unimplemented ps ''Serialization of command not implemented''))"

section \<open>Frame types\<close>

record mac_beacon =
  mb_beacon_order :: usize
  mb_superframe_order :: usize
  mb_final_cap_slot :: usize
  mb_battery_life_extension :: bool
  mb_pan_coordinator :: bool
  mb_association_permit :: bool

datatype mac_frame_type =
    MacFrameType_Beacon mac_beacon
  | MacFrameType_Data
  | MacFrameType_Ack
  | MacFrameType_Command mac_command
  | MacFrameType_Reserved
  | MacFrameType_Multipurpose
  | MacFrameType_Fragment
  | MacFrameType_Extended

definition map_parsed :: "('a \<Rightarrow> 'b) \<Rightarrow> (bytes \<times> 'a, 'de) result outcome \<Rightarrow> (bytes \<times> 'b, 'de) result outcome" where
  "map_parsed f m = bind_outcome m (\<lambda>r. Return (and_then r (\<lambda>(input, x). Ok (input, f x))))"

definition MacFrameType_deserialize :: "('se, 'de) parse_serialize \<Rightarrow> u8 bitfield_ops \<Rightarrow> u16 bitfield_ops \<Rightarrow> u16 \<Rightarrow> bytes \<Rightarrow>
    (bytes \<times> mac_frame_type, 'de) result outcome" where
  "MacFrameType_deserialize ps bf8 bf number input =
     (if number = 0 then
        Return (and_then (de_bitfield_u8_u8 ps input) (\<lambda>(input, (spec, gts, pending_addresses)).
          if gts \<noteq> 0 \<or> pending_addresses \<noteq> 0 then
            Err (de_unimplemented ps input ''Beacon frame, GTS or pending addresses not empty'')
          else
            Ok (input, MacFrameType_Beacon
              \<lparr>mb_beacon_order = unat (bit_range bf spec 3 0),
               mb_superframe_order = unat (bit_range bf spec 7 4),
               mb_final_cap_slot = unat (bit_range bf spec 11 8),
               mb_battery_life_extension = (bit_range bf spec 12 12 \<noteq> 0),
               mb_pan_coordinator = (bit_range bf spec 14 14 \<noteq> 0),
               mb_association_permit = (bit_range bf spec 15 15 \<noteq> 0)\<rparr>)))
      else if number = 1 then Return (Ok (input, MacFrameType_Data))
      else if number = 2 then Return (Ok (input, MacFrameType_Ack))
      else if number = 3 then map_parsed MacFrameType_Command (MacCommand_deserialize ps bf8 input)
      else if number = 4 then Return (Ok (input, MacFrameType_Reserved))
      else Return (Err (if number > 7 then de_unexpected_data ps input
             else de_unimplemented ps input ''MAC Type not implemented'')))"

definition MacFrameType_serialize_tag :: "('se, 'de) parse_serialize \<Rightarrow> mac_frame_type \<Rightarrow> (u16, 'se) result" where
  "MacFrameType_serialize_tag ps self =
     (case self of
        MacFrameType_Beacon _ \<Rightarrow> Ok 0
      | MacFrameType_Data \<Rightarrow> Ok 1
      | MacFrameType_Ack \<Rightarrow> Ok 2
      | MacFrameType_Command _ \<Rightarrow> Ok 3
      | MacFrameType_Reserved \<Rightarrow> Ok 4
      | _ \<Rightarrow> Err (se_unimplemented ps ''FrameType not implemented''))"

text \<open>\<^verbatim>\<open>try_into()\<close> of a \<^verbatim>\<open>usize\<close> to \<^verbatim>\<open>u16\<close>.\<close>

definition u16_try_from :: "usize \<Rightarrow> u16 option" where
  "u16_try_from n = (if n \<le> 65535 then Some (of_nat n) else None)"

definition MacFrameType_serialize_to :: "('se, 'de) parse_serialize \<Rightarrow> u16 bitfield_ops \<Rightarrow> mac_frame_type \<Rightarrow> 'se ser" where
  "MacFrameType_serialize_to ps bf self =
     (case self of
        MacFrameType_Beacon b \<Rightarrow>
          (case u16_try_from (mb_beacon_order b) of
             None \<Rightarrow> ser_fail (se_unimplemented ps ''Beacon order is too big'')
           | Some bo \<Rightarrow>
             (let ss = set_bit_range bf 0 3 0 bo
              in case u16_try_from (mb_superframe_order b) of
                   None \<Rightarrow> ser_fail (se_unimplemented ps ''Superframe order is too big'')
                 | Some so \<Rightarrow>
                   (let ss = set_bit_range bf ss 7 4 so
                    in case u16_try_from (mb_final_cap_slot b) of
                         None \<Rightarrow> ser_fail (se_unimplemented ps ''Final cap slot is too big'')
                       | Some slot \<Rightarrow>
                         (let ss = set_bit_range bf ss 11 8 slot;
                              ss = set_bit_range bf ss 12 12 (bool_to_word (mb_battery_life_extension b));
                              ss = set_bit_range bf ss 13 13 0;
                              ss = set_bit_range bf ss 14 14 (bool_to_word (mb_pan_coordinator b));
                              ss = set_bit_range bf ss 15 15 (bool_to_word (mb_association_permit b))
                          in ser_tuple ps [serialize_to (sd_bitfield_u16 ps) ss, serialize_to (sd_u8 ps) 0,
                               serialize_to (sd_u8 ps) 0]))))
      | MacFrameType_Data \<Rightarrow> ser_ok
      | MacFrameType_Ack \<Rightarrow> ser_ok
      | MacFrameType_Command cmd \<Rightarrow> MacCommand_serialize_to ps cmd
      | _ \<Rightarrow> ser_fail (se_unimplemented ps ''Frametype not implemented''))"

section \<open>Frames\<close>

record mac_frame =
  mf_frame_pending :: bool
  mf_acknowledge_request :: bool
  mf_sequence_number :: "u8 option"
  mf_destination :: address_specification
  mf_source :: address_specification
  mf_frame_type :: mac_frame_type
  mf_payload :: bytes

definition MacFrame_create_ack :: "bool \<Rightarrow> mac_frame \<Rightarrow> mac_frame option" where
  "MacFrame_create_ack pending self =
     (if \<not> mf_acknowledge_request self then None
      else Some
        \<lparr>mf_frame_pending = pending, mf_acknowledge_request = False,
         mf_sequence_number = mf_sequence_number self, mf_destination = AddressSpecification_None,
         mf_source = AddressSpecification_None, mf_frame_type = MacFrameType_Ack, mf_payload = []\<rparr>)"

definition MacFrame_expect_ack :: "mac_frame \<Rightarrow> u8 option" where
  "MacFrame_expect_ack self = (if \<not> mf_acknowledge_request self then None else mf_sequence_number self)"

definition MacFrame_deserialize :: "('se, 'de) parse_serialize \<Rightarrow> u8 bitfield_ops \<Rightarrow> u16 bitfield_ops \<Rightarrow> bytes \<Rightarrow>
    (bytes \<times> mac_frame, 'de) result outcome" where
  "MacFrame_deserialize ps bf8 bf input =
     try_outcome (deserialize (sd_bitfield_u16 ps) input) (\<lambda>(input, fsf).
     let frame_pending = (bit_range bf fsf 4 4 > 0);
         acknowledge_request = (bit_range bf fsf 5 5 > 0)
     in try_outcome (nom_cond (bit_range bf fsf 8 8 = 0) (deserialize (sd_u8 ps)) input) (\<lambda>(input, sequence_number).
        try_outcome (AddressSpecification_deserialize ps (bit_range bf fsf 11 10) None input) (\<lambda>(input, dst).
        let source_pan_compression =
              (if bit_range bf fsf 6 6 \<noteq> 0 then AddressSpecification_into_panid dst else None)
        in try_outcome (AddressSpecification_deserialize ps (bit_range bf fsf 15 14) source_pan_compression input)
             (\<lambda>(input, src).
           bind_outcome (MacFrameType_deserialize ps bf8 bf (bit_range bf fsf 2 0) input) (\<lambda>r.
           try_outcome r (\<lambda>(input, frame_type).
           try_outcome (nom_rest input) (\<lambda>(input, payload).
           Return (Ok (input,
             \<lparr>mf_frame_pending = frame_pending, mf_acknowledge_request = acknowledge_request,
              mf_sequence_number = sequence_number, mf_destination = dst, mf_source = src,
              mf_frame_type = frame_type, mf_payload = payload\<rparr>)))))))))"

definition MacFrame_serialize_to :: "('se, 'de) parse_serialize \<Rightarrow> u16 bitfield_ops \<Rightarrow> mac_frame \<Rightarrow> 'se ser" where
  "MacFrame_serialize_to ps bf self =
     ser_result (MacFrameType_serialize_tag ps (mf_frame_type self)) (\<lambda>frame_type_tag.
     let fsf = set_bit_range bf 0 2 0 frame_type_tag;
         fsf = set_bit_range bf fsf 3 3 0;
         fsf = set_bit_range bf fsf 4 4 (bool_to_word (mf_frame_pending self));
         fsf = set_bit_range bf fsf 5 5 (bool_to_word (mf_acknowledge_request self));
         destination_pan = AddressSpecification_into_panid (mf_destination self);
         source_pan = AddressSpecification_into_panid (mf_source self);
         pan_id_compression = (source_pan = destination_pan \<and> source_pan \<noteq> None);
         fsf = set_bit_range bf fsf 6 6 (bool_to_word pan_id_compression);
         fsf = set_bit_range bf fsf 7 7 0;
         fsf = set_bit_range bf fsf 8 8 (bool_to_word (mf_sequence_number self = None));
         fsf = set_bit_range bf fsf 9 9 0
     in ser_result (AddressSpecification_serialize_tag (mf_destination self)) (\<lambda>destination_tag.
        let fsf = set_bit_range bf fsf 11 10 destination_tag;
            fsf = set_bit_range bf fsf 13 12 0
        in ser_result (AddressSpecification_serialize_tag (mf_source self)) (\<lambda>source_tag.
           let fsf = set_bit_range bf fsf 15 14 source_tag
           in ser_then (serialize_to (sd_bitfield_u16 ps) fsf)
              (ser_then (ser_optional (serialize_to (sd_u8 ps)) (mf_sequence_number self))
              (ser_then (AddressSpecification_serialize_to ps False (mf_destination self))
              (ser_then (AddressSpecification_serialize_to ps pan_id_compression (mf_source self))
              (ser_then (MacFrameType_serialize_to ps bf (mf_frame_type self))
                (ser_extend (mf_payload self)))))))))"

section \<open>The contract\<close>

locale mac_serde = parse_serialize_module ps + narrow: bitfield_crate bf8 + wide: bitfield_crate bf
  for ps :: "('se, 'de) parse_serialize" and bf8 :: "u8 bitfield_ops" and bf :: "u16 bitfield_ops"

interpretation mac_impl: mac_serde parse_serialize_impl bitfield_impl bitfield_impl ..

fun writable_type :: "mac_frame_type \<Rightarrow> bool" where
  "writable_type (MacFrameType_Beacon b) =
     (mb_beacon_order b \<le> 65535 \<and> mb_superframe_order b \<le> 65535 \<and> mb_final_cap_slot b \<le> 65535)"
| "writable_type MacFrameType_Data = True"
| "writable_type MacFrameType_Ack = True"
| "writable_type (MacFrameType_Command (MacCommand_AssociationResponse _ _)) = True"
| "writable_type _ = False"

text \<open>The orders and the slot of a beacon have four bits each.\<close>

fun readable_type :: "mac_frame_type \<Rightarrow> bool" where
  "readable_type (MacFrameType_Beacon b) = (mb_beacon_order b \<le> 15 \<and> mb_superframe_order b \<le> 15 \<and> mb_final_cap_slot b \<le> 15)"
| "readable_type _ = True"

fun type_number :: "mac_frame_type \<Rightarrow> u16" where
  "type_number (MacFrameType_Beacon _) = 0"
| "type_number MacFrameType_Data = 1"
| "type_number MacFrameType_Ack = 2"
| "type_number (MacFrameType_Command _) = 3"
| "type_number _ = 4"

fun address_number :: "address_specification \<Rightarrow> u16" where
  "address_number AddressSpecification_None = 0"
| "address_number (AddressSpecification_Short _ _) = 2"
| "address_number (AddressSpecification_Extended _ _) = 3"

fun address_bytes :: "('se, 'de) parse_serialize \<Rightarrow> bool \<Rightarrow> address_specification \<Rightarrow> bytes" where
  "address_bytes ps skip AddressSpecification_None = []"
| "address_bytes ps skip (AddressSpecification_Short panid addr) =
     (if skip then [] else encoding (sd_panid ps) panid) @ encoding (sd_short_address ps) addr"
| "address_bytes ps skip (AddressSpecification_Extended panid addr) =
     (if skip then [] else encoding (sd_panid ps) panid) @ encoding (sd_extended_address ps) addr"

definition superframe :: "u16 bitfield_ops \<Rightarrow> mac_beacon \<Rightarrow> u16" where
  "superframe bf b =
     (let ss = set_bit_range bf 0 3 0 (of_nat (mb_beacon_order b));
          ss = set_bit_range bf ss 7 4 (of_nat (mb_superframe_order b));
          ss = set_bit_range bf ss 11 8 (of_nat (mb_final_cap_slot b));
          ss = set_bit_range bf ss 12 12 (bool_to_word (mb_battery_life_extension b));
          ss = set_bit_range bf ss 13 13 0;
          ss = set_bit_range bf ss 14 14 (bool_to_word (mb_pan_coordinator b))
      in set_bit_range bf ss 15 15 (bool_to_word (mb_association_permit b)))"

fun type_body :: "('se, 'de) parse_serialize \<Rightarrow> u16 bitfield_ops \<Rightarrow> mac_frame_type \<Rightarrow> bytes" where
  "type_body ps bf (MacFrameType_Beacon b) =
     encoding (sd_bitfield_u16 ps) (superframe bf b) @ encoding (sd_u8 ps) 0 @ encoding (sd_u8 ps) 0"
| "type_body ps bf (MacFrameType_Command (MacCommand_AssociationResponse addr status)) =
     encoding (sd_u8 ps) 2 @ encoding (sd_short_address ps) addr @ encoding (sd_association_status ps) status"
| "type_body ps bf _ = []"

definition compressed :: "mac_frame \<Rightarrow> bool" where
  "compressed f \<longleftrightarrow>
     AddressSpecification_into_panid (mf_source f) = AddressSpecification_into_panid (mf_destination f) \<and>
     AddressSpecification_into_panid (mf_source f) \<noteq> None"

definition mac_control :: "u16 bitfield_ops \<Rightarrow> mac_frame \<Rightarrow> u16" where
  "mac_control bf f =
     (let fsf = set_bit_range bf 0 2 0 (type_number (mf_frame_type f));
          fsf = set_bit_range bf fsf 3 3 0;
          fsf = set_bit_range bf fsf 4 4 (bool_to_word (mf_frame_pending f));
          fsf = set_bit_range bf fsf 5 5 (bool_to_word (mf_acknowledge_request f));
          fsf = set_bit_range bf fsf 6 6 (bool_to_word (compressed f));
          fsf = set_bit_range bf fsf 7 7 0;
          fsf = set_bit_range bf fsf 8 8 (bool_to_word (mf_sequence_number f = None));
          fsf = set_bit_range bf fsf 9 9 0;
          fsf = set_bit_range bf fsf 11 10 (address_number (mf_destination f));
          fsf = set_bit_range bf fsf 13 12 0
      in set_bit_range bf fsf 15 14 (address_number (mf_source f)))"

definition mac_bytes :: "('se, 'de) parse_serialize \<Rightarrow> u16 bitfield_ops \<Rightarrow> mac_frame \<Rightarrow> bytes" where
  "mac_bytes ps bf f =
     encoding (sd_bitfield_u16 ps) (mac_control bf f) @ optional_bytes (sd_u8 ps) (mf_sequence_number f) @
     address_bytes ps False (mf_destination f) @ address_bytes ps (compressed f) (mf_source f) @
     type_body ps bf (mf_frame_type f) @ mf_payload f"

lemma address_tag [simp]: "AddressSpecification_serialize_tag a = Ok (address_number a)"
  by (cases a) simp_all

lemma type_tag:
  "MacFrameType_serialize_tag ps t = (if t \<in> {MacFrameType_Multipurpose, MacFrameType_Fragment, MacFrameType_Extended}
     then Err (se_unimplemented ps ''FrameType not implemented'') else Ok (type_number t))"
  by (cases t) (simp_all add: MacFrameType_serialize_tag_def)

context mac_serde
begin

lemma address_written:
  "appends (AddressSpecification_serialize_to ps skip a) (address_bytes ps skip a)"
proof -
  have "appends (ser_then (if \<not> skip then serialize_to (sd_panid ps) p else ser_ok) s)
      ((if skip then [] else encoding (sd_panid ps) p) @ bs)" if "appends s bs" for p s bs
    using that by (intro appends_then) (simp_all add: serde_write appends_ok)
  then show ?thesis
    by (cases a) (simp_all add: AddressSpecification_serialize_to_def serde_write appends_ok)
qed

lemma address_read:
  assumes "\<And>panid. AddressSpecification_into_panid a = Some panid \<Longrightarrow> known = (if skip then Some panid else None)"
  shows "AddressSpecification_deserialize ps (address_number a) known (address_bytes ps skip a @ rest) = Ok (rest, a)"
  using assms by (cases a; cases skip) (simp_all add: AddressSpecification_deserialize_def Let_def)

lemma type_written:
  assumes "writable_type t"
  shows "appends (MacFrameType_serialize_to ps bf t) (type_body ps bf t)"
proof -
  have three: "appends (ser_tuple ps [a, b, c]) (x @ y @ z)" if "appends a x" "appends b y" "appends c z" for a b c x y z
    using that appends_tuple [of "[a, b, c]" "[x, y, z]"] by simp
  show ?thesis
    using assms
    by (cases t rule: writable_type.cases)
      (simp_all add: MacFrameType_serialize_to_def MacCommand_serialize_to_def u16_try_from_def superframe_def Let_def
        appends_ok three serde_write)
qed

lemma type_refused: "\<not> writable_type t \<Longrightarrow> fst (MacFrameType_serialize_to ps bf t target) \<noteq> Ok ()"
  by (cases t rule: writable_type.cases)
    (auto simp: MacFrameType_serialize_to_def MacCommand_serialize_to_def u16_try_from_def ser_fail_def Let_def
      split: option.splits)

lemma superframe_fields [simp]:
  "bit_range bf (superframe bf b) 3 0 = take_bit 4 (of_nat (mb_beacon_order b))"
  "bit_range bf (superframe bf b) 7 4 = take_bit 4 (of_nat (mb_superframe_order b))"
  "bit_range bf (superframe bf b) 11 8 = take_bit 4 (of_nat (mb_final_cap_slot b))"
  "bit_range bf (superframe bf b) 12 12 = bool_to_word (mb_battery_life_extension b)"
  "bit_range bf (superframe bf b) 14 14 = bool_to_word (mb_pan_coordinator b)"
  "bit_range bf (superframe bf b) 15 15 = bool_to_word (mb_association_permit b)"
  unfolding superframe_def Let_def by (simp_all add: wide.get_set flag_bits)

lemma small_numbers: "take_bit 3 (type_number t) = type_number t" "take_bit 2 (address_number a) = address_number a"
  by (cases t; simp) (cases a; simp)

lemma mac_control_fields [simp]:
  "bit_range bf (mac_control bf f) 2 0 = type_number (mf_frame_type f)"
  "bit_range bf (mac_control bf f) 4 4 = bool_to_word (mf_frame_pending f)"
  "bit_range bf (mac_control bf f) 5 5 = bool_to_word (mf_acknowledge_request f)"
  "bit_range bf (mac_control bf f) 6 6 = bool_to_word (compressed f)"
  "bit_range bf (mac_control bf f) 8 8 = bool_to_word (mf_sequence_number f = None)"
  "bit_range bf (mac_control bf f) 11 10 = address_number (mf_destination f)"
  "bit_range bf (mac_control bf f) 15 14 = address_number (mf_source f)"
  unfolding mac_control_def Let_def
  by (simp_all add: wide.get_set flag_bits numeral_2_eq_2 [symmetric] small_numbers)

lemma MacFrame_serialize_eq:
  assumes "mf_frame_type f \<notin> {MacFrameType_Multipurpose, MacFrameType_Fragment, MacFrameType_Extended}"
  shows "MacFrame_serialize_to ps bf f =
    ser_then (serialize_to (sd_bitfield_u16 ps) (mac_control bf f))
    (ser_then (ser_optional (serialize_to (sd_u8 ps)) (mf_sequence_number f))
    (ser_then (AddressSpecification_serialize_to ps False (mf_destination f))
    (ser_then (AddressSpecification_serialize_to ps (compressed f) (mf_source f))
    (ser_then (MacFrameType_serialize_to ps bf (mf_frame_type f)) (ser_extend (mf_payload f))))))"
  unfolding MacFrame_serialize_to_def type_tag if_not_P [OF assms] ser_result_Ok address_tag Let_def
    compressed_def mac_control_def ..

lemma MacFrame_written:
  assumes "writable_type (mf_frame_type f)"
  shows "appends (MacFrame_serialize_to ps bf f) (mac_bytes ps bf f)"
proof -
  have supported: "mf_frame_type f \<notin> {MacFrameType_Multipurpose, MacFrameType_Fragment, MacFrameType_Extended}"
    using assms by auto
  show ?thesis
    unfolding MacFrame_serialize_eq [OF supported] mac_bytes_def optional_bytes_def
    by (intro appends_then appends_optional address_written type_written [OF assms] appends_extend serde_write)
qed

lemma MacFrame_refused:
  assumes "\<not> writable_type (mf_frame_type f)"
  shows "fst (MacFrame_serialize_to ps bf f target) \<noteq> Ok ()"
proof (cases "mf_frame_type f \<in> {MacFrameType_Multipurpose, MacFrameType_Fragment, MacFrameType_Extended}")
  case True
  then show ?thesis unfolding MacFrame_serialize_to_def type_tag if_P [OF True] by (simp add: ser_result_def ser_fail_def)
next
  case False
  show ?thesis
    unfolding MacFrame_serialize_eq [OF False]
    by (intro ser_then_Err(2) [where b = "ser_then _ _"] ser_then_Err(1) type_refused assms)
qed

lemma order_read: "n \<le> 15 \<Longrightarrow> unat (take_bit 4 (of_nat n :: u16)) = n"
  by (simp add: unsigned_take_bit_eq unat_of_nat take_bit_nat_eq_self)

lemma type_read:
  assumes "writable_type t" "readable_type t"
  shows "MacFrameType_deserialize ps bf8 bf (type_number t) (type_body ps bf t @ rest) = Return (Ok (rest, t))"
  using assms
  by (cases t rule: writable_type.cases)
    (simp_all add: MacFrameType_deserialize_def bitfield_u8_u8 de_pair_def order_read flag_bits map_parsed_def
      MacCommand_deserialize_def try_outcome_def)

lemma MacFrame_read:
  assumes "writable_type (mf_frame_type f)" "readable_type (mf_frame_type f)"
  shows "MacFrame_deserialize ps bf8 bf (mac_bytes ps bf f) = Return (Ok ([], f))"
proof -
  have seq: "nom_cond (\<not> mf_sequence_number f = None) (deserialize (sd_u8 ps))
      (optional_bytes (sd_u8 ps) (mf_sequence_number f) @ rest) = Ok (rest, mf_sequence_number f)" for rest
    unfolding optional_bytes_def by (rule nom_cond_encoded [OF u8])
  have dst: "AddressSpecification_deserialize ps (address_number (mf_destination f)) None
      (address_bytes ps False (mf_destination f) @ rest) = Ok (rest, mf_destination f)" for rest
    by (rule address_read) simp
  have src: "AddressSpecification_deserialize ps (address_number (mf_source f))
      (if compressed f then AddressSpecification_into_panid (mf_destination f) else None)
      (address_bytes ps (compressed f) (mf_source f) @ rest) = Ok (rest, mf_source f)" for rest
    by (rule address_read) (auto simp: compressed_def)
  show ?thesis
    unfolding MacFrame_deserialize_def mac_bytes_def
    by (simp add: try_outcome_def Let_def flag_bits seq dst src type_read [OF assms] nom_rest_def del: not_None_eq)
qed

text \<open>The flags of an association request have one bit each, so unwrapping them succeeds.\<close>

lemma one_bit: "bit_range bf8 w n n = 0 \<or> bit_range bf8 w n n = 1" if "n < 8"
proof -
  have "take_bit 1 (bit_range bf8 w n n) = bit_range bf8 w n n" using that narrow.get_bound [of n n w] by simp
  then have "unat (bit_range bf8 w n n) mod 2 = unat (bit_range bf8 w n n)"
    by (metis One_nat_def power_one_right take_bit_eq_mod unsigned_take_bit_eq)
  then have "unat (bit_range bf8 w n n) < 2" using mod_less_divisor [of 2 "unat (bit_range bf8 w n n)"] by linarith
  then show ?thesis by (simp add: word_unat_eq_iff less_2_cases_iff)
qed

lemma MacCommand_returns: "MacCommand_deserialize ps bf8 input \<noteq> Panic"
proof -
  have "unwrap (MacDeviceType_try_from (bit_range bf8 flags 1 1)) \<noteq> Panic"
    "unwrap (MacPowerSource_try_from (bit_range bf8 flags 2 2)) \<noteq> Panic" for flags
    using one_bit [of 1 flags] one_bit [of 2 flags]
    by (auto simp: MacDeviceType_try_from_def MacPowerSource_try_from_def)
  then show ?thesis
    by (auto simp: MacCommand_deserialize_def try_outcome_def bind_outcome_def split: sum.splits outcome.splits)
qed

lemma MacFrame_returns: "MacFrame_deserialize ps bf8 bf input \<noteq> Panic"
proof -
  have "MacFrameType_deserialize ps bf8 bf n i \<noteq> Panic" for n i
    using MacCommand_returns [of i]
    by (auto simp: MacFrameType_deserialize_def map_parsed_def bind_outcome_def split: outcome.splits)
  then show ?thesis
    by (auto simp: MacFrame_deserialize_def try_outcome_def bind_outcome_def Let_def nom_rest_def
      split: sum.splits outcome.splits)
qed

text \<open>What the parser accepts.\<close>

lemma four_bits:
  assumes "lsb + 3 < 16"
  shows "unat (bit_range bf w (lsb + 3) lsb) \<le> 15"
proof -
  have "take_bit 4 (bit_range bf w (lsb + 3) lsb) = bit_range bf w (lsb + 3) lsb"
    using assms wide.get_bound [of lsb "lsb + 3" w] by simp
  then have "take_bit 4 (unat (bit_range bf w (lsb + 3) lsb)) = unat (bit_range bf w (lsb + 3) lsb)"
    by (metis unsigned_take_bit_eq)
  then show ?thesis by (simp add: take_bit_nat_eq_self_iff)
qed

lemma type_parsed:
  assumes "MacFrameType_deserialize ps bf8 bf n input = Return (Ok (rest, t))"
  shows "readable_type t"
  using assms four_bits [of 0] four_bits [of 4] four_bits [of 8]
  by (auto simp: MacFrameType_deserialize_def map_parsed_def and_then_eq_Ok_iff bind_outcome_eq_Return_iff
    split: if_splits)

lemma MacFrame_parsed:
  assumes "MacFrame_deserialize ps bf8 bf input = Return (Ok (rest, f))"
  shows "rest = [] \<and> readable_type (mf_frame_type f)"
proof -
  obtain n i r where "MacFrameType_deserialize ps bf8 bf n i = Return (Ok (r, mf_frame_type f))" "rest = []"
    using assms
    by (auto simp: MacFrame_deserialize_def try_outcome_Ok_iff Let_def nom_rest_def bind_outcome_eq_Return_iff)
  then show ?thesis using type_parsed by blast
qed

end

section \<open>Theorems\<close>

text \<open>C25. Serialising a MAC frame succeeds and the bytes parse to the frame exactly when its type is
  a beacon with orders and slot of at most 15, data, an acknowledgement, or an association response; all
  other commands and types are refused, and a larger order is written without its high bits.\<close>

theorem MacFrame_roundtrip_exactly:
  assumes "parse_serialize_module ps" "bitfield_crate bf8" "bitfield_crate bf"
  shows "(\<exists>bs. MacFrame_serialize_to ps bf f [] = (Ok (), bs) \<and> MacFrame_deserialize ps bf8 bf bs = Return (Ok ([], f))) \<longleftrightarrow>
    writable_type (mf_frame_type f) \<and> readable_type (mf_frame_type f)"
proof -
  have serde: "mac_serde ps bf8 bf" using assms by (simp add: mac_serde_def)
  show ?thesis
  proof
    assume "\<exists>bs. MacFrame_serialize_to ps bf f [] = (Ok (), bs) \<and> MacFrame_deserialize ps bf8 bf bs = Return (Ok ([], f))"
    then show "writable_type (mf_frame_type f) \<and> readable_type (mf_frame_type f)"
      using mac_serde.MacFrame_refused [OF serde, of f "[]"] mac_serde.MacFrame_parsed [OF serde] by fastforce
  next
    assume "writable_type (mf_frame_type f) \<and> readable_type (mf_frame_type f)"
    then show "\<exists>bs. MacFrame_serialize_to ps bf f [] = (Ok (), bs) \<and> MacFrame_deserialize ps bf8 bf bs = Return (Ok ([], f))"
      using mac_serde.MacFrame_written [OF serde, of f] mac_serde.MacFrame_read [OF serde, of f] by (simp add: appends_def)
  qed
qed

definition association_response_frame :: mac_frame where
  "association_response_frame =
     \<lparr>mf_frame_pending = False, mf_acknowledge_request = True, mf_sequence_number = Some 10,
      mf_destination = AddressSpecification_Extended (PANID 0x7698) (ExtendedAddress 0xd0cf5efffe1c6306),
      mf_source = AddressSpecification_Extended (PANID 0x7698) (ExtendedAddress 0x00124b000e896815),
      mf_frame_type = MacFrameType_Command (MacCommand_AssociationResponse (ShortAddress 0x558b) Status_AssociationSuccessful),
      mf_payload = []\<rparr>"

theorem MacFrame_roundtrip_exactly_witness:
  "\<exists>bs. MacFrame_serialize_to parse_serialize_impl bitfield_impl association_response_frame [] = (Ok (), bs) \<and>
    MacFrame_deserialize parse_serialize_impl bitfield_impl bitfield_impl bs = Return (Ok ([], association_response_frame))"
  by (subst MacFrame_roundtrip_exactly)
    (simp_all add: association_response_frame_def parse_serialize_impl.parse_serialize_module_axioms
      bitfield_impl.bitfield_crate_axioms)

text \<open>Parsing a MAC frame never panics, whatever was received, although it unwraps conversions: it
  returns an error or a frame, and then it has consumed the whole input and a beacon's orders and slot are at
  most 15.\<close>

theorem MacFrame_parser_total:
  assumes "parse_serialize_module ps" "bitfield_crate bf8" "bitfield_crate bf"
  shows "(\<exists>e. MacFrame_deserialize ps bf8 bf input = Return (Err e)) \<or>
    (\<exists>f. MacFrame_deserialize ps bf8 bf input = Return (Ok ([], f)) \<and> readable_type (mf_frame_type f))"
proof -
  have serde: "mac_serde ps bf8 bf" using assms by (simp add: mac_serde_def)
  obtain r where r: "MacFrame_deserialize ps bf8 bf input = Return r"
    using mac_serde.MacFrame_returns [OF serde, of input] by (cases "MacFrame_deserialize ps bf8 bf input") auto
  show ?thesis
  proof (cases r)
    case (Inr x)
    then show ?thesis using mac_serde.MacFrame_parsed [OF serde, of input "fst x" "snd x"] r by (cases x) auto
  qed (simp add: r)
qed

text \<open>A beacon order is checked against 16 bits and stored in four: a beacon whose order is 16 too
  large for its field is written like the one without the excess.\<close>

theorem MacFrame_order_truncated:
  assumes "bitfield_crate bf" "mb_beacon_order b + 16 \<le> 65535"
  shows "MacFrameType_serialize_to ps bf (MacFrameType_Beacon (b\<lparr>mb_beacon_order := mb_beacon_order b + 16\<rparr>)) =
    MacFrameType_serialize_to ps bf (MacFrameType_Beacon b)"
proof -
  have low: "bit (of_nat (n + 16) :: u16) k = bit (of_nat n :: u16) k" if "k < 4" for n k
  proof -
    have "take_bit 4 (n + 16) = take_bit 4 n" by (simp add: take_bit_eq_mod)
    then have "take_bit 4 (of_nat (n + 16) :: u16) = take_bit 4 (of_nat n)"
      by (simp add: word_unat_eq_iff unsigned_take_bit_eq unsigned_of_nat del: of_nat_add)
    then show ?thesis using that by (metis bit_take_bit_iff)
  qed
  have "set_bit_range bf 0 3 0 (of_nat (mb_beacon_order b + 16) :: u16) = set_bit_range bf 0 3 0 (of_nat (mb_beacon_order b))"
    by (rule bit_word_eqI) (simp add: bitfield_crate.bit_set_bit_range [OF assms(1)] low del: of_nat_add)
  then show ?thesis
    using assms(2) by (simp add: MacFrameType_serialize_to_def u16_try_from_def Let_def)
qed

end
