(* ===== verification/Delay_Queue.thy ===== *)
theory Delay_Queue
  imports Runtime
begin

text \<open>
  The timers of the earlier stack: its wrapper of tokio's \<^verbatim>\<open>DelayQueue\<close>
  (\<^verbatim>\<open>old_src/delayqueue.rs\<close>), the map with expiring entries built on it
  (\<^verbatim>\<open>old_src/cachemap.rs\<close>) and the stored waker (\<^verbatim>\<open>old_src/saved_waker.rs\<close>).  tokio's queue is
  an argument; the operations that read the clock take the current time.
\<close>

section \<open>tokio's delay queue\<close>

type_synonym instant = nat

record ('v, 'k, 'e, 'q) tokio_dq =
  tk_new :: 'q
  tk_insert_at :: "'v \<Rightarrow> instant \<Rightarrow> 'q \<Rightarrow> 'k \<times> 'q"
  tk_insert :: "instant \<Rightarrow> 'v \<Rightarrow> duration \<Rightarrow> 'q \<Rightarrow> 'k \<times> 'q"
  tk_remove :: "'k \<Rightarrow> 'q \<Rightarrow> ('v \<times> 'q) outcome"
  tk_reset_at :: "'k \<Rightarrow> instant \<Rightarrow> 'q \<Rightarrow> 'q outcome"
  tk_reset :: "instant \<Rightarrow> 'k \<Rightarrow> duration \<Rightarrow> 'q \<Rightarrow> 'q outcome"
  tk_clear :: "'q \<Rightarrow> 'q"
  tk_poll :: "instant \<Rightarrow> 'q \<Rightarrow> ('v, 'e) result option poll \<times> 'q"

text \<open>
  Its documentation: a queue holds values with their deadlines under keys; \<^verbatim>\<open>remove\<close> and
  \<^verbatim>\<open>reset\<close> panic on a key that is not in the queue; polling yields, and removes, a value
  whose deadline has passed, and yields nothing only if there is none.
\<close>

locale tokio_delay_queue =
  fixes tk :: "('v, 'k, 'e, 'q) tokio_dq" and timers :: "'q \<Rightarrow> 'k \<rightharpoonup> 'v \<times> instant"
  assumes tk_new: "timers (tk_new tk) = Map.empty"
    and tk_insert_at: "tk_insert_at tk v t q = (k, q') \<Longrightarrow> timers q k = None \<and> timers q' = (timers q)(k \<mapsto> (v, t))"
    and tk_insert: "tk_insert tk now v d q = (k, q') \<Longrightarrow> timers q k = None \<and> timers q' = (timers q)(k \<mapsto> (v, now + d))"
    and tk_remove: "timers q k = Some (v, t) \<Longrightarrow> \<exists>q'. tk_remove tk k q = Return (v, q') \<and> timers q' = (timers q)(k := None)"
    and tk_reset_at: "timers q k = Some (v, t) \<Longrightarrow> \<exists>q'. tk_reset_at tk k t' q = Return q' \<and> timers q' = (timers q)(k \<mapsto> (v, t'))"
    and tk_reset: "timers q k = Some (v, t) \<Longrightarrow>
      \<exists>q'. tk_reset tk now k d q = Return q' \<and> timers q' = (timers q)(k \<mapsto> (v, now + d))"
    and tk_absent: "timers q k = None \<Longrightarrow>
      tk_remove tk k q = Panic \<and> tk_reset_at tk k t q = Panic \<and> tk_reset tk now k d q = Panic"
    and tk_clear: "timers (tk_clear tk q) = Map.empty"
    and tk_poll_value: "tk_poll tk now q = (Ready (Some (Ok v)), q') \<Longrightarrow>
      \<exists>k t. timers q k = Some (v, t) \<and> t \<le> now \<and> timers q' = (timers q)(k := None)"
    and tk_poll_error: "tk_poll tk now q = (Ready (Some (Err e)), q') \<Longrightarrow> timers q' = timers q"
    and tk_poll_nothing: "tk_poll tk now q = (r, q') \<Longrightarrow> r \<in> {Pending, Ready None} \<Longrightarrow>
      timers q' = timers q \<and> (\<forall>k v t. timers q k = Some (v, t) \<longrightarrow> now < t)"
    and tk_finite: "finite (dom (timers q))"

text \<open>A timer that has not been shut down reports no error.\<close>

locale tokio_running = tokio_delay_queue tk timers
  for tk :: "('v, 'k, 'e, 'q) tokio_dq" and timers :: "'q \<Rightarrow> 'k \<rightharpoonup> 'v \<times> instant" +
  assumes tk_no_error: "tk_poll tk now q \<noteq> (Ready (Some (Err e)), q')"

text \<open>A queue of that kind.\<close>

record 'v timer_list =
  tl_next :: nat
  tl_entries :: "(nat \<times> 'v \<times> instant) list"

definition timer_map :: "'v timer_list \<Rightarrow> nat \<rightharpoonup> 'v \<times> instant" where
  "timer_map q = (\<lambda>k. if k < tl_next q then map_of (tl_entries q) k else None)"

definition timer_insert :: "'v \<Rightarrow> instant \<Rightarrow> 'v timer_list \<Rightarrow> nat \<times> 'v timer_list" where
  "timer_insert v t q = (tl_next q, \<lparr>tl_next = Suc (tl_next q), tl_entries = (tl_next q, v, t) # tl_entries q\<rparr>)"

definition timer_delete :: "nat \<Rightarrow> 'v timer_list \<Rightarrow> 'v timer_list" where
  "timer_delete k q = q\<lparr>tl_entries := AList.delete k (tl_entries q)\<rparr>"

definition timer_reset :: "nat \<Rightarrow> instant \<Rightarrow> 'v timer_list \<Rightarrow> 'v timer_list outcome" where
  "timer_reset k t q =
     (case timer_map q k of None \<Rightarrow> Panic
      | Some (v, _) \<Rightarrow> Return (q\<lparr>tl_entries := AList.update k (v, t) (tl_entries q)\<rparr>))"

definition timer_due :: "instant \<Rightarrow> 'v timer_list \<Rightarrow> nat option" where
  "timer_due now q = map_option fst (List.find (\<lambda>(k, v, t). k < tl_next q \<and> map_of (tl_entries q) k = Some (v, t) \<and> t \<le> now) (tl_entries q))"

definition tokio_impl :: "('v, nat, unit, 'v timer_list) tokio_dq" where
  "tokio_impl =
     \<lparr>tk_new = \<lparr>tl_next = 0, tl_entries = []\<rparr>,
      tk_insert_at = timer_insert,
      tk_insert = (\<lambda>now v d. timer_insert v (now + d)),
      tk_remove = (\<lambda>k q. case timer_map q k of None \<Rightarrow> Panic | Some (v, _) \<Rightarrow> Return (v, timer_delete k q)),
      tk_reset_at = timer_reset,
      tk_reset = (\<lambda>now k d. timer_reset k (now + d)),
      tk_clear = (\<lambda>q. q\<lparr>tl_entries := []\<rparr>),
      tk_poll = (\<lambda>now q. case timer_due now q of
          None \<Rightarrow> (if tl_entries q = [] then Ready None else Pending, q)
        | Some k \<Rightarrow> (case timer_map q k of None \<Rightarrow> (Pending, q) | Some (v, _) \<Rightarrow> (Ready (Some (Ok v)), timer_delete k q)))\<rparr>"

lemma timer_due_cases:
  "timer_due now q = Some k \<Longrightarrow> \<exists>v t. timer_map q k = Some (v, t) \<and> t \<le> now"
  "timer_due now q = None \<Longrightarrow> timer_map q k = Some (v, t) \<Longrightarrow> now < t"
proof -
  show "timer_due now q = Some k \<Longrightarrow> \<exists>v t. timer_map q k = Some (v, t) \<and> t \<le> now"
    by (auto simp: timer_due_def timer_map_def find_Some_iff)
  assume none: "timer_due now q = None" and k: "timer_map q k = Some (v, t)"
  then have "(k, v, t) \<in> set (tl_entries q)" "k < tl_next q" "map_of (tl_entries q) k = Some (v, t)"
    by (auto simp: timer_map_def map_of_SomeD split: if_splits)
  with none show "now < t" by (fastforce simp: timer_due_def find_None_iff)
qed

lemma timer_map_delete [simp]: "timer_map (timer_delete k q) = (timer_map q)(k := None)"
  by (rule ext) (simp add: timer_map_def timer_delete_def delete_conv)

lemma timer_map_insert: "timer_insert v t q = (k, q') \<Longrightarrow> timer_map q k = None \<and> timer_map q' = (timer_map q)(k \<mapsto> (v, t))"
  by (auto simp: timer_insert_def timer_map_def less_Suc_eq intro!: ext)

lemma timer_map_reset:
  "timer_map q k = Some (v, t) \<Longrightarrow> \<exists>q'. timer_reset k t' q = Return q' \<and> timer_map q' = (timer_map q)(k \<mapsto> (v, t'))"
  by (auto simp: timer_reset_def timer_map_def update_conv intro!: ext split: if_splits)

interpretation tokio_impl: tokio_running tokio_impl timer_map
proof
  show "finite (dom (timer_map q))" for q :: "'v timer_list"
    by (rule finite_subset [OF _ finite_dom_map_of [of "tl_entries q"]]) (auto simp: timer_map_def split: if_splits)
  show "tk_insert_at tokio_impl v t q = (k, q') \<Longrightarrow> timer_map q k = None \<and> timer_map q' = (timer_map q)(k \<mapsto> (v, t))"
    for v :: 'v and t q k q' by (simp add: tokio_impl_def timer_map_insert)
  show "tk_insert tokio_impl now v d q = (k, q') \<Longrightarrow> timer_map q k = None \<and> timer_map q' = (timer_map q)(k \<mapsto> (v, now + d))"
    for now and v :: 'v and d q k q' by (simp add: tokio_impl_def timer_map_insert)
  show "tk_poll tokio_impl now q = (Ready (Some (Ok v)), q') \<Longrightarrow>
      \<exists>k t. timer_map q k = Some (v, t) \<and> t \<le> now \<and> timer_map q' = (timer_map q)(k := None)" for now and v :: 'v and q q'
    by (clarsimp simp: tokio_impl_def split: option.splits if_splits dest!: timer_due_cases(1)) blast
  show "tk_poll tokio_impl now q = (r, q') \<Longrightarrow> r \<in> {Pending, Ready None} \<Longrightarrow>
      timer_map q' = timer_map q \<and> (\<forall>k v t. timer_map q k = Some (v, t) \<longrightarrow> now < t)" for now r and q q' :: "'v timer_list"
    by (auto simp: tokio_impl_def split: option.splits if_splits dest: timer_due_cases)
  show "timer_map q k = Some (v, t) \<Longrightarrow> \<exists>q'. tk_remove tokio_impl k q = Return (v, q') \<and> timer_map q' = (timer_map q)(k := None)"
    for q k and v :: 'v and t by (simp add: tokio_impl_def)
  show "timer_map q k = Some (v, t) \<Longrightarrow> \<exists>q'. tk_reset_at tokio_impl k t' q = Return q' \<and> timer_map q' = (timer_map q)(k \<mapsto> (v, t'))"
    for q k and v :: 'v and t t' by (simp add: tokio_impl_def timer_map_reset)
  show "timer_map q k = Some (v, t) \<Longrightarrow> \<exists>q'. tk_reset tokio_impl now k d q = Return q' \<and> timer_map q' = (timer_map q)(k \<mapsto> (v, now + d))"
    for q k and v :: 'v and t now d by (simp add: tokio_impl_def timer_map_reset)
  show "timer_map (tk_clear tokio_impl q) = Map.empty" for q :: "'v timer_list"
    by (rule ext) (simp add: tokio_impl_def timer_map_def)
  show "timer_map (tk_new tokio_impl) = (Map.empty :: nat \<rightharpoonup> 'v \<times> instant)" by (simp add: tokio_impl_def timer_map_def)
qed (auto simp: tokio_impl_def timer_reset_def split: option.splits if_splits)

section \<open>The stored waker\<close>

definition SavedWaker_new :: waker_store where
  "SavedWaker_new = WakerStore_new"

definition SavedWaker_set :: "waker_store \<Rightarrow> waker \<Rightarrow> waker_store" where
  "SavedWaker_set self cx = self\<lparr>storage := Some cx\<rparr>"

definition SavedWaker_wake :: "waker_store \<Rightarrow> waker_store" where
  "SavedWaker_wake self =
     (case storage self of
        Some waker \<Rightarrow> self\<lparr>storage := None, woken := woken self @ [waker]\<rparr>
      | None \<Rightarrow> self)"

section \<open>The delay queue\<close>

record 'q delay_queue =
  dl_inner :: 'q
  dl_finished :: bool
  dl_waker :: waker_store

datatype 'k delay_key = DelayKey "'k option"

datatype 'v expired = Expired "'v option"

fun Expired_get_ref :: "'v expired \<Rightarrow> 'v outcome" where
  "Expired_get_ref (Expired (Some x)) = Return x"
| "Expired_get_ref (Expired None) = Panic"

definition DelayQueue_new :: "('v, 'k, 'e, 'q) tokio_dq \<Rightarrow> 'q delay_queue" where
  "DelayQueue_new tk = \<lparr>dl_inner = tk_new tk, dl_finished = False, dl_waker = WakerStore_new\<rparr>"

definition DelayQueue_wake_me :: "'q delay_queue \<Rightarrow> 'q delay_queue" where
  "DelayQueue_wake_me self = self\<lparr>dl_waker := SavedWaker_wake (dl_waker self)\<rparr>"

definition DelayQueue_insert_at :: "('v, 'k, 'e, 'q) tokio_dq \<Rightarrow> 'v \<Rightarrow> instant \<Rightarrow> 'q delay_queue \<Rightarrow>
    'k delay_key \<times> 'q delay_queue" where
  "DelayQueue_insert_at tk val t self =
     (if dl_finished self then (DelayKey None, self)
      else (case tk_insert_at tk val t (dl_inner self) of
          (k, inner) \<Rightarrow> (DelayKey (Some k), DelayQueue_wake_me (self\<lparr>dl_inner := inner\<rparr>))))"

definition DelayQueue_insert :: "('v, 'k, 'e, 'q) tokio_dq \<Rightarrow> instant \<Rightarrow> 'v \<Rightarrow> duration \<Rightarrow> 'q delay_queue \<Rightarrow>
    'k delay_key \<times> 'q delay_queue" where
  "DelayQueue_insert tk now val timeout self =
     (if dl_finished self then (DelayKey None, self)
      else (case tk_insert tk now val timeout (dl_inner self) of
          (k, inner) \<Rightarrow> (DelayKey (Some k), DelayQueue_wake_me (self\<lparr>dl_inner := inner\<rparr>))))"

definition DelayQueue_remove :: "('v, 'k, 'e, 'q) tokio_dq \<Rightarrow> 'k delay_key \<Rightarrow> 'q delay_queue \<Rightarrow>
    ('v expired \<times> 'q delay_queue) outcome" where
  "DelayQueue_remove tk key self =
     (if dl_finished self then Return (Expired None, self)
      else case key of
          DelayKey (Some inner_key) \<Rightarrow>
            bind_outcome (tk_remove tk inner_key (dl_inner self)) (\<lambda>(v, inner).
            Return (Expired (Some v), self\<lparr>dl_inner := inner\<rparr>))
        | DelayKey None \<Rightarrow> Return (Expired None, self))"

definition DelayQueue_reset_at :: "('v, 'k, 'e, 'q) tokio_dq \<Rightarrow> 'k delay_key \<Rightarrow> instant \<Rightarrow> 'q delay_queue \<Rightarrow>
    'q delay_queue outcome" where
  "DelayQueue_reset_at tk key t self =
     (if dl_finished self then Return self
      else case key of
          DelayKey (Some inner_key) \<Rightarrow>
            bind_outcome (tk_reset_at tk inner_key t (dl_inner self)) (\<lambda>inner.
            Return (DelayQueue_wake_me (self\<lparr>dl_inner := inner\<rparr>)))
        | DelayKey None \<Rightarrow> Return self)"

definition DelayQueue_reset :: "('v, 'k, 'e, 'q) tokio_dq \<Rightarrow> instant \<Rightarrow> 'k delay_key \<Rightarrow> duration \<Rightarrow> 'q delay_queue \<Rightarrow>
    'q delay_queue outcome" where
  "DelayQueue_reset tk now key timeout self =
     (if dl_finished self then Return self
      else case key of
          DelayKey (Some inner_key) \<Rightarrow>
            bind_outcome (tk_reset tk now inner_key timeout (dl_inner self)) (\<lambda>inner.
            Return (DelayQueue_wake_me (self\<lparr>dl_inner := inner\<rparr>)))
        | DelayKey None \<Rightarrow> Return self)"

definition DelayQueue_clear :: "('v, 'k, 'e, 'q) tokio_dq \<Rightarrow> 'q delay_queue \<Rightarrow> 'q delay_queue" where
  "DelayQueue_clear tk self =
     (if \<not> dl_finished self then DelayQueue_wake_me (self\<lparr>dl_inner := tk_clear tk (dl_inner self)\<rparr>) else self)"

definition DelayQueue_end :: "('v, 'k, 'e, 'q) tokio_dq \<Rightarrow> 'q delay_queue \<Rightarrow> 'q delay_queue" where
  "DelayQueue_end tk self =
     DelayQueue_wake_me (self\<lparr>dl_finished := True, dl_inner := tk_clear tk (dl_inner self)\<rparr>)"

definition DelayQueue_poll_next :: "('v, 'k, 'e, 'q) tokio_dq \<Rightarrow> instant \<Rightarrow> waker \<Rightarrow> 'q delay_queue \<Rightarrow>
    ('v expired, 'e) result option poll \<times> 'q delay_queue" where
  "DelayQueue_poll_next tk now cx self =
     (if dl_finished self then (Ready None, self)
      else
        (let self = self\<lparr>dl_waker := SavedWaker_set (dl_waker self) cx\<rparr>
         in case tk_poll tk now (dl_inner self) of
              (r, inner) \<Rightarrow>
                ((case r of
                    Ready None \<Rightarrow> Pending
                  | Ready (Some (Ok x)) \<Rightarrow> Ready (Some (Ok (Expired (Some x))))
                  | Ready (Some (Err e)) \<Rightarrow> Ready (Some (Err e))
                  | Pending \<Rightarrow> Pending),
                 self\<lparr>dl_inner := inner\<rparr>)))"

section \<open>The cache map\<close>

record ('key, 'val, 'k, 'q) cache_map =
  cm_entries :: "'key \<rightharpoonup> 'val \<times> 'k delay_key"
  cm_expirations :: "'q delay_queue"

definition CacheMap_new :: "('key, 'k, 'e, 'q) tokio_dq \<Rightarrow> ('key, 'val, 'k, 'q) cache_map" where
  "CacheMap_new tk = \<lparr>cm_entries = Map.empty, cm_expirations = DelayQueue_new tk\<rparr>"

definition CacheMap_insert :: "('key, 'k, 'e, 'q) tokio_dq \<Rightarrow> instant \<Rightarrow> 'key \<Rightarrow> 'val \<Rightarrow> duration \<Rightarrow>
    ('key, 'val, 'k, 'q) cache_map \<Rightarrow> ('val option \<times> ('key, 'val, 'k, 'q) cache_map) outcome" where
  "CacheMap_insert tk now key val ttl self =
     (case DelayQueue_insert tk now key ttl (cm_expirations self) of
        (delay, expirations) \<Rightarrow>
          (let old = cm_entries self key;
               self = \<lparr>cm_entries = (cm_entries self)(key \<mapsto> (val, delay)), cm_expirations = expirations\<rparr>
           in case old of
                Some (old_value, old_delay) \<Rightarrow>
                  bind_outcome (DelayQueue_remove tk old_delay (cm_expirations self)) (\<lambda>(_, expirations).
                  Return (Some old_value, self\<lparr>cm_expirations := expirations\<rparr>))
              | None \<Rightarrow> Return (None, self)))"

definition CacheMap_get :: "'key \<Rightarrow> ('key, 'val, 'k, 'q) cache_map \<Rightarrow> 'val option" where
  "CacheMap_get key self = map_option fst (cm_entries self key)"

definition CacheMap_remove :: "('key, 'k, 'e, 'q) tokio_dq \<Rightarrow> 'key \<Rightarrow> ('key, 'val, 'k, 'q) cache_map \<Rightarrow>
    ('val option \<times> ('key, 'val, 'k, 'q) cache_map) outcome" where
  "CacheMap_remove tk key self =
     (let old = cm_entries self key;
          self = self\<lparr>cm_entries := (cm_entries self)(key := None)\<rparr>
      in case old of
           Some (val, delay) \<Rightarrow>
             bind_outcome (DelayQueue_remove tk delay (cm_expirations self)) (\<lambda>(_, expirations).
             Return (Some val, self\<lparr>cm_expirations := expirations\<rparr>))
         | None \<Rightarrow> Return (None, self))"

text \<open>
  The loop of \<^verbatim>\<open>poll\<close> ends when the delay queue has nothing to yield.  It takes fuel, since a
  timer that has been shut down answers every poll with an error: \<open>None\<close> is a loop that is still
  running.
\<close>

fun CacheMap_poll :: "nat \<Rightarrow> ('key, 'k, 'e, 'q) tokio_dq \<Rightarrow> instant \<Rightarrow> waker \<Rightarrow> ('key, 'val, 'k, 'q) cache_map \<Rightarrow>
    (unit poll \<times> ('key, 'val, 'k, 'q) cache_map) outcome option" where
  "CacheMap_poll 0 tk now cx self = None"
| "CacheMap_poll (Suc fuel) tk now cx self =
     (case DelayQueue_poll_next tk now cx (cm_expirations self) of
        (r, expirations) \<Rightarrow>
          (let self = self\<lparr>cm_expirations := expirations\<rparr>
           in case r of
                Pending \<Rightarrow> Some (Return (Pending, self))
              | Ready None \<Rightarrow> Some (Return (Ready (), self))
              | Ready (Some (Ok entry)) \<Rightarrow>
                  (case Expired_get_ref entry of
                     Panic \<Rightarrow> Some Panic
                   | Return key \<Rightarrow> CacheMap_poll fuel tk now cx (self\<lparr>cm_entries := (cm_entries self)(key := None)\<rparr>))
              | Ready (Some (Err e)) \<Rightarrow> CacheMap_poll fuel tk now cx self))"

definition CacheMap_drop :: "('key, 'k, 'e, 'q) tokio_dq \<Rightarrow> ('key, 'val, 'k, 'q) cache_map \<Rightarrow> ('key, 'val, 'k, 'q) cache_map" where
  "CacheMap_drop tk self = self\<lparr>cm_expirations := DelayQueue_end tk (cm_expirations self)\<rparr>"

section \<open>Timers of a delay queue\<close>

definition live_timers :: "('q \<Rightarrow> 'k \<rightharpoonup> 'v \<times> instant) \<Rightarrow> 'q delay_queue \<Rightarrow> 'k \<rightharpoonup> 'v \<times> instant" where
  "live_timers timers dl = timers (dl_inner dl)"

lemma wake_me_simps [simp]:
  "dl_finished (DelayQueue_wake_me dl) = dl_finished dl" "dl_inner (DelayQueue_wake_me dl) = dl_inner dl"
  "live_timers timers (DelayQueue_wake_me dl) = live_timers timers dl"
  by (simp_all add: DelayQueue_wake_me_def live_timers_def)

context tokio_delay_queue
begin

lemma DelayQueue_new_timers [simp]:
  "live_timers timers (DelayQueue_new tk) = Map.empty" "\<not> dl_finished (DelayQueue_new tk)"
  by (simp_all add: DelayQueue_new_def live_timers_def tk_new)

lemma DelayQueue_inserted:
  assumes "\<not> dl_finished dl"
  obtains k dl' where "DelayQueue_insert tk now v d dl = (DelayKey (Some k), dl')" "live_timers timers dl k = None"
    "live_timers timers dl' = (live_timers timers dl)(k \<mapsto> (v, now + d))" "\<not> dl_finished dl'"
proof -
  obtain k inner where k: "tk_insert tk now v d (dl_inner dl) = (k, inner)" by (cases "tk_insert tk now v d (dl_inner dl)")
  have "DelayQueue_insert tk now v d dl = (DelayKey (Some k), DelayQueue_wake_me (dl\<lparr>dl_inner := inner\<rparr>))"
    using assms by (simp add: DelayQueue_insert_def k)
  then show thesis using that tk_insert [OF k] assms by (simp add: live_timers_def)
qed

lemma DelayQueue_removed:
  assumes "\<not> dl_finished dl" "live_timers timers dl k = Some (v, t)"
  obtains dl' where "DelayQueue_remove tk (DelayKey (Some k)) dl = Return (Expired (Some v), dl')"
    "live_timers timers dl' = (live_timers timers dl)(k := None)" "\<not> dl_finished dl'"
proof -
  obtain inner where "tk_remove tk k (dl_inner dl) = Return (v, inner)" "timers inner = (timers (dl_inner dl))(k := None)"
    using tk_remove [of "dl_inner dl" k v t] assms(2) by (auto simp: live_timers_def)
  then show thesis using that assms(1) by (simp add: DelayQueue_remove_def live_timers_def)
qed

lemma DelayQueue_reset_running:
  assumes "\<not> dl_finished dl" "live_timers timers dl k = Some (v, t)"
  obtains dl' where "DelayQueue_reset tk now (DelayKey (Some k)) d dl = Return dl'"
    "live_timers timers dl' = (live_timers timers dl)(k \<mapsto> (v, now + d))" "\<not> dl_finished dl'"
proof -
  obtain inner where "tk_reset tk now k d (dl_inner dl) = Return inner"
      "timers inner = (timers (dl_inner dl))(k \<mapsto> (v, now + d))"
    using tk_reset [of "dl_inner dl" k v t now d] assms(2) by (auto simp: live_timers_def)
  then show thesis
    by (intro that [of "DelayQueue_wake_me (dl\<lparr>dl_inner := inner\<rparr>)"])
      (simp_all add: assms(1) DelayQueue_reset_def live_timers_def fun_upd_def)
qed

lemma DelayQueue_polled:
  assumes "\<not> dl_finished dl" "DelayQueue_poll_next tk now cx dl = (r, dl')"
  shows "\<not> dl_finished dl'" and
    "(case r of
        Ready (Some (Ok e)) \<Rightarrow> \<exists>v k t. e = Expired (Some v) \<and> live_timers timers dl k = Some (v, t) \<and> t \<le> now \<and>
          live_timers timers dl' = (live_timers timers dl)(k := None)
      | Ready (Some (Err e)) \<Rightarrow> live_timers timers dl' = live_timers timers dl
      | Ready None \<Rightarrow> False
      | Pending \<Rightarrow> live_timers timers dl' = live_timers timers dl \<and>
          (\<forall>k v t. live_timers timers dl k = Some (v, t) \<longrightarrow> now < t))"
proof -
  obtain s inner where s: "tk_poll tk now (dl_inner dl) = (s, inner)" by (cases "tk_poll tk now (dl_inner dl)")
  show "\<not> dl_finished dl'" using assms by (auto simp: DelayQueue_poll_next_def s)
  have dl': "dl_inner dl' = inner" using assms by (auto simp: DelayQueue_poll_next_def s)
  show "case r of
        Ready (Some (Ok e)) \<Rightarrow> \<exists>v k t. e = Expired (Some v) \<and> live_timers timers dl k = Some (v, t) \<and> t \<le> now \<and>
          live_timers timers dl' = (live_timers timers dl)(k := None)
      | Ready (Some (Err e)) \<Rightarrow> live_timers timers dl' = live_timers timers dl
      | Ready None \<Rightarrow> False
      | Pending \<Rightarrow> live_timers timers dl' = live_timers timers dl \<and>
          (\<forall>k v t. live_timers timers dl k = Some (v, t) \<longrightarrow> now < t)"
  proof (cases s)
    case Pending
    then show ?thesis using assms tk_poll_nothing [OF s] dl' by (simp add: DelayQueue_poll_next_def live_timers_def s)
  next
    case (Ready x)
    show ?thesis
    proof (cases x)
      case None
      then show ?thesis using Ready assms tk_poll_nothing [OF s] dl'
        by (simp add: DelayQueue_poll_next_def live_timers_def s)
    next
      case (Some y)
      show ?thesis
      proof (cases y)
        case (Inl e)
        then show ?thesis using Some Ready assms s dl' tk_poll_error [of now "dl_inner dl" e inner]
          by (auto simp: DelayQueue_poll_next_def live_timers_def)
      next
        case (Inr v)
        then obtain k t where "timers (dl_inner dl) k = Some (v, t)" "t \<le> now"
            "timers inner = (timers (dl_inner dl))(k := None)"
          using tk_poll_value [of now "dl_inner dl" v inner] s Some Ready by blast
        moreover have "r = Ready (Some (Ok (Expired (Some v))))"
          using Inr Some Ready assms s by (simp add: DelayQueue_poll_next_def)
        ultimately show ?thesis using dl' unfolding live_timers_def by auto
      qed
    qed
  qed
qed

end

section \<open>What the cache map means\<close>

text \<open>A map from keys to values with the time until which they are kept.\<close>

type_synonym ('key, 'val) cache_spec = "'key \<rightharpoonup> 'val \<times> instant"

datatype ('key, 'val) cache_op = CacheOp_Insert 'key 'val duration | CacheOp_Get 'key | CacheOp_Remove 'key | CacheOp_Poll waker

datatype 'val cache_answer = CacheAnswer_Value "'val option" | CacheAnswer_Poll "unit poll"

fun spec_step :: "instant \<Rightarrow> ('key, 'val) cache_op \<Rightarrow> ('key, 'val) cache_spec \<Rightarrow> 'val cache_answer \<times> ('key, 'val) cache_spec" where
  "spec_step now (CacheOp_Insert key val ttl) m = (CacheAnswer_Value (map_option fst (m key)), m(key \<mapsto> (val, now + ttl)))"
| "spec_step now (CacheOp_Get key) m = (CacheAnswer_Value (map_option fst (m key)), m)"
| "spec_step now (CacheOp_Remove key) m = (CacheAnswer_Value (map_option fst (m key)), m(key := None))"
| "spec_step now (CacheOp_Poll cx) m =
    (CacheAnswer_Poll Pending, \<lambda>key. case m key of Some (val, t) \<Rightarrow> if now < t then Some (val, t) else None | None \<Rightarrow> None)"

fun spec_run :: "(instant \<times> ('key, 'val) cache_op) list \<Rightarrow> ('key, 'val) cache_spec \<Rightarrow> 'val cache_answer list" where
  "spec_run [] m = []"
| "spec_run ((now, op) # ops) m = (case spec_step now op m of (a, m') \<Rightarrow> a # spec_run ops m')"

text \<open>The operations of the code; \<open>fuel\<close> bounds the loop of each poll.\<close>

fun cache_step :: "nat \<Rightarrow> ('key, 'k, 'e, 'q) tokio_dq \<Rightarrow> instant \<Rightarrow> ('key, 'val) cache_op \<Rightarrow> ('key, 'val, 'k, 'q) cache_map \<Rightarrow>
    ('val cache_answer \<times> ('key, 'val, 'k, 'q) cache_map) outcome option" where
  "cache_step fuel tk now (CacheOp_Insert key val ttl) cm =
     Some (bind_outcome (CacheMap_insert tk now key val ttl cm) (\<lambda>(v, cm). Return (CacheAnswer_Value v, cm)))"
| "cache_step fuel tk now (CacheOp_Get key) cm = Some (Return (CacheAnswer_Value (CacheMap_get key cm), cm))"
| "cache_step fuel tk now (CacheOp_Remove key) cm =
     Some (bind_outcome (CacheMap_remove tk key cm) (\<lambda>(v, cm). Return (CacheAnswer_Value v, cm)))"
| "cache_step fuel tk now (CacheOp_Poll cx) cm =
     map_option (\<lambda>m. bind_outcome m (\<lambda>(r, cm). Return (CacheAnswer_Poll r, cm))) (CacheMap_poll fuel tk now cx cm)"

fun cache_run :: "nat \<Rightarrow> ('key, 'k, 'e, 'q) tokio_dq \<Rightarrow> (instant \<times> ('key, 'val) cache_op) list \<Rightarrow> ('key, 'val, 'k, 'q) cache_map \<Rightarrow>
    'val cache_answer list outcome option" where
  "cache_run fuel tk [] cm = Some (Return [])"
| "cache_run fuel tk ((now, op) # ops) cm =
     (case cache_step fuel tk now op cm of
        None \<Rightarrow> None
      | Some Panic \<Rightarrow> Some Panic
      | Some (Return (a, cm)) \<Rightarrow> map_option (\<lambda>m. bind_outcome m (\<lambda>as. Return (a # as))) (cache_run fuel tk ops cm))"

text \<open>The entries and the timers are in one-to-one correspondence.\<close>

definition represents :: "('q \<Rightarrow> 'k \<rightharpoonup> 'key \<times> instant) \<Rightarrow> ('key, 'val, 'k, 'q) cache_map \<Rightarrow> ('key, 'val) cache_spec \<Rightarrow> bool" where
  "represents timers cm m \<longleftrightarrow>
     \<not> dl_finished (cm_expirations cm) \<and>
     dom (cm_entries cm) = dom m \<and>
     (\<forall>key val t. m key = Some (val, t) \<longrightarrow>
       (\<exists>k. cm_entries cm key = Some (val, DelayKey (Some k)) \<and>
         live_timers timers (cm_expirations cm) k = Some (key, t))) \<and>
     (\<forall>k key t. live_timers timers (cm_expirations cm) k = Some (key, t) \<longrightarrow>
       (\<exists>val. cm_entries cm key = Some (val, DelayKey (Some k)) \<and> m key = Some (val, t)))"

context tokio_delay_queue
begin

lemma represents_get: "represents timers cm m \<Longrightarrow> CacheMap_get key cm = map_option fst (m key)"
  unfolding represents_def CacheMap_get_def by (cases "m key") (force simp: dom_def)+

lemma represents_entry:
  "represents timers cm m \<Longrightarrow> m key = Some (val, t) \<Longrightarrow>
    \<exists>k. cm_entries cm key = Some (val, DelayKey (Some k)) \<and> live_timers timers (cm_expirations cm) k = Some (key, t)"
  unfolding represents_def by blast

lemma represents_live:
  "represents timers cm m \<Longrightarrow> live_timers timers (cm_expirations cm) k = Some (key, t) \<Longrightarrow>
    \<exists>val. cm_entries cm key = Some (val, DelayKey (Some k)) \<and> m key = Some (val, t)"
  unfolding represents_def by blast

lemma represents_put:
  assumes rep: "represents timers cm m" and "\<not> dl_finished dl"
    and T: "\<And>k' key' t'. live_timers timers dl k' = Some (key', t') \<longleftrightarrow>
      (if k' = k then key' = key \<and> t' = t else key' \<noteq> key \<and> live_timers timers (cm_expirations cm) k' = Some (key', t'))"
    and fresh: "live_timers timers (cm_expirations cm) k = None"
  shows "represents timers \<lparr>cm_entries = (cm_entries cm)(key \<mapsto> (val, DelayKey (Some k))), cm_expirations = dl\<rparr>
    (m(key \<mapsto> (val, t)))"
  unfolding represents_def cache_map.simps
proof (intro conjI allI impI)
  show "dom ((cm_entries cm)(key \<mapsto> (val, DelayKey (Some k)))) = dom (m(key \<mapsto> (val, t)))"
    using rep by (simp add: represents_def)
  fix key' val' t' assume kept: "(m(key \<mapsto> (val, t))) key' = Some (val', t')"
  show "\<exists>k'. ((cm_entries cm)(key \<mapsto> (val, DelayKey (Some k)))) key' = Some (val', DelayKey (Some k')) \<and>
      live_timers timers dl k' = Some (key', t')"
  proof (cases "key' = key")
    case False
    then obtain k' where "cm_entries cm key' = Some (val', DelayKey (Some k'))"
        "live_timers timers (cm_expirations cm) k' = Some (key', t')"
      using represents_entry [OF rep, of key' val' t'] kept by auto
    then show ?thesis using False T [of k' key' t'] fresh by auto
  qed (use kept T [of k key t] in simp)
next
  fix k' key' t' assume "live_timers timers dl k' = Some (key', t')"
  then show "\<exists>val'. ((cm_entries cm)(key \<mapsto> (val, DelayKey (Some k)))) key' = Some (val', DelayKey (Some k')) \<and>
      (m(key \<mapsto> (val, t))) key' = Some (val', t')"
    using T [of k' key' t'] rep unfolding represents_def by (auto split: if_splits)
qed (use assms(2) in simp)

lemma represents_delete:
  assumes rep: "represents timers cm m" and "\<not> dl_finished dl"
    and T: "\<And>k' key' t'. live_timers timers dl k' = Some (key', t') \<longleftrightarrow>
      key' \<noteq> key \<and> live_timers timers (cm_expirations cm) k' = Some (key', t')"
  shows "represents timers \<lparr>cm_entries = (cm_entries cm)(key := None), cm_expirations = dl\<rparr> (m(key := None))"
  unfolding represents_def cache_map.simps
proof (intro conjI allI impI)
  show "dom ((cm_entries cm)(key := None)) = dom (m(key := None))" using rep by (simp add: represents_def)
  fix key' val' t' assume "(m(key := None)) key' = Some (val', t')"
  then have "key' \<noteq> key" "m key' = Some (val', t')" by (auto split: if_splits)
  then show "\<exists>k'. ((cm_entries cm)(key := None)) key' = Some (val', DelayKey (Some k')) \<and>
      live_timers timers dl k' = Some (key', t')"
    using rep T unfolding represents_def by fastforce
next
  fix k' key' t' assume "live_timers timers dl k' = Some (key', t')"
  then have "key' \<noteq> key" "live_timers timers (cm_expirations cm) k' = Some (key', t')" using T by blast+
  then show "\<exists>val'. ((cm_entries cm)(key := None)) key' = Some (val', DelayKey (Some k')) \<and> (m(key := None)) key' = Some (val', t')"
    using rep unfolding represents_def by auto
qed (use assms(2) in simp)

text \<open>The timer of an entry is the only one with its key.\<close>

lemma represents_timer:
  assumes "represents timers cm m" "cm_entries cm key = Some (val, DelayKey (Some k))"
  shows "live_timers timers (cm_expirations cm) k' = Some (key, t') \<Longrightarrow> k' = k"
  using assms unfolding represents_def by fastforce

lemma represents_others:
  assumes "represents timers cm m" "cm_entries cm key = Some (val, DelayKey (Some k))"
    and "live_timers timers (cm_expirations cm) k = Some (key, t)"
  shows "((live_timers timers (cm_expirations cm))(k := None)) k' = Some (key', t') \<longleftrightarrow>
    key' \<noteq> key \<and> live_timers timers (cm_expirations cm) k' = Some (key', t')"
  using represents_timer [OF assms(1,2), of k' t'] assms(3) by (cases "k' = k") auto

lemma live_finite [simp]: "finite (dom (live_timers timers dl))"
  unfolding live_timers_def by (rule tk_finite)

lemma represents_insert:
  assumes rep: "represents timers cm m"
  obtains cm' where "CacheMap_insert tk now key val ttl cm = Return (map_option fst (m key), cm')"
    "represents timers cm' (m(key \<mapsto> (val, now + ttl)))"
    "card (dom (live_timers timers (cm_expirations cm'))) \<le> Suc (card (dom (live_timers timers (cm_expirations cm))))"
proof -
  have running: "\<not> dl_finished (cm_expirations cm)" using rep by (simp add: represents_def)
  obtain k dl where dl: "DelayQueue_insert tk now key ttl (cm_expirations cm) = (DelayKey (Some k), dl)"
    "live_timers timers (cm_expirations cm) k = None"
    "live_timers timers dl = (live_timers timers (cm_expirations cm))(k \<mapsto> (key, now + ttl))" "\<not> dl_finished dl"
    using DelayQueue_inserted [OF running] .
  show thesis
  proof (cases "m key")
    case None
    then have fresh: "cm_entries cm key = None" using rep by (auto simp: represents_def)
    show thesis
    proof (rule that)
      show "CacheMap_insert tk now key val ttl cm = Return (map_option fst (m key),
          \<lparr>cm_entries = (cm_entries cm)(key \<mapsto> (val, DelayKey (Some k))), cm_expirations = dl\<rparr>)"
        by (simp add: CacheMap_insert_def dl(1) fresh None)
      show "represents timers \<lparr>cm_entries = (cm_entries cm)(key \<mapsto> (val, DelayKey (Some k))), cm_expirations = dl\<rparr>
          (m(key \<mapsto> (val, now + ttl)))"
      proof (rule represents_put [OF rep dl(4) _ dl(2)])
        show "live_timers timers dl k' = Some (key', t') \<longleftrightarrow> (if k' = k then key' = key \<and> t' = now + ttl
            else key' \<noteq> key \<and> live_timers timers (cm_expirations cm) k' = Some (key', t'))" for k' key' t'
          using represents_live [OF rep, of k' key t'] fresh by (auto simp: dl(3))
      qed
    qed (simp add: dl(2,3) card_insert_if)
  next
    case (Some old)
    obtain val0 t0 where "old = (val0, t0)" by (cases old)
    with Some rep obtain k0 where k0: "cm_entries cm key = Some (val0, DelayKey (Some k0))"
      "live_timers timers (cm_expirations cm) k0 = Some (key, t0)"
      unfolding represents_def by blast
    have other: "k0 \<noteq> k" using k0(2) dl(2) by auto
    then have "live_timers timers dl k0 = Some (key, t0)" using k0 dl(3) by simp
    then obtain dl' where dl': "DelayQueue_remove tk (DelayKey (Some k0)) dl = Return (Expired (Some key), dl')"
      "live_timers timers dl' = (live_timers timers dl)(k0 := None)" "\<not> dl_finished dl'"
      using DelayQueue_removed [OF dl(4)] by blast
    show thesis
    proof (rule that)
      show "CacheMap_insert tk now key val ttl cm = Return (map_option fst (m key),
          \<lparr>cm_entries = (cm_entries cm)(key \<mapsto> (val, DelayKey (Some k))), cm_expirations = dl'\<rparr>)"
        by (simp add: CacheMap_insert_def dl(1) k0(1) dl'(1) Some \<open>old = (val0, t0)\<close>)
      show "represents timers \<lparr>cm_entries = (cm_entries cm)(key \<mapsto> (val, DelayKey (Some k))), cm_expirations = dl'\<rparr>
          (m(key \<mapsto> (val, now + ttl)))"
      proof (rule represents_put [OF rep dl'(3) _ dl(2)])
        show "live_timers timers dl' k' = Some (key', t') \<longleftrightarrow> (if k' = k then key' = key \<and> t' = now + ttl
            else key' \<noteq> key \<and> live_timers timers (cm_expirations cm) k' = Some (key', t'))" for k' key' t'
          using represents_others [OF rep k0, of k' key' t'] other by (auto simp: dl(3) dl'(2))
      qed
    qed (simp add: dl(2,3) dl'(2) card_insert_if card_Diff_singleton_if le_SucI)
  qed
qed

lemma represents_remove:
  assumes rep: "represents timers cm m"
  obtains cm' where "CacheMap_remove tk key cm = Return (map_option fst (m key), cm')"
    "represents timers cm' (m(key := None))"
    "card (dom (live_timers timers (cm_expirations cm'))) \<le> card (dom (live_timers timers (cm_expirations cm)))"
proof (cases "m key")
  case None
  then have fresh: "cm_entries cm key = None" using rep by (auto simp: represents_def)
  show thesis
  proof (rule that)
    show "CacheMap_remove tk key cm = Return (map_option fst (m key), cm)"
      using fresh None by (simp add: CacheMap_remove_def Let_def fun_upd_idem)
    show "represents timers cm (m(key := None))" using rep None by (simp only: fun_upd_idem)
  qed simp
next
  case (Some old)
  obtain val0 t0 where old: "old = (val0, t0)" by (cases old)
  then obtain k0 where k0: "cm_entries cm key = Some (val0, DelayKey (Some k0))"
      "live_timers timers (cm_expirations cm) k0 = Some (key, t0)"
    using represents_entry [OF rep] Some by blast
  have running: "\<not> dl_finished (cm_expirations cm)" using rep by (simp add: represents_def)
  obtain dl' where dl': "DelayQueue_remove tk (DelayKey (Some k0)) (cm_expirations cm) = Return (Expired (Some key), dl')"
      "live_timers timers dl' = (live_timers timers (cm_expirations cm))(k0 := None)" "\<not> dl_finished dl'"
    using DelayQueue_removed [OF running k0(2)] by blast
  show thesis
  proof (rule that)
    show "CacheMap_remove tk key cm = Return (map_option fst (m key),
        \<lparr>cm_entries = (cm_entries cm)(key := None), cm_expirations = dl'\<rparr>)"
      using k0(1) Some old dl'(1) by (simp add: CacheMap_remove_def)
    show "represents timers \<lparr>cm_entries = (cm_entries cm)(key := None), cm_expirations = dl'\<rparr> (m(key := None))"
      by (rule represents_delete [OF rep dl'(3)]) (simp only: dl'(2) represents_others [OF rep k0])
  qed (simp add: dl'(2) card_Diff_singleton_if)
qed

end

context tokio_running
begin

lemma DelayQueue_no_error: "DelayQueue_poll_next tk now cx dl \<noteq> (Ready (Some (Err e)), dl')"
  using tk_no_error
  by (auto simp: DelayQueue_poll_next_def Let_def split: if_splits prod.splits poll.splits option.splits sum.splits)

lemma represents_poll:
  assumes "represents timers cm m" "card (dom (live_timers timers (cm_expirations cm))) < fuel"
  shows "\<exists>cm'. CacheMap_poll fuel tk now cx cm = Some (Return (Pending, cm')) \<and>
    represents timers cm' (snd (spec_step now (CacheOp_Poll cx) m)) \<and>
    card (dom (live_timers timers (cm_expirations cm'))) \<le> card (dom (live_timers timers (cm_expirations cm)))"
  using assms
proof (induction fuel arbitrary: cm m)
  case (Suc fuel)
  obtain r dl where dl: "DelayQueue_poll_next tk now cx (cm_expirations cm) = (r, dl)" by (cases "DelayQueue_poll_next tk now cx (cm_expirations cm)")
  have running: "\<not> dl_finished (cm_expirations cm)" using Suc.prems(1) by (simp add: represents_def)
  note polled = DelayQueue_polled [OF running dl]
  have no_error: "r \<noteq> Ready (Some (Err e))" for e
    using dl DelayQueue_no_error by blast
  show ?case
  proof (cases r)
    case Pending
    have due: "now < t" if "m key = Some (val, t)" for key val t
      using represents_entry [OF Suc.prems(1) that] polled(2) Pending by auto
    have "snd (spec_step now (CacheOp_Poll cx) m) = m"
      by (rule ext) (auto simp: due split: option.splits)
    moreover have "represents timers (cm\<lparr>cm_expirations := dl\<rparr>) m"
      using Suc.prems(1) polled Pending by (simp add: represents_def)
    ultimately show ?thesis using dl Pending polled(2) by simp
  next
    case (Ready x)
    then obtain e where e: "x = Some (Ok e)" using polled(2) no_error by (cases x; cases "the x") auto
    then obtain key k t where timer: "e = Expired (Some key)" "live_timers timers (cm_expirations cm) k = Some (key, t)" "t \<le> now"
        "live_timers timers dl = (live_timers timers (cm_expirations cm))(k := None)"
      using polled(2) Ready by auto
    then obtain val where val: "cm_entries cm key = Some (val, DelayKey (Some k))" "m key = Some (val, t)"
      using represents_live [OF Suc.prems(1)] by blast
    let ?cm = "\<lparr>cm_entries = (cm_entries cm)(key := None), cm_expirations = dl\<rparr>"
    have rep: "represents timers ?cm (m(key := None))"
      by (rule represents_delete [OF Suc.prems(1) polled(1)])
        (simp only: timer(4) represents_others [OF Suc.prems(1) val(1) timer(2)])
    have "card (dom (live_timers timers dl)) < card (dom (live_timers timers (cm_expirations cm)))"
      using timer(2) unfolding timer(4) dom_fun_upd option.simps if_True simp_thms
      by (intro card_Diff1_less live_finite) (simp add: domI)
    moreover have "snd (spec_step now (CacheOp_Poll cx) (m(key := None))) = snd (spec_step now (CacheOp_Poll cx) m)"
      using val(2) timer(3) by (auto intro!: ext)
    moreover have "CacheMap_poll (Suc fuel) tk now cx cm = CacheMap_poll fuel tk now cx ?cm"
      using dl Ready e timer(1) by (cases cm) simp
    ultimately show ?thesis using Suc.IH [OF rep] Suc.prems(2) by fastforce
  qed
qed simp

lemma represents_run:
  assumes "represents timers cm m" "card (dom (live_timers timers (cm_expirations cm))) + length ops < fuel"
  shows "cache_run fuel tk ops cm = Some (Return (spec_run ops m))"
  using assms
proof (induction ops arbitrary: cm m)
  case (Cons p ops)
  obtain now op where p: "p = (now, op)" by (cases p)
  obtain cm' where "cache_step fuel tk now op cm = Some (Return (fst (spec_step now op m), cm'))"
    "represents timers cm' (snd (spec_step now op m))"
    "card (dom (live_timers timers (cm_expirations cm'))) \<le> Suc (card (dom (live_timers timers (cm_expirations cm))))"
  proof (cases op)
    case (CacheOp_Insert key val ttl)
    then show thesis using represents_insert [OF Cons.prems(1), of now key val ttl] that by fastforce
  next
    case (CacheOp_Get key)
    then show thesis using represents_get [OF Cons.prems(1), of key] that Cons.prems(1) by fastforce
  next
    case (CacheOp_Remove key)
    then show thesis using represents_remove [OF Cons.prems(1), of key] that by (fastforce simp: le_Suc_eq)
  next
    case (CacheOp_Poll cx)
    then show thesis using represents_poll [OF Cons.prems(1), of fuel now cx] that Cons.prems(2) by (fastforce simp: le_Suc_eq)
  qed
  with Cons.IH [of cm' "snd (spec_step now op m)"] Cons.prems(2) show ?case
    by (simp add: p split: prod.splits)
qed simp

end

section \<open>Theorems\<close>

text \<open>C24. The cache map is a map whose entries expire: in every sequence of insertions, look-ups,
  removals and polls, at any times, it answers as a map that keeps each value until its time has passed and
  forgets the expired ones when it is polled.  No operation panics and every poll ends.\<close>

theorem CacheMap_refines_expiring_map:
  fixes tk :: "('key, 'k, 'e, 'q) tokio_dq" and ops :: "(instant \<times> ('key, 'val) cache_op) list"
  assumes "tokio_running tk timers" "length ops < fuel"
  shows "cache_run fuel tk ops (CacheMap_new tk) = Some (Return (spec_run ops Map.empty))"
proof -
  have dq: "tokio_delay_queue tk timers" using assms(1) by (simp add: tokio_running_def)
  have new: "live_timers timers (cm_expirations (CacheMap_new tk :: ('key, 'val, 'k, 'q) cache_map)) = Map.empty"
    by (simp add: CacheMap_new_def tokio_delay_queue.DelayQueue_new_timers [OF dq])
  moreover have "represents timers (CacheMap_new tk :: ('key, 'val, 'k, 'q) cache_map) Map.empty"
    using new by (simp add: represents_def CacheMap_new_def tokio_delay_queue.DelayQueue_new_timers [OF dq])
  ultimately show ?thesis
    using tokio_running.represents_run [OF assms(1), of "CacheMap_new tk" Map.empty ops fuel] assms(2) by simp
qed

theorem CacheMap_refines_expiring_map_witness:
  "cache_run 6 tokio_impl [(0, CacheOp_Insert ''a'' (1 :: nat) 10), (1, CacheOp_Insert ''b'' 2 4), (2, CacheOp_Insert ''a'' 3 10),
      (11, CacheOp_Poll (Waker 0)), (11, CacheOp_Get ''a'')] (CacheMap_new tokio_impl) =
    Some (Return [CacheAnswer_Value None, CacheAnswer_Value None, CacheAnswer_Value (Some 1), CacheAnswer_Poll Pending,
      CacheAnswer_Value (Some 3)])"
  by (subst CacheMap_refines_expiring_map [OF tokio_impl.tokio_running_axioms]) simp_all

end
