(* ===== verification/Old_Queue.thy ===== *)
theory Old_Queue
  imports Old_Frame Delay_Queue
begin

text \<open>
  The transmit queue of the earlier stack: the queue of one device
  (\<^verbatim>\<open>old_src/ieee802154/mac/device_queue.rs\<close>) and the queue of all devices with its timers
  (\<^verbatim>\<open>old_src/ieee802154/mac/queue.rs\<close>).  Resolving a request is recorded: an operation on one
  device returns the answers it sent, the queue keeps their history.
\<close>

section \<open>The queue of one device\<close>

datatype old_queue_error = OQ_DataRequestTimeout | OQ_RetryLimitReached | OQ_ChannelDropped

type_synonym queue_answer = "nat \<times> (unit, old_queue_error) result"

text \<open>The callback is the identity of the oneshot channel.\<close>

record queue_item =
  qi_frame :: mac_frame
  qi_wait_for_datarequest :: bool
  qi_max_wait_for_datarequest :: "duration option"
  qi_retries :: usize
  qi_callback :: nat

datatype device_state =
    DS_Idle
  | DS_WaitingForDataRequest queue_item "queue_item list"
  | DS_SendStarted queue_item "queue_item list" "u8 option"
  | DS_WaitingForAck queue_item "queue_item list" u8

datatype device_action = DA_StartTimer duration | DA_StopTimer | DA_StopTimerStartSend mac_frame

type_synonym device_result = "device_state \<times> device_action option \<times> queue_answer list"

definition DeviceQueueItem_new :: "nat \<Rightarrow> mac_frame \<Rightarrow> bool \<Rightarrow> duration option \<Rightarrow> usize \<Rightarrow> queue_item" where
  "DeviceQueueItem_new channel frame receiver_on max_wait_for_datarequest retries =
     \<lparr>qi_frame = frame, qi_wait_for_datarequest = (\<not> receiver_on),
      qi_max_wait_for_datarequest = max_wait_for_datarequest, qi_retries = retries, qi_callback = channel\<rparr>"

fun OldDeviceQueue_is_idle :: "device_state \<Rightarrow> bool" where
  "OldDeviceQueue_is_idle DS_Idle = True"
| "OldDeviceQueue_is_idle _ = False"

definition OldDeviceQueue_start_send :: "queue_item \<Rightarrow> queue_item list \<Rightarrow> device_state \<times> device_action option" where
  "OldDeviceQueue_start_send front queue =
     (if \<not> qi_wait_for_datarequest front then
        (DS_SendStarted front queue (MacFrame_expect_ack (qi_frame front)), Some (DA_StopTimerStartSend (qi_frame front)))
      else
        (DS_WaitingForDataRequest front queue, map_option DA_StartTimer (qi_max_wait_for_datarequest front)))"

definition OldDeviceQueue_restart_from_queue :: "queue_item list \<Rightarrow> device_state \<times> device_action option" where
  "OldDeviceQueue_restart_from_queue queue =
     (case queue of
        front # queue \<Rightarrow> OldDeviceQueue_start_send front queue
      | [] \<Rightarrow> (DS_Idle, Some DA_StopTimer))"

definition answered :: "queue_answer list \<Rightarrow> device_state \<times> device_action option \<Rightarrow> device_result" where
  "answered answers r = (fst r, snd r, answers)"

definition OldDeviceQueue_retry_send :: "queue_item \<Rightarrow> queue_item list \<Rightarrow> device_result" where
  "OldDeviceQueue_retry_send front queue =
     (if qi_retries front < 1 then
        answered [(qi_callback front, Err OQ_RetryLimitReached)] (OldDeviceQueue_restart_from_queue queue)
      else answered [] (OldDeviceQueue_start_send (front\<lparr>qi_retries := qi_retries front - 1\<rparr>) queue))"

fun OldDeviceQueue_enqueue :: "device_state \<Rightarrow> queue_item \<Rightarrow> device_result" where
  "OldDeviceQueue_enqueue DS_Idle item = answered [] (OldDeviceQueue_start_send item [])"
| "OldDeviceQueue_enqueue (DS_WaitingForDataRequest front queue) item =
     (DS_WaitingForDataRequest front (queue @ [item]), None, [])"
| "OldDeviceQueue_enqueue (DS_SendStarted front queue wait_for_ack) item =
     (DS_SendStarted front (queue @ [item]) wait_for_ack, None, [])"
| "OldDeviceQueue_enqueue (DS_WaitingForAck front queue wait_for_ack) item =
     (DS_WaitingForAck front (queue @ [item]) wait_for_ack, None, [])"

fun OldDeviceQueue_on_timer :: "device_state \<Rightarrow> device_result" where
  "OldDeviceQueue_on_timer (DS_WaitingForDataRequest front queue) =
     answered [(qi_callback front, Err OQ_DataRequestTimeout)] (OldDeviceQueue_restart_from_queue queue)"
| "OldDeviceQueue_on_timer (DS_WaitingForAck front queue _) = OldDeviceQueue_retry_send front queue"
| "OldDeviceQueue_on_timer x = (x, None, [])"

fun OldDeviceQueue_on_data_request :: "device_state \<Rightarrow> device_result" where
  "OldDeviceQueue_on_data_request (DS_WaitingForDataRequest front queue) =
     (DS_SendStarted front queue (MacFrame_expect_ack (qi_frame front)),
      Some (DA_StopTimerStartSend (qi_frame front)), [])"
| "OldDeviceQueue_on_data_request x = (x, None, [])"

fun OldDeviceQueue_on_send_result :: "device_state \<Rightarrow> bool \<Rightarrow> device_result" where
  "OldDeviceQueue_on_send_result (DS_SendStarted front queue wait_for_ack) success =
     (if success = False then OldDeviceQueue_retry_send front queue
      else case wait_for_ack of
          Some wait_for_ack \<Rightarrow>
            (DS_WaitingForAck front queue wait_for_ack, Some (DA_StartTimer (Duration_from_millis 250)), [])
        | None \<Rightarrow> answered [(qi_callback front, Ok ())] (OldDeviceQueue_restart_from_queue queue))"
| "OldDeviceQueue_on_send_result x success = (x, None, [])"

fun OldDeviceQueue_on_ack :: "device_state \<Rightarrow> u8 \<Rightarrow> device_result" where
  "OldDeviceQueue_on_ack (DS_SendStarted front queue wait_for_ack) ack =
     (DS_SendStarted front queue (if wait_for_ack = Some ack then None else wait_for_ack), None, [])"
| "OldDeviceQueue_on_ack (DS_WaitingForAck front queue wait_for_ack) ack =
     (if wait_for_ack = ack then answered [(qi_callback front, Ok ())] (OldDeviceQueue_restart_from_queue queue)
      else (DS_WaitingForAck front queue wait_for_ack, None, []))"
| "OldDeviceQueue_on_ack x ack = (x, None, [])"

section \<open>The queue of all devices\<close>

record ('k, 'q) transmit_queue =
  tq_queues :: "(address_specification, device_state) hash_map"
  tq_flushed :: "address_specification list"
  tq_timers :: "'q delay_queue"
  tq_running_timers :: "address_specification \<rightharpoonup> 'k delay_key"
  tq_outgoing :: "(address_specification \<times> mac_frame) list"
  tq_stream_waker :: waker_store
  tq_answers :: "queue_answer list"

type_synonym ('k, 'e, 'q) address_timers = "(address_specification, 'k, 'e, 'q) tokio_dq"

definition Queue_new :: "('k, 'e, 'q) address_timers \<Rightarrow> ('k, 'q) transmit_queue" where
  "Queue_new tk =
     \<lparr>tq_queues = [], tq_flushed = [], tq_timers = DelayQueue_new tk, tq_running_timers = Map.empty,
      tq_outgoing = [], tq_stream_waker = SavedWaker_new, tq_answers = []\<rparr>"

text \<open>\<^verbatim>\<open>if let Some(key) = self.running_timers.remove(..) { self.timers.remove(..) }\<close>\<close>

definition Queue_stop_timer :: "('k, 'e, 'q) address_timers \<Rightarrow> address_specification \<Rightarrow> ('k, 'q) transmit_queue \<Rightarrow>
    ('k, 'q) transmit_queue outcome" where
  "Queue_stop_timer tk d self =
     (case tq_running_timers self d of
        Some key \<Rightarrow>
          bind_outcome (DelayQueue_remove tk key (tq_timers self)) (\<lambda>(_, timers).
          Return (self\<lparr>tq_running_timers := (tq_running_timers self)(d := None), tq_timers := timers\<rparr>))
      | None \<Rightarrow> Return self)"

fun Queue_handle_action :: "('k, 'e, 'q) address_timers \<Rightarrow> instant \<Rightarrow> address_specification \<Rightarrow> device_action \<Rightarrow>
    ('k, 'q) transmit_queue \<Rightarrow> ('k, 'q) transmit_queue outcome" where
  "Queue_handle_action tk now d (DA_StartTimer duration) self =
     (case tq_running_timers self d of
        Some key \<Rightarrow>
          bind_outcome (DelayQueue_reset tk now key duration (tq_timers self)) (\<lambda>timers.
          Return (self\<lparr>tq_timers := timers\<rparr>))
      | None \<Rightarrow>
          (case DelayQueue_insert tk now d duration (tq_timers self) of
             (key, timers) \<Rightarrow>
               Return (self\<lparr>tq_running_timers := (tq_running_timers self)(d \<mapsto> key), tq_timers := timers\<rparr>)))"
| "Queue_handle_action tk now d DA_StopTimer self = Queue_stop_timer tk d self"
| "Queue_handle_action tk now d (DA_StopTimerStartSend frame) self =
     bind_outcome (Queue_stop_timer tk d self) (\<lambda>self.
     Return (self\<lparr>tq_outgoing := tq_outgoing self @ [(d, frame)],
       tq_stream_waker := SavedWaker_wake (tq_stream_waker self)\<rparr>))"

definition Queue_handle_optional :: "('k, 'e, 'q) address_timers \<Rightarrow> instant \<Rightarrow> address_specification \<Rightarrow> device_action option \<Rightarrow>
    ('k, 'q) transmit_queue \<Rightarrow> ('k, 'q) transmit_queue outcome" where
  "Queue_handle_optional tk now d action self =
     (case action of None \<Rightarrow> Return self | Some action \<Rightarrow> Queue_handle_action tk now d action self)"

definition unwrap_or_idle :: "device_state option \<Rightarrow> device_state" where
  "unwrap_or_idle s = (case s of None \<Rightarrow> DS_Idle | Some s \<Rightarrow> s)"

definition Queue_update_and_handle_action :: "('k, 'e, 'q) address_timers \<Rightarrow> instant \<Rightarrow> address_specification \<Rightarrow>
    (device_state \<Rightarrow> device_result) \<Rightarrow> ('k, 'q) transmit_queue \<Rightarrow> ('k, 'q) transmit_queue outcome" where
  "Queue_update_and_handle_action tk now d f self =
     (case f (unwrap_or_idle (map_of (tq_queues self) d)) of
        (new_state, action, answers) \<Rightarrow>
          (let self = self\<lparr>tq_queues := AList.delete d (tq_queues self), tq_answers := tq_answers self @ answers\<rparr>;
               self = (if OldDeviceQueue_is_idle new_state then self\<lparr>tq_flushed := tq_flushed self @ [d]\<rparr>
                 else self\<lparr>tq_queues := AList.update d new_state (tq_queues self)\<rparr>)
           in Queue_handle_optional tk now d action self))"

definition Queue_enqueue :: "('k, 'e, 'q) address_timers \<Rightarrow> instant \<Rightarrow> nat \<Rightarrow> mac_frame \<Rightarrow> bool \<Rightarrow>
    ('k, 'q) transmit_queue \<Rightarrow> ('k, 'q) transmit_queue outcome" where
  "Queue_enqueue tk now channel frame receiver_on self =
     (let item = DeviceQueueItem_new channel frame receiver_on (Some (Duration_from_secs 10)) 5
      in Queue_update_and_handle_action tk now (mf_destination frame) (\<lambda>x. OldDeviceQueue_enqueue x item) self)"

fun Queue_handle_actions :: "('k, 'e, 'q) address_timers \<Rightarrow> instant \<Rightarrow> (address_specification \<times> device_action) list \<Rightarrow>
    ('k, 'q) transmit_queue \<Rightarrow> ('k, 'q) transmit_queue outcome" where
  "Queue_handle_actions tk now [] self = Return self"
| "Queue_handle_actions tk now ((d, action) # actions) self =
     bind_outcome (Queue_handle_action tk now d action self) (Queue_handle_actions tk now actions)"

text \<open>The loop over the map is in its iteration order, the order of the list.\<close>

definition Queue_on_ack :: "('k, 'e, 'q) address_timers \<Rightarrow> instant \<Rightarrow> u8 \<Rightarrow> ('k, 'q) transmit_queue \<Rightarrow>
    ('k, 'q) transmit_queue outcome" where
  "Queue_on_ack tk now sequence_nr self =
     (let results = map (\<lambda>(d, s). (d, OldDeviceQueue_on_ack s sequence_nr)) (tq_queues self);
          actions = concat (map (\<lambda>(d, r). case fst (snd r) of None \<Rightarrow> [] | Some action \<Rightarrow> [(d, action)]) results);
          queues = filter (\<lambda>(_, s). \<not> OldDeviceQueue_is_idle s) (map (\<lambda>(d, r). (d, fst r)) results);
          self = self\<lparr>tq_queues := queues, tq_answers := tq_answers self @ concat (map (snd \<circ> snd \<circ> snd) results)\<rparr>
      in Queue_handle_actions tk now actions self)"

definition Queue_on_timer :: "('k, 'e, 'q) address_timers \<Rightarrow> instant \<Rightarrow> address_specification \<Rightarrow> ('k, 'q) transmit_queue \<Rightarrow>
    ('k, 'q) transmit_queue outcome" where
  "Queue_on_timer tk now d self =
     Queue_update_and_handle_action tk now d OldDeviceQueue_on_timer
       (self\<lparr>tq_running_timers := (tq_running_timers self)(d := None)\<rparr>)"

definition Queue_on_send_result :: "('k, 'e, 'q) address_timers \<Rightarrow> instant \<Rightarrow> address_specification \<Rightarrow> bool \<Rightarrow>
    ('k, 'q) transmit_queue \<Rightarrow> ('k, 'q) transmit_queue outcome" where
  "Queue_on_send_result tk now d success self =
     Queue_update_and_handle_action tk now d (\<lambda>x. OldDeviceQueue_on_send_result x success) self"

definition Queue_on_data_request :: "('k, 'e, 'q) address_timers \<Rightarrow> instant \<Rightarrow> address_specification \<Rightarrow> ('k, 'q) transmit_queue \<Rightarrow>
    (bool \<times> ('k, 'q) transmit_queue) outcome" where
  "Queue_on_data_request tk now d self =
     bind_outcome (Queue_update_and_handle_action tk now d OldDeviceQueue_on_data_request self) (\<lambda>self.
     Return (case map_of (tq_queues self) d of None \<Rightarrow> False | Some state \<Rightarrow> \<not> OldDeviceQueue_is_idle state, self))"

datatype queue_event = QueueEvent_OutgoingFrame address_specification mac_frame | QueueEvent_QueueFlushed address_specification

text \<open>
  Handling the expired timers takes fuel, as the polling of \<^const>\<open>CacheMap_poll\<close> does.
\<close>

fun Queue_poll_timers :: "nat \<Rightarrow> ('k, 'e, 'q) address_timers \<Rightarrow> instant \<Rightarrow> waker \<Rightarrow> ('k, 'q) transmit_queue \<Rightarrow>
    ('k, 'q) transmit_queue outcome option" where
  "Queue_poll_timers 0 tk now cx self = None"
| "Queue_poll_timers (Suc fuel) tk now cx self =
     (case DelayQueue_poll_next tk now cx (tq_timers self) of
        (r, timers) \<Rightarrow>
          (let self = self\<lparr>tq_timers := timers\<rparr>
           in case r of
                Ready (Some (Ok e)) \<Rightarrow>
                  (case bind_outcome (Expired_get_ref e) (\<lambda>d. Queue_on_timer tk now d self) of
                     Panic \<Rightarrow> Some Panic
                   | Return self \<Rightarrow> Queue_poll_timers fuel tk now cx self)
              | Ready (Some (Err _)) \<Rightarrow> Queue_poll_timers fuel tk now cx self
              | _ \<Rightarrow> Some (Return self)))"

fun first_flushed :: "(address_specification, device_state) hash_map \<Rightarrow> address_specification list \<Rightarrow>
    address_specification option \<times> address_specification list" where
  "first_flushed queues [] = (None, [])"
| "first_flushed queues (d # ds) = (if map_of queues d = None then (Some d, ds) else first_flushed queues ds)"

definition Queue_poll_next :: "nat \<Rightarrow> ('k, 'e, 'q) address_timers \<Rightarrow> instant \<Rightarrow> waker \<Rightarrow> ('k, 'q) transmit_queue \<Rightarrow>
    (queue_event option poll \<times> ('k, 'q) transmit_queue) outcome option" where
  "Queue_poll_next fuel tk now cx self =
     map_option (\<lambda>m. bind_outcome m (\<lambda>self.
         case tq_outgoing self of
           (d, frame) # outgoing \<Rightarrow>
             Return (Ready (Some (QueueEvent_OutgoingFrame d frame)), self\<lparr>tq_outgoing := outgoing\<rparr>)
         | [] \<Rightarrow>
             (case first_flushed (tq_queues self) (tq_flushed self) of
                (Some d, flushed) \<Rightarrow> Return (Ready (Some (QueueEvent_QueueFlushed d)), self\<lparr>tq_flushed := flushed\<rparr>)
              | (None, flushed) \<Rightarrow> Return (Pending, self\<lparr>tq_flushed := flushed\<rparr>))))
       (Queue_poll_timers fuel tk now cx (self\<lparr>tq_stream_waker := SavedWaker_set (tq_stream_waker self) cx\<rparr>))"

section \<open>One device: order and attempts\<close>

datatype device_op = DO_Enqueue queue_item | DO_Timer | DO_DataRequest | DO_SendResult bool | DO_Ack u8

fun device_step :: "device_op \<Rightarrow> device_state \<Rightarrow> device_result" where
  "device_step (DO_Enqueue item) s = OldDeviceQueue_enqueue s item"
| "device_step DO_Timer s = OldDeviceQueue_on_timer s"
| "device_step DO_DataRequest s = OldDeviceQueue_on_data_request s"
| "device_step (DO_SendResult success) s = OldDeviceQueue_on_send_result s success"
| "device_step (DO_Ack ack) s = OldDeviceQueue_on_ack s ack"

fun device_run :: "device_op list \<Rightarrow> device_state \<Rightarrow> device_state \<times> device_action list \<times> queue_answer list" where
  "device_run [] s = (s, [], [])"
| "device_run (op # ops) s =
     (case device_step op s of (s, action, answers) \<Rightarrow>
      case device_run ops s of (s, actions, more_answers) \<Rightarrow>
        (s, (case action of None \<Rightarrow> actions | Some a \<Rightarrow> a # actions), answers @ more_answers))"

fun device_items :: "device_state \<Rightarrow> queue_item list" where
  "device_items DS_Idle = []"
| "device_items (DS_WaitingForDataRequest front queue) = front # queue"
| "device_items (DS_SendStarted front queue _) = front # queue"
| "device_items (DS_WaitingForAck front queue _) = front # queue"

fun enqueued :: "device_op \<Rightarrow> queue_item list" where
  "enqueued (DO_Enqueue item) = [item]"
| "enqueued _ = []"

fun attempts :: "device_action option \<Rightarrow> nat" where
  "attempts (Some (DA_StopTimerStartSend _)) = 1"
| "attempts _ = 0"

definition item_budget :: "queue_item list \<Rightarrow> nat" where
  "item_budget items = sum_list (map (\<lambda>item. qi_retries item + 1) items)"

text \<open>The attempts that are left: the one in progress has been counted.\<close>

fun device_budget :: "device_state \<Rightarrow> nat" where
  "device_budget DS_Idle = 0"
| "device_budget (DS_WaitingForDataRequest front queue) = item_budget (front # queue)"
| "device_budget (DS_SendStarted front queue _) = qi_retries front + item_budget queue"
| "device_budget (DS_WaitingForAck front queue _) = qi_retries front + item_budget queue"

lemmas device_defs = OldDeviceQueue_start_send_def OldDeviceQueue_restart_from_queue_def OldDeviceQueue_retry_send_def answered_def

lemma start_send_items [simp]:
  "map qi_callback (device_items (fst (OldDeviceQueue_start_send front queue))) = map qi_callback (front # queue)"
  by (simp add: device_defs)

lemma restart_items [simp]:
  "device_items (fst (OldDeviceQueue_restart_from_queue queue)) = queue"
  by (simp add: device_defs split: list.splits)

lemma start_send_budget:
  "attempts (snd (OldDeviceQueue_start_send front queue)) + device_budget (fst (OldDeviceQueue_start_send front queue)) =
     item_budget (front # queue)"
  by (cases "qi_max_wait_for_datarequest front") (simp_all add: device_defs item_budget_def)

lemma restart_budget:
  "attempts (snd (OldDeviceQueue_restart_from_queue queue)) + device_budget (fst (OldDeviceQueue_restart_from_queue queue)) =
     item_budget queue"
  by (cases queue) (simp_all add: OldDeviceQueue_restart_from_queue_def start_send_budget item_budget_def)

lemma device_step_order:
  assumes "device_step op s = (s', action, answers)"
  shows "map fst answers @ map qi_callback (device_items s') = map qi_callback (device_items s @ enqueued op)"
  using assms
  by (cases op; cases s)
    (auto simp: OldDeviceQueue_retry_send_def answered_def OldDeviceQueue_start_send_def split: if_splits option.splits)

lemma device_step_budget:
  assumes "device_step op s = (s', action, answers)"
  shows "attempts action + device_budget s' \<le> device_budget s + item_budget (enqueued op)"
  using assms start_send_budget restart_budget
  by (cases op; cases s)
    (fastforce simp: OldDeviceQueue_retry_send_def answered_def item_budget_def split: if_splits option.splits)+

section \<open>The invariant of the queue\<close>

fun waiting :: "device_state \<Rightarrow> bool" where
  "waiting (DS_WaitingForDataRequest _ _) = True"
| "waiting (DS_WaitingForAck _ _ _) = True"
| "waiting _ = False"

fun sending :: "device_state \<Rightarrow> bool" where
  "sending (DS_SendStarted _ _ _) = True"
| "sending _ = False"

definition has_timeout :: "queue_item \<Rightarrow> bool" where
  "has_timeout item \<longleftrightarrow> (\<exists>w > 0. qi_max_wait_for_datarequest item = Some w)"

definition timed :: "device_state \<Rightarrow> bool" where
  "timed s \<longleftrightarrow> (\<forall>item \<in> set (device_items s). has_timeout item)"

lemma has_timeout_retries [simp]: "has_timeout (item\<lparr>qi_retries := n\<rparr>) = has_timeout item"
  by (simp add: has_timeout_def)

fun action_fits :: "device_action option \<Rightarrow> bool \<Rightarrow> bool \<Rightarrow> device_state \<Rightarrow> bool" where
  "action_fits None timer send s = (timer = waiting s \<and> send = sending s)"
| "action_fits (Some (DA_StartTimer w)) timer send s = (0 < w \<and> waiting s \<and> \<not> send)"
| "action_fits (Some DA_StopTimer) timer send s = (s = DS_Idle \<and> \<not> send)"
| "action_fits (Some (DA_StopTimerStartSend _)) timer send s = (sending s \<and> \<not> send)"

text \<open>A device before and after an operation: \<open>timer\<close> and \<open>send\<close> say whether a timer runs and a frame is out.\<close>

lemma start_send_fits: "has_timeout front \<Longrightarrow>
    action_fits (snd (OldDeviceQueue_start_send front queue)) timer False (fst (OldDeviceQueue_start_send front queue))"
  by (auto simp: device_defs has_timeout_def)

lemma restart_fits: "\<forall>item \<in> set queue. has_timeout item \<Longrightarrow>
    action_fits (snd (OldDeviceQueue_restart_from_queue queue)) timer False (fst (OldDeviceQueue_restart_from_queue queue))"
  by (auto simp: OldDeviceQueue_restart_from_queue_def start_send_fits split: list.splits)

lemma retry_fits: "\<forall>item \<in> set queue. has_timeout item \<Longrightarrow> has_timeout front \<Longrightarrow>
    OldDeviceQueue_retry_send front queue = (s', action, answers) \<Longrightarrow> action_fits action timer False s'"
  by (auto simp: OldDeviceQueue_retry_send_def answered_def restart_fits start_send_fits split: if_splits)

fun op_premise :: "device_op \<Rightarrow> bool \<Rightarrow> bool \<Rightarrow> device_state \<Rightarrow> bool" where
  "op_premise (DO_Enqueue item) timer send s =
     (timer = waiting s \<and> send = sending s \<and> has_timeout item)"
| "op_premise DO_Timer timer send s = (waiting s \<and> \<not> timer \<and> send = sending s)"
| "op_premise (DO_SendResult _) timer send s = (sending s \<and> \<not> send \<and> \<not> timer)"
| "op_premise _ timer send s = (timer = waiting s \<and> send = sending s)"

lemma device_step_fits:
  assumes "device_step op s = (s', action, answers)" "timed s" "op_premise op timer send s"
  shows "action_fits action timer send s'"
  using assms
  by (cases op; cases s)
    (auto simp: timed_def answered_def start_send_fits restart_fits Duration_from_millis_def intro: retry_fits
      split: if_splits option.splits)

lemma device_step_timed:
  assumes "device_step op s = (s', action, answers)" "timed s" "op_premise op timer send s"
  shows "timed s'"
  using assms
  by (cases op; cases s)
    (auto simp: timed_def answered_def OldDeviceQueue_retry_send_def OldDeviceQueue_start_send_def split: if_splits option.splits)

definition dev :: "('k, 'q) transmit_queue \<Rightarrow> address_specification \<Rightarrow> device_state" where
  "dev q d = unwrap_or_idle (map_of (tq_queues q) d)"

text \<open>The running timers are in one-to-one correspondence with those of the delay queue.\<close>

definition matched :: "('d \<rightharpoonup> 'k delay_key) \<Rightarrow> ('k \<rightharpoonup> 'd \<times> instant) \<Rightarrow> bool" where
  "matched running live \<longleftrightarrow> (\<forall>d. running d \<noteq> Some (DelayKey None)) \<and>
     (\<forall>d k. running d = Some (DelayKey (Some k)) \<longleftrightarrow> (\<exists>t. live k = Some (d, t)))"

lemma matched_empty: "matched Map.empty Map.empty"
  by (simp add: matched_def)

lemma matched_key:
  "matched running live \<Longrightarrow> running d = Some key \<Longrightarrow> \<exists>k t. key = DelayKey (Some k) \<and> live k = Some (d, t)"
  by (metis matched_def delay_key.exhaust option.exhaust)

lemma matched_iff: "matched running live \<Longrightarrow> running d = Some (DelayKey (Some k)) \<longleftrightarrow> (\<exists>t. live k = Some (d, t))"
  by (simp add: matched_def)

lemma matched_stop:
  assumes "matched running live" "live k = Some (d, t)"
  shows "matched (running(d := None)) (live(k := None))"
proof -
  have d: "running d = Some (DelayKey (Some k))" using matched_iff [OF assms(1)] assms(2) by blast
  have "(running(d := None)) d' = Some (DelayKey (Some k')) \<longleftrightarrow> (\<exists>t. (live(k := None)) k' = Some (d', t))" for d' k'
    using matched_iff [OF assms(1), of d' k'] d assms(2) by (cases "d' = d"; cases "k' = k") auto
  then show ?thesis using assms(1) by (auto simp: matched_def)
qed

lemma matched_start:
  assumes "matched running live" "running d = None" "live k = None"
  shows "matched (running(d \<mapsto> DelayKey (Some k))) (live(k \<mapsto> (d, t)))"
proof -
  have "(running(d \<mapsto> DelayKey (Some k))) d' = Some (DelayKey (Some k')) \<longleftrightarrow> (\<exists>t'. (live(k \<mapsto> (d, t))) k' = Some (d', t'))" for d' k'
    using matched_iff [OF assms(1), of d' k'] assms(2,3) by (cases "d' = d"; cases "k' = k") auto
  then show ?thesis using assms(1) by (auto simp: matched_def)
qed

lemma matched_reset:
  assumes "matched running live" "live k = Some (d, t)"
  shows "matched running (live(k \<mapsto> (d, t')))"
proof -
  have "running d' = Some (DelayKey (Some k')) \<longleftrightarrow> (\<exists>t''. (live(k \<mapsto> (d, t'))) k' = Some (d', t''))" for d' k'
    using matched_iff [OF assms(1), of d' k'] assms(2) by (cases "k' = k") auto
  then show ?thesis using assms(1) by (simp add: matched_def)
qed

definition timers_match :: "('q \<Rightarrow> 'k \<rightharpoonup> address_specification \<times> instant) \<Rightarrow> ('k, 'q) transmit_queue \<Rightarrow> bool" where
  "timers_match timers q \<longleftrightarrow>
     \<not> dl_finished (tq_timers q) \<and> matched (tq_running_timers q) (live_timers timers (tq_timers q))"

text \<open>The addresses to which a frame is waiting to be taken from the queue, or is in flight.\<close>

definition sends :: "address_specification list \<Rightarrow> ('k, 'q) transmit_queue \<Rightarrow> address_specification list" where
  "sends inflight q = map fst (tq_outgoing q) @ inflight"

definition queue_inv :: "('q \<Rightarrow> 'k \<rightharpoonup> address_specification \<times> instant) \<Rightarrow> (address_specification \<times> device_action) list \<Rightarrow>
    address_specification list \<Rightarrow> ('k, 'q) transmit_queue \<Rightarrow> bool" where
  "queue_inv timers actions inflight q \<longleftrightarrow>
     hm_wf (tq_queues q) \<and> (\<forall>(d, s) \<in> set (tq_queues q). s \<noteq> DS_Idle \<and> timed s) \<and>
     timers_match timers q \<and> distinct (sends inflight q) \<and> distinct (map fst actions) \<and>
     (\<forall>d. action_fits (map_of actions d) (tq_running_timers q d \<noteq> None) (d \<in> set (sends inflight q)) (dev q d))"

lemma queue_invD:
  assumes "queue_inv timers actions inflight q"
  shows "hm_wf (tq_queues q)" "timers_match timers q" "distinct (sends inflight q)"
    "action_fits (map_of actions d) (tq_running_timers q d \<noteq> None) (d \<in> set (sends inflight q)) (dev q d)"
    "timed (dev q d)"
  using assms
  by (auto simp: queue_inv_def dev_def unwrap_or_idle_def timed_def split: option.splits dest!: map_of_SomeD)

definition due_timers :: "('q \<Rightarrow> 'k \<rightharpoonup> address_specification \<times> instant) \<Rightarrow> instant \<Rightarrow> ('k, 'q) transmit_queue \<Rightarrow> 'k set" where
  "due_timers timers now q = {k. \<exists>d t. live_timers timers (tq_timers q) k = Some (d, t) \<and> t \<le> now}"

locale address_queue = tokio_running tk timers
  for tk :: "('k, 'e, 'q) address_timers" and timers :: "'q \<Rightarrow> 'k \<rightharpoonup> address_specification \<times> instant"

interpretation address_impl: address_queue tokio_impl timer_map ..

context address_queue
begin

lemma timers_match_stop:
  assumes "timers_match timers q"
  obtains q' where "Queue_stop_timer tk d q = Return q'" "timers_match timers q'"
    "tq_running_timers q' = (tq_running_timers q)(d := None)" "tq_queues q' = tq_queues q" "tq_outgoing q' = tq_outgoing q"
    "tq_answers q' = tq_answers q" "tq_flushed q' = tq_flushed q"
    "due_timers timers now q' \<subseteq> due_timers timers now q"
proof (cases "tq_running_timers q d")
  case None
  then have "(tq_running_timers q)(d := None) = tq_running_timers q" by auto
  moreover have "Queue_stop_timer tk d q = Return q" using None by (simp add: Queue_stop_timer_def)
  ultimately show thesis by (intro that [of q]) (simp_all add: assms)
next
  case (Some key)
  note match = assms(1) [unfolded timers_match_def]
  obtain k t where k: "key = DelayKey (Some k)" "live_timers timers (tq_timers q) k = Some (d, t)" "\<not> dl_finished (tq_timers q)"
    using matched_key [OF match [THEN conjunct2] Some] match by auto
  obtain dl where dl: "DelayQueue_remove tk (DelayKey (Some k)) (tq_timers q) = Return (Expired (Some d), dl)"
    "live_timers timers dl = (live_timers timers (tq_timers q))(k := None)" "\<not> dl_finished dl"
    using DelayQueue_removed [OF k(3,2)] .
  show thesis
  proof (rule that)
    show "Queue_stop_timer tk d q =
        Return (q\<lparr>tq_running_timers := (tq_running_timers q)(d := None), tq_timers := dl\<rparr>)"
      using Some k(1) dl(1) by (simp add: Queue_stop_timer_def)
    show "timers_match timers (q\<lparr>tq_running_timers := (tq_running_timers q)(d := None), tq_timers := dl\<rparr>)"
      using matched_stop [OF match [THEN conjunct2] k(2)] dl(2,3) by (simp add: timers_match_def)
  qed (auto simp: due_timers_def dl(2) split: if_splits)
qed

lemma timers_match_start:
  assumes "timers_match timers q" "0 < duration"
  obtains q' where "Queue_handle_action tk now d (DA_StartTimer duration) q = Return q'" "timers_match timers q'"
    "tq_running_timers q' d \<noteq> None" "\<forall>d'. d' \<noteq> d \<longrightarrow> tq_running_timers q' d' = tq_running_timers q d'"
    "tq_queues q' = tq_queues q" "tq_outgoing q' = tq_outgoing q" "tq_answers q' = tq_answers q" "tq_flushed q' = tq_flushed q"
    "due_timers timers now q' \<subseteq> due_timers timers now q"
proof (cases "tq_running_timers q d")
  case None
  have running: "\<not> dl_finished (tq_timers q)" using assms by (simp add: timers_match_def)
  obtain k dl where dl: "DelayQueue_insert tk now d duration (tq_timers q) = (DelayKey (Some k), dl)"
    "live_timers timers (tq_timers q) k = None"
    "live_timers timers dl = (live_timers timers (tq_timers q))(k \<mapsto> (d, now + duration))" "\<not> dl_finished dl"
    using DelayQueue_inserted [OF running] .
  show thesis
  proof (rule that)
    show "Queue_handle_action tk now d (DA_StartTimer duration) q =
        Return (q\<lparr>tq_running_timers := (tq_running_timers q)(d \<mapsto> DelayKey (Some k)), tq_timers := dl\<rparr>)"
      using None dl(1) by simp
    show "timers_match timers (q\<lparr>tq_running_timers := (tq_running_timers q)(d \<mapsto> DelayKey (Some k)), tq_timers := dl\<rparr>)"
      using assms dl(2-4) None by (simp add: timers_match_def matched_start)
  qed (use assms(2) in \<open>auto simp: due_timers_def dl(3) split: if_splits\<close>)
next
  case (Some key)
  note match = assms(1) [unfolded timers_match_def]
  obtain k t where k: "key = DelayKey (Some k)" "live_timers timers (tq_timers q) k = Some (d, t)" "\<not> dl_finished (tq_timers q)"
    using matched_key [OF match [THEN conjunct2] Some] match by auto
  obtain dl where dl: "DelayQueue_reset tk now (DelayKey (Some k)) duration (tq_timers q) = Return dl"
    "live_timers timers dl = (live_timers timers (tq_timers q))(k \<mapsto> (d, now + duration))" "\<not> dl_finished dl"
    using DelayQueue_reset_running [OF k(3,2)] .
  show thesis
  proof (rule that)
    show "Queue_handle_action tk now d (DA_StartTimer duration) q = Return (q\<lparr>tq_timers := dl\<rparr>)"
      using Some k(1) dl(1) by simp
    show "timers_match timers (q\<lparr>tq_timers := dl\<rparr>)"
      using matched_reset [OF match [THEN conjunct2] k(2)] dl(2,3) by (simp add: timers_match_def)
  qed (use assms(2) in \<open>auto simp: Some due_timers_def dl(2) split: if_splits\<close>)
qed

lemma sends_simps [simp]:
  "set (sends inflight (q\<lparr>tq_outgoing := tq_outgoing q @ [(d, f)]\<rparr>)) = insert d (set (sends inflight q))"
  "distinct (sends inflight (q\<lparr>tq_outgoing := tq_outgoing q @ [(d, f)]\<rparr>)) \<longleftrightarrow> distinct (sends inflight q) \<and> d \<notin> set (sends inflight q)"
  by (auto simp: sends_def)

lemma handle_action_inv:
  assumes inv: "queue_inv timers ((d, a) # acts) inflight q"
  shows "\<exists>q'. Queue_handle_action tk now d a q = Return q' \<and> queue_inv timers acts inflight q' \<and>
    tq_queues q' = tq_queues q \<and> tq_answers q' = tq_answers q \<and> tq_flushed q' = tq_flushed q \<and>
    due_timers timers now q' \<subseteq> due_timers timers now q"
proof -
  note match = queue_invD(2) [OF inv]
  have fits: "action_fits (Some a) (tq_running_timers q d \<noteq> None) (d \<in> set (sends inflight q)) (dev q d)"
    using queue_invD(4) [OF inv, of d] by simp
  have not_later: "map_of acts d = None" using inv by (auto simp: queue_inv_def map_of_eq_None_iff)
  have others: "action_fits (map_of acts d') (tq_running_timers q d' \<noteq> None) (d' \<in> set (sends inflight q)) (dev q d')"
    if "d' \<noteq> d" for d'
    using queue_invD(4) [OF inv, of d'] that by simp
  have finish: "queue_inv timers acts inflight q'"
    if "timers_match timers q'" "tq_queues q' = tq_queues q" "distinct (sends inflight q')"
      and "\<And>d'. d' \<noteq> d \<Longrightarrow> tq_running_timers q' d' = tq_running_timers q d' \<and> (d' \<in> set (sends inflight q') \<longleftrightarrow> d' \<in> set (sends inflight q))"
      and "(tq_running_timers q' d \<noteq> None) = waiting (dev q d)" "(d \<in> set (sends inflight q')) = sending (dev q d)" for q'
  proof -
    have same: "dev q' = dev q" by (rule ext) (simp add: dev_def that(2))
    have "action_fits (map_of acts d') (tq_running_timers q' d' \<noteq> None) (d' \<in> set (sends inflight q')) (dev q' d')" for d'
      using others [of d'] that(4) [of d'] that(5,6) not_later by (cases "d' = d") (simp_all add: same)
    then show ?thesis using inv that(1-3) by (simp add: queue_inv_def)
  qed
  show ?thesis
  proof (cases a)
    case (DA_StartTimer w)
    then have w: "0 < w" using fits by simp
    obtain q' where "Queue_handle_action tk now d (DA_StartTimer w) q = Return q'" "timers_match timers q'"
      "tq_running_timers q' d \<noteq> None" "\<forall>d'. d' \<noteq> d \<longrightarrow> tq_running_timers q' d' = tq_running_timers q d'"
      "tq_queues q' = tq_queues q" "tq_outgoing q' = tq_outgoing q" "tq_answers q' = tq_answers q" "tq_flushed q' = tq_flushed q"
    "due_timers timers now q' \<subseteq> due_timers timers now q"
      using timers_match_start [OF match, where d = d and now = now and duration = w] w .
    moreover from this have "queue_inv timers acts inflight q'"
      using fits queue_invD(3) [OF inv] DA_StartTimer
      by (intro finish) (auto simp: sends_def elim: waiting.elims)
    ultimately show ?thesis using DA_StartTimer by blast
  next
    case DA_StopTimer
    obtain q' where "Queue_stop_timer tk d q = Return q'" "timers_match timers q'"
      "tq_running_timers q' = (tq_running_timers q)(d := None)" "tq_queues q' = tq_queues q" "tq_outgoing q' = tq_outgoing q"
      "tq_answers q' = tq_answers q" "tq_flushed q' = tq_flushed q"
    "due_timers timers now q' \<subseteq> due_timers timers now q"
      using timers_match_stop [OF match, where d = d and now = now] .
    moreover from this have "queue_inv timers acts inflight q'"
      using fits queue_invD(3) [OF inv] DA_StopTimer by (intro finish) (auto simp: sends_def)
    ultimately show ?thesis using DA_StopTimer by auto
  next
    case (DA_StopTimerStartSend f)
    obtain q1 where q1: "Queue_stop_timer tk d q = Return q1" "timers_match timers q1"
      "tq_running_timers q1 = (tq_running_timers q)(d := None)" "tq_queues q1 = tq_queues q" "tq_outgoing q1 = tq_outgoing q"
      "tq_answers q1 = tq_answers q" "tq_flushed q1 = tq_flushed q"
      "due_timers timers now q1 \<subseteq> due_timers timers now q"
      using timers_match_stop [OF match, where d = d and now = now] .
    let ?q = "q1\<lparr>tq_outgoing := tq_outgoing q1 @ [(d, f)], tq_stream_waker := SavedWaker_wake (tq_stream_waker q1)\<rparr>"
    have "timers_match timers ?q" using q1(2) by (simp add: timers_match_def)
    moreover have "sending (dev q d)" "d \<notin> set (sends inflight q)" using fits DA_StopTimerStartSend by auto
    ultimately have "queue_inv timers acts inflight ?q"
      using q1 queue_invD(3) [OF inv] by (intro finish) (auto simp: sends_def elim: sending.elims)
    moreover have "due_timers timers now ?q = due_timers timers now q1" by (simp add: due_timers_def)
    ultimately show ?thesis using DA_StopTimerStartSend q1 by auto
  qed
qed

lemma handle_actions_inv:
  "queue_inv timers acts inflight q \<Longrightarrow>
    \<exists>q'. Queue_handle_actions tk now acts q = Return q' \<and> queue_inv timers [] inflight q' \<and>
      tq_queues q' = tq_queues q \<and> tq_answers q' = tq_answers q \<and> tq_flushed q' = tq_flushed q \<and>
      due_timers timers now q' \<subseteq> due_timers timers now q"
proof (induction acts arbitrary: q)
  case (Cons p acts)
  obtain d a where p: "p = (d, a)" by (cases p)
  obtain q1 where "Queue_handle_action tk now d a q = Return q1" "queue_inv timers acts inflight q1"
    "tq_queues q1 = tq_queues q" "tq_answers q1 = tq_answers q" "tq_flushed q1 = tq_flushed q"
    "due_timers timers now q1 \<subseteq> due_timers timers now q"
    using handle_action_inv Cons.prems unfolding p by blast
  with Cons.IH [of q1] show ?case by (auto simp: p)
qed simp

text \<open>All devices but \<open>d\<close> are in order, and \<open>d\<close> is ready for the operation.\<close>

definition ready_for :: "device_op \<Rightarrow> address_specification \<Rightarrow> address_specification list \<Rightarrow> ('k, 'q) transmit_queue \<Rightarrow> bool" where
  "ready_for op d inflight q \<longleftrightarrow>
     hm_wf (tq_queues q) \<and> (\<forall>(d, s) \<in> set (tq_queues q). s \<noteq> DS_Idle \<and> timed s) \<and>
     timers_match timers q \<and> distinct (sends inflight q) \<and>
     (\<forall>d'. d' \<noteq> d \<longrightarrow> action_fits None (tq_running_timers q d' \<noteq> None) (d' \<in> set (sends inflight q)) (dev q d')) \<and>
     op_premise op (tq_running_timers q d \<noteq> None) (d \<in> set (sends inflight q)) (dev q d)"

lemma dev_timed: "\<forall>(d, s) \<in> set (tq_queues q). s \<noteq> DS_Idle \<and> timed s \<Longrightarrow> timed (dev q d)"
  by (auto simp: dev_def unwrap_or_idle_def timed_def split: option.splits dest!: map_of_SomeD)

lemma handle_optional_inv:
  assumes "queue_inv timers (case a of None \<Rightarrow> [] | Some a \<Rightarrow> [(d, a)]) inflight q"
  shows "\<exists>q'. Queue_handle_optional tk now d a q = Return q' \<and> queue_inv timers [] inflight q' \<and>
    tq_queues q' = tq_queues q \<and> tq_answers q' = tq_answers q \<and> tq_flushed q' = tq_flushed q \<and>
    due_timers timers now q' \<subseteq> due_timers timers now q"
  using assms handle_action_inv by (cases a) (simp_all add: Queue_handle_optional_def)

lemma update_inv:
  assumes ready: "ready_for op d inflight q" and step: "device_step op (dev q d) = (s', action, answers)"
  shows "\<exists>q'. Queue_update_and_handle_action tk now d (device_step op) q = Return q' \<and> queue_inv timers [] inflight q' \<and>
    tq_answers q' = tq_answers q @ answers \<and> dev q' = (dev q)(d := s') \<and>
    tq_queues q' = (if s' = DS_Idle then AList.delete d (tq_queues q) else AList.update d s' (AList.delete d (tq_queues q))) \<and>
    tq_flushed q' = tq_flushed q @ (if s' = DS_Idle then [d] else []) \<and>
    due_timers timers now q' \<subseteq> due_timers timers now q"
proof -
  let ?q1 = "q\<lparr>tq_queues := AList.delete d (tq_queues q), tq_answers := tq_answers q @ answers\<rparr>"
  let ?q2 = "if OldDeviceQueue_is_idle s' then ?q1\<lparr>tq_flushed := tq_flushed ?q1 @ [d]\<rparr>
     else ?q1\<lparr>tq_queues := AList.update d s' (tq_queues ?q1)\<rparr>"
  have idle: "OldDeviceQueue_is_idle s' \<longleftrightarrow> s' = DS_Idle" by (cases s') simp_all
  have eq: "Queue_update_and_handle_action tk now d (device_step op) q = Queue_handle_optional tk now d action ?q2"
    using step by (simp add: Queue_update_and_handle_action_def dev_def Let_def)
  have dev2: "dev ?q2 = (dev q)(d := s')"
    by (rule ext) (simp add: dev_def delete_conv' update_conv' unwrap_or_idle_def idle)
  have fits: "action_fits action (tq_running_timers q d \<noteq> None) (d \<in> set (sends inflight q)) s'"
    and timed: "timed s'"
    using device_step_fits [OF step] device_step_timed [OF step] ready dev_timed unfolding ready_for_def by blast+
  have wf: "hm_wf (tq_queues ?q2)" using ready by (simp add: ready_for_def)
  have "s0 \<noteq> DS_Idle \<and> timed s0" if "(d0, s0) \<in> set (tq_queues ?q2)" for d0 s0
  proof -
    have "map_of (tq_queues ?q2) d0 = Some s0" using that wf by (simp add: hm_wf_def)
    then show ?thesis
      using ready timed idle
      by (auto simp: ready_for_def delete_conv' update_conv' split: if_splits dest!: map_of_SomeD)
  qed
  then have "\<forall>(d, s) \<in> set (tq_queues ?q2). s \<noteq> DS_Idle \<and> timed s" by blast
  note wf this
  moreover have "timers_match timers ?q2" "distinct (sends inflight ?q2)" "set (sends inflight ?q2) = set (sends inflight q)"
    "tq_running_timers ?q2 = tq_running_timers q"
    using ready by (simp_all add: ready_for_def timers_match_def sends_def)
  moreover have "action_fits (map_of (case action of None \<Rightarrow> [] | Some a \<Rightarrow> [(d, a)]) d') (tq_running_timers q d' \<noteq> None)
      (d' \<in> set (sends inflight q)) (((dev q)(d := s')) d')" for d'
    using fits ready by (cases "d' = d"; cases action) (auto simp: ready_for_def)
  ultimately have "queue_inv timers (case action of None \<Rightarrow> [] | Some a \<Rightarrow> [(d, a)]) inflight ?q2"
    unfolding queue_inv_def dev2 by (auto split: option.splits)
  then obtain q' where "Queue_handle_optional tk now d action ?q2 = Return q'" "queue_inv timers [] inflight q'"
    "tq_queues q' = tq_queues ?q2" "tq_answers q' = tq_answers ?q2" "tq_flushed q' = tq_flushed ?q2"
    "due_timers timers now q' \<subseteq> due_timers timers now ?q2"
    using handle_optional_inv by blast
  moreover from this have "dev q' = dev ?q2" by (simp add: dev_def fun_eq_iff)
  moreover have "due_timers timers now ?q2 = due_timers timers now q" by (simp add: due_timers_def)
  ultimately show ?thesis unfolding eq dev2 by (auto simp: idle)
qed

lemma ready_for_enqueue:
  "queue_inv timers [] inflight q \<Longrightarrow> has_timeout item \<Longrightarrow> ready_for (DO_Enqueue item) d inflight q"
  using queue_invD(4) [of timers "[]" inflight q] by (auto simp: queue_inv_def ready_for_def)

lemma ready_for_data_request:
  "queue_inv timers [] inflight q \<Longrightarrow> ready_for DO_DataRequest d inflight q"
  using queue_invD(4) [of timers "[]" inflight q] by (auto simp: queue_inv_def ready_for_def)

lemma not_both: "waiting s \<Longrightarrow> \<not> sending s"
  by (cases s) simp_all

lemma ready_for_send_result:
  assumes inv: "queue_inv timers [] inflight q" and d: "d \<in> set inflight"
  shows "ready_for (DO_SendResult success) d (remove1 d inflight) q"
proof -
  have "distinct (sends inflight q)" by (rule queue_invD(3) [OF inv])
  then have set: "set (sends (remove1 d inflight) q) = set (sends inflight q) - {d}"
      and distinct: "distinct (sends (remove1 d inflight) q)"
    using d by (auto simp: sends_def)
  have fits: "tq_running_timers q d' \<noteq> None \<longleftrightarrow> waiting (dev q d')" "d' \<in> set (sends inflight q) \<longleftrightarrow> sending (dev q d')" for d'
    using queue_invD(4) [OF inv, of d'] by auto
  have "sending (dev q d)" using fits(2) d by (auto simp: sends_def)
  then show ?thesis
    using inv set distinct fits not_both unfolding queue_inv_def ready_for_def by auto
qed

lemma ready_for_timer:
  assumes inv: "queue_inv timers [] inflight q" and k: "live_timers timers (tq_timers q) k = Some (d, t)"
    and dl: "\<not> dl_finished dl" "live_timers timers dl = (live_timers timers (tq_timers q))(k := None)"
  shows "ready_for DO_Timer d inflight (q\<lparr>tq_timers := dl, tq_running_timers := (tq_running_timers q)(d := None)\<rparr>)"
    (is "ready_for _ _ _ ?q")
proof -
  have match: "matched (tq_running_timers q) (live_timers timers (tq_timers q))"
    using queue_invD(2) [OF inv] by (simp add: timers_match_def)
  have "timers_match timers ?q" using matched_stop [OF match k] dl by (simp add: timers_match_def)
  moreover have "tq_running_timers q d \<noteq> None" using matched_iff [OF match] k by fastforce
  moreover have "dev ?q = dev q" "sends inflight ?q = sends inflight q" by (simp_all add: dev_def sends_def fun_eq_iff)
  ultimately show ?thesis
    using inv queue_invD(4) [OF inv] unfolding queue_inv_def ready_for_def by auto
qed

end

text \<open>The requests that have not been answered.\<close>

definition unanswered :: "(address_specification, device_state) hash_map \<Rightarrow> nat multiset" where
  "unanswered queues = (\<Sum>(d, s) \<in># mset queues. mset (map qi_callback (device_items s)))"

lemma unanswered_delete:
  assumes "hm_wf queues"
  shows "unanswered queues = mset (map qi_callback (device_items (unwrap_or_idle (map_of queues d)))) + unanswered (AList.delete d queues)"
proof (cases "map_of queues d")
  case None
  then have "AList.delete d queues = queues" by (auto simp: map_of_eq_None_iff image_iff intro!: delete_idem)
  then show ?thesis by (simp add: None unwrap_or_idle_def)
next
  case (Some s)
  then show ?thesis using mset_delete [OF assms Some] by (simp add: unanswered_def unwrap_or_idle_def)
qed

lemma unanswered_update:
  assumes "hm_wf queues" "device_step op (unwrap_or_idle (map_of queues d)) = (s', action, answers)"
  shows "mset (map fst answers) +
      unanswered (if s' = DS_Idle then AList.delete d queues else AList.update d s' (AList.delete d queues)) =
    unanswered queues + mset (map qi_callback (enqueued op))"
proof -
  have order: "mset (map fst answers) + mset (map qi_callback (device_items s')) =
      mset (map qi_callback (device_items (unwrap_or_idle (map_of queues d)))) + mset (map qi_callback (enqueued op))"
    using arg_cong [OF device_step_order [OF assms(2)], of mset] by simp
  have "unanswered (if s' = DS_Idle then AList.delete d queues else AList.update d s' (AList.delete d queues)) =
      mset (map qi_callback (device_items s')) + unanswered (AList.delete d queues)"
    by (simp add: unanswered_def update_fresh delete_conv)
  then show ?thesis
    using order unanswered_delete [OF assms(1), of d] by (simp add: ac_simps)
qed

section \<open>Reachable queues\<close>

context address_queue
begin

lemma update_total:
  assumes "ready_for op d inflight q" "f = device_step op"
  shows "\<exists>q'. Queue_update_and_handle_action tk now d f q = Return q' \<and> queue_inv timers [] inflight q' \<and>
    mset (map fst (tq_answers q')) + unanswered (tq_queues q') =
      mset (map fst (tq_answers q)) + unanswered (tq_queues q) + mset (map qi_callback (enqueued op)) \<and>
    (\<forall>d'. d' \<noteq> d \<longrightarrow> dev q' d' = dev q d') \<and>
    (dev q' d = DS_Idle \<longrightarrow> d \<in> set (tq_flushed q')) \<and> set (tq_flushed q) \<subseteq> set (tq_flushed q') \<and>
    due_timers timers now q' \<subseteq> due_timers timers now q"
proof -
  obtain s' action answers where step: "device_step op (dev q d) = (s', action, answers)" by (cases "device_step op (dev q d)")
  obtain q' where q': "Queue_update_and_handle_action tk now d (device_step op) q = Return q'" "queue_inv timers [] inflight q'"
    "tq_answers q' = tq_answers q @ answers" "dev q' = (dev q)(d := s')"
    "tq_flushed q' = tq_flushed q @ (if s' = DS_Idle then [d] else [])"
    "due_timers timers now q' \<subseteq> due_timers timers now q"
    "tq_queues q' = (if s' = DS_Idle then AList.delete d (tq_queues q) else AList.update d s' (AList.delete d (tq_queues q)))"
    using update_inv [OF assms(1) step, of now] by blast
  have "hm_wf (tq_queues q)" using assms(1) by (simp add: ready_for_def)
  note total = unanswered_update [OF this step [unfolded dev_def]]
  show ?thesis
  proof (intro exI [of _ q'] conjI)
    show "mset (map fst (tq_answers q')) + unanswered (tq_queues q') =
        mset (map fst (tq_answers q)) + unanswered (tq_queues q) + mset (map qi_callback (enqueued op))"
      using total unfolding q'(3,7) map_append mset_append by (metis add.assoc)
    show "dev q' d = DS_Idle \<longrightarrow> d \<in> set (tq_flushed q')" "set (tq_flushed q) \<subseteq> set (tq_flushed q')"
      unfolding q'(4,5) by auto
    show "\<forall>d'. d' \<noteq> d \<longrightarrow> dev q' d' = dev q d'" unfolding q'(4) by simp
  qed (use q' assms(2) in simp_all)
qed

end

text \<open>The loop of \<^const>\<open>Queue_on_ack\<close> over all devices.\<close>

fun emitted :: "('v \<Rightarrow> 'a option) \<Rightarrow> ('k \<times> 'v) list \<Rightarrow> ('k \<times> 'a) list" where
  "emitted g [] = []"
| "emitted g ((d, s) # m) = (case g s of None \<Rightarrow> emitted g m | Some a \<Rightarrow> (d, a) # emitted g m)"

lemma emitted_concat: "concat (map (\<lambda>(d, s). case g s of None \<Rightarrow> [] | Some a \<Rightarrow> [(d, a)]) m) = emitted g m"
  by (induction g m rule: emitted.induct) (auto split: option.splits)

lemma emitted_keys: "fst ` set (emitted g m) \<subseteq> fst ` set m"
  by (induction g m rule: emitted.induct) (auto split: option.splits)

lemma map_of_emitted:
  assumes "distinct (map fst m)"
  shows "map_of (emitted g m) d = (case map_of m d of None \<Rightarrow> None | Some s \<Rightarrow> g s)"
    and "distinct (map fst (emitted g m))"
  using assms
proof (induction g m rule: emitted.induct)
  case (2 g d0 s m)
  { case 1
    then have "map_of (emitted g m) d0 = None" using emitted_keys [of g m] by (auto simp: map_of_eq_None_iff)
    with 1 2 show ?case by (auto split: option.splits)
  next
    case 2
    then have "d0 \<notin> fst ` set (emitted g m)" using emitted_keys [of g m] by auto
    with 2 "2.IH" show ?case by (auto split: option.splits) }
qed simp_all

lemma map_of_kept:
  assumes "distinct (map fst m)"
  shows "map_of (filter (\<lambda>(_, s). P s) (map (\<lambda>(d, s). (d, h s)) m)) d =
      (case map_of m d of None \<Rightarrow> None | Some s \<Rightarrow> if P (h s) then Some (h s) else None)"
    and "distinct (map fst (filter (\<lambda>(_, s). P s) (map (\<lambda>(d, s). (d, h s)) m)))"
  using assms
proof (induction m)
  case (Cons p m)
  { case 1
    have "map_of (filter (\<lambda>(_, s). P s) (map (\<lambda>(d, s). (d, h s)) m)) (fst p) = None"
      using 1 by (cases p) (force simp: map_of_eq_None_iff)
    with Cons 1 show ?case by (cases p) auto
  next
    case 2
    with Cons show ?case by (cases p) force }
qed simp_all

lemma unanswered_ack:
  assumes "\<And>s. OldDeviceQueue_is_idle (fst (f s)) \<Longrightarrow> device_items (fst (f s)) = []"
    and "\<And>s. map fst (snd (snd (f s))) @ map qi_callback (device_items (fst (f s))) = map qi_callback (device_items s)"
  shows "mset (map fst (concat (map (snd \<circ> snd \<circ> f \<circ> snd) m))) +
      unanswered (filter (\<lambda>(_, s). \<not> OldDeviceQueue_is_idle s) (map (\<lambda>(d, s). (d, fst (f s))) m)) = unanswered m"
proof (induction m)
  case (Cons p m)
  obtain d s where p: "p = (d, s)" by (cases p)
  have "mset (map fst (snd (snd (f s)))) + mset (map qi_callback (device_items (fst (f s)))) = mset (map qi_callback (device_items s))"
    using arg_cong [OF assms(2) [of s], of mset] by simp
  with Cons assms(1) [of s] show ?case by (auto simp: p unanswered_def ac_simps)
qed (simp add: unanswered_def)

context address_queue
begin

lemma on_ack_total:
  assumes inv: "queue_inv timers [] inflight q"
  shows "\<exists>q'. Queue_on_ack tk now n q = Return q' \<and> queue_inv timers [] inflight q' \<and>
    mset (map fst (tq_answers q')) + unanswered (tq_queues q') = mset (map fst (tq_answers q)) + unanswered (tq_queues q) \<and>
    (\<forall>d. dev q' d = fst (OldDeviceQueue_on_ack (dev q d) n)) \<and> tq_flushed q' = tq_flushed q"
proof -
  let ?f = "\<lambda>s. OldDeviceQueue_on_ack s n"
  let ?acts = "emitted (fst \<circ> snd \<circ> ?f) (tq_queues q)"
  let ?queues = "filter (\<lambda>(_, s). \<not> OldDeviceQueue_is_idle s) (map (\<lambda>(d, s). (d, fst (?f s))) (tq_queues q))"
  let ?q = "q\<lparr>tq_queues := ?queues, tq_answers := tq_answers q @ concat (map (snd \<circ> snd \<circ> ?f \<circ> snd) (tq_queues q))\<rparr>"
  have eq: "Queue_on_ack tk now n q = Queue_handle_actions tk now ?acts ?q"
    unfolding Queue_on_ack_def Let_def map_map emitted_concat [symmetric]
    by (intro arg_cong2 [where f = "Queue_handle_actions tk now"])
      (simp_all add: comp_def case_prod_unfold cong: option.case_cong)
  have distinct: "distinct (map fst (tq_queues q))" using queue_invD(1) [OF inv] by (simp add: hm_wf_def)
  have idle: "OldDeviceQueue_is_idle s \<longleftrightarrow> s = DS_Idle" for s by (cases s) simp_all
  have queues: "tq_queues ?q = ?queues" by simp
  have dev': "dev ?q d = fst (?f (dev q d))" for d
    unfolding dev_def queues map_of_kept(1) [OF distinct]
    by (auto simp: unwrap_or_idle_def idle split: option.splits)
  have action: "map_of ?acts d = fst (snd (?f (dev q d)))" for d
    unfolding map_of_emitted(1) [OF distinct] dev_def by (auto simp: unwrap_or_idle_def split: option.splits)
  have premise: "op_premise (DO_Ack n) (tq_running_timers q d \<noteq> None) (d \<in> set (sends inflight q)) (dev q d)" for d
    using queue_invD(4) [OF inv, of d] by simp
  have step: "device_step (DO_Ack n) s = (fst (?f s), fst (snd (?f s)), snd (snd (?f s)))" for s by simp
  note fits = device_step_fits [OF step queue_invD(5) [OF inv] premise]
    and timed = device_step_timed [OF step queue_invD(5) [OF inv] premise]
  have kept: "s' \<noteq> DS_Idle \<and> timed s'" if "(d, s') \<in> set ?queues" for d s'
  proof -
    have "map_of ?queues d = Some s'" by (rule map_of_is_SomeI [OF map_of_kept(2) [OF distinct] that])
    then have "dev ?q d = s'" unfolding dev_def queues by (simp add: unwrap_or_idle_def)
    moreover have "s' \<noteq> DS_Idle" using that idle by auto
    ultimately show ?thesis using timed dev' by auto
  qed
  have same: "sends inflight ?q = sends inflight q" "tq_running_timers ?q = tq_running_timers q" by (simp_all add: sends_def)
  have "queue_inv timers ?acts inflight ?q"
    unfolding queue_inv_def same
  proof (intro conjI allI)
    show "hm_wf (tq_queues ?q)" unfolding hm_wf_def queues by (rule map_of_kept(2) [OF distinct])
    show "\<forall>(d, s) \<in> set (tq_queues ?q). s \<noteq> DS_Idle \<and> timed s" unfolding queues using kept by fast
    show "timers_match timers ?q" using queue_invD(2) [OF inv] by (simp add: timers_match_def)
    show "distinct (sends inflight q)" by (rule queue_invD(3) [OF inv])
    show "distinct (map fst ?acts)" by (rule map_of_emitted(2) [OF distinct])
    show "action_fits (map_of ?acts d) (tq_running_timers q d \<noteq> None) (d \<in> set (sends inflight q)) (dev ?q d)" for d
      unfolding dev' action by (rule fits)
  qed
  then obtain q' where q': "Queue_handle_actions tk now ?acts ?q = Return q'" "queue_inv timers [] inflight q'"
      "tq_queues q' = tq_queues ?q" "tq_answers q' = tq_answers ?q" "tq_flushed q' = tq_flushed ?q"
    using handle_actions_inv by blast
  have "mset (map fst (concat (map (snd \<circ> snd \<circ> ?f \<circ> snd) (tq_queues q)))) + unanswered ?queues = unanswered (tq_queues q)"
  proof (rule unanswered_ack)
    show "map fst (snd (snd (?f s))) @ map qi_callback (device_items (fst (?f s))) = map qi_callback (device_items s)" for s
      using device_step_order [OF step, of s] by simp
  qed (simp add: idle)
  then have "mset (map fst (tq_answers q')) + unanswered (tq_queues q') = mset (map fst (tq_answers q)) + unanswered (tq_queues q)"
    using q'(3,4) by (simp add: ac_simps)
  moreover have "dev q' d = fst (?f (dev q d))" for d using dev' [of d] q'(3) by (simp add: dev_def)
  ultimately show ?thesis using q'(1,2,5) eq by auto
qed

lemma queue_inv_transfer:
  assumes "queue_inv timers [] inflight q" "tq_queues q' = tq_queues q" "tq_running_timers q' = tq_running_timers q"
    and "timers_match timers q'" "distinct (sends inflight' q')" "set (sends inflight' q') = set (sends inflight q)"
  shows "queue_inv timers [] inflight' q'"
proof -
  have "dev q' = dev q" by (simp add: dev_def fun_eq_iff assms(2))
  then show ?thesis using assms unfolding queue_inv_def by simp
qed

lemma device_step_timer: "device_step DO_Timer = OldDeviceQueue_on_timer"
  by (rule ext) simp

lemma poll_timers_step:
  assumes inv: "queue_inv timers [] inflight q"
    and poll: "DelayQueue_poll_next tk now cx (tq_timers q) = (Ready (Some (Ok e)), dl)"
  shows "\<exists>d q'. e = Expired (Some d) \<and> Queue_on_timer tk now d (q\<lparr>tq_timers := dl\<rparr>) = Return q' \<and>
    queue_inv timers [] inflight q' \<and>
    mset (map fst (tq_answers q')) + unanswered (tq_queues q') = mset (map fst (tq_answers q)) + unanswered (tq_queues q) \<and>
    card (due_timers timers now q') < card (due_timers timers now q)"
proof -
  have running: "\<not> dl_finished (tq_timers q)" using queue_invD(2) [OF inv] by (simp add: timers_match_def)
  from DelayQueue_polled [OF running poll] obtain d k t where e: "e = Expired (Some d)"
    "live_timers timers (tq_timers q) k = Some (d, t)" "t \<le> now"
    "live_timers timers dl = (live_timers timers (tq_timers q))(k := None)" "\<not> dl_finished dl" by auto
  let ?q = "q\<lparr>tq_timers := dl, tq_running_timers := (tq_running_timers q)(d := None)\<rparr>"
  obtain q' where q': "Queue_update_and_handle_action tk now d OldDeviceQueue_on_timer ?q = Return q'" "queue_inv timers [] inflight q'"
    "mset (map fst (tq_answers q')) + unanswered (tq_queues q') = mset (map fst (tq_answers q)) + unanswered (tq_queues q)"
    "due_timers timers now q' \<subseteq> due_timers timers now ?q"
    using update_total [OF ready_for_timer [OF inv e(2) e(5) e(4)] device_step_timer [symmetric], of now] by auto
  have "due_timers timers now ?q = due_timers timers now q - {k}" by (auto simp: due_timers_def e(4) split: if_splits)
  moreover have "k \<in> due_timers timers now q" using e(2,3) by (auto simp: due_timers_def)
  moreover have "finite (due_timers timers now q)"
    by (rule finite_subset [OF _ live_finite [of "tq_timers q"]]) (auto simp: due_timers_def)
  ultimately have "card (due_timers timers now q') < card (due_timers timers now q)"
    using q'(4) by (intro psubset_card_mono) auto
  moreover have "Queue_on_timer tk now d (q\<lparr>tq_timers := dl\<rparr>) = Return q'" using q'(1) by (simp add: Queue_on_timer_def)
  ultimately show ?thesis using e(1) q'(2,3) by blast
qed

lemma poll_timers_total:
  assumes "queue_inv timers [] inflight q"
  shows "case Queue_poll_timers fuel tk now cx q of
      None \<Rightarrow> fuel \<le> card (due_timers timers now q)
    | Some r \<Rightarrow> \<exists>q'. r = Return q' \<and> queue_inv timers [] inflight q' \<and>
        mset (map fst (tq_answers q')) + unanswered (tq_queues q') = mset (map fst (tq_answers q)) + unanswered (tq_queues q)"
  using assms
proof (induction fuel arbitrary: q)
  case (Suc fuel)
  obtain r dl where poll: "DelayQueue_poll_next tk now cx (tq_timers q) = (r, dl)" by (cases "DelayQueue_poll_next tk now cx (tq_timers q)")
  have running: "\<not> dl_finished (tq_timers q)" using queue_invD(2) [OF Suc.prems] by (simp add: timers_match_def)
  note polled = DelayQueue_polled [OF running poll]
  show ?case
  proof (cases r)
    case Pending
    then have "timers_match timers (q\<lparr>tq_timers := dl\<rparr>)"
      using queue_invD(2) [OF Suc.prems] polled by (simp add: timers_match_def)
    then have "queue_inv timers [] inflight (q\<lparr>tq_timers := dl\<rparr>)"
      using queue_invD(3) [OF Suc.prems] by (intro queue_inv_transfer [OF Suc.prems]) (simp_all add: sends_def)
    then show ?thesis by (simp add: poll Pending)
  next
    case (Ready x)
    then obtain e where e: "r = Ready (Some (Ok e))" using polled(2) poll DelayQueue_no_error by (cases x; cases "the x") auto
    then obtain d q' where q': "e = Expired (Some d)" "Queue_on_timer tk now d (q\<lparr>tq_timers := dl\<rparr>) = Return q'"
      "queue_inv timers [] inflight q'"
      "mset (map fst (tq_answers q')) + unanswered (tq_queues q') = mset (map fst (tq_answers q)) + unanswered (tq_queues q)"
      "card (due_timers timers now q') < card (due_timers timers now q)"
      using poll_timers_step [OF Suc.prems] poll by blast
    have "Queue_poll_timers (Suc fuel) tk now cx q = Queue_poll_timers fuel tk now cx q'"
      using q'(1,2) by (simp add: poll e)
    then show ?thesis using Suc.IH [OF q'(3)] q'(4,5) by (auto split: option.splits)
  qed
qed simp

end

text \<open>The frames in flight: taken from the queue, with the result of sending not reported back.\<close>

fun after_event :: "queue_event option poll \<Rightarrow> address_specification list \<Rightarrow> address_specification list" where
  "after_event (Ready (Some (QueueEvent_OutgoingFrame d _))) inflight = d # inflight"
| "after_event _ inflight = inflight"

text \<open>
  What a user can do with a queue: every operation, at any time, in any order, with the map
  iterated in any order; a result is reported for a frame that is in flight.  The index lists are the
  requests so far and the frames in flight.
\<close>

inductive queue_reach :: "('k, 'e, 'q) address_timers \<Rightarrow> nat list \<Rightarrow> address_specification list \<Rightarrow> ('k, 'q) transmit_queue \<Rightarrow> bool"
  for tk where
  new: "queue_reach tk [] [] (Queue_new tk)"
| enqueue: "queue_reach tk requests inflight q \<Longrightarrow> Queue_enqueue tk now channel frame receiver_on q = Return q' \<Longrightarrow>
    queue_reach tk (requests @ [channel]) inflight q'"
| ack: "queue_reach tk requests inflight q \<Longrightarrow> Queue_on_ack tk now n q = Return q' \<Longrightarrow> queue_reach tk requests inflight q'"
| send_result: "queue_reach tk requests inflight q \<Longrightarrow> d \<in> set inflight \<Longrightarrow> Queue_on_send_result tk now d success q = Return q' \<Longrightarrow>
    queue_reach tk requests (remove1 d inflight) q'"
| data_request: "queue_reach tk requests inflight q \<Longrightarrow> Queue_on_data_request tk now d q = Return (b, q') \<Longrightarrow>
    queue_reach tk requests inflight q'"
| poll: "queue_reach tk requests inflight q \<Longrightarrow> Queue_poll_next fuel tk now cx q = Some (Return (r, q')) \<Longrightarrow>
    queue_reach tk requests (after_event r inflight) q'"
| reorder: "queue_reach tk requests inflight q \<Longrightarrow> reordered (tq_queues q) queues \<Longrightarrow>
    queue_reach tk requests inflight (q\<lparr>tq_queues := queues\<rparr>)"

lemma first_flushed_subset: "first_flushed queues ds = (r, rest) \<Longrightarrow> set rest \<subseteq> set ds"
  by (induction queues ds rule: first_flushed.induct) (auto split: if_splits)

context address_queue
begin

lemma poll_next_total:
  assumes inv: "queue_inv timers [] inflight q"
  shows "case Queue_poll_next fuel tk now cx q of
      None \<Rightarrow> fuel \<le> card (due_timers timers now q)
    | Some m \<Rightarrow> \<exists>r q'. m = Return (r, q') \<and> queue_inv timers [] (after_event r inflight) q' \<and>
        mset (map fst (tq_answers q')) + unanswered (tq_queues q') = mset (map fst (tq_answers q)) + unanswered (tq_queues q)"
proof -
  let ?q = "q\<lparr>tq_stream_waker := SavedWaker_set (tq_stream_waker q) cx\<rparr>"
  have inv': "queue_inv timers [] inflight ?q"
    using queue_invD(2,3) [OF inv] by (intro queue_inv_transfer [OF inv]) (simp_all add: timers_match_def sends_def)
  have due: "due_timers timers now ?q = due_timers timers now q" by (simp add: due_timers_def)
  show ?thesis
  proof (cases "Queue_poll_timers fuel tk now cx ?q")
    case None
    then show ?thesis using poll_timers_total [OF inv', of fuel now cx] due by (simp add: Queue_poll_next_def)
  next
    case (Some m)
    then obtain q1 where q1: "m = Return q1" "queue_inv timers [] inflight q1"
      "mset (map fst (tq_answers q1)) + unanswered (tq_queues q1) = mset (map fst (tq_answers q)) + unanswered (tq_queues q)"
      using poll_timers_total [OF inv', of fuel now cx] by auto
    note inv1 = queue_invD(2,3) [OF q1(2)]
    show ?thesis
    proof (cases "tq_outgoing q1")
      case Nil
      obtain r flushed where r: "first_flushed (tq_queues q1) (tq_flushed q1) = (r, flushed)"
        by (cases "first_flushed (tq_queues q1) (tq_flushed q1)")
      have "queue_inv timers [] inflight (q1\<lparr>tq_flushed := flushed\<rparr>)"
        using inv1 by (intro queue_inv_transfer [OF q1(2)]) (simp_all add: timers_match_def sends_def)
      then show ?thesis using Some q1(1,3) Nil r by (cases r) (simp_all add: Queue_poll_next_def)
    next
      case (Cons p outgoing)
      obtain d f where p: "p = (d, f)" by (cases p)
      have "distinct (sends (d # inflight) (q1\<lparr>tq_outgoing := outgoing\<rparr>))"
        "set (sends (d # inflight) (q1\<lparr>tq_outgoing := outgoing\<rparr>)) = set (sends inflight q1)"
        using inv1(2) by (auto simp: sends_def Cons p)
      then have "queue_inv timers [] (d # inflight) (q1\<lparr>tq_outgoing := outgoing\<rparr>)"
        using inv1 by (intro queue_inv_transfer [OF q1(2)]) (simp_all add: timers_match_def)
      then show ?thesis using Some q1(1,3) Cons p by (simp add: Queue_poll_next_def)
    qed
  qed
qed

lemma enqueue_total:
  assumes "queue_inv timers [] inflight q"
  shows "\<exists>q'. Queue_enqueue tk now channel frame receiver_on q = Return q' \<and> queue_inv timers [] inflight q' \<and>
    mset (map fst (tq_answers q')) + unanswered (tq_queues q') =
      mset (map fst (tq_answers q)) + unanswered (tq_queues q) + {#channel#}"
proof -
  let ?item = "DeviceQueueItem_new channel frame receiver_on (Some (Duration_from_secs 10)) 5"
  have "has_timeout ?item" by (simp add: has_timeout_def DeviceQueueItem_new_def Duration_from_secs_def)
  moreover have "(\<lambda>x. OldDeviceQueue_enqueue x ?item) = device_step (DO_Enqueue ?item)" by (rule ext) simp
  ultimately show ?thesis
    using update_total [OF ready_for_enqueue [OF assms, of ?item "mf_destination frame"], where now = now]
    by (auto simp: Queue_enqueue_def Let_def) (auto simp: DeviceQueueItem_new_def)
qed

lemma data_request_total:
  assumes "queue_inv timers [] inflight q"
  shows "\<exists>b q'. Queue_on_data_request tk now d q = Return (b, q') \<and> queue_inv timers [] inflight q' \<and>
    mset (map fst (tq_answers q')) + unanswered (tq_queues q') = mset (map fst (tq_answers q)) + unanswered (tq_queues q)"
proof -
  have "OldDeviceQueue_on_data_request = device_step DO_DataRequest" by (rule ext) simp
  then show ?thesis
    using update_total [OF ready_for_data_request [OF assms, of d], where now = now]
    by (auto simp: Queue_on_data_request_def)
qed

lemma send_result_total:
  assumes "queue_inv timers [] inflight q" "d \<in> set inflight"
  shows "\<exists>q'. Queue_on_send_result tk now d success q = Return q' \<and> queue_inv timers [] (remove1 d inflight) q' \<and>
    (dev q' d = DS_Idle \<longrightarrow> d \<in> set (tq_flushed q')) \<and>
    mset (map fst (tq_answers q')) + unanswered (tq_queues q') = mset (map fst (tq_answers q)) + unanswered (tq_queues q)"
proof -
  have "(\<lambda>x. OldDeviceQueue_on_send_result x success) = device_step (DO_SendResult success)" by (rule ext) simp
  then show ?thesis
    using update_total [OF ready_for_send_result [OF assms, of success], where now = now]
    by (auto simp: Queue_on_send_result_def)
qed

lemma queue_reach_inv:
  assumes "queue_reach tk requests inflight q"
  shows "queue_inv timers [] inflight q \<and>
    mset (map fst (tq_answers q)) + unanswered (tq_queues q) = mset requests"
  using assms
proof (induction rule: queue_reach.induct)
  case new
  have "queue_inv timers [] [] (Queue_new tk)"
    using DelayQueue_new_timers
    by (simp add: queue_inv_def Queue_new_def timers_match_def matched_empty sends_def dev_def unwrap_or_idle_def)
  then show ?case by (simp add: Queue_new_def unanswered_def)
next
  case (enqueue requests inflight q now channel frame receiver_on q')
  then show ?case using enqueue_total [of inflight q now channel frame receiver_on] by auto
next
  case (ack requests inflight q now n q')
  then show ?case using on_ack_total [of inflight q now n] by auto
next
  case (send_result requests inflight q d now success q')
  then show ?case using send_result_total [of inflight q d now success] by auto
next
  case (data_request requests inflight q now d b q')
  then show ?case using data_request_total [of inflight q now d] by auto
next
  case (poll requests inflight q fuel now cx r q')
  then show ?case using poll_next_total [of inflight q fuel now cx] by auto
next
  case (reorder requests inflight q queues)
  then have wf: "hm_wf (tq_queues q)" "hm_wf queues" using queue_invD(1) reordered_wf by blast+
  have same: "map_of queues = map_of (tq_queues q)" "set queues = set (tq_queues q)"
    using reorder wf by (simp_all add: reordered_map_of reordered_def)
  have "mset queues = mset (tq_queues q)"
    using wf same(2) by (metis hm_wf_def distinct_map set_eq_iff_mset_eq_distinct)
  then show ?case
    using reorder wf same
    by (simp add: queue_inv_def dev_def timers_match_def sends_def unanswered_def)
qed

end

section \<open>An example\<close>

text \<open>One request for a device that is awake: it is sent, the radio confirms, and the device has to acknowledge.\<close>

definition demo_destination :: address_specification where
  "demo_destination = AddressSpecification_Short (PANID 0x7698) (ShortAddress 1)"

definition demo_mac_frame :: mac_frame where
  "demo_mac_frame =
     \<lparr>mf_frame_pending = False, mf_acknowledge_request = True, mf_sequence_number = Some 10,
      mf_destination = demo_destination, mf_source = AddressSpecification_None, mf_frame_type = MacFrameType_Data, mf_payload = [1]\<rparr>"

lemmas queue_compute = Queue_enqueue_def Queue_update_and_handle_action_def Queue_handle_optional_def Queue_new_def
  unwrap_or_idle_def Queue_stop_timer_def OldDeviceQueue_start_send_def DeviceQueueItem_new_def MacFrame_expect_ack_def
  answered_def demo_mac_frame_def Queue_poll_next_def Queue_on_send_result_def DelayQueue_poll_next_def DelayQueue_new_def
  DelayQueue_insert_def tokio_impl_def timer_due_def timer_insert_def

definition demo_item :: queue_item where
  "demo_item = DeviceQueueItem_new 7 demo_mac_frame True (Some (Duration_from_secs 10)) 5"

lemma demo_enqueued:
  obtains q where "queue_reach tokio_impl [7] [] q" "tq_queues q = [(demo_destination, DS_SendStarted demo_item [] (Some 10))]"
proof -
  obtain q where "Queue_enqueue tokio_impl 0 7 demo_mac_frame True (Queue_new tokio_impl) = Return q"
      "tq_queues q = [(demo_destination, DS_SendStarted demo_item [] (Some 10))]"
    by (simp add: queue_compute demo_item_def)
  then show thesis using that enqueue [OF new] by fastforce
qed

lemma demo_waiting:
  obtains q where "queue_reach tokio_impl [7] [] q" "map_of (tq_queues q) demo_destination = Some (DS_WaitingForAck demo_item [] 10)"
proof -
  obtain q where q: "Queue_enqueue tokio_impl 0 7 demo_mac_frame True (Queue_new tokio_impl) = Return q" by (simp add: queue_compute)
  obtain q1 where q1: "Queue_poll_next 1 tokio_impl 0 (Waker 0) q =
      Some (Return (Ready (Some (QueueEvent_OutgoingFrame demo_destination demo_mac_frame)), q1))"
    using q by (auto simp: queue_compute)
  obtain q2 where q2: "Queue_on_send_result tokio_impl 0 demo_destination True q1 = Return q2"
      "map_of (tq_queues q2) demo_destination = Some (DS_WaitingForAck demo_item [] 10)"
    using q q1 by (auto simp: queue_compute demo_item_def)
  have "queue_reach tokio_impl [7] [demo_destination] q1" using poll [OF enqueue [OF new q] q1] by simp
  from send_result [OF this _ q2(1)] have "queue_reach tokio_impl [7] [] q2" by simp
  then show thesis using that q2(2) by blast
qed

section \<open>Theorems\<close>

text \<open>The queue of a device answers its requests in the order they were enqueued, each exactly
  once: after any operations the answered requests followed by the waiting ones are those enqueued.  Each is
  sent at most once more than its number of retries.\<close>

theorem OldDeviceQueue_in_order:
  "case device_run ops DS_Idle of (s, actions, answers) \<Rightarrow>
     map fst answers @ map qi_callback (device_items s) = map qi_callback (concat (map enqueued ops)) \<and>
     length (filter (\<lambda>a. attempts (Some a) = 1) actions) \<le> sum_list (map (\<lambda>item. qi_retries item + 1) (concat (map enqueued ops)))"
proof -
  have run: "case device_run ops s0 of (s, actions, answers) \<Rightarrow>
     map fst answers @ map qi_callback (device_items s) = map qi_callback (device_items s0 @ concat (map enqueued ops)) \<and>
     length (filter (\<lambda>a. attempts (Some a) = 1) actions) + device_budget s \<le> device_budget s0 + item_budget (concat (map enqueued ops))"
    for s0
  proof (induction ops arbitrary: s0)
    case (Cons op ops)
    obtain s1 action answers where step: "device_step op s0 = (s1, action, answers)" by (cases "device_step op s0")
    obtain s actions rest where run: "device_run ops s1 = (s, actions, rest)" by (cases "device_run ops s1")
    have "length (filter (\<lambda>a. attempts (Some a) = 1) (case action of None \<Rightarrow> actions | Some a \<Rightarrow> a # actions)) =
        attempts action + length (filter (\<lambda>a. attempts (Some a) = 1) actions)"
      by (cases action rule: attempts.cases) simp_all
    then show ?case
      using device_step_order [OF step] device_step_budget [OF step] Cons.IH [of s1]
      by (auto simp: step run item_budget_def)
  qed (simp add: item_budget_def)
  show ?thesis using run [of DS_Idle] by (auto simp: item_budget_def split: prod.splits)
qed

text \<open>C22. No request is lost, and none is answered twice: after any operations of the transmit queue, at
  any times and with its map iterated in any order, the answered requests and those in the queues of the
  devices are together the requests made.\<close>

theorem Queue_answers_each_request_once:
  assumes "address_queue tk timers" "queue_reach tk requests inflight q"
  shows "mset (map fst (tq_answers q)) + unanswered (tq_queues q) = mset requests"
  using address_queue.queue_reach_inv [OF assms] by simp

theorem Queue_answers_each_request_once_witness:
  "\<exists>q. queue_reach tokio_impl [7] [] q \<and> mset (map fst (tq_answers q)) + unanswered (tq_queues q) = {#7#}"
proof -
  obtain q where "queue_reach tokio_impl [7] [] q" using demo_waiting .
  then show ?thesis using Queue_answers_each_request_once [OF address_impl.address_queue_axioms, of "[7]" "[]" q] by auto
qed

text \<open>C21. A device with requests is never forgotten: either its timer is running, or a frame to it is on
  its way, to the radio or on the air, and not both; and no two frames to the same address are on their way.\<close>

theorem Queue_never_stuck:
  assumes "address_queue tk timers" "queue_reach tk requests inflight q" "map_of (tq_queues q) d = Some s"
  shows "(\<exists>k t. live_timers timers (tq_timers q) k = Some (d, t)) \<noteq> (d \<in> set (map fst (tq_outgoing q) @ inflight)) \<and>
    distinct (map fst (tq_outgoing q) @ inflight)"
proof -
  have inv: "queue_inv timers [] inflight q" using address_queue.queue_reach_inv [OF assms(1,2)] by simp
  have s: "dev q d = s" "s \<noteq> DS_Idle"
    using assms(3) inv by (auto simp: dev_def unwrap_or_idle_def queue_inv_def dest!: map_of_SomeD)
  have fits: "tq_running_timers q d \<noteq> None \<longleftrightarrow> waiting s" "d \<in> set (sends inflight q) \<longleftrightarrow> sending s"
    using queue_invD(4) [OF inv, of d] s(1) by auto
  have "matched (tq_running_timers q) (live_timers timers (tq_timers q))"
    using queue_invD(2) [OF inv] by (simp add: timers_match_def)
  then have "tq_running_timers q d \<noteq> None \<longleftrightarrow> (\<exists>k t. live_timers timers (tq_timers q) k = Some (d, t))"
    using matched_key matched_iff by fastforce
  then show ?thesis using fits s(2) queue_invD(3) [OF inv] by (cases s) (auto simp: sends_def)
qed

theorem Queue_never_stuck_witness:
  "\<exists>q. queue_reach tokio_impl [7] [] q \<and>
    (\<exists>k t. live_timers timer_map (tq_timers q) k = Some (demo_destination, t)) \<noteq> (demo_destination \<in> set (map fst (tq_outgoing q) @ []))"
proof -
  obtain q where q: "queue_reach tokio_impl [7] [] q" "map_of (tq_queues q) demo_destination = Some (DS_WaitingForAck demo_item [] 10)"
    using demo_waiting .
  show ?thesis using Queue_never_stuck [OF address_impl.address_queue_axioms q] q(1) by blast
qed

text \<open>C23. The transmit queue never panics: every operation on a reachable queue returns, and handling the
  expired timers ends, with fuel for each of them.\<close>

theorem Queue_never_panics:
  assumes "address_queue tk timers" "queue_reach tk requests inflight q"
  shows "(\<exists>q'. Queue_enqueue tk now channel frame receiver_on q = Return q') \<and>
    (\<exists>q'. Queue_on_ack tk now n q = Return q') \<and>
    (\<forall>d \<in> set inflight. \<exists>q'. Queue_on_send_result tk now d success q = Return q') \<and>
    (\<exists>r. Queue_on_data_request tk now d q = Return r) \<and>
    (\<exists>r. Queue_poll_next (Suc (card (due_timers timers now q))) tk now cx q = Some (Return r))"
proof -
  have inv: "queue_inv timers [] inflight q" using address_queue.queue_reach_inv [OF assms] by simp
  note total = address_queue.enqueue_total [OF assms(1) inv] address_queue.on_ack_total [OF assms(1) inv]
    address_queue.send_result_total [OF assms(1) inv] address_queue.data_request_total [OF assms(1) inv]
  have "\<exists>r. Queue_poll_next (Suc (card (due_timers timers now q))) tk now cx q = Some (Return r)"
    using address_queue.poll_next_total [OF assms(1) inv, of "Suc (card (due_timers timers now q))" now cx]
    by (auto split: option.splits)
  then show ?thesis using total by meson
qed

theorem Queue_never_panics_witness:
  "\<exists>q. queue_reach tokio_impl [7] [] q \<and> (\<exists>q'. Queue_on_ack tokio_impl 5 10 q = Return q')"
proof -
  obtain q where q: "queue_reach tokio_impl [7] [] q" using demo_waiting .
  show ?thesis using Queue_never_panics [OF address_impl.address_queue_axioms q] q by blast
qed

text \<open>C38. The acknowledgement of the last frame for a device empties its queue and announces nothing, while
  a queue emptied by the result of sending is put on the list of flushed queues.\<close>

theorem Queue_ack_not_announced:
  assumes "address_queue tk timers" "queue_reach tk requests inflight q"
    and "map_of (tq_queues q) d = Some (DS_WaitingForAck front [] n)" "Queue_on_ack tk now n q = Return q'"
  shows "map_of (tq_queues q') d = None \<and> tq_flushed q' = tq_flushed q \<and>
    (\<forall>d2 success q2. d2 \<in> set inflight \<longrightarrow> Queue_on_send_result tk now d2 success q = Return q2 \<longrightarrow>
      map_of (tq_queues q2) d2 = None \<longrightarrow> d2 \<in> set (tq_flushed q2))"
proof -
  have inv: "queue_inv timers [] inflight q" using address_queue.queue_reach_inv [OF assms(1,2)] by simp
  have q': "queue_inv timers [] inflight q'" "dev q' d = fst (OldDeviceQueue_on_ack (dev q d) n)" "tq_flushed q' = tq_flushed q"
    using address_queue.on_ack_total [OF assms(1) inv, of now n] assms(4) by auto
  have "dev q' d = DS_Idle"
    using q'(2) assms(3) by (simp add: dev_def unwrap_or_idle_def answered_def OldDeviceQueue_restart_from_queue_def)
  then have "map_of (tq_queues q') d = None"
    using q'(1) by (auto simp: queue_inv_def dev_def unwrap_or_idle_def split: option.splits dest!: map_of_SomeD)
  moreover have "d2 \<in> set (tq_flushed q2)"
    if "d2 \<in> set inflight" "Queue_on_send_result tk now d2 success q = Return q2" "map_of (tq_queues q2) d2 = None" for d2 success q2
    using address_queue.send_result_total [OF assms(1) inv that(1), of now success] that(2,3)
    by (auto simp: dev_def unwrap_or_idle_def)
  ultimately show ?thesis using q'(3) by blast
qed

theorem Queue_ack_not_announced_witness:
  "\<exists>q q'. queue_reach tokio_impl [7] [] q \<and> map_of (tq_queues q) demo_destination = Some (DS_WaitingForAck demo_item [] 10) \<and>
    Queue_on_ack tokio_impl 5 10 q = Return q' \<and> map_of (tq_queues q') demo_destination = None \<and> tq_flushed q' = tq_flushed q"
proof -
  obtain q where q: "queue_reach tokio_impl [7] [] q" "map_of (tq_queues q) demo_destination = Some (DS_WaitingForAck demo_item [] 10)"
    using demo_waiting .
  obtain q' where q': "Queue_on_ack tokio_impl 5 10 q = Return q'"
    using address_impl.on_ack_total address_impl.queue_reach_inv [OF q(1)] by blast
  show ?thesis using Queue_ack_not_announced [OF address_impl.address_queue_axioms q q'] q q' by blast
qed

end
