(* ===== verification/Old_Service.thy ===== *)
theory Old_Service
  imports Old_Queue Radio_Bridge
begin

text \<open>
  The MAC service of the earlier stack (\<^verbatim>\<open>old_src/ieee802154/mac/service.rs\<close>) and the event loop that
  drives it (\<^verbatim>\<open>old_src/main.rs\<close>), over the transmit queue, the sets of recently used addresses and the
  radio bridge.  The service shares the state of the bridge with the task that reads the serial port; the
  packets that task has put into its channel are the stream the service polls.  A request to the
  radio is identified by its position among the commands sent.
\<close>

section \<open>The map of associations\<close>

text \<open>The map with keys on both sides of \<^verbatim>\<open>bimap\<close>, with its lookups.\<close>

record ('l, 'r, 'bm) bimap_lookup =
  bl_map :: "('l, 'r, 'bm) bimap_ops"
  bl_get_by_left :: "'l \<Rightarrow> 'bm \<Rightarrow> 'r option"
  bl_get_by_right :: "'r \<Rightarrow> 'bm \<Rightarrow> 'l option"
  bl_contains_left :: "'l \<Rightarrow> 'bm \<Rightarrow> bool"

locale bimap_lookup_crate = bimap_crate "bl_map bl" pairs
  for bl :: "('l, 'r, 'bm) bimap_lookup" and pairs :: "'bm \<Rightarrow> ('l \<times> 'r) set" +
  assumes get_by_left_iff: "bl_get_by_left bl l m = Some r \<longleftrightarrow> (l, r) \<in> pairs m"
    and get_by_right_iff: "bl_get_by_right bl r m = Some l \<longleftrightarrow> (l, r) \<in> pairs m"
    and contains_left_iff: "bl_contains_left bl l m \<longleftrightarrow> l \<in> fst ` pairs m"

definition bimap_lookup_impl :: "('l, 'r, ('l \<times> 'r) list) bimap_lookup" where
  "bimap_lookup_impl =
     \<lparr>bl_map = bimap_impl,
      bl_get_by_left = (\<lambda>l m. map_option snd (List.find (\<lambda>p. fst p = l) (bimap_pairs m))),
      bl_get_by_right = (\<lambda>r m. map_option fst (List.find (\<lambda>p. snd p = r) (bimap_pairs m))),
      bl_contains_left = (\<lambda>l m. \<exists>p \<in> set (bimap_pairs m). fst p = l)\<rparr>"

lemma find_unique:
  assumes "\<And>p q. p \<in> set xs \<Longrightarrow> q \<in> set xs \<Longrightarrow> P p \<Longrightarrow> P q \<Longrightarrow> p = q" "x \<in> set xs" "P x"
  shows "List.find P xs = Some x"
  using assms by (induction xs) auto

interpretation bimap_lookup_impl: bimap_lookup_crate bimap_lookup_impl "\<lambda>m. set (bimap_pairs m)"
proof -
  have base: "bl_map bimap_lookup_impl = (bimap_impl :: ('l, 'r, ('l \<times> 'r) list) bimap_ops)"
    by (simp add: bimap_lookup_impl_def)
  show "bimap_lookup_crate (bimap_lookup_impl :: ('l, 'r, _) bimap_lookup) (\<lambda>m. set (bimap_pairs m))"
    unfolding bimap_lookup_crate_def base
  proof (intro conjI bimap_impl.bimap_crate_axioms, unfold_locales)
    fix l r and m :: "('l \<times> 'r) list"
    have "List.find (\<lambda>p. fst p = l) (bimap_pairs m) = Some (l, r)" if "(l, r) \<in> set (bimap_pairs m)"
      by (rule find_unique, rule bimap_pairs_unique) (use that in auto)
    then show "bl_get_by_left bimap_lookup_impl l m = Some r \<longleftrightarrow> (l, r) \<in> set (bimap_pairs m)"
      by (auto simp: bimap_lookup_impl_def dest!: find_SomeD)
    have "List.find (\<lambda>p. snd p = r) (bimap_pairs m) = Some (l, r)" if "(l, r) \<in> set (bimap_pairs m)"
      by (rule find_unique, rule bimap_pairs_unique) (use that in auto)
    then show "bl_get_by_right bimap_lookup_impl r m = Some l \<longleftrightarrow> (l, r) \<in> set (bimap_pairs m)"
      by (auto simp: bimap_lookup_impl_def dest!: find_SomeD)
    show "bl_contains_left bimap_lookup_impl l m \<longleftrightarrow> l \<in> fst ` set (bimap_pairs m)"
      by (auto simp: bimap_lookup_impl_def)
  qed
qed

section \<open>Errors, events and futures\<close>

datatype 'se service_error =
    ServiceError_RadioError bridge_error
  | ServiceError_Unimplemented
  | ServiceError_SerializationError 'se
  | ServiceError_NodeNotAssociated
  | ServiceError_QueueError old_queue_error

datatype service_event =
    ServiceEvent_BeaconRequest
  | ServiceEvent_AssociationRequest extended_address bool

record node_information =
  ni_receiver_on_when_idle :: bool

text \<open>A future is ready, or waits for the answer to a request to the radio.\<close>

datatype ('a, 'e) radio_future = RF_Ready "('a, 'e) result" | RF_Waiting nat "raw_answer \<Rightarrow> ('a, 'e) result"

text \<open>The receiver of a request given to the queue, or an error at once.\<close>

datatype 'se response_future = RS_Failed "'se service_error" | RS_Queued nat

text \<open>Calling the radio: the request is sent when the future is made.\<close>

definition radio_start :: "(bridge_error \<Rightarrow> 'e) \<Rightarrow> 'a bridge_future \<Rightarrow> nat bridge_state \<Rightarrow>
    (('a, 'e) radio_future \<times> nat bridge_state) outcome" where
  "radio_start into fut radio =
     (case fut of
        Failed e \<Rightarrow> Return (RF_Ready (Err (into e)), radio)
      | Called request handle \<Rightarrow>
          (let tx = length (br_sent radio)
           in bind_outcome (bridge_step (Event_Call tx request) radio) (\<lambda>radio.
              Return (RF_Waiting tx (\<lambda>answer. map_err into (handle answer)), radio))))"

definition radio_poll :: "nat bridge_state \<Rightarrow> ('a, 'e) radio_future \<Rightarrow> ('a, 'e) result poll" where
  "radio_poll radio fut =
     (case fut of
        RF_Ready r \<Rightarrow> Ready r
      | RF_Waiting tx handle \<Rightarrow>
          (case map_of (br_answers radio) tx of Some answer \<Rightarrow> Ready (handle answer) | None \<Rightarrow> Pending))"

section \<open>The service\<close>

record ('se, 'de, 'bm, 'k, 'e, 'q) service_deps =
  dep_ps :: "('se, 'de) parse_serialize"
  dep_bf8 :: "u8 bitfield_ops"
  dep_bf :: "u16 bitfield_ops"
  dep_bimap :: "(short_address, extended_address, 'bm) bimap_lookup"
  dep_timers :: "('k, 'e, 'q) address_timers"

record ('se, 'bm, 'k, 'q) old_service =
  os_handle_open :: bool
  os_packets_ended :: bool
  os_radio :: "nat bridge_state"
  os_sequence_number :: u8
  os_pan_id :: panid
  os_short_address :: short_address
  os_extended_address :: extended_address
  os_associations :: 'bm
  os_nodeinfo :: "extended_address \<rightharpoonup> node_information"
  os_queue :: "('k, 'q) transmit_queue"
  os_next_channel :: nat
  os_inflight :: "(address_specification, (unit, 'se service_error) radio_future) hash_map"
  os_pending_data_set :: mru_address_set

subsection \<open>Radio and pending data\<close>

definition OldService_radio :: "'a bridge_future \<Rightarrow> ('se, 'bm, 'k, 'q) old_service \<Rightarrow>
    (('a, 'se service_error) radio_future \<times> ('se, 'bm, 'k, 'q) old_service) outcome" where
  "OldService_radio fut self =
     bind_outcome (radio_start ServiceError_RadioError fut (os_radio self)) (\<lambda>(fut, radio).
     Return (fut, self\<lparr>os_radio := radio\<rparr>))"

text \<open>Spawning the future, of which only the failure is printed.\<close>

definition OldService_spawn :: "unit bridge_future \<Rightarrow> ('se, 'bm, 'k, 'q) old_service \<Rightarrow>
    ('se, 'bm, 'k, 'q) old_service outcome" where
  "OldService_spawn fut self =
     bind_outcome (OldService_radio fut self) (\<lambda>(_, self). if os_handle_open self then Return self else Panic)"

definition OldService_handle_mru_address_set_action :: "mru_address_set_action \<Rightarrow> ('se, 'bm, 'k, 'q) old_service \<Rightarrow>
    ('se, 'bm, 'k, 'q) old_service outcome" where
  "OldService_handle_mru_address_set_action action self =
     (case action of
        MRUAddressSetAction_None \<Rightarrow> Return self
      | MRUAddressSetAction_SetShortSlot slot addr \<Rightarrow>
          OldService_spawn (RadioBridgeService_set_pending_data_short slot
            (map_option (\<lambda>(panid, addr). (PANID_into panid, ShortAddress_into addr)) addr)) self
      | MRUAddressSetAction_SetExtendedSlot slot addr \<Rightarrow>
          OldService_spawn (RadioBridgeService_set_pending_data_ext slot (map_option ExtendedAddress_into addr)) self)"

definition OldService_set_pending_data :: "address_specification \<Rightarrow> bool \<Rightarrow> ('se, 'bm, 'k, 'q) old_service \<Rightarrow>
    ('se, 'bm, 'k, 'q) old_service outcome" where
  "OldService_set_pending_data addr pending_frames self =
     bind_outcome ((if pending_frames then MRUAddressSet_insert addr else MRUAddressSet_remove addr) (os_pending_data_set self))
       (\<lambda>(action, pending). OldService_handle_mru_address_set_action action (self\<lparr>os_pending_data_set := pending\<rparr>))"

subsection \<open>Incoming packets\<close>

definition OldService_handle_frame :: "('se, 'de, 'bm, 'k, 'e, 'q) service_deps \<Rightarrow> instant \<Rightarrow> mac_frame \<Rightarrow>
    ('se, 'bm, 'k, 'q) old_service \<Rightarrow> (service_event option \<times> ('se, 'bm, 'k, 'q) old_service) outcome" where
  "OldService_handle_frame dep now frame self =
     (case mf_frame_type frame of
        MacFrameType_Command MacCommand_BeaconRequest \<Rightarrow> Return (Some ServiceEvent_BeaconRequest, self)
      | MacFrameType_Command MacCommand_DataRequest \<Rightarrow>
          bind_outcome (Queue_on_data_request (dep_timers dep) now (mf_source frame) (os_queue self)) (\<lambda>(pending_frames, queue).
          bind_outcome (OldService_set_pending_data (mf_source frame) pending_frames (self\<lparr>os_queue := queue\<rparr>)) (\<lambda>self.
          Return (None, self)))
      | MacFrameType_Command (MacCommand_AssociationRequest request) \<Rightarrow>
          (case mf_source frame of
             AddressSpecification_Extended _ ext_source \<Rightarrow>
               Return (Some (ServiceEvent_AssociationRequest ext_source (mar_receive_on_when_idle request)), self)
           | _ \<Rightarrow> Return (None, self))
      | MacFrameType_Ack \<Rightarrow>
          (case mf_sequence_number frame of
             Some sequence_nr \<Rightarrow>
               bind_outcome (Queue_on_ack (dep_timers dep) now sequence_nr (os_queue self)) (\<lambda>queue.
               Return (None, self\<lparr>os_queue := queue\<rparr>))
           | None \<Rightarrow> Return (None, self))
      | _ \<Rightarrow> Return (None, self))"

definition OldService_handle_packet :: "('se, 'de, 'bm, 'k, 'e, 'q) service_deps \<Rightarrow> instant \<Rightarrow> bridge_packet \<Rightarrow>
    ('se, 'bm, 'k, 'q) old_service \<Rightarrow> (service_event option \<times> ('se, 'bm, 'k, 'q) old_service) outcome" where
  "OldService_handle_packet dep now packet self =
     bind_outcome (MacFrame_deserialize (dep_ps dep) (dep_bf8 dep) (dep_bf dep) (bp_packet packet)) (\<lambda>r.
       case r of
         Err e \<Rightarrow> Return (None, self)
       | Ok (_, frame) \<Rightarrow> OldService_handle_frame dep now frame self)"

subsection \<open>Outgoing frames\<close>

definition OldService_fresh_sequence_number :: "('se, 'bm, 'k, 'q) old_service \<Rightarrow> (u8 \<times> ('se, 'bm, 'k, 'q) old_service) outcome" where
  "OldService_fresh_sequence_number self =
     (if unat (os_sequence_number self) + 1 < 2 ^ 8 then
        (let self = self\<lparr>os_sequence_number := os_sequence_number self + 1\<rparr>
         in Return (os_sequence_number self, self))
      else Panic)"

definition OldService_send_frame_noqueue :: "('se, 'de, 'bm, 'k, 'e, 'q) service_deps \<Rightarrow> mac_frame \<Rightarrow>
    ('se, 'bm, 'k, 'q) old_service \<Rightarrow>
    ((unit, 'se service_error) radio_future \<times> ('se, 'bm, 'k, 'q) old_service) outcome" where
  "OldService_send_frame_noqueue dep frame self =
     (case MacFrame_serialize_to (dep_ps dep) (dep_bf dep) frame [] of
        (Err e, _) \<Rightarrow> Return (RF_Ready (Err (ServiceError_SerializationError e)), self)
      | (Ok _, serialized) \<Rightarrow> OldService_radio (RadioBridgeService_send serialized) self)"

definition OldService_send_beacon :: "('se, 'de, 'bm, 'k, 'e, 'q) service_deps \<Rightarrow> bytes \<Rightarrow> ('se, 'bm, 'k, 'q) old_service \<Rightarrow>
    ((unit, 'se service_error) radio_future \<times> ('se, 'bm, 'k, 'q) old_service) outcome" where
  "OldService_send_beacon dep beacon_payload self =
     bind_outcome (OldService_fresh_sequence_number self) (\<lambda>(sequence_nr, self).
       OldService_send_frame_noqueue dep
         \<lparr>mf_frame_pending = False, mf_acknowledge_request = False, mf_sequence_number = Some sequence_nr,
          mf_destination = AddressSpecification_None,
          mf_source = AddressSpecification_from_short (os_pan_id self, os_short_address self),
          mf_frame_type = MacFrameType_Beacon
            \<lparr>mb_beacon_order = 15, mb_superframe_order = 15, mb_final_cap_slot = 15, mb_battery_life_extension = False,
             mb_pan_coordinator = True, mb_association_permit = True\<rparr>,
          mf_payload = beacon_payload\<rparr> self)"

subsection \<open>Associations\<close>

text \<open>The loop of \<^verbatim>\<open>find_free_short_address\<close>, in which the sum of 16-bit numbers may not fit.\<close>

function find_free_from :: "(short_address \<Rightarrow> bool) \<Rightarrow> u16 \<Rightarrow> short_address outcome" where
  "find_free_from contains retval =
     (if contains (short_address.ShortAddress retval) then
        (if unat retval + 1 < 2 ^ 16 then find_free_from contains (retval + 1) else Panic)
      else Return (short_address.ShortAddress retval))"
  by auto
termination
proof (relation "measure (\<lambda>(_, retval). 2 ^ 16 - unat retval)")
  fix contains :: "short_address \<Rightarrow> bool" and retval :: u16
  assume "unat retval + 1 < 2 ^ 16"
  then have "unat (retval + 1) = unat retval + 1" using unat_add_lem [of retval 1] by simp
  then show "((contains, retval + 1), contains, retval) \<in> measure (\<lambda>(_, retval). 2 ^ 16 - unat retval)"
    using \<open>unat retval + 1 < 2 ^ 16\<close> by simp
qed simp

declare find_free_from.simps [simp del]

definition OldService_find_free_short_address :: "('se, 'de, 'bm, 'k, 'e, 'q) service_deps \<Rightarrow> ('se, 'bm, 'k, 'q) old_service \<Rightarrow>
    short_address outcome" where
  "OldService_find_free_short_address dep self =
     find_free_from (\<lambda>addr. bl_contains_left (dep_bimap dep) addr (os_associations self)) 0"

definition OldService_associate :: "('se, 'de, 'bm, 'k, 'e, 'q) service_deps \<Rightarrow> extended_address \<Rightarrow> bool \<Rightarrow>
    ('se, 'bm, 'k, 'q) old_service \<Rightarrow> (short_address \<times> ('se, 'bm, 'k, 'q) old_service) outcome" where
  "OldService_associate dep addr receiver_on_idle self =
     (let self = self\<lparr>os_nodeinfo := (os_nodeinfo self)(addr \<mapsto> \<lparr>ni_receiver_on_when_idle = receiver_on_idle\<rparr>)\<rparr>
      in case bl_get_by_right (dep_bimap dep) addr (os_associations self) of
           Some left \<Rightarrow> Return (left, self)
         | None \<Rightarrow>
             bind_outcome (OldService_find_free_short_address dep self) (\<lambda>short.
             Return (short, self\<lparr>os_associations := bm_insert (bl_map (dep_bimap dep)) short addr (os_associations self)\<rparr>)))"

fun OldService_get_nodeinfo_for_addrspec :: "('se, 'de, 'bm, 'k, 'e, 'q) service_deps \<Rightarrow> address_specification \<Rightarrow>
    ('se, 'bm, 'k, 'q) old_service \<Rightarrow> node_information option" where
  "OldService_get_nodeinfo_for_addrspec dep AddressSpecification_None self = None"
| "OldService_get_nodeinfo_for_addrspec dep (AddressSpecification_Short panid addr) self =
     (if panid = os_pan_id self then
        Option.bind (bl_get_by_left (dep_bimap dep) addr (os_associations self)) (\<lambda>extaddr. os_nodeinfo self extaddr)
      else None)"
| "OldService_get_nodeinfo_for_addrspec dep (AddressSpecification_Extended _ addr) self = os_nodeinfo self addr"

definition OldService_send_frame_queued :: "('se, 'de, 'bm, 'k, 'e, 'q) service_deps \<Rightarrow> instant \<Rightarrow> mac_frame \<Rightarrow>
    ('se, 'bm, 'k, 'q) old_service \<Rightarrow> ('se response_future \<times> ('se, 'bm, 'k, 'q) old_service) outcome" where
  "OldService_send_frame_queued dep now frame self =
     (let receiver_on_idle =
            (case OldService_get_nodeinfo_for_addrspec dep (mf_destination frame) self of
               Some x \<Rightarrow> ni_receiver_on_when_idle x | None \<Rightarrow> True)
      in bind_outcome (if \<not> receiver_on_idle then OldService_set_pending_data (mf_destination frame) True self
           else Return self) (\<lambda>self.
         let channel = os_next_channel self
         in bind_outcome (Queue_enqueue (dep_timers dep) now channel frame receiver_on_idle (os_queue self)) (\<lambda>queue.
            Return (RS_Queued channel, self\<lparr>os_queue := queue, os_next_channel := channel + 1\<rparr>))))"

definition OldService_send_association_response :: "('se, 'de, 'bm, 'k, 'e, 'q) service_deps \<Rightarrow> instant \<Rightarrow>
    extended_address \<Rightarrow> ('se, 'bm, 'k, 'q) old_service \<Rightarrow> ('se response_future \<times> ('se, 'bm, 'k, 'q) old_service) outcome" where
  "OldService_send_association_response dep now addr self =
     (case bl_get_by_right (dep_bimap dep) addr (os_associations self) of
        Some short \<Rightarrow>
          bind_outcome (OldService_fresh_sequence_number self) (\<lambda>(sequence_nr, self).
            OldService_send_frame_queued dep now
              \<lparr>mf_frame_pending = False, mf_acknowledge_request = True, mf_sequence_number = Some sequence_nr,
               mf_destination = AddressSpecification_from_extended (os_pan_id self, addr),
               mf_source = AddressSpecification_from_extended (os_pan_id self, os_extended_address self),
               mf_frame_type = MacFrameType_Command (MacCommand_AssociationResponse short Status_AssociationSuccessful),
               mf_payload = []\<rparr> self)
      | None \<Rightarrow> Return (RS_Failed ServiceError_NodeNotAssociated, self))"

subsection \<open>Polling\<close>

text \<open>
  The stream of packets: the channel that the reading task fills, and that ends with the task.  The
  loop over it takes fuel, since it never ends when the stream has ended.
\<close>

definition OldService_next_packet :: "('se, 'bm, 'k, 'q) old_service \<Rightarrow>
    bridge_packet option poll \<times> ('se, 'bm, 'k, 'q) old_service" where
  "OldService_next_packet self =
     (case br_packets (os_radio self) of
        p # ps \<Rightarrow> (Ready (Some p), self\<lparr>os_radio := (os_radio self)\<lparr>br_packets := ps\<rparr>\<rparr>)
      | [] \<Rightarrow> (if os_packets_ended self then Ready None else Pending, self))"

fun OldService_poll_packets :: "nat \<Rightarrow> ('se, 'de, 'bm, 'k, 'e, 'q) service_deps \<Rightarrow> instant \<Rightarrow> ('se, 'bm, 'k, 'q) old_service \<Rightarrow>
    (service_event option \<times> ('se, 'bm, 'k, 'q) old_service) outcome option" where
  "OldService_poll_packets 0 dep now self = None"
| "OldService_poll_packets (Suc fuel) dep now self =
     (case OldService_next_packet self of
        (Ready (Some packet), self) \<Rightarrow>
          (case OldService_handle_packet dep now packet self of
             Panic \<Rightarrow> Some Panic
           | Return (Some event, self) \<Rightarrow> Some (Return (Some event, self))
           | Return (None, self) \<Rightarrow> OldService_poll_packets fuel dep now self)
      | (Ready None, self) \<Rightarrow> OldService_poll_packets fuel dep now self
      | (Pending, self) \<Rightarrow> Some (Return (None, self)))"

text \<open>The destination is the key of the future of a frame.\<close>

fun OldService_handle_queue_event :: "('se, 'de, 'bm, 'k, 'e, 'q) service_deps \<Rightarrow> queue_event \<Rightarrow> ('se, 'bm, 'k, 'q) old_service \<Rightarrow>
    ('se, 'bm, 'k, 'q) old_service outcome" where
  "OldService_handle_queue_event dep (QueueEvent_OutgoingFrame d frame) self =
     bind_outcome (OldService_send_frame_noqueue dep frame self) (\<lambda>(fut, self).
     Return (self\<lparr>os_inflight := AList.update d fut (os_inflight self)\<rparr>))"
| "OldService_handle_queue_event dep (QueueEvent_QueueFlushed d) self = OldService_set_pending_data d False self"

fun OldService_poll_queue :: "nat \<Rightarrow> nat \<Rightarrow> ('se, 'de, 'bm, 'k, 'e, 'q) service_deps \<Rightarrow> instant \<Rightarrow> waker \<Rightarrow>
    ('se, 'bm, 'k, 'q) old_service \<Rightarrow> ('se, 'bm, 'k, 'q) old_service outcome option" where
  "OldService_poll_queue 0 timer_fuel dep now cx self = None"
| "OldService_poll_queue (Suc fuel) timer_fuel dep now cx self =
     (case Queue_poll_next timer_fuel (dep_timers dep) now cx (os_queue self) of
        None \<Rightarrow> None
      | Some Panic \<Rightarrow> Some Panic
      | Some (Return (r, queue)) \<Rightarrow>
          (let self = self\<lparr>os_queue := queue\<rparr>
           in case r of
                Ready (Some event) \<Rightarrow>
                  (case OldService_handle_queue_event dep event self of
                     Panic \<Rightarrow> Some Panic
                   | Return self \<Rightarrow> OldService_poll_queue fuel timer_fuel dep now cx self)
              | Ready None \<Rightarrow> OldService_poll_queue fuel timer_fuel dep now cx self
              | Pending \<Rightarrow> Some (Return self)))"

text \<open>The loop over the map of the futures is in its iteration order.\<close>

fun OldService_report_results :: "('se, 'de, 'bm, 'k, 'e, 'q) service_deps \<Rightarrow> instant \<Rightarrow>
    (address_specification \<times> (unit, 'se service_error) result) list \<Rightarrow> ('se, 'bm, 'k, 'q) old_service \<Rightarrow>
    ('se, 'bm, 'k, 'q) old_service outcome" where
  "OldService_report_results dep now [] self = Return self"
| "OldService_report_results dep now ((key, val) # results) self =
     bind_outcome (Queue_on_send_result (dep_timers dep) now key (is_ok val) (os_queue self)) (\<lambda>queue.
       OldService_report_results dep now results (self\<lparr>os_queue := queue\<rparr>))"

fun finished_sends :: "nat bridge_state \<Rightarrow> (address_specification \<times> (unit, 'e) radio_future) list \<Rightarrow>
    (address_specification \<times> (unit, 'e) result) list" where
  "finished_sends radio [] = []"
| "finished_sends radio ((key, fut) # inflight) =
     (case radio_poll radio fut of Ready res \<Rightarrow> (key, res) # finished_sends radio inflight
      | Pending \<Rightarrow> finished_sends radio inflight)"

definition OldService_poll_inflight :: "('se, 'de, 'bm, 'k, 'e, 'q) service_deps \<Rightarrow> instant \<Rightarrow> ('se, 'bm, 'k, 'q) old_service \<Rightarrow>
    ('se, 'bm, 'k, 'q) old_service outcome" where
  "OldService_poll_inflight dep now self =
     OldService_report_results dep now (finished_sends (os_radio self) (os_inflight self))
       (self\<lparr>os_inflight := filter (\<lambda>(_, fut). radio_poll (os_radio self) fut = Pending) (os_inflight self)\<rparr>)"

definition OldService_poll_next :: "nat \<Rightarrow> nat \<Rightarrow> ('se, 'de, 'bm, 'k, 'e, 'q) service_deps \<Rightarrow> instant \<Rightarrow> waker \<Rightarrow>
    ('se, 'bm, 'k, 'q) old_service \<Rightarrow> (service_event poll \<times> ('se, 'bm, 'k, 'q) old_service) outcome option" where
  "OldService_poll_next fuel timer_fuel dep now cx self =
     (case OldService_poll_packets fuel dep now self of
        None \<Rightarrow> None
      | Some Panic \<Rightarrow> Some Panic
      | Some (Return (Some event, self)) \<Rightarrow> Some (Return (Ready event, self))
      | Some (Return (None, self)) \<Rightarrow>
          map_option (\<lambda>m. bind_outcome m (\<lambda>self.
              bind_outcome (OldService_poll_inflight dep now self) (\<lambda>self. Return (Pending, self))))
            (OldService_poll_queue fuel timer_fuel dep now cx self))"

subsection \<open>Starting\<close>

text \<open>The six requests that are joined: the futures that are not ready, in order, or the first error.\<close>

fun radio_start_all :: "(bridge_error \<Rightarrow> 'e) \<Rightarrow> 'a bridge_future list \<Rightarrow> nat bridge_state \<Rightarrow>
    (('a, 'e) radio_future list \<times> nat bridge_state) outcome" where
  "radio_start_all into [] radio = Return ([], radio)"
| "radio_start_all into (f # fs) radio =
     bind_outcome (radio_start into f radio) (\<lambda>(fut, radio).
     bind_outcome (radio_start_all into fs radio) (\<lambda>(futs, radio). Return (fut # futs, radio)))"

fun try_join_poll :: "nat bridge_state \<Rightarrow> (unit, 'e) radio_future list \<Rightarrow> ((unit, 'e) radio_future list, 'e) result" where
  "try_join_poll radio [] = Ok []"
| "try_join_poll radio (f # fs) =
     (case radio_poll radio f of
        Ready (Err e) \<Rightarrow> Err e
      | Ready (Ok _) \<Rightarrow> try_join_poll radio fs
      | Pending \<Rightarrow> map_ok (Cons f) (try_join_poll radio fs))"

datatype 'e startup =
    SU_MaxPower "(u16, 'e) radio_future"
  | SU_Properties "(unit, 'e) radio_future list"
  | SU_On "(unit, 'e) radio_future"
  | SU_LongAddress "(u64, 'e) radio_future"
  | SU_Done "(u64, 'e) result"

definition OldService_new :: "nat bridge_state \<Rightarrow> ('se service_error startup \<times> nat bridge_state) outcome" where
  "OldService_new radio =
     bind_outcome (radio_start ServiceError_RadioError RadioBridgeService_get_tx_power_max radio) (\<lambda>(fut, radio).
     Return (SU_MaxPower fut, radio))"

definition OldService_properties :: "u16 \<Rightarrow> short_address \<Rightarrow> panid \<Rightarrow> u16 \<Rightarrow> unit bridge_future list" where
  "OldService_properties channel short panid max_power =
     [RadioBridgeService_set_tx_power max_power, RadioBridgeService_set_channel channel,
      RadioBridgeService_set_short_address (ShortAddress_into short), RadioBridgeService_set_pan_id (PANID_into panid),
      RadioBridgeService_set_rx_mode \<lparr>brx_address_filter = True, brx_autoack = True, brx_poll_mode = False\<rparr>,
      RadioBridgeService_init_pending_data_table]"

text \<open>One link of the chain of futures; a link that becomes ready starts the next one.\<close>

definition OldService_new_step :: "u16 \<Rightarrow> short_address \<Rightarrow> panid \<Rightarrow> 'se service_error startup \<times> nat bridge_state \<Rightarrow>
    ('se service_error startup \<times> nat bridge_state) outcome" where
  "OldService_new_step channel short panid = (\<lambda>(phase, radio).
     case phase of
       SU_MaxPower fut \<Rightarrow>
         (case radio_poll radio fut of
            Pending \<Rightarrow> Return (phase, radio)
          | Ready (Err e) \<Rightarrow> Return (SU_Done (Err e), radio)
          | Ready (Ok max_power) \<Rightarrow>
              bind_outcome (radio_start_all ServiceError_RadioError (OldService_properties channel short panid max_power) radio)
                (\<lambda>(futs, radio). Return (SU_Properties futs, radio)))
     | SU_Properties futs \<Rightarrow>
         (case try_join_poll radio futs of
            Err e \<Rightarrow> Return (SU_Done (Err e), radio)
          | Ok [] \<Rightarrow>
              bind_outcome (radio_start ServiceError_RadioError RadioBridgeService_on radio) (\<lambda>(fut, radio).
              Return (SU_On fut, radio))
          | Ok futs \<Rightarrow> Return (SU_Properties futs, radio))
     | SU_On fut \<Rightarrow>
         (case radio_poll radio fut of
            Pending \<Rightarrow> Return (phase, radio)
          | Ready (Err e) \<Rightarrow> Return (SU_Done (Err e), radio)
          | Ready (Ok _) \<Rightarrow>
              bind_outcome (radio_start ServiceError_RadioError RadioBridgeService_get_long_address radio) (\<lambda>(fut, radio).
              Return (SU_LongAddress fut, radio)))
     | SU_LongAddress fut \<Rightarrow>
         (case radio_poll radio fut of
            Pending \<Rightarrow> Return (phase, radio)
          | Ready r \<Rightarrow> Return (SU_Done r, radio))
     | SU_Done r \<Rightarrow> Return (phase, radio))"

definition OldService_new_poll :: "u16 \<Rightarrow> short_address \<Rightarrow> panid \<Rightarrow> 'se service_error startup \<times> nat bridge_state \<Rightarrow>
    ('se service_error startup \<times> nat bridge_state) outcome" where
  "OldService_new_poll channel short panid s =
     (let step = OldService_new_step channel short panid
      in bind_outcome (step s) (\<lambda>s. bind_outcome (step s) (\<lambda>s. bind_outcome (step s) step)))"

definition OldService_created :: "('se, 'de, 'bm, 'k, 'e, 'q) service_deps \<Rightarrow> short_address \<Rightarrow> panid \<Rightarrow> u64 \<Rightarrow> nat bridge_state \<Rightarrow>
    ('se, 'bm, 'k, 'q) old_service outcome" where
  "OldService_created dep short panid extaddr radio =
     bind_outcome (MRUAddressSet_new 8 8) (\<lambda>pending.
     Return
       \<lparr>os_handle_open = True, os_packets_ended = False, os_radio = radio, os_sequence_number = 0, os_pan_id = panid,
        os_short_address = short, os_extended_address = ExtendedAddress extaddr,
        os_associations = bm_insert (bl_map (dep_bimap dep)) short (ExtendedAddress extaddr) (bm_new (bl_map (dep_bimap dep))),
        os_nodeinfo = Map.empty, os_queue = Queue_new (dep_timers dep), os_next_channel = 0, os_inflight = [],
        os_pending_data_set = pending\<rparr>)"

section \<open>The event loop\<close>

text \<open>What \<^verbatim>\<open>on_mac_event\<close> of \<^verbatim>\<open>old_src/main.rs\<close> does with an event; what it spawns only prints the result.\<close>

definition beacon_payload_literal :: bytes where
  "beacon_payload_literal =
     [0x00, 0x22, 0x84, 0x15, 0x68, 0x89, 0x0e, 0x00, 0x4b, 0x12, 0x00, 0xff, 0xff, 0xff, 0x00]"

definition spawned :: "('se, 'bm, 'k, 'q) old_service \<Rightarrow> ('se, 'bm, 'k, 'q) old_service outcome" where
  "spawned self = (if os_handle_open self then Return self else Panic)"

fun on_mac_event :: "('se, 'de, 'bm, 'k, 'e, 'q) service_deps \<Rightarrow> instant \<Rightarrow> service_event \<Rightarrow> ('se, 'bm, 'k, 'q) old_service \<Rightarrow>
    ('se, 'bm, 'k, 'q) old_service outcome" where
  "on_mac_event dep now ServiceEvent_BeaconRequest self =
     bind_outcome (OldService_send_beacon dep beacon_payload_literal self) (\<lambda>(_, self). spawned self)"
| "on_mac_event dep now (ServiceEvent_AssociationRequest ext receiver_on_idle) self =
     bind_outcome (OldService_associate dep ext receiver_on_idle self) (\<lambda>(_, self).
     bind_outcome (OldService_send_association_response dep now ext self) (\<lambda>(_, self). spawned self))"

text \<open>The loop until the service has to wait.\<close>

fun old_main_loop :: "nat \<Rightarrow> nat \<Rightarrow> ('se, 'de, 'bm, 'k, 'e, 'q) service_deps \<Rightarrow> instant \<Rightarrow> waker \<Rightarrow> ('se, 'bm, 'k, 'q) old_service \<Rightarrow>
    ('se, 'bm, 'k, 'q) old_service outcome option" where
  "old_main_loop 0 timer_fuel dep now cx self = None"
| "old_main_loop (Suc fuel) timer_fuel dep now cx self =
     (case OldService_poll_next fuel timer_fuel dep now cx self of
        None \<Rightarrow> None
      | Some Panic \<Rightarrow> Some Panic
      | Some (Return (Pending, self)) \<Rightarrow> Some (Return self)
      | Some (Return (Ready event, self)) \<Rightarrow>
          (case on_mac_event dep now event self of
             Panic \<Rightarrow> Some Panic
           | Return self \<Rightarrow> old_main_loop fuel timer_fuel dep now cx self))"

end
