(* ===== verification/Old_Service_Invariant.thy ===== *)
theory Old_Service_Invariant
  imports Old_Service
begin

text \<open>
  The invariant of the MAC service of the earlier stack: its queue is one that the operations of a queue
  reach, with its frames in flight; the table of pending addresses that the radio was told is the one its
  sets of addresses describe; and every known device is associated.  The locale \<open>service_parts\<close> joins the
  contracts of the parts the service is built from; reachability is \<open>service_reach\<close>.
\<close>

section \<open>The parts of the service\<close>

locale service_parts =
  serde: mac_serde "dep_ps dep" "dep_bf8 dep" "dep_bf dep" +
  queue: address_queue "dep_timers dep" timers +
  assoc: bimap_lookup_crate "dep_bimap dep" pairs
  for dep :: "('se, 'de, 'bm, 'k, 'e, 'q) service_deps"
    and timers :: "'q \<Rightarrow> 'k \<rightharpoonup> address_specification \<times> instant"
    and pairs :: "'bm \<Rightarrow> (short_address \<times> extended_address) set"

definition service_deps_impl where
  "service_deps_impl =
     \<lparr>dep_ps = parse_serialize_impl, dep_bf8 = bitfield_impl, dep_bf = bitfield_impl, dep_bimap = bimap_lookup_impl,
      dep_timers = tokio_impl\<rparr>"

lemma service_deps_impl_simps [simp]:
  "dep_ps service_deps_impl = parse_serialize_impl" "dep_bf8 service_deps_impl = bitfield_impl"
  "dep_bf service_deps_impl = bitfield_impl" "dep_bimap service_deps_impl = bimap_lookup_impl"
  "dep_timers service_deps_impl = tokio_impl"
  by (simp_all add: service_deps_impl_def)

interpretation service_impl: service_parts service_deps_impl timer_map "\<lambda>m. set (bimap_pairs m)"
  unfolding service_parts_def service_deps_impl_simps
  by (intro conjI mac_impl.mac_serde_axioms address_impl.address_queue_axioms bimap_lookup_impl.bimap_lookup_crate_axioms)

section \<open>Free addresses\<close>

text \<open>The least address from \<open>n\<close> on that is free.\<close>

lemma find_free_correct:
  "case find_free_from contains n of
     Return a \<Rightarrow> \<not> contains a \<and> n \<le> ShortAddress_into a \<and> (\<forall>m. n \<le> m \<and> m < ShortAddress_into a \<longrightarrow> contains (short_address.ShortAddress m))
   | Panic \<Rightarrow> \<forall>m. n \<le> m \<longrightarrow> contains (short_address.ShortAddress m)"
proof (induction contains n rule: find_free_from.induct)
  case (1 contains n)
  show ?case
  proof (cases "contains (short_address.ShortAddress n)")
    case True
    show ?thesis
    proof (cases "unat n + 1 < 2 ^ 16")
      case room: True
      then have next_nat: "unat (n + 1) = unat n + 1" using unat_add_lem [of n 1] by simp
      then have le: "n \<le> m \<longleftrightarrow> m = n \<or> n + 1 \<le> m" for m
        by (auto simp: word_le_nat_alt word_unat_eq_iff)
      have eq: "find_free_from contains n = find_free_from contains (n + 1)"
        using True room by (subst find_free_from.simps) simp
      show ?thesis
        using 1 [OF True room] True unfolding eq le
        by (auto split: outcome.splits)
    next
      case False
      have "m \<le> n" for m
      proof -
        have "unat m < 2 ^ 16" using unsigned_less [of m] by simp
        with False show ?thesis by (simp add: word_le_nat_alt)
      qed
      then have "n \<le> m \<longleftrightarrow> m = n" for m by (metis order_antisym order_refl)
      then show ?thesis using True False by (subst find_free_from.simps) simp
    qed
  next
    case False
    then show ?thesis by (subst find_free_from.simps) auto
  qed
qed

section \<open>The table of pending addresses\<close>

text \<open>
  The table of pending addresses that the commands sent to the radio describe: \<open>RadioInitPendingTable\<close> (10)
  empties it, \<open>RadioSetPending\<close> (11) writes an address to a slot or clears it.
\<close>

definition table_after :: "bridge_command \<Rightarrow> (u8 \<rightharpoonup> bytes) \<Rightarrow> (u8 \<rightharpoonup> bytes)" where
  "table_after c t =
     (if command_id c = 10 then Map.empty
      else if command_id c = 11 then
        (case command_data c of [] \<Rightarrow> t | slot # addr \<Rightarrow> t(slot := if addr = [] then None else Some addr))
      else t)"

definition radio_table :: "bridge_command list \<Rightarrow> (u8 \<rightharpoonup> bytes)" where
  "radio_table sent = fold table_after sent Map.empty"

lemma radio_table_snoc [simp]: "radio_table (sent @ [c]) = table_after c (radio_table sent)"
  by (simp add: radio_table_def)

lemma radio_table_Nil [simp]: "radio_table [] = Map.empty"
  by (simp add: radio_table_def)

fun short_entry :: "panid \<times> short_address \<Rightarrow> bytes" where
  "short_entry (PANID panid, short_address.ShortAddress addr) = to_le_bytes panid @ to_le_bytes addr"

fun extended_entry :: "extended_address \<Rightarrow> bytes" where
  "extended_entry (ExtendedAddress addr) = to_le_bytes addr"

text \<open>The slots of the two sets, in one table: those of the extended addresses from 128 on.\<close>

definition table_of :: "(usize \<rightharpoonup> panid \<times> short_address) \<Rightarrow> (usize \<rightharpoonup> extended_address) \<Rightarrow> (u8 \<rightharpoonup> bytes)" where
  "table_of short ext i =
     (if unat i < 128 then map_option short_entry (short (unat i)) else map_option extended_entry (ext (unat i - 128)))"

definition slots_inv :: "(panid \<times> short_address) list \<Rightarrow> extended_address list \<Rightarrow> (u8 \<rightharpoonup> bytes) \<Rightarrow> mru_address_set \<Rightarrow> bool" where
  "slots_inv ls lx t pending \<longleftrightarrow>
     (\<exists>ss se. mru_inv 8 ls ss (mru_short pending) \<and> mru_inv 8 lx se (mru_extended pending) \<and> t = table_of ss se)"

fun action_slot :: "'a mru_set_action \<Rightarrow> usize option" where
  "action_slot MRUSetAction_None = None"
| "action_slot (MRUSetAction_ClearSlot s) = Some s"
| "action_slot (MRUSetAction_SetSlot s _) = Some s"

lemma action_slot_bound:
  assumes "mru_inv n l slots self" "n > 1" "mru_step op self = Return (a, self')" "action_slot a = Some s"
  shows "s < n"
proof (cases a)
  case (MRUSetAction_SetSlot s' x)
  have "mru_inv n (mru_spec op l) (apply_action a slots) self'"
    using mru_step_correct [OF assms(1,2), of op] assms(3) by auto
  then show ?thesis using MRUSetAction_SetSlot assms(4) by (auto simp: mru_inv_def slot_ok_def)
next
  case (MRUSetAction_ClearSlot s')
  have sl: "slot_ok n l slots (assigned_slots self) (free_slots self)" "linked l self"
    using assms(1) by (simp_all add: mru_inv_def)
  show ?thesis
  proof (cases op)
    case (MRU_Insert x)
    then show ?thesis using assms(3) MRUSetAction_ClearSlot
      by (auto simp: MRUSet_insert_def bind_outcome_def split: if_splits outcome.splits option.splits prod.splits)
  next
    case (MRU_Remove x)
    obtain u where u: "MRUSet_unlink x self = Return u" "assigned_slots u = assigned_slots self"
      using unlink_unlinked [OF sl(2), of x] by metis
    have "assigned_slots self x = Some s'"
      using assms(3) MRU_Remove MRUSetAction_ClearSlot u
      by (auto simp: MRUSet_remove_def Let_def split: option.splits prod.splits)
    then have "s' \<in> dom slots" using sl(1) by (auto simp: slot_ok_def mutual_def)
    then show ?thesis using sl(1) MRUSetAction_ClearSlot assms(4) by (auto simp: slot_ok_def)
  qed
qed (use assms(4) in simp)

lemma below_eight: "s < 8 \<longleftrightarrow> s = 0 \<or> s = 1 \<or> s = 2 \<or> s = 3 \<or> s = 4 \<or> s = 5 \<or> s = 6 \<or> s = (7::nat)"
  by linarith

lemma short_slot: "s < 8 \<Longrightarrow> unat (0x7F AND of_nat s :: u8) = s"
  unfolding below_eight by (elim disjE) simp_all

lemma extended_slot: "s < 8 \<Longrightarrow> unat (0x80 OR of_nat s :: u8) = 128 + s"
  unfolding below_eight by (elim disjE) simp_all

lemma table_of_short:
  assumes "s < 8"
  shows "table_of (ss(s := a)) se = (table_of ss se)(0x7F AND of_nat s := map_option short_entry a)"
proof -
  have "i = (0x7F AND of_nat s :: u8) \<longleftrightarrow> unat i = s" for i :: u8
    using short_slot [OF assms] by (metis word_unat_eq_iff)
  then show ?thesis using assms by (simp add: table_of_def fun_eq_iff)
qed

lemma table_of_extended:
  assumes "s < 8"
  shows "table_of ss (se(s := a)) = (table_of ss se)(0x80 OR of_nat s := map_option extended_entry a)"
proof -
  have slot: "i = (0x80 OR of_nat s :: u8) \<longleftrightarrow> unat i = 128 + s" for i :: u8
    using extended_slot [OF assms] by (metis word_unat_eq_iff)
  show ?thesis
  proof (rule ext)
    fix i :: u8
    have "\<not> unat i < 128 \<Longrightarrow> unat i - 128 = s \<longleftrightarrow> unat i = 128 + s" by linarith
    then show "table_of ss (se(s := a)) i = ((table_of ss se)(0x80 OR of_nat s := map_option extended_entry a)) i"
      unfolding fun_upd_apply slot by (simp add: table_of_def)
  qed
qed

fun table_action :: "mru_address_set_action \<Rightarrow> (u8 \<rightharpoonup> bytes) \<Rightarrow> (u8 \<rightharpoonup> bytes)" where
  "table_action MRUAddressSetAction_None t = t"
| "table_action (MRUAddressSetAction_SetShortSlot slot a) t = t(0x7F AND of_nat slot := map_option short_entry a)"
| "table_action (MRUAddressSetAction_SetExtendedSlot slot a) t = t(0x80 OR of_nat slot := map_option extended_entry a)"

lemma table_action_short:
  "(\<And>s. action_slot a = Some s \<Longrightarrow> s < 8) \<Longrightarrow>
    table_action (MRUAddressSetAction_from_short a) (table_of ss se) = table_of (apply_action a ss) se"
  by (cases a) (simp_all add: table_of_short)

lemma table_action_extended:
  "(\<And>s. action_slot a = Some s \<Longrightarrow> s < 8) \<Longrightarrow>
    table_action (MRUAddressSetAction_from_extended a) (table_of ss se) = table_of ss (apply_action a se)"
  by (cases a) (simp_all add: table_of_extended)

text \<open>The most recently used addresses after the bit of an address has been set or cleared.\<close>

fun short_spec :: "bool \<Rightarrow> address_specification \<Rightarrow> (panid \<times> short_address) list \<Rightarrow> (panid \<times> short_address) list" where
  "short_spec b (AddressSpecification_Short p a) ls = mru_spec (if b then MRU_Insert (p, a) else MRU_Remove (p, a)) ls"
| "short_spec b _ ls = ls"

fun extended_spec :: "bool \<Rightarrow> address_specification \<Rightarrow> extended_address list \<Rightarrow> extended_address list" where
  "extended_spec b (AddressSpecification_Extended _ a) lx = mru_spec (if b then MRU_Insert a else MRU_Remove a) lx"
| "extended_spec b _ lx = lx"

lemma address_set_step:
  assumes "slots_inv ls lx t pending"
  shows "\<exists>a pending'. (if b then MRUAddressSet_insert d else MRUAddressSet_remove d) pending = Return (a, pending') \<and>
    slots_inv (short_spec b d ls) (extended_spec b d lx) (table_action a t) pending'"
proof -
  obtain ss se where inv: "mru_inv 8 ls ss (mru_short pending)" "mru_inv 8 lx se (mru_extended pending)" "t = table_of ss se"
    using assms by (auto simp: slots_inv_def)
  show ?thesis
  proof (cases d)
    case AddressSpecification_None
    then show ?thesis using assms by (cases b) simp_all
  next
    case (AddressSpecification_Short p a)
    let ?op = "if b then MRU_Insert (p, a) else MRU_Remove (p, a)"
    obtain act m where m: "mru_step ?op (mru_short pending) = Return (act, m)" "mru_inv 8 (mru_spec ?op ls) (apply_action act ss) m"
      using mru_step_correct [OF inv(1), of ?op] by auto
    have "table_action (MRUAddressSetAction_from_short act) t = table_of (apply_action act ss) se"
      unfolding inv(3) using action_slot_bound [OF inv(1) _ m(1)] by (intro table_action_short) simp
    then show ?thesis using m inv(2) AddressSpecification_Short by (cases b) (auto simp: slots_inv_def)
  next
    case (AddressSpecification_Extended p a)
    let ?op = "if b then MRU_Insert a else MRU_Remove a"
    obtain act m where m: "mru_step ?op (mru_extended pending) = Return (act, m)" "mru_inv 8 (mru_spec ?op lx) (apply_action act se) m"
      using mru_step_correct [OF inv(2), of ?op] by auto
    have "table_action (MRUAddressSetAction_from_extended act) t = table_of ss (apply_action act se)"
      unfolding inv(3) using action_slot_bound [OF inv(2) _ m(1)] by (intro table_action_extended) simp
    then show ?thesis using m inv(1) AddressSpecification_Extended by (cases b) (auto simp: slots_inv_def)
  qed
qed

section \<open>What the operations change\<close>

lemma radio_start_effect:
  assumes "radio_start into fut radio = Return (f, radio')"
  shows "br_packets radio' = br_packets radio \<and> br_answers radio' = br_answers radio \<and>
    (case fut of
       Failed e \<Rightarrow> br_sent radio' = br_sent radio
     | Called request handle \<Rightarrow>
         \<exists>c. br_sent radio' = br_sent radio @ [c] \<and> command_id c = RequestCommand_as_u8 (rq_command request) \<and>
           command_data c = rq_data request)"
  using assms
  by (cases fut) (auto simp: radio_start_def Let_def bind_outcome_eq_Return_iff RawBridgeService_call_def split: prod.splits)

text \<open>A call of the radio that is not about the table leaves it as it is.\<close>

lemma radio_start_table:
  assumes "radio_start into fut radio = Return (f, radio')"
    and "\<And>request handle. fut = Called request handle \<Longrightarrow> rq_command request \<notin> {RadioInitPendingTable, RadioSetPending}"
  shows "radio_table (br_sent radio') = radio_table (br_sent radio)"
proof (cases fut)
  case (Called request handle)
  then obtain c where c: "br_sent radio' = br_sent radio @ [c]" "command_id c = RequestCommand_as_u8 (rq_command request)"
    using radio_start_effect [OF assms(1)] by auto
  have "RequestCommand_as_u8 (rq_command request) \<noteq> 10" "RequestCommand_as_u8 (rq_command request) \<noteq> 11"
    using assms(2) [OF Called] by (cases "rq_command request"; simp)+
  then show ?thesis using c by (simp add: table_after_def)
qed (use radio_start_effect [OF assms(1)] in simp)

lemma le_bytes_nonempty [simp]: "to_le_bytes (w :: u16) \<noteq> []" "to_le_bytes (v :: u64) \<noteq> []"
proof -
  show "to_le_bytes (w :: u16) \<noteq> []" using length_to_le_bytes [of w] by (metis list.size(3) size_of_simps(2) zero_neq_numeral)
  show "to_le_bytes (v :: u64) \<noteq> []" using length_to_le_bytes [of v] by (metis list.size(3) size_of_simps(4) zero_neq_numeral)
qed

lemma spawn_effect:
  fixes s s' :: "('se, 'bm, 'k, 'q) old_service"
  assumes "OldService_spawn (Called request handle) s = Return s'"
  shows "\<exists>r c. s' = s\<lparr>os_radio := r\<rparr> \<and> br_sent r = br_sent (os_radio s) @ [c] \<and>
    command_id c = RequestCommand_as_u8 (rq_command request) \<and> command_data c = rq_data request \<and>
    br_packets r = br_packets (os_radio s)"
proof -
  obtain f :: "(unit, 'se service_error) radio_future" and r
    where r: "radio_start ServiceError_RadioError (Called request handle) (os_radio s) = Return (f, r)" "s' = s\<lparr>os_radio := r\<rparr>"
    using assms by (auto simp: OldService_spawn_def OldService_radio_def bind_outcome_eq_Return_iff split: if_splits)
  show ?thesis using radio_start_effect [OF r(1)] r(2) by auto
qed

lemma handle_action_table:
  assumes "OldService_handle_mru_address_set_action a s = Return s'"
  shows "\<exists>r. s' = s\<lparr>os_radio := r\<rparr> \<and> radio_table (br_sent r) = table_action a (radio_table (br_sent (os_radio s))) \<and>
    br_packets r = br_packets (os_radio s)"
proof (cases a)
  case MRUAddressSetAction_None
  then show ?thesis using assms by (intro exI [of _ "os_radio s"]) (simp add: OldService_handle_mru_address_set_action_def)
next
  case (MRUAddressSetAction_SetShortSlot slot addr)
  then obtain r c where "s' = s\<lparr>os_radio := r\<rparr>" "br_sent r = br_sent (os_radio s) @ [c]" "command_id c = 11"
    "command_data c = [0x7F AND of_nat slot] @ (case addr of Some (p, a) \<Rightarrow> to_le_bytes (PANID_into p) @ to_le_bytes (ShortAddress_into a) | None \<Rightarrow> [])"
    "br_packets r = br_packets (os_radio s)"
    using assms spawn_effect
    by (fastforce simp: OldService_handle_mru_address_set_action_def RadioBridgeService_set_pending_data_short_def split: option.splits)
  moreover have "short_entry (p, a) = to_le_bytes (PANID_into p) @ to_le_bytes (ShortAddress_into a)" for p a
    by (cases p; cases a) simp
  ultimately show ?thesis using MRUAddressSetAction_SetShortSlot by (cases addr) (auto simp: table_after_def)
next
  case (MRUAddressSetAction_SetExtendedSlot slot addr)
  then obtain r c where "s' = s\<lparr>os_radio := r\<rparr>" "br_sent r = br_sent (os_radio s) @ [c]" "command_id c = 11"
    "command_data c = [0x80 OR of_nat slot] @ (case addr of Some a \<Rightarrow> to_le_bytes (ExtendedAddress_into a) | None \<Rightarrow> [])"
    "br_packets r = br_packets (os_radio s)"
    using assms spawn_effect
    by (fastforce simp: OldService_handle_mru_address_set_action_def RadioBridgeService_set_pending_data_ext_def split: option.splits)
  moreover have "extended_entry a = to_le_bytes (ExtendedAddress_into a)" for a by (cases a) simp
  ultimately show ?thesis using MRUAddressSetAction_SetExtendedSlot by (cases addr) (auto simp: table_after_def)
qed

lemma set_pending_table:
  assumes "slots_inv ls lx (radio_table (br_sent (os_radio s))) (os_pending_data_set s)"
    and "OldService_set_pending_data d b s = Return s'"
  shows "\<exists>r p. s' = s\<lparr>os_pending_data_set := p, os_radio := r\<rparr> \<and> br_packets r = br_packets (os_radio s) \<and>
    slots_inv (short_spec b d ls) (extended_spec b d lx) (radio_table (br_sent r)) p"
proof -
  obtain a p where a: "(if b then MRUAddressSet_insert d else MRUAddressSet_remove d) (os_pending_data_set s) = Return (a, p)"
    "slots_inv (short_spec b d ls) (extended_spec b d lx) (table_action a (radio_table (br_sent (os_radio s)))) p"
    using address_set_step [OF assms(1)] by blast
  have "OldService_handle_mru_address_set_action a (s\<lparr>os_pending_data_set := p\<rparr>) = Return s'"
    using assms(2) a(1) by (simp add: OldService_set_pending_data_def)
  from handle_action_table [OF this] a(2) show ?thesis by force
qed

text \<open>Setting or clearing the bit only panics when the radio has no request number left.\<close>

definition radio_has_room :: "('se, 'bm, 'k, 'q) old_service \<Rightarrow> bool" where
  "radio_has_room s \<longleftrightarrow> unat (next_available_request_id (br_dispatcher (os_radio s))) + 1 < 2 ^ 16"

lemma radio_start_room:
  "unat (next_available_request_id (br_dispatcher radio)) + 1 < 2 ^ 16 \<Longrightarrow> \<exists>f r. radio_start into fut radio = Return (f, r)"
  by (cases fut) (simp_all add: radio_start_def Let_def RawBridgeService_call_def Dispatcher_new_request_def)

lemma set_pending_returns:
  fixes s :: "('se, 'bm, 'k, 'q) old_service"
  assumes "slots_inv ls lx (radio_table (br_sent (os_radio s))) (os_pending_data_set s)" "os_handle_open s" "radio_has_room s"
  shows "\<exists>s'. OldService_set_pending_data d b s = Return s'"
proof -
  obtain a p where a: "(if b then MRUAddressSet_insert d else MRUAddressSet_remove d) (os_pending_data_set s) = Return (a, p)"
    using address_set_step [OF assms(1)] by blast
  have spawn: "\<exists>s'. OldService_spawn fut (s\<lparr>os_pending_data_set := p\<rparr>) = Return s'" for fut
    using radio_start_room [where into = "ServiceError_RadioError :: _ \<Rightarrow> 'se service_error" and fut = fut and radio = "os_radio s"] assms(2,3)
    by (auto simp: OldService_spawn_def OldService_radio_def radio_has_room_def)
  show ?thesis
    using a spawn by (cases a) (simp_all add: OldService_set_pending_data_def OldService_handle_mru_address_set_action_def)
qed

section \<open>The invariant\<close>

text \<open>
  \<open>todo\<close> are the addresses of frames that left the queue and are not, or no longer, in the map of futures.
\<close>

definition queue_part :: "('se, 'de, 'bm, 'k, 'e, 'q) service_deps \<Rightarrow> address_specification list \<Rightarrow>
    ('se, 'bm, 'k, 'q) old_service \<Rightarrow> bool" where
  "queue_part dep todo s \<longleftrightarrow> (\<exists>requests L. queue_reach (dep_timers dep) requests L (os_queue s) \<and>
     mset L = mset (map fst (os_inflight s) @ todo))"

definition table_part :: "('se, 'bm, 'k, 'q) old_service \<Rightarrow> bool" where
  "table_part s \<longleftrightarrow> (\<exists>ls lx. slots_inv ls lx (radio_table (br_sent (os_radio s))) (os_pending_data_set s))"

definition assoc_part :: "('bm \<Rightarrow> (short_address \<times> extended_address) set) \<Rightarrow> ('se, 'bm, 'k, 'q) old_service \<Rightarrow> bool" where
  "assoc_part pairs s \<longleftrightarrow> (os_short_address s, os_extended_address s) \<in> pairs (os_associations s) \<and>
     dom (os_nodeinfo s) \<subseteq> snd ` pairs (os_associations s)"

definition service_inv :: "('bm \<Rightarrow> (short_address \<times> extended_address) set) \<Rightarrow> ('se, 'de, 'bm, 'k, 'e, 'q) service_deps \<Rightarrow>
    address_specification list \<Rightarrow> ('se, 'bm, 'k, 'q) old_service \<Rightarrow> bool" where
  "service_inv pairs dep todo s \<longleftrightarrow> queue_part dep todo s \<and> table_part s \<and> assoc_part pairs s \<and> os_handle_open s"

text \<open>What neither reading packets nor sending changes.\<close>

definition same_stream :: "('se, 'bm, 'k, 'q) old_service \<Rightarrow> ('se, 'bm, 'k, 'q) old_service \<Rightarrow> bool" where
  "same_stream s s' \<longleftrightarrow> br_packets (os_radio s') = br_packets (os_radio s) \<and> os_packets_ended s' = os_packets_ended s"

lemma same_stream_refl [simp]: "same_stream s s"
  by (simp add: same_stream_def)

lemma same_stream_trans: "same_stream s s' \<Longrightarrow> same_stream s' s'' \<Longrightarrow> same_stream s s''"
  by (simp add: same_stream_def)

lemma service_inv_queue:
  assumes "service_inv pairs dep todo s" "queue_reach (dep_timers dep) requests L q" "mset L = mset (map fst (os_inflight s) @ todo')"
  shows "service_inv pairs dep todo' (s\<lparr>os_queue := q\<rparr>)"
  using assms by (auto simp: service_inv_def queue_part_def table_part_def assoc_part_def)

lemma service_inv_radio:
  "service_inv pairs dep todo s \<Longrightarrow> radio_table (br_sent r) = radio_table (br_sent (os_radio s)) \<Longrightarrow>
    service_inv pairs dep todo (s\<lparr>os_radio := r\<rparr>)"
  by (simp add: service_inv_def queue_part_def table_part_def assoc_part_def)

lemma service_inv_set_pending:
  assumes "service_inv pairs dep todo s" "OldService_set_pending_data d b s = Return s'"
  shows "service_inv pairs dep todo s' \<and> same_stream s s' \<and> os_queue s' = os_queue s"
proof -
  obtain ls lx where "slots_inv ls lx (radio_table (br_sent (os_radio s))) (os_pending_data_set s)"
    using assms(1) by (auto simp: service_inv_def table_part_def)
  from set_pending_table [OF this assms(2)] obtain r p where s': "s' = s\<lparr>os_pending_data_set := p, os_radio := r\<rparr>"
    "br_packets r = br_packets (os_radio s)"
    "slots_inv (short_spec b d ls) (extended_spec b d lx) (radio_table (br_sent r)) p" by blast
  then have "table_part s'" by (auto simp: table_part_def)
  with s' assms(1) show ?thesis by (simp add: service_inv_def queue_part_def assoc_part_def same_stream_def)
qed

lemma service_inv_noqueue:
  assumes "service_inv pairs dep todo s" "OldService_send_frame_noqueue dep frame s = Return (f, s')"
  shows "service_inv pairs dep todo s' \<and> same_stream s s' \<and> os_queue s' = os_queue s \<and> os_inflight s' = os_inflight s \<and>
    os_sequence_number s' = os_sequence_number s"
proof (cases "MacFrame_serialize_to (dep_ps dep) (dep_bf dep) frame []")
  case (Pair r bytes)
  show ?thesis
  proof (cases r)
    case (Inl e)
    then show ?thesis using assms Pair by (simp add: OldService_send_frame_noqueue_def)
  next
    case (Inr u)
    then obtain r where r: "radio_start ServiceError_RadioError (RadioBridgeService_send bytes) (os_radio s) = Return (f, r)" "s' = s\<lparr>os_radio := r\<rparr>"
      using assms(2) Pair by (auto simp: OldService_send_frame_noqueue_def OldService_radio_def bind_outcome_eq_Return_iff)
    have "radio_table (br_sent r) = radio_table (br_sent (os_radio s))"
      by (rule radio_start_table [OF r(1)]) (simp add: RadioBridgeService_send_def)
    then show ?thesis
      using assms(1) r(2) radio_start_effect [OF r(1)]
      by (auto simp: service_inv_def queue_part_def table_part_def assoc_part_def same_stream_def)
  qed
qed

context service_parts
begin

lemma service_inv_distinct:
  assumes "service_inv pairs dep todo s"
  shows "distinct (map fst (os_inflight s) @ todo)"
proof -
  obtain requests L where L: "queue_reach (dep_timers dep) requests L (os_queue s)" "mset L = mset (map fst (os_inflight s) @ todo)"
    using assms by (auto simp: service_inv_def queue_part_def)
  have "distinct (sends L (os_queue s))" using queue.queue_reach_inv [OF L(1)] queue_invD(3) by blast
  then have "distinct L" by (simp add: sends_def)
  then show ?thesis using mset_eq_imp_distinct_iff [OF L(2)] by blast
qed

lemma service_inv_frame:
  assumes "service_inv pairs dep [] s" "OldService_handle_frame dep now frame s = Return (e, s')"
  shows "service_inv pairs dep [] s' \<and> same_stream s s'"
proof -
  obtain requests L where L: "queue_reach (dep_timers dep) requests L (os_queue s)" "mset L = mset (map fst (os_inflight s) @ [])"
    using assms by (auto simp: service_inv_def queue_part_def)
  have ack: "service_inv pairs dep [] (s\<lparr>os_queue := q\<rparr>)" if "Queue_on_ack (dep_timers dep) now n (os_queue s) = Return q" for n q
    using service_inv_queue [OF assms(1) queue_reach.ack [OF L(1) that] L(2)] .
  have request: "service_inv pairs dep [] s2 \<and> same_stream s s2"
    if "Queue_on_data_request (dep_timers dep) now d (os_queue s) = Return (b, q)"
      "OldService_set_pending_data d b (s\<lparr>os_queue := q\<rparr>) = Return s2" for d b q s2
    using service_inv_set_pending [OF service_inv_queue [OF assms(1) queue_reach.data_request [OF L(1) that(1)] L(2)] that(2)]
    by (simp add: same_stream_def)
  show ?thesis
    using assms ack request
    by (auto simp: OldService_handle_frame_def bind_outcome_eq_Return_iff same_stream_def
        split: mac_frame_type.splits mac_command.splits option.splits address_specification.splits)
qed

lemma service_inv_packet:
  assumes "service_inv pairs dep [] s" "OldService_handle_packet dep now packet s = Return (e, s')"
  shows "service_inv pairs dep [] s' \<and> same_stream s s'"
proof -
  obtain r where "MacFrame_deserialize (dep_ps dep) (dep_bf8 dep) (dep_bf dep) (bp_packet packet) = Return r"
    using assms(2) by (auto simp: OldService_handle_packet_def bind_outcome_eq_Return_iff)
  then show ?thesis
    using assms service_inv_frame [OF assms(1)] by (cases r) (auto simp: OldService_handle_packet_def)
qed

lemma service_inv_next_packet:
  assumes "service_inv pairs dep todo s" "OldService_next_packet s = (r, s')"
  shows "service_inv pairs dep todo s'"
  using assms service_inv_radio [OF assms(1), of "(os_radio s)\<lparr>br_packets := tl (br_packets (os_radio s))\<rparr>"]
  by (auto simp: OldService_next_packet_def split: list.splits)

lemma service_inv_poll_packets:
  assumes "service_inv pairs dep [] s" "OldService_poll_packets fuel dep now s = Some (Return (e, s'))"
  shows "service_inv pairs dep [] s'"
  using assms
proof (induction fuel arbitrary: s)
  case (Suc fuel)
  obtain r s1 where next1: "OldService_next_packet s = (r, s1)" by (cases "OldService_next_packet s")
  note inv1 = service_inv_next_packet [OF Suc.prems(1) next1]
  show ?case
    using Suc.prems(2) inv1 next1
    by (auto split: poll.splits option.splits outcome.splits prod.splits dest!: service_inv_packet [OF inv1] intro: Suc.IH)
qed simp

end

context service_parts
begin

lemma queue_reach_distinct: "queue_reach (dep_timers dep) requests L q \<Longrightarrow> distinct L"
  using queue.queue_reach_inv queue_invD(3) by (fastforce simp: sends_def)

text \<open>The queue hands out a frame: its address is not in the map of futures.\<close>

lemma service_inv_event:
  assumes "service_inv pairs dep [] s" "Queue_poll_next timer_fuel (dep_timers dep) now cx (os_queue s) = Some (Return (r, q))"
  shows "service_inv pairs dep (case r of Ready (Some (QueueEvent_OutgoingFrame d _)) \<Rightarrow> [d] | _ \<Rightarrow> []) (s\<lparr>os_queue := q\<rparr>)"
proof -
  obtain requests L where L: "queue_reach (dep_timers dep) requests L (os_queue s)" "mset L = mset (map fst (os_inflight s) @ [])"
    using assms by (auto simp: service_inv_def queue_part_def)
  note reach = queue_reach.poll [OF L(1) assms(2)]
  show ?thesis
    by (rule service_inv_queue [OF assms(1) reach]) (use L(2) in \<open>auto split: poll.splits option.splits queue_event.splits\<close>)
qed

lemma service_inv_handle_event:
  assumes "service_inv pairs dep (case event of QueueEvent_OutgoingFrame d _ \<Rightarrow> [d] | _ \<Rightarrow> []) s"
    and "OldService_handle_queue_event dep event s = Return s'"
  shows "service_inv pairs dep [] s' \<and> os_queue s' = os_queue s"
proof (cases event)
  case (QueueEvent_OutgoingFrame d frame)
  then obtain f s1 where s1: "OldService_send_frame_noqueue dep frame s = Return (f, s1)"
    "s' = s1\<lparr>os_inflight := AList.update d f (os_inflight s1)\<rparr>"
    using assms(2) by (auto simp: bind_outcome_eq_Return_iff)
  have inv: "service_inv pairs dep [d] s1" "os_queue s1 = os_queue s"
    using service_inv_noqueue [OF _ s1(1), of pairs "[d]"] assms(1) QueueEvent_OutgoingFrame by simp_all
  then have "d \<notin> set (map fst (os_inflight s1))" using service_inv_distinct by fastforce
  then have "mset (map fst (AList.update d f (os_inflight s1))) = mset (map fst (os_inflight s1) @ [d])"
    by (simp add: update_keys del: map_append)
  then show ?thesis using inv s1(2)
    by (simp add: service_inv_def queue_part_def table_part_def assoc_part_def)
next
  case (QueueEvent_QueueFlushed d)
  then show ?thesis using assms service_inv_set_pending [of pairs dep "[]" s d False s'] by simp
qed

lemma service_inv_poll_queue:
  assumes "service_inv pairs dep [] s" "OldService_poll_queue fuel timer_fuel dep now cx s = Some (Return s')"
  shows "service_inv pairs dep [] s'"
  using assms
proof (induction fuel arbitrary: s)
  case (Suc fuel)
  obtain r q where q: "Queue_poll_next timer_fuel (dep_timers dep) now cx (os_queue s) = Some (Return (r, q))"
    using Suc.prems(2) by (auto split: option.splits outcome.splits)
  note inv = service_inv_event [OF Suc.prems(1) q]
  show ?case
  proof (cases r)
    case Pending
    then show ?thesis using Suc.prems(2) q inv by simp
  next
    case (Ready e)
    show ?thesis
    proof (cases e)
      case None
      then show ?thesis using Suc q inv Ready by simp
    next
      case (Some event)
      then obtain s1 where s1: "OldService_handle_queue_event dep event (s\<lparr>os_queue := q\<rparr>) = Return s1"
        "OldService_poll_queue fuel timer_fuel dep now cx s1 = Some (Return s')"
        using Suc.prems(2) q Ready by (auto split: outcome.splits)
      have "service_inv pairs dep (case event of QueueEvent_OutgoingFrame d _ \<Rightarrow> [d] | _ \<Rightarrow> []) (s\<lparr>os_queue := q\<rparr>)"
        using inv Ready Some by (cases event) simp_all
      then show ?thesis using Suc.IH service_inv_handle_event s1 by blast
    qed
  qed
qed simp

lemma finished_split:
  "mset (map fst m) = mset (map fst (filter (\<lambda>(_, fut). radio_poll radio fut = Pending) m) @ map fst (finished_sends radio m))"
  by (induction radio m rule: finished_sends.induct) (auto split: poll.splits)

lemma service_inv_report:
  assumes "service_inv pairs dep (map fst results) s"
  shows "\<exists>q. OldService_report_results dep now results s = Return (s\<lparr>os_queue := q\<rparr>) \<and> service_inv pairs dep [] (s\<lparr>os_queue := q\<rparr>)"
  using assms
proof (induction results arbitrary: s)
  case Nil
  then show ?case by (intro exI [of _ "os_queue s"]) simp
next
  case (Cons p results)
  obtain key val where p: "p = (key, val)" by (cases p)
  obtain requests L where L: "queue_reach (dep_timers dep) requests L (os_queue s)" "mset L = mset (map fst (os_inflight s) @ key # map fst results)"
    using Cons.prems by (auto simp: service_inv_def queue_part_def p)
  have key: "key \<in> set L" using L(2) by (metis in_set_conv_decomp set_mset_mset)
  obtain q where q: "Queue_on_send_result (dep_timers dep) now key (is_ok val) (os_queue s) = Return q"
    using queue.send_result_total [of L "os_queue s" key now "is_ok val"] queue.queue_reach_inv [OF L(1)] key by auto
  have "mset (remove1 key L) = mset (map fst (os_inflight s) @ map fst results)" using L(2) by simp
  from service_inv_queue [OF Cons.prems queue_reach.send_result [OF L(1) key q] this]
  have inv: "service_inv pairs dep (map fst results) (s\<lparr>os_queue := q\<rparr>)" .
  show ?case using Cons.IH [OF inv] q by (simp add: p)
qed

lemma service_inv_poll_inflight:
  assumes "service_inv pairs dep [] s"
  shows "\<exists>s'. OldService_poll_inflight dep now s = Return s' \<and> service_inv pairs dep [] s'"
proof -
  let ?s = "s\<lparr>os_inflight := filter (\<lambda>(_, fut). radio_poll (os_radio s) fut = Pending) (os_inflight s)\<rparr>"
  have "mset (map fst (os_inflight s) @ []) = mset (map fst (os_inflight ?s) @ map fst (finished_sends (os_radio s) (os_inflight s)))"
    using finished_split [of "os_inflight s" "os_radio s"] by simp
  then have "service_inv pairs dep (map fst (finished_sends (os_radio s) (os_inflight s))) ?s"
    using assms unfolding service_inv_def queue_part_def table_part_def assoc_part_def by simp
  from service_inv_report [OF this] show ?thesis unfolding OldService_poll_inflight_def by blast
qed

lemma service_inv_poll_next:
  assumes "service_inv pairs dep [] s" "OldService_poll_next fuel timer_fuel dep now cx s = Some (Return (r, s'))"
  shows "service_inv pairs dep [] s'"
proof -
  obtain e s1 where s1: "OldService_poll_packets fuel dep now s = Some (Return (e, s1))"
    using assms(2) by (auto simp: OldService_poll_next_def split: option.splits outcome.splits)
  note inv1 = service_inv_poll_packets [OF assms(1) s1]
  show ?thesis
  proof (cases e)
    case None
    then obtain s2 where s2: "OldService_poll_queue fuel timer_fuel dep now cx s1 = Some (Return s2)" "OldService_poll_inflight dep now s2 = Return s'"
      using assms(2) s1 by (auto simp: OldService_poll_next_def bind_outcome_eq_Return_iff)
    then show ?thesis using service_inv_poll_inflight [OF service_inv_poll_queue [OF inv1 s2(1)], of now] by auto
  next
    case (Some event)
    then show ?thesis using assms(2) s1 inv1 by (simp add: OldService_poll_next_def)
  qed
qed

end

section \<open>The operations of the owner\<close>

lemma fresh_sequence_iff:
  "OldService_fresh_sequence_number s = Return (n, s') \<longleftrightarrow>
     unat (os_sequence_number s) + 1 < 2 ^ 8 \<and> n = os_sequence_number s + 1 \<and> s' = s\<lparr>os_sequence_number := os_sequence_number s + 1\<rparr>"
  by (auto simp: OldService_fresh_sequence_number_def Let_def)

lemma service_inv_sequence: "service_inv pairs dep todo s \<Longrightarrow> service_inv pairs dep todo (s\<lparr>os_sequence_number := n\<rparr>)"
  by (simp add: service_inv_def queue_part_def table_part_def assoc_part_def)

lemma service_inv_beacon:
  assumes "service_inv pairs dep [] s" "OldService_send_beacon dep bs s = Return (f, s')"
  shows "service_inv pairs dep [] s' \<and> os_sequence_number s' = os_sequence_number s + 1 \<and> unat (os_sequence_number s) + 1 < 2 ^ 8"
proof -
  obtain frame s1 where s1: "s1 = s\<lparr>os_sequence_number := os_sequence_number s + 1\<rparr>" "unat (os_sequence_number s) + 1 < 2 ^ 8"
    "OldService_send_frame_noqueue dep frame s1 = Return (f, s')"
    using assms(2) by (auto simp: OldService_send_beacon_def bind_outcome_eq_Return_iff fresh_sequence_iff)
  have "service_inv pairs dep [] s1" unfolding s1(1) by (rule service_inv_sequence [OF assms(1)])
  from service_inv_noqueue [OF this s1(3)] show ?thesis using s1(1,2) by simp
qed

context service_parts
begin

lemma associate_correct:
  "case OldService_associate dep addr b s of
     Panic \<Rightarrow> addr \<notin> snd ` pairs (os_associations s) \<and> (\<forall>short. short \<in> fst ` pairs (os_associations s))
   | Return (short, s') \<Rightarrow>
       (\<exists>m. s' = s\<lparr>os_nodeinfo := (os_nodeinfo s)(addr \<mapsto> \<lparr>ni_receiver_on_when_idle = b\<rparr>), os_associations := m\<rparr> \<and>
         pairs m = insert (short, addr) (pairs (os_associations s))) \<and>
       (addr \<notin> snd ` pairs (os_associations s) \<longrightarrow> short \<notin> fst ` pairs (os_associations s) \<and>
         (\<forall>m < ShortAddress_into short. short_address.ShortAddress m \<in> fst ` pairs (os_associations s)))"
proof (cases "bl_get_by_right (dep_bimap dep) addr (os_associations s)")
  case (Some left)
  then have "(left, addr) \<in> pairs (os_associations s)" by (simp add: assoc.get_by_right_iff)
  moreover from this have "addr \<in> snd ` pairs (os_associations s)" by force
  moreover have "s\<lparr>os_nodeinfo := n\<rparr> = s\<lparr>os_nodeinfo := n, os_associations := os_associations s\<rparr>" for n by (cases s) simp
  ultimately show ?thesis
    using Some by (auto simp: OldService_associate_def insert_absorb intro!: exI [of _ "os_associations s"])
next
  case None
  then have "(l, addr) \<notin> pairs (os_associations s)" for l using assoc.get_by_right_iff [of addr "os_associations s" l] by simp
  then have none: "addr \<notin> snd ` pairs (os_associations s)" by force
  let ?taken = "\<lambda>a. bl_contains_left (dep_bimap dep) a (os_associations s)"
  note free = find_free_correct [where contains = ?taken and n = 0]
  show ?thesis
  proof (cases "find_free_from ?taken 0")
    case Panic
    have "short \<in> fst ` pairs (os_associations s)" for short
      using free Panic by (cases short) (simp add: assoc.contains_left_iff)
    then show ?thesis using None Panic none by (simp add: OldService_associate_def OldService_find_free_short_address_def)
  next
    case (Return short)
    then have short: "short \<notin> fst ` pairs (os_associations s)"
        "\<forall>m < ShortAddress_into short. short_address.ShortAddress m \<in> fst ` pairs (os_associations s)"
      using free by (simp_all add: assoc.contains_left_iff)
    have "pairs (bm_insert (bl_map (dep_bimap dep)) short addr (os_associations s)) = insert (short, addr) (pairs (os_associations s))"
      unfolding assoc.pairs_insert using short(1) none by force
    then show ?thesis using None Return none short
      by (auto simp: OldService_associate_def OldService_find_free_short_address_def)
  qed
qed

lemma service_inv_associate:
  assumes "service_inv pairs dep [] s" "OldService_associate dep addr b s = Return (short, s')"
  shows "service_inv pairs dep [] s' \<and> os_sequence_number s' = os_sequence_number s"
proof -
  obtain m where s': "s' = s\<lparr>os_nodeinfo := (os_nodeinfo s)(addr \<mapsto> \<lparr>ni_receiver_on_when_idle = b\<rparr>), os_associations := m\<rparr>"
      "pairs m = insert (short, addr) (pairs (os_associations s))"
    using assms(2) associate_correct [where addr = addr and b = b and s = s] by auto
  have "assoc_part pairs s'" using assms(1) s' by (auto simp: service_inv_def assoc_part_def)
  with assms(1) s' show ?thesis by (simp add: service_inv_def queue_part_def table_part_def)
qed

lemma service_inv_response:
  assumes "service_inv pairs dep [] s" "OldService_send_association_response dep now addr s = Return (f, s')"
  shows "service_inv pairs dep [] s'"
proof (cases "bl_get_by_right (dep_bimap dep) addr (os_associations s)")
  case None
  then show ?thesis using assms by (simp add: OldService_send_association_response_def)
next
  case (Some short)
  obtain s1 frame where s1: "OldService_send_frame_queued dep now frame s1 = Return (f, s')" "service_inv pairs dep [] s1"
    using assms Some service_inv_sequence [OF assms(1)]
    by (auto simp: OldService_send_association_response_def bind_outcome_eq_Return_iff fresh_sequence_iff)
  have pending: "service_inv pairs dep [] s2"
    if "(if \<not> b then OldService_set_pending_data d True s1 else Return s1) = Return s2" for b d s2
    using that service_inv_set_pending [OF s1(2)] s1(2) by (auto split: if_splits)
  obtain s2 b q where s2: "service_inv pairs dep [] s2"
      "Queue_enqueue (dep_timers dep) now (os_next_channel s2) frame b (os_queue s2) = Return q"
      "s' = s2\<lparr>os_queue := q, os_next_channel := os_next_channel s2 + 1\<rparr>"
    using s1(1) pending unfolding OldService_send_frame_queued_def Let_def bind_outcome_eq_Return_iff by blast
  obtain requests L where L: "queue_reach (dep_timers dep) requests L (os_queue s2)" "mset L = mset (map fst (os_inflight s2) @ [])"
    using s2(1) by (auto simp: service_inv_def queue_part_def)
  from service_inv_queue [OF s2(1) queue_reach.enqueue [OF L(1) s2(2)] L(2)]
  show ?thesis unfolding s2(3) by (simp add: service_inv_def queue_part_def table_part_def assoc_part_def)
qed

end

section \<open>Starting\<close>

lemma radio_start_command:
  assumes "radio_start into (Called request handle) radio = Return (f, radio')"
  shows "\<exists>c. br_sent radio' = br_sent radio @ [c] \<and> command_id c = RequestCommand_as_u8 (rq_command request) \<and>
    command_data c = rq_data request \<and> f = RF_Waiting (length (br_sent radio)) (\<lambda>answer. map_err into (handle answer))"
  using assms by (auto simp: radio_start_def Let_def bind_outcome_eq_Return_iff RawBridgeService_call_def split: prod.splits)

definition sent_requests :: "nat bridge_state \<Rightarrow> (u8 \<times> bytes) list" where
  "sent_requests radio = map (\<lambda>c. (command_id c, command_data c)) (br_sent radio)"

fun request_of :: "'a bridge_future \<Rightarrow> (u8 \<times> bytes) list" where
  "request_of (Failed e) = []"
| "request_of (Called request handle) = [(RequestCommand_as_u8 (rq_command request), rq_data request)]"

lemma radio_start_requests:
  "radio_start into fut radio = Return (f, radio') \<Longrightarrow> sent_requests radio' = sent_requests radio @ request_of fut"
  using radio_start_effect [of into fut radio f radio'] by (cases fut) (auto simp: sent_requests_def)

lemma radio_start_all_requests:
  "radio_start_all into futs radio = Return (fs, radio') \<Longrightarrow>
    sent_requests radio' = sent_requests radio @ concat (map request_of futs)"
  by (induction futs arbitrary: radio fs) (auto simp: bind_outcome_eq_Return_iff dest!: radio_start_requests)

definition properties_requests :: "u16 \<Rightarrow> short_address \<Rightarrow> panid \<Rightarrow> u16 \<Rightarrow> (u8 \<times> bytes) list" where
  "properties_requests channel short panid pwr =
     [(7, to_be_bytes (6 :: u16) @ to_be_bytes pwr), (7, to_be_bytes (1 :: u16) @ to_be_bytes channel),
      (7, to_be_bytes (3 :: u16) @ to_be_bytes (ShortAddress_into short)),
      (7, to_be_bytes (2 :: u16) @ to_be_bytes (PANID_into panid)), (7, to_be_bytes (4 :: u16) @ to_be_bytes (3 :: u16)), (10, [])]"

lemma properties_requests_sent:
  "concat (map request_of (OldService_properties channel short panid pwr)) = properties_requests channel short panid pwr"
  by (simp add: OldService_properties_def properties_requests_def RadioBridgeService_set_tx_power_def
      RadioBridgeService_set_channel_def RadioBridgeService_set_short_address_def RadioBridgeService_set_pan_id_def
      RadioBridgeService_set_rx_mode_def RadioBridgeService_set_value_def u16_value_def bridge_rx_mode_value_def
      RadioBridgeService_init_pending_data_table_def)

text \<open>The requests sent when a link of the chain is waited for; \<open>pwr\<close> is what the radio answered to the first one.\<close>

fun startup_requests :: "u16 \<Rightarrow> short_address \<Rightarrow> panid \<Rightarrow> u16 \<Rightarrow> 'e startup \<Rightarrow> (u8 \<times> bytes) list" where
  "startup_requests channel short panid pwr (SU_MaxPower _) = [(6, to_be_bytes (16 :: u16))]"
| "startup_requests channel short panid pwr (SU_Properties _) =
     [(6, to_be_bytes (16 :: u16))] @ properties_requests channel short panid pwr"
| "startup_requests channel short panid pwr (SU_On _) =
     [(6, to_be_bytes (16 :: u16))] @ properties_requests channel short panid pwr @ [(4, [])]"
| "startup_requests channel short panid pwr _ =
     [(6, to_be_bytes (16 :: u16))] @ properties_requests channel short panid pwr @
       [(4, []), (8, to_be_bytes (11 :: u16) @ to_be_bytes (8 :: u16))]"

text \<open>Starting: the future is polled, and the task that reads the serial port handles commands.\<close>

inductive startup_reach :: "u16 \<Rightarrow> short_address \<Rightarrow> panid \<Rightarrow> 'se service_error startup \<Rightarrow> nat bridge_state \<Rightarrow> bool"
  for channel short panid where
  started: "OldService_new bridge_start = Return (phase, radio) \<Longrightarrow> startup_reach channel short panid phase radio"
| polled: "startup_reach channel short panid phase radio \<Longrightarrow>
    OldService_new_poll channel short panid (phase, radio) = Return (phase', radio') \<Longrightarrow>
    startup_reach channel short panid phase' radio'"
| answered: "startup_reach channel short panid phase radio \<Longrightarrow> bridge_step (Event_Command cmd) radio = Return radio' \<Longrightarrow>
    startup_reach channel short panid phase radio'"

text \<open>Every link but a failed one has sent its requests.\<close>

definition startup_inv :: "u16 \<Rightarrow> short_address \<Rightarrow> panid \<Rightarrow> 'e startup \<times> nat bridge_state \<Rightarrow> bool" where
  "startup_inv channel short panid = (\<lambda>(phase, radio).
     (case phase of
        SU_Done (Err _) \<Rightarrow> True
      | SU_Done (Ok _) \<Rightarrow> \<exists>pwr. sent_requests radio = startup_requests channel short panid pwr phase
      | _ \<Rightarrow> \<exists>pwr. sent_requests radio = startup_requests channel short panid pwr phase))"

lemma request_of_operations:
  "request_of RadioBridgeService_get_tx_power_max = [(6, to_be_bytes (16 :: u16))]"
  "request_of RadioBridgeService_on = [(4, [])]"
  "request_of RadioBridgeService_get_long_address = [(8, to_be_bytes (11 :: u16) @ to_be_bytes (8 :: u16))]"
  by (simp_all add: RadioBridgeService_get_tx_power_max_def RadioBridgeService_get_value_def RadioBridgeService_on_def
      RadioBridgeService_get_long_address_def RadioBridgeService_get_object_def)

lemma startup_step_inv:
  assumes "startup_inv channel short panid s" "OldService_new_step channel short panid s = Return s'"
  shows "startup_inv channel short panid s'"
proof -
  obtain phase radio where s: "s = (phase, radio)" by (cases s)
  show ?thesis
  proof (cases phase)
    case (SU_MaxPower fut)
    then show ?thesis
      using assms unfolding s
      by (auto simp: OldService_new_step_def startup_inv_def bind_outcome_eq_Return_iff properties_requests_sent
          dest!: radio_start_all_requests split: poll.splits sum.splits)
  next
    case (SU_Properties futs)
    then show ?thesis
      using assms unfolding s
      by (auto simp: OldService_new_step_def startup_inv_def bind_outcome_eq_Return_iff request_of_operations
          dest!: radio_start_requests split: sum.splits list.splits)
  next
    case (SU_On fut)
    then show ?thesis
      using assms unfolding s
      by (auto simp: OldService_new_step_def startup_inv_def bind_outcome_eq_Return_iff request_of_operations
          dest!: radio_start_requests split: sum.splits poll.splits)
  next
    case (SU_LongAddress fut)
    then show ?thesis
      using assms unfolding s by (auto simp: OldService_new_step_def startup_inv_def split: sum.splits poll.splits)
  next
    case (SU_Done r)
    then show ?thesis using assms unfolding s by (auto simp: OldService_new_step_def)
  qed
qed

lemma bridge_command_sent: "bridge_step (Event_Command cmd) radio = Return radio' \<Longrightarrow> br_sent radio' = br_sent radio"
  by (auto simp: bind_outcome_eq_Return_iff)

lemma startup_reach_inv:
  assumes "startup_reach channel short panid phase radio"
  shows "startup_inv channel short panid (phase, radio)"
  using assms
proof (induction rule: startup_reach.induct)
  case (started phase radio)
  then show ?case
    by (auto simp: OldService_new_def startup_inv_def bind_outcome_eq_Return_iff request_of_operations sent_requests_def bridge_start_def
        dest!: radio_start_requests)
next
  case (polled phase radio phase' radio')
  then obtain s1 s2 s3 where "OldService_new_step channel short panid (phase, radio) = Return s1"
    "OldService_new_step channel short panid s1 = Return s2" "OldService_new_step channel short panid s2 = Return s3"
    "OldService_new_step channel short panid s3 = Return (phase', radio')"
    unfolding OldService_new_poll_def Let_def bind_outcome_eq_Return_iff by blast
  then show ?case using polled.IH by (metis startup_step_inv)
next
  case (answered phase radio cmd radio')
  then have "sent_requests radio' = sent_requests radio" by (simp only: sent_requests_def bridge_command_sent)
  then show ?case using answered.IH by (simp add: startup_inv_def split: startup.splits sum.splits)
qed

section \<open>Reachable services\<close>

text \<open>
  What happens to a service: it is created when starting has succeeded, its owner polls it and calls its
  operations, the task that reads the serial port handles commands and ends, and the maps are iterated
  in any order.
\<close>

inductive service_reach :: "('se, 'de, 'bm, 'k, 'e, 'q) service_deps \<Rightarrow> ('se, 'bm, 'k, 'q) old_service \<Rightarrow> bool"
  for dep where
  created: "startup_reach channel short panid (SU_Done (Ok ext) :: 'se service_error startup) radio \<Longrightarrow>
    OldService_created dep short panid ext radio = Return s \<Longrightarrow> service_reach dep s"
| poll: "service_reach dep s \<Longrightarrow> OldService_poll_next fuel timer_fuel dep now cx s = Some (Return (r, s')) \<Longrightarrow> service_reach dep s'"
| beacon: "service_reach dep s \<Longrightarrow> OldService_send_beacon dep bs s = Return (f, s') \<Longrightarrow> service_reach dep s'"
| associate: "service_reach dep s \<Longrightarrow> OldService_associate dep addr b s = Return (short, s') \<Longrightarrow> service_reach dep s'"
| response: "service_reach dep s \<Longrightarrow> OldService_send_association_response dep now addr s = Return (f', s') \<Longrightarrow> service_reach dep s'"
| answered: "service_reach dep s \<Longrightarrow> bridge_step (Event_Command cmd) (os_radio s) = Return radio \<Longrightarrow>
    service_reach dep (s\<lparr>os_radio := radio\<rparr>)"
| ended: "service_reach dep s \<Longrightarrow> service_reach dep (s\<lparr>os_packets_ended := True\<rparr>)"
| reorder_inflight: "service_reach dep s \<Longrightarrow> reordered (os_inflight s) m \<Longrightarrow> service_reach dep (s\<lparr>os_inflight := m\<rparr>)"
| reorder_queue: "service_reach dep s \<Longrightarrow> reordered (tq_queues (os_queue s)) m \<Longrightarrow>
    service_reach dep (s\<lparr>os_queue := (os_queue s)\<lparr>tq_queues := m\<rparr>\<rparr>)"

lemma radio_table_untouched: "\<forall>c \<in> set sent. command_id c \<noteq> 11 \<Longrightarrow> radio_table sent = Map.empty"
  by (induction sent rule: rev_induct) (auto simp: table_after_def)

lemma started_table:
  assumes "startup_reach channel short panid (SU_Done (Ok ext)) radio"
  shows "radio_table (br_sent radio) = Map.empty"
proof (rule radio_table_untouched)
  obtain pwr where "sent_requests radio = startup_requests channel short panid pwr (SU_Done (Ok ext))"
    using startup_reach_inv [OF assms] by (auto simp: startup_inv_def)
  then have "\<forall>i \<in> fst ` set (sent_requests radio). i \<noteq> 11" by (simp add: properties_requests_def)
  then show "\<forall>c \<in> set (br_sent radio). command_id c \<noteq> 11" by (simp add: sent_requests_def)
qed

lemma mru_new_inv: "MRUSet_new n = Return self \<Longrightarrow> n > 0 \<Longrightarrow> mru_inv n [] Map.empty self"
  using mru_inv_new [of n] by (metis outcome.inject)

context service_parts
begin

lemma service_inv_created:
  assumes "startup_reach channel short panid (SU_Done (Ok ext) :: 'se service_error startup) radio"
    and "OldService_created dep short panid ext radio = Return s"
  shows "service_inv pairs dep [] s"
proof -
  obtain p where p: "MRUAddressSet_new 8 8 = Return p" and s: "os_pending_data_set s = p" "os_radio s = radio" "os_handle_open s"
    "os_queue s = Queue_new (dep_timers dep)" "os_inflight s = []" "os_nodeinfo s = Map.empty"
    "os_short_address s = short" "os_extended_address s = ExtendedAddress ext"
    "os_associations s = bm_insert (bl_map (dep_bimap dep)) short (ExtendedAddress ext) (bm_new (bl_map (dep_bimap dep)))"
    using assms(2) by (auto simp: OldService_created_def bind_outcome_eq_Return_iff)
  obtain a b where "MRUSet_new 8 = Return a" "MRUSet_new 8 = Return b" "p = \<lparr>mru_short = a, mru_extended = b\<rparr>"
    using p by (auto simp: MRUAddressSet_new_def bind_outcome_eq_Return_iff)
  moreover from this have "mru_inv 8 [] Map.empty a" "mru_inv 8 [] Map.empty b" by (auto intro: mru_new_inv)
  moreover have "table_of Map.empty Map.empty = Map.empty" by (simp add: table_of_def fun_eq_iff)
  ultimately have "slots_inv [] [] (radio_table (br_sent (os_radio s))) (os_pending_data_set s)"
    unfolding slots_inv_def s(1,2) started_table [OF assms(1)] by force
  moreover have "assoc_part pairs s" by (simp add: assoc_part_def s assoc.pairs_insert assoc.pairs_new)
  moreover have "queue_part dep [] s" unfolding queue_part_def s using queue_reach.new by fastforce
  ultimately show ?thesis using s(3) by (auto simp: service_inv_def table_part_def)
qed

lemma service_reach_inv:
  assumes "service_reach dep s"
  shows "service_inv pairs dep [] s"
  using assms
proof (induction rule: service_reach.induct)
  case (created channel short panid ext radio s)
  then show ?case by (rule service_inv_created)
next
  case (poll s fuel timer_fuel now cx r s')
  then show ?case using service_inv_poll_next by blast
next
  case (beacon s bs f s')
  then show ?case using service_inv_beacon by blast
next
  case (associate s addr b short s')
  then show ?case using service_inv_associate by blast
next
  case (response s now addr f' s')
  then show ?case using service_inv_response by blast
next
  case (answered s cmd radio)
  then show ?case using bridge_command_sent [OF answered.hyps(2)] by (intro service_inv_radio) simp_all
next
  case (ended s)
  then show ?case by (simp add: service_inv_def queue_part_def table_part_def assoc_part_def)
next
  case (reorder_inflight s m)
  have "distinct (map fst (os_inflight s))" using service_inv_distinct [OF reorder_inflight.IH] by simp
  then have "mset (map fst m) = mset (map fst (os_inflight s))"
    using reorder_inflight.hyps(2) unfolding reordered_def
    by (metis distinct_map image_mset_cong mset_map set_eq_iff_mset_eq_distinct)
  then show ?case using reorder_inflight.IH
    by (simp add: service_inv_def queue_part_def table_part_def assoc_part_def)
next
  case (reorder_queue s m)
  then obtain requests L where L: "queue_reach (dep_timers dep) requests L (os_queue s)" "mset L = mset (map fst (os_inflight s) @ [])"
    by (auto simp: service_inv_def queue_part_def)
  show ?case by (rule service_inv_queue [OF reorder_queue.IH queue_reach.reorder [OF L(1) reorder_queue.hyps(2)] L(2)])
qed

end

end
