(* ===== verification/Old_Service_Polling.thy ===== *)
theory Old_Service_Polling
  imports Old_Service_Invariant
begin

text \<open>
  Polling the MAC service of the earlier stack ends, what it does with the events of its owner, and the
  theorems about it, with an example of a start in which the radio answers every request.
\<close>

section \<open>Polling ends\<close>

lemma stop_timer_lists:
  "Queue_stop_timer tk d q = Return q' \<Longrightarrow> tq_outgoing q' = tq_outgoing q \<and> tq_flushed q' = tq_flushed q"
  by (auto simp: Queue_stop_timer_def bind_outcome_eq_Return_iff split: option.splits)

lemma handle_optional_lists:
  assumes "Queue_handle_optional tk now d a q = Return q'"
  shows "length (tq_outgoing q') = length (tq_outgoing q) + attempts a \<and> tq_flushed q' = tq_flushed q"
proof (cases a)
  case (Some action)
  show ?thesis
  proof (cases action)
    case (DA_StartTimer w)
    then show ?thesis using assms Some by (auto simp: Queue_handle_optional_def bind_outcome_eq_Return_iff split: option.splits prod.splits)
  qed (use assms Some in \<open>auto simp: Queue_handle_optional_def bind_outcome_eq_Return_iff dest!: stop_timer_lists\<close>)
qed (use assms in \<open>simp add: Queue_handle_optional_def\<close>)

text \<open>What is left to do for a poll: frames to hand out, flushes to announce and timers that are due.\<close>

definition transmit_work :: "('q \<Rightarrow> 'k \<rightharpoonup> address_specification \<times> instant) \<Rightarrow> instant \<Rightarrow> ('k, 'q) transmit_queue \<Rightarrow> nat" where
  "transmit_work timers now q = length (tq_outgoing q) + length (tq_flushed q) + card (due_timers timers now q)"

context address_queue
begin

lemma on_timer_lists:
  assumes ready: "ready_for DO_Timer d inflight (q\<lparr>tq_running_timers := (tq_running_timers q)(d := None)\<rparr>)"
    and "Queue_on_timer tk now d q = Return q'"
  shows "length (tq_outgoing q') + length (tq_flushed q') \<le> length (tq_outgoing q) + length (tq_flushed q) + 1"
proof -
  let ?q = "q\<lparr>tq_running_timers := (tq_running_timers q)(d := None)\<rparr>"
  obtain s' action answers where step: "device_step DO_Timer (dev ?q d) = (s', action, answers)" by (cases "device_step DO_Timer (dev ?q d)")
  have fits: "action_fits action (tq_running_timers ?q d \<noteq> None) (d \<in> set (sends inflight ?q)) s'"
    using device_step_fits [OF step] ready dev_timed unfolding ready_for_def by blast
  have "attempts action + (if OldDeviceQueue_is_idle s' then 1 else 0) \<le> 1"
    using fits by (cases action rule: attempts.cases; cases s') auto
  moreover have "length (tq_outgoing q') = length (tq_outgoing q) + attempts action \<and>
      tq_flushed q' = tq_flushed q @ (if OldDeviceQueue_is_idle s' then [d] else [])"
    using assms(2) step
    by (auto simp: Queue_on_timer_def Queue_update_and_handle_action_def dev_def Let_def split: if_splits dest!: handle_optional_lists)
  ultimately show ?thesis by auto
qed

lemma poll_timers_work:
  assumes "queue_inv timers [] inflight q" "Queue_poll_timers fuel tk now cx q = Some (Return q')"
  shows "transmit_work timers now q' \<le> transmit_work timers now q"
  using assms
proof (induction fuel arbitrary: q)
  case (Suc fuel)
  obtain r dl where poll: "DelayQueue_poll_next tk now cx (tq_timers q) = (r, dl)" by (cases "DelayQueue_poll_next tk now cx (tq_timers q)")
  have running: "\<not> dl_finished (tq_timers q)" using queue_invD(2) [OF Suc.prems(1)] by (simp add: timers_match_def)
  note polled = DelayQueue_polled [OF running poll]
  show ?case
  proof (cases r)
    case Pending
    then have "q' = q\<lparr>tq_timers := dl\<rparr>" using Suc.prems(2) poll by simp
    then show ?thesis using polled Pending by (simp add: transmit_work_def due_timers_def)
  next
    case (Ready x)
    then obtain e where e: "r = Ready (Some (Ok e))" using polled(2) poll DelayQueue_no_error by (cases x; cases "the x") auto
    from poll_timers_step [OF Suc.prems(1) poll [unfolded e]] obtain d q1 where q1: "e = Expired (Some d)"
      "Queue_on_timer tk now d (q\<lparr>tq_timers := dl\<rparr>) = Return q1" "queue_inv timers [] inflight q1"
      "card (due_timers timers now q1) < card (due_timers timers now q)" by blast
    obtain k t where k: "live_timers timers (tq_timers q) k = Some (d, t)"
      "live_timers timers dl = (live_timers timers (tq_timers q))(k := None)" "\<not> dl_finished dl"
      using polled e q1(1) by auto
    have "ready_for DO_Timer d inflight ((q\<lparr>tq_timers := dl\<rparr>)\<lparr>tq_running_timers := (tq_running_timers (q\<lparr>tq_timers := dl\<rparr>))(d := None)\<rparr>)"
      using ready_for_timer [OF Suc.prems(1) k(1) k(3) k(2)] by simp
    from on_timer_lists [OF this q1(2)] have "transmit_work timers now q1 \<le> transmit_work timers now q"
      using q1(4) by (simp add: transmit_work_def)
    moreover have "Queue_poll_timers fuel tk now cx q1 = Some (Return q')" using Suc.prems(2) q1(1,2) by (simp add: poll e)
    ultimately show ?thesis using Suc.IH [OF q1(3)] by linarith
  qed
qed simp

lemma first_flushed_shorter: "first_flushed queues ds = (Some d, rest) \<Longrightarrow> length rest < length ds"
  by (induction queues ds rule: first_flushed.induct) (auto split: if_splits)

text \<open>An event costs work, so the queue ends up pending.\<close>

lemma poll_next_work:
  assumes "queue_inv timers [] inflight q" "Queue_poll_next fuel tk now cx q = Some (Return (Ready e, q'))"
  shows "e \<noteq> None \<and> transmit_work timers now q' < transmit_work timers now q"
proof -
  let ?q = "q\<lparr>tq_stream_waker := SavedWaker_set (tq_stream_waker q) cx\<rparr>"
  have inv: "queue_inv timers [] inflight ?q"
    using queue_invD(2,3) [OF assms(1)] by (intro queue_inv_transfer [OF assms(1)]) (simp_all add: timers_match_def sends_def)
  obtain q1 where q1: "Queue_poll_timers fuel tk now cx ?q = Some (Return q1)"
    "(case tq_outgoing q1 of
        (d, frame) # outgoing \<Rightarrow> Return (Ready (Some (QueueEvent_OutgoingFrame d frame)), q1\<lparr>tq_outgoing := outgoing\<rparr>)
      | [] \<Rightarrow>
          (case first_flushed (tq_queues q1) (tq_flushed q1) of
             (Some d, flushed) \<Rightarrow> Return (Ready (Some (QueueEvent_QueueFlushed d)), q1\<lparr>tq_flushed := flushed\<rparr>)
           | (None, flushed) \<Rightarrow> Return (Pending, q1\<lparr>tq_flushed := flushed\<rparr>))) = Return (Ready e, q')"
    using assms(2) by (auto simp: Queue_poll_next_def bind_outcome_eq_Return_iff)
  have "transmit_work timers now q1 \<le> transmit_work timers now ?q" by (rule poll_timers_work [OF inv q1(1)])
  moreover have "transmit_work timers now ?q = transmit_work timers now q" by (simp add: transmit_work_def due_timers_def)
  moreover have "e \<noteq> None \<and> transmit_work timers now q' < transmit_work timers now q1"
    using q1(2) first_flushed_shorter [of "tq_queues q1" "tq_flushed q1"]
    by (auto simp: transmit_work_def due_timers_def split: list.splits prod.splits option.splits)
  ultimately show ?thesis by simp
qed

end

context service_parts
begin

lemma poll_packets_ends:
  assumes "service_inv pairs dep [] s" "\<not> os_packets_ended s" "length (br_packets (os_radio s)) < fuel"
  shows "\<exists>m. OldService_poll_packets fuel dep now s = Some m"
  using assms
proof (induction fuel arbitrary: s)
  case (Suc fuel)
  show ?case
  proof (cases "br_packets (os_radio s)")
    case Nil
    then show ?thesis using Suc.prems(2) by (simp add: OldService_next_packet_def)
  next
    case (Cons p ps)
    let ?s = "s\<lparr>os_radio := (os_radio s)\<lparr>br_packets := ps\<rparr>\<rparr>"
    have next1: "OldService_next_packet s = (Ready (Some p), ?s)" using Cons by (simp add: OldService_next_packet_def)
    note inv = service_inv_next_packet [OF Suc.prems(1) next1]
    show ?thesis
    proof (cases "OldService_handle_packet dep now p ?s")
      case (Return r)
      obtain e s1 where r: "r = (e, s1)" by (cases r)
      have s1: "service_inv pairs dep [] s1" "same_stream ?s s1" using service_inv_packet [OF inv] Return r by auto
      then show ?thesis
        using Suc.IH [OF s1(1)] Suc.prems(2,3) Cons next1 Return r
        by (cases e) (auto simp: same_stream_def)
    qed (simp add: next1)
  qed
qed simp

lemma poll_packets_more:
  "OldService_poll_packets fuel dep now s = Some m \<Longrightarrow> fuel \<le> fuel' \<Longrightarrow> OldService_poll_packets fuel' dep now s = Some m"
proof (induction fuel arbitrary: s fuel')
  case (Suc fuel)
  then obtain n where "fuel' = Suc n" "fuel \<le> n" by (cases fuel') auto
  with Suc show ?case by (auto split: poll.splits option.splits outcome.splits prod.splits)
qed simp

lemma poll_queue_ends:
  assumes "service_inv pairs dep [] s" "transmit_work timers now (os_queue s) < fuel" "transmit_work timers now (os_queue s) < timer_fuel"
  shows "\<exists>m. OldService_poll_queue fuel timer_fuel dep now cx s = Some m"
  using assms
proof (induction fuel arbitrary: s)
  case (Suc fuel)
  obtain requests L where L: "queue_reach (dep_timers dep) requests L (os_queue s)"
    using Suc.prems(1) by (auto simp: service_inv_def queue_part_def)
  have inv: "queue_inv timers [] L (os_queue s)" using queue.queue_reach_inv [OF L] by simp
  have "card (due_timers timers now (os_queue s)) < timer_fuel" using Suc.prems(3) by (simp add: transmit_work_def)
  then obtain r q where q: "Queue_poll_next timer_fuel (dep_timers dep) now cx (os_queue s) = Some (Return (r, q))"
    using queue.poll_next_total [OF inv, of timer_fuel now cx] by (auto split: option.splits)
  show ?case
  proof (cases r)
    case (Ready e)
    have less: "e \<noteq> None" "transmit_work timers now q < transmit_work timers now (os_queue s)"
      using queue.poll_next_work [OF inv] q Ready by auto
    then obtain event where e: "e = Some event" by auto
    have inv': "service_inv pairs dep (case event of QueueEvent_OutgoingFrame d _ \<Rightarrow> [d] | _ \<Rightarrow> []) (s\<lparr>os_queue := q\<rparr>)"
      using service_inv_event [OF Suc.prems(1) q] Ready e by (cases event) simp_all
    show ?thesis
    proof (cases "OldService_handle_queue_event dep event (s\<lparr>os_queue := q\<rparr>)")
      case (Return s1)
      have "service_inv pairs dep [] s1" "os_queue s1 = q" using service_inv_handle_event [OF inv' Return] by simp_all
      with Suc.IH [of s1] less(2) Suc.prems(2,3) Return q Ready e show ?thesis by auto
    qed (simp add: q Ready e)
  qed (simp add: q)
qed simp

lemma poll_next_ends:
  assumes "service_inv pairs dep [] s" "\<not> os_packets_ended s"
  shows "\<exists>n. \<forall>fuel \<ge> n. \<forall>timer_fuel \<ge> n. \<exists>m. OldService_poll_next fuel timer_fuel dep now cx s = Some m"
proof -
  let ?n = "Suc (length (br_packets (os_radio s)))"
  obtain m where m: "OldService_poll_packets ?n dep now s = Some m" using poll_packets_ends [OF assms] by blast
  note more = poll_packets_more [OF m]
  show ?thesis
  proof (cases "\<exists>s1. m = Return (None, s1)")
    case True
    then obtain s1 where s1: "m = Return (None, s1)" by blast
    have inv: "service_inv pairs dep [] s1" by (rule service_inv_poll_packets [OF assms(1) m [unfolded s1]])
    show ?thesis
    proof (intro exI [of _ "max ?n (Suc (transmit_work timers now (os_queue s1)))"] allI impI)
      fix fuel timer_fuel
      assume n: "max ?n (Suc (transmit_work timers now (os_queue s1))) \<le> fuel" "max ?n (Suc (transmit_work timers now (os_queue s1))) \<le> timer_fuel"
      obtain r where "OldService_poll_queue fuel timer_fuel dep now cx s1 = Some r"
        using poll_queue_ends [OF inv, of now fuel timer_fuel cx] n [unfolded max.bounded_iff] by auto
      moreover have "OldService_poll_packets fuel dep now s = Some m" using more n(1) by simp
      ultimately show "\<exists>m. OldService_poll_next fuel timer_fuel dep now cx s = Some m"
        using s1 by (simp add: OldService_poll_next_def)
    qed
  next
    case False
    then have "OldService_poll_next fuel timer_fuel dep now cx s \<noteq> None" if "?n \<le> fuel" for fuel timer_fuel
      using more [OF that] by (cases m) (auto simp: OldService_poll_next_def split: option.splits)
    then show ?thesis by blast
  qed
qed

end

text \<open>A stream that has ended keeps the loop going.\<close>

lemma poll_packets_spins:
  "os_packets_ended s \<Longrightarrow> br_packets (os_radio s) = [] \<Longrightarrow> OldService_poll_packets fuel dep now s = None"
  by (induction fuel) (simp_all add: OldService_next_packet_def)

section \<open>An example\<close>

text \<open>The radio answers every request of the start: the address is 1.\<close>

definition demo_answer :: "u16 \<Rightarrow> bytes \<Rightarrow> bridge_command" where
  "demo_answer rid bs = \<lparr>command_id = 0x80, request_id = rid, command_data = bs\<rparr>"

fun demo_handle :: "bridge_command list \<Rightarrow> nat bridge_state \<Rightarrow> nat bridge_state outcome" where
  "demo_handle [] radio = Return radio"
| "demo_handle (c # cs) radio = bind_outcome (bridge_step (Event_Command c) radio) (demo_handle cs)"

lemma demo_handle_reach:
  "startup_reach channel short panid phase radio \<Longrightarrow> demo_handle cs radio = Return radio' \<Longrightarrow> startup_reach channel short panid phase radio'"
  by (induction cs arbitrary: radio) (auto simp: bind_outcome_eq_Return_iff simp del: bridge_step.simps intro: startup_reach.answered)

definition demo_status_ok :: bytes where "demo_status_ok = [0, 0]"

definition demo_start :: "(string service_error startup \<times> nat bridge_state) outcome" where
  "demo_start =
     (let poll = OldService_new_poll 25 (short_address.ShortAddress 0) (PANID 0x7698);
          answer = (\<lambda>cs (phase, radio). bind_outcome (demo_handle cs radio) (\<lambda>radio. Return (phase, radio)))
      in bind_outcome (OldService_new bridge_start) (\<lambda>s.
         bind_outcome (answer [demo_answer 0 [0, 0, 0, 7]] s) (\<lambda>s. bind_outcome (poll s) (\<lambda>s.
         bind_outcome (answer [demo_answer 1 [0, 0], demo_answer 2 [0, 0], demo_answer 3 [0, 0], demo_answer 4 [0, 0],
             demo_answer 5 [0, 0], demo_answer 6 [0, 0]] s) (\<lambda>s. bind_outcome (poll s) (\<lambda>s.
         bind_outcome (answer [demo_answer 7 [0, 1]] s) (\<lambda>s. bind_outcome (poll s) (\<lambda>s.
         bind_outcome (answer [demo_answer 8 [0, 0, 0, 0, 0, 0, 0, 0, 0, 1]] s) poll))))))))"

definition demo_result :: "u64 option" where
  "demo_result = (case demo_start of Return (SU_Done (Ok ext), _) \<Rightarrow> Some ext | _ \<Rightarrow> None)"

lemmas start_compute = OldService_new_def OldService_new_poll_def OldService_new_step_def radio_start_def radio_poll_def
  RawBridgeService_call_def Dispatcher_new_request_def Dispatcher_new_def bridge_start_def Let_def
  handle_incoming_command_def demo_answer_def Dispatcher_resolve_def OldService_properties_def
  RadioBridgeService_get_tx_power_max_def RadioBridgeService_get_value_def RadioBridgeService_on_def
  RadioBridgeService_get_long_address_def RadioBridgeService_get_object_def RadioBridgeService_set_tx_power_def
  RadioBridgeService_set_channel_def RadioBridgeService_set_short_address_def RadioBridgeService_set_pan_id_def
  RadioBridgeService_set_rx_mode_def RadioBridgeService_set_value_def u16_value_def bridge_rx_mode_value_def
  RadioBridgeService_init_pending_data_table_def status_result_def

lemma demo_result_one: "demo_result = Some 1"
  by (simp add: demo_result_def demo_start_def start_compute from_be_bytes_def)

lemma demo_started_service:
  obtains radio s where "startup_reach 25 (short_address.ShortAddress 0) (PANID 0x7698) (SU_Done (Ok 1) :: string service_error startup) radio"
    "OldService_created service_deps_impl (short_address.ShortAddress 0) (PANID 0x7698) 1 radio = Return s"
    "service_reach service_deps_impl s"
proof -
  obtain radio where radio: "demo_start = Return (SU_Done (Ok 1), radio)"
    using demo_result_one by (auto simp: demo_result_def split: outcome.splits prod.splits startup.splits sum.splits)
  let ?reach = "\<lambda>s :: string service_error startup \<times> nat bridge_state. startup_reach 25 (short_address.ShortAddress 0) (PANID 0x7698) (fst s) (snd s)"
  have poll: "?reach s'" if "OldService_new_poll 25 (short_address.ShortAddress 0) (PANID 0x7698) s = Return s'" "?reach s" for s s'
    using startup_reach.polled [of 25 "short_address.ShortAddress 0" "PANID 0x7698" "fst s" "snd s" "fst s'" "snd s'"] that by simp
  have answer: "?reach (phase, radio')" if "demo_handle cs radio = Return radio'" "?reach (phase, radio)" for cs phase radio radio'
    using demo_handle_reach [OF that(2) [unfolded fst_conv snd_conv] that(1)] by simp
  have start: "?reach s" if "OldService_new bridge_start = Return s" for s
    using startup_reach.started [of "fst s" "snd s"] that by simp
  have reach: "?reach (SU_Done (Ok 1), radio)"
    using radio unfolding demo_start_def Let_def case_prod_unfold bind_outcome_eq_Return_iff
    by (auto dest!: start answer poll simp del: demo_handle.simps)
  obtain s where s: "OldService_created service_deps_impl (short_address.ShortAddress 0) (PANID 0x7698) 1 radio = Return s"
    by (simp add: OldService_created_def MRUAddressSet_new_def MRUSet_new_def assert_that_def)
  show thesis
    using that [of radio s] reach s service_reach.created [where dep = service_deps_impl, of 25 "short_address.ShortAddress 0" "PANID 0x7698" 1 radio s]
    by simp
qed

section \<open>Serving events\<close>

fun serve_events :: "('se, 'de, 'bm, 'k, 'e, 'q) service_deps \<Rightarrow> (instant \<times> service_event) list \<Rightarrow> ('se, 'bm, 'k, 'q) old_service \<Rightarrow>
    ('se, 'bm, 'k, 'q) old_service outcome" where
  "serve_events dep [] s = Return s"
| "serve_events dep ((now, event) # events) s = bind_outcome (on_mac_event dep now event s) (serve_events dep events)"

lemma set_pending_sequence:
  assumes "service_inv pairs dep todo s" "OldService_set_pending_data d b s = Return s'"
  shows "os_sequence_number s' = os_sequence_number s"
proof -
  obtain ls lx where "slots_inv ls lx (radio_table (br_sent (os_radio s))) (os_pending_data_set s)"
    using assms(1) by (auto simp: service_inv_def table_part_def)
  from set_pending_table [OF this assms(2)] show ?thesis by auto
qed

lemma send_queued_sequence:
  assumes "service_inv pairs dep [] s" "OldService_send_frame_queued dep now frame s = Return (f, s')"
  shows "os_sequence_number s' = os_sequence_number s"
  using assms(2) set_pending_sequence [OF assms(1)]
  by (auto simp: OldService_send_frame_queued_def Let_def bind_outcome_eq_Return_iff split: if_splits)

context service_parts
begin

lemma associate_unique:
  "case OldService_associate dep addr receiver_on s of
     Panic \<Rightarrow> addr \<notin> snd ` pairs (os_associations s) \<and> fst ` pairs (os_associations s) = UNIV
   | Return (short, s') \<Rightarrow>
       pairs (os_associations s') = insert (short, addr) (pairs (os_associations s)) \<and>
       (\<forall>other. (short, other) \<in> pairs (os_associations s') \<longrightarrow> other = addr) \<and>
       (\<forall>other. (other, addr) \<in> pairs (os_associations s') \<longrightarrow> other = short) \<and>
       (addr \<notin> snd ` pairs (os_associations s) \<longrightarrow>
          (\<forall>m. m < ShortAddress_into short \<longrightarrow> short_address.ShortAddress m \<in> fst ` pairs (os_associations s))) \<and>
       OldService_get_nodeinfo_for_addrspec dep (AddressSpecification_Short (os_pan_id s) short) s' =
         Some \<lparr>ni_receiver_on_when_idle = receiver_on\<rparr> \<and>
       OldService_get_nodeinfo_for_addrspec dep (AddressSpecification_Extended panid addr) s' =
         Some \<lparr>ni_receiver_on_when_idle = receiver_on\<rparr>"
proof (cases "OldService_associate dep addr receiver_on s")
  case Panic
  note correct = associate_correct [where addr = addr and b = receiver_on and s = s, unfolded Panic outcome.case]
  have all: "UNIV = fst ` pairs (os_associations s)" by (rule UNIV_eq_I) (rule correct [THEN conjunct2, THEN spec])
  show ?thesis unfolding Panic outcome.case by (rule conjI [OF correct [THEN conjunct1] all [symmetric]])
next
  case (Return r)
  obtain short s' where r: "r = (short, s')" by (cases r)
  note correct = associate_correct [where addr = addr and b = receiver_on and s = s, unfolded Return r outcome.case prod.case]
  obtain m where s': "s' = s\<lparr>os_nodeinfo := (os_nodeinfo s)(addr \<mapsto> \<lparr>ni_receiver_on_when_idle = receiver_on\<rparr>), os_associations := m\<rparr>"
      "pairs m = insert (short, addr) (pairs (os_associations s))"
    using correct [THEN conjunct1] by (elim exE conjE) (rule that)
  have least: "addr \<notin> snd ` pairs (os_associations s) \<longrightarrow>
      (\<forall>m < ShortAddress_into short. short_address.ShortAddress m \<in> fst ` pairs (os_associations s))"
    by (intro impI) (drule correct [THEN conjunct2, THEN mp], erule conjunct2)
  have pair: "(short, addr) \<in> pairs m" using s'(2) by simp
  have left: "bl_get_by_left (dep_bimap dep) short m = Some addr" using pair by (simp only: assoc.get_by_left_iff)
  have unique: "\<forall>other. (short, other) \<in> pairs m \<longrightarrow> other = addr" "\<forall>other. (other, addr) \<in> pairs m \<longrightarrow> other = short"
    by (intro allI impI, erule assoc.pairs_left_unique [OF _ pair]) (intro allI impI, erule assoc.pairs_right_unique [OF _ pair])
  show ?thesis unfolding Return r outcome.case prod.case
  proof (intro conjI)
    show "pairs (os_associations s') = insert (short, addr) (pairs (os_associations s))" by (simp add: s')
    have m: "os_associations s' = m" by (simp add: s'(1))
    show "\<forall>other. (short, other) \<in> pairs (os_associations s') \<longrightarrow> other = addr"
      "\<forall>other. (other, addr) \<in> pairs (os_associations s') \<longrightarrow> other = short" unfolding m by (rule unique)+
    show "addr \<notin> snd ` pairs (os_associations s) \<longrightarrow>
        (\<forall>m < ShortAddress_into short. short_address.ShortAddress m \<in> fst ` pairs (os_associations s))" by (rule least)
    show "OldService_get_nodeinfo_for_addrspec dep (AddressSpecification_Short (os_pan_id s) short) s' =
        Some \<lparr>ni_receiver_on_when_idle = receiver_on\<rparr>" using left by (simp add: s'(1))
    show "OldService_get_nodeinfo_for_addrspec dep (AddressSpecification_Extended panid addr) s' =
        Some \<lparr>ni_receiver_on_when_idle = receiver_on\<rparr>" by (simp add: s'(1))
  qed
qed

lemma on_mac_event_sequence:
  assumes "service_inv pairs dep [] s" "on_mac_event dep now event s = Return s'"
  shows "service_inv pairs dep [] s' \<and> unat (os_sequence_number s') = unat (os_sequence_number s) + 1 \<and> unat (os_sequence_number s) < 255"
proof -
  have "service_inv pairs dep [] s' \<and> os_sequence_number s' = os_sequence_number s + 1 \<and> unat (os_sequence_number s) + 1 < 2 ^ 8"
  proof (cases event)
    case ServiceEvent_BeaconRequest
    then show ?thesis using assms service_inv_beacon [OF assms(1)] by (auto simp: bind_outcome_eq_Return_iff spawned_def split: if_splits)
  next
    case (ServiceEvent_AssociationRequest ext b)
    then obtain short s1 f where s1: "OldService_associate dep ext b s = Return (short, s1)"
      "OldService_send_association_response dep now ext s1 = Return (f, s')"
      using assms(2) by (auto simp: bind_outcome_eq_Return_iff spawned_def split: if_splits)
    have inv1: "service_inv pairs dep [] s1" "os_sequence_number s1 = os_sequence_number s"
      using service_inv_associate [OF assms(1) s1(1)] by simp_all
    have "(short, ext) \<in> pairs (os_associations s1)"
      using associate_unique [where addr = ext and receiver_on = b and s = s, unfolded s1(1) outcome.case prod.case, THEN conjunct1] by simp
    then have "bl_get_by_right (dep_bimap dep) ext (os_associations s1) = Some short" by (simp add: assoc.get_by_right_iff)
    then obtain frame where "OldService_send_frame_queued dep now frame (s1\<lparr>os_sequence_number := os_sequence_number s1 + 1\<rparr>) = Return (f, s')"
      "unat (os_sequence_number s1) + 1 < 2 ^ 8"
      using s1(2) by (auto simp: OldService_send_association_response_def bind_outcome_eq_Return_iff fresh_sequence_iff)
    then show ?thesis
      using send_queued_sequence [OF service_inv_sequence [OF inv1(1)]] service_inv_response [OF inv1(1) s1(2)] inv1(2) by simp
  qed
  moreover from this have "unat (os_sequence_number s + 1) = unat (os_sequence_number s) + 1"
    using unat_add_lem [of "os_sequence_number s" 1] by simp
  ultimately show ?thesis by simp
qed

lemma serve_events_count:
  assumes "service_inv pairs dep [] s" "serve_events dep events s = Return s'"
  shows "unat (os_sequence_number s') = unat (os_sequence_number s) + length events \<and>
    unat (os_sequence_number s) + length events \<le> 255"
  using assms
proof (induction events arbitrary: s)
  case Nil
  have "unat (os_sequence_number s) < 2 ^ 8" using unsigned_less [of "os_sequence_number s"] by simp
  then show ?case using Nil by simp
next
  case (Cons e events)
  obtain now event where e: "e = (now, event)" by (cases e)
  then obtain s1 where s1: "on_mac_event dep now event s = Return s1" "serve_events dep events s1 = Return s'"
    using Cons.prems(2) by (auto simp: bind_outcome_eq_Return_iff)
  show ?case using on_mac_event_sequence [OF Cons.prems(1) s1(1)] Cons.IH [OF _ s1(2)] by auto
qed

end

section \<open>Theorems\<close>

text \<open>The entries of the table, in the slots of short and of extended addresses.\<close>

definition table_entries :: "(u8 \<Rightarrow> bool) \<Rightarrow> ('se, 'bm, 'k, 'q) old_service \<Rightarrow> bytes set" where
  "table_entries P s = {entry. \<exists>i. P i \<and> radio_table (br_sent (os_radio s)) i = Some entry}"

text \<open>The addresses whose bit is set, newest first, and what the table of the radio holds of them.\<close>

definition pending_lists :: "('se, 'bm, 'k, 'q) old_service \<Rightarrow> (panid \<times> short_address) list \<Rightarrow> extended_address list \<Rightarrow> bool" where
  "pending_lists s short ext \<longleftrightarrow>
     (\<forall>p a. MRUAddressSet_contains (os_pending_data_set s) (AddressSpecification_Short p a) \<longleftrightarrow> (p, a) \<in> set short) \<and>
     (\<forall>p a. MRUAddressSet_contains (os_pending_data_set s) (AddressSpecification_Extended p a) \<longleftrightarrow> a \<in> set ext) \<and>
     table_entries (\<lambda>i. i < 0x80) s = short_entry ` set (take 8 short) \<and>
     table_entries (\<lambda>i. \<not> i < 0x80) s = extended_entry ` set (take 8 ext)"

lemma mru_ran: "mru_inv n l slots self \<Longrightarrow> ran slots = set (take n l) \<and> dom slots \<subseteq> {..<n} \<and> mru_entries self = set l"
  unfolding mru_inv_def slot_ok_def mutual_def ran_def by (simp add: set_eq_iff dom_def subset_iff) metis

lemma slots_inv_lists:
  assumes "slots_inv short ext (radio_table (br_sent (os_radio s))) (os_pending_data_set s)"
  shows "pending_lists s short ext"
proof -
  obtain ss se where inv: "mru_inv 8 short ss (mru_short (os_pending_data_set s))" "mru_inv 8 ext se (mru_extended (os_pending_data_set s))"
    "radio_table (br_sent (os_radio s)) = table_of ss se"
    using assms by (auto simp: slots_inv_def)
  note ran = mru_ran [OF inv(1)] mru_ran [OF inv(2)]
  have low: "i < 0x80 \<longleftrightarrow> unat i < 128" for i :: u8 by (simp add: word_less_nat_alt)
  have small: "unat (of_nat n :: u8) = n" if "n < 256" for n
    using that by (simp add: unsigned_of_nat take_bit_nat_eq_self)
  have short: "unat (of_nat n :: u8) = n" if "ss n = Some x" for n x
    using ran(1) that by (intro small) (auto simp: subset_iff)
  have ext: "unat (of_nat (128 + n) :: u8) = 128 + n" if "se n = Some x" for n x
    using ran(2) that by (intro small) (auto simp: subset_iff)
  have "table_entries (\<lambda>i. i < 0x80) s = short_entry ` ran ss"
  proof (intro set_eqI iffI)
    fix e assume "e \<in> short_entry ` ran ss"
    then obtain n x where "ss n = Some x" "e = short_entry x" by (auto simp: ran_def)
    then show "e \<in> table_entries (\<lambda>i. i < 0x80) s"
      using short [of n x] ran(1) unfolding table_entries_def inv(3) low
      by (intro CollectI exI [of _ "of_nat n"]) (auto simp: table_of_def subset_iff)
  qed (auto simp: table_entries_def inv(3) low table_of_def ran_def simp del: short_entry.simps extended_entry.simps intro!: imageI)
  moreover have "table_entries (\<lambda>i. \<not> i < 0x80) s = extended_entry ` ran se"
  proof (intro set_eqI iffI)
    fix e assume "e \<in> extended_entry ` ran se"
    then obtain n x where "se n = Some x" "e = extended_entry x" by (auto simp: ran_def)
    then show "e \<in> table_entries (\<lambda>i. \<not> i < 0x80) s"
      using ext [of n x] unfolding table_entries_def inv(3) low
      by (intro CollectI exI [of _ "of_nat (128 + n)"]) (simp add: table_of_def del: of_nat_add)
  qed (auto simp: table_entries_def inv(3) low table_of_def ran_def simp del: short_entry.simps extended_entry.simps intro!: imageI)
  ultimately show ?thesis using ran by (simp add: pending_lists_def MRUSet_contains_def)
qed

text \<open>C29. The service follows the protocol of its queue: its queue is always one that the operations of a
  queue can reach, with the frames in flight those whose futures it holds; so a frame that the queue hands
  out never replaces the future of another frame to the same address, and every result is reported.\<close>

theorem OldService_one_frame_each:
  assumes "service_parts dep timers pairs" "service_reach dep s"
  shows "(\<exists>requests inflight. queue_reach (dep_timers dep) requests inflight (os_queue s) \<and>
      set inflight = fst ` set (os_inflight s)) \<and> hm_wf (os_inflight s) \<and>
    (\<forall>fuel now cx d frame q. Queue_poll_next fuel (dep_timers dep) now cx (os_queue s) =
        Some (Return (Ready (Some (QueueEvent_OutgoingFrame d frame)), q)) \<longrightarrow> map_of (os_inflight s) d = None) \<and>
    (\<forall>now. \<exists>s'. OldService_poll_inflight dep now s = Return s')"
proof -
  note inv = service_parts.service_reach_inv [OF assms]
  obtain requests L where L: "queue_reach (dep_timers dep) requests L (os_queue s)" "mset L = mset (map fst (os_inflight s) @ [])"
    using inv by (auto simp: service_inv_def queue_part_def)
  have set: "set L = fst ` set (os_inflight s)" using arg_cong [OF L(2), of set_mset] by simp
  have "map_of (os_inflight s) d = None"
    if "Queue_poll_next fuel (dep_timers dep) now cx (os_queue s) = Some (Return (Ready (Some (QueueEvent_OutgoingFrame d frame)), q))"
    for fuel now cx d frame q
  proof -
    have "distinct (d # L)"
      using service_parts.queue_reach_distinct [OF assms(1) queue_reach.poll [OF L(1) that]] by simp
    then show ?thesis using set by (simp add: map_of_eq_None_iff)
  qed
  then show ?thesis
    using L(1) set service_parts.service_inv_distinct [OF assms(1) inv] service_parts.service_inv_poll_inflight [OF assms(1) inv]
    unfolding hm_wf_def by (metis append_Nil2)
qed

theorem OldService_one_frame_each_witness:
  "\<exists>s. service_reach service_deps_impl s \<and> hm_wf (os_inflight s)"
proof -
  obtain radio s where "service_reach service_deps_impl s" using demo_started_service .
  from OldService_one_frame_each [OF service_impl.service_parts_axioms this] this show ?thesis by blast
qed

text \<open>C31. Associating a device: it keeps a short address it has, and gets the least free one otherwise, so
  no two devices share one and the addresses of the others stay; it fails only when all 65536 are taken. What
  was said about the receiver is then found under both addresses.\<close>

theorem OldService_associate_unique:
  assumes "service_parts dep timers pairs" "service_reach dep s"
  shows "case OldService_associate dep addr receiver_on s of
     Panic \<Rightarrow> addr \<notin> snd ` pairs (os_associations s) \<and> fst ` pairs (os_associations s) = UNIV
   | Return (short, s') \<Rightarrow>
       pairs (os_associations s') = insert (short, addr) (pairs (os_associations s)) \<and>
       (\<forall>other. (short, other) \<in> pairs (os_associations s') \<longrightarrow> other = addr) \<and>
       (\<forall>other. (other, addr) \<in> pairs (os_associations s') \<longrightarrow> other = short) \<and>
       (addr \<notin> snd ` pairs (os_associations s) \<longrightarrow>
          (\<forall>m. m < ShortAddress_into short \<longrightarrow> short_address.ShortAddress m \<in> fst ` pairs (os_associations s))) \<and>
       OldService_get_nodeinfo_for_addrspec dep (AddressSpecification_Short (os_pan_id s) short) s' =
         Some \<lparr>ni_receiver_on_when_idle = receiver_on\<rparr> \<and>
       OldService_get_nodeinfo_for_addrspec dep (AddressSpecification_Extended panid addr) s' =
         Some \<lparr>ni_receiver_on_when_idle = receiver_on\<rparr>"
  using service_parts.associate_unique [OF assms(1)] by blast

theorem OldService_associate_unique_witness:
  "\<exists>s. service_reach service_deps_impl s \<and>
    (case OldService_associate service_deps_impl (ExtendedAddress 2) False s of
       Panic \<Rightarrow> fst ` set (bimap_pairs (os_associations s)) = UNIV
     | Return (short, s') \<Rightarrow> set (bimap_pairs (os_associations s')) = insert (short, ExtendedAddress 2) (set (bimap_pairs (os_associations s))))"
proof -
  obtain radio s where s: "service_reach service_deps_impl s" using demo_started_service .
  note unique = OldService_associate_unique [OF service_impl.service_parts_axioms s, of "ExtendedAddress 2" False]
  show ?thesis
  proof (intro exI [of _ s] conjI s)
    show "case OldService_associate service_deps_impl (ExtendedAddress 2) False s of
        Panic \<Rightarrow> fst ` set (bimap_pairs (os_associations s)) = UNIV
      | Return (short, s') \<Rightarrow> set (bimap_pairs (os_associations s')) = insert (short, ExtendedAddress 2) (set (bimap_pairs (os_associations s)))"
    proof (cases "OldService_associate service_deps_impl (ExtendedAddress 2) False s")
      case Panic
      show ?thesis using unique [unfolded Panic outcome.case, THEN conjunct2] unfolding Panic outcome.case .
    next
      case (Return r)
      obtain short s' where r: "r = (short, s')" by (cases r)
      show ?thesis using unique [unfolded Return r outcome.case prod.case, THEN conjunct1] unfolding Return r outcome.case prod.case .
    qed
  qed
qed

text \<open>C32. A poll of the service ends, whatever the fuel from some number on: every packet is handled
  once, and every event of the queue uses up a frame to send, an announcement or a timer.  But when the stream
  of packets has ended and its packets are handled, a poll goes round its loop for ever.\<close>

theorem OldService_poll_ends:
  assumes "service_parts dep timers pairs" "service_reach dep s"
  shows "(\<not> os_packets_ended s \<longrightarrow>
      (\<exists>n. \<forall>fuel \<ge> n. \<forall>timer_fuel \<ge> n. \<exists>m. OldService_poll_next fuel timer_fuel dep now cx s = Some m)) \<and>
    (os_packets_ended s \<and> br_packets (os_radio s) = [] \<longrightarrow>
      (\<forall>fuel timer_fuel. OldService_poll_next fuel timer_fuel dep now cx s = None))"
  using service_parts.poll_next_ends [OF assms(1) service_parts.service_reach_inv [OF assms]]
  by (simp add: OldService_poll_next_def poll_packets_spins)

theorem OldService_poll_ends_witness:
  "\<exists>s. service_reach service_deps_impl s \<and>
    (\<exists>n. \<forall>fuel \<ge> n. \<forall>timer_fuel \<ge> n. \<exists>m. OldService_poll_next fuel timer_fuel service_deps_impl 0 (Waker 0) s = Some m)"
proof -
  obtain radio s where s: "OldService_created service_deps_impl (short_address.ShortAddress 0) (PANID 0x7698) 1 radio = Return s"
    "service_reach service_deps_impl s"
    using demo_started_service .
  have "\<not> os_packets_ended s" using s(1) by (auto simp: OldService_created_def bind_outcome_eq_Return_iff)
  then show ?thesis
    using OldService_poll_ends [OF service_impl.service_parts_axioms s(2), of 0 "Waker 0"] s(2) by blast
qed

text \<open>C37. The service wears out: every beacon it is asked for and every device that associates takes a
  new sequence number of 8 bits, so it serves at most 255 events; the event after those panics.\<close>

theorem OldService_event_limit:
  assumes "service_parts dep timers pairs" "service_reach dep s"
  shows "(\<forall>s'. serve_events dep events s = Return s' \<longrightarrow>
      unat (os_sequence_number s') = unat (os_sequence_number s) + length events) \<and>
    (unat (os_sequence_number s) + length events > 255 \<longrightarrow> serve_events dep events s = Panic)"
proof -
  note count = service_parts.serve_events_count [OF assms(1) service_parts.service_reach_inv [OF assms], of events]
  then show ?thesis by (cases "serve_events dep events s") auto
qed

theorem OldService_event_limit_witness:
  "\<exists>s. service_reach service_deps_impl s \<and>
    serve_events service_deps_impl (replicate 256 (0, ServiceEvent_BeaconRequest)) s = Panic"
proof -
  obtain radio s where s: "service_reach service_deps_impl s" using demo_started_service .
  show ?thesis
    using OldService_event_limit [OF service_impl.service_parts_axioms s, of "replicate 256 (0, ServiceEvent_BeaconRequest)"] s
    by (intro exI [of _ s]) simp
qed

text \<open>Starting configures the radio before it is turned on: a service is created only after the requests
  for the power, the channel, both addresses, the receive mode and the table were sent, in this order, then the
  one to turn on, then the one for the address.\<close>

theorem OldService_start_requests:
  assumes "startup_reach channel short panid (SU_Done (Ok ext)) radio"
  shows "\<exists>pwr :: u16. sent_requests radio =
    [(6, to_be_bytes (16 :: u16)), (7, to_be_bytes (6 :: u16) @ to_be_bytes pwr), (7, to_be_bytes (1 :: u16) @ to_be_bytes channel),
     (7, to_be_bytes (3 :: u16) @ to_be_bytes (ShortAddress_into short)), (7, to_be_bytes (2 :: u16) @ to_be_bytes (PANID_into panid)),
     (7, to_be_bytes (4 :: u16) @ to_be_bytes (3 :: u16)), (10, []), (4, []),
     (8, to_be_bytes (11 :: u16) @ to_be_bytes (8 :: u16))]"
  using startup_reach_inv [OF assms] by (simp add: startup_inv_def properties_requests_def)

end
