(* ===== verification/Old_Service_History.thy ===== *)
theory Old_Service_History
  imports Old_Service_Polling
begin

text \<open>
  The history of the pending addresses of the service (\<^verbatim>\<open>old_src/ieee802154/mac/service.rs\<close>): every reachable service has one,
  the calls that set or cleared bits since it started, and it determines what the radio's table holds.
\<close>

section \<open>The history of the pending addresses\<close>

text \<open>
  The calls of \<open>OldService_set_pending_data\<close> that lead from one state to another: what happens between them leaves the set
  of pending addresses and the table of the radio alone.
\<close>

definition same_pending :: "('se, 'bm, 'k, 'q) old_service \<Rightarrow> ('se, 'bm, 'k, 'q) old_service \<Rightarrow> bool" where
  "same_pending s s' \<longleftrightarrow> os_pending_data_set s' = os_pending_data_set s \<and>
     radio_table (br_sent (os_radio s')) = radio_table (br_sent (os_radio s))"

inductive pending_calls :: "('se, 'bm, 'k, 'q) old_service \<Rightarrow> (address_specification \<times> bool) list \<Rightarrow>
    ('se, 'bm, 'k, 'q) old_service \<Rightarrow> bool" for s0 where
  none: "pending_calls s0 [] s0"
| call: "pending_calls s0 hist s \<Longrightarrow> OldService_set_pending_data d b s = Return s' \<Longrightarrow> pending_calls s0 (hist @ [(d, b)]) s'"
| other: "pending_calls s0 hist s \<Longrightarrow> same_pending s s' \<Longrightarrow> pending_calls s0 hist s'"

text \<open>A service that has just started.\<close>

definition fresh_service :: "('se, 'de, 'bm, 'k, 'e, 'q) service_deps \<Rightarrow> ('se, 'bm, 'k, 'q) old_service \<Rightarrow> bool" where
  "fresh_service dep s \<longleftrightarrow> (\<exists>channel short panid ext radio.
     startup_reach channel short panid (SU_Done (Ok ext) :: 'se service_error startup) radio \<and>
     OldService_created dep short panid ext radio = Return s)"

definition tracked :: "('se, 'bm, 'k, 'q) old_service \<Rightarrow> ('se, 'bm, 'k, 'q) old_service \<Rightarrow> bool" where
  "tracked s0 s \<longleftrightarrow> (\<exists>hist. pending_calls s0 hist s)"

lemma tracked_call: "tracked s0 s \<Longrightarrow> OldService_set_pending_data d b s = Return s' \<Longrightarrow> tracked s0 s'"
  unfolding tracked_def by (blast intro: pending_calls.call)

lemma tracked_same: "tracked s0 s \<Longrightarrow> same_pending s s' \<Longrightarrow> tracked s0 s'"
  unfolding tracked_def by (blast intro: pending_calls.other)

lemma same_pending_update [simp]:
  "same_pending s (s\<lparr>os_queue := q\<rparr>)" "same_pending s (s\<lparr>os_inflight := m\<rparr>)" "same_pending s (s\<lparr>os_packets_ended := b\<rparr>)"
  "same_pending s (s\<lparr>os_queue := q, os_next_channel := n\<rparr>)" "same_pending s (s\<lparr>os_sequence_number := c\<rparr>)"
  "same_pending s (s\<lparr>os_nodeinfo := i\<rparr>)" "same_pending s (s\<lparr>os_nodeinfo := i, os_associations := a\<rparr>)" "same_pending s s"
  by (simp_all add: same_pending_def)

lemma same_pending_radio:
  "radio_table (br_sent r) = radio_table (br_sent (os_radio s)) \<Longrightarrow> same_pending s (s\<lparr>os_radio := r\<rparr>)"
  by (simp add: same_pending_def)

section \<open>What each operation does to it\<close>

lemma noqueue_same:
  assumes "OldService_send_frame_noqueue dep frame s = Return (f, s')"
  shows "same_pending s s'"
proof (cases "MacFrame_serialize_to (dep_ps dep) (dep_bf dep) frame []")
  case (Pair r bytes)
  show ?thesis
  proof (cases r)
    case (Inl e)
    then show ?thesis using assms Pair by (simp add: OldService_send_frame_noqueue_def)
  next
    case (Inr u)
    then obtain r where r: "radio_start ServiceError_RadioError (RadioBridgeService_send bytes) (os_radio s) = Return (f, r)" "s' = s\<lparr>os_radio := r\<rparr>"
      using assms Pair by (auto simp: OldService_send_frame_noqueue_def OldService_radio_def bind_outcome_eq_Return_iff)
    have "radio_table (br_sent r) = radio_table (br_sent (os_radio s))"
      by (rule radio_start_table [OF r(1)]) (simp add: RadioBridgeService_send_def)
    then show ?thesis unfolding r(2) by (rule same_pending_radio)
  qed
qed

lemma tracked_frame:
  assumes "tracked s0 s" "OldService_handle_frame dep now frame s = Return (e, s')"
  shows "tracked s0 s'"
proof -
  have queue: "tracked s0 (s\<lparr>os_queue := q\<rparr>)" for q using assms(1) by (rule tracked_same) simp
  show ?thesis
    using assms queue tracked_call [OF queue]
    by (auto simp: OldService_handle_frame_def bind_outcome_eq_Return_iff
        split: mac_frame_type.splits mac_command.splits option.splits address_specification.splits)
qed

lemma tracked_packet:
  assumes "tracked s0 s" "OldService_handle_packet dep now packet s = Return (e, s')"
  shows "tracked s0 s'"
proof -
  obtain r where "MacFrame_deserialize (dep_ps dep) (dep_bf8 dep) (dep_bf dep) (bp_packet packet) = Return r"
    using assms(2) by (auto simp: OldService_handle_packet_def bind_outcome_eq_Return_iff)
  then show ?thesis
    using assms tracked_frame [OF assms(1)] by (cases r) (auto simp: OldService_handle_packet_def)
qed

lemma tracked_next_packet:
  assumes "tracked s0 s" "OldService_next_packet s = (r, s')"
  shows "tracked s0 s'"
proof -
  have "same_pending s s'" using assms(2) by (auto simp: OldService_next_packet_def same_pending_def split: list.splits)
  then show ?thesis by (rule tracked_same [OF assms(1)])
qed

lemma tracked_poll_packets:
  assumes "tracked s0 s" "OldService_poll_packets fuel dep now s = Some (Return (e, s'))"
  shows "tracked s0 s'"
  using assms
proof (induction fuel arbitrary: s)
  case (Suc fuel)
  obtain r s1 where next1: "OldService_next_packet s = (r, s1)" by (cases "OldService_next_packet s")
  note tracked1 = tracked_next_packet [OF Suc.prems(1) next1]
  show ?case
    using Suc.prems(2) tracked1 next1
    by (auto split: poll.splits option.splits outcome.splits prod.splits dest!: tracked_packet [OF tracked1] intro: Suc.IH)
qed simp

lemma tracked_event:
  assumes "tracked s0 s" "OldService_handle_queue_event dep event s = Return s'"
  shows "tracked s0 s'"
proof (cases event)
  case (QueueEvent_OutgoingFrame d frame)
  then obtain f s1 where s1: "OldService_send_frame_noqueue dep frame s = Return (f, s1)"
    "s' = s1\<lparr>os_inflight := AList.update d f (os_inflight s1)\<rparr>"
    using assms(2) by (auto simp: bind_outcome_eq_Return_iff)
  show ?thesis using tracked_same [OF tracked_same [OF assms(1) noqueue_same [OF s1(1)]]] s1(2) by simp
next
  case (QueueEvent_QueueFlushed d)
  then show ?thesis using assms tracked_call by simp
qed

lemma tracked_poll_queue:
  assumes "tracked s0 s" "OldService_poll_queue fuel timer_fuel dep now cx s = Some (Return s')"
  shows "tracked s0 s'"
  using assms
proof (induction fuel arbitrary: s)
  case (Suc fuel)
  have queue: "tracked s0 (s\<lparr>os_queue := q\<rparr>)" for q using Suc.prems(1) by (rule tracked_same) simp
  show ?case
    using Suc.prems(2) queue
    by (auto simp: Let_def split: option.splits outcome.splits prod.splits poll.splits
        dest!: tracked_event [OF queue] intro: Suc.IH)
qed simp

lemma report_results_same: "OldService_report_results dep now results s = Return s' \<Longrightarrow> same_pending s s'"
proof (induction results arbitrary: s)
  case (Cons result results)
  obtain key val where result: "result = (key, val)" by (cases result)
  then obtain q where "OldService_report_results dep now results (s\<lparr>os_queue := q\<rparr>) = Return s'"
    using Cons.prems by (auto simp: bind_outcome_eq_Return_iff)
  from Cons.IH [OF this] show ?case by (simp add: same_pending_def)
qed simp

lemma tracked_poll_next:
  assumes "tracked s0 s" "OldService_poll_next fuel timer_fuel dep now cx s = Some (Return (r, s'))"
  shows "tracked s0 s'"
proof -
  obtain e s1 where s1: "OldService_poll_packets fuel dep now s = Some (Return (e, s1))"
    using assms(2) by (auto simp: OldService_poll_next_def split: option.splits outcome.splits prod.splits)
  note tracked1 = tracked_poll_packets [OF assms(1) s1]
  show ?thesis
  proof (cases e)
    case None
    then obtain s2 where s2: "OldService_poll_queue fuel timer_fuel dep now cx s1 = Some (Return s2)"
      "OldService_poll_inflight dep now s2 = Return s'"
      using assms(2) s1 by (auto simp: OldService_poll_next_def bind_outcome_eq_Return_iff)
    have "same_pending s2 s'"
      using report_results_same [OF s2(2) [unfolded OldService_poll_inflight_def]] by (simp add: same_pending_def)
    then show ?thesis by (rule tracked_same [OF tracked_poll_queue [OF tracked1 s2(1)]])
  qed (use tracked1 assms(2) s1 in \<open>simp add: OldService_poll_next_def\<close>)
qed

lemma tracked_beacon:
  assumes "tracked s0 s" "OldService_send_beacon dep bs s = Return (f, s')"
  shows "tracked s0 s'"
proof -
  obtain frame s1 where s1: "s1 = s\<lparr>os_sequence_number := os_sequence_number s + 1\<rparr>"
    "OldService_send_frame_noqueue dep frame s1 = Return (f, s')"
    using assms(2) by (auto simp: OldService_send_beacon_def bind_outcome_eq_Return_iff fresh_sequence_iff)
  have "tracked s0 s1" unfolding s1(1) by (rule tracked_same [OF assms(1)]) simp
  then show ?thesis by (rule tracked_same) (rule noqueue_same [OF s1(2)])
qed

lemma tracked_queued:
  assumes "tracked s0 s" "OldService_send_frame_queued dep now frame s = Return (f, s')"
  shows "tracked s0 s'"
proof -
  have pending: "tracked s0 s1" if "(if \<not> b then OldService_set_pending_data d True s else Return s) = Return s1" for b d s1
    using that tracked_call [OF assms(1)] assms(1) by (auto split: if_splits)
  obtain s1 q where s1: "tracked s0 s1" "s' = s1\<lparr>os_queue := q, os_next_channel := os_next_channel s1 + 1\<rparr>"
    using assms(2) pending unfolding OldService_send_frame_queued_def Let_def bind_outcome_eq_Return_iff by blast
  show ?thesis unfolding s1(2) by (rule tracked_same [OF s1(1)]) simp
qed

lemma tracked_response:
  assumes "tracked s0 s" "OldService_send_association_response dep now addr s = Return (f, s')"
  shows "tracked s0 s'"
proof (cases "bl_get_by_right (dep_bimap dep) addr (os_associations s)")
  case None
  then show ?thesis using assms by (simp add: OldService_send_association_response_def)
next
  case (Some short)
  obtain frame where "OldService_send_frame_queued dep now frame (s\<lparr>os_sequence_number := os_sequence_number s + 1\<rparr>) = Return (f, s')"
    using assms(2) Some by (auto simp: OldService_send_association_response_def bind_outcome_eq_Return_iff fresh_sequence_iff)
  then show ?thesis by (rule tracked_queued [rotated]) (rule tracked_same [OF assms(1)], simp)
qed

lemma associate_same: "OldService_associate dep addr b s = Return (short, s') \<Longrightarrow> same_pending s s'"
  by (auto simp: OldService_associate_def Let_def bind_outcome_eq_Return_iff split: option.splits)

text \<open>Every reachable service has a history from its start.\<close>

lemma service_reach_tracked:
  assumes "service_reach dep s"
  shows "\<exists>s0. fresh_service dep s0 \<and> tracked s0 s"
  using assms
proof (induction rule: service_reach.induct)
  case (created channel short panid ext radio s)
  then have "fresh_service dep s" unfolding fresh_service_def by blast
  then show ?case unfolding tracked_def by (blast intro: pending_calls.none)
next
  case (answered s cmd radio)
  have "same_pending s (s\<lparr>os_radio := radio\<rparr>)"
    using bridge_command_sent [OF answered.hyps(2)] by (intro same_pending_radio) simp
  then show ?case using answered.IH tracked_same by blast
next
  case (associate s addr b short s')
  then show ?case using associate_same tracked_same by blast
next
  case (ended s)
  then show ?case using tracked_same same_pending_update(3) by blast
next
  case (reorder_inflight s m)
  then show ?case using tracked_same same_pending_update(2) by blast
next
  case (reorder_queue s m)
  then show ?case using tracked_same same_pending_update(1) by blast
next
  case (poll s fuel timer_fuel now cx r s')
  then show ?case using tracked_poll_next by blast
next
  case (beacon s bs f s')
  then show ?case using tracked_beacon by blast
next
  case (response s now addr f' s')
  then show ?case using tracked_response by blast
qed

section \<open>The table after a history\<close>

text \<open>The addresses whose bit was set last, newest first: setting the bit moves the address to the front, clearing it
  removes the address.\<close>

definition recent_short :: "(address_specification \<times> bool) list \<Rightarrow> (panid \<times> short_address) list" where
  "recent_short hist = fold (\<lambda>(d, b). short_spec b d) hist []"

definition recent_extended :: "(address_specification \<times> bool) list \<Rightarrow> extended_address list" where
  "recent_extended hist = fold (\<lambda>(d, b). extended_spec b d) hist []"

lemma fresh_slots:
  assumes "fresh_service dep s"
  shows "slots_inv [] [] (radio_table (br_sent (os_radio s))) (os_pending_data_set s)"
proof -
  obtain channel short panid ext radio where start:
    "startup_reach channel short panid (SU_Done (Ok ext) :: 'a service_error startup) radio"
    "OldService_created dep short panid ext radio = Return s"
    using assms unfolding fresh_service_def by blast
  obtain p where p: "MRUAddressSet_new 8 8 = Return p" and s: "os_pending_data_set s = p" "os_radio s = radio"
    using start(2) by (auto simp: OldService_created_def bind_outcome_eq_Return_iff)
  obtain a b where "MRUSet_new 8 = Return a" "MRUSet_new 8 = Return b" "p = \<lparr>mru_short = a, mru_extended = b\<rparr>"
    using p by (auto simp: MRUAddressSet_new_def bind_outcome_eq_Return_iff)
  moreover from this have "mru_inv 8 [] Map.empty a" "mru_inv 8 [] Map.empty b" by (auto intro: mru_new_inv)
  moreover have "table_of Map.empty Map.empty = Map.empty" by (simp add: table_of_def fun_eq_iff)
  ultimately show ?thesis unfolding slots_inv_def s started_table [OF start(1)] by force
qed

lemma history_slots:
  assumes "fresh_service dep s0" "pending_calls s0 hist s"
  shows "slots_inv (recent_short hist) (recent_extended hist) (radio_table (br_sent (os_radio s))) (os_pending_data_set s)"
  using assms(2)
proof induction
  case none
  then show ?case using fresh_slots [OF assms(1)] by (simp add: recent_short_def recent_extended_def)
next
  case (call hist s d b s')
  from set_pending_table [OF call.IH call.hyps(2)] show ?case by (auto simp: recent_short_def recent_extended_def)
next
  case (other hist s s')
  then show ?case by (simp add: same_pending_def)
qed

text \<open>
  C30. The table of the radio holds the addresses whose bit was set last.  Every reachable service has a history, the calls
  that set or cleared bits since it started; and for every history that leads to it, whatever happened in between, the
  commands sent put exactly the first eight short and the first eight extended addresses into the table, in the order in
  which their bits were set last, without those that were cleared since; and the set holds all of these addresses.
\<close>

theorem OldService_pending_table:
  assumes "service_reach dep s"
  shows "(\<exists>s0 hist. fresh_service dep s0 \<and> pending_calls s0 hist s) \<and>
    (\<forall>s0 hist. fresh_service dep s0 \<longrightarrow> pending_calls s0 hist s \<longrightarrow>
      pending_lists s (recent_short hist) (recent_extended hist))"
  using service_reach_tracked [OF assms] history_slots slots_inv_lists unfolding tracked_def by blast

theorem OldService_pending_table_witness:
  "\<exists>s. service_reach service_deps_impl s \<and> fresh_service service_deps_impl s \<and> pending_lists s [] []"
proof -
  obtain radio s where s: "startup_reach 25 (short_address.ShortAddress 0) (PANID 0x7698) (SU_Done (Ok 1) :: string service_error startup) radio"
    "OldService_created service_deps_impl (short_address.ShortAddress 0) (PANID 0x7698) 1 radio = Return s"
    "service_reach service_deps_impl s"
    using demo_started_service .
  have "fresh_service service_deps_impl s" using s(1,2) unfolding fresh_service_def by blast
  moreover from OldService_pending_table [OF s(3)] this pending_calls.none [of s] have "pending_lists s [] []"
    by (fastforce simp: recent_short_def recent_extended_def)
  ultimately show ?thesis using s(3) by blast
qed

end
