(* ===== verification/Pack_Derive.thy ===== *)
theory Pack_Derive
  imports Pack
begin

text \<open>
  The derive macros \<^verbatim>\<open>Pack\<close>, \<^verbatim>\<open>PackTagged\<close> and \<^verbatim>\<open>ExtEnum\<close> (\<^verbatim>\<open>src/pack_derive\<close>), as functions from declarations
  to the code they generate, and the meaning of that code.  What \<^verbatim>\<open>syn\<close> makes of a run of tokens (a type, an
  expression, a pattern) is an argument, as are the meaning of a constant expression and of its pattern and
  the implementations of \<^verbatim>\<open>Pack\<close> that the types of fields and tags have.  An error the macro unwraps, or a
  declaration it does not support, stops the compiler: the outcome is \<^const>\<open>Panic\<close>.
\<close>

section \<open>Declarations\<close>

type_synonym ident = string

record syn_path =
  sp_leading_colon :: bool
  sp_segments :: "ident list"

text \<open>An attribute with the tokens in its parentheses, if it has them.\<close>

record 'tok attribute =
  at_path :: syn_path
  at_args :: "'tok option"

datatype 'ty fields = Fields_Named "(ident \<times> 'ty) list" | Fields_Unnamed "'ty list" | Fields_Unit

record ('tok, 'ty) variant =
  va_ident :: ident
  va_attrs :: "'tok attribute list"
  va_fields :: "'ty fields"
  va_discriminant :: "'tok option"

datatype ('tok, 'ty) decl_data = Data_Struct "'ty fields" | Data_Enum "('tok, 'ty) variant list" | Data_Union

text \<open>Of the generics only the predicates of the where clause reach the result as more than they are.\<close>

record ('tok, 'ty) derive_input =
  di_ident :: ident
  di_attrs :: "'tok attribute list"
  di_where_clause :: "string list option"
  di_data :: "('tok, 'ty) decl_data"

datatype syn_error = SynError string

record ('tok, 'ty, 'e, 'p) syn_parser =
  parse_type :: "'tok \<Rightarrow> ('ty, syn_error) result"
  parse_expr :: "'tok \<Rightarrow> ('e, syn_error) result"
  parse_pat :: "'tok \<Rightarrow> ('p, syn_error) result"

section \<open>Names and attributes\<close>

definition digit :: "nat \<Rightarrow> char" where
  "digit n = char_of (48 + n)"

fun decimal :: "nat \<Rightarrow> string" where
  "decimal n = (if n < 10 then [digit n] else decimal (n div 10) @ [digit (n mod 10)])"

declare decimal.simps [simp del]

definition gen_temporary_names :: "nat \<Rightarrow> ident" where
  "gen_temporary_names num = ''tmp'' @ decimal num"

definition gen_ignored_names :: "nat \<Rightarrow> ident" where
  "gen_ignored_names num = ''_ignore'' @ decimal num"

text \<open>\<^verbatim>\<open>namegen.take(n).collect()\<close>\<close>

definition take_names :: "(nat \<Rightarrow> ident) \<Rightarrow> nat \<Rightarrow> ident list" where
  "take_names namegen n = map namegen [0..<n]"

definition match_path :: "syn_path \<Rightarrow> ident \<Rightarrow> bool" where
  "match_path path name =
     (if \<not> sp_leading_colon path \<and> length (sp_segments path) = 1 then
        (case sp_segments path of segment # _ \<Rightarrow> segment = name | [] \<Rightarrow> False)
      else False)"

definition find_simple_attribute :: "('tok \<Rightarrow> ('a, syn_error) result) \<Rightarrow> 'tok attribute list \<Rightarrow> ident \<Rightarrow> ('a, syn_error) result" where
  "find_simple_attribute parse attrs name =
     (case List.find (\<lambda>attr. match_path (at_path attr) name) attrs of
        None \<Rightarrow> Err (SynError (''Attribute '' @ [CHR 0x27] @ name @ [CHR 0x27] @ '' not found''))
      | Some found \<Rightarrow>
          (case at_args found of None \<Rightarrow> Err (SynError ''expected attribute arguments in parentheses'') | Some tokens \<Rightarrow> parse tokens))"

definition get_tag_type :: "('tok, 'ty, 'e, 'p) syn_parser \<Rightarrow> 'tok attribute list \<Rightarrow> ('ty, syn_error) result" where
  "get_tag_type syn attributes = find_simple_attribute (parse_type syn) attributes ''tag_type''"

definition get_tag_expr :: "('tok, 'ty, 'e, 'p) syn_parser \<Rightarrow> ('tok, 'ty) variant \<Rightarrow> ('e, syn_error) result" where
  "get_tag_expr syn variant =
     (case va_discriminant variant of
        Some discr \<Rightarrow> parse_expr syn discr
      | None \<Rightarrow> find_simple_attribute (parse_expr syn) (va_attrs variant) ''tag'')"

definition get_tag_pat :: "('tok, 'ty, 'e, 'p) syn_parser \<Rightarrow> ('tok, 'ty) variant \<Rightarrow> ('p, syn_error) result" where
  "get_tag_pat syn variant =
     (case va_discriminant variant of
        Some discr \<Rightarrow> parse_pat syn discr
      | None \<Rightarrow> find_simple_attribute (parse_pat syn) (va_attrs variant) ''tag'')"

section \<open>Construction and deconstruction\<close>

text \<open>
  An expression that builds a value from variables, or a pattern that binds its fields to them: the
  path of the constructor with the names of the variables, and those of the fields where it has them.
\<close>

datatype shape =
    Shape_Named "ident list" "(ident \<times> ident) list"
  | Shape_Unnamed "ident list" "ident list"
  | Shape_Unit "ident list"

definition construct_from_named_fields :: "ident list \<Rightarrow> (ident \<times> 'ty) list \<Rightarrow> (nat \<Rightarrow> ident) \<Rightarrow> shape \<times> 'ty list \<times> ident list" where
  "construct_from_named_fields constructor_path named namegen =
     (let struct_names = map fst named;
          new_names = take_names namegen (length named);
          types = map snd named
      in (Shape_Named constructor_path (zip struct_names new_names), types, new_names))"

definition construct_from_unnamed_fields :: "ident list \<Rightarrow> 'ty list \<Rightarrow> (nat \<Rightarrow> ident) \<Rightarrow> shape \<times> 'ty list \<times> ident list" where
  "construct_from_unnamed_fields constructor_path unnamed namegen =
     (let new_names = take_names namegen (length unnamed)
      in (Shape_Unnamed constructor_path new_names, unnamed, new_names))"

fun construct_from_fields :: "ident list \<Rightarrow> 'ty fields \<Rightarrow> (nat \<Rightarrow> ident) \<Rightarrow> shape \<times> 'ty list \<times> ident list" where
  "construct_from_fields constructor_path (Fields_Named f) namegen = construct_from_named_fields constructor_path f namegen"
| "construct_from_fields constructor_path (Fields_Unnamed f) namegen = construct_from_unnamed_fields constructor_path f namegen"
| "construct_from_fields constructor_path Fields_Unit namegen = (Shape_Unit constructor_path, [], [])"

definition construct_from_enum_variant :: "ident \<Rightarrow> ('tok, 'ty) variant \<Rightarrow> (nat \<Rightarrow> ident) \<Rightarrow> shape \<times> 'ty list \<times> ident list" where
  "construct_from_enum_variant enum_name variant namegen =
     construct_from_fields [enum_name, va_ident variant] (va_fields variant) namegen"

definition deconstruct_from_named_fields :: "ident list \<Rightarrow> (ident \<times> 'ty) list \<Rightarrow> (nat \<Rightarrow> ident) \<Rightarrow> shape \<times> ident list" where
  "deconstruct_from_named_fields constructor_path named namegen =
     (let struct_names = map fst named;
          new_names = take_names namegen (length named)
      in (Shape_Named constructor_path (zip struct_names new_names), new_names))"

definition deconstruct_from_unnamed_fields :: "ident list \<Rightarrow> 'ty list \<Rightarrow> (nat \<Rightarrow> ident) \<Rightarrow> shape \<times> ident list" where
  "deconstruct_from_unnamed_fields constructor_path unnamed namegen =
     (let new_names = take_names namegen (length unnamed)
      in (Shape_Unnamed constructor_path new_names, new_names))"

fun deconstruct_from_fields :: "ident list \<Rightarrow> 'ty fields \<Rightarrow> (nat \<Rightarrow> ident) \<Rightarrow> shape \<times> ident list" where
  "deconstruct_from_fields constructor_path (Fields_Named f) namegen = deconstruct_from_named_fields constructor_path f namegen"
| "deconstruct_from_fields constructor_path (Fields_Unnamed f) namegen = deconstruct_from_unnamed_fields constructor_path f namegen"
| "deconstruct_from_fields constructor_path Fields_Unit namegen = (Shape_Unit constructor_path, [])"

definition deconstruct_from_enum_variant :: "ident \<Rightarrow> ('tok, 'ty) variant \<Rightarrow> (nat \<Rightarrow> ident) \<Rightarrow> shape \<times> ident list" where
  "deconstruct_from_enum_variant enum_name variant namegen =
     deconstruct_from_fields [enum_name, va_ident variant] (va_fields variant) namegen"

section \<open>The generated implementations\<close>

text \<open>\<^verbatim>\<open>let (name, data) = ty::unpack(data)?;\<close> for each name, then the constructor.\<close>

record 'ty unpack_body =
  ub_lets :: "(ident \<times> 'ty) list"
  ub_construct :: shape

text \<open>A pattern for \<^verbatim>\<open>self\<close> and \<^verbatim>\<open>let target = name.pack(target)?;\<close> for each name.\<close>

record pack_body =
  pb_pat :: shape
  pb_names :: "ident list"

record 'ty gen_pack_struct =
  gs_name :: ident
  gs_bounds :: "'ty list"
  gs_where :: "string list"
  gs_unpack :: "'ty unpack_body"
  gs_pack :: pack_body

record ('ty, 'e, 'p) gen_pack_enum =
  ge_name :: ident
  ge_bounds :: "'ty set"
  ge_where :: "string list"
  ge_tag_type :: 'ty
  ge_unpack_arms :: "('p \<times> 'ty unpack_body) list"
  ge_pack_arms :: "('e \<times> pack_body) list"

record ('ty, 'e, 'p) gen_pack_tagged =
  gt_name :: ident
  gt_bounds :: "'ty set"
  gt_where :: "string list"
  gt_tag_type :: 'ty
  gt_tag_arms :: "(shape \<times> 'e) list"
  gt_unpack_arms :: "('p \<times> 'ty unpack_body) list"
  gt_pack_arms :: "pack_body list"

record ('ty, 'e, 'p) gen_ext_enum =
  gx_name :: ident
  gx_where :: "string list"
  gx_tag_type :: 'ty
  gx_into_arms :: "(shape \<times> 'e) list"
  gx_from_arms :: "('p \<times> shape) list"

datatype ('ty, 'e, 'p) gen_pack = Gen_Struct "'ty gen_pack_struct" | Gen_Enum "('ty, 'e, 'p) gen_pack_enum"

fun mapM_outcome :: "('a \<Rightarrow> 'b outcome) \<Rightarrow> 'a list \<Rightarrow> 'b list outcome" where
  "mapM_outcome f [] = Return []"
| "mapM_outcome f (x # xs) = bind_outcome (f x) (\<lambda>y. bind_outcome (mapM_outcome f xs) (\<lambda>ys. Return (y # ys)))"

definition extra_where :: "string list option \<Rightarrow> string list" where
  "extra_where where_clause = (case where_clause of Some predicates \<Rightarrow> predicates | None \<Rightarrow> [])"

definition impl_pack_for_struct :: "ident \<Rightarrow> string list option \<Rightarrow> 'ty fields \<Rightarrow> 'ty gen_pack_struct" where
  "impl_pack_for_struct name generics flds =
     (case construct_from_fields [name] flds gen_temporary_names of
        (construct_expr, construct_types, construct_names) \<Rightarrow>
      case deconstruct_from_fields [name] flds gen_temporary_names of
        (deconstruct_pat, deconstruct_names) \<Rightarrow>
          \<lparr>gs_name = name, gs_bounds = construct_types, gs_where = extra_where generics,
           gs_unpack = \<lparr>ub_lets = zip construct_names construct_types, ub_construct = construct_expr\<rparr>,
           gs_pack = \<lparr>pb_pat = deconstruct_pat, pb_names = deconstruct_names\<rparr>\<rparr>)"

text \<open>The arms that both derivations of an enum make to unpack, with the types they mention.\<close>

definition enum_unpack_arm :: "('tok, 'ty, 'e, 'p) syn_parser \<Rightarrow> ident \<Rightarrow> ('tok, 'ty) variant \<Rightarrow> ('p \<times> 'ty unpack_body) outcome" where
  "enum_unpack_arm syn name variant =
     bind_outcome (unwrap (get_tag_pat syn variant)) (\<lambda>tag.
       case construct_from_enum_variant name variant gen_temporary_names of
         (construct_expr, construct_types, construct_names) \<Rightarrow>
           Return (tag, \<lparr>ub_lets = zip construct_names construct_types, ub_construct = construct_expr\<rparr>))"

definition enum_pack_body :: "ident \<Rightarrow> ('tok, 'ty) variant \<Rightarrow> pack_body" where
  "enum_pack_body name variant =
     (case deconstruct_from_enum_variant name variant gen_temporary_names of
        (deconstruct_pat, names) \<Rightarrow> \<lparr>pb_pat = deconstruct_pat, pb_names = names\<rparr>)"

definition enum_pack_arm :: "('tok, 'ty, 'e, 'p) syn_parser \<Rightarrow> ident \<Rightarrow> ('tok, 'ty) variant \<Rightarrow> ('e \<times> pack_body) outcome" where
  "enum_pack_arm syn name variant =
     bind_outcome (unwrap (get_tag_expr syn variant)) (\<lambda>tag. Return (tag, enum_pack_body name variant))"

definition arm_types :: "('p \<times> 'ty unpack_body) list \<Rightarrow> 'ty set" where
  "arm_types arms = (\<Union>(_, body) \<in> set arms. snd ` set (ub_lets body))"

definition impl_pack_for_enum :: "('tok, 'ty, 'e, 'p) syn_parser \<Rightarrow> ident \<Rightarrow> 'tok attribute list \<Rightarrow> string list option \<Rightarrow>
    ('tok, 'ty) variant list \<Rightarrow> ('ty, 'e, 'p) gen_pack_enum outcome" where
  "impl_pack_for_enum syn name attributes generics variants =
     bind_outcome (unwrap (get_tag_type syn attributes)) (\<lambda>tag_type.
     bind_outcome (mapM_outcome (enum_pack_arm syn name) variants) (\<lambda>pack_arms.
     bind_outcome (mapM_outcome (enum_unpack_arm syn name) variants) (\<lambda>unpack_arms.
     Return \<lparr>ge_name = name, ge_bounds = insert tag_type (arm_types unpack_arms), ge_where = extra_where generics,
       ge_tag_type = tag_type, ge_unpack_arms = unpack_arms, ge_pack_arms = pack_arms\<rparr>)))"

definition enum_tag_arm :: "('tok, 'ty, 'e, 'p) syn_parser \<Rightarrow> ident \<Rightarrow> ('tok, 'ty) variant \<Rightarrow> (shape \<times> 'e) outcome" where
  "enum_tag_arm syn name variant =
     bind_outcome (unwrap (get_tag_expr syn variant)) (\<lambda>tag.
       case deconstruct_from_enum_variant name variant gen_ignored_names of (deconstruct_pat, _) \<Rightarrow> Return (deconstruct_pat, tag))"

definition impl_pack_tagged_for_enum :: "('tok, 'ty, 'e, 'p) syn_parser \<Rightarrow> ident \<Rightarrow> 'tok attribute list \<Rightarrow> string list option \<Rightarrow>
    ('tok, 'ty) variant list \<Rightarrow> ('ty, 'e, 'p) gen_pack_tagged outcome" where
  "impl_pack_tagged_for_enum syn name attributes generics variants =
     bind_outcome (unwrap (get_tag_type syn attributes)) (\<lambda>tag_type.
     bind_outcome (mapM_outcome (enum_tag_arm syn name) variants) (\<lambda>tag_arms.
     let pack_arms = map (enum_pack_body name) variants
     in bind_outcome (mapM_outcome (enum_unpack_arm syn name) variants) (\<lambda>unpack_arms.
        Return \<lparr>gt_name = name, gt_bounds = arm_types unpack_arms, gt_where = extra_where generics, gt_tag_type = tag_type,
          gt_tag_arms = tag_arms, gt_unpack_arms = unpack_arms, gt_pack_arms = pack_arms\<rparr>)))"

definition enum_from_arm :: "('tok, 'ty, 'e, 'p) syn_parser \<Rightarrow> ident \<Rightarrow> ('tok, 'ty) variant \<Rightarrow> ('p \<times> shape) outcome" where
  "enum_from_arm syn name variant =
     bind_outcome (unwrap (get_tag_pat syn variant)) (\<lambda>tag.
       case construct_from_enum_variant name variant gen_ignored_names of
         (construct_expr, construct_types, _) \<Rightarrow> if construct_types = [] then Return (tag, construct_expr) else Panic)"

definition impl_ext_enum_for_enum :: "('tok, 'ty, 'e, 'p) syn_parser \<Rightarrow> ident \<Rightarrow> 'tok attribute list \<Rightarrow> string list option \<Rightarrow>
    ('tok, 'ty) variant list \<Rightarrow> ('ty, 'e, 'p) gen_ext_enum outcome" where
  "impl_ext_enum_for_enum syn name attributes generics variants =
     bind_outcome (unwrap (get_tag_type syn attributes)) (\<lambda>tag_type.
     bind_outcome (mapM_outcome (enum_tag_arm syn name) variants) (\<lambda>into_arms.
     bind_outcome (mapM_outcome (enum_from_arm syn name) variants) (\<lambda>from_arms.
     Return \<lparr>gx_name = name, gx_where = extra_where generics, gx_tag_type = tag_type,
       gx_into_arms = into_arms, gx_from_arms = from_arms\<rparr>)))"

definition impl_pack :: "('tok, 'ty, 'e, 'p) syn_parser \<Rightarrow> ('tok, 'ty) derive_input \<Rightarrow> ('ty, 'e, 'p) gen_pack outcome" where
  "impl_pack syn ast =
     (case di_data ast of
        Data_Struct flds \<Rightarrow> Return (Gen_Struct (impl_pack_for_struct (di_ident ast) (di_where_clause ast) flds))
      | Data_Enum variants \<Rightarrow>
          bind_outcome (impl_pack_for_enum syn (di_ident ast) (di_attrs ast) (di_where_clause ast) variants) (\<lambda>g. Return (Gen_Enum g))
      | Data_Union \<Rightarrow> Panic)"

definition impl_pack_tagged :: "('tok, 'ty, 'e, 'p) syn_parser \<Rightarrow> ('tok, 'ty) derive_input \<Rightarrow> ('ty, 'e, 'p) gen_pack_tagged outcome" where
  "impl_pack_tagged syn ast =
     (case di_data ast of
        Data_Enum variants \<Rightarrow> impl_pack_tagged_for_enum syn (di_ident ast) (di_attrs ast) (di_where_clause ast) variants
      | _ \<Rightarrow> Panic)"

definition impl_ext_enum :: "('tok, 'ty, 'e, 'p) syn_parser \<Rightarrow> ('tok, 'ty) derive_input \<Rightarrow> ('ty, 'e, 'p) gen_ext_enum outcome" where
  "impl_ext_enum syn ast =
     (case di_data ast of
        Data_Enum variants \<Rightarrow> impl_ext_enum_for_enum syn (di_ident ast) (di_attrs ast) (di_where_clause ast) variants
      | _ \<Rightarrow> Panic)"

section \<open>The meaning of the generated code\<close>

text \<open>
  A value of a struct or an enum: the path of its constructor with its fields, each with its type, which
  decides the implementation its methods are called of.
\<close>

datatype 'v rvalue =
    RV_Named "ident list" "ident \<rightharpoonup> 'v"
  | RV_Unnamed "ident list" "'v list"
  | RV_Unit "ident list"

type_synonym ('ty, 'a) bindings = "ident \<rightharpoonup> 'ty \<times> 'a"

record ('a, 't, 'err) pack_impl =
  pi_unpack :: "bytes \<Rightarrow> 'a unpacked"
  pi_pack :: "'a \<Rightarrow> 't \<Rightarrow> ('t, 'err) packed"

text \<open>What a constant expression of a type is, and which values a pattern matches.\<close>

record ('ty, 'e, 'p, 'a) rust_consts =
  rc_eval :: "'ty \<Rightarrow> 'e \<Rightarrow> 'a"
  rc_matches :: "'p \<Rightarrow> 'a \<Rightarrow> bool"

text \<open>
  A variable that is not bound or a value that no arm matches is no code the compiler accepts: the meaning
  is \<^const>\<open>None\<close>.
\<close>

fun run_lets :: "('ty \<Rightarrow> ('a, 't, 'err) pack_impl) \<Rightarrow> (ident \<times> 'ty) list \<Rightarrow> bytes \<Rightarrow> ('ty, 'a) bindings \<Rightarrow>
    (('ty, 'a) bindings \<times> bytes, unpack_error) result" where
  "run_lets impls [] data b = Ok (b, data)"
| "run_lets impls ((x, ty) # lets) data b =
     and_then (pi_unpack (impls ty) data) (\<lambda>(v, data). run_lets impls lets data (b(x \<mapsto> (ty, v))))"

fun construct :: "shape \<Rightarrow> ('ty, 'a) bindings \<Rightarrow> ('ty \<times> 'a) rvalue option" where
  "construct (Shape_Named path fs) b =
     map_option (\<lambda>vs. RV_Named path (map_of (zip (map fst fs) vs))) (those (map (b \<circ> snd) fs))"
| "construct (Shape_Unnamed path xs) b = map_option (RV_Unnamed path) (those (map b xs))"
| "construct (Shape_Unit path) b = Some (RV_Unit path)"

fun destruct :: "shape \<Rightarrow> ('ty \<times> 'a) rvalue \<Rightarrow> ('ty, 'a) bindings option" where
  "destruct (Shape_Named path fs) (RV_Named path' m) =
     (if path = path' then map_option (\<lambda>vs. [map snd fs [\<mapsto>] vs]) (those (map (m \<circ> fst) fs)) else None)"
| "destruct (Shape_Unnamed path xs) (RV_Unnamed path' vs) =
     (if path = path' \<and> length xs = length vs then Some [xs [\<mapsto>] vs] else None)"
| "destruct (Shape_Unit path) (RV_Unit path') = (if path = path' then Some Map.empty else None)"
| "destruct _ _ = None"

definition run_unpack :: "('ty \<Rightarrow> ('a, 't, 'err) pack_impl) \<Rightarrow> 'ty unpack_body \<Rightarrow> bytes \<Rightarrow> ('ty \<times> 'a) rvalue unpacked option" where
  "run_unpack impls body data =
     (case run_lets impls (ub_lets body) data Map.empty of
        Err e \<Rightarrow> Some (Err e)
      | Ok (b, data) \<Rightarrow> map_option (\<lambda>v. Ok (v, data)) (construct (ub_construct body) b))"

fun run_packs :: "('ty \<Rightarrow> ('a, 't, 'err) pack_impl) \<Rightarrow> ident list \<Rightarrow> ('ty, 'a) bindings \<Rightarrow> 't \<Rightarrow> ('t, 'err) packed option" where
  "run_packs impls [] b target = Some (Ok target)"
| "run_packs impls (x # xs) b target =
     (case b x of
        None \<Rightarrow> None
      | Some (ty, v) \<Rightarrow>
          (case pi_pack (impls ty) v target of Err e \<Rightarrow> Some (Err e) | Ok target \<Rightarrow> run_packs impls xs b target))"

definition run_pack :: "('ty \<Rightarrow> ('a, 't, 'err) pack_impl) \<Rightarrow> pack_body \<Rightarrow> ('ty \<times> 'a) rvalue \<Rightarrow> 't \<Rightarrow> ('t, 'err) packed option" where
  "run_pack impls body self target =
     (case destruct (pb_pat body) self of None \<Rightarrow> None | Some b \<Rightarrow> run_packs impls (pb_names body) b target)"

text \<open>\<^verbatim>\<open>match tag { .., _ => Err(InvalidEnumTag) }\<close>\<close>

definition match_tag :: "('ty, 'e, 'p, 'a) rust_consts \<Rightarrow> ('ty \<Rightarrow> ('a, 't, 'err) pack_impl) \<Rightarrow> ('p \<times> 'ty unpack_body) list \<Rightarrow>
    'a \<Rightarrow> bytes \<Rightarrow> ('ty \<times> 'a) rvalue unpacked option" where
  "match_tag rc impls arms tag data =
     (case List.find (\<lambda>(p, _). rc_matches rc p tag) arms of
        Some (_, body) \<Rightarrow> run_unpack impls body data
      | None \<Rightarrow> Some (Err InvalidEnumTag))"

definition enum_unpack :: "('ty, 'e, 'p, 'a) rust_consts \<Rightarrow> ('ty \<Rightarrow> ('a, 't, 'err) pack_impl) \<Rightarrow> ('ty, 'e, 'p) gen_pack_enum \<Rightarrow>
    bytes \<Rightarrow> ('ty \<times> 'a) rvalue unpacked option" where
  "enum_unpack rc impls g data =
     (case pi_unpack (impls (ge_tag_type g)) data of
        Err e \<Rightarrow> Some (Err e)
      | Ok (tag, data) \<Rightarrow> match_tag rc impls (ge_unpack_arms g) tag data)"

definition enum_pack :: "('ty, 'e, 'p, 'a) rust_consts \<Rightarrow> ('ty \<Rightarrow> ('a, 't, 'err) pack_impl) \<Rightarrow> ('ty, 'e, 'p) gen_pack_enum \<Rightarrow>
    ('ty \<times> 'a) rvalue \<Rightarrow> 't \<Rightarrow> ('t, 'err) packed option" where
  "enum_pack rc impls g self target =
     (case List.find (\<lambda>(_, body). destruct (pb_pat body) self \<noteq> None) (ge_pack_arms g) of
        None \<Rightarrow> None
      | Some (tag, body) \<Rightarrow>
          (case pi_pack (impls (ge_tag_type g)) (rc_eval rc (ge_tag_type g) tag) target of
             Err e \<Rightarrow> Some (Err e)
           | Ok target \<Rightarrow> run_pack impls body self target))"

definition tagged_get_tag :: "('ty, 'e, 'p, 'a) rust_consts \<Rightarrow> ('ty, 'e, 'p) gen_pack_tagged \<Rightarrow> ('ty \<times> 'a) rvalue \<Rightarrow> 'a option" where
  "tagged_get_tag rc g self =
     (case List.find (\<lambda>(pat, _). destruct pat self \<noteq> None) (gt_tag_arms g) of
        None \<Rightarrow> None | Some (_, tag) \<Rightarrow> Some (rc_eval rc (gt_tag_type g) tag))"

definition tagged_unpack_data :: "('ty, 'e, 'p, 'a) rust_consts \<Rightarrow> ('ty \<Rightarrow> ('a, 't, 'err) pack_impl) \<Rightarrow> ('ty, 'e, 'p) gen_pack_tagged \<Rightarrow>
    'a \<Rightarrow> bytes \<Rightarrow> ('ty \<times> 'a) rvalue unpacked option" where
  "tagged_unpack_data rc impls g tag data = match_tag rc impls (gt_unpack_arms g) tag data"

definition tagged_pack_data :: "('ty \<Rightarrow> ('a, 't, 'err) pack_impl) \<Rightarrow> ('ty, 'e, 'p) gen_pack_tagged \<Rightarrow> ('ty \<times> 'a) rvalue \<Rightarrow> 't \<Rightarrow> ('t, 'err) packed option" where
  "tagged_pack_data impls g self target =
     (case List.find (\<lambda>body. destruct (pb_pat body) self \<noteq> None) (gt_pack_arms g) of
        None \<Rightarrow> None | Some body \<Rightarrow> run_pack impls body self target)"

definition ext_into_tag :: "('ty, 'e, 'p, 'a) rust_consts \<Rightarrow> ('ty, 'e, 'p) gen_ext_enum \<Rightarrow> ('ty \<times> 'a) rvalue \<Rightarrow> 'a option" where
  "ext_into_tag rc g self =
     (case List.find (\<lambda>(pat, _). destruct pat self \<noteq> None) (gx_into_arms g) of
        None \<Rightarrow> None | Some (_, tag) \<Rightarrow> Some (rc_eval rc (gx_tag_type g) tag))"

definition ext_try_from_tag :: "('ty, 'e, 'p, 'a) rust_consts \<Rightarrow> ('ty, 'e, 'p) gen_ext_enum \<Rightarrow> 'a \<Rightarrow>
    (('ty \<times> 'a) rvalue, ext_enum_error) result option" where
  "ext_try_from_tag rc g tag =
     (case List.find (\<lambda>(p, _). rc_matches rc p tag) (gx_from_arms g) of
        Some (_, shape) \<Rightarrow> map_option Ok (construct shape Map.empty)
      | None \<Rightarrow> Some (Err InvalidTag))"

section \<open>Names\<close>

definition digit_value :: "char \<Rightarrow> nat" where
  "digit_value c = of_char c - 48"

fun decimal_value :: "string \<Rightarrow> nat \<Rightarrow> nat" where
  "decimal_value [] n = n"
| "decimal_value (c # cs) n = decimal_value cs (10 * n + digit_value c)"

lemma decimal_value_append: "decimal_value (as @ bs) n = decimal_value bs (decimal_value as n)"
  by (induction as arbitrary: n) simp_all

lemma digit_value_digit: "n < 10 \<Longrightarrow> digit_value (digit n) = n"
  by (simp add: digit_value_def digit_def)

lemma decimal_value: "decimal_value (decimal n) 0 = n"
proof (induction n rule: decimal.induct)
  case (1 n)
  show ?case
  proof (cases "n < 10")
    case True
    then show ?thesis by (subst decimal.simps) (simp add: digit_value_digit)
  next
    case False
    then have "decimal n = decimal (n div 10) @ [digit (n mod 10)]" by (subst decimal.simps) simp
    then show ?thesis using 1 [OF False] by (simp add: decimal_value_append digit_value_digit)
  qed
qed

lemma decimal_inj: "decimal m = decimal n \<longleftrightarrow> m = n"
  by (metis decimal_value)

lemma take_names_distinct:
  "distinct (take_names gen_temporary_names n)" "distinct (take_names gen_ignored_names n)"
  by (simp_all add: take_names_def gen_temporary_names_def gen_ignored_names_def distinct_map inj_on_def decimal_inj)

lemma length_take_names [simp]: "length (take_names namegen n) = n"
  by (simp add: take_names_def)

end
