(* ===== verification/Derived_Code.thy ===== *)
theory Derived_Code
  imports Frame Pack_Derive
begin

text \<open>
  What the derive macros (\<^verbatim>\<open>src/pack_derive\<close>) are right about.  The locale \<open>field_impls\<close> states what the
  implementations of the field types promise (packing appends an encoding that unpacking inverts); under it a generated
  body packs the fields in order and unpacks them again, for structs and for the arms of enums.  The properties: the round
  trip of derived implementations, the agreement of \<^verbatim>\<open>Pack\<close> with \<^verbatim>\<open>PackTagged\<close>, the bijection that \<^verbatim>\<open>ExtEnum\<close>
  derives, when a macro refuses a declaration, and that the code derived for the commands of the frames is their model in
  \<^verbatim>\<open>Frame\<close>.  The locale is interpreted on the implementations these commands use.
\<close>

section \<open>Fields\<close>

fun field_types :: "'ty fields \<Rightarrow> 'ty list" where
  "field_types (Fields_Named fs) = map snd fs"
| "field_types (Fields_Unnamed tys) = tys"
| "field_types Fields_Unit = []"

text \<open>The language has no two fields of the same name.\<close>

fun fields_ok :: "'ty fields \<Rightarrow> bool" where
  "fields_ok (Fields_Named fs) = distinct (map fst fs)"
| "fields_ok _ = True"

text \<open>The value with the given contents, in the order of the declaration.\<close>

fun value_of :: "ident list \<Rightarrow> 'ty fields \<Rightarrow> 'v list \<Rightarrow> 'v rvalue" where
  "value_of path (Fields_Named fs) vs = RV_Named path (map_of (zip (map fst fs) vs))"
| "value_of path (Fields_Unnamed tys) vs = RV_Unnamed path vs"
| "value_of path Fields_Unit vs = RV_Unit path"

fun path_of :: "'v rvalue \<Rightarrow> ident list" where
  "path_of (RV_Named path _) = path"
| "path_of (RV_Unnamed path _) = path"
| "path_of (RV_Unit path) = path"

lemma path_of_value [simp]: "path_of (value_of path flds vs) = path"
  by (cases flds) simp_all

lemma those_map_Some: "those (map (\<lambda>x. Some (f x)) xs) = Some (map f xs)"
  by (induction xs) simp_all

lemma map_upds_zip:
  assumes "distinct xs" "length xs = length vs"
  shows "[xs [\<mapsto>] vs] = map_of (zip xs vs)"
  using assms(2,1)
proof (induction xs vs rule: list_induct2)
  case (Cons x xs v vs)
  then have "x \<notin> set xs" "length xs = length vs" by simp_all
  then have "[x # xs [\<mapsto>] v # vs] = [xs [\<mapsto>] vs](x \<mapsto> v)" by (simp add: map_upds_twist)
  then show ?case using Cons by simp
qed simp

lemma those_lookup:
  assumes "distinct xs" "length xs = length vs"
  shows "those (map (map_of (zip xs vs)) xs) = Some vs"
proof -
  have "map (map_of (zip xs vs)) xs = map Some vs"
    using assms by (intro nth_equalityI) (simp_all add: map_of_zip_nth)
  then show ?thesis using those_map_Some [of id vs] by (simp add: comp_def)
qed

lemma map_fst_zip_lookup:
  assumes "distinct (map fst fs)" "length fs = length vs" "length ns = length fs"
  shows "those (map (map_of (zip (map fst fs) vs) \<circ> fst) (zip (map fst fs) ns)) = Some vs"
proof -
  have "map (map_of (zip (map fst fs) vs) \<circ> fst) (zip (map fst fs) ns) = map (map_of (zip (map fst fs) vs)) (map fst fs)"
    using assms(3) by (simp flip: map_map add: map_fst_zip)
  then show ?thesis using those_lookup [of "map fst fs" vs] assms by simp
qed

text \<open>What the macro makes of the fields: the names, and a pattern and an expression that are inverse.\<close>

lemma construct_parts:
  "construct_from_fields path flds namegen =
     (fst (deconstruct_from_fields path flds namegen), field_types flds, take_names namegen (length (field_types flds)))"
  "snd (deconstruct_from_fields path flds namegen) = take_names namegen (length (field_types flds))"
  by (cases flds; simp add: construct_from_named_fields_def construct_from_unnamed_fields_def
      deconstruct_from_named_fields_def deconstruct_from_unnamed_fields_def Let_def take_names_def)+

lemma construct_bound:
  assumes "length vs = length (field_types flds)" "distinct (take_names namegen (length vs))"
  shows "construct (fst (deconstruct_from_fields path flds namegen)) [take_names namegen (length vs) [\<mapsto>] vs] = Some (value_of path flds vs)"
proof (cases flds)
  case (Fields_Named fs)
  have ns: "map ([take_names namegen (length vs) [\<mapsto>] vs] \<circ> snd) (zip (map fst fs) (take_names namegen (length vs))) =
      map (map_of (zip (take_names namegen (length vs)) vs)) (take_names namegen (length vs))"
    using assms Fields_Named by (simp add: map_upds_zip flip: map_map add: map_snd_zip)
  show ?thesis
    using assms Fields_Named those_lookup [OF assms(2), of vs] ns
    by (simp add: deconstruct_from_named_fields_def Let_def map_fst_zip)
next
  case (Fields_Unnamed tys)
  then show ?thesis
    using assms those_lookup [OF assms(2), of vs] by (simp add: deconstruct_from_unnamed_fields_def Let_def map_upds_zip)
qed (use assms in simp)

lemma destruct_value:
  assumes "length vs = length (field_types flds)" "fields_ok flds"
  shows "destruct (fst (deconstruct_from_fields path flds namegen)) (value_of path flds vs) =
    Some [take_names namegen (length vs) [\<mapsto>] vs]"
proof (cases flds)
  case (Fields_Named fs)
  then show ?thesis
    using assms map_fst_zip_lookup [of fs vs "take_names namegen (length fs)"]
    by (simp add: deconstruct_from_named_fields_def Let_def map_snd_zip)
qed (use assms in \<open>simp_all add: deconstruct_from_unnamed_fields_def Let_def\<close>)

lemma destruct_path: "destruct (fst (deconstruct_from_fields path flds namegen)) v \<noteq> None \<Longrightarrow> path_of v = path"
  by (cases flds; cases v)
    (auto simp: deconstruct_from_named_fields_def deconstruct_from_unnamed_fields_def Let_def split: if_splits)

lemma construct_path: "construct (fst (deconstruct_from_fields path flds namegen)) b = Some v \<Longrightarrow> path_of v = path"
  by (cases flds) (auto simp: deconstruct_from_named_fields_def deconstruct_from_unnamed_fields_def Let_def)

section \<open>Packing and unpacking fields\<close>

text \<open>The bytes of contents with their types, in order, and whether they are of these types.\<close>

definition contents_bytes :: "('ty \<Rightarrow> 'a \<Rightarrow> bytes) \<Rightarrow> ('ty \<times> 'a) list \<Rightarrow> bytes" where
  "contents_bytes enc vs = concat (map (\<lambda>(ty, x). enc ty x) vs)"

definition contents_typed :: "('ty \<Rightarrow> 'a \<Rightarrow> bool) \<Rightarrow> ('ty \<times> 'a) list \<Rightarrow> bool" where
  "contents_typed has_type vs \<longleftrightarrow> (\<forall>(ty, x) \<in> set vs. has_type ty x)"

locale field_impls = pack_target append_to written valid
  for append_to :: "('t, 'err) append_fn" and written :: "'t \<Rightarrow> bytes" and valid :: "'t \<Rightarrow> bool" +
  fixes impls :: "'ty \<Rightarrow> ('a, 't, 'err) pack_impl"
    and enc :: "'ty \<Rightarrow> 'a \<Rightarrow> bytes"
    and has_type :: "'ty \<Rightarrow> 'a \<Rightarrow> bool"
  assumes pack_emits: "has_type ty x \<Longrightarrow> valid t \<Longrightarrow> pi_pack (impls ty) x t = emit (enc ty x) t"
    and field_codec: "codec (enc ty) (pi_unpack (impls ty)) (has_type ty)"
begin

abbreviation fields_bytes :: "('ty \<times> 'a) list \<Rightarrow> bytes" where
  "fields_bytes \<equiv> contents_bytes enc"

abbreviation typed :: "('ty \<times> 'a) list \<Rightarrow> bool" where
  "typed \<equiv> contents_typed has_type"

lemma run_packs_emit:
  assumes "length xs = length vs" "those (map b xs) = Some vs" "typed vs" "valid t"
  shows "run_packs impls xs b t = Some (emit (fields_bytes vs) t)"
  using assms
proof (induction xs vs arbitrary: t rule: list_induct2)
  case Nil
  then show ?case by (simp add: contents_bytes_def emit_nil)
next
  case (Cons x xs v vs)
  obtain ty y where v: "v = (ty, y)" by (cases v)
  have b: "b x = Some v" "those (map b xs) = Some vs" using Cons.prems(1) by (auto split: option.splits)
  have pack: "pi_pack (impls ty) y t = emit (enc ty y) t" using Cons.prems v by (intro pack_emits) (auto simp: contents_typed_def)
  have rest: "run_packs impls xs b t' = Some (emit (fields_bytes vs) t')" if "valid t'" for t'
    using Cons.IH [OF b(2) _ that] Cons.prems(2) by (simp add: contents_typed_def)
  have seq: "emit (fields_bytes (v # vs)) t = and_then (emit (enc ty y) t) (emit (fields_bytes vs))"
    using emit_seq [OF Cons.prems(3)] by (simp add: contents_bytes_def v)
  show ?case
  proof (cases "emit (enc ty y) t")
    case (Inl e)
    then show ?thesis using b v pack seq by simp
  next
    case (Inr t')
    then have "valid t'" using emit_written [OF Cons.prems(3)] by blast
    with Inr show ?thesis using b v pack seq rest by simp
  qed
qed

lemma run_lets_bytes:
  assumes "length xs = length vs" "typed vs"
  shows "run_lets impls (zip xs (map fst vs)) (fields_bytes vs @ rest) b = Ok (b(xs [\<mapsto>] vs), rest)"
  using assms
proof (induction xs vs arbitrary: b rule: list_induct2)
  case (Cons x xs v vs)
  obtain ty y where v: "v = (ty, y)" by (cases v)
  have "pi_unpack (impls ty) (enc ty y @ fields_bytes vs @ rest) = Ok (y, fields_bytes vs @ rest)"
    using Cons.prems v by (intro codec.roundtrip [OF field_codec]) (auto simp: contents_typed_def)
  then show ?case using Cons v by (simp add: contents_bytes_def contents_typed_def)
qed (simp add: contents_bytes_def)

end

text \<open>Implementations that return values of the type they unpack.\<close>

definition impls_typed :: "('ty \<Rightarrow> ('a, 't, 'err) pack_impl) \<Rightarrow> ('ty \<Rightarrow> 'a \<Rightarrow> bool) \<Rightarrow> bool" where
  "impls_typed impls has_type \<longleftrightarrow>
     (\<forall>ty data. case pi_unpack (impls ty) data of Ok (x, _) \<Rightarrow> has_type ty x | Err _ \<Rightarrow> True)"

lemma impls_typedD: "impls_typed impls has_type \<Longrightarrow> pi_unpack (impls ty) data = Ok (x, rest) \<Longrightarrow> has_type ty x"
  unfolding impls_typed_def by (metis case_prod_conv sum.case(2))

lemma run_lets_typed:
  assumes "impls_typed impls has_type"
  shows "run_lets impls (zip xs tys) data b = Ok (b', rest) \<Longrightarrow> length xs = length tys \<Longrightarrow>
    \<exists>vs. map fst vs = tys \<and> contents_typed has_type vs \<and> b' = b(xs [\<mapsto>] vs)"
proof (induction xs tys arbitrary: data b rule: list_induct2')
  case (4 x xs ty tys)
  from 4(2) obtain y d where y: "pi_unpack (impls ty) data = Ok (y, d)" "run_lets impls (zip xs tys) d (b(x \<mapsto> (ty, y))) = Ok (b', rest)"
    by (auto simp: and_then_eq_Ok_iff)
  have len: "length xs = length tys" using 4(3) by simp
  obtain vs where vs: "map fst vs = tys" "contents_typed has_type vs" "b' = (b(x \<mapsto> (ty, y)))(xs [\<mapsto>] vs)"
    using 4(1) [OF y(2) len] by blast
  with impls_typedD [OF assms y(1)] show ?case by (intro exI [of _ "(ty, y) # vs"]) (simp add: contents_typed_def)
qed (auto simp: contents_typed_def)

section \<open>Bodies\<close>

definition pack_body_of :: "ident list \<Rightarrow> 'ty fields \<Rightarrow> pack_body" where
  "pack_body_of path flds =
     (case deconstruct_from_fields path flds gen_temporary_names of (pat, names) \<Rightarrow> \<lparr>pb_pat = pat, pb_names = names\<rparr>)"

definition unpack_body_of :: "ident list \<Rightarrow> 'ty fields \<Rightarrow> 'ty unpack_body" where
  "unpack_body_of path flds =
     (case construct_from_fields path flds gen_temporary_names of
        (expr, types, names) \<Rightarrow> \<lparr>ub_lets = zip names types, ub_construct = expr\<rparr>)"

lemma pack_body_of:
  "pb_pat (pack_body_of path flds) = fst (deconstruct_from_fields path flds gen_temporary_names)"
  "pb_names (pack_body_of path flds) = take_names gen_temporary_names (length (field_types flds))"
  using construct_parts(2) [of path flds gen_temporary_names]
  by (cases "deconstruct_from_fields path flds gen_temporary_names"; simp add: pack_body_of_def)+

lemma unpack_body_of:
  "unpack_body_of path flds = \<lparr>ub_lets = zip (take_names gen_temporary_names (length (field_types flds))) (field_types flds),
     ub_construct = fst (deconstruct_from_fields path flds gen_temporary_names)\<rparr>"
  by (simp add: unpack_body_of_def construct_parts(1))

lemma those_map_comp: "those (map b xs) = Some ys \<Longrightarrow> length ys = length xs"
  by (induction xs arbitrary: ys) (auto split: option.splits)

text \<open>Whether a pattern matches does not depend on the names it binds.\<close>

lemma destruct_matches:
  "destruct (fst (deconstruct_from_fields path flds names)) v \<noteq> None \<longleftrightarrow>
   destruct (fst (deconstruct_from_fields path flds names')) v \<noteq> None"
proof (cases flds)
  case (Fields_Named fs)
  have "map (m \<circ> fst) (zip (map fst fs) (take_names n (length fs))) = map m (map fst fs)" for m :: "ident \<rightharpoonup> 'a \<times> 'b" and n
    by (simp flip: map_map add: map_fst_zip)
  then show ?thesis by (cases v) (simp_all add: Fields_Named deconstruct_from_named_fields_def Let_def)
next
  case (Fields_Unnamed tys)
  then show ?thesis by (cases v) (simp_all add: deconstruct_from_unnamed_fields_def Let_def)
qed simp

context field_impls
begin

lemma body_pack:
  assumes "fields_ok flds" "map fst vs = field_types flds" "typed vs" "valid t"
  shows "run_pack impls (pack_body_of path flds) (value_of path flds vs) t = Some (emit (fields_bytes vs) t)"
proof -
  have len: "length vs = length (field_types flds)" using assms(2) by (metis length_map)
  let ?names = "take_names gen_temporary_names (length vs)"
  have "those (map [?names [\<mapsto>] vs] ?names) = Some vs"
    using those_lookup [of ?names vs] take_names_distinct(1) [of "length vs"] by (simp add: map_upds_zip)
  then have "run_packs impls ?names [?names [\<mapsto>] vs] t = Some (emit (fields_bytes vs) t)"
    by (intro run_packs_emit) (simp_all add: assms)
  then show ?thesis
    using destruct_value [OF len assms(1)] by (simp add: run_pack_def pack_body_of len [symmetric])
qed

lemma body_unpack:
  assumes "map fst vs = field_types flds" "typed vs"
  shows "run_unpack impls (unpack_body_of path flds) (fields_bytes vs @ rest) = Some (Ok (value_of path flds vs, rest))"
proof -
  have len: "length vs = length (field_types flds)" using assms(1) by (metis length_map)
  let ?names = "take_names gen_temporary_names (length vs)"
  have "run_lets impls (zip ?names (field_types flds)) (fields_bytes vs @ rest) Map.empty = Ok ([?names [\<mapsto>] vs], rest)"
    using run_lets_bytes [of ?names vs rest Map.empty] assms by simp
  then show ?thesis
    using construct_bound [OF len take_names_distinct(1)]
    by (simp add: run_unpack_def unpack_body_of len [symmetric])
qed

end

text \<open>Whatever the bytes, unpacking has a meaning, and what it returns has the fields and types of the declaration.\<close>

lemma body_typed:
  assumes "impls_typed impls has_type"
  shows "case run_unpack impls (unpack_body_of path flds) data of
     None \<Rightarrow> False
   | Some (Err e) \<Rightarrow> True
   | Some (Ok (v, rest)) \<Rightarrow> \<exists>vs. map fst vs = field_types flds \<and> contents_typed has_type vs \<and> v = value_of path flds vs"
proof -
  let ?names = "take_names gen_temporary_names (length (field_types flds))"
  show ?thesis
  proof (cases "run_lets impls (zip ?names (field_types flds)) data Map.empty")
    case (Inl e)
    then show ?thesis by (simp add: run_unpack_def unpack_body_of)
  next
    case (Inr r)
    obtain b rest where r: "r = (b, rest)" by (cases r)
    obtain vs where vs: "map fst vs = field_types flds" "contents_typed has_type vs" "b = [?names [\<mapsto>] vs]"
      using run_lets_typed [OF assms Inr [unfolded r]] by auto
    have len: "length vs = length (field_types flds)" using vs(1) by (metis length_map)
    have "construct (fst (deconstruct_from_fields path flds gen_temporary_names)) b = Some (value_of path flds vs)"
      using construct_bound [OF len take_names_distinct(1)] vs(3) len by simp
    then show ?thesis using Inr r vs(1,2) by (auto simp: run_unpack_def unpack_body_of)
  qed
qed

section \<open>Structs\<close>

lemma struct_bodies:
  "gs_pack (impl_pack_for_struct name w flds) = pack_body_of [name] flds"
  "gs_unpack (impl_pack_for_struct name w flds) = unpack_body_of [name] flds"
  unfolding impl_pack_for_struct_def pack_body_of_def unpack_body_of_def construct_parts(1) prod.case case_prod_unfold
    gen_pack_struct.simps
  by (rule refl)+

section \<open>Arms\<close>

lemma mapM_outcome_Return: "mapM_outcome f xs = Return ys \<longleftrightarrow> list_all2 (\<lambda>x y. f x = Return y) xs ys"
proof (induction xs arbitrary: ys)
  case (Cons x xs)
  show ?case by (auto simp: bind_outcome_eq_Return_iff Cons list_all2_Cons1)
qed auto

lemma mapM_outcome_Panic: "mapM_outcome f xs = Panic \<longleftrightarrow> (\<exists>x \<in> set xs. f x = Panic)"
proof (induction xs)
  case (Cons x xs)
  then show ?case by (cases "f x"; cases "mapM_outcome f xs") auto
qed simp

text \<open>The first arm that applies is the one of the variant.\<close>

lemma find_arm:
  assumes "list_all2 R xs ys" "x \<in> set xs"
    and "\<And>x' y. x' \<in> set xs \<Longrightarrow> y \<in> set ys \<Longrightarrow> R x' y \<Longrightarrow> P y \<longleftrightarrow> x' = x"
  shows "\<exists>y. List.find P ys = Some y \<and> R x y"
proof -
  obtain y where y: "y \<in> set ys" "R x y" using assms(1,2) by (metis in_set_conv_nth list_all2_conv_all_nth)
  then have "P y" using assms(2,3) by blast
  then obtain y0 where y0: "List.find P ys = Some y0" using y(1) by (metis find_None_iff not_None_eq)
  then have "y0 \<in> set ys" "P y0" by (auto simp: find_Some_iff)
  then obtain x0 where "x0 \<in> set xs" "R x0 y0" using assms(1) by (metis in_set_conv_nth list_all2_conv_all_nth)
  then have "R x y0" using assms(3) \<open>y0 \<in> set ys\<close> \<open>P y0\<close> by blast
  then show ?thesis using y0 by blast
qed

lemma enum_arm_bodies:
  "enum_pack_body name variant = pack_body_of [name, va_ident variant] (va_fields variant)"
  "enum_unpack_arm syn name variant =
     bind_outcome (unwrap (get_tag_pat syn variant)) (\<lambda>tag. Return (tag, unpack_body_of [name, va_ident variant] (va_fields variant)))"
  unfolding enum_pack_body_def deconstruct_from_enum_variant_def pack_body_of_def enum_unpack_arm_def
    construct_from_enum_variant_def unpack_body_of_def construct_parts(1) prod.case case_prod_unfold
  by (rule refl)+

text \<open>
  What the language and the user promise of an enum: variants have different names and no two fields of
  one variant do; the expression and the pattern of a tag are of one constant, and the constants differ.
\<close>

definition variants_ok :: "('tok, 'ty) variant list \<Rightarrow> bool" where
  "variants_ok variants \<longleftrightarrow> distinct (map va_ident variants) \<and> (\<forall>variant \<in> set variants. fields_ok (va_fields variant))"

definition tag_value :: "('tok, 'ty, 'e, 'p) syn_parser \<Rightarrow> ('ty, 'e, 'p, 'a) rust_consts \<Rightarrow> 'ty \<Rightarrow> ('tok, 'ty) variant \<Rightarrow> 'a option" where
  "tag_value syn rc ty variant = (case get_tag_expr syn variant of Ok e \<Rightarrow> Some (rc_eval rc ty e) | Err _ \<Rightarrow> None)"

definition constant_tags :: "('tok, 'ty, 'e, 'p) syn_parser \<Rightarrow> ('ty, 'e, 'p, 'a) rust_consts \<Rightarrow> ('ty \<Rightarrow> 'a \<Rightarrow> bool) \<Rightarrow> 'ty \<Rightarrow>
    ('tok, 'ty) variant list \<Rightarrow> bool" where
  "constant_tags syn rc has_type ty variants \<longleftrightarrow>
     (\<forall>variant \<in> set variants. \<forall>e p. get_tag_expr syn variant = Ok e \<longrightarrow> get_tag_pat syn variant = Ok p \<longrightarrow>
        has_type ty (rc_eval rc ty e) \<and> (\<forall>v. has_type ty v \<longrightarrow> (rc_matches rc p v \<longleftrightarrow> v = rc_eval rc ty e))) \<and>
     (\<forall>variant \<in> set variants. \<forall>variant' \<in> set variants.
        tag_value syn rc ty variant = tag_value syn rc ty variant' \<longrightarrow> va_ident variant = va_ident variant')"

lemma same_variant:
  "variants_ok variants \<Longrightarrow> v \<in> set variants \<Longrightarrow> v' \<in> set variants \<Longrightarrow> va_ident v = va_ident v' \<Longrightarrow> v = v'"
  by (auto simp: variants_ok_def distinct_map inj_on_def)

definition variant_value :: "ident \<Rightarrow> ('tok, 'ty) variant \<Rightarrow> ('ty \<times> 'a) list \<Rightarrow> ('ty \<times> 'a) rvalue" where
  "variant_value name variant vs = value_of [name, va_ident variant] (va_fields variant) vs"

text \<open>A pattern of a variant matches the values of that variant only.\<close>

lemma variant_pattern:
  assumes "variants_ok variants" "variant \<in> set variants" "variant' \<in> set variants" "map fst vs = field_types (va_fields variant)"
  shows "destruct (fst (deconstruct_from_fields [name, va_ident variant'] (va_fields variant') names)) (variant_value name variant vs) \<noteq> None
    \<longleftrightarrow> variant' = variant"
proof
  assume "destruct (fst (deconstruct_from_fields [name, va_ident variant'] (va_fields variant') names)) (variant_value name variant vs) \<noteq> None"
  from destruct_path [OF this] show "variant' = variant"
    using same_variant [OF assms(1,3,2)] by (simp add: variant_value_def)
next
  assume eq: "variant' = variant"
  have "length vs = length (field_types (va_fields variant))" using assms(4) by (metis length_map)
  moreover have "fields_ok (va_fields variant)" using assms(1,2) by (simp add: variants_ok_def)
  ultimately show "destruct (fst (deconstruct_from_fields [name, va_ident variant'] (va_fields variant') names)) (variant_value name variant vs) \<noteq> None"
    unfolding eq variant_value_def using destruct_value by blast
qed

section \<open>Enums\<close>

text \<open>What the derivations return, arm by arm.\<close>

lemma enum_derived:
  assumes "impl_pack_for_enum syn name attrs w variants = Return g"
  shows "get_tag_type syn attrs = Ok (ge_tag_type g)"
    and "list_all2 (\<lambda>v arm. get_tag_expr syn v = Ok (fst arm) \<and> snd arm = pack_body_of [name, va_ident v] (va_fields v))
      variants (ge_pack_arms g)"
    and "list_all2 (\<lambda>v arm. get_tag_pat syn v = Ok (fst arm) \<and> snd arm = unpack_body_of [name, va_ident v] (va_fields v))
      variants (ge_unpack_arms g)"
  using assms
  by (auto simp: impl_pack_for_enum_def bind_outcome_eq_Return_iff mapM_outcome_Return enum_pack_arm_def enum_arm_bodies
      elim!: list_all2_mono)

lemma tagged_derived:
  assumes "impl_pack_tagged_for_enum syn name attrs w variants = Return g"
  shows "get_tag_type syn attrs = Ok (gt_tag_type g)"
    and "list_all2 (\<lambda>v arm. get_tag_expr syn v = Ok (snd arm) \<and>
        fst arm = fst (deconstruct_from_fields [name, va_ident v] (va_fields v) gen_ignored_names)) variants (gt_tag_arms g)"
    and "gt_pack_arms g = map (\<lambda>v. pack_body_of [name, va_ident v] (va_fields v)) variants"
    and "mapM_outcome (enum_unpack_arm syn name) variants = Return (gt_unpack_arms g)"
  using assms
  by (auto simp: impl_pack_tagged_for_enum_def bind_outcome_eq_Return_iff mapM_outcome_Return unwrap_eq_Return_iff enum_tag_arm_def
      deconstruct_from_enum_variant_def enum_arm_bodies Let_def case_prod_unfold elim!: list_all2_mono)

text \<open>When the macros refuse an enum.\<close>

definition tags_parse :: "('tok, 'ty, 'e, 'p) syn_parser \<Rightarrow> 'tok attribute list \<Rightarrow> ('tok, 'ty) variant list \<Rightarrow> bool" where
  "tags_parse syn attrs variants \<longleftrightarrow> is_ok (get_tag_type syn attrs) \<and>
     (\<forall>variant \<in> set variants. is_ok (get_tag_expr syn variant) \<and> is_ok (get_tag_pat syn variant))"

lemma bind_Panic_iff: "bind_outcome m f = Panic \<longleftrightarrow> m = Panic \<or> (\<exists>x. m = Return x \<and> f x = Panic)"
  by (cases m) simp_all

lemma arms_Panic:
  "enum_pack_arm syn name v = Panic \<longleftrightarrow> \<not> is_ok (get_tag_expr syn v)"
  "enum_tag_arm syn name v = Panic \<longleftrightarrow> \<not> is_ok (get_tag_expr syn v)"
  "enum_unpack_arm syn name v = Panic \<longleftrightarrow> \<not> is_ok (get_tag_pat syn v)"
  by (auto simp: enum_pack_arm_def enum_tag_arm_def enum_arm_bodies bind_Panic_iff unwrap_eq_Panic_iff case_prod_unfold)

lemma bind_two_Panic: "bind_outcome m (\<lambda>x. bind_outcome n (\<lambda>y. Return (f x y))) = Panic \<longleftrightarrow> m = Panic \<or> n = Panic"
  by (cases m; cases n) simp_all

lemma enum_Panic: "impl_pack_for_enum syn name attrs w variants = Panic \<longleftrightarrow> \<not> tags_parse syn attrs variants"
  by (cases "get_tag_type syn attrs")
    (auto simp: impl_pack_for_enum_def tags_parse_def bind_two_Panic mapM_outcome_Panic arms_Panic)

lemma tagged_Panic: "impl_pack_tagged_for_enum syn name attrs w variants = Panic \<longleftrightarrow> \<not> tags_parse syn attrs variants"
  by (cases "get_tag_type syn attrs")
    (auto simp: impl_pack_tagged_for_enum_def tags_parse_def Let_def bind_two_Panic mapM_outcome_Panic arms_Panic)

section \<open>The two derivations of one enum\<close>

lemma find_same:
  assumes "list_all2 (\<lambda>x y. P x \<longleftrightarrow> Q y) xs ys"
  shows "case List.find P xs of
      None \<Rightarrow> List.find Q ys = None
    | Some x \<Rightarrow> \<exists>y. List.find Q ys = Some y"
  using assms by (induction xs ys rule: list_all2_induct) (auto split: option.splits)

lemma find_both:
  assumes "list_all2 R xs ys" "list_all2 S xs zs"
    and "\<And>x y z. x \<in> set xs \<Longrightarrow> R x y \<Longrightarrow> S x z \<Longrightarrow> P y \<longleftrightarrow> Q z"
  shows "(List.find P ys = None \<and> List.find Q zs = None) \<or>
    (\<exists>x \<in> set xs. \<exists>y z. List.find P ys = Some y \<and> List.find Q zs = Some z \<and> R x y \<and> S x z)"
  using assms
proof (induction xs ys arbitrary: zs rule: list_all2_induct)
  case (Cons x xs y ys)
  then obtain z zs' where z: "zs = z # zs'" "S x z" "list_all2 S xs zs'" by (auto simp: list_all2_Cons1)
  have "P y \<longleftrightarrow> Q z" using Cons.prems(2) [of x y z] Cons.hyps(1) z(2) by simp
  moreover have "(List.find P ys = None \<and> List.find Q zs' = None) \<or>
      (\<exists>x \<in> set xs. \<exists>y z. List.find P ys = Some y \<and> List.find Q zs' = Some z \<and> R x y \<and> S x z)"
    by (rule Cons.IH [OF z(3)]) (rule Cons.prems(2), simp_all)
  ultimately show ?case using z(1,2) Cons.hyps(1) by auto
qed simp

context field_impls
begin

lemma find_pack_arm:
  fixes g :: "('ty, 'e, 'p) gen_pack_enum"
  assumes "impl_pack_for_enum syn name attrs w variants = Return g" "variants_ok variants" "variant \<in> set variants"
    and "map fst vs = field_types (va_fields variant)"
  shows "\<exists>e. get_tag_expr syn variant = Ok e \<and>
    List.find (\<lambda>(_, body). destruct (pb_pat body) (variant_value name variant vs) \<noteq> None) (ge_pack_arms g) =
      Some (e, pack_body_of [name, va_ident variant] (va_fields variant))"
proof -
  let ?P = "\<lambda>(_, body). destruct (pb_pat body) (variant_value name variant vs) \<noteq> None"
  have match: "?P arm \<longleftrightarrow> variant' = variant"
    if "variant' \<in> set variants" "snd arm = pack_body_of [name, va_ident variant'] (va_fields variant')" for variant' and arm :: "'e \<times> pack_body"
    using variant_pattern [OF assms(2,3) that(1) assms(4), of name gen_temporary_names] that(2)
    by (simp add: case_prod_unfold pack_body_of)
  have "\<exists>arm. List.find ?P (ge_pack_arms g) = Some arm \<and> get_tag_expr syn variant = Ok (fst arm) \<and>
      snd arm = pack_body_of [name, va_ident variant] (va_fields variant)"
    by (rule find_arm [OF enum_derived(2) [OF assms(1)] assms(3)]) (elim conjE, rule match)
  then show ?thesis by auto
qed

lemma find_unpack_arm:
  assumes "impl_pack_for_enum syn name attrs w variants = Return g" "constant_tags syn rc has_type (ge_tag_type g) variants"
    and "variants_ok variants" "variant \<in> set variants" "tag_value syn rc (ge_tag_type g) variant = Some tag"
  shows "has_type (ge_tag_type g) tag \<and> (\<exists>p. List.find (\<lambda>(p, _). rc_matches rc p tag) (ge_unpack_arms g) =
      Some (p, unpack_body_of [name, va_ident variant] (va_fields variant)))"
proof -
  let ?P = "\<lambda>(p, _). rc_matches rc p tag" and ?ty = "ge_tag_type g"
  let ?R = "\<lambda>v arm. get_tag_pat syn v = Ok (fst arm) \<and> snd arm = unpack_body_of [name, va_ident v] (va_fields v)"
  note parse = enum_Panic [of syn name attrs w variants, unfolded assms(1), simplified, unfolded tags_parse_def]
  have pats: "tag_value syn rc ?ty v = Some (rc_eval rc ?ty e)" if "get_tag_expr syn v = Ok e" for v e
    using that by (simp add: tag_value_def)
  have const: "has_type ?ty (rc_eval rc ?ty e) \<and> (\<forall>x. has_type ?ty x \<longrightarrow> (rc_matches rc p x \<longleftrightarrow> x = rc_eval rc ?ty e))"
    if "v \<in> set variants" "get_tag_expr syn v = Ok e" "get_tag_pat syn v = Ok p" for v e p
    using assms(2) that unfolding constant_tags_def by blast
  obtain e p where ep: "get_tag_expr syn variant = Ok e" "get_tag_pat syn variant = Ok p"
    using parse assms(4) by (cases "get_tag_expr syn variant"; cases "get_tag_pat syn variant") auto
  have tag: "tag = rc_eval rc ?ty e" "has_type ?ty tag" using assms(5) pats [OF ep(1)] const [OF assms(4) ep] by auto
  have match: "?P arm \<longleftrightarrow> v = variant" if v: "v \<in> set variants" "?R v arm" for v arm
  proof -
    obtain e' where e': "get_tag_expr syn v = Ok e'" using parse v(1) by (cases "get_tag_expr syn v") auto
    have "?P arm \<longleftrightarrow> tag = rc_eval rc ?ty e'" using const [OF v(1) e', of "fst arm"] v(2) tag(2) by (simp add: case_prod_unfold)
    also have "\<dots> \<longleftrightarrow> tag_value syn rc ?ty variant = tag_value syn rc ?ty v" using pats [OF e'] assms(5) by simp
    also have "\<dots> \<longleftrightarrow> v = variant"
      using assms(2) v(1) assms(4) same_variant [OF assms(3) v(1) assms(4)] unfolding constant_tags_def by metis
    finally show ?thesis .
  qed
  have "\<exists>arm. List.find ?P (ge_unpack_arms g) = Some arm \<and> ?R variant arm"
    by (rule find_arm [OF enum_derived(3) [OF assms(1)] assms(4)]) (rule match)
  then show ?thesis using tag(2) by auto
qed

lemma enum_pack_bytes:
  assumes "impl_pack_for_enum syn name attrs w variants = Return g" "constant_tags syn rc has_type (ge_tag_type g) variants"
    and "variants_ok variants" "variant \<in> set variants" "tag_value syn rc (ge_tag_type g) variant = Some tag"
    and "map fst vs = field_types (va_fields variant)" "typed vs" "valid t"
  shows "enum_pack rc impls g (variant_value name variant vs) t = Some (emit (enc (ge_tag_type g) tag @ fields_bytes vs) t)"
proof -
  obtain e where e: "get_tag_expr syn variant = Ok e"
    "List.find (\<lambda>(_, body). destruct (pb_pat body) (variant_value name variant vs) \<noteq> None) (ge_pack_arms g) =
      Some (e, pack_body_of [name, va_ident variant] (va_fields variant))"
    using find_pack_arm [OF assms(1,3,4,6)] by blast
  have tag: "rc_eval rc (ge_tag_type g) e = tag" using e(1) assms(5) by (simp add: tag_value_def)
  have pack: "pi_pack (impls (ge_tag_type g)) tag t = emit (enc (ge_tag_type g) tag) t"
    using find_unpack_arm [OF assms(1-5)] assms(8) by (intro pack_emits) simp_all
  have ok: "fields_ok (va_fields variant)" using assms(3,4) by (simp add: variants_ok_def)
  have body: "run_pack impls (pack_body_of [name, va_ident variant] (va_fields variant)) (variant_value name variant vs) t' =
      Some (emit (fields_bytes vs) t')" if "valid t'" for t'
    unfolding variant_value_def by (rule body_pack [OF ok assms(6,7) that])
  have all: "enum_pack rc impls g (variant_value name variant vs) t =
      (case emit (enc (ge_tag_type g) tag) t of Err err \<Rightarrow> Some (Err err)
       | Ok t \<Rightarrow> run_pack impls (pack_body_of [name, va_ident variant] (va_fields variant)) (variant_value name variant vs) t)"
    unfolding enum_pack_def e(2) option.case prod.case tag pack ..
  show ?thesis
    unfolding all emit_seq [OF assms(8), symmetric]
    using body emit_written [OF assms(8)] by (cases "emit (enc (ge_tag_type g) tag) t") auto
qed

lemma enum_unpack_bytes:
  assumes "impl_pack_for_enum syn name attrs w variants = Return g" "constant_tags syn rc has_type (ge_tag_type g) variants"
    and "variants_ok variants" "variant \<in> set variants" "tag_value syn rc (ge_tag_type g) variant = Some tag"
    and "map fst vs = field_types (va_fields variant)" "typed vs"
  shows "enum_unpack rc impls g (enc (ge_tag_type g) tag @ fields_bytes vs @ rest) = Some (Ok (variant_value name variant vs, rest))"
proof -
  obtain p where p: "has_type (ge_tag_type g) tag"
    "List.find (\<lambda>(p, _). rc_matches rc p tag) (ge_unpack_arms g) = Some (p, unpack_body_of [name, va_ident variant] (va_fields variant))"
    using find_unpack_arm [OF assms(1-5)] by blast
  have "pi_unpack (impls (ge_tag_type g)) (enc (ge_tag_type g) tag @ fields_bytes vs @ rest) = Ok (tag, fields_bytes vs @ rest)"
    by (rule codec.roundtrip [OF field_codec p(1)])
  then show ?thesis
    using p(2) body_unpack [OF assms(6,7)] by (simp add: enum_unpack_def match_tag_def variant_value_def)
qed

end

section \<open>The two derivations agree\<close>

lemma enum_derivations_agree:
  assumes ge: "impl_pack_for_enum syn name attrs w variants = Return ge"
    and gt: "impl_pack_tagged_for_enum syn name attrs w variants = Return gt"
  shows "gt_tag_type gt = ge_tag_type ge \<and>
    enum_unpack rc impls ge data =
      (case pi_unpack (impls (gt_tag_type gt)) data of
         Err e \<Rightarrow> Some (Err e)
       | Ok (tag, data) \<Rightarrow> tagged_unpack_data rc impls gt tag data) \<and>
    enum_pack rc impls ge self t =
      (case tagged_get_tag rc gt self of
         None \<Rightarrow> None
       | Some tag \<Rightarrow>
           (case pi_pack (impls (gt_tag_type gt)) tag t of
              Err e \<Rightarrow> Some (Err e)
            | Ok t \<Rightarrow> tagged_pack_data impls gt self t))"
proof -
  let ?P = "\<lambda>(_, body). destruct (pb_pat body) self \<noteq> None" and ?Q = "\<lambda>(pat, _). destruct pat self \<noteq> None"
    and ?S = "\<lambda>body. destruct (pb_pat body) self \<noteq> None"
  note arms = enum_derived [OF ge]
  note tags = tagged_derived [OF gt]
  have ty: "gt_tag_type gt = ge_tag_type ge" using arms(1) tags(1) by simp
  have unpack: "gt_unpack_arms gt = ge_unpack_arms ge"
    using ge tags(4) by (auto simp: impl_pack_for_enum_def bind_outcome_eq_Return_iff)
  have bodies: "list_all2 (\<lambda>v body. body = pack_body_of [name, va_ident v] (va_fields v)) variants (gt_pack_arms gt)"
    unfolding tags(3) by (simp add: list_all2_map2 list_all2_same)
  have names: "?P arm \<longleftrightarrow> ?Q tag_arm"
    if "get_tag_expr syn v = Ok (fst arm) \<and> snd arm = pack_body_of [name, va_ident v] (va_fields v)"
      "get_tag_expr syn v = Ok (snd tag_arm) \<and> fst tag_arm = fst (deconstruct_from_fields [name, va_ident v] (va_fields v) gen_ignored_names)"
    for v arm tag_arm
    using that destruct_matches [of "[name, va_ident v]" "va_fields v" gen_temporary_names self gen_ignored_names]
    by (simp add: case_prod_unfold pack_body_of)
  have with_tags: "(List.find ?P (ge_pack_arms ge) = None \<and> List.find ?Q (gt_tag_arms gt) = None) \<or>
      (\<exists>v \<in> set variants. \<exists>arm tag_arm. List.find ?P (ge_pack_arms ge) = Some arm \<and> List.find ?Q (gt_tag_arms gt) = Some tag_arm \<and>
        (get_tag_expr syn v = Ok (fst arm) \<and> snd arm = pack_body_of [name, va_ident v] (va_fields v)) \<and>
        (get_tag_expr syn v = Ok (snd tag_arm) \<and> fst tag_arm = fst (deconstruct_from_fields [name, va_ident v] (va_fields v) gen_ignored_names)))"
    by (rule find_both [OF arms(2) tags(2)]) (rule names)
  have with_bodies: "(List.find ?P (ge_pack_arms ge) = None \<and> List.find ?S (gt_pack_arms gt) = None) \<or>
      (\<exists>v \<in> set variants. \<exists>arm body. List.find ?P (ge_pack_arms ge) = Some arm \<and> List.find ?S (gt_pack_arms gt) = Some body \<and>
        (get_tag_expr syn v = Ok (fst arm) \<and> snd arm = pack_body_of [name, va_ident v] (va_fields v)) \<and>
        body = pack_body_of [name, va_ident v] (va_fields v))"
    by (rule find_both [OF arms(2) bodies]) (simp add: case_prod_unfold)
  have "enum_pack rc impls ge self t =
      (case tagged_get_tag rc gt self of
         None \<Rightarrow> None
       | Some tag \<Rightarrow>
           (case pi_pack (impls (gt_tag_type gt)) tag t of
              Err e \<Rightarrow> Some (Err e)
            | Ok t \<Rightarrow> tagged_pack_data impls gt self t))"
  proof (cases "List.find ?P (ge_pack_arms ge)")
    case None
    then have "List.find ?Q (gt_tag_arms gt) = None" using with_tags by auto
    then show ?thesis using None by (simp add: enum_pack_def tagged_get_tag_def)
  next
    case (Some arm)
    obtain tag_arm where tag_arm: "List.find ?Q (gt_tag_arms gt) = Some tag_arm" "snd tag_arm = fst arm"
      using with_tags Some by auto
    have "List.find ?S (gt_pack_arms gt) = Some (snd arm)" using with_bodies Some by (auto simp: case_prod_unfold)
    then have "tagged_pack_data impls gt self = run_pack impls (snd arm) self" by (simp add: tagged_pack_data_def fun_eq_iff)
    then show ?thesis using Some tag_arm ty
      by (simp add: enum_pack_def tagged_get_tag_def case_prod_unfold split: sum.split)
  qed
  moreover have "enum_unpack rc impls ge data =
      (case pi_unpack (impls (gt_tag_type gt)) data of
         Err e \<Rightarrow> Some (Err e)
       | Ok (tag, data) \<Rightarrow> tagged_unpack_data rc impls gt tag data)"
    unfolding enum_unpack_def tagged_unpack_data_def ty unpack ..
  ultimately show ?thesis using ty by blast
qed

section \<open>Enums without data\<close>

lemma ext_derived:
  assumes "impl_ext_enum_for_enum syn name attrs w variants = Return g"
  shows "get_tag_type syn attrs = Ok (gx_tag_type g)"
    and "list_all2 (\<lambda>v arm. get_tag_expr syn v = Ok (snd arm) \<and>
        fst arm = fst (deconstruct_from_fields [name, va_ident v] (va_fields v) gen_ignored_names)) variants (gx_into_arms g)"
    and "list_all2 (\<lambda>v arm. get_tag_pat syn v = Ok (fst arm) \<and> field_types (va_fields v) = [] \<and>
        snd arm = fst (deconstruct_from_fields [name, va_ident v] (va_fields v) gen_ignored_names)) variants (gx_from_arms g)"
  using assms
  by (auto simp: impl_ext_enum_for_enum_def bind_outcome_eq_Return_iff mapM_outcome_Return unwrap_eq_Return_iff enum_tag_arm_def enum_from_arm_def
      deconstruct_from_enum_variant_def construct_from_enum_variant_def construct_parts(1) case_prod_unfold
      elim!: list_all2_mono split: if_splits)

lemma ext_Panic:
  "impl_ext_enum_for_enum syn name attrs w variants = Panic \<longleftrightarrow>
    \<not> tags_parse syn attrs variants \<or> (\<exists>variant \<in> set variants. field_types (va_fields variant) \<noteq> [])"
proof -
  have from_arm: "enum_from_arm syn name v = Panic \<longleftrightarrow> \<not> is_ok (get_tag_pat syn v) \<or> field_types (va_fields v) \<noteq> []" for v
    by (cases "get_tag_pat syn v") (auto simp: enum_from_arm_def construct_from_enum_variant_def construct_parts(1))
  show ?thesis
    by (cases "get_tag_type syn attrs")
      (auto simp: impl_ext_enum_for_enum_def tags_parse_def bind_two_Panic mapM_outcome_Panic arms_Panic from_arm)
qed

lemma ext_inverse:
  fixes g :: "('ty, 'e, 'p) gen_ext_enum" and rc :: "('ty, 'e, 'p, 'a) rust_consts"
  assumes "impl_ext_enum_for_enum syn name attrs w variants = Return g" "constant_tags syn rc has_type (gx_tag_type g) variants"
    and "variants_ok variants" "variant \<in> set variants"
  shows "\<exists>tag. tag_value syn rc (gx_tag_type g) variant = Some tag \<and>
    ext_into_tag rc g (variant_value name variant [] :: ('ty \<times> 'a) rvalue) = Some tag \<and>
    ext_try_from_tag rc g tag = Some (Ok (variant_value name variant [] :: ('ty \<times> 'a) rvalue))"
proof -
  let ?ty = "gx_tag_type g"
  let ?P = "\<lambda>(pat, _). destruct pat (variant_value name variant [] :: ('ty \<times> 'a) rvalue) \<noteq> None"
  have ok: "tags_parse syn attrs variants" and empty: "field_types (va_fields v) = []" if "v \<in> set variants" for v
    using ext_Panic [of syn name attrs w variants] assms(1) that by auto
  have tag: "is_ok (get_tag_expr syn v)" "is_ok (get_tag_pat syn v)" if "v \<in> set variants" for v
    using ok [OF that] that by (simp_all add: tags_parse_def)
  obtain e p where ep: "get_tag_expr syn variant = Ok e" "get_tag_pat syn variant = Ok p"
    using tag [OF assms(4)] by (cases "get_tag_expr syn variant"; cases "get_tag_pat syn variant") auto
  let ?tag = "rc_eval rc ?ty e"
  have const: "has_type ?ty (rc_eval rc ?ty e') \<and> (\<forall>x. has_type ?ty x \<longrightarrow> (rc_matches rc p' x \<longleftrightarrow> x = rc_eval rc ?ty e'))"
    if "v \<in> set variants" "get_tag_expr syn v = Ok e'" "get_tag_pat syn v = Ok p'" for v e' p'
    using assms(2) that unfolding constant_tags_def by blast
  have into: "\<exists>arm. List.find ?P (gx_into_arms g) = Some arm \<and> (get_tag_expr syn variant = Ok (snd arm) \<and>
      fst arm = fst (deconstruct_from_fields [name, va_ident variant] (va_fields variant) gen_ignored_names))"
  proof (rule find_arm [OF ext_derived(2) [OF assms(1)] assms(4)])
    fix v and arm :: "shape \<times> 'e"
    assume "v \<in> set variants" "get_tag_expr syn v = Ok (snd arm) \<and>
      fst arm = fst (deconstruct_from_fields [name, va_ident v] (va_fields v) gen_ignored_names)"
    then show "?P arm \<longleftrightarrow> v = variant"
      using variant_pattern [OF assms(3,4), of v "[] :: ('ty \<times> 'a) list" name gen_ignored_names] empty [OF assms(4)]
      by (simp add: case_prod_unfold)
  qed
  let ?Q = "\<lambda>(p, _). rc_matches rc p ?tag"
  have from_tag: "\<exists>arm. List.find ?Q (gx_from_arms g) = Some arm \<and> (get_tag_pat syn variant = Ok (fst arm) \<and>
      field_types (va_fields variant) = [] \<and>
      snd arm = fst (deconstruct_from_fields [name, va_ident variant] (va_fields variant) gen_ignored_names))"
  proof (rule find_arm [OF ext_derived(3) [OF assms(1)] assms(4)])
    fix v and arm :: "'p \<times> shape"
    assume v: "v \<in> set variants" "get_tag_pat syn v = Ok (fst arm) \<and> field_types (va_fields v) = [] \<and>
      snd arm = fst (deconstruct_from_fields [name, va_ident v] (va_fields v) gen_ignored_names)"
    obtain e' where e': "get_tag_expr syn v = Ok e'" using tag(1) [OF v(1)] by (cases "get_tag_expr syn v") auto
    have "?Q arm \<longleftrightarrow> ?tag = rc_eval rc ?ty e'"
      using const [OF v(1) e', of "fst arm"] v(2) const [OF assms(4) ep] by (simp add: case_prod_unfold)
    also have "\<dots> \<longleftrightarrow> tag_value syn rc ?ty variant = tag_value syn rc ?ty v" by (simp add: tag_value_def ep e')
    also have "\<dots> \<longleftrightarrow> v = variant"
      using assms(2) v(1) assms(4) same_variant [OF assms(3) v(1) assms(4)] unfolding constant_tags_def by metis
    finally show "?Q arm \<longleftrightarrow> v = variant" .
  qed
  have "construct (fst (deconstruct_from_fields [name, va_ident variant] (va_fields variant) gen_ignored_names)) Map.empty =
      Some (variant_value name variant [] :: ('ty \<times> 'a) rvalue)"
    using construct_bound [of "[] :: ('ty \<times> 'a) list" "va_fields variant" gen_ignored_names "[name, va_ident variant]"] empty [OF assms(4)]
    by (simp add: variant_value_def take_names_def)
  then show ?thesis using into from_tag ep
    by (intro exI [of _ ?tag]) (auto simp: tag_value_def ext_into_tag_def ext_try_from_tag_def)
qed

section \<open>The commands of the frames\<close>

text \<open>
  The declaration of \<^verbatim>\<open>Command\<close> in \<^verbatim>\<open>src/ieee802154/frame.rs\<close>, with tokens that are their literals, and the
  implementations of its field types in \<^verbatim>\<open>Frame\<close>.
\<close>

datatype command_type = Ty_u8 | Ty_CapabilityInformation | Ty_AssociationResponse

datatype command_content = C_u8 u8 | C_CapabilityInformation capability_information | C_AssociationResponse association_response

definition literal_parser :: "(u8 + command_type, command_type, u8, u8) syn_parser" where
  "literal_parser =
     \<lparr>parse_type = (\<lambda>tokens. case tokens of Inr ty \<Rightarrow> Ok ty | Inl _ \<Rightarrow> Err (SynError ''expected type'')),
      parse_expr = (\<lambda>tokens. case tokens of Inl n \<Rightarrow> Ok n | Inr _ \<Rightarrow> Err (SynError ''expected expression'')),
      parse_pat = (\<lambda>tokens. case tokens of Inl n \<Rightarrow> Ok n | Inr _ \<Rightarrow> Err (SynError ''expected pattern''))\<rparr>"

definition literal_consts :: "(command_type, u8, u8, command_content) rust_consts" where
  "literal_consts = \<lparr>rc_eval = (\<lambda>_ n. C_u8 n), rc_matches = (\<lambda>n x. x = C_u8 n)\<rparr>"

definition simple_attribute :: "ident \<Rightarrow> 'tok \<Rightarrow> 'tok attribute" where
  "simple_attribute name tokens = \<lparr>at_path = \<lparr>sp_leading_colon = False, sp_segments = [name]\<rparr>, at_args = Some tokens\<rparr>"

definition command_variant :: "ident \<Rightarrow> u8 \<Rightarrow> command_type list \<Rightarrow> (u8 + command_type, command_type) variant" where
  "command_variant name tag tys =
     \<lparr>va_ident = name, va_attrs = [simple_attribute ''tag'' (Inl tag)], va_fields = Fields_Unnamed tys, va_discriminant = None\<rparr>"

definition command_variants :: "(u8 + command_type, command_type) variant list" where
  "command_variants =
     [command_variant ''AssociationRequest'' 0x01 [Ty_CapabilityInformation],
      command_variant ''AssociationResponse'' 0x02 [Ty_AssociationResponse],
      command_variant ''DataRequest'' 0x04 [], command_variant ''BeaconRequest'' 0x07 []]"

definition command_declaration :: "(u8 + command_type, command_type) derive_input" where
  "command_declaration =
     \<lparr>di_ident = ''Command'', di_attrs = [simple_attribute ''tag_type'' (Inr Ty_u8)], di_where_clause = None,
      di_data = Data_Enum command_variants\<rparr>"

definition command_impls :: "('t, 'err) append_fn \<Rightarrow> command_type \<Rightarrow> (command_content, 't, 'err) pack_impl" where
  "command_impls append_to ty =
     (case ty of
        Ty_u8 \<Rightarrow>
          \<lparr>pi_unpack = (\<lambda>data. map_ok (map_prod C_u8 id) (int_unpack data)),
           pi_pack = (\<lambda>x t. case x of C_u8 n \<Rightarrow> int_pack append_to n t | _ \<Rightarrow> Ok t)\<rparr>
      | Ty_CapabilityInformation \<Rightarrow>
          \<lparr>pi_unpack = (\<lambda>data. map_ok (map_prod C_CapabilityInformation id) (CapabilityInformation_unpack data)),
           pi_pack = (\<lambda>x t. case x of C_CapabilityInformation c \<Rightarrow> CapabilityInformation_pack append_to c t | _ \<Rightarrow> Ok t)\<rparr>
      | Ty_AssociationResponse \<Rightarrow>
          \<lparr>pi_unpack = (\<lambda>data. map_ok (map_prod C_AssociationResponse id) (AssociationResponse_unpack data)),
           pi_pack = (\<lambda>x t. case x of C_AssociationResponse r \<Rightarrow> AssociationResponse_pack append_to r t | _ \<Rightarrow> Ok t)\<rparr>)"

fun command_value :: "command \<Rightarrow> (command_type \<times> command_content) rvalue" where
  "command_value (Command_AssociationRequest x) =
     RV_Unnamed [''Command'', ''AssociationRequest''] [(Ty_CapabilityInformation, C_CapabilityInformation x)]"
| "command_value (Command_AssociationResponse x) =
     RV_Unnamed [''Command'', ''AssociationResponse''] [(Ty_AssociationResponse, C_AssociationResponse x)]"
| "command_value Command_DataRequest = RV_Unnamed [''Command'', ''DataRequest''] []"
| "command_value Command_BeaconRequest = RV_Unnamed [''Command'', ''BeaconRequest''] []"

text \<open>The types whose packing is undone by unpacking: not the capability information, which packs to nothing.\<close>

fun command_typed :: "command_type \<Rightarrow> command_content \<Rightarrow> bool" where
  "command_typed Ty_u8 (C_u8 _) = True"
| "command_typed Ty_AssociationResponse (C_AssociationResponse _) = True"
| "command_typed _ _ = False"

fun command_encoding :: "command_type \<Rightarrow> command_content \<Rightarrow> bytes" where
  "command_encoding Ty_u8 (C_u8 n) = to_le_bytes n"
| "command_encoding Ty_AssociationResponse (C_AssociationResponse r) = AssociationResponse_bytes r"
| "command_encoding _ _ = []"

interpretation command_vec: field_impls VecPackTarget_append VecPackTarget_into "\<lambda>_. True"
  "command_impls VecPackTarget_append" command_encoding command_typed
proof unfold_locales
  show "pi_pack (command_impls VecPackTarget_append ty) x t = vec.emit (command_encoding ty x) t"
    if "command_typed ty x" for ty x t
    using that vec.int_pack_emit vec.AssociationResponse_pack_emit
    by (cases ty; cases x) (simp_all add: command_impls_def del: to_le_bytes_u8)
  show "pi_unpack (command_impls VecPackTarget_append ty) (command_encoding ty x @ rest) = Ok (x, rest)"
    if "command_typed ty x" for ty x rest
    using that u8.roundtrip association_response.roundtrip
    by (cases ty; cases x) (simp_all add: command_impls_def)
qed

text \<open>What the derivations make of the declaration.\<close>

definition command_unpack_arms :: "(u8 \<times> command_type unpack_body) list" where
  "command_unpack_arms =
     [(0x01, \<lparr>ub_lets = [(''tmp0'', Ty_CapabilityInformation)],
         ub_construct = Shape_Unnamed [''Command'', ''AssociationRequest''] [''tmp0'']\<rparr>),
      (0x02, \<lparr>ub_lets = [(''tmp0'', Ty_AssociationResponse)],
         ub_construct = Shape_Unnamed [''Command'', ''AssociationResponse''] [''tmp0'']\<rparr>),
      (0x04, \<lparr>ub_lets = [], ub_construct = Shape_Unnamed [''Command'', ''DataRequest''] []\<rparr>),
      (0x07, \<lparr>ub_lets = [], ub_construct = Shape_Unnamed [''Command'', ''BeaconRequest''] []\<rparr>)]"

definition command_pack_arms :: "(u8 \<times> pack_body) list" where
  "command_pack_arms =
     [(0x01, \<lparr>pb_pat = Shape_Unnamed [''Command'', ''AssociationRequest''] [''tmp0''], pb_names = [''tmp0'']\<rparr>),
      (0x02, \<lparr>pb_pat = Shape_Unnamed [''Command'', ''AssociationResponse''] [''tmp0''], pb_names = [''tmp0'']\<rparr>),
      (0x04, \<lparr>pb_pat = Shape_Unnamed [''Command'', ''DataRequest''] [], pb_names = []\<rparr>),
      (0x07, \<lparr>pb_pat = Shape_Unnamed [''Command'', ''BeaconRequest''] [], pb_names = []\<rparr>)]"

definition command_derived :: "(command_type, u8, u8) gen_pack_enum" where
  "command_derived =
     \<lparr>ge_name = ''Command'', ge_bounds = {Ty_u8, Ty_CapabilityInformation, Ty_AssociationResponse}, ge_where = [],
      ge_tag_type = Ty_u8, ge_unpack_arms = command_unpack_arms, ge_pack_arms = command_pack_arms\<rparr>"

lemma no_names: "take_names namegen 0 = []"
  by (simp add: take_names_def)

lemma tmp0: "take_names gen_temporary_names (Suc 0) = [''tmp0'']"
  by code_simp

lemmas command_syntax = command_variant_def simple_attribute_def literal_parser_def get_tag_type_def get_tag_expr_def
  get_tag_pat_def find_simple_attribute_def match_path_def

lemma command_arms:
  "mapM_outcome (enum_pack_arm literal_parser ''Command'') command_variants = Return command_pack_arms"
  "mapM_outcome (enum_unpack_arm literal_parser ''Command'') command_variants = Return command_unpack_arms"
  by (simp_all add: command_variants_def command_pack_arms_def command_unpack_arms_def enum_pack_arm_def enum_unpack_arm_def
      enum_pack_body_def deconstruct_from_enum_variant_def construct_from_enum_variant_def construct_from_unnamed_fields_def
      deconstruct_from_unnamed_fields_def Let_def tmp0 no_names command_syntax)

lemma command_tag_type: "get_tag_type literal_parser [simple_attribute ''tag_type'' (Inr Ty_u8)] = Ok Ty_u8"
  by (simp add: command_syntax)

lemma command_derived: "impl_pack literal_parser command_declaration = Return (Gen_Enum command_derived)"
  by (simp add: impl_pack_def command_declaration_def impl_pack_for_enum_def command_arms command_tag_type command_derived_def
      extra_where_def arm_types_def command_unpack_arms_def insert_commute)

section \<open>Declarations the language accepts\<close>

text \<open>What the compiler and the tags promise of a declaration, beside what the macros check.\<close>

definition declaration_ok :: "('tok, 'ty, 'e, 'p) syn_parser \<Rightarrow> ('ty, 'e, 'p, 'a) rust_consts \<Rightarrow> ('ty \<Rightarrow> 'a \<Rightarrow> bool) \<Rightarrow>
    ('tok, 'ty) derive_input \<Rightarrow> bool" where
  "declaration_ok syn rc has_type ast =
     (case di_data ast of
        Data_Struct flds \<Rightarrow> fields_ok flds
      | Data_Enum variants \<Rightarrow> variants_ok variants \<and>
          (case get_tag_type syn (di_attrs ast) of
             Ok ty \<Rightarrow> constant_tags syn rc has_type ty variants
           | Err _ \<Rightarrow> False)
      | Data_Union \<Rightarrow> False)"

text \<open>The values of a declaration, with the bytes they stand for: the tag of the variant, then the fields in order.\<close>

inductive declared_value :: "('tok, 'ty, 'e, 'p) syn_parser \<Rightarrow> ('ty, 'e, 'p, 'a) rust_consts \<Rightarrow> ('ty \<Rightarrow> 'a \<Rightarrow> bytes) \<Rightarrow>
    ('ty \<Rightarrow> 'a \<Rightarrow> bool) \<Rightarrow> ('tok, 'ty) derive_input \<Rightarrow> ('ty \<times> 'a) rvalue \<Rightarrow> bytes \<Rightarrow> bool"
  for syn rc enc has_type ast where
  declared_struct: "di_data ast = Data_Struct flds \<Longrightarrow> map fst vs = field_types flds \<Longrightarrow> contents_typed has_type vs \<Longrightarrow>
    declared_value syn rc enc has_type ast (value_of [di_ident ast] flds vs) (contents_bytes enc vs)"
| declared_variant: "di_data ast = Data_Enum variants \<Longrightarrow> variant \<in> set variants \<Longrightarrow> get_tag_type syn (di_attrs ast) = Ok ty \<Longrightarrow>
    tag_value syn rc ty variant = Some tag \<Longrightarrow> map fst vs = field_types (va_fields variant) \<Longrightarrow> contents_typed has_type vs \<Longrightarrow>
    declared_value syn rc enc has_type ast (variant_value (di_ident ast) variant vs) (enc ty tag @ contents_bytes enc vs)"

text \<open>The methods of the implementation that \<^verbatim>\<open>Pack\<close> derives.\<close>

fun derived_pack where
  "derived_pack rc impls (Gen_Struct g) self target = run_pack impls (gs_pack g) self target"
| "derived_pack rc impls (Gen_Enum g) self target = enum_pack rc impls g self target"

fun derived_unpack where
  "derived_unpack rc impls (Gen_Struct g) data = run_unpack impls (gs_unpack g) data"
| "derived_unpack rc impls (Gen_Enum g) data = enum_unpack rc impls g data"

lemma impl_pack_cases:
  assumes "impl_pack syn ast = Return g"
  obtains flds where "di_data ast = Data_Struct flds" "g = Gen_Struct (impl_pack_for_struct (di_ident ast) (di_where_clause ast) flds)"
    | variants ge where "di_data ast = Data_Enum variants" "g = Gen_Enum ge"
        "impl_pack_for_enum syn (di_ident ast) (di_attrs ast) (di_where_clause ast) variants = Return ge"
  using assms by (auto simp: impl_pack_def bind_outcome_eq_Return_iff split: decl_data.splits)

text \<open>
  C11. A derived implementation packs a value of its declaration to the bytes of its tag and fields, and what it unpacks
  from those bytes and whatever follows is the value and what follows: for every struct, and every enum the macro accepts
  whose variants have tags that are constants of the tag type and differ from each other (the macro accepts equal tags too,
  and then a variant unpacks as the first one with its tag), when the implementations of the field types and of the tag
  type do the same for their values.
\<close>

theorem derived_pack_roundtrip:
  assumes "field_impls append_to written valid impls enc has_type"
    and "impl_pack syn ast = Return g"
    and "declaration_ok syn rc has_type ast"
    and "declared_value syn rc enc has_type ast v bs"
    and "valid t"
  shows "derived_pack rc impls g v t = Some (map_err TargetError (append_to t bs)) \<and>
    derived_unpack rc impls g (bs @ rest) = Some (Ok (v, rest))"
proof -
  note emit = pack_target.emit_def [OF field_impls.axioms(1) [OF assms(1)]]
  note body_pack = field_impls.body_pack [OF assms(1) _ _ _ assms(5)] field_impls.body_unpack [OF assms(1)]
  from assms(4) show ?thesis
  proof cases
    case (declared_struct flds vs)
    then have g: "g = Gen_Struct (impl_pack_for_struct (di_ident ast) (di_where_clause ast) flds)" and ok: "fields_ok flds"
      using assms(2,3) by (simp_all add: impl_pack_def declaration_ok_def)
    show ?thesis
      using body_pack(1) [OF _ declared_struct(4,5)] body_pack(2) [OF declared_struct(4,5)] ok
      by (simp add: g struct_bodies declared_struct(1,2) emit)
  next
    case (declared_variant variants variant ty tag vs)
    obtain ge where ge: "g = Gen_Enum ge" "impl_pack_for_enum syn (di_ident ast) (di_attrs ast) (di_where_clause ast) variants = Return ge"
      using assms(2) declared_variant(3) by (auto simp: impl_pack_def bind_outcome_eq_Return_iff)
    have ty: "ge_tag_type ge = ty" using enum_derived(1) [OF ge(2)] declared_variant(5) by simp
    have ok: "variants_ok variants" "constant_tags syn rc has_type (ge_tag_type ge) variants"
      using assms(3) declared_variant(3,5) ty by (simp_all add: declaration_ok_def)
    note tag = declared_variant(6) [folded ty]
    show ?thesis
      using field_impls.enum_pack_bytes [OF assms(1) ge(2) ok(2,1) declared_variant(4) tag declared_variant(7,8) assms(5)]
        field_impls.enum_unpack_bytes [OF assms(1) ge(2) ok(2,1) declared_variant(4) tag declared_variant(7,8), of rest]
      by (simp add: ge(1) declared_variant(1,2) ty emit)
  qed
qed

lemma list_all2_right: "list_all2 R xs ys \<Longrightarrow> y \<in> set ys \<Longrightarrow> \<exists>x \<in> set xs. R x y"
  by (induction xs ys rule: list_all2_induct) auto

definition value_declared :: "('ty \<Rightarrow> 'a \<Rightarrow> bool) \<Rightarrow> ('tok, 'ty) derive_input \<Rightarrow> ('ty \<times> 'a) rvalue \<Rightarrow> bool" where
  "value_declared has_type ast v \<longleftrightarrow>
     (case di_data ast of
        Data_Struct flds \<Rightarrow> \<exists>vs. map fst vs = field_types flds \<and> contents_typed has_type vs \<and> v = value_of [di_ident ast] flds vs
      | Data_Enum variants \<Rightarrow> \<exists>variant \<in> set variants. \<exists>vs. map fst vs = field_types (va_fields variant) \<and>
          contents_typed has_type vs \<and> v = variant_value (di_ident ast) variant vs
      | Data_Union \<Rightarrow> False)"

lemma value_declared_variant:
  "di_data ast = Data_Enum variants \<Longrightarrow> variant \<in> set variants \<Longrightarrow> map fst vs = field_types (va_fields variant) \<Longrightarrow>
    contents_typed has_type vs \<Longrightarrow>
    value_declared has_type ast (value_of [di_ident ast, va_ident variant] (va_fields variant) vs)"
  by (auto simp: value_declared_def variant_value_def)

text \<open>
  Whatever the bytes, the unpacking a derivation generates binds every variable it uses, and what it returns is a value
  of the declaration: the fields of the struct, or of one of the variants, with contents of the types the declaration gives
  them, when the implementations of these types return values of theirs.
\<close>

lemma derived_unpack_typed:
  assumes "impls_typed impls has_type"
    and "impl_pack syn ast = Return g"
  shows "case derived_unpack rc impls g data of
     None \<Rightarrow> False
   | Some (Err e) \<Rightarrow> True
   | Some (Ok (v, rest)) \<Rightarrow> value_declared has_type ast v"
  using assms(2)
proof (cases rule: impl_pack_cases)
  case (1 flds)
  show ?thesis
    using body_typed [OF assms(1), of flds "[di_ident ast]" data] 1
    by (auto simp: struct_bodies value_declared_def split: option.splits sum.splits)
next
  case (2 variants ge)
  show ?thesis
  proof (cases "pi_unpack (impls (ge_tag_type ge)) data")
    case (Inr r)
    obtain tag rest where r: "r = (tag, rest)" by (cases r)
    show ?thesis
    proof (cases "List.find (\<lambda>(p, _). rc_matches rc p tag) (ge_unpack_arms ge)")
      case (Some arm)
      then have "arm \<in> set (ge_unpack_arms ge)" by (metis find_Some_iff nth_mem)
      then obtain variant where variant: "variant \<in> set variants"
        "snd arm = unpack_body_of [di_ident ast, va_ident variant] (va_fields variant)"
        using list_all2_right [OF enum_derived(3) [OF 2(3)]] by blast
      show ?thesis
        using body_typed [OF assms(1), of "va_fields variant" "[di_ident ast, va_ident variant]" rest] variant 2(1,2) Inr r Some
        by (auto simp: enum_unpack_def match_tag_def case_prod_unfold intro: value_declared_variant split: option.splits sum.splits)
    qed (use Inr r 2 in \<open>simp add: enum_unpack_def match_tag_def\<close>)
  qed (use 2 in \<open>simp add: enum_unpack_def\<close>)
qed

lemma command_tags:
  "get_tag_expr literal_parser (command_variant name tag tys) = Ok tag" "get_tag_pat literal_parser (command_variant name tag tys) = Ok tag"
  by (simp_all add: command_syntax)

lemma command_ok: "declaration_ok literal_parser literal_consts command_typed command_declaration"
proof -
  have "va_ident (command_variant name tag tys) = name \<and> va_fields (command_variant name tag tys) = Fields_Unnamed tys" for name tag tys
    by (simp add: command_variant_def)
  then show ?thesis
    by (simp add: declaration_ok_def command_declaration_def command_tag_type variants_ok_def constant_tags_def tag_value_def
        command_variants_def command_tags literal_consts_def)
qed

theorem derived_pack_roundtrip_witness:
  "derived_pack literal_consts (command_impls VecPackTarget_append) (Gen_Enum command_derived) (command_value Command_BeaconRequest) VecPackTarget_new =
     Some (map_err TargetError (VecPackTarget_append VecPackTarget_new [0x07])) \<and>
   derived_unpack literal_consts (command_impls VecPackTarget_append) (Gen_Enum command_derived) ([0x07] @ [1, 2]) =
     Some (Ok (command_value Command_BeaconRequest, [1, 2]))"
proof (rule derived_pack_roundtrip [OF command_vec.field_impls_axioms command_derived command_ok])
  have "declared_value literal_parser literal_consts command_encoding command_typed command_declaration
      (variant_value (di_ident command_declaration) (command_variant ''BeaconRequest'' 0x07 []) [])
      (command_encoding Ty_u8 (C_u8 0x07) @ contents_bytes command_encoding [])"
    by (rule declared_variant [where variants = command_variants])
      (simp_all add: command_declaration_def command_variants_def command_tag_type tag_value_def command_tags literal_consts_def
        contents_typed_def, simp add: command_variant_def)
  then show "declared_value literal_parser literal_consts command_encoding command_typed command_declaration
      (command_value Command_BeaconRequest) [0x07]"
    by (simp add: command_declaration_def variant_value_def command_variant_def contents_bytes_def)
qed simp

text \<open>
  C26. The two derivations agree on every declaration: what \<^verbatim>\<open>Pack\<close> refuses of an enum \<^verbatim>\<open>PackTagged\<close> refuses too, and
  \<^verbatim>\<open>Pack\<close> of an enum is the tag that \<^verbatim>\<open>get_tag\<close> gives, packed with its type, followed by what \<^verbatim>\<open>pack_data\<close> packs; it unpacks
  the tag and leaves the rest to \<^verbatim>\<open>unpack_data\<close>.
\<close>

theorem derivations_agree:
  "case (impl_pack syn ast, impl_pack_tagged syn ast) of
     (Return (Gen_Enum ge), Return gt) \<Rightarrow>
       gt_tag_type gt = ge_tag_type ge \<and>
       enum_unpack rc impls ge data =
         (case pi_unpack (impls (gt_tag_type gt)) data of
            Err e \<Rightarrow> Some (Err e)
          | Ok (tag, data) \<Rightarrow> tagged_unpack_data rc impls gt tag data) \<and>
       enum_pack rc impls ge self t =
         (case tagged_get_tag rc gt self of
            None \<Rightarrow> None
          | Some tag \<Rightarrow>
              (case pi_pack (impls (gt_tag_type gt)) tag t of
                 Err e \<Rightarrow> Some (Err e)
               | Ok t \<Rightarrow> tagged_pack_data impls gt self t))
   | (Return (Gen_Struct _), Panic) \<Rightarrow> True
   | (Panic, Panic) \<Rightarrow> True
   | _ \<Rightarrow> False"
proof (cases "di_data ast")
  case (Data_Enum variants)
  let ?ge = "impl_pack_for_enum syn (di_ident ast) (di_attrs ast) (di_where_clause ast) variants"
    and ?gt = "impl_pack_tagged_for_enum syn (di_ident ast) (di_attrs ast) (di_where_clause ast) variants"
  have "?ge = Panic \<longleftrightarrow> ?gt = Panic" by (simp add: enum_Panic tagged_Panic)
  then consider "?ge = Panic" "?gt = Panic" | ge gt where "?ge = Return ge" "?gt = Return gt"
    by (cases ?ge; cases ?gt) simp_all
  then show ?thesis
  proof cases
    case 2
    have "impl_pack syn ast = Return (Gen_Enum ge)" "impl_pack_tagged syn ast = Return gt"
      using 2 by (simp_all add: impl_pack_def impl_pack_tagged_def Data_Enum)
    then show ?thesis using enum_derivations_agree [OF 2] by simp
  qed (simp add: impl_pack_def impl_pack_tagged_def Data_Enum)
qed (simp_all add: impl_pack_def impl_pack_tagged_def)

text \<open>
  What the macros refuse, stopping the compiler: a union; for \<^verbatim>\<open>PackTagged\<close> and \<^verbatim>\<open>ExtEnum\<close> a struct; an enum whose tag
  type, or the tag of one of whose variants, is missing or does not parse; for \<^verbatim>\<open>ExtEnum\<close> a variant with data.  Nothing else.
\<close>

lemma derive_refusals:
  "(impl_pack syn ast = Panic \<longleftrightarrow>
      (case di_data ast of
         Data_Struct _ \<Rightarrow> False
       | Data_Enum variants \<Rightarrow> \<not> tags_parse syn (di_attrs ast) variants
       | Data_Union \<Rightarrow> True)) \<and>
   (impl_pack_tagged syn ast = Panic \<longleftrightarrow>
      (case di_data ast of Data_Enum variants \<Rightarrow> \<not> tags_parse syn (di_attrs ast) variants | _ \<Rightarrow> True)) \<and>
   (impl_ext_enum syn ast = Panic \<longleftrightarrow>
      (case di_data ast of
         Data_Enum variants \<Rightarrow>
           \<not> (tags_parse syn (di_attrs ast) variants \<and> list_all (\<lambda>variant. field_types (va_fields variant) = []) variants)
       | _ \<Rightarrow> True))"
  by (cases "di_data ast")
    (auto simp: impl_pack_def impl_pack_tagged_def impl_ext_enum_def bind_Panic_iff enum_Panic tagged_Panic ext_Panic list_all_iff)

lemma command_finds:
  "List.find (\<lambda>(p, _). rc_matches literal_consts p (C_u8 n)) command_unpack_arms =
     (if n = 0x01 then Some (command_unpack_arms ! 0) else if n = 0x02 then Some (command_unpack_arms ! 1)
      else if n = 0x04 then Some (command_unpack_arms ! 2) else if n = 0x07 then Some (command_unpack_arms ! 3) else None)"
  by (auto simp: command_unpack_arms_def literal_consts_def)

lemma enum_unpack_command:
  "enum_unpack literal_consts (command_impls append_to) command_derived data =
     Some (map_ok (map_prod command_value id) (Command_unpack data))"
proof (cases "int_unpack data :: u8 unpacked")
  case (Inl e)
  then show ?thesis by (simp add: enum_unpack_def command_derived_def command_impls_def Command_unpack_def)
next
  case (Inr r)
  obtain n rest where r: "r = (n, rest)" by (cases r)
  have "enum_unpack literal_consts (command_impls append_to) command_derived data =
      match_tag literal_consts (command_impls append_to) command_unpack_arms (C_u8 n) rest"
    using Inr r by (simp add: enum_unpack_def command_derived_def command_impls_def)
  also have "\<dots> = Some (map_ok (map_prod command_value id)
      (if n = 0x01 then and_then (CapabilityInformation_unpack rest) (\<lambda>(x, data). Ok (Command_AssociationRequest x, data))
       else if n = 0x02 then and_then (AssociationResponse_unpack rest) (\<lambda>(x, data). Ok (Command_AssociationResponse x, data))
       else if n = 0x04 then Ok (Command_DataRequest, rest)
       else if n = 0x07 then Ok (Command_BeaconRequest, rest) else Err InvalidEnumTag))"
    unfolding match_tag_def command_finds
    by (cases "CapabilityInformation_unpack rest"; cases "AssociationResponse_unpack rest")
      (auto simp: command_unpack_arms_def run_unpack_def command_impls_def)
  finally show ?thesis using Inr r by (simp add: Command_unpack_def)
qed

lemma enum_pack_command:
  "enum_pack literal_consts (command_impls append_to) command_derived (command_value c) t = Some (Command_pack append_to c t)"
  by (cases c)
    (auto simp: enum_pack_def command_derived_def command_pack_arms_def command_impls_def literal_consts_def run_pack_def split: sum.split)

text \<open>
  C15. The code that \<^verbatim>\<open>Pack\<close> derives for the commands of the frames, from their declaration, is the packing and unpacking of
  commands that the frames are modelled with: on all bytes, all commands and all targets.
\<close>

theorem derived_Command_is_model:
  "case impl_pack literal_parser command_declaration of
     Return g \<Rightarrow>
       derived_unpack literal_consts (command_impls append_to) g data = Some (map_ok (map_prod command_value id) (Command_unpack data)) \<and>
       derived_pack literal_consts (command_impls append_to) g (command_value c) t = Some (Command_pack append_to c t)
   | Panic \<Rightarrow> False"
  by (simp add: command_derived enum_unpack_command enum_pack_command)

text \<open>A tag that no variant has is refused.\<close>

lemma ext_unknown_tag:
  fixes g :: "('ty, 'e, 'p) gen_ext_enum" and rc :: "('ty, 'e, 'p, 'a) rust_consts"
  assumes "impl_ext_enum_for_enum syn name attrs w variants = Return g" "constant_tags syn rc has_type (gx_tag_type g) variants"
    and "has_type (gx_tag_type g) tag" "\<forall>variant \<in> set variants. tag_value syn rc (gx_tag_type g) variant \<noteq> Some tag"
  shows "ext_try_from_tag rc g tag = Some (Err InvalidTag)"
proof -
  let ?Q = "\<lambda>(p, _). rc_matches rc p tag"
  have none: "\<not> ?Q arm" if arm: "arm \<in> set (gx_from_arms g)" for arm
  proof -
    obtain v where v: "v \<in> set variants" "get_tag_pat syn v = Ok (fst arm)"
      using list_all2_right [OF ext_derived(3) [OF assms(1)] arm] by blast
    have "is_ok (get_tag_expr syn v)"
      using ext_Panic [of syn name attrs w variants] assms(1) v(1) by (auto simp: tags_parse_def)
    then obtain e where e: "get_tag_expr syn v = Ok e" by (cases "get_tag_expr syn v") auto
    have "rc_matches rc (fst arm) tag \<longleftrightarrow> tag = rc_eval rc (gx_tag_type g) e"
      using assms(2,3) v e unfolding constant_tags_def by blast
    moreover have "rc_eval rc (gx_tag_type g) e \<noteq> tag" using assms(4) v(1) e by (auto simp: tag_value_def)
    ultimately show ?thesis by (simp add: case_prod_unfold)
  qed
  then have "List.find ?Q (gx_from_arms g) = None" unfolding find_None_iff by blast
  then show ?thesis by (simp add: ext_try_from_tag_def)
qed

text \<open>
  C27. For an enum the macro accepts, in which the tags are constants of the tag type and no two variants have equal tags,
  what \<^verbatim>\<open>ExtEnum\<close> derives is a bijection between the variants and their tags: the tag of a variant is the constant
  declared for it and leads back to the variant, and a tag that is declared for none is refused.  (The macro accepts equal
  tags too; then the tag leads back to the first variant only.)
\<close>

theorem derived_ext_enum_bijective:
  fixes g :: "('ty, 'e, 'p) gen_ext_enum" and rc :: "('ty, 'e, 'p, 'a) rust_consts"
  assumes "impl_ext_enum syn ast = Return g" "di_data ast = Data_Enum variants"
    and "declaration_ok syn rc has_type ast" "has_type (gx_tag_type g) tag"
  shows "(\<forall>variant \<in> set variants. \<exists>t. tag_value syn rc (gx_tag_type g) variant = Some t \<and>
      ext_into_tag rc g (variant_value (di_ident ast) variant []) = Some t \<and>
      ext_try_from_tag rc g t = Some (Ok (variant_value (di_ident ast) variant []))) \<and>
    ((\<forall>variant \<in> set variants. tag_value syn rc (gx_tag_type g) variant \<noteq> Some tag) \<longrightarrow>
      ext_try_from_tag rc g tag = Some (Err InvalidTag))"
proof -
  have g: "impl_ext_enum_for_enum syn (di_ident ast) (di_attrs ast) (di_where_clause ast) variants = Return g"
    using assms(1,2) by (simp add: impl_ext_enum_def)
  have ok: "variants_ok variants" "constant_tags syn rc has_type (gx_tag_type g) variants"
    using assms(2,3) ext_derived(1) [OF g] by (simp_all add: declaration_ok_def)
  show ?thesis using ext_inverse [OF g ok(2,1)] ext_unknown_tag [OF g ok(2) assms(4)] by blast
qed

text \<open>The declaration of \<^verbatim>\<open>DeviceType\<close>, whose tags are its discriminants.\<close>

definition device_variant :: "ident \<Rightarrow> u8 \<Rightarrow> (u8 + command_type, command_type) variant" where
  "device_variant name tag = \<lparr>va_ident = name, va_attrs = [], va_fields = Fields_Unit, va_discriminant = Some (Inl tag)\<rparr>"

definition device_declaration :: "(u8 + command_type, command_type) derive_input" where
  "device_declaration =
     \<lparr>di_ident = ''DeviceType'', di_attrs = [simple_attribute ''tag_type'' (Inr Ty_u8)], di_where_clause = None,
      di_data = Data_Enum [device_variant ''RFD'' 0, device_variant ''FFD'' 1]\<rparr>"

definition device_derived :: "(command_type, u8, u8) gen_ext_enum" where
  "device_derived =
     \<lparr>gx_name = ''DeviceType'', gx_where = [], gx_tag_type = Ty_u8,
      gx_into_arms = [(Shape_Unit [''DeviceType'', ''RFD''], 0), (Shape_Unit [''DeviceType'', ''FFD''], 1)],
      gx_from_arms = [(0, Shape_Unit [''DeviceType'', ''RFD'']), (1, Shape_Unit [''DeviceType'', ''FFD''])]\<rparr>"

lemma device_tags: "get_tag_expr literal_parser (device_variant name tag) = Ok tag" "get_tag_pat literal_parser (device_variant name tag) = Ok tag"
  by (simp_all add: device_variant_def literal_parser_def get_tag_expr_def get_tag_pat_def)

lemma device_arms:
  "enum_tag_arm literal_parser ''DeviceType'' (device_variant name tag) = Return (Shape_Unit [''DeviceType'', name], tag)"
  "enum_from_arm literal_parser ''DeviceType'' (device_variant name tag) = Return (tag, Shape_Unit [''DeviceType'', name])"
  unfolding enum_tag_arm_def enum_from_arm_def device_tags
  by (simp_all add: device_variant_def deconstruct_from_enum_variant_def construct_from_enum_variant_def)

lemma device_derived: "impl_ext_enum literal_parser device_declaration = Return device_derived"
  by (simp add: impl_ext_enum_def device_declaration_def impl_ext_enum_for_enum_def command_tag_type device_arms extra_where_def
      device_derived_def)

lemma device_ok: "declaration_ok literal_parser literal_consts command_typed device_declaration"
proof -
  have "va_ident (device_variant name tag) = name \<and> va_fields (device_variant name tag) = Fields_Unit" for name tag
    by (simp add: device_variant_def)
  then show ?thesis
    by (simp add: declaration_ok_def device_declaration_def command_tag_type variants_ok_def constant_tags_def tag_value_def
        device_tags literal_consts_def)
qed

theorem derived_ext_enum_bijective_witness:
  "ext_into_tag literal_consts device_derived (RV_Unit [''DeviceType'', ''FFD'']) = Some (C_u8 1) \<and>
   ext_try_from_tag literal_consts device_derived (C_u8 1) =
     Some (Ok (RV_Unit [''DeviceType'', ''FFD''])) \<and>
   ext_try_from_tag literal_consts device_derived (C_u8 2) =
     Some (Err InvalidTag)"
proof -
  have "device_variant ''FFD'' 1 \<in> set [device_variant ''RFD'' 0, device_variant ''FFD'' 1]" by simp
  then show ?thesis
    using derived_ext_enum_bijective [OF device_derived _ device_ok, where tag = "C_u8 2"
        and variants = "[device_variant ''RFD'' 0, device_variant ''FFD'' 1]"]
    by (simp add: device_declaration_def device_derived_def tag_value_def device_tags)
      (simp add: literal_consts_def variant_value_def device_variant_def)
qed

end
