(* ===== verification/Spec2Isabelle.thy ===== *)
theory Spec2Isabelle
  imports Runtime Crates Pack Frame Raw_Radio Radio Pib Services Pending_Table Combined_Pending_Table
    Device_Queue Data_Service Management Mac_Service Whole_Stack Main_Loop Mru_Set Ccm_Star Mmo_Hash
    Serial_Codec Radio_Bridge Parse_Serialize Zigbee_Security Zigbee_Nwk Zigbee_Aps
    Old_Frame Delay_Queue Old_Queue Old_Service Old_Service_Invariant Old_Service_Polling Old_Service_History
    Pack_Derive Derived_Code
begin

text \<open>
  A verification of the ZigBee playground: an IEEE 802.15.4 coordinator in Rust that drives a
  CC2531 radio over a serial port, the stack it replaced, and the derive macros both rest on.

  \<^bold>\<open>The program.\<close>  Four layers run as tasks that exchange messages over channels.  The raw radio
  protocol (\<^verbatim>\<open>src/src/radio/raw.rs\<close>) frames messages on the serial port.  The radio service
  (\<^verbatim>\<open>src/src/radio/mod.rs\<close>) turns requests into raw messages and matches the answers to them by a
  random identifier.  The MAC service (\<^verbatim>\<open>src/src/ieee802154/mac/\<close>) keeps the PAN information base,
  queues the frames of each device, tells the radio for which devices frames are pending, and
  serves MLME and MCPS requests.  The main loop (\<^verbatim>\<open>src/src/main.rs\<close>) starts a network and admits
  devices.  The macros of \<^verbatim>\<open>src/pack_derive/\<close> generate the packing of the frames.

  The earlier stack (\<^verbatim>\<open>src/old_src/\<close>) has the same layers in an older form, a serial codec and a
  bridge to the radio, a MAC service over a transmit queue, and above them the frames of the ZigBee
  network and application layers with their security.

  \<^bold>\<open>Theories of the present stack.\<close>
  \<^item> \<open>Prelude\<close>: results, panics (\<open>outcome\<close>), polls, bytes in both orders, hash maps as association
    lists whose order an iteration may not rely on, and the lemma collections.
  \<^item> \<open>Crates\<close>: what the program relies on of the crates \<^verbatim>\<open>bitfield\<close>, \<^verbatim>\<open>bimap\<close>, \<^verbatim>\<open>nom\<close> and
    \<^verbatim>\<open>cookie-factory\<close>, each as a locale over the operations used, interpreted on an executable
    instance.  The model takes these operations as arguments.
  \<^item> \<open>Runtime\<close>: \<^verbatim>\<open>unique_key.rs\<close>, \<^verbatim>\<open>waker_store.rs\<close>, \<^verbatim>\<open>async_std_executor.rs\<close>.
  \<^item> \<open>Pack\<close>: \<^verbatim>\<open>pack/\<close>, the serialisation traits and the vector and slice targets; \<open>Frame\<close>:
    \<^verbatim>\<open>ieee802154/frame.rs\<close>, the frames with their packing and unpacking.
  \<^item> \<open>Pack_Derive\<close>: \<^verbatim>\<open>pack_derive/\<close>, the derivations as functions from declarations to generated
    code, with the meaning of that code; \<open>Derived_Code\<close>: what holds of it, under the locale
    \<open>field_impls\<close> on the implementations of the field types.
  \<^item> \<open>Raw_Radio\<close>: \<^verbatim>\<open>radio/raw.rs\<close>, the message codec, the sink with its partial writes and the
    stream with its circular buffer; \<open>Radio\<close>: \<^verbatim>\<open>radio/mod.rs\<close>, requests, responses and the two tasks
    on the shared map of parsers.
  \<^item> \<open>Pib\<close>: \<^verbatim>\<open>ieee802154/pib.rs\<close> and \<^verbatim>\<open>services/error.rs\<close>; \<open>Services\<close>: the messages of
    \<^verbatim>\<open>services/mlme.rs\<close> and \<^verbatim>\<open>services/mcps.rs\<close>.
  \<^item> \<open>Pending_Table\<close>, \<open>Combined_Pending_Table\<close>, \<open>Device_Queue\<close>, \<open>Data_Service\<close>, \<open>Management\<close>,
    \<open>Mac_Service\<close>: the files \<^verbatim>\<open>pendingtable.rs\<close>, \<^verbatim>\<open>combinedpendingtable.rs\<close>, \<^verbatim>\<open>devicequeue.rs\<close>,
    \<^verbatim>\<open>data.rs\<close>, \<^verbatim>\<open>management.rs\<close> and \<^verbatim>\<open>service.rs\<close> of \<^verbatim>\<open>ieee802154/mac/\<close>.
  \<^item> \<open>Whole_Stack\<close>: the MAC service, the radio service and the serial port composed, in both directions.
  \<^item> \<open>Main_Loop\<close>: the function \<^verbatim>\<open>mainloop\<close> of \<^verbatim>\<open>main.rs\<close>.

  \<^bold>\<open>Theories of the earlier stack\<close> (files under \<^verbatim>\<open>src/old_src/\<close>).
  \<^item> \<open>Serial_Codec\<close>, \<open>Radio_Bridge\<close>: \<^verbatim>\<open>radio_bridge/serial_protocol.rs\<close>, \<^verbatim>\<open>raw_service.rs\<close> and
    \<^verbatim>\<open>service.rs\<close>, the commands on the serial port, the dispatcher of requests and the radio.
  \<^item> \<open>Mru_Set\<close>: \<^verbatim>\<open>mru_set.rs\<close>, the most-recently-used set; \<open>Delay_Queue\<close>: \<^verbatim>\<open>delayqueue.rs\<close> and
    \<^verbatim>\<open>cachemap.rs\<close> over tokio's delay queue (locales \<open>tokio_delay_queue\<close> and \<open>tokio_running\<close>).
  \<^item> \<open>Old_Frame\<close>: \<^verbatim>\<open>ieee802154/mac/frame.rs\<close>; \<open>Old_Queue\<close>: \<^verbatim>\<open>mac/device_queue.rs\<close> and \<^verbatim>\<open>mac/queue.rs\<close>
    with the set of pending addresses (locale \<open>address_queue\<close>, reachable states \<open>queue_reach\<close>).
  \<^item> \<open>Old_Service\<close>: \<^verbatim>\<open>mac/service.rs\<close> and the event loop of \<^verbatim>\<open>main.rs\<close>; \<open>Old_Service_Invariant\<close>: its
    reachable states (\<open>service_reach\<close>) and their invariant, in the locale \<open>service_parts\<close>;
    \<open>Old_Service_Polling\<close>: polls, their end, and the start of the network; \<open>Old_Service_History\<close>: the
    addresses whose pending bit was set last, from the calls since the start.
  \<^item> \<open>Parse_Serialize\<close>: what the frames of the upper layers rely on of the module \<^verbatim>\<open>parse_serialize\<close>,
    which the repository lacks; \<open>Zigbee_Nwk\<close>, \<open>Zigbee_Aps\<close>: \<^verbatim>\<open>zigbee/nwk/\<close> and \<^verbatim>\<open>zigbee/aps/\<close>.
  \<^item> \<open>Ccm_Star\<close>, \<open>Mmo_Hash\<close>, \<open>Zigbee_Security\<close>: \<^verbatim>\<open>zigbee/security/\<close>, the CBC-MAC and CCM* modes, the
    hash, and the protection of frames.  The block cipher and the keyed hash are arguments.

  \<^bold>\<open>Correspondence.\<close>  A struct is a record, an enum a datatype, and a method \<^verbatim>\<open>T::f\<close> the function
  \<open>T_f\<close>, which takes the state as its last argument and returns the new one.  A method that can
  panic returns \<open>Panic\<close> or \<open>Return\<close>.  Machine integers are words, \<^verbatim>\<open>usize\<close> is \<open>nat\<close>.  Random
  numbers, fresh unique keys, timers and the waker of a context are arguments, so a theorem holds
  for whatever they are; where it needs keys to be fresh it says so.  A channel is a record with
  the messages sent or arrived and whether it is open.  An \<^verbatim>\<open>async\<close> loop is a function over a list of
  events (arrivals and turns), or an inductive step relation with its reachable states; both range
  over all interleavings.  A crate, the absent module and the implementations that generic code is
  used with are arguments, and what is relied on of them is a locale, interpreted on an instance.

  \<^bold>\<open>What is shown.\<close>
  \<^item> Codecs: frames and raw messages (of at most 65527 data bytes) survive packing and unpacking,
    whatever the reads and writes of the port are cut into (\<open>Frame\<close>, \<open>Raw_Radio\<close>, \<open>Old_Frame\<close>);
    commands with data survive unless a piece ends within the magic bytes (\<open>Serial_Codec\<close>); packing
    into a slice agrees with a vector.
  \<^item> Derived code: it packs and unpacks every accepted declaration whose tags differ consistently, the
    derivations agree with each other, and the code for the commands is their model (\<open>Derived_Code\<close>).
  \<^item> Radio service: every request has one response or is waiting, and an answer reaches the
    request it belongs to (\<open>Radio\<close>, \<open>Radio_Bridge\<close>).
  \<^item> Pending tables: one table refines a bounded list of most recently used values; the radio's
    copy equals both tables whenever nothing is in flight (\<open>Pending_Table\<close>,
    \<open>Combined_Pending_Table\<close>, \<open>Mru_Set\<close>, \<open>Old_Service_History\<close>).
  \<^item> Queues: each accepted request is reported, removed or queued, exactly once; success is
    reported only for a frame that was sent and, if asked for, acknowledged; retries and indirect
    transmissions are bounded (\<open>Device_Queue\<close>); the retry loop of the data service ends and
    confirms each handle once (\<open>Data_Service\<close>); the queue of the earlier stack answers each
    request once, never panics and never waits without a timer (\<open>Old_Queue\<close>).
  \<^item> MAC service: it never panics while the channels are open and the packets are frames, confirms
    MLME requests in order and MCPS requests once, and sends only frames that unpack; the radio's
    parameters follow the PIB (\<open>Management\<close>, \<open>Mac_Service\<close>).  The service of the earlier stack keeps
    to the protocol of its queue and gives each device an address of its own (\<open>Old_Service_Polling\<close>).
  \<^item> Whole stack, for raw messages of at most 65527 data bytes: the packets that reach the radio are
    those of the service, in order, and frames; and what a radio that hears frames writes to the port
    never makes the service panic (\<open>Whole_Stack\<close>).
  \<^item> Main loop: its requests bring up the network, and a device that asks for it is admitted
    (\<open>Main_Loop\<close>).
  \<^item> Security: decryption accepts exactly what encryption yields, nonces of different frames differ,
    and the hash is the chain of its blocks (\<open>Ccm_Star\<close>, \<open>Zigbee_Security\<close>, \<open>Mmo_Hash\<close>).
  \<^item> Defects the model shows in the present stack: the check of the reserved receive-mode bits, the
    maximum power after a reset, the capability byte that is not written, the retransmission that
    nobody wakes, the oversized raw message and the packet that stops the MAC service; and in the
    earlier one: the shift in the 64-bit length of the hash, the set with a single slot, the codec's
    underflow and empty command, the request counter of 16 bits, the identifier of the key-load key,
    the truncated beacon order, acknowledgements of the application layer that write nothing, an
    acknowledgement not announced as flushed, the sequence number that wears out after 255 events,
    the ended packet stream that is polled for ever, and reserved short addresses handed out.

  \<^bold>\<open>Fuel and termination.\<close>  The loops of the present stack need no fuel: the stream and the data
  service end by measures (bytes and waits left in the source; work left in the queues).  The search
  for a free request identifier runs over the numbers drawn, with \<open>None\<close> when they run out; the
  start-up dialogue returns \<open>None\<close> when an awaited answer does not come.  In the earlier stack four
  loops take fuel, since what they poll is an argument, and a theorem gives how much is enough: one
  more than the timers due for \<open>CacheMap_poll\<close> and \<open>Queue_poll_timers\<close>, one more than the packets
  arrived for \<open>OldService_poll_packets\<close>, and one more than the work in the queue for
  \<open>OldService_poll_queue\<close>.

  \<^bold>\<open>Not modelled.\<close>  Input and output of both \<^verbatim>\<open>main\<close> functions (serial port, packet capture) and
  \<^verbatim>\<open>start_radio\<close>; \<^verbatim>\<open>println!\<close> and \<^verbatim>\<open>Debug\<close>; the entry points of the macros, which only parse tokens;
  \<^verbatim>\<open>radio_backed_param.rs\<close>, which no module includes and which does not parse; \<^verbatim>\<open>ackmap.rs\<close>, whose body
  is \<^verbatim>\<open>unimplemented!\<close>; the mutex around a cache map and the task that polls it; the capacity of byte
  buffers; and the tests.
\<close>

end
